(* ===== verification/Prelude.thy ===== *)
theory Prelude
  imports Main "HOL-Library.Word" "HOL-Library.Monad_Syntax"
begin

text \<open>
  Shared vocabulary of the development: the machine types of the 32-bit MIPS target, the
  error codes and alignment macros of \<^verbatim>\<open>kernel/include/c.h\<close>, the word-granular memory that
  the list and heap code mutates, and the generic facts on words, lists and options that the
  component theories use.

  An operation that may panic (a failed \<^verbatim>\<open>assert\<close> or a call of \<^verbatim>\<open>panic\<close>) or whose loop need
  not end has an \<^typ>\<open>'a option\<close> result: \<^term>\<open>None\<close> means that control never comes back to
  the caller. Error codes are ordinary return values.
\<close>

unbundle bit_operations_syntax

section \<open>Machine types\<close>

type_synonym u8 = "8 word"
type_synonym u32 = "32 word"

text \<open>Word-granular memory: the value of the aligned 32-bit cell at a byte address.\<close>

type_synonym mem = "u32 \<Rightarrow> u32"

text \<open>An unused pointer value, \<^verbatim>\<open>NULL\<close> of \<^verbatim>\<open>c.h\<close>.\<close>

abbreviation (input) NULL :: u32 where "NULL \<equiv> 0"

text \<open>Collections: \<open>W_simps\<close> moves word arithmetic on addresses to \<^typ>\<open>nat\<close>,
  \<open>mem_simps\<close> holds the read-over-write facts of the memory accessors.\<close>

named_theorems W_simps
named_theorems mem_simps

section \<open>Error codes\<close>

definition EOK :: u32 where "EOK = 0"
definition EAGAIN :: u32 where "EAGAIN = -11"
definition ENOMEM :: u32 where "ENOMEM = -12"
definition EINVAL :: u32 where "EINVAL = -22"
definition ENOSYS :: u32 where "ENOSYS = -38"
definition ETIMEDOUT :: u32 where "ETIMEDOUT = -145"
definition EKILLED :: u32 where "EKILLED = -666"

lemmas error_codes = EOK_def EAGAIN_def ENOMEM_def EINVAL_def ENOSYS_def ETIMEDOUT_def EKILLED_def

lemma error_codes_distinct [simp]:
  "ENOMEM \<noteq> EOK" "EINVAL \<noteq> EOK" "EAGAIN \<noteq> EOK" "EOK \<noteq> ENOMEM" "EOK \<noteq> EINVAL" "EOK \<noteq> EAGAIN"
  "ENOMEM \<noteq> EINVAL" "EINVAL \<noteq> ENOMEM"
  by (simp_all add: error_codes)

section \<open>Assertions\<close>

text \<open>\<^verbatim>\<open>assert (expr)\<close> of \<^verbatim>\<open>lib/debug.h\<close> in a debugging kernel: panic unless the condition holds.\<close>

definition kassert :: "bool \<Rightarrow> unit option" where
  "kassert b = (if b then Some () else None)"

lemma kassert_simps [simp]: "kassert True = Some ()" "kassert False = None"
  by (simp_all add: kassert_def)

lemma kassert_eq_Some [simp]: "kassert b = Some u \<longleftrightarrow> b"
  by (simp add: kassert_def)

lemma bind_eq_SomeE:
  assumes "Option.bind x f = Some r"
  obtains y where "x = Some y" and "f y = Some r"
  using assms by (cases x) auto

section \<open>Alignment\<close>

definition ALIGN_DOWN :: "u32 \<Rightarrow> u32 \<Rightarrow> u32" where
  "ALIGN_DOWN sz align = sz AND NOT (align - 1)"

definition ALIGN_UP :: "u32 \<Rightarrow> u32 \<Rightarrow> u32" where
  "ALIGN_UP sz align = (sz + (align - 1)) AND NOT (align - 1)"

lemma and_not_mask_eq: "(x :: 'a::len word) AND NOT (mask n) = push_bit n (drop_bit n x)"
  by (rule bit_eqI) (auto simp: bit_simps)

lemma unat_and_not_mask: "unat ((x :: 'a::len word) AND NOT (mask n)) = unat x - unat x mod 2 ^ n"
proof -
  have "x = (x AND NOT (mask n)) + take_bit n x"
    by (metis and_not_mask_eq bits_ident)
  then have "x AND NOT (mask n) = x - take_bit n x"
    by (simp add: eq_diff_eq)
  moreover have "take_bit n x \<le> x"
    by (metis and_mask_lt_2p take_bit_eq_mask word_and_le2)
  ultimately have "unat (x AND NOT (mask n)) = unat x - take_bit n (unat x)"
    by (simp add: unat_sub unsigned_take_bit_eq)
  then show ?thesis
    by (simp add: take_bit_eq_mod)
qed

lemma unat_ALIGN_DOWN: "unat (ALIGN_DOWN x (2 ^ n)) = unat x - unat x mod 2 ^ n"
  using unat_and_not_mask [of x n] by (simp add: ALIGN_DOWN_def mask_eq_exp_minus_1)

lemma ALIGN_DOWN_eq_iff: "ALIGN_DOWN x (2 ^ n) = x \<longleftrightarrow> 2 ^ n dvd unat x"
proof -
  have "ALIGN_DOWN x (2 ^ n) = x \<longleftrightarrow> unat x - unat x mod 2 ^ n = unat x"
    using word_unat_eq_iff [of "ALIGN_DOWN x (2 ^ n)" x] by (simp only: unat_ALIGN_DOWN)
  also have "\<dots> \<longleftrightarrow> unat x mod 2 ^ n = 0"
    using mod_less_eq_dividend [of "unat x" "2 ^ n"] by linarith
  finally show ?thesis by (simp add: dvd_eq_mod_eq_0)
qed

lemma ALIGN_UP_eq_DOWN: "ALIGN_UP x a = ALIGN_DOWN (x + (a - 1)) a"
  by (simp add: ALIGN_UP_def ALIGN_DOWN_def)

section \<open>Addresses as natural numbers\<close>

text \<open>\<open>W n\<close> is the machine word of the number \<open>n\<close>. Proofs about address arithmetic are done
  on \<^typ>\<open>nat\<close>: sums need no side condition, comparisons and differences need the bound that
  rules out wrap-around.\<close>

abbreviation W :: "nat \<Rightarrow> u32" where "W \<equiv> word_of_nat"

lemma W_add [W_simps]: "W a + W b = W (a + b)"
  by simp

lemma W_add_numeral [W_simps]: "W a + numeral n = W (a + numeral n)"
  by simp

lemma W_diff [W_simps]: "b \<le> a \<Longrightarrow> W a - W b = W (a - b)"
  by (simp add: of_nat_diff)

lemma W_diff_numeral [W_simps]: "numeral n \<le> a \<Longrightarrow> W a - numeral n = W (a - numeral n)"
  by (simp add: of_nat_diff)

lemma unat_W [W_simps]: "a < 2 ^ 32 \<Longrightarrow> unat (W a) = a"
  by (simp add: unsigned_of_nat take_bit_nat_eq_self)

lemma W_less_iff [W_simps]: "a < 2 ^ 32 \<Longrightarrow> b < 2 ^ 32 \<Longrightarrow> W a < W b \<longleftrightarrow> a < b"
  by (simp add: word_less_nat_alt unat_W)

lemma W_le_iff [W_simps]: "a < 2 ^ 32 \<Longrightarrow> b < 2 ^ 32 \<Longrightarrow> W a \<le> W b \<longleftrightarrow> a \<le> b"
  by (simp add: word_le_nat_alt unat_W)

lemma W_eq_iff [W_simps]: "a < 2 ^ 32 \<Longrightarrow> b < 2 ^ 32 \<Longrightarrow> W a = W b \<longleftrightarrow> a = b"
  by (simp only: word_unat_eq_iff [of "W a"] unat_W)

lemma W_unat [simp]: "W (unat x) = x"
  by simp

lemma W_eq_0_iff [W_simps]: "a < 2 ^ 32 \<Longrightarrow> W a = 0 \<longleftrightarrow> a = 0"
  using W_eq_iff [of a 0] by simp

lemma unat_add_bounded: "unat a + unat b < 2 ^ 32 \<Longrightarrow> unat (a + b :: u32) = unat a + unat b"
  by (simp add: unat_word_ariths)

lemma unat_u32_less: "unat (x :: u32) < 2 ^ 32"
  using unsigned_less [of x] by simp

section \<open>Sequences of calls\<close>

text \<open>A client's calls, one after the other: their execution, and what the client owes for each of them, on the abstract state.\<close>

primrec run_calls :: "('c \<Rightarrow> 's \<Rightarrow> 's option) \<Rightarrow> 'c list \<Rightarrow> 's \<Rightarrow> 's option" where
  "run_calls exec [] s = Some s"
| "run_calls exec (c # cs) s = Option.bind (exec c s) (run_calls exec cs)"

primrec calls_ok :: "('c \<Rightarrow> 'a \<Rightarrow> bool) \<Rightarrow> ('c \<Rightarrow> 'a \<Rightarrow> 'a) \<Rightarrow> 'c list \<Rightarrow> 'a \<Rightarrow> bool" where
  "calls_ok ok spec [] a \<longleftrightarrow> True"
| "calls_ok ok spec (c # cs) a \<longleftrightarrow> ok c a \<and> calls_ok ok spec cs (spec c a)"

text \<open>The contract of a component whose calls refine an abstract specification: a call that is allowed returns, does what the specification says, and keeps to a
  frame. Sequences of calls then do so too.\<close>

locale call_refinement =
  fixes rel :: "'s \<Rightarrow> 'a \<Rightarrow> bool"
    and exec :: "'c \<Rightarrow> 's \<Rightarrow> 's option"
    and spec :: "'c \<Rightarrow> 'a \<Rightarrow> 'a"
    and ok :: "'c \<Rightarrow> 'a \<Rightarrow> bool"
    and frame :: "'s \<Rightarrow> 's \<Rightarrow> bool"
  assumes call: "rel s a \<Longrightarrow> ok c a \<Longrightarrow> \<exists>s'. exec c s = Some s' \<and> rel s' (spec c a) \<and> frame s s'"
    and frame_refl: "frame s s"
    and frame_trans: "frame s s' \<Longrightarrow> frame s' s'' \<Longrightarrow> frame s s''"
begin

lemma calls_refine:
  "rel s a \<Longrightarrow> calls_ok ok spec cs a \<Longrightarrow> \<exists>s'. run_calls exec cs s = Some s' \<and> rel s' (fold spec cs a) \<and> frame s s'"
proof (induction cs arbitrary: s a)
  case Nil
  then show ?case using frame_refl by simp
next
  case (Cons c cs)
  from call [of s a c] Cons.prems obtain s1 where s1: "exec c s = Some s1" "rel s1 (spec c a)" "frame s s1" by auto
  from Cons.IH [OF s1(2)] Cons.prems obtain s' where "run_calls exec cs s1 = Some s'" "rel s' (fold spec cs (spec c a))" "frame s1 s'" by auto
  with s1 frame_trans show ?case by auto
qed

end

section \<open>Invariants of step relations\<close>

locale step_invariant =
  fixes step :: "'s \<Rightarrow> 's \<Rightarrow> bool"
    and inv :: "'s \<Rightarrow> bool"
  assumes inv_step: "inv s \<Longrightarrow> step s s' \<Longrightarrow> inv s'"
begin

lemma reachable_inv: "step\<^sup>*\<^sup>* s s' \<Longrightarrow> inv s \<Longrightarrow> inv s'"
  by (induction rule: rtranclp_induct) (auto intro: inv_step)

end

end
