(* ===== verification/Links.thy ===== *)
theory Links
  imports Prelude
begin

text \<open>
  The circular doubly linked list of \<^verbatim>\<open>kernel/adt/list.h\<close>. A \<^verbatim>\<open>link_t\<close> at address \<open>p\<close> is the
  two cells \<open>p\<close> (\<^verbatim>\<open>prev\<close>) and \<open>p + 4\<close> (\<^verbatim>\<open>next\<close>) of the memory, a \<^verbatim>\<open>list_t\<close> is its head link, so
  the address of a list is the address of its head. The operations are the statements of the
  inline functions, one memory update each, in their order. \<open>is_list m h xs\<close> relates a memory
  to the abstract sequence \<open>xs\<close> of the item addresses; the lemmas show what every operation does
  to that sequence and which cells it leaves alone.
\<close>

section \<open>The operations\<close>

text \<open>\<^verbatim>\<open>struct link\<close>: read and write access to its two members.\<close>

definition link_prev :: "mem \<Rightarrow> u32 \<Rightarrow> u32" where
  "link_prev m p = m p"

definition link_next :: "mem \<Rightarrow> u32 \<Rightarrow> u32" where
  "link_next m p = m (p + 4)"

definition set_link_prev :: "mem \<Rightarrow> u32 \<Rightarrow> u32 \<Rightarrow> mem" where
  "set_link_prev m p v = m(p := v)"

definition set_link_next :: "mem \<Rightarrow> u32 \<Rightarrow> u32 \<Rightarrow> mem" where
  "set_link_next m p v = m(p + 4 := v)"

definition link_init :: "mem \<Rightarrow> u32 \<Rightarrow> mem option" where
  "link_init m link = do {
     kassert (link \<noteq> NULL);
     let m1 = set_link_prev m link NULL;
     Some (set_link_next m1 link NULL)
   }"

definition list_init :: "mem \<Rightarrow> u32 \<Rightarrow> mem option" where
  "list_init m list = do {
     kassert (list \<noteq> NULL);
     let m1 = set_link_prev m list list;
     Some (set_link_next m1 list list)
   }"

text \<open>A list that is initialized statically, and the address of the structure that holds a link: \<open>offset\<close> is the offset of the member.\<close>

definition LIST_DECLARE :: "mem \<Rightarrow> u32 \<Rightarrow> mem" where
  "LIST_DECLARE m list = set_link_next (set_link_prev m list list) list list"

definition list_container_of :: "u32 \<Rightarrow> u32 \<Rightarrow> u32" where
  "list_container_of ptr offset = ptr - offset"

definition list_item :: "u32 \<Rightarrow> u32 \<Rightarrow> u32" where
  "list_item link offset = list_container_of link offset"

definition link_connected :: "mem \<Rightarrow> u32 \<Rightarrow> bool option" where
  "link_connected m link = do {
     kassert (link \<noteq> NULL);
     Some (link_prev m link \<noteq> NULL \<and> link_next m link \<noteq> NULL)
   }"

definition list_empty :: "mem \<Rightarrow> u32 \<Rightarrow> bool option" where
  "list_empty m list = do {
     kassert (list \<noteq> NULL);
     Some (link_next m list = list)
   }"

definition list_prepend :: "mem \<Rightarrow> u32 \<Rightarrow> u32 \<Rightarrow> mem option" where
  "list_prepend m list link = do {
     kassert (list \<noteq> NULL);
     kassert (link \<noteq> NULL);
     let m1 = set_link_next m link (link_next m list);
     let m2 = set_link_prev m1 link list;
     let m3 = set_link_prev m2 (link_next m2 list) link;
     Some (set_link_next m3 list link)
   }"

definition list_append :: "mem \<Rightarrow> u32 \<Rightarrow> u32 \<Rightarrow> mem option" where
  "list_append m list link = do {
     kassert (list \<noteq> NULL);
     kassert (link \<noteq> NULL);
     let m1 = set_link_next m link list;
     let m2 = set_link_prev m1 link (link_prev m1 list);
     let m3 = set_link_next m2 (link_prev m2 list) link;
     Some (set_link_prev m3 list link)
   }"

definition list_remove :: "mem \<Rightarrow> u32 \<Rightarrow> mem option" where
  "list_remove m link = do {
     kassert (link \<noteq> NULL);
     connected \<leftarrow> link_connected m link;
     let m2 = (if connected then
                 (let m1 = set_link_prev m (link_next m link) (link_prev m link)
                  in set_link_next m1 (link_prev m1 link) (link_next m1 link))
               else m);
     link_init m2 link
   }"

text \<open>The popped item and the new memory; the item is \<^verbatim>\<open>NULL\<close> when the list is empty.\<close>

definition list_pop :: "mem \<Rightarrow> u32 \<Rightarrow> (u32 \<times> mem) option" where
  "list_pop m list = do {
     kassert (list \<noteq> NULL);
     empty \<leftarrow> list_empty m list;
     if empty then Some (NULL, m)
     else do {
       let item = link_next m list;
       m1 \<leftarrow> list_remove m item;
       Some (item, m1)
     }
   }"

definition list_rotate :: "mem \<Rightarrow> u32 \<Rightarrow> (u32 \<times> mem) option" where
  "list_rotate m list = do {
     kassert (list \<noteq> NULL);
     empty \<leftarrow> list_empty m list;
     if empty then Some (NULL, m)
     else do {
       (item, m1) \<leftarrow> list_pop m list;
       m2 \<leftarrow> list_append m1 list item;
       Some (item, m2)
     }
   }"

text \<open>The \<^verbatim>\<open>list_foreach\<close> macro as a search: visit the items from \<open>link\<close> on until the head comes
  round, and stop at the first one satisfying \<open>P\<close>; \<^verbatim>\<open>NULL\<close> when there is none. This is the shape
  of every loop of the kernel that uses the macro and breaks out of it.\<close>

partial_function (option) list_search :: "mem \<Rightarrow> u32 \<Rightarrow> (u32 \<Rightarrow> bool) \<Rightarrow> u32 \<Rightarrow> u32 option" where
  "list_search m list P link =
     (if link = list then Some NULL
      else if P link then Some link
      else list_search m list P (link_next m link))"

definition list_foreach_find :: "mem \<Rightarrow> u32 \<Rightarrow> (u32 \<Rightarrow> bool) \<Rightarrow> u32 option" where
  "list_foreach_find m list P = list_search m list P (link_next m list)"

section \<open>Abstraction\<close>

text \<open>The cells of a set of links, and the condition that links do not overlap: no link starts at
  the second cell of another one.\<close>

definition link_cells :: "u32 set \<Rightarrow> u32 set" where
  "link_cells S = S \<union> (\<lambda>p. p + 4) ` S"

definition links_sep :: "u32 set \<Rightarrow> bool" where
  "links_sep S \<longleftrightarrow> (\<forall>p \<in> S. \<forall>q \<in> S. p \<noteq> q + 4)"

text \<open>\<open>lseg m p xs q\<close>: following \<^verbatim>\<open>next\<close> from \<open>p\<close> visits \<open>xs\<close> and then \<open>q\<close>, and the \<^verbatim>\<open>prev\<close>
  pointers go the way back.\<close>

fun lseg :: "mem \<Rightarrow> u32 \<Rightarrow> u32 list \<Rightarrow> u32 \<Rightarrow> bool" where
  "lseg m p [] q \<longleftrightarrow> link_next m p = q \<and> link_prev m q = p"
| "lseg m p (x # xs) q \<longleftrightarrow> link_next m p = x \<and> link_prev m x = p \<and> lseg m x xs q"

definition is_list :: "mem \<Rightarrow> u32 \<Rightarrow> u32 list \<Rightarrow> bool" where
  "is_list m h xs \<longleftrightarrow> lseg m h xs h \<and> distinct (h # xs) \<and> NULL \<notin> set (h # xs) \<and>
     links_sep (set (h # xs))"


section \<open>Reads over writes\<close>

lemma link_self_sep [simp]: "(p :: u32) \<noteq> p + 4" "p + 4 \<noteq> (p :: u32)"
  by simp_all

lemma link_rw_same [mem_simps]:
  "link_prev (set_link_prev m p v) q = (if q = p then v else link_prev m q)"
  "link_next (set_link_next m p v) q = (if q = p then v else link_next m q)"
  by (simp_all add: link_prev_def set_link_prev_def link_next_def set_link_next_def)

lemma link_rw_other [mem_simps]:
  "q \<noteq> p + 4 \<Longrightarrow> link_prev (set_link_next m p v) q = link_prev m q"
  "p \<noteq> q + 4 \<Longrightarrow> link_next (set_link_prev m p v) q = link_next m q"
  by (auto simp: link_prev_def set_link_prev_def link_next_def set_link_next_def)

lemma links_sepD: "links_sep S \<Longrightarrow> p \<in> S \<Longrightarrow> q \<in> S \<Longrightarrow> p \<noteq> q + 4"
  by (simp add: links_sep_def)

lemma links_sep_subset: "links_sep S \<Longrightarrow> T \<subseteq> S \<Longrightarrow> links_sep T"
  by (auto simp: links_sep_def)

text \<open>Two memories that agree on the members of the links \<open>S\<close>.\<close>

lemma cells_agree:
  assumes "\<forall>a \<in> link_cells S. m' a = m a" and "p \<in> S"
  shows "link_prev m' p = link_prev m p" and "link_next m' p = link_next m p"
  using assms by (auto simp: link_prev_def link_next_def link_cells_def)

lemma set_link_frame [mem_simps]:
  "a \<noteq> p \<Longrightarrow> set_link_prev m p v a = m a"
  "a \<noteq> p + 4 \<Longrightarrow> set_link_next m p v a = m a"
  by (simp_all add: set_link_prev_def set_link_next_def)

lemma link_cells_mono: "S \<subseteq> T \<Longrightarrow> link_cells S \<subseteq> link_cells T"
  by (auto simp: link_cells_def)

section \<open>Segments\<close>

lemma lseg_append: "lseg m p (xs @ y # ys) q \<longleftrightarrow> lseg m p xs y \<and> lseg m y ys q"
  by (induction xs arbitrary: p) auto

lemma lseg_last: "lseg m p xs q \<Longrightarrow> link_prev m q = last (p # xs)"
  by (induction xs arbitrary: p) auto

lemma lseg_first: "lseg m p xs q \<Longrightarrow> link_next m p = hd (xs @ [q])"
  by (cases xs) auto

lemma lseg_cong:
  assumes "\<And>x. x \<in> set (p # xs) \<Longrightarrow> link_next m' x = link_next m x"
    and "\<And>x. x \<in> set (xs @ [q]) \<Longrightarrow> link_prev m' x = link_prev m x"
  shows "lseg m' p xs q = lseg m p xs q"
  using assms by (induction xs arbitrary: p) auto

text \<open>Redirecting the end of a segment: only the last \<^verbatim>\<open>next\<close> pointer changes.\<close>

lemma lseg_redirect:
  assumes "lseg m p xs q" and "distinct (p # xs)"
    and "\<And>x. x \<in> set (p # xs) \<Longrightarrow> x \<noteq> last (p # xs) \<Longrightarrow> link_next m' x = link_next m x"
    and "\<And>x. x \<in> set xs \<Longrightarrow> link_prev m' x = link_prev m x"
    and "link_next m' (last (p # xs)) = r" and "link_prev m' r = last (p # xs)"
  shows "lseg m' p xs r"
  using assms
proof (induction xs arbitrary: p)
  case Nil
  then show ?case by simp
next
  case (Cons x xs)
  then have "p \<noteq> last (x # xs)" by (metis distinct.simps(2) last_in_set list.distinct(1))
  with Cons.prems(1,3) have nxt: "link_next m' p = x" by simp
  have "lseg m' x xs r"
    using Cons.prems by (intro Cons.IH) (auto split: if_splits)
  with Cons.prems(1,4) nxt show ?case by simp
qed

lemma is_listD:
  assumes "is_list m h xs"
  shows "lseg m h xs h" "distinct (h # xs)" "NULL \<notin> set (h # xs)" "links_sep (set (h # xs))"
    "h \<noteq> NULL" "h \<notin> set xs"
  using assms by (auto simp: is_list_def)

lemma is_list_cong:
  assumes "\<forall>a \<in> link_cells (set (h # xs)). m' a = m a"
  shows "is_list m' h xs = is_list m h xs"
proof -
  have "lseg m' h xs h = lseg m h xs h"
    using cells_agree [OF assms] by (intro lseg_cong) auto
  then show ?thesis by (simp add: is_list_def)
qed

lemma is_list_frame:
  assumes "is_list m h xs" and "\<forall>a. a \<notin> C \<longrightarrow> m' a = m a" and "link_cells (set (h # xs)) \<inter> C = {}"
  shows "is_list m' h xs"
  using assms is_list_cong [of h xs m' m] by blast

lemma is_list_empty_iff: "is_list m h [] \<longleftrightarrow> h \<noteq> NULL \<and> link_next m h = h \<and> link_prev m h = h"
  by (auto simp: is_list_def links_sep_def)

lemma list_empty_correct:
  assumes "is_list m h xs"
  shows "list_empty m h = Some (xs = [])"
proof -
  have "link_next m h = hd (xs @ [h])"
    using assms by (intro lseg_first) (rule is_listD)
  moreover have "xs \<noteq> [] \<Longrightarrow> hd xs \<noteq> h"
    using is_listD(6) [OF assms] hd_in_set by metis
  ultimately show ?thesis
    using is_listD(5) [OF assms] by (cases xs) (auto simp: list_empty_def)
qed

section \<open>Effect of the operations\<close>

lemma list_init_correct:
  assumes "h \<noteq> NULL"
  shows "\<exists>m'. list_init m h = Some m' \<and> is_list m' h [] \<and> (\<forall>a. a \<notin> link_cells {h} \<longrightarrow> m' a = m a)"
  using assms by (auto simp: list_init_def is_list_empty_iff mem_simps link_cells_def)

lemma list_declare_correct: "h \<noteq> NULL \<Longrightarrow> is_list (LIST_DECLARE m h) h []"
  by (simp add: LIST_DECLARE_def is_list_empty_iff mem_simps)

lemma list_item_member: "list_item (x + offset) offset = x"
  by (simp add: list_item_def list_container_of_def)

lemma link_init_unconnected:
  assumes "k \<noteq> NULL"
  shows "\<exists>m'. link_init m k = Some m' \<and> link_connected m' k = Some False \<and>
     (\<forall>a. a \<notin> link_cells {k} \<longrightarrow> m' a = m a)"
  using assms by (auto simp: link_init_def link_connected_def mem_simps link_cells_def)

lemma list_append_reads:
  assumes "h \<noteq> NULL" "k \<noteq> NULL" "k \<noteq> h" "links_sep S" "{h, k, l} \<subseteq> S" "l = link_prev m h" "l \<noteq> k"
  shows "\<exists>m'. list_append m h k = Some m' \<and>
     (\<forall>p \<in> S. link_next m' p = (if p = l then k else if p = k then h else link_next m p)) \<and>
     (\<forall>p \<in> S. link_prev m' p = (if p = h then k else if p = k then l else link_prev m p)) \<and>
     (\<forall>a. a \<notin> link_cells {h, k, l} \<longrightarrow> m' a = m a)"
proof -
  note sep = links_sepD [OF assms(4)]
  have [simp]: "link_prev (set_link_next m k h) h = l"
    using assms sep [of h k] by (simp add: mem_simps)
  have [simp]: "link_prev (set_link_prev (set_link_next m k h) k l) h = l"
    using assms by (simp add: mem_simps)
  let ?m = "set_link_prev (set_link_next (set_link_prev (set_link_next m k h) k l) l k) h k"
  have "list_append m h k = Some ?m"
    using assms(1,2) by (simp add: list_append_def Let_def)
  moreover have "\<forall>p \<in> S. link_next ?m p = (if p = l then k else if p = k then h else link_next m p)"
    using assms sep by (simp add: mem_simps)
  moreover have "\<forall>p \<in> S. link_prev ?m p = (if p = h then k else if p = k then l else link_prev m p)"
    using assms sep by (simp add: mem_simps)
  moreover have "\<forall>a. a \<notin> link_cells {h, k, l} \<longrightarrow> ?m a = m a"
    by (simp add: mem_simps link_cells_def)
  ultimately show ?thesis by blast
qed

lemma list_append_correct:
  assumes L: "is_list m h xs" and k: "k \<notin> set (h # xs)" "k \<noteq> NULL"
    and sep: "links_sep (insert k (set (h # xs)))"
  shows "\<exists>m'. list_append m h k = Some m' \<and> is_list m' h (xs @ [k]) \<and>
     (\<forall>a. a \<notin> link_cells (insert k (set (h # xs))) \<longrightarrow> m' a = m a)"
proof -
  let ?S = "insert k (set (h # xs))" and ?l = "last (h # xs)"
  note D = is_listD [OF L]
  have l: "?l = link_prev m h" using lseg_last [OF D(1)] by simp
  have lS: "?l \<in> set (h # xs)" by (rule last_in_set) simp
  with k have lk: "?l \<noteq> k" by metis
  obtain m' where m': "list_append m h k = Some m'"
    and nxt: "\<forall>p \<in> ?S. link_next m' p = (if p = ?l then k else if p = k then h else link_next m p)"
    and prv: "\<forall>p \<in> ?S. link_prev m' p = (if p = h then k else if p = k then ?l else link_prev m p)"
    and frame: "\<forall>a. a \<notin> link_cells {h, k, ?l} \<longrightarrow> m' a = m a"
    using list_append_reads [OF D(5) k(2) _ sep _ l lk] k(1) lS by fastforce
  have "lseg m' h xs k"
  proof (rule lseg_redirect [OF D(1,2)])
    fix x assume "x \<in> set (h # xs)" "x \<noteq> ?l"
    then show "link_next m' x = link_next m x"
      using bspec [OF nxt, of x] k(1) by fastforce
  next
    fix x assume "x \<in> set xs"
    then show "link_prev m' x = link_prev m x"
      using bspec [OF prv, of x] k(1) D(6) by fastforce
  next
    show "link_next m' ?l = k" using bspec [OF nxt, of ?l] lS by simp
    show "link_prev m' k = ?l" using bspec [OF prv, of k] k(1) by simp
  qed
  moreover have "link_next m' k = h" "link_prev m' h = k"
    using nxt prv lk k(1) by auto
  ultimately have "is_list m' h (xs @ [k])"
    using D k sep by (auto simp: is_list_def lseg_append insert_commute)
  moreover have "link_cells {h, k, ?l} \<subseteq> link_cells ?S"
    using lS by (intro link_cells_mono) auto
  ultimately show ?thesis using m' frame by blast
qed

lemma list_prepend_correct:
  assumes L: "is_list m h xs" and k: "k \<notin> set (h # xs)" "k \<noteq> NULL"
    and sep: "links_sep (insert k (set (h # xs)))"
  shows "\<exists>m'. list_prepend m h k = Some m' \<and> is_list m' h (k # xs) \<and>
     (\<forall>a. a \<notin> link_cells (insert k (set (h # xs))) \<longrightarrow> m' a = m a)"
proof -
  let ?S = "insert k (set (h # xs))" and ?r = "hd (xs @ [h])"
  note D = is_listD [OF L] and S = links_sepD [OF sep]
  have r: "link_next m h = ?r" using lseg_first [OF D(1)] .
  have rS: "?r \<in> set (h # xs)" by (cases xs) auto
  with k have rk: "?r \<noteq> k" by metis
  have [simp]: "link_next (set_link_prev (set_link_next m k ?r) k h) h = ?r"
    using r k S [of k h] by (auto simp: mem_simps)
  define m' where "m' = set_link_next (set_link_prev (set_link_prev (set_link_next m k ?r) k h) ?r k) h k"
  have m': "list_prepend m h k = Some m'"
    using k D(5) r by (simp add: list_prepend_def m'_def Let_def)
  have nxt: "\<forall>p \<in> ?S. link_next m' p = (if p = h then k else if p = k then ?r else link_next m p)"
    unfolding m'_def using S rS by (simp add: mem_simps)
  have prv: "\<forall>p \<in> ?S. link_prev m' p = (if p = ?r then k else if p = k then h else link_prev m p)"
    unfolding m'_def using S rS by (simp add: mem_simps)
  have frame: "\<forall>a. a \<notin> link_cells {h, k, ?r} \<longrightarrow> m' a = m a"
    by (simp add: m'_def mem_simps link_cells_def)
  have "lseg m' k xs h"
  proof (cases xs)
    case Nil
    then show ?thesis using nxt prv k by auto
  next
    case (Cons z zs)
    with D have "lseg m z zs h" by auto
    moreover have "lseg m' z zs h = lseg m z zs h"
      using nxt prv D k Cons by (intro lseg_cong) auto
    ultimately show ?thesis using nxt prv Cons k by auto
  qed
  moreover have "link_next m' h = k" "link_prev m' k = h"
    using nxt prv rk k(1) by auto
  ultimately have "is_list m' h (k # xs)"
    using D k sep by (auto simp: is_list_def insert_commute)
  moreover have "link_cells {h, k, ?r} \<subseteq> link_cells ?S"
    using rS by (intro link_cells_mono) auto
  ultimately show ?thesis using m' frame by blast
qed

lemma list_remove_reads:
  assumes "links_sep S" "{x, l, r} \<subseteq> S" "l = link_prev m x" "r = link_next m x"
    "l \<noteq> x" "r \<noteq> x" "NULL \<notin> {x, l, r}"
  shows "\<exists>m'. list_remove m x = Some m' \<and>
     (\<forall>p \<in> S. link_next m' p = (if p = x then NULL else if p = l then r else link_next m p)) \<and>
     (\<forall>p \<in> S. link_prev m' p = (if p = x then NULL else if p = r then l else link_prev m p)) \<and>
     (\<forall>a. a \<notin> link_cells {x, l, r} \<longrightarrow> m' a = m a)"
proof -
  note sep = links_sepD [OF assms(1)]
  have [simp]: "link_prev (set_link_prev m r l) x = l" "link_next (set_link_prev m r l) x = r"
    using assms sep [of r x] by (simp_all add: mem_simps)
  let ?m = "set_link_next (set_link_prev (set_link_next (set_link_prev m r l) l r) x NULL) x NULL"
  have "list_remove m x = Some ?m"
    using assms(3,4) [symmetric] assms(7)
    by (simp add: list_remove_def link_connected_def link_init_def Let_def)
  moreover have "\<forall>p \<in> S. link_next ?m p = (if p = x then NULL else if p = l then r else link_next m p)"
    using assms(2) sep by (simp add: mem_simps)
  moreover have "\<forall>p \<in> S. link_prev ?m p = (if p = x then NULL else if p = r then l else link_prev m p)"
    using assms(2) sep by (simp add: mem_simps)
  moreover have "\<forall>a. a \<notin> link_cells {x, l, r} \<longrightarrow> ?m a = m a"
    by (simp add: mem_simps link_cells_def)
  ultimately show ?thesis by blast
qed

lemma list_remove_correct:
  assumes L: "is_list m h (ys @ x # zs)"
  shows "\<exists>m'. list_remove m x = Some m' \<and> is_list m' h (ys @ zs) \<and> link_connected m' x = Some False \<and>
     (\<forall>a. a \<notin> link_cells (set (h # ys @ x # zs)) \<longrightarrow> m' a = m a)"
proof -
  let ?S = "set (h # ys @ x # zs)" and ?l = "last (h # ys)" and ?r = "hd (zs @ [h])"
  note D = is_listD [OF L]
  have segs: "lseg m h ys x" "lseg m x zs h" using D(1) by (auto simp: lseg_append)
  have l: "?l = link_prev m x" using lseg_last [OF segs(1)] by simp
  have r: "?r = link_next m x" using lseg_first [OF segs(2)] by simp
  have lS: "?l \<in> set (h # ys)" by (rule last_in_set) simp
  have rS: "?r \<in> set (h # zs)" by (cases zs) auto
  have in_S: "{x, ?l, ?r} \<subseteq> ?S" using lS rS by auto
  have ne: "?l \<noteq> x" "?r \<noteq> x" "NULL \<notin> {x, ?l, ?r}"
    using lS rS D(2,3) by (auto simp del: last.simps)
  obtain m' where m': "list_remove m x = Some m'"
    and nxt: "\<forall>p \<in> ?S. link_next m' p = (if p = x then NULL else if p = ?l then ?r else link_next m p)"
    and prv: "\<forall>p \<in> ?S. link_prev m' p = (if p = x then NULL else if p = ?r then ?l else link_prev m p)"
    and fr: "\<forall>a. a \<notin> link_cells {x, ?l, ?r} \<longrightarrow> m' a = m a"
    using list_remove_reads [OF D(4) in_S l r ne] by blast
  have frame: "\<forall>a. a \<notin> link_cells ?S \<longrightarrow> m' a = m a"
    using fr link_cells_mono [OF in_S] by blast
  have left: "lseg m' h ys ?r"
  proof (rule lseg_redirect [OF segs(1)])
    show "distinct (h # ys)" using D(2) by simp
  next
    fix p assume "p \<in> set (h # ys)" "p \<noteq> ?l"
    then show "link_next m' p = link_next m p"
      using bspec [OF nxt, of p] D(2) by fastforce
  next
    fix p assume p: "p \<in> set ys"
    then have "p \<noteq> ?r" "p \<noteq> x" using rS D(2) by auto
    with p show "link_prev m' p = link_prev m p"
      using bspec [OF prv, of p] by simp
  next
    show "link_next m' ?l = ?r" using bspec [OF nxt, of ?l] in_S ne by (simp del: last.simps)
    show "link_prev m' ?r = ?l" using bspec [OF prv, of ?r] in_S ne by (simp del: last.simps)
  qed
  have "lseg m' h (ys @ zs) h"
  proof (cases zs)
    case Nil
    with left show ?thesis by simp
  next
    case (Cons z zs')
    have "lseg m' z zs' h = lseg m z zs' h"
    proof (rule lseg_cong)
      fix p assume p: "p \<in> set (z # zs')"
      then have "p \<noteq> ?l" "p \<noteq> x" using lS D(2) Cons by (auto simp del: last.simps)
      with p show "link_next m' p = link_next m p"
        using bspec [OF nxt, of p] Cons by auto
    next
      fix p assume p: "p \<in> set (zs' @ [h])"
      then have "p \<noteq> ?r" "p \<noteq> x" using D(2) Cons by auto
      with p show "link_prev m' p = link_prev m p"
        using bspec [OF prv, of p] Cons by auto
    qed
    with segs(2) left Cons show ?thesis by (simp add: lseg_append)
  qed
  then have "is_list m' h (ys @ zs)"
    using D links_sep_subset [OF D(4), of "set (h # ys @ zs)"] by (auto simp: is_list_def)
  moreover have "link_connected m' x = Some False"
    using ne bspec [OF prv, of x] by (simp add: link_connected_def)
  ultimately show ?thesis using m' frame by blast
qed

lemma list_remove_unconnected:
  assumes "x \<noteq> NULL" and "link_connected m x = Some False"
  shows "\<exists>m'. list_remove m x = Some m' \<and> link_connected m' x = Some False \<and>
     (\<forall>a. a \<notin> link_cells {x} \<longrightarrow> m' a = m a)"
  using assms link_init_unconnected [OF assms(1), of m] by (auto simp: list_remove_def Let_def)

lemma list_pop_correct:
  assumes "is_list m h (x # xs)"
  shows "\<exists>m'. list_pop m h = Some (x, m') \<and> is_list m' h xs \<and> link_connected m' x = Some False \<and>
     (\<forall>a. a \<notin> link_cells (set (h # x # xs)) \<longrightarrow> m' a = m a)"
proof -
  obtain m' where "list_remove m x = Some m'" "is_list m' h xs" "link_connected m' x = Some False"
    "\<forall>a. a \<notin> link_cells (set (h # x # xs)) \<longrightarrow> m' a = m a"
    using list_remove_correct [of m h "[]" x xs] assms by auto
  moreover have "link_next m h = x" using is_listD(1) [OF assms] by simp
  ultimately show ?thesis
    using list_empty_correct [OF assms] is_listD(5) [OF assms] by (auto simp: list_pop_def)
qed

lemma list_pop_empty:
  assumes "is_list m h []"
  shows "list_pop m h = Some (NULL, m)"
  using list_empty_correct [OF assms] is_listD(5) [OF assms] by (simp add: list_pop_def)

lemma list_rotate_correct:
  assumes "is_list m h (x # xs)"
  shows "\<exists>m'. list_rotate m h = Some (x, m') \<and> is_list m' h (xs @ [x]) \<and>
     (\<forall>a. a \<notin> link_cells (set (h # x # xs)) \<longrightarrow> m' a = m a)"
proof -
  note D = is_listD [OF assms]
  obtain m1 where m1: "list_pop m h = Some (x, m1)" "is_list m1 h xs"
    "\<forall>a. a \<notin> link_cells (set (h # x # xs)) \<longrightarrow> m1 a = m a"
    using list_pop_correct [OF assms] by blast
  obtain m2 where m2: "list_append m1 h x = Some m2" "is_list m2 h (xs @ [x])"
    "\<forall>a. a \<notin> link_cells (insert x (set (h # xs))) \<longrightarrow> m2 a = m1 a"
    using list_append_correct [OF m1(2), of x] D by (auto simp: insert_commute)
  have "list_rotate m h = Some (x, m2)"
    using m1 m2 list_empty_correct [OF assms] D(5) by (simp add: list_rotate_def)
  moreover have "\<forall>a. a \<notin> link_cells (set (h # x # xs)) \<longrightarrow> m2 a = m a"
    using m1(3) m2(3) by (simp add: insert_commute)
  ultimately show ?thesis using m2(2) by blast
qed

lemma list_rotate_empty:
  assumes "is_list m h []"
  shows "list_rotate m h = Some (NULL, m)"
  using list_empty_correct [OF assms] is_listD(5) [OF assms] by (simp add: list_rotate_def)

lemma list_search_lseg:
  assumes "lseg m p xs h" and "h \<notin> set xs"
  shows "list_search m h P (hd (xs @ [h])) = Some (case find P xs of None \<Rightarrow> NULL | Some x \<Rightarrow> x)"
  using assms
proof (induction xs arbitrary: p)
  case Nil
  then show ?case by (simp add: list_search.simps [of m h P h])
next
  case (Cons x xs)
  then have "link_next m x = hd (xs @ [h])" by (auto dest: lseg_first)
  with Cons show ?case by (auto simp: list_search.simps [of m h P x])
qed

lemma list_foreach_find_correct:
  assumes "is_list m h xs"
  shows "list_foreach_find m h P = Some (case find P xs of None \<Rightarrow> NULL | Some x \<Rightarrow> x)"
  using list_search_lseg [of m h xs h P] is_listD [OF assms] lseg_first [of m h xs h]
  by (simp add: list_foreach_find_def)


section \<open>The queue interface\<close>

text \<open>Running a state-changing pop-like operation \<open>n\<close> times and collecting what it returns.\<close>

fun collect :: "('m \<Rightarrow> ('a \<times> 'm) option) \<Rightarrow> nat \<Rightarrow> 'm \<Rightarrow> ('a list \<times> 'm) option" where
  "collect f 0 m = Some ([], m)"
| "collect f (Suc n) m = do { (x, m1) \<leftarrow> f m; (xs, m2) \<leftarrow> collect f n m1; Some (x # xs, m2) }"

text \<open>What a user of an intrusive circular queue relies on: \<open>repr m h xs\<close> says that the queue at
  \<open>h\<close> holds \<open>xs\<close>, \<open>fresh h xs k\<close> that \<open>k\<close> may be linked into it.\<close>

locale ring_queue =
  fixes repr :: "'m \<Rightarrow> 'a \<Rightarrow> 'a list \<Rightarrow> bool"
    and fresh :: "'a \<Rightarrow> 'a list \<Rightarrow> 'a \<Rightarrow> bool"
    and enq :: "'m \<Rightarrow> 'a \<Rightarrow> 'a \<Rightarrow> 'm option"
    and del :: "'m \<Rightarrow> 'a \<Rightarrow> 'm option"
    and rot :: "'m \<Rightarrow> 'a \<Rightarrow> ('a \<times> 'm) option"
  assumes enq_repr: "repr m h xs \<Longrightarrow> fresh h xs k \<Longrightarrow> \<exists>m'. enq m h k = Some m' \<and> repr m' h (xs @ [k])"
    and del_repr: "repr m h (ys @ x # zs) \<Longrightarrow> \<exists>m'. del m x = Some m' \<and> repr m' h (ys @ zs)"
    and rot_repr: "repr m h (x # xs) \<Longrightarrow> \<exists>m'. rot m h = Some (x, m') \<and> repr m' h (xs @ [x])"
begin

lemma rotate_order:
  assumes "repr m h xs" and "xs \<noteq> []"
  shows "\<exists>m'. collect (\<lambda>m. rot m h) n m = Some (map (\<lambda>i. xs ! (i mod length xs)) [0..<n], m') \<and>
     repr m' h (rotate n xs)"
  using assms
proof (induction n arbitrary: m xs)
  case 0
  then show ?case by simp
next
  case (Suc n)
  then obtain y ys where xs: "xs = y # ys" by (cases xs) auto
  obtain m1 where m1: "rot m h = Some (y, m1)" "repr m1 h (ys @ [y])"
    using rot_repr Suc.prems(1) xs by blast
  obtain m2 where m2: "collect (\<lambda>m. rot m h) n m1 =
      Some (map (\<lambda>i. (ys @ [y]) ! (i mod length (ys @ [y]))) [0..<n], m2)"
    "repr m2 h (rotate n (ys @ [y]))"
    using Suc.IH [OF m1(2)] by blast
  have rot1: "ys @ [y] = rotate1 xs" by (simp add: xs)
  have "map (\<lambda>i. (ys @ [y]) ! (i mod length (ys @ [y]))) [0..<n] =
      map (\<lambda>i. xs ! (Suc i mod length xs)) [0..<n]"
    unfolding rot1 using Suc.prems(2) by (simp add: nth_rotate1 mod_Suc_eq)
  also have "y # \<dots> = map (\<lambda>i. xs ! (i mod length xs)) [0..<Suc n]"
    by (simp add: xs upt_conv_Cons map_Suc_upt [symmetric] comp_def del: upt_Suc)
  finally have "collect (\<lambda>m. rot m h) (Suc n) m = Some (map (\<lambda>i. xs ! (i mod length xs)) [0..<Suc n], m2)"
    using m1 m2 by simp
  moreover have "rotate n (ys @ [y]) = rotate (Suc n) xs"
    by (simp add: xs rotate1_rotate_swap rotate_Suc)
  ultimately show ?case using m2(2) by metis
qed

lemma rotate_fair:
  assumes "repr m h xs" and "x \<in> set xs"
  shows "\<exists>ys m'. collect (\<lambda>m. rot m h) (length xs) m = Some (ys, m') \<and> x \<in> set ys \<and> repr m' h xs"
proof -
  from assms(2) have ne: "xs \<noteq> []" by auto
  obtain i where i: "i < length xs" "xs ! i = x" using assms(2) by (auto simp: in_set_conv_nth)
  have eq: "map (\<lambda>i. xs ! (i mod length xs)) [0..<length xs] = xs"
    by (rule nth_equalityI) simp_all
  obtain m' where "collect (\<lambda>m. rot m h) (length xs) m = Some (xs, m')" "repr m' h (rotate (length xs) xs)"
    using rotate_order [OF assms(1) ne, of "length xs"] unfolding eq by blast
  with assms(2) show ?thesis by auto
qed

end

text \<open>The list of \<^verbatim>\<open>list.h\<close> keeps the contract.\<close>

interpretation lk: ring_queue is_list
  "\<lambda>h xs k. k \<notin> set (h # xs) \<and> k \<noteq> NULL \<and> links_sep (insert k (set (h # xs)))"
  list_append list_remove list_rotate
proof unfold_locales
  fix m :: mem and h k x :: u32 and xs ys zs :: "u32 list"
  show "is_list m h xs \<Longrightarrow> k \<notin> set (h # xs) \<and> k \<noteq> NULL \<and> links_sep (insert k (set (h # xs))) \<Longrightarrow>
      \<exists>m'. list_append m h k = Some m' \<and> is_list m' h (xs @ [k])"
    using list_append_correct by blast
  show "is_list m h (ys @ x # zs) \<Longrightarrow> \<exists>m'. list_remove m x = Some m' \<and> is_list m' h (ys @ zs)"
    using list_remove_correct by blast
  show "is_list m h (x # xs) \<Longrightarrow> \<exists>m'. list_rotate m h = Some (x, m') \<and> is_list m' h (xs @ [x])"
    using list_rotate_correct by blast
qed


section \<open>Runs of list operations\<close>

text \<open>A client's calls on one list, their effect on the memory, and the abstract sequence they
  stand for. \<open>lop_ok\<close> is what the caller owes: only a link that is not in the list is put into it,
  and only an item of the list is taken out.\<close>

datatype lop = LAppend u32 | LPrepend u32 | LRemove u32 | LPop | LRotate

fun lop_exec :: "u32 \<Rightarrow> lop \<Rightarrow> mem \<Rightarrow> mem option" where
  "lop_exec h (LAppend k) m = list_append m h k"
| "lop_exec h (LPrepend k) m = list_prepend m h k"
| "lop_exec h (LRemove k) m = list_remove m k"
| "lop_exec h LPop m = map_option snd (list_pop m h)"
| "lop_exec h LRotate m = map_option snd (list_rotate m h)"

fun lop_abs :: "lop \<Rightarrow> u32 list \<Rightarrow> u32 list" where
  "lop_abs (LAppend k) xs = xs @ [k]"
| "lop_abs (LPrepend k) xs = k # xs"
| "lop_abs (LRemove k) xs = remove1 k xs"
| "lop_abs LPop xs = tl xs"
| "lop_abs LRotate xs = rotate1 xs"

fun lop_ok :: "u32 set \<Rightarrow> lop \<Rightarrow> u32 list \<Rightarrow> bool" where
  "lop_ok S (LAppend k) xs \<longleftrightarrow> k \<in> S \<and> k \<notin> set xs"
| "lop_ok S (LPrepend k) xs \<longleftrightarrow> k \<in> S \<and> k \<notin> set xs"
| "lop_ok S (LRemove k) xs \<longleftrightarrow> k \<in> set xs"
| "lop_ok S LPop xs \<longleftrightarrow> True"
| "lop_ok S LRotate xs \<longleftrightarrow> True"

abbreviation lops_exec :: "u32 \<Rightarrow> lop list \<Rightarrow> mem \<Rightarrow> mem option" where
  "lops_exec h \<equiv> run_calls (lop_exec h)"

abbreviation lops_ok :: "u32 set \<Rightarrow> lop list \<Rightarrow> u32 list \<Rightarrow> bool" where
  "lops_ok S \<equiv> calls_ok (lop_ok S) lop_abs"

lemma lop_abs_subset: "set xs \<subseteq> S \<Longrightarrow> lop_ok S e xs \<Longrightarrow> set (lop_abs e xs) \<subseteq> S"
  by (cases e; cases xs) (auto dest: set_mp [OF set_remove1_subset])

lemma lop_exec_refines:
  assumes L: "is_list m h xs" and S: "set xs \<subseteq> S" "h \<notin> S" "NULL \<notin> S" "links_sep (insert h S)"
    and ok: "lop_ok S e xs"
  shows "\<exists>m'. lop_exec h e m = Some m' \<and> is_list m' h (lop_abs e xs) \<and>
     (\<forall>a. a \<notin> link_cells (insert h S) \<longrightarrow> m' a = m a)"
proof -
  have sub: "link_cells (set (h # xs)) \<subseteq> link_cells (insert h S)"
    using S(1) by (intro link_cells_mono) auto
  have ins: "k \<notin> set (h # xs)" "k \<noteq> NULL" "links_sep (insert k (set (h # xs)))"
    "link_cells (insert k (set (h # xs))) \<subseteq> link_cells (insert h S)" if "k \<in> S" "k \<notin> set xs" for k
    using that S by (auto intro: links_sep_subset [OF S(4)] subsetD [OF link_cells_mono, rotated])
  show ?thesis
  proof (cases e)
    case (LAppend k)
    with ok have "k \<in> S" "k \<notin> set xs" by auto
    from ins [OF this] list_append_correct [OF L, of k] LAppend show ?thesis by fastforce
  next
    case (LPrepend k)
    with ok have "k \<in> S" "k \<notin> set xs" by auto
    from ins [OF this] list_prepend_correct [OF L, of k] LPrepend show ?thesis by fastforce
  next
    case (LRemove k)
    with ok obtain ys zs where xs: "xs = ys @ k # zs" "k \<notin> set ys"
      by (auto dest: split_list_first)
    with list_remove_correct [of m h ys k zs] L LRemove sub show ?thesis
      by (fastforce simp: remove1_append)
  next
    case LPop
    with L list_pop_empty [of m h] list_pop_correct [of m h "hd xs" "tl xs"] sub show ?thesis
      by (cases xs) fastforce+
  next
    case LRotate
    with L list_rotate_empty [of m h] list_rotate_correct [of m h "hd xs" "tl xs"] sub show ?thesis
      by (cases xs) fastforce+
  qed
qed

text \<open>The contract of the calls, for a list at \<open>h\<close> and items from \<open>S\<close>.\<close>

interpretation lc: call_refinement "\<lambda>m xs. is_list m h xs \<and> set xs \<subseteq> S \<and> h \<notin> S \<and> NULL \<notin> S \<and> links_sep (insert h S)"
  "lop_exec h" lop_abs "lop_ok S" "\<lambda>m m'. \<forall>a. a \<notin> link_cells (insert h S) \<longrightarrow> m' a = m a" for h S
proof unfold_locales
  fix m xs c
  assume "is_list m h xs \<and> set xs \<subseteq> S \<and> h \<notin> S \<and> NULL \<notin> S \<and> links_sep (insert h S)" and "lop_ok S c xs"
  then show "\<exists>m'. lop_exec h c m = Some m' \<and>
      (is_list m' h (lop_abs c xs) \<and> set (lop_abs c xs) \<subseteq> S \<and> h \<notin> S \<and> NULL \<notin> S \<and> links_sep (insert h S)) \<and>
      (\<forall>a. a \<notin> link_cells (insert h S) \<longrightarrow> m' a = m a)"
    using lop_exec_refines [of m h xs S c] lop_abs_subset [of xs S c] by blast
qed simp_all

text \<open>C40: Every sequence of \<^verbatim>\<open>list_append\<close>, \<^verbatim>\<open>list_prepend\<close>, \<^verbatim>\<open>list_remove\<close>, \<^verbatim>\<open>list_pop\<close> and
  \<^verbatim>\<open>list_rotate\<close> calls on a well-formed list returns (no assertion fails), leaves a well-formed
  list that holds exactly what the sequence operations on the abstract list give, and changes no
  memory outside the links of the list and of the items.\<close>

theorem list_ops_refine_sequences:
  assumes "is_list m h xs" and "set xs \<subseteq> S" and "h \<notin> S" and "NULL \<notin> S" and "links_sep (insert h S)"
    and "lops_ok S es xs"
  shows "\<exists>m'. lops_exec h es m = Some m' \<and> is_list m' h (fold lop_abs es xs) \<and>
     (\<forall>a. a \<notin> link_cells (insert h S) \<longrightarrow> m' a = m a)"
  using lc.calls_refine [of m h xs S es] assms by blast

theorem list_ops_refine_sequences_witness:
  "\<exists>m'. lops_exec 100 [LAppend 8, LPrepend 16, LRotate, LRemove 8] ((\<lambda>_. 0)(100 := 100, 104 := 100)) = Some m' \<and>
     is_list m' 100 [16] \<and> (\<forall>a. a \<notin> link_cells {100, 8, 16} \<longrightarrow> m' a = ((\<lambda>_. 0)(100 := 100, 104 := 100)) a)"
proof -
  let ?m = "(\<lambda>_. 0)(100 := 100, 104 := 100) :: mem"
  have "is_list ?m 100 []" by (simp add: is_list_empty_iff link_next_def link_prev_def)
  moreover have "links_sep (insert 100 {8, 16})" by (simp add: links_sep_def)
  ultimately show ?thesis
    using list_ops_refine_sequences [of ?m 100 "[]" "{8, 16}" "[LAppend 8, LPrepend 16, LRotate, LRemove 8]"]
    by simp
qed

text \<open>Rotating a list \<open>n\<close> times (what the scheduler does) hands out its items in cyclic order, each
  one once per round, and leaves the list rotated by \<open>n\<close>.\<close>

theorem list_rotate_round_robin:
  assumes "is_list m h xs" and "xs \<noteq> []"
  shows "\<exists>m'. collect (\<lambda>m. list_rotate m h) n m = Some (map (\<lambda>i. xs ! (i mod length xs)) [0..<n], m') \<and>
     is_list m' h (rotate n xs)"
  using assms by (rule lk.rotate_order)

theorem list_rotate_round_robin_witness:
  "\<exists>m'. collect (\<lambda>m. list_rotate m 100) 3 ((\<lambda>_. 0)(100 := 8, 104 := 8, 8 := 100, 12 := 100)) =
     Some ([8, 8, 8], m')"
proof -
  let ?m = "(\<lambda>_. 0)(100 := 8, 104 := 8, 8 := 100, 12 := 100) :: mem"
  have "is_list ?m 100 [8]" by (simp add: is_list_def links_sep_def link_next_def link_prev_def)
  from list_rotate_round_robin [OF this, of 3] show ?thesis
    by (auto simp: numeral_3_eq_3)
qed

end
