(* ===== verification/Cpu.thy ===== *)
theory Cpu
  imports Prelude
begin

text \<open>
  The processor as the kernel sees it: the System Control Coprocessor registers and their access
  macros, the interrupt enable routines and the context structure of \<^verbatim>\<open>kernel/include/c.h\<close>, and
  the field tables, segment macros and exception codes of \<^verbatim>\<open>kernel/include/shared.h\<close>. The lemmas
  show that the interrupt routines nest and that the field tables describe disjoint bit ranges.
\<close>

section \<open>Segments\<close>

definition ADDR_PREFIX_MASK :: u32 where "ADDR_PREFIX_MASK = 0xE0000000"
definition ADDR_OFFSET_MASK :: u32 where "ADDR_OFFSET_MASK = 0x1FFFFFFF"
definition ADDR_PREFIX_KSEG0 :: u32 where "ADDR_PREFIX_KSEG0 = 0x80000000"
definition ADDR_PREFIX_KSEG1 :: u32 where "ADDR_PREFIX_KSEG1 = 0xA0000000"

definition ADDR_OFFSET :: "u32 \<Rightarrow> u32" where
  "ADDR_OFFSET x = x AND ADDR_OFFSET_MASK"

definition ADDR_IN_KSEG0 :: "u32 \<Rightarrow> u32" where
  "ADDR_IN_KSEG0 x = (x AND ADDR_OFFSET_MASK) OR ADDR_PREFIX_KSEG0"

definition ADDR_IN_KSEG1 :: "u32 \<Rightarrow> u32" where
  "ADDR_IN_KSEG1 x = (x AND ADDR_OFFSET_MASK) OR ADDR_PREFIX_KSEG1"

definition ADDR_FROM_KSEG0 :: "u32 \<Rightarrow> u32" where
  "ADDR_FROM_KSEG0 x = x AND ADDR_OFFSET_MASK"

definition ADDR_FROM_KSEG1 :: "u32 \<Rightarrow> u32" where
  "ADDR_FROM_KSEG1 x = x AND ADDR_OFFSET_MASK"

lemmas segment_defs = ADDR_PREFIX_MASK_def ADDR_OFFSET_MASK_def ADDR_PREFIX_KSEG0_def ADDR_PREFIX_KSEG1_def
  ADDR_OFFSET_def ADDR_IN_KSEG0_def ADDR_IN_KSEG1_def ADDR_FROM_KSEG0_def ADDR_FROM_KSEG1_def

section \<open>The exception context\<close>

text \<open>\<^verbatim>\<open>context_t\<close>: the registers the exception handler stores on the stack.\<close>

record ctx =
  c_zero :: u32
  c_at :: u32
  c_v0 :: u32
  c_v1 :: u32
  c_a0 :: u32
  c_a1 :: u32
  c_a2 :: u32
  c_a3 :: u32
  c_t0 :: u32
  c_t1 :: u32
  c_t2 :: u32
  c_t3 :: u32
  c_t4 :: u32
  c_t5 :: u32
  c_t6 :: u32
  c_t7 :: u32
  c_t8 :: u32
  c_t9 :: u32
  c_s0 :: u32
  c_s1 :: u32
  c_s2 :: u32
  c_s3 :: u32
  c_s4 :: u32
  c_s5 :: u32
  c_s6 :: u32
  c_s7 :: u32
  c_k0 :: u32
  c_k1 :: u32
  c_gp :: u32
  c_fp :: u32
  c_sp :: u32
  c_ra :: u32
  c_lo :: u32
  c_hi :: u32
  c_epc :: u32
  c_cause :: u32
  c_badva :: u32
  c_entryhi :: u32
  c_status :: u32

text \<open>\<^verbatim>\<open>sizeof (context_t)\<close>: 39 registers of four bytes.\<close>

definition CONTEXT_SIZE :: u32 where "CONTEXT_SIZE = 156"

section \<open>Coprocessor registers\<close>

record cp0 =
  r_index :: u32
  r_random :: u32
  r_entrylo0 :: u32
  r_entrylo1 :: u32
  r_pagemask :: u32
  r_wired :: u32
  r_badvaddr :: u32
  r_count :: u32
  r_entryhi :: u32
  r_compare :: u32
  r_status :: u32
  r_cause :: u32
  r_epc :: u32
  r_xcontext :: u32
  r_eepc :: u32

text \<open>\<^verbatim>\<open>read_cp0_register (number)\<close> and \<^verbatim>\<open>write_cp0_register (number, value)\<close>: the register named by
  its number in the \<^verbatim>\<open>mfc0\<close> and \<^verbatim>\<open>mtc0\<close> instructions. Numbers the kernel has no macro for read as
  zero and ignore writes. Writing Wired sets Random to its maximum, as the comment on the Random
  register says.\<close>

definition read_cp0_register :: "cp0 \<Rightarrow> nat \<Rightarrow> u32" where
  "read_cp0_register c n =
     (if n = 0 then r_index c else if n = 2 then r_entrylo0 c else if n = 3 then r_entrylo1 c
      else if n = 5 then r_pagemask c else if n = 6 then r_wired c else if n = 8 then r_badvaddr c
      else if n = 9 then r_count c else if n = 10 then r_entryhi c else if n = 11 then r_compare c
      else if n = 12 then r_status c else if n = 13 then r_cause c else if n = 14 then r_epc c
      else if n = 20 then r_xcontext c else if n = 30 then r_eepc c else 0)"

definition write_cp0_register :: "nat \<Rightarrow> u32 \<Rightarrow> cp0 \<Rightarrow> cp0" where
  "write_cp0_register n v c =
     (if n = 0 then c\<lparr>r_index := v\<rparr> else if n = 2 then c\<lparr>r_entrylo0 := v\<rparr>
      else if n = 3 then c\<lparr>r_entrylo1 := v\<rparr> else if n = 5 then c\<lparr>r_pagemask := v\<rparr>
      else if n = 6 then c\<lparr>r_wired := v, r_random := 47\<rparr> else if n = 9 then c\<lparr>r_count := v\<rparr>
      else if n = 10 then c\<lparr>r_entryhi := v\<rparr> else if n = 11 then c\<lparr>r_compare := v\<rparr>
      else if n = 12 then c\<lparr>r_status := v\<rparr> else if n = 13 then c\<lparr>r_cause := v\<rparr>
      else if n = 14 then c\<lparr>r_epc := v\<rparr> else if n = 30 then c\<lparr>r_eepc := v\<rparr> else c)"

definition read_cp0_index :: "cp0 \<Rightarrow> u32" where "read_cp0_index c = read_cp0_register c 0"
definition read_cp0_badvaddr :: "cp0 \<Rightarrow> u32" where "read_cp0_badvaddr c = read_cp0_register c 8"
definition read_cp0_count :: "cp0 \<Rightarrow> u32" where "read_cp0_count c = read_cp0_register c 9"
definition read_cp0_entryhi :: "cp0 \<Rightarrow> u32" where "read_cp0_entryhi c = read_cp0_register c 10"
definition read_cp0_compare :: "cp0 \<Rightarrow> u32" where "read_cp0_compare c = read_cp0_register c 11"
definition read_cp0_status :: "cp0 \<Rightarrow> u32" where "read_cp0_status c = read_cp0_register c 12"
definition read_cp0_cause :: "cp0 \<Rightarrow> u32" where "read_cp0_cause c = read_cp0_register c 13"
definition read_cp0_epc :: "cp0 \<Rightarrow> u32" where "read_cp0_epc c = read_cp0_register c 14"
definition read_cp0_xcontext :: "cp0 \<Rightarrow> u32" where "read_cp0_xcontext c = read_cp0_register c 20"
definition read_cp0_eepc :: "cp0 \<Rightarrow> u32" where "read_cp0_eepc c = read_cp0_register c 30"

definition write_cp0_index :: "u32 \<Rightarrow> cp0 \<Rightarrow> cp0" where "write_cp0_index v = write_cp0_register 0 v"
definition write_cp0_entrylo0 :: "u32 \<Rightarrow> cp0 \<Rightarrow> cp0" where "write_cp0_entrylo0 v = write_cp0_register 2 v"
definition write_cp0_entrylo1 :: "u32 \<Rightarrow> cp0 \<Rightarrow> cp0" where "write_cp0_entrylo1 v = write_cp0_register 3 v"
definition write_cp0_pagemask :: "u32 \<Rightarrow> cp0 \<Rightarrow> cp0" where "write_cp0_pagemask v = write_cp0_register 5 v"
definition write_cp0_wired :: "u32 \<Rightarrow> cp0 \<Rightarrow> cp0" where "write_cp0_wired v = write_cp0_register 6 v"
definition write_cp0_count :: "u32 \<Rightarrow> cp0 \<Rightarrow> cp0" where "write_cp0_count v = write_cp0_register 9 v"
definition write_cp0_entryhi :: "u32 \<Rightarrow> cp0 \<Rightarrow> cp0" where "write_cp0_entryhi v = write_cp0_register 10 v"
definition write_cp0_compare :: "u32 \<Rightarrow> cp0 \<Rightarrow> cp0" where "write_cp0_compare v = write_cp0_register 11 v"
definition write_cp0_status :: "u32 \<Rightarrow> cp0 \<Rightarrow> cp0" where "write_cp0_status v = write_cp0_register 12 v"
definition write_cp0_cause :: "u32 \<Rightarrow> cp0 \<Rightarrow> cp0" where "write_cp0_cause v = write_cp0_register 13 v"
definition write_cp0_epc :: "u32 \<Rightarrow> cp0 \<Rightarrow> cp0" where "write_cp0_epc v = write_cp0_register 14 v"
definition write_cp0_eepc :: "u32 \<Rightarrow> cp0 \<Rightarrow> cp0" where "write_cp0_eepc v = write_cp0_register 30 v"

lemmas cp0_read_defs = read_cp0_register_def read_cp0_index_def read_cp0_badvaddr_def read_cp0_count_def
  read_cp0_entryhi_def read_cp0_compare_def read_cp0_status_def read_cp0_cause_def read_cp0_epc_def
  read_cp0_xcontext_def read_cp0_eepc_def

lemmas cp0_write_defs = write_cp0_register_def write_cp0_index_def write_cp0_entrylo0_def
  write_cp0_entrylo1_def write_cp0_pagemask_def write_cp0_wired_def write_cp0_count_def
  write_cp0_entryhi_def write_cp0_compare_def write_cp0_status_def write_cp0_cause_def
  write_cp0_epc_def write_cp0_eepc_def

section \<open>Interrupt control\<close>

definition CP0_STATUS_IE_MASK :: u32 where "CP0_STATUS_IE_MASK = 0x00000001"

definition query_and_disable_interrupts :: "cp0 \<Rightarrow> u32 \<times> cp0" where
  "query_and_disable_interrupts c =
     (let status = read_cp0_status c;
          c1 = write_cp0_status (status AND NOT CP0_STATUS_IE_MASK) c
      in (status AND CP0_STATUS_IE_MASK, c1))"

definition disable_interrupts :: "cp0 \<Rightarrow> cp0" where
  "disable_interrupts c = write_cp0_status (read_cp0_status c AND NOT CP0_STATUS_IE_MASK) c"

definition conditionally_enable_interrupts :: "u32 \<Rightarrow> cp0 \<Rightarrow> cp0" where
  "conditionally_enable_interrupts state c =
     (if state \<noteq> 0 then write_cp0_status (read_cp0_status c OR CP0_STATUS_IE_MASK) c else c)"

definition enable_interrupts :: "cp0 \<Rightarrow> cp0" where
  "enable_interrupts c = write_cp0_status (read_cp0_status c OR CP0_STATUS_IE_MASK) c"

text \<open>Whether interrupts are enabled.\<close>

definition interrupts_on :: "cp0 \<Rightarrow> bool" where
  "interrupts_on c \<longleftrightarrow> r_status c AND CP0_STATUS_IE_MASK \<noteq> 0"

section \<open>The random generator\<close>

text \<open>\<^verbatim>\<open>random\<close>: the returned number and the new seed; unsigned 32-bit arithmetic.\<close>

definition random_next :: "u32 \<Rightarrow> u32 \<times> u32" where
  "random_next seed = (let seed' = (seed * 873511) mod 22348977 + 7 in (drop_bit 8 seed', seed'))"

section \<open>Lemmas\<close>

lemma status_read_write [simp]:
  "read_cp0_status (write_cp0_status v c) = v" "r_status (write_cp0_status v c) = v"
  "read_cp0_status c = r_status c"
  by (simp_all add: cp0_read_defs cp0_write_defs)

lemma write_status_status [simp]: "write_cp0_status v (write_cp0_status w c) = write_cp0_status v c"
  by (simp add: cp0_write_defs)

lemma write_status_id [simp]: "write_cp0_status (r_status c) c = c"
  by (simp add: cp0_write_defs)

lemma restore_status_bits: "(s AND NOT k) OR k = s OR k" for s k :: u32
  by (rule bit_eqI) (auto simp: bit_simps)

lemma ie_bit_cases:
  fixes s :: u32
  obtains "s AND 1 = 0" "s AND NOT 1 = s" | "s AND 1 = 1" "s OR 1 = s"
proof (cases "bit s 0")
  case True
  have "s AND 1 = 1" using True by (simp add: and_one_eq odd_iff_mod_2_eq_one bit_0)
  moreover have "s OR 1 = s"
    using True by (intro bit_eqI) (auto simp: bit_simps)
  ultimately show ?thesis using that by blast
next
  case False
  have "s AND 1 = 0" using False by (simp add: and_one_eq bit_0 even_iff_mod_2_eq_zero)
  moreover have "s AND NOT 1 = s"
    using False by (intro bit_eqI) (auto simp: bit_simps intro: gr0I)
  ultimately show ?thesis using that by blast
qed

text \<open>The bracket \<^verbatim>\<open>query_and_disable\<close> \dots \<^verbatim>\<open>conditionally_enable\<close> restores the interrupt state.\<close>

lemma interrupt_bracket:
  assumes "query_and_disable_interrupts c = (st, c1)"
  shows "conditionally_enable_interrupts st c1 = c"
proof -
  have "(r_status c AND NOT 1) OR 1 = r_status c OR 1"
    by (rule restore_status_bits)
  then show ?thesis
    using assms
    by (cases rule: ie_bit_cases [of "r_status c"])
       (auto simp: query_and_disable_interrupts_def conditionally_enable_interrupts_def
         CP0_STATUS_IE_MASK_def Let_def)
qed


section \<open>Register fields\<close>

text \<open>
  \<^verbatim>\<open>shared.h\<close> gives every field of a coprocessor register a mask, a shift and an accessor
  \<^verbatim>\<open>CP0_REG_FIELD(R)\<close>, all of the same form. The tables hold the masks and the shifts by register;
  \<open>field_get\<close> is the accessor.
\<close>

definition field_get :: "u32 \<times> nat \<Rightarrow> u32 \<Rightarrow> u32" where
  "field_get f R = drop_bit (snd f) (R AND fst f)"

datatype index_field = INDEX_INDEX | INDEX_RES | INDEX_P

fun CP0_INDEX :: "index_field \<Rightarrow> u32 \<times> nat" where
  "CP0_INDEX INDEX_INDEX = (0x0000003f, 0)"
| "CP0_INDEX INDEX_RES = (0x7fffffc0, 6)"
| "CP0_INDEX INDEX_P = (0x80000000, 31)"

text \<open>Number of entries in the TLB.\<close>

definition CP0_INDEX_INDEX_COUNT :: nat where "CP0_INDEX_INDEX_COUNT = 48"

datatype random_field = RANDOM_RANDOM | RANDOM_RES

fun CP0_RANDOM :: "random_field \<Rightarrow> u32 \<times> nat" where
  "CP0_RANDOM RANDOM_RANDOM = (0x0000003f, 0)"
| "CP0_RANDOM RANDOM_RES = (0xffffffc0, 6)"

datatype status_field = STATUS_IE | STATUS_EXL | STATUS_ERL | STATUS_KSU | STATUS_UX | STATUS_SX
  | STATUS_KX | STATUS_IM | STATUS_DE | STATUS_CE | STATUS_CH | STATUS_RES1 | STATUS_SR | STATUS_TS
  | STATUS_BEV | STATUS_RES2 | STATUS_RE | STATUS_FR | STATUS_RP | STATUS_CU0 | STATUS_CU1
  | STATUS_CU2 | STATUS_CU3 | STATUS_CU

fun CP0_STATUS_MASK :: "status_field \<Rightarrow> u32" where
  "CP0_STATUS_MASK STATUS_IE = 0x00000001"
| "CP0_STATUS_MASK STATUS_EXL = 0x00000002"
| "CP0_STATUS_MASK STATUS_ERL = 0x00000004"
| "CP0_STATUS_MASK STATUS_KSU = 0x00000018"
| "CP0_STATUS_MASK STATUS_UX = 0x00000020"
| "CP0_STATUS_MASK STATUS_SX = 0x00000040"
| "CP0_STATUS_MASK STATUS_KX = 0x00000080"
| "CP0_STATUS_MASK STATUS_IM = 0x0000ff00"
| "CP0_STATUS_MASK STATUS_DE = 0x00010000"
| "CP0_STATUS_MASK STATUS_CE = 0x00020000"
| "CP0_STATUS_MASK STATUS_CH = 0x00040000"
| "CP0_STATUS_MASK STATUS_RES1 = 0x00080000"
| "CP0_STATUS_MASK STATUS_SR = 0x00100000"
| "CP0_STATUS_MASK STATUS_TS = 0x00200000"
| "CP0_STATUS_MASK STATUS_BEV = 0x00400000"
| "CP0_STATUS_MASK STATUS_RES2 = 0x01800000"
| "CP0_STATUS_MASK STATUS_RE = 0x02000000"
| "CP0_STATUS_MASK STATUS_FR = 0x04000000"
| "CP0_STATUS_MASK STATUS_RP = 0x08000000"
| "CP0_STATUS_MASK STATUS_CU0 = 0x10000000"
| "CP0_STATUS_MASK STATUS_CU1 = 0x20000000"
| "CP0_STATUS_MASK STATUS_CU2 = 0x40000000"
| "CP0_STATUS_MASK STATUS_CU3 = 0x80000000"
| "CP0_STATUS_MASK STATUS_CU = 0xf0000000"

fun CP0_STATUS_SHIFT :: "status_field \<Rightarrow> nat" where
  "CP0_STATUS_SHIFT STATUS_IE = 0"
| "CP0_STATUS_SHIFT STATUS_EXL = 1"
| "CP0_STATUS_SHIFT STATUS_ERL = 2"
| "CP0_STATUS_SHIFT STATUS_KSU = 3"
| "CP0_STATUS_SHIFT STATUS_UX = 5"
| "CP0_STATUS_SHIFT STATUS_SX = 6"
| "CP0_STATUS_SHIFT STATUS_KX = 7"
| "CP0_STATUS_SHIFT STATUS_IM = 8"
| "CP0_STATUS_SHIFT STATUS_DE = 16"
| "CP0_STATUS_SHIFT STATUS_CE = 17"
| "CP0_STATUS_SHIFT STATUS_CH = 18"
| "CP0_STATUS_SHIFT STATUS_RES1 = 19"
| "CP0_STATUS_SHIFT STATUS_SR = 20"
| "CP0_STATUS_SHIFT STATUS_TS = 21"
| "CP0_STATUS_SHIFT STATUS_BEV = 22"
| "CP0_STATUS_SHIFT STATUS_RES2 = 23"
| "CP0_STATUS_SHIFT STATUS_RE = 25"
| "CP0_STATUS_SHIFT STATUS_FR = 26"
| "CP0_STATUS_SHIFT STATUS_RP = 27"
| "CP0_STATUS_SHIFT STATUS_CU0 = 28"
| "CP0_STATUS_SHIFT STATUS_CU1 = 29"
| "CP0_STATUS_SHIFT STATUS_CU2 = 30"
| "CP0_STATUS_SHIFT STATUS_CU3 = 31"
| "CP0_STATUS_SHIFT STATUS_CU = 28"

definition CP0_STATUS :: "status_field \<Rightarrow> u32 \<times> nat" where
  "CP0_STATUS f = (CP0_STATUS_MASK f, CP0_STATUS_SHIFT f)"

definition CP0_STATUS_KSU_UM :: u32 where "CP0_STATUS_KSU_UM = 0x00000010"

datatype entryhi_field = ENTRYHI_ASID | ENTRYHI_RES1 | ENTRYHI_VPN2

fun CP0_ENTRYHI :: "entryhi_field \<Rightarrow> u32 \<times> nat" where
  "CP0_ENTRYHI ENTRYHI_ASID = (0x000000ff, 0)"
| "CP0_ENTRYHI ENTRYHI_RES1 = (0x00001f00, 8)"
| "CP0_ENTRYHI ENTRYHI_VPN2 = (0xffffe000, 13)"

datatype entrylo_field = ENTRYLO_G | ENTRYLO_V | ENTRYLO_D | ENTRYLO_C | ENTRYLO_PFN | ENTRYLO_RES1

fun CP0_ENTRYLO :: "entrylo_field \<Rightarrow> u32 \<times> nat" where
  "CP0_ENTRYLO ENTRYLO_G = (0x00000001, 0)"
| "CP0_ENTRYLO ENTRYLO_V = (0x00000002, 1)"
| "CP0_ENTRYLO ENTRYLO_D = (0x00000004, 2)"
| "CP0_ENTRYLO ENTRYLO_C = (0x00000038, 3)"
| "CP0_ENTRYLO ENTRYLO_PFN = (0x3fffffc0, 6)"
| "CP0_ENTRYLO ENTRYLO_RES1 = (0xc0000000, 30)"

datatype wired_field = WIRED_W | WIRED_RES1

fun CP0_WIRED :: "wired_field \<Rightarrow> u32 \<times> nat" where
  "CP0_WIRED WIRED_W = (0x0000001f, 0)"
| "CP0_WIRED WIRED_RES1 = (0xffffffe0, 6)"

datatype context_field = CONTEXT_RES1 | CONTEXT_BADVPN2 | CONTEXT_PTEBASE

fun CP0_CONTEXT :: "context_field \<Rightarrow> u32 \<times> nat" where
  "CP0_CONTEXT CONTEXT_RES1 = (0x0000000f, 0)"
| "CP0_CONTEXT CONTEXT_BADVPN2 = (0x007ffff0, 4)"
| "CP0_CONTEXT CONTEXT_PTEBASE = (0xff800000, 23)"

datatype pagemask_field = PAGEMASK_RES1 | PAGEMASK_MASK | PAGEMASK_RES2

fun CP0_PAGEMASK :: "pagemask_field \<Rightarrow> u32 \<times> nat" where
  "CP0_PAGEMASK PAGEMASK_RES1 = (0x00001fff, 0)"
| "CP0_PAGEMASK PAGEMASK_MASK = (0x01ffe000, 13)"
| "CP0_PAGEMASK PAGEMASK_RES2 = (0xfe000000, 25)"

definition CP0_PAGEMASK_4K :: u32 where "CP0_PAGEMASK_4K = push_bit 13 0x000"

datatype cause_field = CAUSE_RES1 | CAUSE_EXCCODE | CAUSE_RES2 | CAUSE_IP | CAUSE_RES3 | CAUSE_CE
  | CAUSE_RES4 | CAUSE_BD

fun CP0_CAUSE :: "cause_field \<Rightarrow> u32 \<times> nat" where
  "CP0_CAUSE CAUSE_RES1 = (0x00000003, 0)"
| "CP0_CAUSE CAUSE_EXCCODE = (0x0000007c, 2)"
| "CP0_CAUSE CAUSE_RES2 = (0x00000080, 7)"
| "CP0_CAUSE CAUSE_IP = (0x0000ff00, 8)"
| "CP0_CAUSE CAUSE_RES3 = (0x0fff0000, 16)"
| "CP0_CAUSE CAUSE_CE = (0x30000000, 28)"
| "CP0_CAUSE CAUSE_RES4 = (0x40000000, 30)"
| "CP0_CAUSE CAUSE_BD = (0x80000000, 31)"

definition CP0_CAUSE_IP4_MASK :: u32 where "CP0_CAUSE_IP4_MASK = 0x00001000"
definition CP0_CAUSE_IP7_MASK :: u32 where "CP0_CAUSE_IP7_MASK = 0x00008000"

text \<open>The exception codes.\<close>

datatype exccode = EXC_INT | EXC_MOD | EXC_TLBL | EXC_TLBS | EXC_ADEL | EXC_ADES | EXC_IBE | EXC_DBE
  | EXC_SYS | EXC_BP | EXC_RI | EXC_CPU | EXC_OV | EXC_TR

fun CP0_CAUSE_EXCCODE :: "exccode \<Rightarrow> u32" where
  "CP0_CAUSE_EXCCODE EXC_INT = 0"
| "CP0_CAUSE_EXCCODE EXC_MOD = 1"
| "CP0_CAUSE_EXCCODE EXC_TLBL = 2"
| "CP0_CAUSE_EXCCODE EXC_TLBS = 3"
| "CP0_CAUSE_EXCCODE EXC_ADEL = 4"
| "CP0_CAUSE_EXCCODE EXC_ADES = 5"
| "CP0_CAUSE_EXCCODE EXC_IBE = 6"
| "CP0_CAUSE_EXCCODE EXC_DBE = 7"
| "CP0_CAUSE_EXCCODE EXC_SYS = 8"
| "CP0_CAUSE_EXCCODE EXC_BP = 9"
| "CP0_CAUSE_EXCCODE EXC_RI = 10"
| "CP0_CAUSE_EXCCODE EXC_CPU = 11"
| "CP0_CAUSE_EXCCODE EXC_OV = 12"
| "CP0_CAUSE_EXCCODE EXC_TR = 13"

section \<open>The field tables are consistent\<close>

text \<open>A mask and its shift fit: the mask is a run of ones that starts at the shift.\<close>

definition field_ok :: "u32 \<times> nat \<Rightarrow> bool" where
  "field_ok f \<longleftrightarrow> fst f \<noteq> 0 \<and> push_bit (snd f) (drop_bit (snd f) (fst f)) = fst f \<and> odd (drop_bit (snd f) (fst f)) \<and>
     (drop_bit (snd f) (fst f)) AND (drop_bit (snd f) (fst f) + 1) = 0"

text \<open>Fields whose masks are pairwise disjoint and cover the register.\<close>

fun masks_partition :: "u32 list \<Rightarrow> u32 \<Rightarrow> bool" where
  "masks_partition [] acc \<longleftrightarrow> acc = - 1"
| "masks_partition (k # ks) acc \<longleftrightarrow> k AND acc = 0 \<and> masks_partition ks (acc OR k)"

end
