(* ===== verification/Malloc.thy ===== *)
theory Malloc
  imports Links Cpu
begin

text \<open>
  The kernel heap of \<^verbatim>\<open>kernel/mm/malloc.c\<close>, over the raw memory: block headers and footers, the
  heap structure and its list link are cells of the one memory, so an operation that wrote past
  the block it works on would be visible. The frame allocator \<^verbatim>\<open>mm/falloc\<close> is only shipped as a
  binary module and is a parameter, the record \<open>falloc\<close> of its two functions.
\<close>

section \<open>State\<close>

text \<open>The state the memory management works on: the memory, the coprocessor (interrupt state), the
  private state of the frame allocator, and the address of the static variable \<^verbatim>\<open>heap_list\<close>.\<close>

record 'fs kmem =
  k_mem :: mem
  k_cpu :: cp0
  k_fs :: 'fs
  heap_list :: u32

text \<open>\<^verbatim>\<open>frame_alloc (&phys, cnt, flags)\<close> returns an error code and stores a physical address;
  \<^verbatim>\<open>frame_free (phys, cnt)\<close> returns an error code.\<close>

record 'fs falloc =
  frame_alloc :: "'fs \<Rightarrow> u32 \<Rightarrow> u32 \<Rightarrow> u32 \<times> u32 \<times> 'fs"
  frame_free :: "'fs \<Rightarrow> u32 \<Rightarrow> u32 \<Rightarrow> u32 \<times> 'fs"

section \<open>Constants\<close>

definition FRAME_WIDTH :: nat where "FRAME_WIDTH = 12"
definition FRAME_SIZE :: u32 where "FRAME_SIZE = push_bit FRAME_WIDTH 1"

definition VF_VA_AUTO :: u32 where "VF_VA_AUTO = push_bit 0 1"
definition VF_VA_USER :: u32 where "VF_VA_USER = push_bit 1 1"
definition VF_AT_KUSEG :: u32 where "VF_AT_KUSEG = push_bit 2 1"
definition VF_AT_KSEG0 :: u32 where "VF_AT_KSEG0 = push_bit 3 1"
definition VF_AT_KSEG1 :: u32 where "VF_AT_KSEG1 = push_bit 4 1"
definition VF_AT_KSSEG :: u32 where "VF_AT_KSSEG = push_bit 5 1"
definition VF_AT_KSEG3 :: u32 where "VF_AT_KSEG3 = push_bit 6 1"

definition HEAP_BLOCK_HEAD_MAGIC :: u32 where "HEAP_BLOCK_HEAD_MAGIC = 0xBEEF0001"
definition HEAP_BLOCK_FOOT_MAGIC :: u32 where "HEAP_BLOCK_FOOT_MAGIC = 0xBEEF0002"
definition HEAP_BLOCK_SIZE_MAX :: u32 where "HEAP_BLOCK_SIZE_MAX = 0x10000000"
definition ALIGNMENT :: u32 where "ALIGNMENT = 4"
definition HEAP_FRAMES :: u32 where "HEAP_FRAMES = 16"

section \<open>Structures\<close>

text \<open>\<^verbatim>\<open>heap_t\<close>: link at offset 0, then \<^verbatim>\<open>heap_start\<close>, \<^verbatim>\<open>heap_end\<close> and \<^verbatim>\<open>frames\<close>.\<close>

definition sizeof_heap :: u32 where "sizeof_heap = 20"

definition heap_start :: "mem \<Rightarrow> u32 \<Rightarrow> u32" where "heap_start m heap = m (heap + 8)"
definition heap_end :: "mem \<Rightarrow> u32 \<Rightarrow> u32" where "heap_end m heap = m (heap + 12)"
definition heap_frames :: "mem \<Rightarrow> u32 \<Rightarrow> u32" where "heap_frames m heap = m (heap + 16)"

text \<open>\<^verbatim>\<open>heap_block_head_t\<close>: \<^verbatim>\<open>size\<close>, the byte \<^verbatim>\<open>free\<close> (the low byte of the second cell on the
  little-endian target), \<^verbatim>\<open>heap\<close> and \<^verbatim>\<open>magic\<close>.\<close>

definition sizeof_head :: u32 where "sizeof_head = 16"

definition head_size :: "mem \<Rightarrow> u32 \<Rightarrow> u32" where "head_size m a = m a"
definition head_free :: "mem \<Rightarrow> u32 \<Rightarrow> bool" where "head_free m a \<longleftrightarrow> m (a + 4) AND 0xFF \<noteq> 0"
definition head_heap :: "mem \<Rightarrow> u32 \<Rightarrow> u32" where "head_heap m a = m (a + 8)"
definition head_magic :: "mem \<Rightarrow> u32 \<Rightarrow> u32" where "head_magic m a = m (a + 12)"

definition set_head_free :: "mem \<Rightarrow> u32 \<Rightarrow> bool \<Rightarrow> mem" where
  "set_head_free m a b = m(a + 4 := (m (a + 4) AND NOT 0xFF) OR (if b then 1 else 0))"

text \<open>\<^verbatim>\<open>heap_block_foot_t\<close>: \<^verbatim>\<open>magic\<close>, then \<^verbatim>\<open>size\<close>.\<close>

definition sizeof_foot :: u32 where "sizeof_foot = 8"

definition foot_magic :: "mem \<Rightarrow> u32 \<Rightarrow> u32" where "foot_magic m a = m a"
definition foot_size :: "mem \<Rightarrow> u32 \<Rightarrow> u32" where "foot_size m a = m (a + 4)"

section \<open>Operations\<close>

definition block_check :: "mem \<Rightarrow> u32 \<Rightarrow> unit option" where
  "block_check m addr = do {
     let head = addr;
     kassert (head \<ge> heap_start m (head_heap m head));
     kassert (head < heap_end m (head_heap m head));
     kassert (head_magic m head = HEAP_BLOCK_HEAD_MAGIC);
     let foot = addr + head_size m head - sizeof_foot;
     kassert (foot_magic m foot = HEAP_BLOCK_FOOT_MAGIC);
     kassert (head_size m head = foot_size m foot)
   }"

definition block_init :: "mem \<Rightarrow> u32 \<Rightarrow> u32 \<Rightarrow> bool \<Rightarrow> u32 \<Rightarrow> mem" where
  "block_init m addr sz free heap =
     (let head = addr;
          foot = addr + sz - sizeof_foot;
          m1 = m(head := sz);
          m2 = set_head_free m1 head free;
          m3 = m2(head + 8 := heap);
          m4 = m3(head + 12 := HEAP_BLOCK_HEAD_MAGIC);
          m5 = m4(foot := HEAP_BLOCK_FOOT_MAGIC)
      in m5(foot + 4 := sz))"

definition heap_init :: "('fs, 'z) kmem_scheme \<Rightarrow> ('fs, 'z) kmem_scheme option" where
  "heap_init s = do { m \<leftarrow> list_init (k_mem s) (heap_list s); Some (s\<lparr>k_mem := m\<rparr>) }"

text \<open>Allocate a new heap; the first block of it is the result.\<close>

definition malloc_heap ::
  "'fs falloc \<Rightarrow> u32 \<Rightarrow> ('fs, 'z) kmem_scheme \<Rightarrow> (u32 \<times> ('fs, 'z) kmem_scheme) option" where
  "malloc_heap F sz s = do {
     let real_size = ALIGN_UP sz ALIGNMENT + sizeof_head + sizeof_foot;
     let split_limit = real_size + sizeof_head + sizeof_foot;
     let heap_size0 = ALIGN_UP (real_size + sizeof_heap) FRAME_SIZE;
     let frames0 = drop_bit FRAME_WIDTH heap_size0;
     let frames = (if frames0 < HEAP_FRAMES then HEAP_FRAMES else frames0);
     let heap_size = (if frames0 < HEAP_FRAMES then push_bit FRAME_WIDTH frames else heap_size0);
     let (rc, phys, fs') = frame_alloc F (k_fs s) frames (VF_VA_AUTO OR VF_AT_KSEG0);
     if rc \<noteq> EOK then Some (NULL, s\<lparr>k_fs := fs'\<rparr>)
     else do {
       let heap = ADDR_IN_KSEG0 phys;
       m1 \<leftarrow> link_init (k_mem s) heap;
       let m2 = m1(heap + 8 := heap + sizeof_heap);
       let m3 = m2(heap + 12 := heap + heap_size);
       let m4 = m3(heap + 16 := frames);
       let cur = heap_start m4 heap;
       let payload_heap_size = heap_size - sizeof_heap;
       let m5 = (if payload_heap_size > split_limit then
                   (let nxt = cur + real_size;
                        ma = block_init m4 nxt (payload_heap_size - real_size) True heap
                    in block_init ma cur real_size False heap)
                 else block_init m4 cur payload_heap_size False heap);
       m6 \<leftarrow> list_append m5 (heap_list s) heap;
       Some (heap_start m6 heap + sizeof_head, s\<lparr>k_mem := m6, k_fs := fs'\<rparr>)
     }
   }"

text \<open>The \<^verbatim>\<open>while\<close> loop of \<^verbatim>\<open>malloc\<close> over the blocks of one heap: the memory and \<^verbatim>\<open>result\<close>.\<close>

partial_function (option) malloc_scan :: "u32 \<Rightarrow> u32 \<Rightarrow> mem \<Rightarrow> u32 \<Rightarrow> u32 \<Rightarrow> (mem \<times> u32) option" where
  "malloc_scan heap real_size m pos result =
     (if result = NULL \<and> pos < heap_end m heap then
        Option.bind (block_check m pos) (\<lambda>_.
          if head_free m pos \<and> head_size m pos \<ge> real_size then
            (let split_limit = real_size + sizeof_head + sizeof_foot;
                 m' = (if head_size m pos > split_limit then
                         (let nxt = pos + real_size;
                              m1 = block_init m nxt (head_size m pos - real_size) True heap
                          in block_init m1 pos real_size False heap)
                       else set_head_free m pos False)
             in malloc_scan heap real_size m' (pos + head_size m' pos) (pos + sizeof_head))
          else malloc_scan heap real_size m (pos + head_size m pos) result)
      else Some (m, result))"

text \<open>The \<^verbatim>\<open>list_foreach\<close> loop of \<^verbatim>\<open>malloc\<close> over the heaps.\<close>

partial_function (option) malloc_search :: "u32 \<Rightarrow> u32 \<Rightarrow> mem \<Rightarrow> u32 \<Rightarrow> (mem \<times> u32) option" where
  "malloc_search hl real_size m heap =
     (if heap \<noteq> hl then
        Option.bind (malloc_scan heap real_size m (heap_start m heap) NULL) (\<lambda>(m', result).
          if result \<noteq> NULL then Some (m', result)
          else malloc_search hl real_size m' (link_next m' heap))
      else Some (m, NULL))"

definition malloc ::
  "'fs falloc \<Rightarrow> u32 \<Rightarrow> ('fs, 'z) kmem_scheme \<Rightarrow> (u32 \<times> ('fs, 'z) kmem_scheme) option" where
  "malloc F sz s = do {
     kassert (sz \<le> HEAP_BLOCK_SIZE_MAX);
     let (state, c) = query_and_disable_interrupts (k_cpu s);
     let s1 = s\<lparr>k_cpu := c\<rparr>;
     let real_size = ALIGN_UP sz ALIGNMENT + sizeof_head + sizeof_foot;
     (m, result) \<leftarrow> malloc_search (heap_list s1) real_size (k_mem s1) (link_next (k_mem s1) (heap_list s1));
     let s2 = s1\<lparr>k_mem := m\<rparr>;
     (result', s3) \<leftarrow> (if result = NULL then malloc_heap F sz s2 else Some (result, s2));
     Some (result', s3\<lparr>k_cpu := conditionally_enable_interrupts state (k_cpu s3)\<rparr>)
   }"

definition safe_malloc ::
  "'fs falloc \<Rightarrow> u32 \<Rightarrow> ('fs, 'z) kmem_scheme \<Rightarrow> (u32 \<times> ('fs, 'z) kmem_scheme) option" where
  "safe_malloc F sz s = do {
     (result, s1) \<leftarrow> malloc F sz s;
     kassert (result \<noteq> NULL);
     Some (result, s1)
   }"

text \<open>\<^verbatim>\<open>free\<close>, in the order of the source: mark, merge with the next block, merge with the previous
  one, release a heap that is one free block.\<close>

definition free_merge_next :: "mem \<Rightarrow> u32 \<Rightarrow> u32 \<Rightarrow> mem option" where
  "free_merge_next m head heap = do {
     let next_head = head + head_size m head;
     if next_head < heap_end m heap then do {
       block_check m next_head;
       Some (if head_free m next_head
             then block_init m head (head_size m head + head_size m next_head) True heap else m)
     }
     else Some m
   }"

definition free_merge_prev :: "mem \<Rightarrow> u32 \<Rightarrow> u32 \<Rightarrow> mem option" where
  "free_merge_prev m head heap =
     (if head > heap_start m heap then do {
        let prev_foot = head - sizeof_foot;
        let prev_head = head - foot_size m prev_foot;
        block_check m prev_head;
        Some (if head_free m prev_head
              then block_init m prev_head (head_size m prev_head + head_size m head) True heap else m)
      }
      else Some m)"

definition free_release ::
  "'fs falloc \<Rightarrow> u32 \<Rightarrow> ('fs, 'z) kmem_scheme \<Rightarrow> ('fs, 'z) kmem_scheme option" where
  "free_release F heap s = do {
     let m = k_mem s;
     let head = heap_start m heap;
     if head_free m head \<and> heap_start m heap + head_size m head = heap_end m heap then do {
       m1 \<leftarrow> list_remove m heap;
       let phys = ADDR_FROM_KSEG0 heap;
       let (rc, fs') = frame_free F (k_fs s) phys (heap_frames m1 heap);
       kassert (rc = EOK);
       Some (s\<lparr>k_mem := m1, k_fs := fs'\<rparr>)
     }
     else Some s
   }"

definition kfree ::
  "'fs falloc \<Rightarrow> u32 \<Rightarrow> ('fs, 'z) kmem_scheme \<Rightarrow> ('fs, 'z) kmem_scheme option" where
  "kfree F addr s = do {
     let (state, c) = query_and_disable_interrupts (k_cpu s);
     let m = k_mem s;
     let head = addr - sizeof_head;
     block_check m head;
     kassert (\<not> head_free m head);
     let heap = head_heap m head;
     let m1 = set_head_free m head True;
     m2 \<leftarrow> free_merge_next m1 head heap;
     m3 \<leftarrow> free_merge_prev m2 head heap;
     s2 \<leftarrow> free_release F heap (s\<lparr>k_cpu := c, k_mem := m3\<rparr>);
     Some (s2\<lparr>k_cpu := conditionally_enable_interrupts state (k_cpu s2)\<rparr>)
   }"

end
