(* ===== verification/Malloc_Alloc.thy ===== *)
theory Malloc_Alloc
  imports Malloc
begin

text \<open>
  Allocation. A heap at address \<open>h\<close> is seen as the list of the sizes and free flags of its blocks;
  \<open>heap_ok\<close> says that headers, footers, the heap structure and the list of free flags in memory
  are those of that list, that the blocks fill the frames of the heap and that no two free blocks are
  neighbours. \<open>heaps_ok\<close> adds the list of heaps, \<open>kheap_inv\<close> the frames they are in. The lemma
  \<open>malloc_cases\<close> is the contract of \<^verbatim>\<open>malloc\<close> the claims rest on.
\<close>

unbundle bit_operations_syntax

declare of_nat_add [simp del] of_nat_diff [simp del]

section \<open>Abstraction\<close>

type_synonym blk = "nat \<times> bool"

definition total :: "blk list \<Rightarrow> nat" where
  "total bs = sum_list (map fst bs)"

definition block_at :: "mem \<Rightarrow> nat \<Rightarrow> nat \<Rightarrow> nat \<Rightarrow> bool \<Rightarrow> bool" where
  "block_at m h a s f \<longleftrightarrow> head_size m (W a) = W s \<and> head_free m (W a) = f \<and> head_heap m (W a) = W h \<and>
     head_magic m (W a) = HEAP_BLOCK_HEAD_MAGIC \<and>
     foot_magic m (W (a + s - 8)) = HEAP_BLOCK_FOOT_MAGIC \<and> foot_size m (W (a + s - 8)) = W s"

fun blocks :: "mem \<Rightarrow> nat \<Rightarrow> nat \<Rightarrow> blk list \<Rightarrow> bool" where
  "blocks m h a [] \<longleftrightarrow> True"
| "blocks m h a ((s, f) # bs) \<longleftrightarrow> block_at m h a s f \<and> 24 \<le> s \<and> 4 dvd s \<and> blocks m h (a + s) bs"

lemma total_simps [simp]: "total [] = 0" "total (b # bs) = fst b + total bs"
  "total (xs @ ys) = total xs + total ys"
  by (simp_all add: total_def)

lemma blocks_append: "blocks m h a (xs @ ys) \<longleftrightarrow> blocks m h a xs \<and> blocks m h (a + total xs) ys"
  by (induction xs arbitrary: a) (auto simp: add.assoc)

lemmas head_fields = head_size_def head_free_def head_heap_def head_magic_def foot_magic_def foot_size_def

lemma block_at_raw:
  "block_at m h a (t + 24) f \<longleftrightarrow> m (W a) = W (t + 24) \<and> (m (W (a + 4)) AND 0xFF \<noteq> 0) = f \<and>
     m (W (a + 8)) = W h \<and> m (W (a + 12)) = HEAP_BLOCK_HEAD_MAGIC \<and>
     m (W (a + t + 16)) = HEAP_BLOCK_FOOT_MAGIC \<and> m (W (a + t + 20)) = W (t + 24)"
proof -
  have "a + (t + 24) - 8 = a + t + 16" by simp
  moreover have "W (a + t + 16) + 4 = W (a + t + 20)"
    unfolding W_add_numeral by (rule arg_cong [of _ _ W]) simp
  ultimately show ?thesis by (simp only: block_at_def head_fields W_add_numeral [of a])
qed

lemma block_at_cong:
  assumes "\<And>x. a \<le> x \<Longrightarrow> x < a + s \<Longrightarrow> m' (W x) = m (W x)" and "24 \<le> s"
  shows "block_at m' h a s f = block_at m h a s f"
proof -
  obtain t where s: "s = t + 24" using assms(2) le_Suc_ex by (metis add.commute)
  have "m' (W (a + k)) = m (W (a + k))" if "k < s" for k using assms(1) [of "a + k"] that by simp
  from this [of 0] this [of 4] this [of 8] this [of 12] this [of "t + 16"] this [of "t + 20"]
  show ?thesis
    by (simp add: block_at_raw s add.assoc)
qed

lemma upd_W: "x < 2 ^ 32 \<Longrightarrow> y < 2 ^ 32 \<Longrightarrow> (m(W x := v)) (W y) = (if x = y then v else m (W y))"
  by (simp add: W_eq_iff)

lemma blocks_frame:
  assumes "\<And>x. a \<le> x \<Longrightarrow> x < a + total bs \<Longrightarrow> m' (W x) = m (W x)"
  shows "blocks m h a bs \<Longrightarrow> blocks m' h a bs"
  using assms
proof (induction bs arbitrary: a)
  case Nil
  then show ?case by simp
next
  case (Cons b bs)
  obtain s f where b: "b = (s, f)" by (cases b)
  have "block_at m' h a s f = block_at m h a s f"
    using Cons.prems b by (intro block_at_cong) auto
  moreover have "blocks m' h (a + s) bs"
    using Cons.prems b by (intro Cons.IH) auto
  ultimately show ?case using Cons.prems(1) b by simp
qed

lemma block_init_W:
  assumes "a + t + 24 < 2 ^ 32"
  shows "block_init m (W a) (W (t + 24)) f hp =
    m(W a := W (t + 24), W (a + 4) := (m (W (a + 4)) AND NOT 0xFF) OR (if f then 1 else 0), W (a + 8) := hp,
      W (a + 12) := HEAP_BLOCK_HEAD_MAGIC, W (a + t + 16) := HEAP_BLOCK_FOOT_MAGIC, W (a + t + 20) := W (t + 24))"
proof -
  have foot: "W a + W (t + 24) - sizeof_foot = W (a + t + 16)"
    by (simp add: sizeof_foot_def W_simps ac_simps)
  have foot4: "W (a + t + 16) + 4 = W (a + t + 20)"
    unfolding W_add_numeral by (rule arg_cong [of _ _ W]) simp
  have "(m(W a := W (t + 24))) (W (a + 4)) = m (W (a + 4))"
    by (subst upd_W) (use assms in auto)
  then show ?thesis
    by (simp only: block_init_def Let_def foot foot4 set_head_free_def W_add_numeral [of a])
qed

lemma low_byte_set [simp]: "(x AND - 256) AND 0xFF = 0" "((x AND - 256) OR 1) AND 0xFF = 1" for x :: u32
  by (simp_all add: and.assoc bit.conj_disj_distrib2)

lemma block_init_at:
  assumes "24 \<le> s" "a + s < 2 ^ 32"
  shows "block_at (block_init m (W a) (W s) f (W h)) h a s f"
proof -
  obtain t where s: "s = t + 24" using assms(1) le_Suc_ex by (metis add.commute)
  with assms(2) have b: "a + t + 24 < 2 ^ 32" by simp
  then show ?thesis
    unfolding s block_init_W [OF b] block_at_raw by (simp add: upd_W del: fun_upd_apply)
qed

lemma block_init_frame:
  assumes "24 \<le> s" "a + s < 2 ^ 32" "x < 2 ^ 32" "x < a \<or> a + s \<le> x"
  shows "block_init m (W a) (W s) f hp (W x) = m (W x)"
proof -
  obtain t where s: "s = t + 24" using assms(1) le_Suc_ex by (metis add.commute)
  with assms(2) have b: "a + t + 24 < 2 ^ 32" by simp
  from assms(4) b assms(3) show ?thesis
    unfolding s block_init_W [OF b] by (auto simp: upd_W simp del: fun_upd_apply)
qed

lemma set_head_free_at:
  assumes "block_at m h a s f" "24 \<le> s" "a + s < 2 ^ 32"
  shows "block_at (set_head_free m (W a) g) h a s g"
proof -
  obtain t where s: "s = t + 24" using assms(2) le_Suc_ex by (metis add.commute)
  with assms show ?thesis
    unfolding set_head_free_def W_add_numeral s block_at_raw by (simp add: upd_W del: fun_upd_apply)
qed

lemma set_head_free_frame:
  assumes "a + 4 < 2 ^ 32" "x < 2 ^ 32" "x \<noteq> a + 4"
  shows "set_head_free m (W a) g (W x) = m (W x)"
  using assms unfolding set_head_free_def W_add_numeral by (simp add: upd_W del: fun_upd_apply)


section \<open>One heap\<close>

definition heap_top :: "nat \<Rightarrow> blk list \<Rightarrow> nat" where
  "heap_top h bs = h + 20 + total bs"

definition coalesced :: "blk list \<Rightarrow> bool" where
  "coalesced bs \<longleftrightarrow> successively (\<lambda>a b. \<not> (snd a \<and> snd b)) bs"

definition heap_ok :: "mem \<Rightarrow> nat \<Rightarrow> blk list \<Rightarrow> bool" where
  "heap_ok m h bs \<longleftrightarrow> heap_start m (W h) = W (h + 20) \<and> heap_end m (W h) = W (heap_top h bs) \<and>
     heap_frames m (W h) = W ((20 + total bs) div 4096) \<and> 4096 dvd 20 + total bs \<and> 4096 dvd h \<and>
     0x80000000 \<le> h \<and> heap_top h bs \<le> 0xA0000000 \<and> blocks m h (h + 20) bs \<and> bs \<noteq> [] \<and>
     coalesced bs \<and> (\<forall>t. bs \<noteq> [(t, True)])"

lemma heap_okD:
  assumes "heap_ok m h bs"
  shows "heap_start m (W h) = W (h + 20)" "heap_end m (W h) = W (heap_top h bs)"
    "heap_frames m (W h) = W ((20 + total bs) div 4096)" "4096 dvd 20 + total bs" "4096 dvd h"
    "0x80000000 \<le> h" "heap_top h bs \<le> 0xA0000000" "blocks m h (h + 20) bs" "bs \<noteq> []" "coalesced bs"
    "bs \<noteq> [(t, True)]"
  using assms by (auto simp: heap_ok_def)

lemma blocks_nth:
  assumes "blocks m h a (xs @ (s, f) # ys)"
  shows "block_at m h (a + total xs) s f" "24 \<le> s" "4 dvd s"
  using assms by (auto simp: blocks_append)

lemma block_atD:
  assumes "block_at m h a s f"
  shows "head_size m (W a) = W s" "head_free m (W a) = f" "head_heap m (W a) = W h"
    "head_magic m (W a) = HEAP_BLOCK_HEAD_MAGIC"
    "foot_magic m (W (a + s - 8)) = HEAP_BLOCK_FOOT_MAGIC" "foot_size m (W (a + s - 8)) = W s"
  using assms by (auto simp: block_at_def)

lemma W_head_foot: "W n + sizeof_head + sizeof_foot = W (n + 24)"
  unfolding sizeof_head_def sizeof_foot_def W_add_numeral by (rule arg_cong [of _ _ W]) simp

lemma foot_addr: "24 \<le> s \<Longrightarrow> W a + W s - sizeof_foot = W (a + s - 8)"
  by (simp add: sizeof_foot_def W_simps)

lemma block_check_ok:
  assumes "heap_start m (W h) = W (h + 20)" "heap_end m (W h) = W e" "block_at m h a s f" "24 \<le> s"
    "h + 20 \<le> a" "a < e" "e \<le> 0xA0000000"
  shows "block_check m (W a) = Some ()"
  using assms block_atD [OF assms(3)] by (simp add: block_check_def Let_def foot_addr W_le_iff W_less_iff)

lemma scan_skip:
  assumes "heap_start m (W h) = W (h + 20)" "heap_end m (W h) = W e" "e \<le> 0xA0000000" "h + 20 \<le> a"
    "a + total xs \<le> e" "blocks m h a xs" "\<forall>(s, f) \<in> set xs. \<not> (f \<and> rs \<le> s)" "rs < 2 ^ 32"
  shows "malloc_scan (W h) (W rs) m (W a) NULL = malloc_scan (W h) (W rs) m (W (a + total xs)) NULL"
  using assms
proof (induction xs arbitrary: a)
  case Nil
  then show ?case by simp
next
  case (Cons b xs)
  obtain s f where b: "b = (s, f)" by (cases b)
  have B: "block_at m h a s f" "24 \<le> s" using Cons.prems b by auto
  have bound: "a < e" "s < 2 ^ 32" "a < 2 ^ 32" "e < 2 ^ 32" using Cons.prems B(2) b by auto
  have chk: "block_check m (W a) = Some ()"
    using Cons.prems B bound by (intro block_check_ok) auto
  have "\<not> (head_free m (W a) \<and> W rs \<le> head_size m (W a))"
    using Cons.prems(7,8) b block_atD [OF B(1)] bound by (auto simp: W_le_iff)
  then have "malloc_scan (W h) (W rs) m (W a) NULL = malloc_scan (W h) (W rs) m (W (a + s)) NULL"
    using chk bound Cons.prems(2) block_atD(1) [OF B(1)]
    by (subst malloc_scan.simps) (auto simp: W_less_iff W_add)
  also have "\<dots> = malloc_scan (W h) (W rs) m (W (a + s + total xs)) NULL"
    using Cons.prems b by (intro Cons.IH) auto
  finally show ?case using b by (simp add: add.assoc)
qed

lemma scan_end:
  assumes "heap_end m (W h) = W e" "e \<le> 0xA0000000"
  shows "malloc_scan (W h) rs m (W e) NULL = Some (m, NULL)"
  using assms by (subst malloc_scan.simps) simp

text \<open>What happens to the chosen block: it is split when the rest can hold a block of its own.\<close>

definition split_block :: "nat \<Rightarrow> nat \<Rightarrow> blk list" where
  "split_block rs s = (if s > rs + 24 then [(rs, False), (s - rs, True)] else [(s, False)])"

lemma total_split [simp]: "rs \<le> s \<Longrightarrow> total (split_block rs s) = s"
  by (simp add: split_block_def)

definition take_block :: "mem \<Rightarrow> nat \<Rightarrow> nat \<Rightarrow> nat \<Rightarrow> nat \<Rightarrow> mem" where
  "take_block m h rs b s =
     (if s > rs + 24 then block_init (block_init m (W (b + rs)) (W (s - rs)) True (W h)) (W b) (W rs) False (W h)
      else set_head_free m (W b) False)"

lemma take_block_frame:
  assumes "24 \<le> rs" "rs \<le> s" "b + s < 2 ^ 32" "x < 2 ^ 32" "x < b \<or> b + s \<le> x"
  shows "take_block m h rs b s (W x) = m (W x)"
  using assms by (auto simp: take_block_def block_init_frame set_head_free_frame)

lemma split_init:
  assumes "24 \<le> rs" "rs + 24 < s" "b + s < 2 ^ 32"
  defines "m1 \<equiv> \<lambda>m h. block_init m (W (b + rs)) (W (s - rs)) True (W h)"
  shows "block_at (block_init (m1 m h) (W b) (W rs) False (W h)) h b rs False"
    "block_at (block_init (m1 m h) (W b) (W rs) False (W h)) h (b + rs) (s - rs) True"
proof -
  show "block_at (block_init (m1 m h) (W b) (W rs) False (W h)) h b rs False"
    using assms(1-3) by (intro block_init_at) auto
  have "block_at (m1 m h) h (b + rs) (s - rs) True"
    unfolding m1_def using assms(1-3) by (intro block_init_at) auto
  then show "block_at (block_init (m1 m h) (W b) (W rs) False (W h)) h (b + rs) (s - rs) True"
    using assms(1-3) by (subst block_at_cong [of _ _ _ "m1 m h"]) (auto intro: block_init_frame)
qed

lemma take_block_blocks:
  assumes "block_at m h b s True" "24 \<le> rs" "4 dvd rs" "4 dvd s" "rs \<le> s" "b + s < 2 ^ 32"
  shows "blocks (take_block m h rs b s) h b (split_block rs s)"
proof (cases "s > rs + 24")
  case True
  then show ?thesis
    using assms split_init [of rs s b m h] by (simp add: take_block_def split_block_def dvd_diff_nat)
next
  case False
  then show ?thesis
    using assms set_head_free_at [OF assms(1), of False] by (simp add: take_block_def split_block_def)
qed

lemma scan_hit:
  assumes "heap_start m (W h) = W (h + 20)" "heap_end m (W h) = W e" "block_at m h b s True" "24 \<le> s"
    "rs \<le> s" "24 \<le> rs" "h + 20 \<le> b" "b + s \<le> e" "e \<le> 0xA0000000"
  shows "malloc_scan (W h) (W rs) m (W b) NULL = Some (take_block m h rs b s, W (b + 16))"
proof -
  have chk: "block_check m (W b) = Some ()" using assms by (intro block_check_ok [OF assms(1-4)]) auto
  note B = block_atD [OF assms(3)]
  have ne: "W (b + 16) \<noteq> 0" using assms by (simp add: W_eq_0_iff)
  have "W rs + sizeof_head + sizeof_foot = W (rs + 24)" by (rule W_head_foot)
  moreover have "W s - W rs = W (s - rs)" "W b + sizeof_head = W (b + 16)"
    using assms by (simp_all add: W_simps sizeof_head_def)
  moreover have "W b < W e" "W rs \<le> W s" "W (rs + 24) < W s \<longleftrightarrow> rs + 24 < s"
    using assms by (auto simp: W_less_iff W_le_iff)
  ultimately show ?thesis
    using chk B assms(2) ne
    by (subst malloc_scan.simps, subst malloc_scan.simps)
       (simp add: Let_def take_block_def W_add)
qed


section \<open>The abstract allocator\<close>

type_synonym hp = "nat \<times> blk list"

fun alloc_block :: "nat \<Rightarrow> blk list \<Rightarrow> (nat \<times> blk list) option" where
  "alloc_block rs [] = None"
| "alloc_block rs ((s, f) # bs) =
     (if f \<and> rs \<le> s then Some (0, split_block rs s @ bs)
      else map_option (\<lambda>(off, bs'). (s + off, (s, f) # bs')) (alloc_block rs bs))"

fun alloc_heaps :: "nat \<Rightarrow> hp list \<Rightarrow> (nat \<times> hp list) option" where
  "alloc_heaps rs [] = None"
| "alloc_heaps rs ((h, bs) # hs) =
     (case alloc_block rs bs of
        Some (off, bs') \<Rightarrow> Some (h + 20 + off + 16, (h, bs') # hs)
      | None \<Rightarrow> map_option (\<lambda>(p, hs'). (p, (h, bs) # hs')) (alloc_heaps rs hs))"

lemma alloc_block_None: "alloc_block rs bs = None \<longleftrightarrow> (\<forall>(s, f) \<in> set bs. \<not> (f \<and> rs \<le> s))"
  by (induction rs bs rule: alloc_block.induct) auto

lemma alloc_block_Some:
  assumes "alloc_block rs bs = Some (off, bs')"
  obtains xs s ys where "bs = xs @ (s, True) # ys" "\<forall>(s, f) \<in> set xs. \<not> (f \<and> rs \<le> s)" "rs \<le> s"
    "off = total xs" "bs' = xs @ split_block rs s @ ys"
  using assms
proof (induction rs bs arbitrary: off bs' thesis rule: alloc_block.induct)
  case (1 rs)
  then show ?case by simp
next
  case (2 rs s f bs)
  show ?case
  proof (cases "f \<and> rs \<le> s")
    case True
    with "2.prems"(2) show ?thesis by (intro "2.prems"(1) [of "[]" s bs]) auto
  next
    case False
    with "2.prems"(2) obtain off1 bs1 where "alloc_block rs bs = Some (off1, bs1)"
      "off = s + off1" "bs' = (s, f) # bs1" by auto
    then obtain xs s' ys where "bs = xs @ (s', True) # ys" "\<forall>(s, f) \<in> set xs. \<not> (f \<and> rs \<le> s)"
      "rs \<le> s'" "off1 = total xs" "bs1 = xs @ split_block rs s' @ ys"
      using "2.IH" [OF False] by blast
    with False \<open>off = s + off1\<close> \<open>bs' = (s, f) # bs1\<close> show ?thesis
      by (intro "2.prems"(1) [of "(s, f) # xs" s' ys]) auto
  qed
qed

lemma scan_refines_None:
  assumes "heap_ok m h bs" "alloc_block rs bs = None" "rs < 2 ^ 32"
  shows "malloc_scan (W h) (W rs) m (heap_start m (W h)) NULL = Some (m, NULL)"
proof -
  note H = heap_okD [OF assms(1)]
  have "malloc_scan (W h) (W rs) m (W (h + 20)) NULL = malloc_scan (W h) (W rs) m (W (h + 20 + total bs)) NULL"
    using H assms(2,3) by (intro scan_skip [OF H(1,2,7)]) (auto simp: heap_top_def alloc_block_None)
  also have "\<dots> = Some (m, NULL)"
    using scan_end [OF H(2,7)] by (simp add: heap_top_def)
  finally show ?thesis using H(1) by simp
qed

lemma scan_refines_Some:
  assumes "heap_ok m h (xs @ (s, True) # ys)" "\<forall>(s, f) \<in> set xs. \<not> (f \<and> rs \<le> s)" "rs \<le> s" "24 \<le> rs"
  shows "malloc_scan (W h) (W rs) m (heap_start m (W h)) NULL =
     Some (take_block m h rs (h + 20 + total xs) s, W (h + 20 + total xs + 16))"
proof -
  note H = heap_okD [OF assms(1)] and B = blocks_nth [OF heap_okD(8) [OF assms(1)]]
  have top: "heap_top h (xs @ (s, True) # ys) = h + 20 + total xs + s + total ys" by (simp add: heap_top_def)
  have "rs < 2 ^ 32" using assms(3) top H(7) by simp
  then have "malloc_scan (W h) (W rs) m (W (h + 20)) NULL = malloc_scan (W h) (W rs) m (W (h + 20 + total xs)) NULL"
    using H assms(2) top by (intro scan_skip [OF H(1,2,7)]) (auto simp: blocks_append)
  also have "\<dots> = Some (take_block m h rs (h + 20 + total xs) s, W (h + 20 + total xs + 16))"
    using H(7) top assms(3,4) by (intro scan_hit [OF H(1,2) B(1,2)]) auto
  finally show ?thesis using H(1) by simp
qed

section \<open>All heaps\<close>

definition apart :: "hp \<Rightarrow> hp \<Rightarrow> bool" where
  "apart a b \<longleftrightarrow> heap_top (fst a) (snd a) \<le> fst b \<or> heap_top (fst b) (snd b) \<le> fst a"

definition heaps_ok :: "mem \<Rightarrow> u32 \<Rightarrow> hp list \<Rightarrow> bool" where
  "heaps_ok m hl hs \<longleftrightarrow> is_list m hl (map (\<lambda>g. W (fst g)) hs) \<and> (\<forall>(h, bs) \<in> set hs. heap_ok m h bs) \<and>
     sorted_wrt apart hs \<and> 0x80000000 \<le> unat hl \<and> unat hl + 8 \<le> 0xA0000000 \<and>
     (\<forall>(h, bs) \<in> set hs. unat hl + 8 \<le> h \<or> heap_top h bs \<le> unat hl)"

lemma heaps_okD:
  assumes "heaps_ok m hl hs"
  shows "is_list m hl (map (\<lambda>g. W (fst g)) hs)" "\<And>h bs. (h, bs) \<in> set hs \<Longrightarrow> heap_ok m h bs"
    "sorted_wrt apart hs" "0x80000000 \<le> unat hl" "unat hl + 8 \<le> 0xA0000000"
    "\<And>h bs. (h, bs) \<in> set hs \<Longrightarrow> unat hl + 8 \<le> h \<or> heap_top h bs \<le> unat hl"
  using assms by (auto simp: heaps_ok_def)

lemma heap_ok_frame:
  assumes "heap_ok m h bs" "\<And>x. h + 8 \<le> x \<Longrightarrow> x < heap_top h bs \<Longrightarrow> m' (W x) = m (W x)"
  shows "heap_ok m' h bs"
proof -
  note H = heap_okD [OF assms(1)]
  have "blocks m' h (h + 20) bs"
    using assms(2) H(8) by (intro blocks_frame [of _ _ m' m]) (auto simp: heap_top_def)
  moreover have "20 < total bs + 20"
    using H(8,9) by (cases bs) auto
  ultimately show ?thesis
    using assms by (auto simp: heap_ok_def heap_start_def heap_end_def heap_frames_def W_add_numeral heap_top_def)
qed

lemma apart_pair:
  assumes "sorted_wrt apart hs" "x \<in> set hs" "y \<in> set hs"
  shows "x = y \<or> apart x y"
proof -
  have sym: "apart b a" if "apart a b" for a b using that by (auto simp: apart_def)
  obtain i j where ij: "i < length hs" "hs ! i = x" "j < length hs" "hs ! j = y"
    using assms(2,3) by (auto simp: in_set_conv_nth)
  consider "i < j" | "i = j" | "j < i" by linarith
  then show ?thesis
    using sorted_wrt_nth_less [OF assms(1), of i j] sorted_wrt_nth_less [OF assms(1), of j i] ij sym
    by cases auto
qed

text \<open>The link cells of all heaps and of the list head lie outside the block area of any heap.\<close>

lemma heaps_links_frame:
  assumes ok: "heaps_ok m hl hs" and mem: "(h, bs) \<in> set hs"
    and fr: "\<And>x. x < 2 ^ 32 \<Longrightarrow> x < h + 20 \<or> heap_top h bs \<le> x \<Longrightarrow> m' (W x) = m (W x)"
  shows "is_list m' hl (map (\<lambda>g. W (fst g)) hs)"
proof -
  note D = heaps_okD [OF ok]
  have out: "m' (W x) = m (W x)" if "x < 2 ^ 32" "x < h + 20 \<or> heap_top h bs \<le> x" for x
    using fr that by blast
  have cell: "m' (W (g + k)) = m (W (g + k))" if "(g, cs) \<in> set hs" "k \<le> 4" for g cs k
  proof (rule out)
    note G = heap_okD [OF D(2) [OF that(1)]]
    have g: "g + 20 \<le> heap_top g cs" by (simp add: heap_top_def)
    show "g + k < 2 ^ 32" using G(7) g that(2) by simp
    have "(g, cs) = (h, bs) \<or> apart (g, cs) (h, bs)"
      using apart_pair [OF D(3) that(1) mem] .
    then show "g + k < h + 20 \<or> heap_top h bs \<le> g + k"
      using that(2) g by (auto simp: apart_def)
  qed
  have hl: "m' (W (unat hl + k)) = m (W (unat hl + k))" if "k \<le> 4" for k
    using D(5) D(6) [OF mem] that by (intro out) (auto simp: heap_top_def)
  have "\<forall>a \<in> link_cells (set (hl # map (\<lambda>g. W (fst g)) hs)). m' a = m a"
    using hl [of 0] hl [of 4, folded W_add_numeral] cell [of _ _ 0] cell [of _ _ 4, folded W_add_numeral]
    by (auto simp: link_cells_def)
  then show ?thesis using D(1) is_list_cong by blast
qed


lemma heaps_ok_others:
  assumes "heaps_ok m hl hs" "(g, cs) \<in> set hs" "(h, bs) \<in> set hs" "(g, cs) \<noteq> (h, bs)"
    "\<And>x. x < 2 ^ 32 \<Longrightarrow> x < h + 20 \<or> heap_top h bs \<le> x \<Longrightarrow> m' (W x) = m (W x)"
  shows "heap_ok m' g cs"
proof (rule heap_ok_frame)
  note D = heaps_okD [OF assms(1)]
  show "heap_ok m g cs" using D(2) assms(2) .
  fix x assume x: "g + 8 \<le> x" "x < heap_top g cs"
  have "heap_top g cs \<le> 0xA0000000" using heap_okD(7) [OF D(2) [OF assms(2)]] .
  moreover have "heap_top g cs \<le> h \<or> heap_top h bs \<le> g"
    using apart_pair [OF D(3) assms(2,3)] assms(4) by (auto simp: apart_def)
  ultimately show "m' (W x) = m (W x)" using x by (intro assms(5)) auto
qed

lemma heaps_update:
  assumes ok: "heaps_ok m hl (as @ (h, bs) # cs)"
    and fr: "\<And>x. x < 2 ^ 32 \<Longrightarrow> x < h + 20 \<or> heap_top h bs \<le> x \<Longrightarrow> m' (W x) = m (W x)"
    and new: "blocks m' h (h + 20) bs'" "total bs' = total bs" "bs' \<noteq> []" "coalesced bs'" "\<forall>t. bs' \<noteq> [(t, True)]"
  shows "heaps_ok m' hl (as @ (h, bs') # cs)"
proof -
  note D = heaps_okD [OF ok]
  have mem: "(h, bs) \<in> set (as @ (h, bs) # cs)" by simp
  note H = heap_okD [OF D(2) [OF mem]]
  have top: "heap_top h bs' = heap_top h bs" using new(2) by (simp add: heap_top_def)
  have "m' (W (h + k)) = m (W (h + k))" if "k < 20" for k
    using that H(7) by (intro fr) (auto simp: heap_top_def)
  then have "heap_ok m' h bs'"
    using H new top by (simp add: heap_ok_def heap_start_def heap_end_def heap_frames_def W_add_numeral)
  moreover have "heap_ok m' g ds" if "(g, ds) \<in> set as \<union> set cs" for g ds
  proof (rule heaps_ok_others [OF ok _ mem])
    have "\<not> heap_top g ds \<le> g" by (simp add: heap_top_def)
    moreover have "apart (g, ds) (h, bs)"
      using D(3) that by (auto simp: sorted_wrt_append apart_def)
    ultimately show "(g, ds) \<noteq> (h, bs)" by (auto simp: apart_def)
  qed (use that fr in auto)
  moreover have "is_list m' hl (map (\<lambda>g. W (fst g)) (as @ (h, bs') # cs))"
    using heaps_links_frame [OF ok mem fr] by simp
  moreover have "sorted_wrt apart (as @ (h, bs') # cs)"
    using D(3) top by (simp add: sorted_wrt_append apart_def)
  ultimately show ?thesis
    using D(4,5,6) top unfolding heaps_ok_def by auto
qed

lemma coalesced_split:
  assumes "coalesced (xs @ (s, True) # ys)"
  shows "coalesced (xs @ split_block rs s @ ys)"
  using assms by (auto simp: coalesced_def split_block_def successively_append_iff successively_Cons)

lemma split_block_shape: "xs @ split_block rs s @ ys \<noteq> [(t, True)]"
  by (auto simp: split_block_def append_eq_Cons_conv)

section \<open>Allocated payloads\<close>

text \<open>The start and the length of the payload of every used block.\<close>

fun payloads :: "nat \<Rightarrow> blk list \<Rightarrow> (nat \<times> nat) set" where
  "payloads a [] = {}"
| "payloads a ((s, f) # bs) = (if f then {} else {(a + 16, s - 24)}) \<union> payloads (a + s) bs"

definition allocated :: "hp list \<Rightarrow> (nat \<times> nat) set" where
  "allocated hs = (\<Union>(h, bs) \<in> set hs. payloads (h + 20) bs)"

definition area :: "nat \<times> nat \<Rightarrow> nat set" where
  "area p = {fst p..<fst p + snd p}"

lemma payloads_append: "payloads a (xs @ ys) = payloads a xs \<union> payloads (a + total xs) ys"
  by (induction xs arbitrary: a) (auto simp: add.assoc)

lemma allocated_simps [simp]: "allocated [] = {}"
  "allocated ((h, bs) # hs) = payloads (h + 20) bs \<union> allocated hs"
  "allocated (hs @ gs) = allocated hs \<union> allocated gs"
  by (auto simp: allocated_def)

lemma payloads_bounds:
  assumes "blocks m h a bs" "(p, n) \<in> payloads a bs"
  shows "a + 16 \<le> p" "p + n + 8 \<le> a + total bs"
proof -
  have "a + 16 \<le> p \<and> p + n + 8 \<le> a + total bs"
    using assms by (induction bs arbitrary: a) (fastforce split: if_splits)+
  then show "a + 16 \<le> p" "p + n + 8 \<le> a + total bs" by auto
qed

lemma blocks_dvd: "blocks m h a bs \<Longrightarrow> 4 dvd total bs"
  by (induction bs arbitrary: a) auto

lemma payloads_split:
  "rs \<le> s \<Longrightarrow> payloads a (split_block rs s) = {(a + 16, (if s > rs + 24 then rs else s) - 24)}"
  by (simp add: split_block_def)

text \<open>Allocating in one heap: the memory, the heap list and the payloads.\<close>

lemma alloc_in_heap:
  assumes ok: "heaps_ok m hl (as @ (h, bs) # cs)" and al: "alloc_block rs bs = Some (off, bs')"
    and rs: "24 \<le> rs" "4 dvd rs"
  obtains m' n where "malloc_scan (W h) (W rs) m (heap_start m (W h)) NULL = Some (m', W (h + 20 + off + 16))"
    "heaps_ok m' hl (as @ (h, bs') # cs)" "rs \<le> n + 24"
    "payloads (h + 20) bs' = insert (h + 20 + off + 16, n) (payloads (h + 20) bs)"
    "\<forall>x < 2 ^ 32. x < h + 20 \<or> heap_top h bs \<le> x \<longrightarrow> m' (W x) = m (W x)"
    "\<forall>p \<in> payloads (h + 20) bs. \<forall>x \<in> area p. m' (W x) = m (W x)"
    "\<forall>p \<in> payloads (h + 20) bs. area p \<inter> area (h + 20 + off + 16, n) = {}"
    "h + 20 + off + n + 24 \<le> heap_top h bs" "4 dvd off"
proof -
  note D = heaps_okD [OF ok]
  have H: "heap_ok m h bs" using D(2) by simp
  obtain xs s ys where split: "bs = xs @ (s, True) # ys" "\<forall>(s, f) \<in> set xs. \<not> (f \<and> rs \<le> s)" "rs \<le> s"
    "off = total xs" "bs' = xs @ split_block rs s @ ys"
    by (rule alloc_block_Some [OF al])
  let ?b = "h + 20 + off" and ?n = "(if s > rs + 24 then rs else s) - 24"
  let ?m = "take_block m h rs ?b s"
  note HD = heap_okD [OF H] and B = blocks_nth [OF heap_okD(8) [OF H, unfolded split(1)]]
  have top: "heap_top h bs = ?b + s + total ys" by (simp add: heap_top_def split(1,4))
  have bnd: "?b + s < 2 ^ 32" "heap_top h bs < 2 ^ 32" using top HD(7) by auto
  have fr: "?m (W x) = m (W x)" if "x < 2 ^ 32" "x < ?b \<or> ?b + s \<le> x" for x
    using that bnd rs split(3) by (intro take_block_frame) auto
  have scan: "malloc_scan (W h) (W rs) m (heap_start m (W h)) NULL = Some (?m, W (?b + 16))"
    using scan_refines_Some [of m h xs s ys rs] H split rs by simp
  have xy: "blocks ?m h (h + 20) xs" "blocks ?m h (?b + s) ys"
  proof -
    have "blocks m h (h + 20) xs" "blocks m h (?b + s) ys"
      using HD(8) by (simp_all add: split(1,4) blocks_append)
    moreover have "?m (W x) = m (W x)" if "h + 20 \<le> x" "x < h + 20 + total xs" for x
      using that bnd by (intro fr) (auto simp: split(4))
    moreover have "?m (W x) = m (W x)" if "?b + s \<le> x" "x < ?b + s + total ys" for x
      using that bnd top by (intro fr) auto
    ultimately show "blocks ?m h (h + 20) xs" "blocks ?m h (?b + s) ys"
      by (auto intro: blocks_frame [of _ _ ?m m])
  qed
  moreover have "blocks ?m h ?b (split_block rs s)"
    using B rs split bnd by (intro take_block_blocks) auto
  ultimately have "blocks ?m h (h + 20) bs'"
    by (simp add: split(4,5) blocks_append split(3) add.assoc)
  moreover have "coalesced bs'" "bs' \<noteq> []" "total bs' = total bs"
    using HD(10) coalesced_split [of xs s ys rs] split(3) by (auto simp: split(1,5) split_block_def)
  ultimately have ok': "heaps_ok ?m hl (as @ (h, bs') # cs)"
    using fr top split_block_shape [of xs rs s ys] by (intro heaps_update [OF ok]) (auto simp: split(5))
  have pl: "payloads (h + 20) bs = payloads (h + 20) xs \<union> payloads (?b + s) ys"
    by (simp add: split(1,4) payloads_append)
  have pl': "payloads (h + 20) bs' = insert (?b + 16, ?n) (payloads (h + 20) bs)"
    unfolding pl using split(3) by (simp add: split(4,5) payloads_append payloads_split add.assoc)
  have px: "p + n + 8 \<le> ?b" if "(p, n) \<in> payloads (h + 20) xs" for p n
    using payloads_bounds(2) [OF xy(1) that] by (simp add: split(4))
  have py: "?b + s + 16 \<le> p" if "(p, n) \<in> payloads (?b + s) ys" for p n
    using payloads_bounds(1) [OF xy(2) that] by simp
  show thesis
  proof (rule that [OF scan ok' _ pl'])
    show "rs \<le> ?n + 24" using split(3) by auto
    show "\<forall>x < 2 ^ 32. x < h + 20 \<or> heap_top h bs \<le> x \<longrightarrow> ?m (W x) = m (W x)"
      using fr top by auto
    have "?m (W x) = m (W x)" if p: "(q, n) \<in> payloads (h + 20) bs" and x: "q \<le> x" "x < q + n" for q n x
    proof (rule fr)
      show "x < 2 ^ 32" using payloads_bounds(2) [OF HD(8) p] x(2) bnd(2) by (simp add: heap_top_def)
      show "x < ?b \<or> ?b + s \<le> x" using p x px py unfolding pl by fastforce
    qed
    then show "\<forall>p \<in> payloads (h + 20) bs. \<forall>x \<in> area p. ?m (W x) = m (W x)"
      by (auto simp: area_def)
    show "\<forall>p \<in> payloads (h + 20) bs. area p \<inter> area (?b + 16, ?n) = {}"
    proof
      fix p assume p: "p \<in> payloads (h + 20) bs"
      have "?n + 24 \<le> s" using split(3) B(2) rs by auto
      moreover have "fst p + snd p \<le> ?b \<or> ?b + s \<le> fst p"
        using p px [of "fst p" "snd p"] py [of "fst p" "snd p"] unfolding pl by auto
      ultimately show "area p \<inter> area (?b + 16, ?n) = {}"
        unfolding area_def by (auto simp del: less_Suc_eq)
    qed
    show "?b + ?n + 24 \<le> heap_top h bs" using top split(3) B(2) rs by auto
    show "4 dvd off" using HD(8) blocks_dvd [of m h "h + 20" xs] by (simp add: split(1,4) blocks_append)
  qed
qed


lemma allocated_bounds:
  assumes "heaps_ok m hl hs" "q \<in> allocated hs"
  obtains h bs where "(h, bs) \<in> set hs" "q \<in> payloads (h + 20) bs" "h + 36 \<le> fst q"
    "fst q + snd q + 8 \<le> heap_top h bs"
proof -
  obtain h bs where hb: "(h, bs) \<in> set hs" "q \<in> payloads (h + 20) bs"
    using assms(2) by (auto simp: allocated_def)
  have "blocks m h (h + 20) bs" using heap_okD(8) heaps_okD(2) [OF assms(1) hb(1)] by blast
  from payloads_bounds [OF this, of "fst q" "snd q"] hb show thesis
    by (intro that [OF hb]) (auto simp: heap_top_def)
qed

text \<open>What an allocation of the payload \<open>q\<close> that turns the heaps \<open>hs\<close> into \<open>hs'\<close> owes: the new
  heaps are well formed, \<open>q\<close> is new and disjoint from every allocated payload, and neither an
  allocated payload nor memory outside the heaps changes.\<close>

definition alloc_post :: "mem \<Rightarrow> u32 \<Rightarrow> hp list \<Rightarrow> nat \<times> nat \<Rightarrow> hp list \<Rightarrow> mem \<Rightarrow> bool" where
  "alloc_post m hl hs q hs' m' \<longleftrightarrow> heaps_ok m' hl hs' \<and> allocated hs' = insert q (allocated hs) \<and>
     (\<forall>p \<in> allocated hs. area p \<inter> area q = {} \<and> (\<forall>x \<in> area p. m' (W x) = m (W x)))"

lemma alloc_step:
  assumes ok: "heaps_ok m hl (as @ (h, bs) # cs)" and al: "alloc_block rs bs = Some (off, bs')"
    and rs: "24 \<le> rs" "4 dvd rs"
  shows "\<exists>m' n. malloc_scan (W h) (W rs) m (heap_start m (W h)) NULL = Some (m', W (h + 20 + off + 16)) \<and>
     rs \<le> n + 24 \<and> alloc_post m hl (as @ (h, bs) # cs) (h + 20 + off + 16, n) (as @ (h, bs') # cs) m' \<and>
     (\<forall>x < 2 ^ 32. (\<forall>(g, ds) \<in> set (as @ (h, bs) # cs). x < g \<or> heap_top g ds \<le> x) \<longrightarrow> m' (W x) = m (W x)) \<and>
     h \<le> h + 20 + off + 16 \<and> h + 20 + off + 16 + n \<le> 0xA0000000 \<and> 4 dvd h + 20 + off + 16"
proof -
  let ?hs = "as @ (h, bs) # cs"
  obtain m' n where A: "malloc_scan (W h) (W rs) m (heap_start m (W h)) NULL = Some (m', W (h + 20 + off + 16))"
    "heaps_ok m' hl (as @ (h, bs') # cs)" "rs \<le> n + 24"
    "payloads (h + 20) bs' = insert (h + 20 + off + 16, n) (payloads (h + 20) bs)"
    "\<forall>x < 2 ^ 32. x < h + 20 \<or> heap_top h bs \<le> x \<longrightarrow> m' (W x) = m (W x)"
    "\<forall>p \<in> payloads (h + 20) bs. \<forall>x \<in> area p. m' (W x) = m (W x)"
    "\<forall>p \<in> payloads (h + 20) bs. area p \<inter> area (h + 20 + off + 16, n) = {}"
    "h + 20 + off + n + 24 \<le> heap_top h bs" "4 dvd off"
    by (rule alloc_in_heap [OF ok al rs])
  note H = heap_okD [OF heaps_okD(2) [OF ok, of h bs], simplified]
  have post: "area p \<inter> area (h + 20 + off + 16, n) = {} \<and> (\<forall>x \<in> area p. m' (W x) = m (W x))"
    if p: "p \<in> allocated ?hs" for p
  proof -
    obtain g ds where g: "(g, ds) \<in> set ?hs" "p \<in> payloads (g + 20) ds" "g + 36 \<le> fst p"
      "fst p + snd p + 8 \<le> heap_top g ds"
      by (rule allocated_bounds [OF ok p])
    show ?thesis
    proof (cases "(g, ds) = (h, bs)")
      case True
      with A(6,7) g(2) show ?thesis by auto
    next
      case False
      then have "heap_top g ds \<le> h \<or> heap_top h bs \<le> g"
        using apart_pair [OF heaps_okD(3) [OF ok] g(1), of "(h, bs)"] by (auto simp: apart_def)
      moreover have "heap_top g ds < 2 ^ 32"
        using heap_okD(7) [OF heaps_okD(2) [OF ok g(1)]] by simp
      ultimately show ?thesis
        using g(3,4) A(5,8) unfolding area_def by force
    qed
  qed
  have "allocated (as @ (h, bs') # cs) = insert (h + 20 + off + 16, n) (allocated ?hs)"
    by (simp add: A(4))
  then have "alloc_post m hl ?hs (h + 20 + off + 16, n) (as @ (h, bs') # cs) m'"
    using A(2) post by (simp add: alloc_post_def)
  moreover have "4 dvd h" using dvd_trans [OF _ H(5), of 4] by simp
  then have "4 dvd h + 20 + off + 16" using A(9) by (intro dvd_add) simp_all
  moreover have "\<forall>x < 2 ^ 32. (\<forall>(g, ds) \<in> set ?hs. x < g \<or> heap_top g ds \<le> x) \<longrightarrow> m' (W x) = m (W x)"
    using A(5) by auto
  ultimately show ?thesis
    using A(1,3,8) H(7) by (intro exI [of _ m'] exI [of _ n]) simp
qed

lemma heap_link_next:
  assumes "heaps_ok m hl (as @ (h, bs) # cs)"
  shows "link_next m (W h) = hd (map (\<lambda>g. W (fst g)) cs @ [hl])" "W h \<noteq> hl"
  using is_listD [OF heaps_okD(1) [OF assms]] lseg_first
  by (auto simp: lseg_append)

lemma search_None:
  assumes "heaps_ok m hl (as @ gs)" "alloc_heaps rs gs = None" "rs < 2 ^ 32"
  shows "malloc_search hl (W rs) m (hd (map (\<lambda>g. W (fst g)) gs @ [hl])) = Some (m, NULL)"
  using assms
proof (induction gs arbitrary: as)
  case Nil
  then show ?case by (simp add: malloc_search.simps)
next
  case (Cons g gs)
  obtain h bs where g: "g = (h, bs)" by (cases g)
  have "alloc_block rs bs = None" "alloc_heaps rs gs = None" using Cons.prems(2) g by (auto split: option.splits)
  moreover have "heap_ok m h bs" using heaps_okD(2) [OF Cons.prems(1)] g by simp
  ultimately have "malloc_scan (W h) (W rs) m (heap_start m (W h)) NULL = Some (m, NULL)"
    using scan_refines_None Cons.prems(3) by blast
  with heap_link_next [of m hl as h bs gs] Cons.prems(1) g
    Cons.IH [of "as @ [g]"] \<open>alloc_heaps rs gs = None\<close> Cons.prems(3)
  show ?case by (subst malloc_search.simps) simp
qed

lemma search_Some:
  assumes "heaps_ok m hl (as @ gs)" "alloc_heaps rs gs = Some (p, gs')" "24 \<le> rs" "4 dvd rs" "rs < 2 ^ 32"
  shows "\<exists>m' n. malloc_search hl (W rs) m (hd (map (\<lambda>g. W (fst g)) gs @ [hl])) = Some (m', W p) \<and>
     rs \<le> n + 24 \<and> alloc_post m hl (as @ gs) (p, n) (as @ gs') m' \<and>
     (\<forall>x < 2 ^ 32. (\<forall>(g, ds) \<in> set (as @ gs). x < g \<or> heap_top g ds \<le> x) \<longrightarrow> m' (W x) = m (W x)) \<and>
     0x80000000 \<le> p \<and> p + n \<le> 0xA0000000 \<and> 4 dvd p"
  using assms
proof (induction gs arbitrary: as gs')
  case Nil
  then show ?case by simp
next
  case (Cons g gs)
  obtain h bs where g: "g = (h, bs)" by (cases g)
  note next_h = heap_link_next [of m hl as h bs gs]
  have H: "heap_ok m h bs" using heaps_okD(2) [OF Cons.prems(1)] g by simp
  show ?case
  proof (cases "alloc_block rs bs")
    case None
    then obtain gs1 where gs1: "alloc_heaps rs gs = Some (p, gs1)" "gs' = (h, bs) # gs1"
      using Cons.prems(2) g by auto
    have "malloc_scan (W h) (W rs) m (heap_start m (W h)) NULL = Some (m, NULL)"
      using scan_refines_None [OF H None Cons.prems(5)] .
    with next_h Cons.IH [of "as @ [g]" gs1] Cons.prems gs1 g show ?thesis
      by (subst malloc_search.simps) simp
  next
    case (Some a)
    obtain off bs' where a: "a = (off, bs')" by (cases a)
    have p: "p = h + 20 + off + 16" "gs' = (h, bs') # gs" using Cons.prems(2) Some a g by auto
    obtain m' n where S: "malloc_scan (W h) (W rs) m (heap_start m (W h)) NULL = Some (m', W p)"
      "rs \<le> n + 24" "alloc_post m hl (as @ g # gs) (p, n) (as @ gs') m'"
      "\<forall>x < 2 ^ 32. (\<forall>(g, ds) \<in> set (as @ g # gs). x < g \<or> heap_top g ds \<le> x) \<longrightarrow> m' (W x) = m (W x)"
      "h \<le> p" "p + n \<le> 0xA0000000" "4 dvd p"
      using alloc_step [of m hl as h bs gs rs off bs'] Cons.prems Some a g p by auto
    have p0: "W p \<noteq> 0" "0x80000000 \<le> p" using S(5,6) heap_okD(6) [OF H] by (simp_all add: W_eq_0_iff)
    have "malloc_search hl (W rs) m (W h) = Some (m', W p)"
      using S(1) p0 next_h(2) Cons.prems(1) g by (subst malloc_search.simps) simp
    with S p0(2) g show ?thesis by auto
  qed
qed


section \<open>Sizes\<close>

definition real_block :: "nat \<Rightarrow> nat" where
  "real_block n = (n + 3) div 4 * 4 + 24"

definition new_frames :: "nat \<Rightarrow> nat" where
  "new_frames n = max 16 ((real_block n + 20 + 4095) div 4096)"

lemma real_block_bounds: "n + 24 \<le> real_block n" "real_block n \<le> n + 27" "4 dvd real_block n" "24 \<le> real_block n"
  by (simp_all add: real_block_def)

lemma ALIGN_UP_W:
  assumes "a + 2 ^ n - 1 < 2 ^ 32" "n < 32"
  shows "ALIGN_UP (W a) (2 ^ n) = W ((a + (2 ^ n - 1)) div 2 ^ n * 2 ^ n)"
proof -
  have "W (2 ^ n - 1) = 2 ^ n - 1" by (simp add: of_nat_diff)
  then have "W a + (2 ^ n - 1) = W (a + (2 ^ n - 1))" by (metis W_add)
  then have "unat (ALIGN_UP (W a) (2 ^ n)) = a + (2 ^ n - 1) - (a + (2 ^ n - 1)) mod 2 ^ n"
    using assms by (simp only: ALIGN_UP_eq_DOWN unat_ALIGN_DOWN) (simp add: unat_W)
  then have "unat (ALIGN_UP (W a) (2 ^ n)) = (a + (2 ^ n - 1)) div 2 ^ n * 2 ^ n"
    by (simp add: minus_mod_eq_div_mult)
  then show ?thesis by (metis W_unat)
qed

lemma real_size_W:
  assumes "sz \<le> HEAP_BLOCK_SIZE_MAX"
  shows "ALIGN_UP sz ALIGNMENT + sizeof_head + sizeof_foot = W (real_block (unat sz))"
    "unat sz \<le> 0x10000000" "real_block (unat sz) < 2 ^ 32"
proof -
  show le: "unat sz \<le> 0x10000000" using assms by (simp add: word_le_nat_alt HEAP_BLOCK_SIZE_MAX_def)
  then show "real_block (unat sz) < 2 ^ 32" using real_block_bounds(2) [of "unat sz"] by simp
  have "ALIGN_UP sz ALIGNMENT = W ((unat sz + 3) div 4 * 4)"
    using ALIGN_UP_W [of "unat sz" 2] le by (simp add: ALIGNMENT_def)
  then show "ALIGN_UP sz ALIGNMENT + sizeof_head + sizeof_foot = W (real_block (unat sz))"
    by (simp only: W_head_foot real_block_def)
qed

lemma FRAME_SIZE_eq: "FRAME_SIZE = 2 ^ 12"
  by (simp add: FRAME_SIZE_def FRAME_WIDTH_def push_bit_eq_mult)

lemma drop_bit_W: "a < 2 ^ 32 \<Longrightarrow> drop_bit n (W a) = W (a div 2 ^ n)"
  by (metis (no_types, lifting) W_unat drop_bit_eq_div unat_W unsigned_drop_bit_eq take_bit_nat_eq_self_iff unat_drop_bit_eq)

lemma heap_size_W:
  fixes r :: nat
  assumes "r \<le> 0x10000030"
  defines "hs0 \<equiv> ALIGN_UP (W r + sizeof_heap) FRAME_SIZE" and "fr \<equiv> (r + 20 + 4095) div 4096"
  shows "hs0 = W (4096 * fr)" "drop_bit FRAME_WIDTH hs0 = W fr" "fr < 2 ^ 20"
proof -
  show fr: "fr < 2 ^ 20" using assms(1) unfolding fr_def by (simp add: div_less_iff_less_mult)
  show eq: "hs0 = W (4096 * fr)"
    using ALIGN_UP_W [of "r + 20" 12] assms(1)
    by (simp add: hs0_def fr_def sizeof_heap_def FRAME_SIZE_eq W_add_numeral mult.commute)
  show "drop_bit FRAME_WIDTH hs0 = W fr"
    using fr unfolding eq FRAME_WIDTH_def by (subst drop_bit_W) simp_all
qed


section \<open>New heaps\<close>

text \<open>What the heap relies on in the frame allocator. \<open>owned fs\<close> is the set of the physical byte
  addresses that are in use: frames handed out and not freed, and the kernel image.
  \<^verbatim>\<open>frame_alloc\<close> asked for memory accessible from KSEG0 (the first 512 MB) either fails and takes
  nothing, or hands out \<open>cnt\<close> consecutive frames nobody owns; \<^verbatim>\<open>frame_free\<close> takes owned frames back.\<close>

definition frame_range :: "u32 \<Rightarrow> u32 \<Rightarrow> nat set" where
  "frame_range phys cnt = {unat phys..<unat phys + 4096 * unat cnt}"

definition frames_ok :: "'fs falloc \<Rightarrow> ('fs \<Rightarrow> nat set) \<Rightarrow> bool" where
  "frames_ok F owned \<longleftrightarrow>
     (\<forall>fs cnt rc phys fs'. frame_alloc F fs cnt (VF_VA_AUTO OR VF_AT_KSEG0) = (rc, phys, fs') \<longrightarrow>
        (if rc = EOK then 4096 dvd unat phys \<and> unat phys + 4096 * unat cnt \<le> 2 ^ 29 \<and>
           frame_range phys cnt \<inter> owned fs = {} \<and> owned fs' = owned fs \<union> frame_range phys cnt
         else owned fs' = owned fs)) \<and>
     (\<forall>fs cnt phys. 4096 dvd unat phys \<longrightarrow> 0 < cnt \<longrightarrow> frame_range phys cnt \<subseteq> owned fs \<longrightarrow>
        (\<exists>fs'. frame_free F fs phys cnt = (EOK, fs') \<and> owned fs' = owned fs - frame_range phys cnt))"

lemma frame_alloc_EOK:
  assumes "frames_ok F owned" "frame_alloc F fs cnt (VF_VA_AUTO OR VF_AT_KSEG0) = (EOK, phys, fs')"
  shows "4096 dvd unat phys" "unat phys + 4096 * unat cnt \<le> 2 ^ 29"
    "frame_range phys cnt \<inter> owned fs = {}" "owned fs' = owned fs \<union> frame_range phys cnt"
proof -
  have "if EOK = EOK then 4096 dvd unat phys \<and> unat phys + 4096 * unat cnt \<le> 2 ^ 29 \<and>
      frame_range phys cnt \<inter> owned fs = {} \<and> owned fs' = owned fs \<union> frame_range phys cnt
     else owned fs' = owned fs"
    using assms unfolding frames_ok_def by blast
  then show "4096 dvd unat phys" "unat phys + 4096 * unat cnt \<le> 2 ^ 29"
    "frame_range phys cnt \<inter> owned fs = {}" "owned fs' = owned fs \<union> frame_range phys cnt" by simp_all
qed

text \<open>The bytes of the heaps and of the list head.\<close>

definition heap_bytes :: "u32 \<Rightarrow> hp list \<Rightarrow> nat set" where
  "heap_bytes hl hs = {unat hl..<unat hl + 8} \<union> (\<Union>(h, bs) \<in> set hs. {h..<heap_top h bs})"

lemma KSEG0_W:
  assumes "unat phys < 2 ^ 29"
  shows "ADDR_IN_KSEG0 phys = W (unat phys + 0x80000000)"
    "ADDR_FROM_KSEG0 (W (unat phys + 0x80000000)) = phys"
proof -
  have tb: "take_bit 29 phys = phys"
    using assms by (simp add: word_unat_eq_iff unsigned_take_bit_eq take_bit_nat_eq_self)
  have off: "ADDR_OFFSET_MASK = mask 29" by (simp add: ADDR_OFFSET_MASK_def mask_eq_exp_minus_1)
  have pre: "ADDR_PREFIX_KSEG0 = 2 ^ 31" by (simp add: ADDR_PREFIX_KSEG0_def)
  have "\<not> bit phys 31" by (subst tb [symmetric]) (simp add: bit_take_bit_iff)
  then have "phys AND 2 ^ 31 = 0" by (intro bit_eqI) (auto simp only: bit_and_iff bit_exp_iff bit_0_eq bot_apply bot_bool_def)
  then have "phys OR 2 ^ 31 = phys + 2 ^ 31" using word_plus_and_or [of phys "2 ^ 31"] by simp
  moreover have "W (unat phys + 0x80000000) = phys + 2 ^ 31" by (simp add: of_nat_add)
  ultimately show eq: "ADDR_IN_KSEG0 phys = W (unat phys + 0x80000000)"
    using tb by (simp only: ADDR_IN_KSEG0_def off pre take_bit_eq_mask [symmetric])
  have "(phys OR 2 ^ 31) AND mask 29 = phys"
    unfolding take_bit_eq_mask [symmetric] take_bit_or using tb by simp
  then show "ADDR_FROM_KSEG0 (W (unat phys + 0x80000000)) = phys"
    unfolding eq [symmetric] ADDR_FROM_KSEG0_def ADDR_IN_KSEG0_def off pre
    using tb by (simp only: take_bit_eq_mask [symmetric])
qed

text \<open>The blocks of a fresh heap.\<close>

lemma fresh_blocks:
  fixes m :: mem and h :: nat
  assumes "24 \<le> rs" "4 dvd rs" "rs \<le> s" "4 dvd s" "b + s < 2 ^ 32"
  defines "m' \<equiv> (if s > rs + 24 then block_init (block_init m (W (b + rs)) (W (s - rs)) True (W h)) (W b) (W rs) False (W h)
      else block_init m (W b) (W s) False (W h))"
  shows "blocks m' h b (split_block rs s)"
    "\<And>x. x < 2 ^ 32 \<Longrightarrow> x < b \<or> b + s \<le> x \<Longrightarrow> m' (W x) = m (W x)"
proof -
  show "\<And>x. x < 2 ^ 32 \<Longrightarrow> x < b \<or> b + s \<le> x \<Longrightarrow> m' (W x) = m (W x)"
    using assms(1-5) unfolding m'_def by (auto simp: block_init_frame)
  show "blocks m' h b (split_block rs s)"
    using assms(1-5) split_init [of rs s b m h]
    by (auto simp: m'_def split_block_def block_init_at dvd_diff_nat)
qed


text \<open>The heap that \<^verbatim>\<open>malloc_heap\<close> builds for a request of \<open>n\<close> bytes.\<close>

definition new_heap :: "nat \<Rightarrow> nat \<Rightarrow> hp" where
  "new_heap h n = (h, split_block (real_block n) (4096 * new_frames n - 20))"

lemma new_heap_size:
  assumes "n \<le> 0x10000000"
  shows "real_block n \<le> 4096 * new_frames n - 20" "heap_top h (snd (new_heap h n)) = h + 4096 * new_frames n"
    "65536 \<le> 4096 * new_frames n" "new_frames n < 2 ^ 20"
proof -
  show big: "65536 \<le> 4096 * new_frames n" by (simp add: new_frames_def)
  have "real_block n + 20 \<le> 4096 * ((real_block n + 20 + 4095) div 4096)" by simp
  also have "\<dots> \<le> 4096 * new_frames n" by (simp add: new_frames_def)
  finally show le: "real_block n \<le> 4096 * new_frames n - 20" by simp
  then show "heap_top h (snd (new_heap h n)) = h + 4096 * new_frames n"
    using big by (simp add: heap_top_def new_heap_def)
  show "new_frames n < 2 ^ 20"
    using assms real_block_bounds(2) [of n] by (simp add: new_frames_def div_less_iff_less_mult)
qed

lemma malloc_heap_EOK:
  fixes s :: "('fs, 'z) kmem_scheme"
  assumes sz: "sz \<le> HEAP_BLOCK_SIZE_MAX" and F: "frames_ok F owned"
    and fa: "frame_alloc F (k_fs s) (W (new_frames (unat sz))) (VF_VA_AUTO OR VF_AT_KSEG0) = (EOK, phys, fs')"
  defines "h \<equiv> unat phys + 0x80000000" and "hp \<equiv> 4096 * new_frames (unat sz)"
  obtains m5 where
    "malloc_heap F sz s = do { m6 \<leftarrow> list_append m5 (heap_list s) (W h);
       Some (heap_start m6 (W h) + sizeof_head, s\<lparr>k_mem := m6, k_fs := fs'\<rparr>) }"
    "heap_ok m5 h (snd (new_heap h (unat sz)))" "h + hp \<le> 0xA0000000"
    "\<forall>x < 2 ^ 32. x < h \<or> h + hp \<le> x \<longrightarrow> m5 (W x) = k_mem s (W x)"
proof -
  let ?n = "unat sz" and ?r = "real_block (unat sz)" and ?m = "k_mem s"
  note R = real_size_W [OF sz] and N = new_heap_size [OF real_size_W(2) [OF sz]] and A = frame_alloc_EOK [OF F fa]
  have r: "?r \<le> 0x10000030" using R(2) real_block_bounds(2) [of ?n] by simp
  have fr: "unat (W (new_frames ?n)) = new_frames ?n" using N(4) by (intro unat_W) simp
  have hb: "h + hp \<le> 0xA0000000" "0x80000000 \<le> h" using A(2) fr by (simp_all add: h_def hp_def)
  have big: "65536 \<le> hp" using N(3) hp_def by simp
  have "unat phys < 2 ^ 29" using A(2) fr big by (simp add: hp_def)
  note K = KSEG0_W(1) [OF this, folded h_def]
  have small: "W f < HEAP_FRAMES \<longleftrightarrow> f < 16" if "f < 2 ^ 20" for f
    using that W_less_iff [of f 16] by (simp add: HEAP_FRAMES_def)
  define fr0 where "fr0 = (?r + 20 + 4095) div 4096"
  note Z = heap_size_W [OF r, folded fr0_def]
  have frames: "(if W fr0 < HEAP_FRAMES then HEAP_FRAMES else W fr0) = W (new_frames ?n)"
    using small [OF Z(3)] by (auto simp: new_frames_def fr0_def HEAP_FRAMES_def max_def)
  have hsz: "(if W fr0 < HEAP_FRAMES then push_bit FRAME_WIDTH (W (new_frames ?n)) else W (4096 * fr0)) = W hp"
    using small [OF Z(3)] by (auto simp: new_frames_def fr0_def hp_def FRAME_WIDTH_def push_bit_eq_mult max_def)
  define m4 where "m4 = ?m(W h := 0, W (h + 4) := 0, W (h + 8) := W (h + 20), W (h + 12) := W (h + hp),
    W (h + 16) := W (new_frames ?n))"
  define m5 where "m5 = (if hp - 20 > ?r + 24 then
      block_init (block_init m4 (W (h + 20 + ?r)) (W (hp - 20 - ?r)) True (W h)) (W (h + 20)) (W ?r) False (W h)
    else block_init m4 (W (h + 20)) (W (hp - 20)) False (W h))"
  have m4_at: "m4 (W h) = 0" "m4 (W (h + 8)) = W (h + 20)" "m4 (W (h + 12)) = W (h + hp)"
    "m4 (W (h + 16)) = W (new_frames ?n)"
    using hb big unfolding m4_def by (simp_all add: upd_W del: fun_upd_apply)
  have m4_fr: "m4 (W x) = ?m (W x)" if "x < 2 ^ 32" "x < h \<or> h + 20 \<le> x" for x
    using that hb big unfolding m4_def by (auto simp: upd_W simp del: fun_upd_apply)
  have hp20: "20 + (hp - 20) = hp" "4 dvd hp - 20" "?r \<le> hp - 20" "h + 20 + (hp - 20) < 2 ^ 32"
    using big N(1) hb(1) by (auto simp: hp_def dvd_diff_nat)
  note B = fresh_blocks [OF real_block_bounds(4,3) hp20(3,2,4), where m = m4 and h = h, folded m5_def]
  have ne: "W h \<noteq> 0" using hb by (simp add: W_eq_0_iff)
  have fields: "m5 (W (h + k)) = m4 (W (h + k))" if "k < 20" for k
    using that hb big by (intro B(2)) auto
  define bs where "bs = split_block ?r (hp - 20)"
  have bs: "snd (new_heap h ?n) = bs" by (simp add: bs_def new_heap_def hp_def)
  have tot: "total bs = hp - 20" using hp20(3) by (simp add: bs_def)
  have dv: "hp div 4096 = new_frames ?n" "4096 dvd hp" "4096 dvd h" using A(1) by (auto simp: hp_def h_def)
  have "coalesced bs" "bs \<noteq> []" "bs \<noteq> [(t, True)]" for t by (simp_all add: bs_def split_block_def coalesced_def)
  then have "heap_ok m5 h (snd (new_heap h ?n))"
    using B(1) fields [of 8] fields [of 12] fields [of 16] m4_at hb hp20(1) tot dv unfolding bs
    by (simp add: heap_ok_def heap_start_def heap_end_def heap_frames_def W_add_numeral bs_def heap_top_def)
  moreover have "\<forall>x < 2 ^ 32. x < h \<or> h + hp \<le> x \<longrightarrow> m5 (W x) = ?m (W x)"
    using B(2) m4_fr big by auto
  moreover have "malloc_heap F sz s = do { m6 \<leftarrow> list_append m5 (heap_list s) (W h);
       Some (heap_start m6 (W h) + sizeof_head, s\<lparr>k_mem := m6, k_fs := fs'\<rparr>) }"
  proof -
    have "W h + 4 = W (h + 4)" "W h + 8 = W (h + 8)" "W h + 12 = W (h + 12)" "W h + 16 = W (h + 16)"
      "W h + sizeof_heap = W (h + 20)" "W h + W hp = W (h + hp)" "W hp - sizeof_heap = W (hp - 20)"
      "W (h + 20) + W ?r = W (h + 20 + ?r)" "W (hp - 20) - W ?r = W (hp - 20 - ?r)"
      using big hp20(3) by (simp_all only: W_add_numeral W_add W_diff sizeof_heap_def W_diff_numeral)
    moreover have "W (?r + 24) < W (hp - 20) \<longleftrightarrow> ?r + 24 < hp - 20" using hp20 hb r by (intro W_less_iff) auto
    moreover have "heap_start m4 (W h) = W (h + 20)" using m4_at(2) by (simp add: heap_start_def W_add_numeral)
    ultimately show ?thesis
      unfolding malloc_heap_def R(1) W_head_foot Z(1) Z(2) [unfolded Z(1)] Let_def frames hsz fa
      by (simp add: K ne link_init_def set_link_prev_def set_link_next_def m4_def [symmetric] m5_def
        fun_upd_def [symmetric] W_head_foot)
  qed
  ultimately show thesis using hb(1) that by blast
qed


section \<open>Adding a heap\<close>

text \<open>Where the heaps and the list head are, without their contents.\<close>

definition layout :: "u32 \<Rightarrow> hp list \<Rightarrow> bool" where
  "layout hl hs \<longleftrightarrow> sorted_wrt apart hs \<and> 0x80000000 \<le> unat hl \<and> unat hl + 8 \<le> 0xA0000000 \<and>
     (\<forall>(h, bs) \<in> set hs. (unat hl + 8 \<le> h \<or> heap_top h bs \<le> unat hl) \<and>
        0x80000000 \<le> h \<and> heap_top h bs \<le> 0xA0000000)"

lemma heaps_ok_layout:
  "heaps_ok m hl hs \<longleftrightarrow> layout hl hs \<and> is_list m hl (map (\<lambda>g. W (fst g)) hs) \<and> (\<forall>(h, bs) \<in> set hs. heap_ok m h bs)"
  unfolding heaps_ok_def layout_def by (auto dest: heap_okD(6,7))

text \<open>The addresses of the list head and of the heaps: at least eight bytes apart.\<close>

definition anchors :: "u32 \<Rightarrow> hp list \<Rightarrow> nat set" where
  "anchors hl hs = insert (unat hl) (fst ` set hs)"

lemma anchors_sep:
  assumes "layout hl hs" "a \<in> anchors hl hs" "b \<in> anchors hl hs" "a \<noteq> b"
  shows "a + 8 \<le> b \<or> b + 8 \<le> a"
proof -
  have hd: "unat hl + 8 \<le> h \<or> h + 20 \<le> unat hl" if "(h, bs) \<in> set hs" for h bs
    using assms(1) that by (fastforce simp: layout_def heap_top_def)
  have pr: "h + 20 \<le> g \<or> g + 20 \<le> h" if "(h, bs) \<in> set hs" "(g, cs) \<in> set hs" "h \<noteq> g" for h bs g cs
    using apart_pair [of hs "(h, bs)" "(g, cs)"] assms(1) that by (auto simp: layout_def heap_top_def apart_def)
  show ?thesis using assms(2-4) hd pr by (fastforce simp: anchors_def)
qed

lemma anchors_bounds:
  assumes "layout hl hs" "a \<in> anchors hl hs"
  shows "0x80000000 \<le> a" "a + 8 \<le> 0xA0000000"
proof -
  have "0x80000000 \<le> a \<and> a + 8 \<le> 0xA0000000"
    using assms by (fastforce simp: layout_def anchors_def heap_top_def)
  then show "0x80000000 \<le> a" "a + 8 \<le> 0xA0000000" by auto
qed

lemma anchors_W: "set (hl # map (\<lambda>g. W (fst g)) hs) = W ` anchors hl hs"
  by (auto simp: anchors_def image_iff)

lemma layout_links_sep:
  assumes "layout hl hs"
  shows "links_sep (set (hl # map (\<lambda>g. W (fst g)) hs))" "0 \<notin> set (hl # map (\<lambda>g. W (fst g)) hs)"
proof -
  have "W a \<noteq> W b + 4" if "a \<in> anchors hl hs" "b \<in> anchors hl hs" for a b
  proof -
    have "a \<noteq> b + 4" using anchors_sep [OF assms that] by (cases "a = b") auto
    moreover have "a < 2 ^ 32" "b + 4 < 2 ^ 32"
      using anchors_bounds [OF assms that(1)] anchors_bounds [OF assms that(2)] by simp_all
    ultimately show ?thesis unfolding W_add_numeral using W_eq_iff [of a "b + 4"] by blast
  qed
  then show "links_sep (set (hl # map (\<lambda>g. W (fst g)) hs))"
    unfolding anchors_W links_sep_def by (simp only: ball_simps) simp
  have "W a \<noteq> 0" if "a \<in> anchors hl hs" for a
    using anchors_bounds [OF assms that] by (simp add: W_eq_0_iff)
  then show "0 \<notin> set (hl # map (\<lambda>g. W (fst g)) hs)" unfolding anchors_W by force
qed

lemma layout_cell:
  assumes "layout hl hs" "(h, bs) \<in> set hs" "h + 8 \<le> x" "x < heap_top h bs"
  shows "W x \<notin> link_cells (set (hl # map (\<lambda>g. W (fst g)) hs))"
proof -
  have x: "x < 0xA0000000" using assms by (auto simp: layout_def)
  have "x \<noteq> a \<and> x \<noteq> a + 4" if a: "a \<in> anchors hl hs" for a
  proof (cases "a = unat hl")
    case True
    with assms show ?thesis by (auto simp: layout_def)
  next
    case False
    with a obtain g cs where g: "(g, cs) \<in> set hs" "a = g" by (auto simp: anchors_def)
    with apart_pair [of hs "(g, cs)" "(h, bs)"] assms show ?thesis
      by (auto simp: layout_def apart_def heap_top_def)
  qed
  then have "W x \<noteq> W a \<and> W x \<noteq> W a + 4" if "a \<in> anchors hl hs" for a
    using anchors_bounds [OF assms(1) that] x that W_eq_iff [of x a] W_eq_iff [of x "a + 4"]
    unfolding W_add_numeral by simp
  then show ?thesis unfolding anchors_W link_cells_def by blast
qed

lemma layout_snoc:
  assumes "layout hl hs" "\<forall>g \<in> set hs. apart g (h, bs)" "unat hl + 8 \<le> h \<or> heap_top h bs \<le> unat hl"
    "0x80000000 \<le> h" "heap_top h bs \<le> 0xA0000000"
  shows "layout hl (hs @ [(h, bs)])"
  using assms by (auto simp: layout_def sorted_wrt_append)

lemma heap_add:
  assumes ok: "heaps_ok m hl hs" and new: "heap_ok m5 h bs"
    and fr: "\<forall>x < 2 ^ 32. x < h \<or> heap_top h bs \<le> x \<longrightarrow> m5 (W x) = m (W x)"
    and ap: "\<forall>g \<in> set hs. apart g (h, bs)" "unat hl + 8 \<le> h \<or> heap_top h bs \<le> unat hl"
  shows "\<exists>m6. list_append m5 hl (W h) = Some m6 \<and> heaps_ok m6 hl (hs @ [(h, bs)]) \<and>
     (\<forall>a. a \<notin> link_cells (W ` anchors hl (hs @ [(h, bs)])) \<longrightarrow> m6 a = m5 a)"
proof -
  note L = ok [unfolded heaps_ok_layout] and H = heap_okD [OF new]
  have L': "layout hl (hs @ [(h, bs)])" using L ap H by (intro layout_snoc) auto
  have out: "m5 (W x) = m (W x)" if "x < 2 ^ 32" "x < h \<or> heap_top h bs \<le> x" for x using fr that by blast
  have off: "m5 (W (a + k)) = m (W (a + k))" if a: "a \<in> anchors hl hs" "k \<le> 4" for a k
  proof (rule out)
    show "a + k < 2 ^ 32" using anchors_bounds [OF _ a(1)] L a(2) by simp
    show "a + k < h \<or> heap_top h bs \<le> a + k"
    proof (cases "a = unat hl")
      case True
      with ap(2) a(2) show ?thesis by auto
    next
      case False
      with a(1) obtain g cs where "(g, cs) \<in> set hs" "a = g" by (auto simp: anchors_def)
      with ap(1) a(2) show ?thesis by (fastforce simp: apart_def heap_top_def)
    qed
  qed
  have "\<forall>a \<in> link_cells (set (hl # map (\<lambda>g. W (fst g)) hs)). m5 a = m a"
    unfolding anchors_W link_cells_def using off [of _ 0] off [of _ 4, folded W_add_numeral] by auto
  then have il: "is_list m5 hl (map (\<lambda>g. W (fst g)) hs)" using L is_list_cong by blast
  have nin: "W h \<notin> set (hl # map (\<lambda>g. W (fst g)) hs)"
  proof -
    have "h \<notin> anchors hl hs" using ap by (fastforce simp: anchors_def apart_def heap_top_def)
    moreover have "h < 2 ^ 32" using H(7) by (simp add: heap_top_def)
    moreover have "a < 2 ^ 32" if "a \<in> anchors hl hs" for a using anchors_bounds [OF _ that] L by simp
    ultimately show ?thesis unfolding anchors_W by (metis W_eq_iff imageE)
  qed
  have eqs: "insert (W h) (set (hl # map (\<lambda>g. W (fst g)) hs)) = set (hl # map (\<lambda>g. W (fst g)) (hs @ [(h, bs)]))"
    by auto
  then obtain m6 where m6: "list_append m5 hl (W h) = Some m6"
    "is_list m6 hl (map (\<lambda>g. W (fst g)) (hs @ [(h, bs)]))"
    "\<forall>a. a \<notin> link_cells (set (hl # map (\<lambda>g. W (fst g)) (hs @ [(h, bs)]))) \<longrightarrow> m6 a = m5 a"
    using list_append_correct [OF il nin] layout_links_sep [OF L'] by auto
  have "heap_ok m6 g cs" if g: "(g, cs) \<in> set (hs @ [(h, bs)])" for g cs
  proof -
    have "heap_ok m5 g cs"
    proof (cases "(g, cs) = (h, bs)")
      case False
      with g have g': "(g, cs) \<in> set hs" by auto
      with L have "heap_ok m g cs" by auto
      moreover have "m5 (W x) = m (W x)" if "g + 8 \<le> x" "x < heap_top g cs" for x
        using ap(1) g' that heap_okD(7) [OF \<open>heap_ok m g cs\<close>] by (intro out) (auto simp: apart_def)
      ultimately show ?thesis by (rule heap_ok_frame)
    qed (use new in simp)
    then show ?thesis using m6(3) layout_cell [OF L' g] by (auto intro: heap_ok_frame)
  qed
  then show ?thesis
    using m6 L' unfolding heaps_ok_layout anchors_W by auto
qed


section \<open>Allocation\<close>

text \<open>The invariant of the allocator: well-formed heaps, all of them in memory the frame allocator
  does not give to anybody else.\<close>

definition kheap_inv :: "'fs falloc \<Rightarrow> ('fs \<Rightarrow> nat set) \<Rightarrow> ('fs, 'z) kmem_scheme \<Rightarrow> hp list \<Rightarrow> bool" where
  "kheap_inv F owned s hs \<longleftrightarrow> frames_ok F owned \<and> heaps_ok (k_mem s) (heap_list s) hs \<and>
     (\<forall>x \<in> heap_bytes (heap_list s) hs. x - 0x80000000 \<in> owned (k_fs s))"

lemma heap_bytes_ge: "heaps_ok m hl hs \<Longrightarrow> x \<in> heap_bytes hl hs \<Longrightarrow> 0x80000000 \<le> x"
  by (fastforce simp: heaps_ok_layout layout_def heap_bytes_def)

lemma link_cells_bytes:
  assumes L: "layout hl hs" and x: "x < 2 ^ 32" "x \<notin> heap_bytes hl hs"
  shows "W x \<notin> link_cells (W ` anchors hl hs)"
proof -
  have "x \<noteq> a \<and> x \<noteq> a + 4" if "a \<in> anchors hl hs" for a
    using x(2) that by (fastforce simp: anchors_def heap_bytes_def heap_top_def)
  then have "W x \<noteq> W a \<and> W x \<noteq> W a + 4" if "a \<in> anchors hl hs" for a
    using anchors_bounds [OF L that] x(1) that W_eq_iff [of x a] W_eq_iff [of x "a + 4"]
    unfolding W_add_numeral by simp
  then show ?thesis unfolding link_cells_def by blast
qed

lemma fresh_range_apart:
  assumes ok: "heaps_ok m hl hs" and own: "\<forall>x \<in> heap_bytes hl hs. x - 0x80000000 \<in> Own"
    and fresh: "{p..<p + n} \<inter> Own = {}" and n: "0 < n" and top: "heap_top h bs = h + n" and h: "h = p + 0x80000000"
  shows "\<forall>g \<in> set hs. apart g (h, bs)" "unat hl + 8 \<le> h \<or> heap_top h bs \<le> unat hl"
proof -
  have out: "x < h \<or> h + n \<le> x" if "x \<in> heap_bytes hl hs" for x
  proof -
    have "x - 0x80000000 \<in> Own" using own that by blast
    then have "\<not> (p \<le> x - 0x80000000 \<and> x - 0x80000000 < p + n)"
      using fresh by (auto simp: disjoint_iff)
    then show ?thesis using heap_bytes_ge [OF ok that] h by linarith
  qed
  have iv: "b \<le> h \<or> h + n \<le> a" if "{a..<b} \<subseteq> heap_bytes hl hs" "a < b" for a b
  proof (rule ccontr)
    assume "\<not> (b \<le> h \<or> h + n \<le> a)"
    then have "max a h \<in> {a..<b}" "\<not> (max a h < h \<or> h + n \<le> max a h)" using that(2) n by auto
    with out that(1) show False by blast
  qed
  show "unat hl + 8 \<le> h \<or> heap_top h bs \<le> unat hl"
    using iv [of "unat hl" "unat hl + 8"] top by (auto simp: heap_bytes_def)
  show "\<forall>g \<in> set hs. apart g (h, bs)"
  proof
    fix g assume g: "g \<in> set hs"
    have "{fst g..<heap_top (fst g) (snd g)} \<subseteq> heap_bytes hl hs" using g by (force simp: heap_bytes_def)
    from iv [OF this] top show "apart g (h, bs)" by (auto simp: apart_def heap_top_def)
  qed
qed

text \<open>The abstract result of an allocation: a block of an existing heap, or of a new one.\<close>

definition malloc_abs :: "nat \<Rightarrow> hp list \<Rightarrow> nat \<Rightarrow> hp list \<Rightarrow> bool" where
  "malloc_abs n hs p hs' \<longleftrightarrow> alloc_heaps (real_block n) hs = Some (p, hs') \<or>
     alloc_heaps (real_block n) hs = None \<and> (\<exists>h. hs' = hs @ [new_heap h n] \<and> p = h + 36)"

lemma malloc_heap_correct:
  fixes s :: "('fs, 'z) kmem_scheme"
  assumes inv: "kheap_inv F owned s hs" and sz: "sz \<le> HEAP_BLOCK_SIZE_MAX"
    and fa: "frame_alloc F (k_fs s) (W (new_frames (unat sz))) (VF_VA_AUTO OR VF_AT_KSEG0) = (EOK, phys, fs')"
  defines "h \<equiv> unat phys + 0x80000000"
  shows "\<exists>m' n. malloc_heap F sz s = Some (W (h + 36), s\<lparr>k_mem := m', k_fs := fs'\<rparr>) \<and> unat sz \<le> n \<and>
     alloc_post (k_mem s) (heap_list s) hs (h + 36, n) (hs @ [new_heap h (unat sz)]) m' \<and>
     kheap_inv F owned (s\<lparr>k_mem := m', k_fs := fs'\<rparr>) (hs @ [new_heap h (unat sz)]) \<and>
     (\<forall>x < 2 ^ 32. x \<notin> heap_bytes (heap_list s) (hs @ [new_heap h (unat sz)]) \<longrightarrow> m' (W x) = k_mem s (W x)) \<and>
     h + 36 + n \<le> 0xA0000000 \<and> 4 dvd h"
proof -
  let ?n = "unat sz" and ?g = "new_heap h (unat sz)" and ?m = "k_mem s" and ?hl = "heap_list s"
  have I: "frames_ok F owned" "heaps_ok ?m ?hl hs" "\<forall>x \<in> heap_bytes ?hl hs. x - 0x80000000 \<in> owned (k_fs s)"
    using inv by (auto simp: kheap_inv_def)
  note N = new_heap_size [OF real_size_W(2) [OF sz]] and A = frame_alloc_EOK [OF I(1) fa]
  have fr: "unat (W (new_frames ?n)) = new_frames ?n" using N(4) by (intro unat_W) simp
  obtain m5 where m5: "malloc_heap F sz s = do { m6 \<leftarrow> list_append m5 ?hl (W h);
       Some (heap_start m6 (W h) + sizeof_head, s\<lparr>k_mem := m6, k_fs := fs'\<rparr>) }"
    "heap_ok m5 h (snd ?g)" "h + 4096 * new_frames ?n \<le> 0xA0000000"
    "\<forall>x < 2 ^ 32. x < h \<or> h + 4096 * new_frames ?n \<le> x \<longrightarrow> m5 (W x) = ?m (W x)"
    unfolding h_def by (rule malloc_heap_EOK [OF sz I(1) fa])
  have g: "?g = (h, snd ?g)" by (simp add: new_heap_def)
  have rng: "{unat phys..<unat phys + 4096 * new_frames ?n} \<inter> owned (k_fs s) = {}"
    using A(3) fr by (simp add: frame_range_def)
  have ap1: "\<forall>g \<in> set hs. apart g (h, snd ?g)" "unat ?hl + 8 \<le> h \<or> heap_top h (snd ?g) \<le> unat ?hl"
    using fresh_range_apart [OF I(2,3) rng _ N(2) h_def [THEN meta_eq_to_obj_eq]] N(3) by simp_all
  obtain m6 where m6: "list_append m5 ?hl (W h) = Some m6" "heaps_ok m6 ?hl (hs @ [(h, snd ?g)])"
    "\<forall>a. a \<notin> link_cells (W ` anchors ?hl (hs @ [(h, snd ?g)])) \<longrightarrow> m6 a = m5 a"
    using heap_add [OF I(2) m5(2) _ ap1] m5(4) N(2) by auto
  have start: "heap_start m6 (W h) + sizeof_head = W (h + 36)"
    using heap_okD(1) [OF heaps_okD(2) [OF m6(2)], of h "snd ?g"]
    by (simp add: sizeof_head_def W_add_numeral add.assoc)
  define nn where "nn = (if real_block ?n + 24 < 4096 * new_frames ?n - 20 then real_block ?n
    else 4096 * new_frames ?n - 20) - 24"
  have pl: "payloads (h + 20) (snd ?g) = {(h + 36, nn)}"
    using N(1) by (simp add: new_heap_def payloads_split nn_def)
  have nn: "?n \<le> nn" "h + 36 + nn + 8 \<le> h + 4096 * new_frames ?n"
    using real_block_bounds [of ?n] N(1,3) by (auto simp: nn_def)
  have keep: "m6 (W x) = ?m (W x)" if "x < 2 ^ 32" "W x \<notin> link_cells (W ` anchors ?hl (hs @ [?g]))"
    "x < h \<or> h + 4096 * new_frames ?n \<le> x" for x
    using m6(3) m5(4) that g by auto
  have old: "area p \<inter> area (h + 36, nn) = {} \<and> (\<forall>x \<in> area p. m6 (W x) = ?m (W x))" if p: "p \<in> allocated hs" for p
  proof -
    obtain f ds where f: "(f, ds) \<in> set hs" "f + 36 \<le> fst p" "fst p + snd p + 8 \<le> heap_top f ds"
      by (rule allocated_bounds [OF I(2) p])
    have sep: "heap_top f ds \<le> h \<or> h + 4096 * new_frames ?n \<le> f"
      using ap1(1) f(1) N(2) by (auto simp: apart_def)
    have "m6 (W x) = ?m (W x)" if x: "x \<in> area p" for x
    proof (rule keep)
      have x': "f + 8 \<le> x" "x < heap_top f ds" using x f by (auto simp: area_def)
      then show "W x \<notin> link_cells (W ` anchors ?hl (hs @ [?g]))"
        using layout_cell [of ?hl "hs @ [?g]" f ds x] m6(2) f(1) g unfolding heaps_ok_layout anchors_W by auto
      show "x < h \<or> h + 4096 * new_frames ?n \<le> x" using sep x' by auto
      show "x < 2 ^ 32" using x'(2) heap_okD(7) [OF heaps_okD(2) [OF I(2) f(1)]] by simp
    qed
    moreover have "area p \<inter> area (h + 36, nn) = {}" using f sep nn(2) unfolding area_def by auto
    ultimately show ?thesis by blast
  qed
  have "alloc_post ?m ?hl hs (h + 36, nn) (hs @ [?g]) m6"
    using m6(2) old pl g unfolding alloc_post_def by (metis Un_insert_right allocated_simps sup_bot_right)
  moreover have "kheap_inv F owned (s\<lparr>k_mem := m6, k_fs := fs'\<rparr>) (hs @ [?g])"
  proof -
    have "heap_bytes ?hl (hs @ [?g]) = heap_bytes ?hl hs \<union> {h..<h + 4096 * new_frames ?n}"
      using N(2) g by (simp add: heap_bytes_def new_heap_def Un_ac)
    then have "x - 0x80000000 \<in> owned fs'" if "x \<in> heap_bytes ?hl (hs @ [?g])" for x
      using that I(3) fr unfolding A(4) by (auto simp: frame_range_def h_def)
    then show ?thesis using m6(2) g I(1) by (simp add: kheap_inv_def)
  qed
  moreover have "\<forall>x < 2 ^ 32. x \<notin> heap_bytes ?hl (hs @ [?g]) \<longrightarrow> m6 (W x) = ?m (W x)"
  proof (intro allI impI)
    fix x assume x: "x < (2::nat) ^ 32" "x \<notin> heap_bytes ?hl (hs @ [?g])"
    have "layout ?hl (hs @ [?g])" using m6(2) g by (simp add: heaps_ok_layout)
    moreover have "x < h \<or> h + 4096 * new_frames ?n \<le> x"
      using x(2) N(2) g by (auto simp: heap_bytes_def new_heap_def)
    ultimately show "m6 (W x) = ?m (W x)" using x link_cells_bytes by (intro keep) auto
  qed
  moreover have "4 dvd h" using dvd_trans [OF _ heap_okD(5) [OF m5(2)], of 4] by simp
  ultimately show ?thesis
    using m5(1,3) m6(1) start nn by (intro exI [of _ m6] exI [of _ nn]) simp
qed


lemma kheap_inv_cong:
  assumes "k_mem s' = k_mem s" "heap_list s' = heap_list s" "owned (k_fs s') = owned (k_fs s)"
  shows "kheap_inv F owned s' hs = kheap_inv F owned s hs"
  using assms by (simp add: kheap_inv_def)

lemma malloc_heap_fail:
  assumes "sz \<le> HEAP_BLOCK_SIZE_MAX" "rc \<noteq> EOK"
    "frame_alloc F (k_fs s) (W (new_frames (unat sz))) (VF_VA_AUTO OR VF_AT_KSEG0) = (rc, phys, fs')"
  shows "malloc_heap F sz s = Some (NULL, s\<lparr>k_fs := fs'\<rparr>)"
proof -
  let ?r = "real_block (unat sz)"
  note R = real_size_W [OF assms(1)]
  have r: "?r \<le> 0x10000030" using R(2) real_block_bounds(2) [of "unat sz"] by simp
  note Z = heap_size_W [OF r]
  have "(if W ((?r + 20 + 4095) div 4096) < HEAP_FRAMES then HEAP_FRAMES else W ((?r + 20 + 4095) div 4096)) =
      W (new_frames (unat sz))"
    using Z(3) W_less_iff [of "(?r + 20 + 4095) div 4096" 16] by (auto simp: new_frames_def HEAP_FRAMES_def max_def)
  then show ?thesis
    using assms(2,3) unfolding malloc_heap_def R(1) Let_def Z(1) Z(2) [unfolded Z(1)] by simp
qed

text \<open>Memory that is neither in a heap nor can become part of one, because the frame allocator has given its frame to somebody
  else: the code and the static data of the kernel.\<close>

definition kept :: "('fs \<Rightarrow> nat set) \<Rightarrow> ('fs, 'z) kmem_scheme \<Rightarrow> hp list \<Rightarrow> nat \<Rightarrow> bool" where
  "kept owned s hs x \<longleftrightarrow> x \<notin> heap_bytes (heap_list s) hs \<and> 0x80000000 \<le> x \<and> x - 0x80000000 \<in> owned (k_fs s)"

text \<open>The post-state of an allocation, in one predicate: the payload \<open>(p, n)\<close>, the heaps, the state.\<close>

definition malloc_post ::
  "'fs falloc \<Rightarrow> ('fs \<Rightarrow> nat set) \<Rightarrow> nat \<Rightarrow> ('fs, 'z) kmem_scheme \<Rightarrow> hp list \<Rightarrow> nat \<times> nat \<Rightarrow> hp list \<Rightarrow>
    ('fs, 'z) kmem_scheme \<Rightarrow> bool" where
  "malloc_post F owned sz s hs q hs' s' \<longleftrightarrow> sz \<le> snd q \<and> malloc_abs sz hs (fst q) hs' \<and>
     alloc_post (k_mem s) (heap_list s) hs q hs' (k_mem s') \<and> kheap_inv F owned s' hs' \<and>
     (\<forall>x < 2 ^ 32. x \<notin> heap_bytes (heap_list s) hs' \<longrightarrow> k_mem s' (W x) = k_mem s (W x)) \<and>
     (\<forall>x. kept owned s hs x \<longrightarrow> kept owned s' hs' x) \<and>
     0x80000000 \<le> fst q \<and> fst q + snd q \<le> 0xA0000000 \<and> 4 dvd fst q \<and>
     s' = s\<lparr>k_mem := k_mem s', k_fs := k_fs s'\<rparr>"

lemma alloc_heaps_shape:
  "alloc_heaps rs hs = Some (p, hs') \<Longrightarrow> \<exists>as h bs cs off bs'. hs = as @ (h, bs) # cs \<and> hs' = as @ (h, bs') # cs \<and>
     p = h + 20 + off + 16 \<and> alloc_block rs bs = Some (off, bs')"
proof (induction rs hs arbitrary: p hs' rule: alloc_heaps.induct)
  case (1 rs)
  then show ?case by simp
next
  case (2 rs h bs hs)
  show ?case
  proof (cases "alloc_block rs bs")
    case None
    with "2.prems" obtain gs where gs: "alloc_heaps rs hs = Some (p, gs)" "hs' = (h, bs) # gs" by auto
    from "2.IH" [OF None gs(1)] gs(2) show ?thesis by (metis append_Cons)
  next
    case (Some a)
    with "2.prems" show ?thesis by (cases a) (auto intro!: exI [of _ "[]"])
  qed
qed

lemma alloc_heap_bytes:
  assumes "alloc_heaps rs hs = Some (p, hs')"
  shows "heap_bytes hl hs' = heap_bytes hl hs"
proof -
  obtain as h bs cs off bs' where S: "hs = as @ (h, bs) # cs" "hs' = as @ (h, bs') # cs"
    "alloc_block rs bs = Some (off, bs')"
    using alloc_heaps_shape [OF assms] by blast
  obtain xs s ys where "bs = xs @ (s, True) # ys" "rs \<le> s" "bs' = xs @ split_block rs s @ ys"
    by (rule alloc_block_Some [OF S(3)])
  then show ?thesis by (simp add: S heap_bytes_def heap_top_def)
qed

lemma kheap_invD:
  assumes "kheap_inv F owned s hs"
  shows "frames_ok F owned" "heaps_ok (k_mem s) (heap_list s) hs"
    "\<forall>x \<in> heap_bytes (heap_list s) hs. x - 0x80000000 \<in> owned (k_fs s)"
    "link_next (k_mem s) (heap_list s) = hd (map (\<lambda>g. W (fst g)) hs @ [heap_list s])"
proof -
  show "frames_ok F owned" and ok: "heaps_ok (k_mem s) (heap_list s) hs"
    and "\<forall>x \<in> heap_bytes (heap_list s) hs. x - 0x80000000 \<in> owned (k_fs s)"
    using assms by (auto simp: kheap_inv_def)
  show "link_next (k_mem s) (heap_list s) = hd (map (\<lambda>g. W (fst g)) hs @ [heap_list s])"
    using is_listD(1) [OF heaps_okD(1) [OF ok]] lseg_first by blast
qed

lemma malloc_hit:
  fixes s :: "('fs, 'z) kmem_scheme"
  assumes inv: "kheap_inv F owned s hs" and sz: "sz \<le> HEAP_BLOCK_SIZE_MAX"
    and hit: "alloc_heaps (real_block (unat sz)) hs = Some (p, hs')"
  obtains n s' where "malloc F sz s = Some (W p, s')" "malloc_post F owned (unat sz) s hs (p, n) hs' s'"
proof -
  let ?r = "real_block (unat sz)" and ?m = "k_mem s" and ?hl = "heap_list s"
  note I = kheap_invD [OF inv] and R = real_size_W [OF sz]
  obtain st c where q: "query_and_disable_interrupts (k_cpu s) = (st, c)" by fastforce
  obtain m' n where M: "malloc_search ?hl (W ?r) ?m (hd (map (\<lambda>g. W (fst g)) hs @ [?hl])) = Some (m', W p)"
    "?r \<le> n + 24" "alloc_post ?m ?hl hs (p, n) hs' m'"
    "\<forall>x < 2 ^ 32. (\<forall>(g, ds) \<in> set hs. x < g \<or> heap_top g ds \<le> x) \<longrightarrow> m' (W x) = ?m (W x)"
    "0x80000000 \<le> p" "p + n \<le> 0xA0000000" "4 dvd p"
    using search_Some [of ?m ?hl "[]" hs ?r p hs'] I(2) hit real_block_bounds [of "unat sz"] R(3) by auto
  have p0: "W p \<noteq> 0" using M(5,6) by (simp add: W_eq_0_iff)
  have run: "malloc F sz s = Some (W p, s\<lparr>k_mem := m'\<rparr>)"
    using sz M(1) p0 interrupt_bracket [OF q] by (simp add: malloc_def q R(1) I(4) [symmetric])
  have hb: "heap_bytes ?hl hs' = heap_bytes ?hl hs" using alloc_heap_bytes [OF hit] .
  have fr: "\<forall>x < 2 ^ 32. x \<notin> heap_bytes ?hl hs' \<longrightarrow> m' (W x) = ?m (W x)"
    using M(4) unfolding hb by (fastforce simp: heap_bytes_def)
  have "kheap_inv F owned (s\<lparr>k_mem := m'\<rparr>) hs'"
    using I M(3) hb by (simp add: kheap_inv_def alloc_post_def)
  then have "malloc_post F owned (unat sz) s hs (p, n) hs' (s\<lparr>k_mem := m'\<rparr>)"
    using M hit fr hb real_block_bounds(1) [of "unat sz"] by (simp add: malloc_post_def malloc_abs_def kept_def)
  with run show thesis by (rule that)
qed

lemma malloc_miss:
  fixes s :: "('fs, 'z) kmem_scheme"
  assumes inv: "kheap_inv F owned s hs" and sz: "sz \<le> HEAP_BLOCK_SIZE_MAX"
    and miss: "alloc_heaps (real_block (unat sz)) hs = None"
    and q: "query_and_disable_interrupts (k_cpu s) = (st, c)"
  shows "malloc F sz s = (case malloc_heap F sz (s\<lparr>k_cpu := c\<rparr>) of None \<Rightarrow> None | Some (p, s') \<Rightarrow>
      Some (p, s'\<lparr>k_cpu := conditionally_enable_interrupts st (k_cpu s')\<rparr>))"
proof -
  note I = kheap_invD [OF inv] and R = real_size_W [OF sz]
  have "malloc_search (heap_list s) (W (real_block (unat sz))) (k_mem s)
      (hd (map (\<lambda>g. W (fst g)) hs @ [heap_list s])) = Some (k_mem s, NULL)"
    using search_None [of "k_mem s" "heap_list s" "[]" hs] I(2) miss R(3) by simp
  then show ?thesis
    using sz by (simp add: malloc_def q R(1) I(4) [symmetric] split: option.splits)
qed

lemma malloc_cases:
  fixes s :: "('fs, 'z) kmem_scheme"
  assumes inv: "kheap_inv F owned s hs" and sz: "sz \<le> HEAP_BLOCK_SIZE_MAX"
  obtains (fail) rc phys fs' where
    "malloc F sz s = Some (NULL, s\<lparr>k_fs := fs'\<rparr>)" "alloc_heaps (real_block (unat sz)) hs = None"
    "frame_alloc F (k_fs s) (W (new_frames (unat sz))) (VF_VA_AUTO OR VF_AT_KSEG0) = (rc, phys, fs')" "rc \<noteq> EOK"
    "kheap_inv F owned (s\<lparr>k_fs := fs'\<rparr>) hs"
  | (ok) p n hs' s' where "malloc F sz s = Some (W p, s')" "malloc_post F owned (unat sz) s hs (p, n) hs' s'"
proof (cases "alloc_heaps (real_block (unat sz)) hs")
  case (Some a)
  then show thesis using malloc_hit [OF inv sz] ok by (metis surj_pair)
next
  case None
  obtain st c where q: "query_and_disable_interrupts (k_cpu s) = (st, c)" by fastforce
  note run = malloc_miss [OF inv sz None q] and br = interrupt_bracket [OF q]
  obtain rc phys fs' where fa: "frame_alloc F (k_fs s) (W (new_frames (unat sz))) (VF_VA_AUTO OR VF_AT_KSEG0) = (rc, phys, fs')"
    by (metis prod_cases3)
  show thesis
  proof (cases "rc = EOK")
    case False
    have "owned fs' = owned (k_fs s)" using kheap_invD(1) [OF inv] fa False unfolding frames_ok_def by metis
    then have "kheap_inv F owned (s\<lparr>k_fs := fs'\<rparr>) hs" using inv by (simp add: kheap_inv_def)
    moreover have "malloc F sz s = Some (NULL, s\<lparr>k_fs := fs'\<rparr>)"
      using run malloc_heap_fail [of sz rc F "s\<lparr>k_cpu := c\<rparr>" phys fs'] sz False fa br by simp
    ultimately show thesis using None fa False by (intro fail)
  next
    case True
    let ?s = "s\<lparr>k_cpu := c\<rparr>"
    define h where "h = unat phys + 0x80000000"
    have h0: "0x80000000 \<le> h" by (simp add: h_def)
    have "kheap_inv F owned ?s hs" using inv by (simp add: kheap_inv_def)
    then obtain m' n where M: "malloc_heap F sz ?s = Some (W (h + 36), ?s\<lparr>k_mem := m', k_fs := fs'\<rparr>)"
      "unat sz \<le> n" "alloc_post (k_mem s) (heap_list s) hs (h + 36, n) (hs @ [new_heap h (unat sz)]) m'"
      "kheap_inv F owned (?s\<lparr>k_mem := m', k_fs := fs'\<rparr>) (hs @ [new_heap h (unat sz)])"
      "\<forall>x < 2 ^ 32. x \<notin> heap_bytes (heap_list s) (hs @ [new_heap h (unat sz)]) \<longrightarrow> m' (W x) = k_mem s (W x)"
      "h + 36 + n \<le> 0xA0000000" "4 dvd h"
      using malloc_heap_correct [of F owned ?s hs sz phys fs', folded h_def] sz fa True by auto
    let ?s' = "s\<lparr>k_mem := m', k_fs := fs'\<rparr>"
    have "malloc F sz s = Some (W (h + 36), ?s')" using run M(1) br by simp
    moreover have "4 dvd h + 36" by (rule dvd_add [OF M(7)]) simp
    moreover have "kept owned ?s' (hs @ [new_heap h (unat sz)]) x" if x: "kept owned s hs x" for x
    proof -
      note A = frame_alloc_EOK [OF kheap_invD(1) [OF inv] fa [unfolded True]]
      note N = new_heap_size [OF real_size_W(2) [OF sz]]
      have "unat (W (new_frames (unat sz))) = new_frames (unat sz)" using N(4) by (intro unat_W) simp
      then have "frame_range phys (W (new_frames (unat sz))) = {unat phys..<unat phys + 4096 * new_frames (unat sz)}"
        by (simp add: frame_range_def)
      moreover have "x - 0x80000000 \<notin> frame_range phys (W (new_frames (unat sz)))" "0x80000000 \<le> x"
        using A(3) x unfolding kept_def by blast+
      ultimately have "x < h \<or> h + 4096 * new_frames (unat sz) \<le> x" by (auto simp: h_def)
      moreover have "heap_top h (snd (new_heap h (unat sz))) = h + 4096 * new_frames (unat sz)" "fst (new_heap h (unat sz)) = h"
        using N(2) by (simp_all add: new_heap_def)
      ultimately show ?thesis using x A(4) by (auto simp: kept_def heap_bytes_def split: prod.splits)
    qed
    moreover have "kheap_inv F owned ?s' (hs @ [new_heap h (unat sz)])" using M(4) by (simp add: kheap_inv_def)
    ultimately show thesis
      using M None h0 by (intro ok [of "h + 36" ?s' n]) (auto simp: malloc_post_def malloc_abs_def)
  qed
qed

end
