(* ===== verification/Malloc_Free.thy ===== *)
theory Malloc_Free
  imports Malloc_Alloc
begin

text \<open>
  Freeing, and the kernel heap as a whole. The merge steps of \<^verbatim>\<open>free\<close> are shown to replace
  neighbouring blocks of one heap by their union without touching the contents of allocated blocks; a
  heap that becomes one free block leaves the list. The locale \<open>allocator\<close> states what a client of
  \<^verbatim>\<open>malloc\<close> and \<^verbatim>\<open>free\<close> relies on and is interpreted with the two functions.
\<close>

unbundle bit_operations_syntax

section \<open>Merging blocks\<close>

definition heap_raw :: "mem \<Rightarrow> nat \<Rightarrow> blk list \<Rightarrow> bool" where
  "heap_raw m h bs \<longleftrightarrow> heap_start m (W h) = W (h + 20) \<and> heap_end m (W h) = W (heap_top h bs) \<and>
     heap_frames m (W h) = W ((20 + total bs) div 4096) \<and> 4096 dvd 20 + total bs \<and> 4096 dvd h \<and>
     0x80000000 \<le> h \<and> heap_top h bs \<le> 0xA0000000 \<and> blocks m h (h + 20) bs \<and> bs \<noteq> []"

lemma heap_ok_raw: "heap_ok m h bs \<longleftrightarrow> heap_raw m h bs \<and> coalesced bs \<and> (\<forall>t. bs \<noteq> [(t, True)])"
  by (auto simp: heap_ok_def heap_raw_def)

lemma heap_rawD:
  assumes "heap_raw m h bs"
  shows "heap_start m (W h) = W (h + 20)" "heap_end m (W h) = W (heap_top h bs)"
    "heap_frames m (W h) = W ((20 + total bs) div 4096)" "4096 dvd 20 + total bs" "4096 dvd h"
    "0x80000000 \<le> h" "heap_top h bs \<le> 0xA0000000" "blocks m h (h + 20) bs" "bs \<noteq> []"
  using assms by (auto simp: heap_raw_def)

text \<open>A change of one heap that keeps its structure and the contents of every block that stays
  allocated.\<close>

definition raw_step :: "nat \<Rightarrow> mem \<Rightarrow> blk list \<Rightarrow> mem \<Rightarrow> blk list \<Rightarrow> bool" where
  "raw_step h m bs m' bs' \<longleftrightarrow> heap_raw m' h bs' \<and> total bs' = total bs \<and>
     (\<forall>x < 2 ^ 32. x < h + 20 \<or> heap_top h bs \<le> x \<longrightarrow> m' (W x) = m (W x)) \<and>
     payloads (h + 20) bs' \<subseteq> payloads (h + 20) bs \<and>
     (\<forall>p \<in> payloads (h + 20) bs'. \<forall>x \<in> area p. m' (W x) = m (W x))"

lemma raw_step_refl: "heap_raw m h bs \<Longrightarrow> raw_step h m bs m bs"
  by (simp add: raw_step_def)

lemma raw_step_trans: "raw_step h m bs m1 bs1 \<Longrightarrow> raw_step h m1 bs1 m2 bs2 \<Longrightarrow> raw_step h m bs m2 bs2"
  unfolding raw_step_def by (auto simp: heap_top_def)

lemma payloads_free: "\<forall>u \<in> set us. snd u \<Longrightarrow> payloads a us = {}"
  by (induction us arbitrary: a) auto

lemma raw_replace:
  assumes R: "heap_raw m h (xs @ us @ ys)" and B: "blocks m' h (h + 20 + total xs) us'"
    and us': "total us' = total us" "us' \<noteq> []" "\<forall>u \<in> set us'. snd u"
    and fr: "\<And>x. x < 2 ^ 32 \<Longrightarrow> x < h + 20 + total xs \<or> h + 20 + total xs + total us \<le> x \<Longrightarrow> m' (W x) = m (W x)"
  shows "raw_step h m (xs @ us @ ys) m' (xs @ us' @ ys)"
proof -
  note D = heap_rawD [OF R]
  let ?b = "h + 20 + total xs"
  have top: "heap_top h (xs @ us @ ys) = ?b + total us + total ys" by (simp add: heap_top_def)
  have old: "blocks m h (h + 20) xs" "blocks m h (?b + total us) ys"
    using D(8) by (auto simp: blocks_append add.assoc)
  have "m' (W x) = m (W x)" if "h + 20 \<le> x" "x < h + 20 + total xs" for x
    using that D(7) top by (intro fr) auto
  then have "blocks m' h (h + 20) xs" using old(1) by (rule blocks_frame)
  moreover have "m' (W x) = m (W x)" if "?b + total us \<le> x" "x < ?b + total us + total ys" for x
    using that D(7) top by (intro fr) auto
  then have "blocks m' h (?b + total us) ys" using old(2) by (rule blocks_frame)
  ultimately have new: "blocks m' h (h + 20) (xs @ us' @ ys)"
    using B us'(1) by (simp add: blocks_append add.assoc)
  have "m' (W (h + k)) = m (W (h + k))" if "k < 20" for k using that D(7) top by (intro fr) auto
  from this [of 8] this [of 12] this [of 16]
  have raw: "heap_raw m' h (xs @ us' @ ys)"
    using D new us'(1,2) by (simp add: heap_raw_def heap_start_def heap_end_def heap_frames_def W_add_numeral heap_top_def)
  have pl: "payloads (h + 20) (xs @ us' @ ys) = payloads (h + 20) xs \<union> payloads (?b + total us) ys"
    using us'(1,3) by (simp add: payloads_append payloads_free add.assoc)
  have "m' (W x) = m (W x)" if "p \<in> payloads (h + 20) xs \<union> payloads (?b + total us) ys" "x \<in> area p" for p x
    using that payloads_bounds [OF old(1), of "fst p" "snd p"] payloads_bounds [OF old(2), of "fst p" "snd p"] D(7) top
    by (intro fr) (auto simp: area_def)
  then have "\<forall>p \<in> payloads (h + 20) (xs @ us' @ ys). \<forall>x \<in> area p. m' (W x) = m (W x)" unfolding pl by blast
  moreover have "payloads (h + 20) (xs @ us' @ ys) \<subseteq> payloads (h + 20) (xs @ us @ ys)"
    unfolding pl by (auto simp: payloads_append add.assoc)
  moreover have "\<forall>x < 2 ^ 32. x < h + 20 \<or> heap_top h (xs @ us @ ys) \<le> x \<longrightarrow> m' (W x) = m (W x)"
    using fr top by simp
  ultimately show ?thesis
    unfolding raw_step_def using raw us'(1) by simp
qed


text \<open>The abstract effect of freeing a block of size \<open>s\<close> between \<open>xs\<close> and \<open>ys\<close>.\<close>

fun join_next :: "nat \<Rightarrow> blk list \<Rightarrow> nat \<times> blk list" where
  "join_next s ((t, True) # ys) = (s + t, ys)"
| "join_next s ys = (s, ys)"

definition join_prev :: "blk list \<Rightarrow> nat \<Rightarrow> blk list \<Rightarrow> blk list" where
  "join_prev xs s ys = (if xs \<noteq> [] \<and> snd (last xs) then butlast xs @ (fst (last xs) + s, True) # ys
     else xs @ (s, True) # ys)"

definition free_join :: "blk list \<Rightarrow> nat \<Rightarrow> blk list \<Rightarrow> blk list" where
  "free_join xs s ys = (case join_next s ys of (s', ys') \<Rightarrow> join_prev xs s' ys')"

lemma raw_mark:
  assumes "heap_raw m h (xs @ (s, f) # ys)"
  shows "raw_step h m (xs @ (s, f) # ys) (set_head_free m (W (h + 20 + total xs)) True) (xs @ (s, True) # ys)"
proof -
  let ?b = "h + 20 + total xs"
  note B = blocks_nth [OF heap_rawD(8) [OF assms]]
  have b: "?b + s < 2 ^ 32" using heap_rawD(7) [OF assms] by (simp add: heap_top_def)
  have "raw_step h m (xs @ [(s, f)] @ ys) (set_head_free m (W ?b) True) (xs @ [(s, True)] @ ys)"
  proof (rule raw_replace)
    show "heap_raw m h (xs @ [(s, f)] @ ys)" using assms by simp
    show "blocks (set_head_free m (W ?b) True) h ?b [(s, True)]"
      using set_head_free_at [OF B(1,2) b] B by simp
  qed (use B(2) b in \<open>auto intro: set_head_free_frame\<close>)
  then show ?thesis by simp
qed

lemma raw_merge:
  assumes "heap_raw m h (xs @ (s, f) # (t, g) # ys)"
  shows "raw_step h m (xs @ (s, f) # (t, g) # ys)
     (block_init m (W (h + 20 + total xs)) (W (s + t)) True (W h)) (xs @ (s + t, True) # ys)"
proof -
  let ?b = "h + 20 + total xs"
  note B = blocks_nth [OF heap_rawD(8) [OF assms]]
  have t: "24 \<le> t" "4 dvd t" using heap_rawD(8) [OF assms] by (auto simp: blocks_append)
  have b: "?b + (s + t) < 2 ^ 32" using heap_rawD(7) [OF assms] by (simp add: heap_top_def)
  have "raw_step h m (xs @ [(s, f), (t, g)] @ ys) (block_init m (W ?b) (W (s + t)) True (W h)) (xs @ [(s + t, True)] @ ys)"
  proof (rule raw_replace)
    show "heap_raw m h (xs @ [(s, f), (t, g)] @ ys)" using assms by simp
    show "blocks (block_init m (W ?b) (W (s + t)) True (W h)) h ?b [(s + t, True)]"
      using B t b by (simp add: block_init_at)
  qed (use t b in \<open>auto intro: block_init_frame\<close>)
  then show ?thesis by simp
qed

lemma raw_check:
  assumes "heap_raw m h (xs @ (s, f) # ys)"
  shows "block_check m (W (h + 20 + total xs)) = Some ()"
    "head_size m (W (h + 20 + total xs)) = W s" "head_free m (W (h + 20 + total xs)) = f"
    "head_heap m (W (h + 20 + total xs)) = W h"
proof -
  note D = heap_rawD [OF assms] and B = blocks_nth [OF heap_rawD(8) [OF assms]]
  show "block_check m (W (h + 20 + total xs)) = Some ()"
    using B D(7) by (intro block_check_ok [OF D(1,2) B(1,2)]) (auto simp: heap_top_def)
  show "head_size m (W (h + 20 + total xs)) = W s" "head_free m (W (h + 20 + total xs)) = f"
    "head_heap m (W (h + 20 + total xs)) = W h"
    using block_atD [OF B(1)] by auto
qed

lemma merge_next_refines:
  assumes R: "heap_raw m h (xs @ (s, True) # ys)" and j: "join_next s ys = (s', ys')"
  shows "\<exists>m'. free_merge_next m (W (h + 20 + total xs)) (W h) = Some m' \<and>
     raw_step h m (xs @ (s, True) # ys) m' (xs @ (s', True) # ys')"
proof -
  let ?b = "h + 20 + total xs"
  note D = heap_rawD [OF R] and C = raw_check [OF R]
  have nxt: "W ?b + head_size m (W ?b) = W (?b + s)" using C(2) by (simp add: W_add)
  have top: "heap_top h (xs @ (s, True) # ys) = ?b + s + total ys" by (simp add: heap_top_def)
  have lt: "W (?b + s) < heap_end m (W h) \<longleftrightarrow> 0 < total ys"
    using D(7) unfolding D(2) top by (subst W_less_iff) auto
  show ?thesis
  proof (cases ys)
    case Nil
    with j have "s' = s" "ys' = []" by auto
    with Nil lt nxt R show ?thesis by (simp add: free_merge_next_def Let_def raw_step_refl)
  next
    case (Cons y zs)
    obtain t g where y: "y = (t, g)" by (cases y)
    have R2: "heap_raw m h ((xs @ [(s, True)]) @ (t, g) # zs)" using R Cons y by simp
    have addr: "h + 20 + total (xs @ [(s, True)]) = ?b + s" by simp
    note C2 = raw_check [OF R2, unfolded addr]
    have "24 \<le> t" using D(8) Cons y by (auto simp: blocks_append)
    then have run: "free_merge_next m (W ?b) (W h) =
        Some (if g then block_init m (W ?b) (W (s + t)) True (W h) else m)"
      using lt C2 C Cons y by (simp add: free_merge_next_def nxt W_add)
    show ?thesis
    proof (cases g)
      case True
      with j Cons y have "s' = s + t" "ys' = zs" by auto
      with raw_merge [of m h xs s True t g zs] R run Cons y True show ?thesis by simp
    next
      case False
      with j Cons y have "s' = s" "ys' = ys" by auto
      with run False R show ?thesis by (simp add: raw_step_refl)
    qed
  qed
qed

lemma merge_prev_refines:
  assumes R: "heap_raw m h (xs @ (s, True) # ys)"
  shows "\<exists>m'. free_merge_prev m (W (h + 20 + total xs)) (W h) = Some m' \<and>
     raw_step h m (xs @ (s, True) # ys) m' (join_prev xs s ys)"
proof -
  let ?b = "h + 20 + total xs"
  note D = heap_rawD [OF R] and C = raw_check [OF R]
  have top: "heap_top h (xs @ (s, True) # ys) = ?b + s + total ys" by (simp add: heap_top_def)
  have gt: "heap_start m (W h) < W ?b \<longleftrightarrow> 0 < total xs"
    using D(7) unfolding D(1) top by (subst W_less_iff) auto
  show ?thesis
  proof (cases xs rule: rev_cases)
    case Nil
    with gt R show ?thesis by (simp add: free_merge_prev_def join_prev_def raw_step_refl)
  next
    case (snoc zs z)
    obtain t g where z: "z = (t, g)" by (cases z)
    have R2: "heap_raw m h (zs @ (t, g) # (s, True) # ys)" using R snoc z by simp
    note C2 = raw_check [OF R2] and B2 = blocks_nth [OF heap_rawD(8) [OF R2]]
    have b: "?b = h + 20 + total zs + t" using snoc z by simp
    have foot: "foot_size m (W ?b - sizeof_foot) = W t"
      using block_atD(6) [OF B2(1)] B2(2) unfolding b by (simp add: sizeof_foot_def W_diff_numeral)
    have prv: "W ?b - W t = W (h + 20 + total zs)" unfolding b by (simp add: W_diff)
    have "0 < total xs" using B2(2) snoc z by simp
    then have run: "free_merge_prev m (W ?b) (W h) =
        Some (if g then block_init m (W (h + 20 + total zs)) (W (t + s)) True (W h) else m)"
      using gt C C2 by (simp add: free_merge_prev_def foot prv W_add)
    show ?thesis
    proof (cases g)
      case True
      with raw_merge [of m h zs t g s True ys] R2 run snoc z show ?thesis by (simp add: join_prev_def)
    next
      case False
      with run R snoc z show ?thesis by (simp add: raw_step_refl join_prev_def)
    qed
  qed
qed


lemma free_join_props:
  "total (free_join xs s ys) = total xs + s + total ys"
  "payloads a (free_join xs s ys) = payloads a xs \<union> payloads (a + total xs + s) ys"
  "coalesced (xs @ (s, False) # ys) \<Longrightarrow> coalesced (free_join xs s ys)"
proof -
  obtain s' ys' where j: "join_next s ys = (s', ys')" by fastforce
  then have J: "s' + total ys' = s + total ys" "payloads (b + s') ys' = payloads (b + s) ys"
    "coalesced ((s, False) # ys) \<Longrightarrow> coalesced ((s', True) # ys')" for b
    by (cases "(s, ys)" rule: join_next.cases; auto simp: coalesced_def successively_Cons add.assoc)+
  have P: "total (join_prev xs s' ys') = total xs + s' + total ys'"
    "payloads a (join_prev xs s' ys') = payloads a xs \<union> payloads (a + total xs + s') ys'"
    by (cases xs rule: rev_cases; auto simp: join_prev_def payloads_append add.assoc)+
  show "total (free_join xs s ys) = total xs + s + total ys"
    "payloads a (free_join xs s ys) = payloads a xs \<union> payloads (a + total xs + s) ys"
    using P J(1) J(2) [of "a + total xs"] by (simp_all add: free_join_def j)
  assume "coalesced (xs @ (s, False) # ys)"
  then have c: "coalesced xs" "coalesced ((s', True) # ys')"
    using J(3) by (auto simp: coalesced_def successively_append_iff)
  then show "coalesced (free_join xs s ys)"
    by (cases xs rule: rev_cases)
       (auto simp: free_join_def j join_prev_def coalesced_def successively_append_iff successively_Cons)
qed

text \<open>The part of \<^verbatim>\<open>free\<close> that works inside the heap.\<close>

lemma free_merge_refines:
  assumes R: "heap_raw m h (xs @ (s, False) # ys)"
  obtains m2 m3 where
    "free_merge_next (set_head_free m (W (h + 20 + total xs)) True) (W (h + 20 + total xs)) (W h) = Some m2"
    "free_merge_prev m2 (W (h + 20 + total xs)) (W h) = Some m3"
    "raw_step h m (xs @ (s, False) # ys) m3 (free_join xs s ys)"
proof -
  obtain s' ys' where j: "join_next s ys = (s', ys')" by fastforce
  note S1 = raw_mark [OF R]
  then have R1: "heap_raw (set_head_free m (W (h + 20 + total xs)) True) h (xs @ (s, True) # ys)"
    by (simp add: raw_step_def)
  obtain m2 where m2: "free_merge_next (set_head_free m (W (h + 20 + total xs)) True) (W (h + 20 + total xs)) (W h) = Some m2"
    "raw_step h (set_head_free m (W (h + 20 + total xs)) True) (xs @ (s, True) # ys) m2 (xs @ (s', True) # ys')"
    using merge_next_refines [OF R1 j] by blast
  then have R2: "heap_raw m2 h (xs @ (s', True) # ys')" by (simp add: raw_step_def)
  obtain m3 where m3: "free_merge_prev m2 (W (h + 20 + total xs)) (W h) = Some m3"
    "raw_step h m2 (xs @ (s', True) # ys') m3 (join_prev xs s' ys')"
    using merge_prev_refines [OF R2] by blast
  have "raw_step h m (xs @ (s, False) # ys) m3 (free_join xs s ys)"
    using raw_step_trans [OF raw_step_trans [OF S1 m2(2)] m3(2)] by (simp add: free_join_def j)
  with m2(1) m3(1) show thesis by (rule that)
qed

lemma release_test:
  assumes R: "heap_raw m h bs"
  shows "(head_free m (heap_start m (W h)) \<and> heap_start m (W h) + head_size m (heap_start m (W h)) = heap_end m (W h)) \<longleftrightarrow>
     (\<exists>t. bs = [(t, True)])"
proof -
  note D = heap_rawD [OF R]
  obtain t f cs where bs: "bs = (t, f) # cs" using D(9) by (metis neq_Nil_conv surj_pair)
  have C: "head_size m (W (h + 20)) = W t" "head_free m (W (h + 20)) = f"
    using raw_check [of m h "[]" t f cs] R bs by simp_all
  have "W (h + 20) + W t = W (heap_top h bs) \<longleftrightarrow> h + 20 + t = heap_top h bs"
    using D(7) bs unfolding W_add by (intro W_eq_iff) (auto simp: heap_top_def)
  also have "\<dots> \<longleftrightarrow> cs = []"
    using D(8) bs by (cases cs) (auto simp: heap_top_def)
  finally show ?thesis using C bs unfolding D(1,2) by auto
qed


section \<open>Freeing\<close>

text \<open>Contents outside the changed heap survive a step in it.\<close>

lemma raw_step_others:
  assumes ok: "heaps_ok m hl (as @ (h, bs) # cs)" and st: "raw_step h m bs m' bs'"
    and p: "p \<in> allocated as \<union> allocated cs \<union> payloads (h + 20) bs'" and x: "x \<in> area p"
  shows "m' (W x) = m (W x)"
proof (cases "p \<in> payloads (h + 20) bs'")
  case True
  with st x show ?thesis by (auto simp: raw_step_def)
next
  case False
  with p obtain g ds where g: "(g, ds) \<in> set as \<union> set cs" "p \<in> payloads (g + 20) ds"
    by (auto simp: allocated_def)
  have g': "(g, ds) \<in> set (as @ (h, bs) # cs)" using g(1) by auto
  have H: "heap_ok m g ds" using heaps_okD(2) [OF ok g'] .
  have "heap_top g ds \<le> h \<or> heap_top h bs \<le> g"
    using heaps_okD(3) [OF ok] g(1) by (auto simp: sorted_wrt_append apart_def)
  moreover have "g + 36 \<le> x" "x < heap_top g ds"
    using payloads_bounds [OF heap_okD(8) [OF H], of "fst p" "snd p"] g(2) x by (auto simp: area_def heap_top_def)
  ultimately show ?thesis
    using st heap_okD(7) [OF H] unfolding raw_step_def by auto
qed

lemma heaps_keep:
  assumes ok: "heaps_ok m hl (as @ (h, bs) # cs)" and st: "raw_step h m bs m' bs'"
    and co: "coalesced bs'" "\<forall>t. bs' \<noteq> [(t, True)]"
  shows "heaps_ok m' hl (as @ (h, bs') # cs)"
  using st co by (intro heaps_update [OF ok]) (auto simp: raw_step_def heap_raw_def)

lemma heaps_drop:
  assumes ok: "heaps_ok m hl (as @ (h, bs) # cs)" and st: "raw_step h m bs m' bs'"
  shows "\<exists>m4. list_remove m' (W h) = Some m4 \<and> heaps_ok m4 hl (as @ cs) \<and>
     heap_frames m4 (W h) = W ((20 + total bs) div 4096) \<and>
     (\<forall>a. a \<notin> link_cells (W ` anchors hl (as @ (h, bs) # cs)) \<longrightarrow> m4 a = m' a)"
proof -
  let ?hs = "as @ (h, bs) # cs"
  have L: "layout hl ?hs" using ok by (simp add: heaps_ok_layout)
  have out: "m' (W x) = m (W x)" if "x < 2 ^ 32" "x < h + 20 \<or> heap_top h bs \<le> x" for x
    using st that by (auto simp: raw_step_def)
  have "is_list m' hl (map (\<lambda>g. W (fst g)) as @ W h # map (\<lambda>g. W (fst g)) cs)"
    using heaps_links_frame [OF ok _ out, of h bs] by simp
  from list_remove_correct [OF this] obtain m4 where m4: "list_remove m' (W h) = Some m4"
    "is_list m4 hl (map (\<lambda>g. W (fst g)) (as @ cs))"
    "\<forall>a. a \<notin> link_cells (set (hl # map (\<lambda>g. W (fst g)) ?hs)) \<longrightarrow> m4 a = m' a"
    by auto
  have "heap_ok m4 g ds" if g: "(g, ds) \<in> set (as @ cs)" for g ds
  proof -
    have g': "(g, ds) \<in> set ?hs" using g by auto
    have "(g, ds) \<noteq> (h, bs)"
      using heaps_okD(3) [OF ok] g by (auto simp: sorted_wrt_append apart_def heap_top_def)
    then have "heap_ok m' g ds" using out by (intro heaps_ok_others [OF ok g', of h bs]) auto
    then show ?thesis using m4(3) layout_cell [OF L g'] by (auto intro: heap_ok_frame)
  qed
  moreover have "layout hl (as @ cs)" using L by (auto simp: layout_def sorted_wrt_append)
  moreover have "heap_frames m4 (W h) = heap_frames m' (W h)"
    using m4(3) layout_cell [OF L, of h bs "h + 16"] by (simp add: heap_frames_def W_add_numeral heap_top_def)
  ultimately show ?thesis
    using m4 st unfolding anchors_W by (auto simp: heaps_ok_layout raw_step_def heap_raw_def)
qed

text \<open>The abstract heaps after freeing the block \<open>s\<close> between \<open>xs\<close> and \<open>ys\<close>: a heap that is one
  free block is given back.\<close>

definition free_heap :: "nat \<Rightarrow> blk list \<Rightarrow> nat \<Rightarrow> blk list \<Rightarrow> hp list" where
  "free_heap h xs s ys = (if length (free_join xs s ys) = 1 then [] else [(h, free_join xs s ys)])"

text \<open>Exactly the memory of heaps that are no heaps any more has gone back to the frame allocator.\<close>

definition frames_released :: "('fs \<Rightarrow> nat set) \<Rightarrow> ('fs, 'z) kmem_scheme \<Rightarrow> hp list \<Rightarrow> hp list \<Rightarrow> ('fs, 'z) kmem_scheme \<Rightarrow> bool" where
  "frames_released owned s hs hs' s' \<longleftrightarrow> (\<forall>y. y \<in> owned (k_fs s') \<longleftrightarrow> y \<in> owned (k_fs s) \<and>
     (y + 0x80000000 \<in> heap_bytes (heap_list s) hs \<longrightarrow> y + 0x80000000 \<in> heap_bytes (heap_list s) hs'))"

definition kfree_post ::
  "'fs falloc \<Rightarrow> ('fs \<Rightarrow> nat set) \<Rightarrow> ('fs, 'z) kmem_scheme \<Rightarrow> hp list \<Rightarrow> nat \<times> nat \<Rightarrow> hp list \<Rightarrow>
    ('fs, 'z) kmem_scheme \<Rightarrow> bool" where
  "kfree_post F owned s hs q hs' s' \<longleftrightarrow> kheap_inv F owned s' hs' \<and> allocated hs' = allocated hs - {q} \<and>
     (\<forall>p \<in> allocated hs'. \<forall>x \<in> area p. k_mem s' (W x) = k_mem s (W x)) \<and>
     (\<forall>x < 2 ^ 32. x \<notin> heap_bytes (heap_list s) hs \<longrightarrow> k_mem s' (W x) = k_mem s (W x)) \<and>
     (\<forall>x. kept owned s hs x \<longrightarrow> kept owned s' hs' x) \<and> frames_released owned s hs hs' s' \<and> s' = s\<lparr>k_mem := k_mem s', k_fs := k_fs s'\<rparr>"

lemma free_join_free: "\<exists>x \<in> set (free_join xs s ys). snd x"
  by (cases "join_next s ys") (simp add: free_join_def join_prev_def)

lemma free_join_single: "length (free_join xs s ys) = 1 \<longleftrightarrow> (\<exists>t. free_join xs s ys = [(t, True)])"
  using free_join_free [of xs s ys] by (auto simp: length_Suc_conv)

lemma allocated_after_free:
  assumes ok: "heaps_ok m hl (as @ (h, xs @ (s, False) # ys) # cs)"
  shows "allocated (as @ (h, free_join xs s ys) # cs) =
     allocated (as @ (h, xs @ (s, False) # ys) # cs) - {(h + 20 + total xs + 16, s - 24)}"
    "length (free_join xs s ys) = 1 \<Longrightarrow> payloads (h + 20) (free_join xs s ys) = {}"
proof -
  let ?q = "(h + 20 + total xs + 16, s - 24)" and ?bs = "xs @ (s, False) # ys"
  have H: "heap_ok m h ?bs" using heaps_okD(2) [OF ok] by simp
  have B: "blocks m h (h + 20) xs" "blocks m h (h + 20 + total xs + s) ys" "24 \<le> s"
    using heap_okD(8) [OF H] by (auto simp: blocks_append)
  have nin: "?q \<notin> payloads (h + 20) xs" "?q \<notin> payloads (h + 20 + total xs + s) ys"
    using payloads_bounds(2) [OF B(1), of "fst ?q" "snd ?q"] payloads_bounds(1) [OF B(2), of "fst ?q" "snd ?q"] B(3) by auto
  have "?q \<notin> allocated as \<union> allocated cs"
  proof
    assume "?q \<in> allocated as \<union> allocated cs"
    then obtain g ds where g: "(g, ds) \<in> set as \<union> set cs" "?q \<in> payloads (g + 20) ds" by (auto simp: allocated_def)
    then have "heap_ok m g ds" using heaps_okD(2) [OF ok, of g ds] by auto
    from payloads_bounds [OF heap_okD(8) [OF this] g(2)] B(3)
    have "g < h + 20 + total xs + 16" "h + 20 + total xs < heap_top g ds" by (auto simp: heap_top_def)
    moreover have "heap_top g ds \<le> h \<or> heap_top h ?bs \<le> g"
      using heaps_okD(3) [OF ok] g(1) by (auto simp: sorted_wrt_append apart_def)
    ultimately show False using B(3) by (auto simp: heap_top_def)
  qed
  then show "allocated (as @ (h, free_join xs s ys) # cs) = allocated (as @ (h, ?bs) # cs) - {?q}"
    using nin by (auto simp: free_join_props(2) payloads_append)
  assume "length (free_join xs s ys) = 1"
  then obtain t where "free_join xs s ys = [(t, True)]" using free_join_single by blast
  then show "payloads (h + 20) (free_join xs s ys) = {}" by simp
qed


lemma free_release_keep:
  assumes "heap_raw (k_mem s) h bs" "length bs \<noteq> 1"
  shows "free_release F (W h) s = Some s"
  using release_test [OF assms(1)] assms(2) by (auto simp: free_release_def Let_def)

lemma free_release_drop:
  fixes s :: "('fs, 'z) kmem_scheme"
  assumes F: "frames_ok F owned" and R: "heap_raw (k_mem s) h [(t, True)]"
    and rm: "list_remove (k_mem s) (W h) = Some m4" "heap_frames m4 (W h) = W ((20 + t) div 4096)"
    and own: "{h - 0x80000000..<h - 0x80000000 + (20 + t)} \<subseteq> owned (k_fs s)"
  obtains fs' where "free_release F (W h) s = Some (s\<lparr>k_mem := m4, k_fs := fs'\<rparr>)"
    "owned fs' = owned (k_fs s) - {h - 0x80000000..<h - 0x80000000 + (20 + t)}"
proof -
  note D = heap_rawD [OF R]
  define phys where "phys = W (h - 0x80000000)"
  have b: "0x80000000 \<le> h" "h + 20 + t \<le> 0xA0000000" "24 \<le> t" using D by (auto simp: heap_top_def)
  have up: "unat phys = h - 0x80000000" unfolding phys_def using b by (intro unat_W) simp
  have "unat phys < 2 ^ 29" "unat phys + 0x80000000 = h" using up b by auto
  then have fromk: "ADDR_FROM_KSEG0 (W h) = phys" using KSEG0_W(2) [of phys] by simp
  obtain k where k: "20 + t = 4096 * k" using D(4) by auto
  have cnt: "unat (W ((20 + t) div 4096)) = k" using k b by (subst unat_W) auto
  have "frame_range phys (W ((20 + t) div 4096)) = {h - 0x80000000..<h - 0x80000000 + (20 + t)}"
    using up k unfolding frame_range_def cnt by simp
  moreover have "4096 dvd unat phys" unfolding up using D(5) by (intro dvd_diff_nat) simp_all
  moreover have "0 < W ((20 + t) div 4096)" using cnt k b by (simp add: word_less_nat_alt)
  ultimately obtain fs' where fs': "frame_free F (k_fs s) phys (W ((20 + t) div 4096)) = (EOK, fs')"
    "owned fs' = owned (k_fs s) - {h - 0x80000000..<h - 0x80000000 + (20 + t)}"
    using F own unfolding frames_ok_def by metis
  have "free_release F (W h) s = Some (s\<lparr>k_mem := m4, k_fs := fs'\<rparr>)"
    using release_test [OF R] rm fs'(1) fromk by (simp add: free_release_def Let_def)
  then show thesis using fs'(2) by (rule that)
qed

lemma kfree_run:
  fixes s :: "('fs, 'z) kmem_scheme"
  assumes ok: "heaps_ok (k_mem s) hl (as @ (h, xs @ (n, False) # ys) # cs)"
    and q: "query_and_disable_interrupts (k_cpu s) = (st, c)"
  obtains m3 where "raw_step h (k_mem s) (xs @ (n, False) # ys) m3 (free_join xs n ys)"
    "kfree F (W (h + 20 + total xs + 16)) s = (case free_release F (W h) (s\<lparr>k_cpu := c, k_mem := m3\<rparr>) of
       None \<Rightarrow> None | Some s2 \<Rightarrow> Some (s2\<lparr>k_cpu := conditionally_enable_interrupts st (k_cpu s2)\<rparr>))"
proof -
  have R: "heap_raw (k_mem s) h (xs @ (n, False) # ys)" using heaps_okD(2) [OF ok] by (simp add: heap_ok_raw)
  note C = raw_check [OF R]
  obtain m2 m3 where M:
    "free_merge_next (set_head_free (k_mem s) (W (h + 20 + total xs)) True) (W (h + 20 + total xs)) (W h) = Some m2"
    "free_merge_prev m2 (W (h + 20 + total xs)) (W h) = Some m3"
    "raw_step h (k_mem s) (xs @ (n, False) # ys) m3 (free_join xs n ys)"
    by (rule free_merge_refines [OF R])
  have hd: "W (h + 20 + total xs + 16) - sizeof_head = W (h + 20 + total xs)"
    unfolding sizeof_head_def by (subst W_diff_numeral) (simp_all add: ac_simps)
  show thesis
    by (rule that [OF M(3)], unfold kfree_def q Let_def prod.case hd) (simp add: C M(1,2) split: option.splits)
qed

lemma kfree_keep:
  fixes s :: "('fs, 'z) kmem_scheme"
  assumes inv: "kheap_inv F owned s (as @ (h, xs @ (n, False) # ys) # cs)" and len: "length (free_join xs n ys) \<noteq> 1"
  shows "\<exists>s'. kfree F (W (h + 20 + total xs + 16)) s = Some s' \<and>
     kfree_post F owned s (as @ (h, xs @ (n, False) # ys) # cs) (h + 20 + total xs + 16, n - 24) (as @ (h, free_join xs n ys) # cs) s'"
proof -
  let ?bs = "xs @ (n, False) # ys" and ?hl = "heap_list s" and ?q = "(h + 20 + total xs + 16, n - 24)"
  let ?hs = "as @ (h, ?bs) # cs" and ?j = "free_join xs n ys"
  note I = kheap_invD [OF inv]
  obtain st c where q: "query_and_disable_interrupts (k_cpu s) = (st, c)" by fastforce
  obtain m3 where m3: "raw_step h (k_mem s) ?bs m3 ?j"
    "kfree F (W (h + 20 + total xs + 16)) s = (case free_release F (W h) (s\<lparr>k_cpu := c, k_mem := m3\<rparr>) of
       None \<Rightarrow> None | Some s2 \<Rightarrow> Some (s2\<lparr>k_cpu := conditionally_enable_interrupts st (k_cpu s2)\<rparr>))"
    by (rule kfree_run [OF I(2) q])
  let ?s' = "s\<lparr>k_mem := m3\<rparr>"
  have co: "coalesced ?j" using heap_okD(10) [OF heaps_okD(2) [OF I(2), of h ?bs]] by (simp add: free_join_props(3))
  have "heaps_ok m3 ?hl (as @ (h, ?j) # cs)"
    using len co by (intro heaps_keep [OF I(2) m3(1)]) auto
  moreover have hb: "heap_bytes ?hl (as @ (h, ?j) # cs) = heap_bytes ?hl ?hs"
    by (simp add: heap_bytes_def heap_top_def free_join_props(1) add.assoc)
  ultimately have "kheap_inv F owned ?s' (as @ (h, ?j) # cs)" using I(1,3) by (simp add: kheap_inv_def)
  moreover have "\<forall>p \<in> allocated (as @ (h, ?j) # cs). \<forall>x \<in> area p. m3 (W x) = k_mem s (W x)"
    using raw_step_others [OF I(2) m3(1)] by auto
  moreover have "\<forall>x < 2 ^ 32. x \<notin> heap_bytes ?hl ?hs \<longrightarrow> m3 (W x) = k_mem s (W x)"
    using m3(1) by (auto simp: raw_step_def heap_bytes_def)
  ultimately have "kfree_post F owned s ?hs ?q (as @ (h, ?j) # cs) ?s'"
    using allocated_after_free(1) [OF I(2)] hb unfolding kfree_post_def by (simp add: kept_def frames_released_def)
  moreover have "heap_raw m3 h ?j" using m3(1) by (simp add: raw_step_def)
  then have "kfree F (W (h + 20 + total xs + 16)) s = Some ?s'"
    using free_release_keep [of "s\<lparr>k_cpu := c, k_mem := m3\<rparr>" h ?j] len m3(2) interrupt_bracket [OF q] by simp
  ultimately show ?thesis by blast
qed

lemma dropped_bytes:
  assumes ok: "heaps_ok m hl (as @ (h, bs) # cs)" and x: "x \<in> heap_bytes hl (as @ cs)"
  shows "x \<in> heap_bytes hl (as @ (h, bs) # cs)" "x < h \<or> heap_top h bs \<le> x"
proof -
  show "x \<in> heap_bytes hl (as @ (h, bs) # cs)" using x by (auto simp: heap_bytes_def)
  have "unat hl + 8 \<le> h \<or> heap_top h bs \<le> unat hl" using heaps_okD(6) [OF ok] by simp
  moreover have "heap_top g ds \<le> h \<or> heap_top h bs \<le> g" if "(g, ds) \<in> set as \<union> set cs" for g ds
    using heaps_okD(3) [OF ok] that by (auto simp: sorted_wrt_append apart_def)
  ultimately show "x < h \<or> heap_top h bs \<le> x" using x by (fastforce simp: heap_bytes_def)
qed

lemma kfree_drop:
  fixes s :: "('fs, 'z) kmem_scheme"
  assumes inv: "kheap_inv F owned s (as @ (h, xs @ (n, False) # ys) # cs)" and len: "length (free_join xs n ys) = 1"
  shows "\<exists>s'. kfree F (W (h + 20 + total xs + 16)) s = Some s' \<and>
     kfree_post F owned s (as @ (h, xs @ (n, False) # ys) # cs) (h + 20 + total xs + 16, n - 24) (as @ cs) s'"
proof -
  let ?bs = "xs @ (n, False) # ys" and ?hl = "heap_list s" and ?q = "(h + 20 + total xs + 16, n - 24)"
  let ?hs = "as @ (h, ?bs) # cs" and ?j = "free_join xs n ys" and ?K = "0x80000000 :: nat"
  note I = kheap_invD [OF inv]
  obtain t where t: "?j = [(t, True)]" using len free_join_single by blast
  then have tot: "total ?bs = t" using free_join_props(1) [of xs n ys] by simp
  obtain st c where q: "query_and_disable_interrupts (k_cpu s) = (st, c)" by fastforce
  obtain m3 where m3: "raw_step h (k_mem s) ?bs m3 ?j"
    "kfree F (W (h + 20 + total xs + 16)) s = (case free_release F (W h) (s\<lparr>k_cpu := c, k_mem := m3\<rparr>) of
       None \<Rightarrow> None | Some s2 \<Rightarrow> Some (s2\<lparr>k_cpu := conditionally_enable_interrupts st (k_cpu s2)\<rparr>))"
    by (rule kfree_run [OF I(2) q])
  obtain m4 where m4: "list_remove m3 (W h) = Some m4" "heaps_ok m4 ?hl (as @ cs)"
    "heap_frames m4 (W h) = W ((20 + t) div 4096)"
    "\<forall>a. a \<notin> link_cells (W ` anchors ?hl ?hs) \<longrightarrow> m4 a = m3 a"
    using heaps_drop [OF I(2) m3(1)] unfolding tot by blast
  have hK: "?K \<le> h" using heap_okD(6) [OF heaps_okD(2) [OF I(2), of h ?bs]] by simp
  have top: "heap_top h ?bs = h + (20 + t)" using tot by (simp add: heap_top_def)
  have own: "{h - ?K..<h - ?K + (20 + t)} \<subseteq> owned (k_fs s)"
  proof
    fix y assume "y \<in> {h - ?K..<h - ?K + (20 + t)}"
    then have "y + ?K \<in> heap_bytes ?hl ?hs" using hK top by (auto simp: heap_bytes_def)
    with I(3) have "y + ?K - ?K \<in> owned (k_fs s)" by blast
    then show "y \<in> owned (k_fs s)" by simp
  qed
  have R3: "heap_raw m3 h [(t, True)]" using m3(1) unfolding t raw_step_def by blast
  obtain fs' where fs': "free_release F (W h) (s\<lparr>k_cpu := c, k_mem := m3\<rparr>) = Some (s\<lparr>k_cpu := c, k_mem := m4, k_fs := fs'\<rparr>)"
    "owned fs' = owned (k_fs s) - {h - ?K..<h - ?K + (20 + t)}"
    using free_release_drop [OF I(1), of "s\<lparr>k_cpu := c, k_mem := m3\<rparr>" h t m4] R3 m4(1,3) own by auto
  let ?s' = "s\<lparr>k_mem := m4, k_fs := fs'\<rparr>"
  have "x - ?K \<in> owned fs'" if x: "x \<in> heap_bytes ?hl (as @ cs)" for x
    using dropped_bytes [OF I(2) x] I(3) hK top heap_bytes_ge [OF m4(2) x] unfolding fs'(2) by auto
  then have "kheap_inv F owned ?s' (as @ cs)" using I(1) m4(2) by (simp add: kheap_inv_def)
  moreover have L: "layout ?hl ?hs" using I(2) by (simp add: heaps_ok_layout)
  have "m4 (W x) = k_mem s (W x)" if p: "p \<in> allocated (as @ cs)" and x: "x \<in> area p" for p x
  proof -
    have p': "p \<in> allocated ?hs" using p by auto
    obtain g ds where g: "(g, ds) \<in> set ?hs" "g + 36 \<le> fst p" "fst p + snd p + 8 \<le> heap_top g ds"
      by (rule allocated_bounds [OF I(2) p'])
    then have "W x \<notin> link_cells (W ` anchors ?hl ?hs)"
      using layout_cell [OF L g(1), of x] x unfolding anchors_W by (auto simp: area_def)
    with m4(4) raw_step_others [OF I(2) m3(1) _ x] p show ?thesis by auto
  qed
  moreover have "m4 (W x) = k_mem s (W x)" if "x < 2 ^ 32" "x \<notin> heap_bytes ?hl ?hs" for x
    using m3(1) m4(4) link_cells_bytes [OF L that] that by (auto simp: raw_step_def heap_bytes_def)
  moreover have "allocated (as @ cs) = allocated ?hs - {?q}"
    using allocated_after_free [OF I(2)] len by simp
  moreover have "kept owned ?s' (as @ cs) x" if "kept owned s ?hs x" for x
    using that dropped_bytes(1) [OF I(2), of x] hK top unfolding kept_def by (auto simp: fs'(2) heap_bytes_def)
  moreover have "frames_released owned s ?hs (as @ cs) ?s'"
  proof -
    have "y + ?K \<in> heap_bytes ?hl ?hs \<and> y + ?K \<notin> heap_bytes ?hl (as @ cs) \<longleftrightarrow> y \<in> {h - ?K..<h - ?K + (20 + t)}" for y
    proof -
      have "heap_bytes ?hl ?hs = heap_bytes ?hl (as @ cs) \<union> {h..<heap_top h ?bs}" by (auto simp: heap_bytes_def)
      moreover have "y + ?K \<in> heap_bytes ?hl (as @ cs) \<Longrightarrow> y + ?K \<notin> {h..<heap_top h ?bs}" using dropped_bytes(2) [OF I(2), of "y + ?K"] by auto
      moreover have "y + ?K \<in> {h..<heap_top h ?bs} \<longleftrightarrow> y \<in> {h - ?K..<h - ?K + (20 + t)}" unfolding top using hK by auto
      ultimately show ?thesis by blast
    qed
    then show ?thesis unfolding frames_released_def by (auto simp: fs'(2))
  qed
  ultimately have "kfree_post F owned s ?hs ?q (as @ cs) ?s'"
    unfolding kfree_post_def by (simp del: allocated_simps)
  moreover have "kfree F (W (h + 20 + total xs + 16)) s = Some ?s'"
    using fs'(1) m3(2) interrupt_bracket [OF q] by simp
  ultimately show ?thesis by blast
qed

lemma kfree_correct:
  fixes s :: "('fs, 'z) kmem_scheme"
  assumes "kheap_inv F owned s (as @ (h, xs @ (n, False) # ys) # cs)"
  shows "\<exists>s'. kfree F (W (h + 20 + total xs + 16)) s = Some s' \<and>
     kfree_post F owned s (as @ (h, xs @ (n, False) # ys) # cs) (h + 20 + total xs + 16, n - 24) (as @ free_heap h xs n ys @ cs) s'"
  using kfree_keep [OF assms] kfree_drop [OF assms] by (simp add: free_heap_def)


section \<open>The allocator interface\<close>

lemma payloads_split_list:
  assumes "q \<in> payloads a bs"
  obtains xs n ys where "bs = xs @ (n, False) # ys" "q = (a + total xs + 16, n - 24)"
  using assms
proof (induction bs arbitrary: a thesis)
  case Nil
  then show ?case by simp
next
  case (Cons b bs)
  obtain s f where b: "b = (s, f)" by (cases b)
  show ?case
  proof (cases "\<not> f \<and> q = (a + 16, s - 24)")
    case True
    with b show ?thesis by (intro Cons.prems(1) [of "[]" s bs]) auto
  next
    case False
    with Cons.prems(2) b have "q \<in> payloads (a + s) bs" by (auto split: if_splits)
    then obtain xs n ys where "bs = xs @ (n, False) # ys" "q = (a + s + total xs + 16, n - 24)"
      using Cons.IH by blast
    with b show ?thesis by (intro Cons.prems(1) [of "b # xs" n ys]) auto
  qed
qed

text \<open>Every allocated payload can be freed.\<close>

lemma kfree_allocated:
  assumes inv: "kheap_inv F owned s hs" and q: "q \<in> allocated hs"
  shows "\<exists>s' hs'. kfree F (W (fst q)) s = Some s' \<and> kfree_post F owned s hs q hs' s'"
proof -
  obtain h bs where hb: "(h, bs) \<in> set hs" "q \<in> payloads (h + 20) bs" using q by (auto simp: allocated_def)
  obtain xs n ys where bs: "bs = xs @ (n, False) # ys" "q = (h + 20 + total xs + 16, n - 24)"
    by (rule payloads_split_list [OF hb(2)])
  obtain as cs where hs: "hs = as @ (h, xs @ (n, False) # ys) # cs"
    using split_list [OF hb(1)] bs(1) by auto
  from kfree_correct [of F owned s as h xs n ys cs] inv hs bs(2) show ?thesis by auto
qed

text \<open>What a client of an allocator relies on. \<open>live h\<close> are the allocated objects, address and
  length; \<open>peek s x\<close> is the memory cell at \<open>x\<close>.\<close>

locale allocator =
  fixes inv :: "'s \<Rightarrow> 'h \<Rightarrow> bool"
    and live :: "'h \<Rightarrow> (nat \<times> nat) set"
    and peek :: "'s \<Rightarrow> nat \<Rightarrow> u32"
    and small :: "u32 \<Rightarrow> bool"
    and alloc :: "u32 \<Rightarrow> 's \<Rightarrow> (u32 \<times> 's) option"
    and dealloc :: "u32 \<Rightarrow> 's \<Rightarrow> 's option"
  assumes alloc_law: "inv s h \<Longrightarrow> small n \<Longrightarrow> \<exists>p s' h'. alloc n s = Some (p, s') \<and> inv s' h' \<and>
      (if p = NULL then live h' = live h \<and> peek s' = peek s
       else \<exists>k \<ge> unat n. (unat p, k) \<notin> live h \<and> live h' = insert (unat p, k) (live h) \<and>
         (\<forall>q \<in> live h. area q \<inter> area (unat p, k) = {} \<and> (\<forall>x \<in> area q. peek s' x = peek s x)))"
    and dealloc_law: "inv s h \<Longrightarrow> (unat p, k) \<in> live h \<Longrightarrow> \<exists>s' h'. dealloc p s = Some s' \<and> inv s' h' \<and>
      live h' = live h - {(unat p, k)} \<and> (\<forall>q \<in> live h'. \<forall>x \<in> area q. peek s' x = peek s x)"

text \<open>A client that allocates, and frees what it holds: the held addresses, oldest first. Index \<open>i\<close>
  that names nothing is no request at all.\<close>

datatype hop = HAlloc u32 | HFree nat

fun hop_exec :: "(u32 \<Rightarrow> 's \<Rightarrow> (u32 \<times> 's) option) \<Rightarrow> (u32 \<Rightarrow> 's \<Rightarrow> 's option) \<Rightarrow> hop \<Rightarrow> 's \<times> u32 list \<Rightarrow>
    ('s \<times> u32 list) option" where
  "hop_exec al de (HAlloc n) (s, ps) =
     map_option (\<lambda>(p, s'). (s', if p = NULL then ps else ps @ [p])) (al n s)"
| "hop_exec al de (HFree i) (s, ps) =
     (if i < length ps then map_option (\<lambda>s'. (s', take i ps @ drop (Suc i) ps)) (de (ps ! i) s) else Some (s, ps))"

fun hops_exec :: "(u32 \<Rightarrow> 's \<Rightarrow> (u32 \<times> 's) option) \<Rightarrow> (u32 \<Rightarrow> 's \<Rightarrow> 's option) \<Rightarrow> hop list \<Rightarrow> 's \<times> u32 list \<Rightarrow>
    ('s \<times> u32 list) option" where
  "hops_exec al de [] c = Some c"
| "hops_exec al de (e # es) c = Option.bind (hop_exec al de e c) (hops_exec al de es)"

fun hop_small :: "(u32 \<Rightarrow> bool) \<Rightarrow> hop \<Rightarrow> bool" where
  "hop_small sm (HAlloc n) \<longleftrightarrow> sm n"
| "hop_small sm (HFree i) \<longleftrightarrow> True"

definition objects_disjoint :: "(nat \<times> nat) list \<Rightarrow> bool" where
  "objects_disjoint qs \<longleftrightarrow> sorted_wrt (\<lambda>p q. area p \<inter> area q = {}) qs"

context allocator
begin

text \<open>\<open>holds s h qs\<close>: the client holds exactly the live objects, no two of which overlap.\<close>

definition holds :: "'s \<Rightarrow> 'h \<Rightarrow> (nat \<times> nat) list \<Rightarrow> bool" where
  "holds s h qs \<longleftrightarrow> inv s h \<and> live h = set qs \<and> distinct qs \<and> (\<forall>q \<in> set qs. fst q < 2 ^ 32) \<and> objects_disjoint qs"

lemma client_alloc:
  assumes "holds s h qs" "small n"
  shows "\<exists>s' h' qs'. hop_exec alloc dealloc (HAlloc n) (s, map (\<lambda>q. W (fst q)) qs) = Some (s', map (\<lambda>q. W (fst q)) qs') \<and>
    holds s' h' qs'"
proof -
  have H: "inv s h" "live h = set qs" "distinct qs" "\<forall>q \<in> set qs. fst q < 2 ^ 32" "objects_disjoint qs"
    using assms(1) by (auto simp: holds_def)
  obtain p s' h' where A: "alloc n s = Some (p, s')" "inv s' h'"
    "if p = NULL then live h' = live h \<and> peek s' = peek s
     else \<exists>k \<ge> unat n. (unat p, k) \<notin> live h \<and> live h' = insert (unat p, k) (live h) \<and>
       (\<forall>q \<in> live h. area q \<inter> area (unat p, k) = {} \<and> (\<forall>x \<in> area q. peek s' x = peek s x))"
    using alloc_law [OF H(1) assms(2)] by blast
  show ?thesis
  proof (cases "p = NULL")
    case True
    with A H have "holds s' h' qs" by (simp add: holds_def)
    with A(1) True show ?thesis by auto
  next
    case False
    with A(3) obtain k where k: "(unat p, k) \<notin> live h" "live h' = insert (unat p, k) (live h)"
      "\<forall>q \<in> live h. area q \<inter> area (unat p, k) = {}" by auto
    have "unat p < 2 ^ 32" using unsigned_less [of p] by simp
    then have "holds s' h' (qs @ [(unat p, k)])"
      using A(2) H k by (auto simp: holds_def objects_disjoint_def sorted_wrt_append)
    with A(1) False show ?thesis by (intro exI [of _ s'] exI [of _ h'] exI [of _ "qs @ [(unat p, k)]"]) simp
  qed
qed

lemma client_free:
  assumes "holds s h qs"
  shows "\<exists>s' h' qs'. hop_exec alloc dealloc (HFree i) (s, map (\<lambda>q. W (fst q)) qs) = Some (s', map (\<lambda>q. W (fst q)) qs') \<and>
    holds s' h' qs'"
proof (cases "i < length qs")
  case False
  with assms show ?thesis by auto
next
  case True
  have H: "inv s h" "live h = set qs" "distinct qs" "\<forall>q \<in> set qs. fst q < 2 ^ 32" "objects_disjoint qs"
    using assms by (auto simp: holds_def)
  let ?q = "qs ! i" and ?r = "take i qs @ drop (Suc i) qs"
  have q: "?q \<in> live h" "unat (W (fst ?q)) = fst ?q" using H(2,4) True by (auto simp: unat_W)
  obtain s' h' where D: "dealloc (W (fst ?q)) s = Some s'" "inv s' h'" "live h' = live h - {?q}"
    using dealloc_law [OF H(1), of "W (fst ?q)" "snd ?q"] q by auto
  have split: "qs = take i qs @ ?q # drop (Suc i) qs" using True by (rule id_take_nth_drop)
  have nth: "distinct ?r" "?q \<notin> set ?r" "set qs = insert ?q (set ?r)" "objects_disjoint ?r"
  proof -
    have "distinct (take i qs @ ?q # drop (Suc i) qs)" "objects_disjoint (take i qs @ ?q # drop (Suc i) qs)"
      using H(3,5) split by metis+
    then show "distinct ?r" "?q \<notin> set ?r" "objects_disjoint ?r"
      by (auto simp: objects_disjoint_def sorted_wrt_append)
    show "set qs = insert ?q (set ?r)" using arg_cong [OF split, of set] by simp
  qed
  have "holds s' h' ?r"
    using D H nth by (auto simp: holds_def)
  moreover have "hop_exec alloc dealloc (HFree i) (s, map (\<lambda>q. W (fst q)) qs) = Some (s', map (\<lambda>q. W (fst q)) ?r)"
    using D(1) True by (simp add: take_map drop_map)
  ultimately show ?thesis by blast
qed

lemma client_run:
  assumes "holds s h qs" "\<forall>e \<in> set es. hop_small small e"
  shows "\<exists>s' h' qs'. hops_exec alloc dealloc es (s, map (\<lambda>q. W (fst q)) qs) = Some (s', map (\<lambda>q. W (fst q)) qs') \<and>
    holds s' h' qs'"
  using assms
proof (induction es arbitrary: s h qs)
  case Nil
  then show ?case by auto
next
  case (Cons e es)
  have "\<exists>s' h' qs'. hop_exec alloc dealloc e (s, map (\<lambda>q. W (fst q)) qs) = Some (s', map (\<lambda>q. W (fst q)) qs') \<and>
      holds s' h' qs'"
    using Cons.prems client_alloc client_free by (cases e) auto
  then obtain s' h' qs' where "hop_exec alloc dealloc e (s, map (\<lambda>q. W (fst q)) qs) = Some (s', map (\<lambda>q. W (fst q)) qs')"
    "holds s' h' qs'" by blast
  with Cons.IH [of s' h' qs'] Cons.prems show ?case by auto
qed

end

section \<open>Allocation undone\<close>

lemma free_join_split:
  assumes "coalesced (xs @ (s, True) # ys)" "rs \<le> s"
  obtains k zs where "xs @ split_block rs s @ ys = xs @ (k, False) # zs" "free_join xs k zs = xs @ (s, True) # ys"
proof -
  have c: "xs = [] \<or> \<not> snd (last xs)" "ys = [] \<or> \<not> snd (hd ys)"
    using assms(1) by (auto simp: coalesced_def successively_append_iff successively_Cons)
  have jp: "join_prev xs s ys = xs @ (s, True) # ys" using c(1) by (auto simp: join_prev_def)
  show thesis
  proof (cases "s > rs + 24")
    case True
    then show thesis
      using jp assms(2) by (intro that [of rs "(s - rs, True) # ys"]) (simp_all add: split_block_def free_join_def)
  next
    case False
    have "join_next s ys = (s, ys)" using c(2) by (cases "(s, ys)" rule: join_next.cases) auto
    then show thesis
      using False jp by (intro that [of s ys]) (simp_all add: split_block_def free_join_def)
  qed
qed

lemma malloc_abs_undo:
  assumes ab: "malloc_abs n hs p hs'" and ok: "heaps_ok m hl hs"
  obtains as h xs k ys cs where "hs' = as @ (h, xs @ (k, False) # ys) # cs" "p = h + 20 + total xs + 16"
    "as @ free_heap h xs k ys @ cs = hs"
proof (cases "alloc_heaps (real_block n) hs")
  case None
  then obtain h where h: "hs' = hs @ [new_heap h n]" "p = h + 36" using ab by (auto simp: malloc_abs_def)
  have le: "real_block n \<le> 4096 * new_frames n - 20"
  proof -
    have "real_block n + 20 \<le> 4096 * ((real_block n + 20 + 4095) div 4096)" by simp
    also have "\<dots> \<le> 4096 * new_frames n" by (simp add: new_frames_def)
    finally show ?thesis by simp
  qed
  obtain k zs where k: "[] @ split_block (real_block n) (4096 * new_frames n - 20) @ [] = [] @ (k, False) # zs"
    "free_join [] k zs = [(4096 * new_frames n - 20, True)]"
    using free_join_split [of "[]" "4096 * new_frames n - 20" "[]" "real_block n"] le by (auto simp: coalesced_def)
  then show thesis
    using h by (intro that [of hs h "[]" k zs "[]"]) (simp_all add: new_heap_def free_heap_def)
next
  case (Some a)
  then have "alloc_heaps (real_block n) hs = Some (p, hs')" using ab by (auto simp: malloc_abs_def)
  then obtain as h bs cs off bs' where S: "hs = as @ (h, bs) # cs" "hs' = as @ (h, bs') # cs"
    "p = h + 20 + off + 16" "alloc_block (real_block n) bs = Some (off, bs')"
    using alloc_heaps_shape by blast
  obtain xs s ys where B: "bs = xs @ (s, True) # ys" "real_block n \<le> s" "off = total xs"
    "bs' = xs @ split_block (real_block n) s @ ys"
    by (rule alloc_block_Some [OF S(4)])
  have H: "heap_ok m h bs" using heaps_okD(2) [OF ok] S(1) by simp
  have c: "coalesced (xs @ (s, True) # ys)" using heap_okD(10) [OF H] B(1) by simp
  obtain k zs where k: "bs' = xs @ (k, False) # zs" "free_join xs k zs = bs"
    using free_join_split [OF c B(2)] unfolding B(1,4) by blast
  have "length bs \<noteq> 1" using heap_okD(11) [OF H] k(2) free_join_single by metis
  then show thesis
    using S k B(3) by (intro that [of as h xs k zs cs]) (simp_all add: free_heap_def)
qed

lemma alloc_heaps_None:
  "alloc_heaps rs hs = None \<longleftrightarrow> (\<forall>(h, bs) \<in> set hs. \<forall>(k, f) \<in> set bs. \<not> (f \<and> rs \<le> k))"
proof (induction hs)
  case (Cons g hs)
  obtain h bs where g: "g = (h, bs)" by (cases g)
  show ?case
  proof (cases "alloc_block rs bs")
    case None
    with alloc_block_None [of rs bs] have "\<forall>(k, f) \<in> set bs. \<not> (f \<and> rs \<le> k)" by simp
    with Cons None g show ?thesis by simp
  next
    case (Some a)
    with alloc_block_None [of rs bs] have "\<not> (\<forall>(k, f) \<in> set bs. \<not> (f \<and> rs \<le> k))" by simp
    with Some g show ?thesis by (cases a) auto
  qed
qed simp

lemma malloc_then_free:
  assumes inv: "kheap_inv F owned s hs" and post: "malloc_post F owned n s hs (p, k) hs' s'"
  obtains s'' j where "kfree F (W p) s' = Some s''" "kfree_post F owned s' hs' (p, j) hs s''" "(p, k) \<notin> allocated hs"
proof -
  have P: "malloc_abs n hs p hs'" "alloc_post (k_mem s) (heap_list s) hs (p, k) hs' (k_mem s')" "kheap_inv F owned s' hs'"
    using post by (auto simp: malloc_post_def)
  obtain as h xs j ys cs where U: "hs' = as @ (h, xs @ (j, False) # ys) # cs" "p = h + 20 + total xs + 16"
    "as @ free_heap h xs j ys @ cs = hs"
    by (rule malloc_abs_undo [OF P(1) kheap_invD(2) [OF inv]])
  obtain s'' where S: "kfree F (W p) s' = Some s''" "kfree_post F owned s' hs' (p, j - 24) hs s''"
    using kfree_correct [of F owned s' as h xs j ys cs] P(3) unfolding U(3) U(1,2) [symmetric] by blast
  have "(p, j - 24) \<in> allocated hs'" unfolding U(1,2) by (simp add: payloads_append)
  moreover have "allocated hs = allocated hs' - {(p, j - 24)}" using S(2) by (simp add: kfree_post_def)
  moreover have "allocated hs' = insert (p, k) (allocated hs)" using P(2) by (simp add: alloc_post_def)
  ultimately have "(p, k) \<notin> allocated hs" by (metis Diff_iff insert_absorb insertI1)
  with S show thesis by (rule that)
qed


section \<open>The kernel heap is an allocator\<close>

type_synonym ('fs, 'z) kheap = "'fs falloc \<times> ('fs \<Rightarrow> nat set) \<times> ('fs, 'z) kmem_scheme"

fun kh_inv :: "('fs, 'z) kheap \<Rightarrow> hp list \<Rightarrow> bool" where
  "kh_inv (F, owned, s) hs = kheap_inv F owned s hs"

fun kh_peek :: "('fs, 'z) kheap \<Rightarrow> nat \<Rightarrow> u32" where
  "kh_peek (F, owned, s) x = k_mem s (W x)"

fun kh_malloc :: "u32 \<Rightarrow> ('fs, 'z) kheap \<Rightarrow> (u32 \<times> ('fs, 'z) kheap) option" where
  "kh_malloc n (F, owned, s) = map_option (\<lambda>(p, s'). (p, (F, owned, s'))) (malloc F n s)"

fun kh_free :: "u32 \<Rightarrow> ('fs, 'z) kheap \<Rightarrow> ('fs, 'z) kheap option" where
  "kh_free p (F, owned, s) = map_option (\<lambda>s'. (F, owned, s')) (kfree F p s)"

lemma kh_peek_eq: "kh_peek (F, owned, s) = (\<lambda>x. k_mem s (W x))"
  by (rule ext) simp

interpretation kh: allocator kh_inv allocated kh_peek "\<lambda>n. n \<le> HEAP_BLOCK_SIZE_MAX" kh_malloc kh_free
proof unfold_locales
  fix t :: "('fs, 'z) kheap" and hs :: "hp list" and n p :: u32 and k :: nat
  obtain F owned s where t: "t = (F, owned, s)" by (cases t)
  assume "kh_inv t hs"
  then have inv: "kheap_inv F owned s hs" by (simp add: t)
  show "\<exists>p s' h'. kh_malloc n t = Some (p, s') \<and> kh_inv s' h' \<and>
      (if p = NULL then allocated h' = allocated hs \<and> kh_peek s' = kh_peek t
       else \<exists>k \<ge> unat n. (unat p, k) \<notin> allocated hs \<and> allocated h' = insert (unat p, k) (allocated hs) \<and>
         (\<forall>q \<in> allocated hs. area q \<inter> area (unat p, k) = {} \<and> (\<forall>x \<in> area q. kh_peek s' x = kh_peek t x)))"
    if "n \<le> HEAP_BLOCK_SIZE_MAX"
  proof (cases rule: malloc_cases [OF inv that, case_names fail ok])
    case (fail rc phys fs')
    then show ?thesis by (auto simp: t kh_peek_eq)
  next
    case (ok p k hs' s')
    have P: "unat n \<le> k" "alloc_post (k_mem s) (heap_list s) hs (p, k) hs' (k_mem s')" "kheap_inv F owned s' hs'"
      "0x80000000 \<le> p" "p + k \<le> 0xA0000000"
      using ok(2) by (auto simp: malloc_post_def)
    have "(p, k) \<notin> allocated hs" by (rule malloc_then_free [OF inv ok(2)])
    moreover have "unat (W p) = p" "W p \<noteq> 0" using P(4,5) by (auto simp: unat_W W_eq_0_iff)
    ultimately show ?thesis
      using ok(1) P by (intro exI [of _ "W p"] exI [of _ "(F, owned, s')"] exI [of _ hs']) (auto simp: t alloc_post_def)
  qed
  show "\<exists>s' h'. kh_free p t = Some s' \<and> kh_inv s' h' \<and> allocated h' = allocated hs - {(unat p, k)} \<and>
      (\<forall>q \<in> allocated h'. \<forall>x \<in> area q. kh_peek s' x = kh_peek t x)" if "(unat p, k) \<in> allocated hs"
    using kfree_allocated [OF inv that] by (fastforce simp: t kfree_post_def)
qed

lemma hops_keep:
  "hops_exec kh_malloc kh_free es ((F, owned, s), ps) = Some (t, qs) \<Longrightarrow> \<exists>s'. t = (F, owned, s')"
proof (induction es arbitrary: s ps)
  case Nil
  then show ?case by auto
next
  case (Cons e es)
  then obtain c where c: "hop_exec kh_malloc kh_free e ((F, owned, s), ps) = Some c" "hops_exec kh_malloc kh_free es c = Some (t, qs)"
    by (auto elim: bind_eq_SomeE)
  then obtain s' ps' where "c = ((F, owned, s'), ps')" by (cases e) (auto split: if_splits)
  with c(2) Cons.IH show ?case by simp
qed

text \<open>A frame allocator for the examples: one region at 16 MB, for whoever comes first.\<close>

definition one_region :: "nat set falloc" where
  "one_region = \<lparr>
     frame_alloc = (\<lambda>fs cnt flags.
       if frame_range 0x1000000 cnt \<inter> fs = {} \<and> 0x1000000 + 4096 * unat cnt \<le> 2 ^ 29
       then (EOK, 0x1000000, fs \<union> frame_range 0x1000000 cnt) else (ENOMEM, 0, fs)),
     frame_free = (\<lambda>fs phys cnt. (EOK, fs - frame_range phys cnt))\<rparr>"

lemma one_region_ok: "frames_ok one_region (\<lambda>fs. fs)"
  unfolding frames_ok_def one_region_def by (auto simp: Let_def)

definition reset_cp0 :: cp0 where
  "reset_cp0 = \<lparr>r_index = 0, r_random = 47, r_entrylo0 = 0, r_entrylo1 = 0, r_pagemask = 0, r_wired = 0,
     r_badvaddr = 0, r_count = 0, r_entryhi = 0, r_compare = 0, r_status = 1, r_cause = 0, r_epc = 0,
     r_xcontext = 0, r_eepc = 0\<rparr>"

definition empty_kmem :: "nat set kmem" where
  "empty_kmem = \<lparr>k_mem = (\<lambda>_. 0)(0x80001000 := 0x80001000, 0x80001004 := 0x80001000), k_cpu = reset_cp0,
     k_fs = {0x1000..<0x1008}, heap_list = 0x80001000\<rparr>"

lemma empty_kmem_inv: "kheap_inv one_region (\<lambda>fs. fs) empty_kmem []"
proof -
  have "is_list (k_mem empty_kmem) 0x80001000 []"
    by (simp add: is_list_empty_iff empty_kmem_def link_next_def link_prev_def)
  then show ?thesis
    using one_region_ok by (auto simp: kheap_inv_def empty_kmem_def heaps_ok_def heap_bytes_def)
qed

text \<open>The heap after the first request of 100 bytes.\<close>

abbreviation first_heap :: "hp list" where
  "first_heap \<equiv> [(0x81000000, [(124, False), (65392, True)])]"

lemma first_malloc:
  "\<exists>s. malloc one_region 100 empty_kmem = Some (0x81000024, s) \<and> kheap_inv one_region (\<lambda>fs. fs) s first_heap"
proof -
  let ?fs = "{0x1000..<0x1008} \<union> frame_range 0x1000000 16"
  have nf: "new_frames 100 = 16" "real_block 100 = 124" by (simp_all add: new_frames_def real_block_def)
  have fa: "frame_alloc one_region (k_fs empty_kmem) (W (new_frames (unat (100 :: u32)))) (VF_VA_AUTO OR VF_AT_KSEG0) =
      (EOK, 0x1000000, ?fs)"
    by (auto simp: one_region_def empty_kmem_def frame_range_def nf)
  have sz: "(100 :: u32) \<le> HEAP_BLOCK_SIZE_MAX" by (simp add: HEAP_BLOCK_SIZE_MAX_def)
  obtain st c where q: "query_and_disable_interrupts (k_cpu empty_kmem) = (st, c)" by fastforce
  let ?s = "empty_kmem\<lparr>k_cpu := c\<rparr>"
  have "kheap_inv one_region (\<lambda>fs. fs) ?s []" using empty_kmem_inv by (simp add: kheap_inv_def)
  then obtain m' n where M: "malloc_heap one_region 100 ?s = Some (0x81000024, ?s\<lparr>k_mem := m', k_fs := ?fs\<rparr>)"
    "kheap_inv one_region (\<lambda>fs. fs) (?s\<lparr>k_mem := m', k_fs := ?fs\<rparr>) [new_heap 0x81000000 100]"
    using malloc_heap_correct [of one_region "\<lambda>fs. fs" ?s "[]" 100 "0x1000000" ?fs] sz fa by auto
  have "malloc one_region 100 empty_kmem = Some (0x81000024, empty_kmem\<lparr>k_mem := m', k_fs := ?fs\<rparr>)"
    using malloc_miss [OF empty_kmem_inv sz _ q] M(1) interrupt_bracket [OF q] by simp
  moreover have "kheap_inv one_region (\<lambda>fs. fs) (empty_kmem\<lparr>k_mem := m', k_fs := ?fs\<rparr>) first_heap"
    using M(2) by (simp add: kheap_inv_def new_heap_def split_block_def nf)
  ultimately show ?thesis by blast
qed

text \<open>C25: \<^verbatim>\<open>malloc\<close> on well-formed heaps returns. Either the result is a block: its payload holds at
  least \<open>sz\<close> bytes, is four-byte aligned, lies in KSEG0 and overlaps no payload that was allocated
  before; the allocated payloads are the old ones and the new one; the contents of the old ones and
  of all memory outside the heaps are untouched; the heaps are well formed and the interrupt state is what
  it was (\<open>malloc_post\<close>). Or the result is \<^verbatim>\<open>NULL\<close>: then no heap has a free block that is large
  enough, the frame allocator refused to give frames for another heap, and nothing has changed.\<close>

theorem malloc_correct:
  assumes "kheap_inv F owned s hs" and "sz \<le> HEAP_BLOCK_SIZE_MAX"
  shows "(\<exists>p n hs' s'. malloc F sz s = Some (W p, s') \<and> W p \<noteq> NULL \<and> malloc_post F owned (unat sz) s hs (p, n) hs' s') \<or>
     (\<exists>rc phys fs'. malloc F sz s = Some (NULL, s\<lparr>k_fs := fs'\<rparr>) \<and> kheap_inv F owned (s\<lparr>k_fs := fs'\<rparr>) hs \<and>
        (\<forall>(h, bs) \<in> set hs. \<forall>(k, f) \<in> set bs. \<not> (f \<and> real_block (unat sz) \<le> k)) \<and>
        frame_alloc F (k_fs s) (W (new_frames (unat sz))) (VF_VA_AUTO OR VF_AT_KSEG0) = (rc, phys, fs') \<and> rc \<noteq> EOK)"
proof (cases rule: malloc_cases [OF assms, case_names fail ok])
  case (fail rc phys fs')
  then show ?thesis by (auto simp: alloc_heaps_None)
next
  case (ok p n hs' s')
  then have "W p \<noteq> NULL" by (auto simp: malloc_post_def W_eq_0_iff)
  with ok show ?thesis by blast
qed

theorem malloc_correct_witness:
  "\<exists>p n hs' s'. malloc one_region 100 empty_kmem = Some (W p, s') \<and> W p \<noteq> NULL \<and>
     malloc_post one_region (\<lambda>fs. fs) 100 empty_kmem [] (p, n) hs' s'"
proof -
  have "fst (frame_alloc one_region (k_fs empty_kmem) (W (new_frames 100)) (VF_VA_AUTO OR VF_AT_KSEG0)) = EOK"
    by (auto simp: one_region_def empty_kmem_def frame_range_def new_frames_def real_block_def)
  then show ?thesis
    using malloc_correct [OF empty_kmem_inv, of 100] by (auto simp: HEAP_BLOCK_SIZE_MAX_def)
qed

text \<open>C26: \<^verbatim>\<open>free\<close> of the address of an allocated payload returns; exactly that payload stops being
  allocated, the contents of the others and of the memory outside the heaps are untouched, the heaps are
  well formed again (free neighbours are merged, a heap that is one free block is no heap any more), the
  memory of such a heap, and no other, has gone back to the frame allocator, and the interrupt state is what
  it was (\<open>kfree_post\<close>).\<close>

theorem free_correct:
  assumes "kheap_inv F owned s hs" and "q \<in> allocated hs"
  shows "\<exists>s' hs'. kfree F (W (fst q)) s = Some s' \<and> kfree_post F owned s hs q hs' s'"
  using assms by (rule kfree_allocated)

theorem free_correct_witness:
  "\<exists>(s :: nat set kmem) s' hs'. kheap_inv one_region (\<lambda>fs. fs) s first_heap \<and> kfree one_region 0x81000024 s = Some s' \<and>
     kfree_post one_region (\<lambda>fs. fs) s first_heap (0x81000024, 100) hs' s'"
proof -
  obtain s :: "nat set kmem" where s: "kheap_inv one_region (\<lambda>fs. fs) s first_heap" using first_malloc by blast
  with free_correct [OF s, of "(0x81000024, 100)"] show ?thesis by auto
qed

text \<open>C29: Freeing a block that is free already does not get past the assertion, wherever in a heap the block stands: the kernel
  panics. A double free is caught in this way as long as the block has not been merged with another one.\<close>

theorem double_free_panics:
  assumes "kheap_inv F owned s hs" and "(h, xs @ (n, True) # ys) \<in> set hs"
  shows "kfree F (W (h + 20 + total xs + 16)) s = None"
proof -
  have R: "heap_raw (k_mem s) h (xs @ (n, True) # ys)"
    using heaps_okD(2) [OF kheap_invD(2) [OF assms(1)] assms(2)] by (simp add: heap_ok_raw)
  have hd: "W (h + 20 + total xs + 16) - sizeof_head = W (h + 20 + total xs)"
    unfolding sizeof_head_def by (subst W_diff_numeral) (simp_all add: ac_simps)
  show ?thesis
    unfolding kfree_def Let_def hd by (simp add: raw_check [OF R] split: prod.splits)
qed

theorem double_free_panics_witness:
  "\<exists>s :: nat set kmem. kheap_inv one_region (\<lambda>fs. fs) s first_heap \<and> kfree one_region 0x810000A0 s = None"
proof -
  obtain s :: "nat set kmem" where s: "kheap_inv one_region (\<lambda>fs. fs) s first_heap" using first_malloc by blast
  with double_free_panics [OF s, where h = "0x81000000" and xs = "[(124, False)]" and n = 65392 and ys = "[]"] show ?thesis by auto
qed

text \<open>C27: Freeing a block right after it was allocated takes the heaps back to what they were: the
  same heaps with the same blocks (a heap made for the request is given back), with every payload that
  was allocated before and the interrupt state unchanged.\<close>

theorem malloc_free_roundtrip:
  assumes "kheap_inv F owned s hs" and "sz \<le> HEAP_BLOCK_SIZE_MAX" and "malloc F sz s = Some (p, s1)" and "p \<noteq> NULL"
  shows "\<exists>s2. kfree F p s1 = Some s2 \<and> kheap_inv F owned s2 hs \<and> k_cpu s2 = k_cpu s \<and>
     (\<forall>q \<in> allocated hs. \<forall>x \<in> area q. k_mem s2 (W x) = k_mem s (W x))"
  using assms(3,4)
proof (cases rule: malloc_cases [OF assms(1,2), case_names fail ok])
  case (fail rc phys fs')
  with assms(3,4) show ?thesis by simp
next
  case (ok p' n hs' s')
  then have eq: "p = W p'" "s1 = s'" using assms(3) by auto
  obtain s2 j where S: "kfree F (W p') s' = Some s2" "kfree_post F owned s' hs' (p', j) hs s2"
    by (rule malloc_then_free [OF assms(1) ok(2)])
  have "k_cpu s' = k_cpu s" using ok(2) unfolding malloc_post_def by (metis kmem.select_convs(2) kmem.surjective kmem.update_convs(1,3))
  moreover have "k_cpu s2 = k_cpu s'" using S(2) unfolding kfree_post_def by (metis kmem.select_convs(2) kmem.surjective kmem.update_convs(1,3))
  moreover have "k_mem s2 (W x) = k_mem s (W x)" if "q \<in> allocated hs" "x \<in> area q" for q x
    using S(2) ok(2) that by (auto simp: kfree_post_def malloc_post_def alloc_post_def)
  ultimately show ?thesis using S eq by (auto simp: kfree_post_def)
qed


theorem malloc_free_roundtrip_witness:
  "\<exists>s1 s2. malloc one_region 100 empty_kmem = Some (0x81000024, s1) \<and> kfree one_region 0x81000024 s1 = Some s2 \<and>
     kheap_inv one_region (\<lambda>fs. fs) s2 [] \<and> k_cpu s2 = k_cpu empty_kmem"
proof -
  obtain s1 where s1: "malloc one_region 100 empty_kmem = Some (0x81000024, s1)" using first_malloc by blast
  from malloc_free_roundtrip [OF empty_kmem_inv _ s1] s1 show ?thesis by (auto simp: HEAP_BLOCK_SIZE_MAX_def)
qed

text \<open>C28: No sequence of \<^verbatim>\<open>malloc\<close> calls (of up to 256 MB each) and \<^verbatim>\<open>free\<close> calls on blocks
  the client holds makes the kernel panic or loop: it runs to the end from empty heaps, and then the
  blocks the client holds are exactly the allocated ones and do not overlap.\<close>

theorem heap_clients_run:
  assumes "kheap_inv F owned s []"
    and "\<forall>e \<in> set es. hop_small (\<lambda>n. n \<le> HEAP_BLOCK_SIZE_MAX) e"
  shows "\<exists>s' hs qs. hops_exec kh_malloc kh_free es ((F, owned, s), []) = Some ((F, owned, s'), map (\<lambda>q. W (fst q)) qs) \<and>
     kheap_inv F owned s' hs \<and> allocated hs = set qs \<and> distinct qs \<and> objects_disjoint qs"
proof -
  have "kh.holds (F, owned, s) [] []" using assms(1) by (simp add: kh.holds_def objects_disjoint_def)
  from kh.client_run [OF this assms(2)] obtain t hs qs where
    R: "hops_exec kh_malloc kh_free es ((F, owned, s), []) = Some (t, map (\<lambda>q. W (fst q)) qs)" "kh.holds t hs qs"
    by auto
  obtain s' where "t = (F, owned, s')" using hops_keep [OF R(1)] by blast
  with R show ?thesis by (auto simp: kh.holds_def)
qed

theorem heap_clients_run_witness:
  "\<exists>s' hs qs. hops_exec kh_malloc kh_free [HAlloc 100, HAlloc 7, HFree 0, HAlloc 50, HFree 1]
      ((one_region, (\<lambda>fs. fs), empty_kmem), []) = Some ((one_region, (\<lambda>fs. fs), s'), map (\<lambda>q. W (fst q)) qs) \<and>
     kheap_inv one_region (\<lambda>fs. fs) s' hs \<and> allocated hs = set qs \<and> distinct qs \<and> objects_disjoint qs"
  by (rule heap_clients_run [OF empty_kmem_inv]) (simp add: HEAP_BLOCK_SIZE_MAX_def)

end
