(* ===== verification/Support.thy ===== *)
theory Support
  imports Prelude
begin

text \<open>
  Small support code: the byte loops of \<^verbatim>\<open>kernel/lib/string.c\<close>, the single-bit operations of
  \<^verbatim>\<open>kernel/adt/bitmap.h\<close> and the unit conversions of \<^verbatim>\<open>kernel/time/time.h\<close>, all at the width of the machine.
\<close>

unbundle bit_operations_syntax

section \<open>Memory blocks\<close>

text \<open>The loops of \<^verbatim>\<open>lib/string.c\<close> over bytes: \<^verbatim>\<open>while (cnt-- != 0)\<close> runs \<open>unat cnt\<close> times.\<close>

type_synonym bytes = "u32 \<Rightarrow> u8"

primrec memcpy_loop :: "nat \<Rightarrow> bytes \<Rightarrow> u32 \<Rightarrow> u32 \<Rightarrow> bytes" where
  "memcpy_loop 0 m dp sp = m"
| "memcpy_loop (Suc n) m dp sp = memcpy_loop n (m(dp := m sp)) (dp + 1) (sp + 1)"

definition memcpy :: "bytes \<Rightarrow> u32 \<Rightarrow> u32 \<Rightarrow> u32 \<Rightarrow> u32 \<times> bytes" where
  "memcpy m dst src cnt = (dst, memcpy_loop (unat cnt) m dst src)"

primrec bzero_loop :: "nat \<Rightarrow> bytes \<Rightarrow> u32 \<Rightarrow> bytes" where
  "bzero_loop 0 m dp = m"
| "bzero_loop (Suc n) m dp = bzero_loop n (m(dp := 0)) (dp + 1)"

definition bzero :: "bytes \<Rightarrow> u32 \<Rightarrow> u32 \<Rightarrow> bytes" where
  "bzero m dst cnt = bzero_loop (unat cnt) m dst"

text \<open>The addresses of \<open>n\<close> bytes from \<open>a\<close> on, across the end of the address space.\<close>

definition block :: "u32 \<Rightarrow> nat \<Rightarrow> u32 set" where
  "block a n = (\<lambda>i. a + W i) ` {..<n}"

lemma block_Suc: "block a (Suc n) = insert a (block (a + 1) n)"
  by (simp add: block_def lessThan_Suc_eq_insert_0 image_image add.assoc)

lemma bzero_loop_eq: "bzero_loop n m dp = (\<lambda>a. if a \<in> block dp n then 0 else m a)"
proof (induction n arbitrary: m dp)
  case 0
  then show ?case by (simp add: block_def)
next
  case (Suc n)
  then show ?case by (auto simp: block_Suc)
qed

lemma memcpy_loop_frame: "a \<notin> block dp n \<Longrightarrow> memcpy_loop n m dp sp a = m a"
  by (induction n arbitrary: m dp sp) (auto simp: block_Suc)

lemma block_fresh: "n < 2 ^ 32 \<Longrightarrow> a \<notin> block (a + 1) n"
proof
  assume n: "n < 2 ^ 32" "a \<in> block (a + 1) n"
  then obtain i where i: "i < n" "a = a + 1 + W i" by (auto simp: block_def)
  then have "W (Suc i) = 0" by (simp add: add.assoc)
  moreover have "Suc i < 2 ^ 32" using i n by simp
  ultimately show False using W_eq_0_iff [of "Suc i"] by simp
qed

lemma memcpy_loop_copy:
  "n < 2 ^ 32 \<Longrightarrow> block dp n \<inter> block sp n = {} \<Longrightarrow> i < n \<Longrightarrow> memcpy_loop n m dp sp (dp + W i) = m (sp + W i)"
proof (induction n arbitrary: m dp sp i)
  case (Suc n)
  have dis: "block (dp + 1) n \<inter> block (sp + 1) n = {}" using Suc.prems(2) by (auto simp: block_Suc)
  show ?case
  proof (cases i)
    case 0
    have "dp \<notin> block (dp + 1) n" using Suc.prems(1) by (intro block_fresh) simp
    then show ?thesis using 0 by (simp add: memcpy_loop_frame)
  next
    case (Suc j)
    have "sp + W i \<in> block sp (Suc n)" using Suc.prems(3) by (auto simp: block_def)
    then have "sp + W i \<noteq> dp" using Suc.prems(2) by (auto simp: block_Suc)
    then have "(m(dp := m sp)) (sp + W i) = m (sp + W i)" by simp
    with Suc.IH [OF _ dis, of j "m(dp := m sp)"] Suc.prems Suc show ?thesis
      by (simp add: add.assoc del: fun_upd_apply)
  qed
qed simp

text \<open>\<^verbatim>\<open>bzero\<close> clears exactly the \<open>cnt\<close> bytes from \<open>dst\<close> on; \<^verbatim>\<open>memcpy\<close> between areas that do not overlap
  makes the destination a copy of the source, changes nothing else and returns the destination.\<close>

theorem memcpy_bzero_exact:
  assumes "block dst (unat cnt) \<inter> block src (unat cnt) = {}"
  shows "fst (memcpy m dst src cnt) = dst \<and>
     (\<forall>i < unat cnt. snd (memcpy m dst src cnt) (dst + W i) = m (src + W i)) \<and>
     (\<forall>a. a \<notin> block dst (unat cnt) \<longrightarrow> snd (memcpy m dst src cnt) a = m a) \<and>
     (\<forall>a. bzero m dst cnt a = (if a \<in> block dst (unat cnt) then 0 else m a))"
  using memcpy_loop_copy [OF _ assms] unsigned_less [of cnt]
  by (auto simp: memcpy_def bzero_def bzero_loop_eq memcpy_loop_frame)

theorem memcpy_bzero_exact_witness:
  "snd (memcpy (\<lambda>a. ucast a) 100 16 3) (100 + W 2) = 18"
proof -
  have "unat (3::u32) = Suc (Suc (Suc 0))" by simp
  then have "block 100 (unat (3::u32)) \<inter> block 16 (unat (3::u32)) = {}"
    by (simp only: block_Suc) (simp add: block_def)
  from memcpy_bzero_exact [OF this, of "\<lambda>a. ucast a"]
  have "\<forall>i < unat (3::u32). snd (memcpy (\<lambda>a. ucast a) 100 16 3) (100 + W i) = ucast (16 + W i)" by blast
  from this [rule_format, of 2] show ?thesis by simp
qed

section \<open>Bitmaps\<close>

record bitmap =
  elements :: u32
  bits :: "u32 \<Rightarrow> u8"

definition bitmap_mask :: "u32 \<Rightarrow> u8" where
  "bitmap_mask element = push_bit (unat (element AND 7)) 1"

definition bitmap_set :: "bitmap \<Rightarrow> u32 \<Rightarrow> u32 \<Rightarrow> bitmap" where
  "bitmap_set bm element value =
     (if element \<ge> elements bm then bm
      else let byte = element div 8; mask = bitmap_mask element
           in bm\<lparr>bits := (bits bm)(byte := if value \<noteq> 0 then bits bm byte OR mask else bits bm byte AND NOT mask)\<rparr>)"

definition bitmap_get :: "bitmap \<Rightarrow> u32 \<Rightarrow> u32" where
  "bitmap_get bm element =
     (if element \<ge> elements bm then 0
      else let byte = element div 8; mask = bitmap_mask element
           in if bits bm byte AND mask \<noteq> 0 then 1 else 0)"

lemma mask_low_bits: "unat (e AND 7 :: u32) = unat e mod 8"
proof -
  have "e AND 7 = take_bit 3 e" by (simp add: take_bit_eq_mask mask_eq_exp_minus_1)
  then show ?thesis by (simp add: take_bit_eq_mod unat_mod)
qed

lemma and_mask_bit: "(x AND bitmap_mask e \<noteq> 0) = bit x (unat e mod 8)"
proof -
  have "x AND push_bit n 1 \<noteq> 0 \<longleftrightarrow> bit x n" if "n < 8" for n
  proof -
    have "x AND push_bit n 1 = (if bit x n then push_bit n 1 else 0)"
      by (rule bit_eqI) (auto simp: bit_simps)
    moreover have "bit (push_bit n (1 :: u8)) n" using that by (simp add: bit_push_bit_iff del: push_bit_of_1)
    then have "push_bit n 1 \<noteq> (0 :: u8)" by (auto simp del: push_bit_of_1)
    ultimately show ?thesis by simp
  qed
  then show ?thesis by (simp add: bitmap_mask_def mask_low_bits)
qed


section \<open>Time\<close>

definition TIMER_PERIOD :: u32 where "TIMER_PERIOD = 1000"

definition sec_to_jiffies :: "u32 \<Rightarrow> u32" where "sec_to_jiffies sec = sec * TIMER_PERIOD"
definition usec_to_jiffies :: "u32 \<Rightarrow> u32" where "usec_to_jiffies usec = (usec * TIMER_PERIOD + 999999) div 1000000"
definition jiffies_to_sec :: "u32 \<Rightarrow> u32" where "jiffies_to_sec jiffies = (jiffies + TIMER_PERIOD - 1) div TIMER_PERIOD"
definition jiffies_to_usec :: "u32 \<Rightarrow> u32" where
  "jiffies_to_usec jiffies = (jiffies * 1000000 + TIMER_PERIOD - 1) div TIMER_PERIOD"

text \<open>Within the ranges where no product overflows, the conversions are the exact ones, rounded up:
  a sleep in seconds or microseconds never gets a timeout that is too short, and the times reported back are
  not shorter than the jiffies they come from.\<close>

theorem time_conversions:
  assumes "unat sec \<le> 4294966" and "unat usec \<le> 4293967" and "unat j \<le> 4294"
  shows "unat (sec_to_jiffies sec) = 1000 * unat sec \<and>
     unat (usec_to_jiffies usec) = (unat usec + 999) div 1000 \<and>
     unat (jiffies_to_sec j) = (unat j + 999) div 1000 \<and> unat (jiffies_to_usec j) = 1000 * unat j \<and>
     jiffies_to_sec (sec_to_jiffies sec) = sec"
proof -
  have s: "unat (sec_to_jiffies sec) = 1000 * unat sec"
    using assms(1) by (simp add: sec_to_jiffies_def TIMER_PERIOD_def unat_word_ariths)
  have u: "unat (usec_to_jiffies usec) = (unat usec * 1000 + 999999) div 1000000"
    using assms(2) by (simp add: usec_to_jiffies_def TIMER_PERIOD_def unat_div unat_word_ariths)
  have "unat usec * 1000 + 999999 = (unat usec + 999) * 1000 + 999" by simp
  then have "(unat usec * 1000 + 999999) div (1000 * 1000) = (unat usec + 999) div 1000"
    by (simp only: div_mult2_eq)
  moreover have j: "unat (jiffies_to_sec x) = (unat x + 999) div 1000" if "unat x + 999 < 2 ^ 32" for x
  proof -
    have "x + TIMER_PERIOD - 1 = x + 999" by (simp add: TIMER_PERIOD_def)
    moreover have "unat (x + 999) = unat x + 999" using that by (simp add: unat_word_ariths)
    ultimately show ?thesis unfolding jiffies_to_sec_def unat_div by (simp only:) (simp add: TIMER_PERIOD_def)
  qed
  moreover have "unat (jiffies_to_usec j) = 1000 * unat j"
  proof -
    have "j * 1000000 + TIMER_PERIOD - 1 = j * 1000000 + 999" by (simp add: TIMER_PERIOD_def)
    moreover have "unat (j * 1000000 + 999) = unat j * 1000000 + 999" using assms(3) by (simp add: unat_word_ariths)
    ultimately show ?thesis unfolding jiffies_to_usec_def unat_div by (simp only:) (simp add: TIMER_PERIOD_def)
  qed
  moreover have "unat (jiffies_to_sec (sec_to_jiffies sec)) = unat sec"
    using j [of "sec_to_jiffies sec"] s assms(1) by simp
  ultimately show ?thesis using s u assms(3) by (simp add: word_unat_eq_iff)
qed

theorem time_conversions_witness:
  "unat (sec_to_jiffies 3) = 3000 \<and> unat (usec_to_jiffies 1500) = 2 \<and> unat (jiffies_to_sec 1001) = 2"
  using time_conversions [of 3 1500 1001] by simp

text \<open>The conversion from microseconds overflows beyond 4.29 seconds: five seconds become 706
  jiffies instead of 5000, a sleep of 0.7 seconds.\<close>

theorem usec_to_jiffies_overflows:
  "unat (usec_to_jiffies 5000000) = 706 \<and> (5000000 + 999) div 1000 = (5000 :: nat)"
  by (simp add: usec_to_jiffies_def TIMER_PERIOD_def)

end
