(* ===== verification/Print.thy ===== *)
theory Print
  imports Prelude
begin

text \<open>
  The formatted output of \<^verbatim>\<open>kernel/lib/print.c\<close>. The conversion buffer is a list of bytes with the
  position of the write pointer, so the bounds checks of \<^verbatim>\<open>number\<close> are part of the model; the console is
  the string of the characters written to the printer device.
\<close>

unbundle bit_operations_syntax

section \<open>Number formatting flags\<close>

definition NF_ZEROPAD :: u32 where "NF_ZEROPAD = 1"
definition NF_SIGNED :: u32 where "NF_SIGNED = 2"
definition NF_PLUS :: u32 where "NF_PLUS = 4"
definition NF_SPACE :: u32 where "NF_SPACE = 8"
definition NF_LEFT :: u32 where "NF_LEFT = 16"
definition NF_SPECIAL :: u32 where "NF_SPECIAL = 32"
definition NF_UPCASE :: u32 where "NF_UPCASE = 64"

lemmas nf_defs = NF_ZEROPAD_def NF_SIGNED_def NF_PLUS_def NF_SPACE_def NF_LEFT_def NF_SPECIAL_def NF_UPCASE_def

section \<open>The console\<close>

text \<open>\<^verbatim>\<open>putc\<close> and \<^verbatim>\<open>puts\<close> return the number of characters printed and append to the output of the
  printer. The zero-terminated string at a buffer is what precedes the first zero byte; a buffer without
  one would be read beyond its end, which the model makes \<^term>\<open>None\<close>.\<close>

abbreviation NUL :: char where "NUL \<equiv> CHR 0x00"

definition printer_putchar :: "char \<Rightarrow> string \<Rightarrow> string" where
  "printer_putchar c out = out @ [c]"

definition putc :: "char \<Rightarrow> string \<Rightarrow> nat \<times> string" where
  "putc c out = (1, printer_putchar c out)"

fun puts :: "char list \<Rightarrow> string \<Rightarrow> (nat \<times> string) option" where
  "puts [] out = None"
| "puts (c # text) out =
     (if c = NUL then Some (0, out)
      else do { let (n, out1) = putc c out; (cnt, out2) \<leftarrow> puts text out1; Some (n + cnt, out2) })"

section \<open>Numbers\<close>

definition digits_locase :: string where "digits_locase = ''0123456789abcdef''"
definition digits_upcase :: string where "digits_upcase = ''0123456789ABCDEF''"

text \<open>\<^verbatim>\<open>if (buf <= end) *buf = c; ++buf;\<close> on the buffer and the position in it.\<close>

fun emit :: "nat \<Rightarrow> char \<Rightarrow> char list \<times> nat \<Rightarrow> char list \<times> nat" where
  "emit e c (b, p) = (if p \<le> e then b[p := c] else b, p + 1)"

text \<open>\<^verbatim>\<open>while (size-- > 0)\<close> around it: the buffer and the size after the loop.\<close>

function pad_loop :: "nat \<Rightarrow> char \<Rightarrow> int \<Rightarrow> char list \<times> nat \<Rightarrow> (char list \<times> nat) \<times> int" where
  "pad_loop e c sz st = (if sz > 0 then pad_loop e c (sz - 1) (emit e c st) else (st, sz - 1))"
  by pat_completeness auto
termination by (relation "measure (\<lambda>(e, c, sz, st). nat sz)") auto

text \<open>The \<^verbatim>\<open>do\<close> loop that stores the digits of the number, least significant digit first.\<close>

function digit_loop :: "string \<Rightarrow> u32 \<Rightarrow> u32 \<Rightarrow> string" where
  "digit_loop digits base num =
     (let c = digits ! unat (num mod base); num' = num div base
      in if num' \<noteq> 0 \<and> 1 < base then c # digit_loop digits base num' else [c])"
  by pat_completeness auto
termination
proof (relation "measure (\<lambda>(digits, base, num). unat num)", simp)
  fix digits :: string and base num x xa :: u32
  assume "xa = num div base" "xa \<noteq> 0 \<and> 1 < base"
  then have "1 < unat base" "unat num div unat base \<noteq> 0" by (auto simp: word_less_nat_alt unat_div word_unat_eq_iff)
  then have "unat num div unat base < unat num" by (intro div_less_dividend) (auto intro: gr0I)
  with \<open>xa = num div base\<close> show "((digits, base, xa), digits, base, num) \<in> measure (\<lambda>(digits, base, num). unat num)"
    by (simp add: unat_div)
qed

declare pad_loop.simps [simp del] digit_loop.simps [simp del]

text \<open>The output part of \<^verbatim>\<open>number\<close>, from the padding of the head to the trailing null: what goes into the
  buffer once the digits \<^verbatim>\<open>tmp\<close>, the sign and the remaining field width are known.\<close>

definition number_emit :: "nat \<Rightarrow> char list \<times> nat \<Rightarrow> u32 \<Rightarrow> int \<Rightarrow> char \<Rightarrow> char \<Rightarrow> int \<Rightarrow> int \<Rightarrow> string \<Rightarrow> char list \<times> nat" where
  "number_emit e st format base pad sign sz precision tmp =
     (let i = int (length tmp);
          (st, sz) = (if format AND (NF_ZEROPAD + NF_LEFT) = 0 then pad_loop e CHR '' '' sz st else (st, sz));
          st = (if sign \<noteq> NUL then emit e sign st else st);
          st = (if format AND NF_SPECIAL \<noteq> 0 then
                  if base = 8 then emit e CHR ''0'' st
                  else if base = 16 then emit e CHR ''x'' (emit e CHR ''0'' st)
                  else st
                else st);
          (st, sz) = (if format AND NF_LEFT = 0 then pad_loop e pad sz st else (st, sz));
          (st, _) = pad_loop e CHR ''0'' (precision - i) st;
          st = fold (emit e) (rev tmp) st;
          (st, sz) = pad_loop e CHR '' '' sz st
      in (if snd st \<le> e then (fst st)[snd st := NUL] else fst st, snd st))"

text \<open>\<^verbatim>\<open>number (buf, end, num, base, size, precision, format)\<close>: the buffer and the position of \<^verbatim>\<open>buf\<close>
  at the end; a bad base panics. The sign of \<^verbatim>\<open>(long) num\<close> is that of the 32-bit word, its negation
  wraps.\<close>

definition number :: "char list \<Rightarrow> nat \<Rightarrow> nat \<Rightarrow> u32 \<Rightarrow> int \<Rightarrow> int \<Rightarrow> int \<Rightarrow> u32 \<Rightarrow> (char list \<times> nat) option" where
  "number b p e num base sz precision format = do {
     kassert (\<not> (base < 2 \<or> base > 16));
     let digits = (if format AND NF_UPCASE \<noteq> 0 then digits_upcase else digits_locase);
     let format = (if format AND NF_LEFT \<noteq> 0 then format AND NOT NF_ZEROPAD else format);
     let pad = (if format AND NF_ZEROPAD \<noteq> 0 then CHR ''0'' else CHR '' '');
     let (sign, num, sz) =
       (if format AND NF_SIGNED \<noteq> 0 then
          if sint num < 0 then (CHR ''-'', - num, sz - 1)
          else if format AND NF_PLUS \<noteq> 0 then (CHR ''+'', num, sz - 1)
          else if format AND NF_SPACE \<noteq> 0 then (CHR '' '', num, sz - 1)
          else (NUL, num, sz)
        else (NUL, num, sz));
     let sz = (if format AND NF_SPECIAL \<noteq> 0 then
                 if base = 16 then sz - 2 else if base = 8 then sz - 1 else sz
               else sz);
     let tmp = digit_loop digits (word_of_int base) num;
     let precision = (if int (length tmp) > precision then int (length tmp) else precision);
     Some (number_emit e (b, p) format base pad sign (sz - precision) precision tmp)
   }"

section \<open>Formatted output\<close>

text \<open>The variable arguments: words, and pointers to zero-terminated strings (\<^term>\<open>None\<close> is \<^verbatim>\<open>NULL\<close>).
  Reading an argument that is not there, or of the other kind, is undefined behaviour: \<^term>\<open>None\<close>.\<close>

datatype va_arg = VInt u32 | VStr "string option"

fun va_int :: "va_arg list \<Rightarrow> (u32 \<times> va_arg list) option" where
  "va_int (VInt n # args) = Some (n, args)"
| "va_int _ = None"

fun va_str :: "va_arg list \<Rightarrow> (string option \<times> va_arg list) option" where
  "va_str (VStr s # args) = Some (s, args)"
| "va_str _ = None"

definition PRINT_BUF :: nat where "PRINT_BUF = 32"

text \<open>One conversion of a number: \<^verbatim>\<open>number\<close> into the buffer, then \<^verbatim>\<open>puts\<close> of the buffer.\<close>

definition print_number :: "char list \<Rightarrow> u32 \<Rightarrow> int \<Rightarrow> int \<Rightarrow> u32 \<Rightarrow> string \<Rightarrow> (char list \<times> nat \<times> string) option" where
  "print_number buf num base width flags out = do {
     (buf1, _) \<leftarrow> number buf 0 (PRINT_BUF - 1) num base width (-1) flags;
     (n, out1) \<leftarrow> puts buf1 out;
     Some (buf1, n, out1)
   }"

text \<open>The \<^verbatim>\<open>switch\<close> over the conversion character: the buffer, the remaining arguments, the number of
  characters printed and the output.\<close>

definition vprintk_conv :: "char list \<Rightarrow> char \<Rightarrow> va_arg list \<Rightarrow> string \<Rightarrow> (char list \<times> va_arg list \<times> nat \<times> string) option" where
  "vprintk_conv buf d args out =
     (if d = CHR ''%'' then (let (n, out1) = putc CHR ''%'' out in Some (buf, args, n, out1))
      else if d = CHR ''c'' then do {
        (a, args') \<leftarrow> va_int args;
        let (n, out1) = putc (char_of (unat a)) out;
        Some (buf, args', n, out1)
      }
      else if d = CHR ''s'' then do {
        (s, args') \<leftarrow> va_str args;
        (n, out1) \<leftarrow> puts ((case s of Some t \<Rightarrow> t | None \<Rightarrow> ''<NULL>'') @ [NUL]) out;
        Some (buf, args', n, out1)
      }
      else if d = CHR ''p'' then do {
        (a, args') \<leftarrow> va_int args;
        (buf1, n, out1) \<leftarrow> print_number buf a 16 (2 + 2 * 4) (NF_ZEROPAD OR NF_SPECIAL) out;
        Some (buf1, args', n, out1)
      }
      else if d = CHR ''d'' \<or> d = CHR ''i'' then do {
        (a, args') \<leftarrow> va_int args;
        (buf1, n, out1) \<leftarrow> print_number buf a 10 (-1) NF_SIGNED out;
        Some (buf1, args', n, out1)
      }
      else if d = CHR ''o'' then do {
        (a, args') \<leftarrow> va_int args;
        (buf1, n, out1) \<leftarrow> print_number buf a 8 (-1) NF_SPECIAL out;
        Some (buf1, args', n, out1)
      }
      else if d = CHR ''u'' then do {
        (a, args') \<leftarrow> va_int args;
        (buf1, n, out1) \<leftarrow> print_number buf a 10 (-1) 0 out;
        Some (buf1, args', n, out1)
      }
      else if d = CHR ''x'' then do {
        (a, args') \<leftarrow> va_int args;
        (buf1, n, out1) \<leftarrow> print_number buf a 16 (2 + 2 * 4) (NF_ZEROPAD OR NF_SPECIAL) out;
        Some (buf1, args', n, out1)
      }
      else (let (n1, out1) = putc CHR ''%'' out; (n2, out2) = putc d out1 in Some (buf, args, n1 + n2, out2)))"

text \<open>The loop over the format. A lone \<^verbatim>\<open>%\<close> at the end of the format makes the loop step over the
  terminating zero, which is undefined behaviour.\<close>

fun vprintk_loop :: "char list \<Rightarrow> string \<Rightarrow> va_arg list \<Rightarrow> nat \<Rightarrow> string \<Rightarrow> (nat \<times> string) option" where
  "vprintk_loop buf [] args printed out = Some (printed, out)"
| "vprintk_loop buf (f # format) args printed out =
     (if f \<noteq> CHR ''%'' then vprintk_loop buf format args (printed + fst (putc f out)) (snd (putc f out))
      else case format of
        [] \<Rightarrow> None
      | d # format' \<Rightarrow>
          Option.bind (vprintk_conv buf d args out)
            (\<lambda>(buf1, args', n, out1). vprintk_loop buf1 format' args' (printed + n) out1))"

text \<open>The buffer on the stack is not initialised: its contents are an argument.\<close>

definition vprintk :: "char list \<Rightarrow> string \<Rightarrow> va_arg list \<Rightarrow> string \<Rightarrow> (nat \<times> string) option" where
  "vprintk buf format args out = vprintk_loop buf format args 0 out"

definition printk :: "char list \<Rightarrow> string \<Rightarrow> va_arg list \<Rightarrow> string \<Rightarrow> (nat \<times> string) option" where
  "printk buf format args out = vprintk buf format args out"

text \<open>\<^verbatim>\<open>panic\<close>: the message goes to the console, then the simulator stops; the result is the console.\<close>

definition panic_output :: "char list \<Rightarrow> string \<Rightarrow> va_arg list \<Rightarrow> string \<Rightarrow> string option" where
  "panic_output buf format args out = map_option snd (vprintk buf format args out)"


section \<open>Facts about the loops\<close>

lemma pad_loop_eq:
  "pad_loop e c sz st = (fold (emit e) (replicate (nat sz) c) st, if sz > 0 then -1 else sz - 1)"
proof (induction e c sz st rule: pad_loop.induct)
  case (1 e c sz st)
  show ?case
  proof (cases "sz > 0")
    case True
    then have "nat sz = Suc (nat (sz - 1))" by simp
    with 1 True show ?thesis by (simp add: pad_loop.simps [of e c sz])
  qed (simp add: pad_loop.simps)
qed

lemma fold_emit_frame:
  "length (fst (fold (emit e) ts st)) = length (fst st) \<and> (\<forall>i > e. fst (fold (emit e) ts st) ! i = fst st ! i)"
  by (induction ts arbitrary: st) (auto simp: nth_list_update split: prod.splits)

lemma emit_frame: "length (fst (emit e c st)) = length (fst st) \<and> (\<forall>i > e. fst (emit e c st) ! i = fst st ! i)"
  using fold_emit_frame [of e "[c]" st] by simp

lemma fold_emit:
  "p + length ts \<le> e + 1 \<Longrightarrow> e < length b \<Longrightarrow>
   fold (emit e) ts (b, p) = (take p b @ ts @ drop (p + length ts) b, p + length ts)"
proof (induction ts arbitrary: b p)
  case Nil
  then show ?case by simp
next
  case (Cons c ts)
  have "take (Suc p) (b[p := c]) = take p b @ [c]"
    using Cons.prems by (simp add: take_Suc_conv_app_nth)
  moreover have "drop (Suc p + length ts) (b[p := c]) = drop (Suc p + length ts) b" by simp
  ultimately show ?case using Cons.IH [of "Suc p" "b[p := c]"] Cons.prems by simp
qed

text \<open>The digits: their value, their number, and that none of them is the zero byte.\<close>

definition digit_value :: "string \<Rightarrow> char \<Rightarrow> nat" where
  "digit_value digits c = length (takeWhile (\<lambda>d. d \<noteq> c) digits)"

definition parse :: "nat \<Rightarrow> string \<Rightarrow> nat" where
  "parse base t = foldl (\<lambda>a c. a * base + digit_value digits_locase c) 0 t"

lemma parse_snoc [simp]: "parse base [] = 0" "parse base [c] = digit_value digits_locase c"
  "parse base (t @ [c]) = parse base t * base + digit_value digits_locase c"
  by (simp_all add: parse_def)

lemma digits_table:
  "\<forall>n \<in> set [0..<16]. digit_value digits_locase (digits_locase ! n) = n \<and> digits_locase ! n \<notin> {NUL, CHR ''-''}"
  by code_simp

lemma digit_nth:
  assumes "n < 16"
  shows "digit_value digits_locase (digits_locase ! n) = n" "digits_locase ! n \<noteq> NUL" "digits_locase ! n \<noteq> CHR ''-''"
  using digits_table assms by auto

lemma digit_loop_step:
  assumes "1 < base"
  shows "digit_loop ds base num = ds ! unat (num mod base) #
     (if num div base = 0 then [] else digit_loop ds base (num div base))"
  using assms by (subst digit_loop.simps) (simp add: Let_def)

lemma digit_loop_props:
  assumes "1 < base" "base \<le> 16"
  shows "parse (unat base) (rev (digit_loop digits_locase base num)) = unat num"
    "NUL \<notin> set (digit_loop digits_locase base num)"
    "CHR ''-'' \<notin> set (digit_loop digits_locase base num)"
    "unat num < unat base ^ k \<Longrightarrow> 0 < k \<Longrightarrow> length (digit_loop digits_locase base num) \<le> k"
proof -
  have d: "unat (num mod base) < 16" for num
    using assms word_mod_less_divisor [of base num] by (auto simp: word_less_nat_alt word_le_nat_alt)
  have "parse (unat base) (rev (digit_loop digits_locase base num)) = unat num \<and>
      NUL \<notin> set (digit_loop digits_locase base num) \<and> CHR ''-'' \<notin> set (digit_loop digits_locase base num) \<and>
      (\<forall>k > 0. unat num < unat base ^ k \<longrightarrow> length (digit_loop digits_locase base num) \<le> k)"
  proof (induction "unat num" arbitrary: num rule: less_induct)
    case less
    note D = digit_nth [OF d [of num]]
    show ?case
    proof (cases "num div base = 0")
      case True
      then have "unat (num mod base) = unat num" using word_mod_div_equality [of num base] by simp
      with True D show ?thesis by (subst (1 2 3 4) digit_loop_step [OF assms(1)]) auto
    next
      case False
      have b: "1 < unat base" using assms(1) by (simp add: word_less_nat_alt)
      have ne: "unat num div unat base \<noteq> 0" using False by (simp add: unat_div word_unat_eq_iff)
      then have "unat (num div base) < unat num"
        using b unfolding unat_div by (intro div_less_dividend) (auto intro: gr0I)
      note IH = less [OF this]
      have len: "length (digit_loop digits_locase base (num div base)) \<le> k - 1" if "k > 0" "unat num < unat base ^ k" for k
      proof -
        obtain j where k: "k = Suc j" using \<open>k > 0\<close> by (cases k) auto
        then have "unat num div unat base < unat base ^ j"
          using that b by (simp add: div_less_iff_less_mult mult.commute)
        moreover from this ne have "0 < j" by (cases j) auto
        ultimately show ?thesis using IH k by (simp add: unat_div)
      qed
      have "unat num = unat (num div base) * unat base + unat (num mod base)"
        by (simp add: unat_div unat_mod div_mult_mod_eq)
      moreover have step: "digit_loop digits_locase base num =
          digits_locase ! unat (num mod base) # digit_loop digits_locase base (num div base)"
        using False by (subst digit_loop_step [OF assms(1)]) simp
      moreover have "length (digit_loop digits_locase base num) \<le> k" if "k > 0" "unat num < unat base ^ k" for k
        using len [OF that] that(1) unfolding step by simp
      ultimately show ?thesis using D IH by simp
    qed
  qed
  then show "parse (unat base) (rev (digit_loop digits_locase base num)) = unat num"
    "NUL \<notin> set (digit_loop digits_locase base num)" "CHR ''-'' \<notin> set (digit_loop digits_locase base num)"
    "unat num < unat base ^ k \<Longrightarrow> 0 < k \<Longrightarrow> length (digit_loop digits_locase base num) \<le> k"
    by auto
qed


section \<open>The text of a number\<close>

definition digits_text :: "u32 \<Rightarrow> u32 \<Rightarrow> string" where
  "digits_text base num = rev (digit_loop digits_locase base num)"

lemma digits_text_props:
  "parse 10 (digits_text 10 num) = unat num" "parse 8 (digits_text 8 num) = unat num" "parse 16 (digits_text 16 num) = unat num"
  "NUL \<notin> set (digits_text 10 num)" "NUL \<notin> set (digits_text 8 num)" "NUL \<notin> set (digits_text 16 num)"
  "CHR ''-'' \<notin> set (digits_text 10 num)"
  "length (digits_text 10 num) \<le> 10" "length (digits_text 8 num) \<le> 11" "length (digits_text 16 num) \<le> 8"
proof -
  have b: "unat num < unat (10::u32) ^ 10" "unat num < unat (8::u32) ^ 11" "unat num < unat (16::u32) ^ 8"
  proof -
    have "unat num < 4294967296" using unsigned_less [of num] by simp
    then show "unat num < unat (10::u32) ^ 10" "unat num < unat (8::u32) ^ 11" "unat num < unat (16::u32) ^ 8" by simp_all
  qed
  show "parse 10 (digits_text 10 num) = unat num" "parse 8 (digits_text 8 num) = unat num" "parse 16 (digits_text 16 num) = unat num"
    "NUL \<notin> set (digits_text 10 num)" "NUL \<notin> set (digits_text 8 num)" "NUL \<notin> set (digits_text 16 num)"
    "CHR ''-'' \<notin> set (digits_text 10 num)"
    using digit_loop_props(1-3) [of 10 num] digit_loop_props(1-3) [of 8 num] digit_loop_props(1-3) [of 16 num]
    by (simp_all add: digits_text_def)
  show "length (digits_text 10 num) \<le> 10" "length (digits_text 8 num) \<le> 11" "length (digits_text 16 num) \<le> 8"
    using digit_loop_props(4) [OF _ _ b(1)] digit_loop_props(4) [OF _ _ b(2)] digit_loop_props(4) [OF _ _ b(3)]
    by (simp_all add: digits_text_def)
qed

text \<open>The four ways \<^verbatim>\<open>vprintk\<close> calls \<^verbatim>\<open>number\<close>.\<close>

definition hex_text :: "u32 \<Rightarrow> string" where
  "hex_text num = ''0x'' @ replicate (8 - length (digits_text 16 num)) CHR ''0'' @ digits_text 16 num"

definition oct_text :: "u32 \<Rightarrow> string" where
  "oct_text num = CHR ''0'' # digits_text 8 num"

definition dec_text :: "u32 \<Rightarrow> string" where
  "dec_text num = (if sint num < 0 then CHR ''-'' # digits_text 10 (- num) else digits_text 10 num)"

lemma emit_text:
  assumes "length ts < e" "e < length b"
  shows "fold (emit e) ts (b, 0) = (ts @ drop (length ts) b, length ts)"
    "(ts @ drop (length ts) b)[length ts := NUL] = ts @ NUL # drop (Suc (length ts)) b"
proof -
  show "fold (emit e) ts (b, 0) = (ts @ drop (length ts) b, length ts)" using assms fold_emit [of 0 ts e b] by simp
  have "drop (length ts) b = b ! length ts # drop (Suc (length ts)) b"
    using assms by (simp add: Cons_nth_drop_Suc)
  then show "(ts @ drop (length ts) b)[length ts := NUL] = ts @ NUL # drop (Suc (length ts)) b"
    by (simp add: list_update_append)
qed

lemmas number_simps = number_def number_emit_def nf_defs pad_loop_eq digits_text_def [symmetric] Let_def
  length_rev [of "digit_loop _ _ _", symmetric]

lemma number_hex:
  assumes "length b = 32"
  shows "number b 0 31 num 16 10 (-1) (NF_ZEROPAD OR NF_SPECIAL) = Some (hex_text num @ NUL # drop 11 b, 10)"
proof -
  note L = digits_text_props(10) [of num]
  have tx: "fold (emit 31) (digits_text 16 num) (fold (emit 31) (replicate (8 - length (digits_text 16 num)) CHR ''0'')
      (emit 31 CHR ''x'' (emit 31 CHR ''0'' (b, 0)))) = fold (emit 31) (hex_text num) (b, 0)"
    by (simp add: hex_text_def del: emit.simps)
  have len: "length (hex_text num) = 10" using L by (simp add: hex_text_def)
  have n: "nat (8 - int k) = 8 - k" for k by simp
  show ?thesis
    using emit_text [of "hex_text num" 31 b] assms len L
    by (simp add: number_simps n tx del: emit.simps length_rev fold_replicate)
qed

lemma number_oct:
  assumes "length b = 32"
  shows "number b 0 31 num 8 (-1) (-1) NF_SPECIAL =
     Some (oct_text num @ NUL # drop (Suc (length (oct_text num))) b, length (oct_text num))"
proof -
  note L = digits_text_props(9) [of num]
  have tx: "fold (emit 31) (digits_text 8 num) (emit 31 CHR ''0'' (b, 0)) = fold (emit 31) (oct_text num) (b, 0)"
    by (simp add: oct_text_def del: emit.simps)
  have len: "length (oct_text num) \<le> 12" using L by (simp add: oct_text_def)
  show ?thesis
    using emit_text [of "oct_text num" 31 b] assms len L
    by (simp add: number_simps tx del: emit.simps length_rev fold_replicate)
qed

lemma number_unsigned:
  assumes "length b = 32"
  shows "number b 0 31 num 10 (-1) (-1) 0 =
     Some (digits_text 10 num @ NUL # drop (Suc (length (digits_text 10 num))) b, length (digits_text 10 num))"
  using emit_text [of "digits_text 10 num" 31 b] assms digits_text_props(8) [of num]
  by (simp add: number_simps del: emit.simps length_rev fold_replicate)

lemma number_signed:
  assumes "length b = 32"
  shows "number b 0 31 num 10 (-1) (-1) NF_SIGNED =
     Some (dec_text num @ NUL # drop (Suc (length (dec_text num))) b, length (dec_text num))"
proof (cases "sint num < 0")
  case False
  then show ?thesis
    using emit_text [of "digits_text 10 num" 31 b] assms digits_text_props(8) [of num]
    by (simp add: number_simps dec_text_def del: emit.simps length_rev fold_replicate)
next
  case True
  have tx: "fold (emit 31) (digits_text 10 (- num)) (emit 31 CHR ''-'' (b, 0)) = fold (emit 31) (dec_text num) (b, 0)"
    using True by (simp add: dec_text_def del: emit.simps)
  have len: "length (dec_text num) \<le> 11" using True digits_text_props(8) [of "- num"] by (simp add: dec_text_def)
  then show ?thesis
    using emit_text [of "dec_text num" 31 b] assms True digits_text_props(8) [of "- num"]
    by (simp add: number_simps tx del: emit.simps length_rev fold_replicate)
qed

lemma puts_text: "NUL \<notin> set t \<Longrightarrow> puts (t @ NUL # r) out = Some (length t, out @ t)"
  by (induction t arbitrary: out) (auto simp: putc_def printer_putchar_def)

lemma texts_no_NUL: "NUL \<notin> set (hex_text n)" "NUL \<notin> set (oct_text n)" "NUL \<notin> set (dec_text n)"
  using digits_text_props(4-6) by (auto simp: hex_text_def oct_text_def dec_text_def)

section \<open>Formatted output\<close>

text \<open>What \<^verbatim>\<open>printk\<close> promises to print.\<close>

definition conv_text :: "char \<Rightarrow> va_arg list \<Rightarrow> (string \<times> va_arg list) option" where
  "conv_text d args =
     (if d = CHR ''%'' then Some (''%'', args)
      else if d = CHR ''c'' then map_option (\<lambda>(a, args'). ([char_of (unat a)], args')) (va_int args)
      else if d = CHR ''s'' then map_option (\<lambda>(s, args'). ((case s of Some t \<Rightarrow> takeWhile (\<lambda>c. c \<noteq> NUL) t | None \<Rightarrow> ''<NULL>''), args')) (va_str args)
      else if d \<in> {CHR ''p'', CHR ''x''} then map_option (\<lambda>(a, args'). (hex_text a, args')) (va_int args)
      else if d \<in> {CHR ''d'', CHR ''i''} then map_option (\<lambda>(a, args'). (dec_text a, args')) (va_int args)
      else if d = CHR ''o'' then map_option (\<lambda>(a, args'). (oct_text a, args')) (va_int args)
      else if d = CHR ''u'' then map_option (\<lambda>(a, args'). (digits_text 10 a, args')) (va_int args)
      else Some ([CHR ''%'', d], args))"

fun format_text :: "string \<Rightarrow> va_arg list \<Rightarrow> string option" where
  "format_text [] args = Some []"
| "format_text (f # fmt) args =
     (if f \<noteq> CHR ''%'' then map_option ((#) f) (format_text fmt args)
      else case fmt of
        [] \<Rightarrow> None
      | d # fmt' \<Rightarrow> Option.bind (conv_text d args) (\<lambda>(t, args'). map_option ((@) t) (format_text fmt' args')))"

lemma puts_takeWhile: "puts (t @ [NUL]) out = Some (length (takeWhile (\<lambda>c. c \<noteq> NUL) t), out @ takeWhile (\<lambda>c. c \<noteq> NUL) t)"
  by (induction t arbitrary: out) (auto simp: putc_def printer_putchar_def)

lemma print_number_texts:
  assumes "length b = 32"
  shows "\<exists>b'. length b' = 32 \<and> print_number b num 16 (2 + 2 * 4) (NF_ZEROPAD OR NF_SPECIAL) out =
      Some (b', length (hex_text num), out @ hex_text num)"
    "\<exists>b'. length b' = 32 \<and> print_number b num 8 (-1) NF_SPECIAL out = Some (b', length (oct_text num), out @ oct_text num)"
    "\<exists>b'. length b' = 32 \<and> print_number b num 10 (-1) NF_SIGNED out = Some (b', length (dec_text num), out @ dec_text num)"
    "\<exists>b'. length b' = 32 \<and> print_number b num 10 (-1) 0 out = Some (b', length (digits_text 10 num), out @ digits_text 10 num)"
proof -
  have l: "length (hex_text num) = 10" "length (oct_text num) \<le> 12" "length (dec_text num) \<le> 11" "length (digits_text 10 num) \<le> 10"
    using digits_text_props(8-10) [of num] digits_text_props(8) [of "- num"] by (simp_all add: hex_text_def oct_text_def dec_text_def)
  show "\<exists>b'. length b' = 32 \<and> print_number b num 16 (2 + 2 * 4) (NF_ZEROPAD OR NF_SPECIAL) out =
      Some (b', length (hex_text num), out @ hex_text num)"
    "\<exists>b'. length b' = 32 \<and> print_number b num 8 (-1) NF_SPECIAL out = Some (b', length (oct_text num), out @ oct_text num)"
    "\<exists>b'. length b' = 32 \<and> print_number b num 10 (-1) NF_SIGNED out = Some (b', length (dec_text num), out @ dec_text num)"
    "\<exists>b'. length b' = 32 \<and> print_number b num 10 (-1) 0 out = Some (b', length (digits_text 10 num), out @ digits_text 10 num)"
    using number_hex [OF assms, of num] number_oct [OF assms, of num] number_signed [OF assms, of num]
      number_unsigned [OF assms, of num] assms l puts_text texts_no_NUL [of num] digits_text_props(4) [of num]
    by (simp_all add: print_number_def PRINT_BUF_def)
qed


lemma vprintk_conv_correct:
  assumes "length buf = 32" "conv_text d args = Some (t, args')"
  shows "\<exists>b'. length b' = 32 \<and> vprintk_conv buf d args out = Some (b', args', length t, out @ t)"
proof -
  note T = print_number_texts [OF assms(1)]
  consider "d = CHR ''%''" | "d = CHR ''c''" | "d = CHR ''s''" | "d = CHR ''p''" | "d = CHR ''x''" | "d = CHR ''d''" | "d = CHR ''i''"
    | "d = CHR ''o''" | "d = CHR ''u''"
    | "d \<notin> {CHR ''%'', CHR ''c'', CHR ''s'', CHR ''p'', CHR ''x'', CHR ''d'', CHR ''i'', CHR ''o'', CHR ''u''}" by blast
  then show ?thesis
  proof cases
    case 3
    then obtain s where s: "va_str args = Some (s, args')"
      "t = (case s of Some t \<Rightarrow> takeWhile (\<lambda>c. c \<noteq> NUL) t | None \<Rightarrow> ''<NULL>'')"
      using assms(2) by (auto simp: conv_text_def)
    with 3 assms(1) puts_takeWhile [of "case s of Some t \<Rightarrow> t | None \<Rightarrow> ''<NULL>''" out] show ?thesis
      by (cases s) (auto simp: vprintk_conv_def)
  next
    case 4
    then obtain a where "va_int args = Some (a, args')" "t = hex_text a" using assms(2) by (auto simp: conv_text_def)
    with 4 T(1) [of a out] show ?thesis by (auto simp: vprintk_conv_def)
  next
    case 5
    then obtain a where "va_int args = Some (a, args')" "t = hex_text a" using assms(2) by (auto simp: conv_text_def)
    with 5 T(1) [of a out] show ?thesis by (auto simp: vprintk_conv_def)
  next
    case 6
    then obtain a where "va_int args = Some (a, args')" "t = dec_text a" using assms(2) by (auto simp: conv_text_def)
    with 6 T(3) [of a out] show ?thesis by (auto simp: vprintk_conv_def)
  next
    case 7
    then obtain a where "va_int args = Some (a, args')" "t = dec_text a" using assms(2) by (auto simp: conv_text_def)
    with 7 T(3) [of a out] show ?thesis by (auto simp: vprintk_conv_def)
  next
    case 8
    then obtain a where "va_int args = Some (a, args')" "t = oct_text a" using assms(2) by (auto simp: conv_text_def)
    with 8 T(2) [of a out] show ?thesis by (auto simp: vprintk_conv_def)
  next
    case 9
    then obtain a where "va_int args = Some (a, args')" "t = digits_text 10 a" using assms(2) by (auto simp: conv_text_def)
    with 9 T(4) [of a out] show ?thesis by (auto simp: vprintk_conv_def)
  qed (use assms in \<open>auto simp: conv_text_def vprintk_conv_def putc_def printer_putchar_def\<close>)
qed

lemma vprintk_loop_correct:
  assumes "length buf = 32" "format_text fmt args = Some t"
  shows "vprintk_loop buf fmt args n out = Some (n + length t, out @ t)"
  using assms
proof (induction fmt args arbitrary: buf n out t rule: format_text.induct)
  case (1 args)
  then show ?case by simp
next
  case (2 f fmt args)
  show ?case
  proof (cases "f = CHR ''%''")
    case False
    with "2.prems" "2.IH"(1) show ?thesis by (auto simp: putc_def printer_putchar_def)
  next
    case True
    with "2.prems"(2) obtain d fmt' t1 args' t2 where D: "fmt = d # fmt'" "conv_text d args = Some (t1, args')"
      "format_text fmt' args' = Some t2" "t = t1 @ t2"
      by (auto split: list.splits elim!: bind_eq_SomeE)
    obtain b' where b': "length b' = 32" "vprintk_conv buf d args out = Some (b', args', length t1, out @ t1)"
      using vprintk_conv_correct [OF "2.prems"(1) D(2)] by blast
    have "vprintk_loop b' fmt' args' (n + length t1) (out @ t1) = Some (n + length t1 + length t2, (out @ t1) @ t2)"
      using "2.IH"(2) [of d fmt' "(t1, args')" t1 args' b' t2] True D b'(1) by simp
    with True D b' show ?thesis by simp
  qed
qed

lemma parse_zeros: "parse base (replicate k CHR ''0'' @ t) = parse base t"
proof -
  have z: "digit_value digits_locase CHR ''0'' = 0" by (simp add: digit_value_def digits_locase_def)
  have "foldl (\<lambda>a c. a * base + digit_value digits_locase c) 0 (replicate k CHR ''0'') = 0"
    by (induction k) (simp_all add: z)
  then show ?thesis by (simp add: parse_def)
qed

lemma digits_text_ne: "digits_text base num \<noteq> []"
  by (subst digits_text_def, subst digit_loop.simps) (simp add: Let_def)

lemma sint_parts: "sint n = (if sint n < 0 then - int (unat (- n)) else int (unat n))" for n :: u32
proof -
  have s: "sint n = uint n - 2 ^ 32 * of_bool (bit (uint n) 31)"
    using uint_idem [of n] by (simp add: sint_uint signed_take_bit_eq_take_bit_minus take_bit_eq_mod)
  have u: "0 \<le> uint n" "uint n < 2 ^ 32" using uint_bounded [of n] by simp_all
  show ?thesis
  proof (cases "bit (uint n) 31")
    case False
    with s u show ?thesis by simp
  next
    case True
    then have neg: "sint n = uint n - 2 ^ 32" "sint n < 0" using s u by simp_all
    have pos: "uint n \<noteq> 0" using True by auto
    have "uint (- n) = (- uint n) mod 2 ^ 32" by (simp add: uint_word_ariths)
    also have "\<dots> = 2 ^ 32 - uint n" using u pos by (simp add: zmod_zminus1_eq_if)
    finally have "uint (- n) = 2 ^ 32 - uint n" .
    then show ?thesis using neg by simp
  qed
qed

definition keeps :: "nat \<Rightarrow> char list \<times> nat \<Rightarrow> char list \<times> nat \<Rightarrow> bool" where
  "keeps e st st' \<longleftrightarrow> length (fst st') = length (fst st) \<and> (\<forall>i > e. fst st' ! i = fst st ! i)"

lemma keeps_rules:
  "keeps e st st" "keeps e st x \<Longrightarrow> keeps e st (emit e c x)" "keeps e st x \<Longrightarrow> keeps e st (fold (emit e) ts x)"
  "keeps e st x \<Longrightarrow> keeps e st (fst (pad_loop e c sz x))"
  "keeps e st x \<Longrightarrow> keeps e st y \<Longrightarrow> keeps e st (if g then x else y)" "keeps e st x \<Longrightarrow> keeps e st (fst (x, k))"
  "keeps e st (fst p) \<Longrightarrow> keeps e st (fst q) \<Longrightarrow> keeps e st (fst (if g then p else q))"
  using emit_frame [of e c x] fold_emit_frame [of e _ x] by (auto simp: keeps_def pad_loop_eq simp del: fold_replicate)

lemma number_emit_keeps: "keeps e st (number_emit e st format base pad sign sz precision tmp)"
proof -
  have final: "keeps e st (if snd x \<le> e then (fst x)[snd x := NUL] else fst x, snd x)" if "keeps e st x" for x
    using that by (auto simp: keeps_def)
  show ?thesis
    unfolding number_emit_def Let_def case_prod_unfold by (intro final keeps_rules)
qed

lemma digit_loop_length: "1 < base \<Longrightarrow> length (digit_loop ds base num) = length (digit_loop digits_locase base num)"
proof (induction ds base num rule: digit_loop.induct)
  case (1 ds base num)
  then show ?case by (subst (1 2) digit_loop.simps) (simp add: Let_def)
qed

text \<open>C36: \<^verbatim>\<open>printk\<close> prints what its format says: for a format whose conversions have their arguments,
  it returns (also on a buffer with arbitrary initial contents: the text of a number and its terminating
  zero always fit), the console gets the literal characters and the texts of the conversions in order, and
  the result is the number of characters printed.\<close>

theorem printk_prints_format:
  assumes "length buf = PRINT_BUF" and "format_text format args = Some t"
  shows "printk buf format args out = Some (length t, out @ t)"
  using vprintk_loop_correct [of buf format args t 0 out] assms by (simp add: printk_def vprintk_def PRINT_BUF_def)

theorem printk_prints_format_witness:
  "printk (replicate 32 CHR ''?'') ''%d %x %s%%'' [VInt (- 7), VInt 255, VStr (Some ''ok'')] [] = Some (17, ''-7 0x000000ff ok%'')"
proof -
  have "format_text ''%d %x %s%%'' [VInt (- 7), VInt 255, VStr (Some ''ok'')] = Some ''-7 0x000000ff ok%''"
    by code_simp
  from printk_prints_format [OF _ this, of "replicate 32 CHR ''?''" "[]"] show ?thesis by (simp add: PRINT_BUF_def)
qed

text \<open>The texts of numbers determine the numbers: \<^verbatim>\<open>%u\<close>, \<^verbatim>\<open>%x\<close> and \<^verbatim>\<open>%o\<close> read back in their base give the
  unsigned value, \<^verbatim>\<open>%d\<close> with its sign the signed value (the smallest integer included), and the text of \<^verbatim>\<open>%x\<close> is
  always two plus eight characters long.\<close>

theorem number_texts_roundtrip:
  "parse 10 (digits_text 10 n) = unat n \<and> parse 16 (drop 2 (hex_text n)) = unat n \<and> parse 8 (oct_text n) = unat n \<and>
   length (hex_text n) = 10 \<and> take 2 (hex_text n) = ''0x'' \<and>
   sint n = (if hd (dec_text n) = CHR ''-'' then - int (parse 10 (tl (dec_text n))) else int (parse 10 (dec_text n)))"
proof -
  have hd: "hd (digits_text 10 m) \<noteq> CHR ''-''" for m
    using digits_text_props(7) [of m] digits_text_ne [of 10 m] by (metis hd_in_set)
  have "sint n = (if hd (dec_text n) = CHR ''-'' then - int (parse 10 (tl (dec_text n))) else int (parse 10 (dec_text n)))"
    using sint_parts [of n] hd [of n] digits_text_props(1) by (auto simp: dec_text_def)
  moreover have "parse 8 (oct_text n) = unat n"
    using parse_zeros [of 8 1 "digits_text 8 n"] digits_text_props(2) by (simp add: oct_text_def)
  moreover have "length (hex_text n) = 10" using digits_text_props(10) [of n] by (simp add: hex_text_def)
  ultimately show ?thesis
    using digits_text_props(1,3) [of n] parse_zeros by (simp add: hex_text_def)
qed

text \<open>C37: \<^verbatim>\<open>number\<close> never writes outside its buffers: for every number, field width, precision and set
  of flags, bytes beyond \<^verbatim>\<open>end\<close> keep their values, and the digits of a number in a base from 2 to 16 fit
  into the 32 bytes of \<^verbatim>\<open>tmp\<close>.\<close>

theorem number_stays_in_buffer:
  assumes "number b p e num base sz precision format = Some (b', p')"
  shows "length b' = length b \<and> (\<forall>i. e < i \<longrightarrow> b' ! i = b ! i) \<and> length (digit_loop ds (word_of_int base) num) \<le> 32"
proof -
  have base: "2 \<le> base" "base \<le> 16" using assms by (auto simp: number_def elim!: bind_eq_SomeE)
  obtain fm pad sign sz' pr tmp where "(b', p') = number_emit e (b, p) fm base pad sign sz' pr tmp"
    using assms unfolding number_def Let_def case_prod_unfold
    by (elim bind_eq_SomeE) (unfold option.inject, drule sym, erule that)
  then have "length b' = length b \<and> (\<forall>i. e < i \<longrightarrow> b' ! i = b ! i)"
    using number_emit_keeps [of e "(b, p)" fm base pad sign sz' pr tmp] by (metis fst_conv keeps_def)
  moreover have "length (digit_loop ds (word_of_int base) num) \<le> 32"
  proof -
    let ?b = "word_of_int base :: u32"
    obtain k where k: "base = int k" using base(1) by (metis nat_0_le order_trans zero_le_numeral)
    have "unat ?b = k" using k base by (simp add: unat_W)
    then have b: "1 < ?b" "?b \<le> 16" "2 \<le> unat ?b" using k base by (simp_all add: word_less_nat_alt word_le_nat_alt)
    have "unat num < 2 ^ 32" using unsigned_less [of num] by simp
    also have "\<dots> \<le> unat ?b ^ 32" using b(3) by (rule power_mono) simp
    finally show ?thesis using digit_loop_length [OF b(1), of ds num] digit_loop_props(4) [OF b(1,2), of num 32] by simp
  qed
  ultimately show ?thesis by blast
qed


theorem number_stays_in_buffer_witness:
  "\<exists>b' p'. number (replicate 40 CHR ''?'') 0 31 255 2 60 50 NF_ZEROPAD = Some (b', p') \<and> length b' = 40 \<and> b' ! 35 = CHR ''?''"
proof -
  obtain b' p' where n: "number (replicate 40 CHR ''?'') 0 31 255 2 60 50 NF_ZEROPAD = Some (b', p')"
    by (simp add: number_def Let_def nf_defs) (metis surj_pair)
  from number_stays_in_buffer [OF n] n show ?thesis by simp
qed

end
