(* ===== verification/Kernel.thy ===== *)
theory Kernel
  imports Malloc_Free Support Print
begin

text \<open>
  The state of the kernel (\<^verbatim>\<open>thread.h\<close>, \<^verbatim>\<open>timer.h\<close>, \<^verbatim>\<open>vmm.h\<close> and the static variables of the components), the
  context switch of \<^verbatim>\<open>head.S\<close>, the scheduler \<^verbatim>\<open>sched.c\<close> and the operations of \<^verbatim>\<open>thread.c\<close> that only change
  thread states and queues. List links are cells of the memory, so the run queue is operated on by the
  code of \<^verbatim>\<open>list.h\<close>; the other members of the structures are records, by address.

  A call that switches to another thread is modelled up to the switch: the resulting state is the one in
  which the other thread runs. What the caller does after it has been switched to again is a definition of
  its own where it changes the state.
\<close>

unbundle bit_operations_syntax

section \<open>Structures\<close>

definition PAGE_WIDTH :: nat where "PAGE_WIDTH = FRAME_WIDTH"
definition PAGE_SIZE :: u32 where "PAGE_SIZE = FRAME_SIZE"
definition VMAS :: nat where "VMAS = 100"
definition MAX_CPU :: nat where "MAX_CPU = 32"
definition ABI_STACK_FRAME :: u32 where "ABI_STACK_FRAME = 32"
definition THREAD_STACK_SIZE :: u32 where "THREAD_STACK_SIZE = 4096"
definition THREAD_QUANTUM :: u32 where "THREAD_QUANTUM = 4000"
definition TF_NONE :: u32 where "TF_NONE = 0"
definition TF_NEW_VMM :: u32 where "TF_NEW_VMM = push_bit 0 1"

text \<open>\<^verbatim>\<open>struct vma\<close> and \<^verbatim>\<open>struct vmm\<close>.\<close>

record vma =
  vpn_base :: u32
  pfn_base :: u32
  vma_count :: u32
  vma_valid :: bool

record vmm =
  asid :: u8
  vmas :: "vma list"

datatype thread_state = THREAD_READY | THREAD_RUNNING | THREAD_SLEEPING | THREAD_ZOMBIE

text \<open>\<^verbatim>\<open>struct timer\<close> and \<^verbatim>\<open>struct thread\<close> without their links: those are cells of the memory, at offset 0 of
  either structure. The timer embedded in a thread is at offset 44, the wait queue link at offset 72.\<close>

record timer =
  tm_timeout :: u32
  tm_expires :: u32
  tm_running :: bool
  tm_handler :: u32
  tm_data :: u32

record thread =
  stack_size :: u32
  stack_data :: u32
  entry_func :: u32
  entry_data :: u32
  retval :: u32
  stack_top :: u32
  t_state :: thread_state
  scheduled :: u32
  joiner :: u32
  t_vmm :: u32
  t_process :: u32
  t_uthread :: u32

definition sizeof_thread :: u32 where "sizeof_thread = 92"
definition sizeof_vmm :: u32 where "sizeof_vmm = 1604"

definition thread_timer :: "u32 \<Rightarrow> u32" where "thread_timer t = t + 44"
definition wait_queue_link :: "u32 \<Rightarrow> u32" where "wait_queue_link t = t + 72"

text \<open>One entry of the TLB: the registers it was written from.\<close>

record tlb_entry =
  te_hi :: u32
  te_lo0 :: u32
  te_lo1 :: u32
  te_mask :: u32

text \<open>
  The state of the kernel on one processor: the memory management state, the structures of threads,
  timers and address spaces by their addresses, the saved contexts by the address of the stack
  frame, the registers, the TLB, the console, and the static variables. \<^verbatim>\<open>runnable_list\<close> and
  \<^verbatim>\<open>timers_list\<close> hold the addresses of the list heads.
\<close>

record 'fs kernel = "'fs kmem" +
  thr :: "u32 \<Rightarrow> thread"
  tmr :: "u32 \<Rightarrow> timer"
  vmms :: "u32 \<Rightarrow> vmm"
  k_ctx :: "u32 \<Rightarrow> ctx"
  k_regs :: ctx
  k_tlb :: "nat \<Rightarrow> tlb_entry"
  k_cpuid :: u32
  current_thread :: "u32 \<Rightarrow> u32"
  runnable_list :: "u32 \<Rightarrow> u32"
  timers_list :: u32
  timer_thread :: u32
  jiffies :: u32
  last_asid :: u8
  console :: string

text \<open>\<^verbatim>\<open>current_thread[cpuid ()]\<close> and the runnable list of this processor.\<close>

abbreviation cur :: "('fs, 'z) kernel_scheme \<Rightarrow> u32" where
  "cur s \<equiv> current_thread s (k_cpuid s)"

abbreviation rq :: "('fs, 'z) kernel_scheme \<Rightarrow> u32" where
  "rq s \<equiv> runnable_list s (k_cpuid s)"

text \<open>Assignment to a member of a thread or timer structure.\<close>

definition upd_thread :: "u32 \<Rightarrow> (thread \<Rightarrow> thread) \<Rightarrow> ('fs, 'z) kernel_scheme \<Rightarrow> ('fs, 'z) kernel_scheme" where
  "upd_thread t f s = s\<lparr>thr := (thr s)(t := f (thr s t))\<rparr>"

definition upd_timer :: "u32 \<Rightarrow> (timer \<Rightarrow> timer) \<Rightarrow> ('fs, 'z) kernel_scheme \<Rightarrow> ('fs, 'z) kernel_scheme" where
  "upd_timer t f s = s\<lparr>tmr := (tmr s)(t := f (tmr s t))\<rparr>"

text \<open>The interrupt brackets on the kernel state.\<close>

definition irq_off :: "('fs, 'z) kernel_scheme \<Rightarrow> u32 \<times> ('fs, 'z) kernel_scheme" where
  "irq_off s = (let (state, c) = query_and_disable_interrupts (k_cpu s) in (state, s\<lparr>k_cpu := c\<rparr>))"

definition irq_restore :: "u32 \<Rightarrow> ('fs, 'z) kernel_scheme \<Rightarrow> ('fs, 'z) kernel_scheme" where
  "irq_restore state s = s\<lparr>k_cpu := conditionally_enable_interrupts state (k_cpu s)\<rparr>"

section \<open>Context switching\<close>

text \<open>\<^verbatim>\<open>SAVE_REGISTERS\<close> and \<^verbatim>\<open>LOAD_REGISTERS\<close>: everything but the kernel scratch registers, the stack
  pointer, LO and HI.\<close>

definition SAVE_REGISTERS :: "ctx \<Rightarrow> ctx \<Rightarrow> ctx" where
  "SAVE_REGISTERS r c = c\<lparr>
     c_zero := c_zero r, c_at := c_at r, c_v0 := c_v0 r, c_v1 := c_v1 r,
     c_a0 := c_a0 r, c_a1 := c_a1 r, c_a2 := c_a2 r, c_a3 := c_a3 r,
     c_t0 := c_t0 r, c_t1 := c_t1 r, c_t2 := c_t2 r, c_t3 := c_t3 r, c_t4 := c_t4 r, c_t5 := c_t5 r,
     c_t6 := c_t6 r, c_t7 := c_t7 r, c_t8 := c_t8 r, c_t9 := c_t9 r,
     c_s0 := c_s0 r, c_s1 := c_s1 r, c_s2 := c_s2 r, c_s3 := c_s3 r, c_s4 := c_s4 r, c_s5 := c_s5 r,
     c_s6 := c_s6 r, c_s7 := c_s7 r,
     c_gp := c_gp r, c_fp := c_fp r, c_ra := c_ra r\<rparr>"

definition LOAD_REGISTERS :: "ctx \<Rightarrow> ctx \<Rightarrow> ctx" where
  "LOAD_REGISTERS c r = r\<lparr>
     c_ra := c_ra c, c_fp := c_fp c, c_gp := c_gp c,
     c_s7 := c_s7 c, c_s6 := c_s6 c, c_s5 := c_s5 c, c_s4 := c_s4 c, c_s3 := c_s3 c, c_s2 := c_s2 c,
     c_s1 := c_s1 c, c_s0 := c_s0 c,
     c_t9 := c_t9 c, c_t8 := c_t8 c, c_t7 := c_t7 c, c_t6 := c_t6 c, c_t5 := c_t5 c, c_t4 := c_t4 c,
     c_t3 := c_t3 c, c_t2 := c_t2 c, c_t1 := c_t1 c, c_t0 := c_t0 c,
     c_a3 := c_a3 c, c_a2 := c_a2 c, c_a1 := c_a1 c, c_a0 := c_a0 c,
     c_v1 := c_v1 c, c_v0 := c_v0 c, c_at := c_at c\<rparr>"

text \<open>\<^verbatim>\<open>cpu_switch_context (&old->stack_top, &new->stack_top, asid)\<close> of \<^verbatim>\<open>head.S\<close>. The old thread is \<^verbatim>\<open>NULL\<close>
  at the first switch, when the address of the old stack goes to a dummy. The scratch registers
  \<^verbatim>\<open>$t0\<close>, \<^verbatim>\<open>$t1\<close> are reloaded before the end, \<^verbatim>\<open>$k0\<close> holds the new Status.\<close>

definition cpu_switch_context :: "u32 \<Rightarrow> u32 \<Rightarrow> u8 \<Rightarrow> ('fs, 'z) kernel_scheme \<Rightarrow> ('fs, 'z) kernel_scheme" where
  "cpu_switch_context old new as s =
     (let sp = c_sp (k_regs s) - CONTEXT_SIZE;
          s1 = (if old \<noteq> NULL then upd_thread old (\<lambda>t. t\<lparr>stack_top := sp\<rparr>) s else s);
          saved = (SAVE_REGISTERS (k_regs s) (k_ctx s sp))
                    \<lparr>c_lo := c_lo (k_regs s), c_hi := c_hi (k_regs s), c_status := read_cp0_status (k_cpu s)\<rparr>;
          s2 = s1\<lparr>k_ctx := (k_ctx s1)(sp := saved)\<rparr>;
          s3 = s2\<lparr>k_cpu := write_cp0_status (read_cp0_status (k_cpu s2) AND NOT CP0_STATUS_IE_MASK) (k_cpu s2)\<rparr>;
          s4 = s3\<lparr>k_cpu := write_cp0_entryhi
                    ((read_cp0_entryhi (k_cpu s3) AND NOT (fst (CP0_ENTRYHI ENTRYHI_ASID))) OR ucast as) (k_cpu s3)\<rparr>;
          sp' = stack_top (thr s4 new);
          c = k_ctx s4 sp';
          regs = (LOAD_REGISTERS c (k_regs s4))\<lparr>c_lo := c_lo c, c_hi := c_hi c, c_k0 := c_status c, c_sp := sp' + CONTEXT_SIZE\<rparr>
      in s4\<lparr>k_regs := regs, k_cpu := write_cp0_status (c_status c) (k_cpu s4)\<rparr>)"

text \<open>\<^verbatim>\<open>thread_switch\<close>, up to the moment the new thread runs; the rest of it runs when the old thread is
  switched to again.\<close>

definition thread_switch :: "u32 \<Rightarrow> ('fs, 'z) kernel_scheme \<Rightarrow> ('fs, 'z) kernel_scheme" where
  "thread_switch thread s =
     (let (state, s0) = irq_off s;
          current = cur s0;
          s1 = (if current \<noteq> NULL \<and> t_state (thr s0 current) = THREAD_RUNNING
                then upd_thread current (\<lambda>t. t\<lparr>t_state := THREAD_READY\<rparr>) s0 else s0);
          s2 = s1\<lparr>current_thread := (current_thread s1)(k_cpuid s1 := thread)\<rparr>;
          s3 = upd_thread thread (\<lambda>t. t\<lparr>t_state := THREAD_RUNNING\<rparr>) s2
      in cpu_switch_context current thread (asid (vmms s3 (t_vmm (thr s3 thread)))) s3)"

definition thread_switch_return :: "u32 \<Rightarrow> ('fs, 'z) kernel_scheme \<Rightarrow> ('fs, 'z) kernel_scheme" where
  "thread_switch_return state s = irq_restore state s"

section \<open>The scheduler\<close>

definition timer_setup :: "u32 \<Rightarrow> cp0 \<Rightarrow> cp0" where
  "timer_setup quantum c = write_cp0_compare (read_cp0_count c + quantum) c"

definition timer_get :: "cp0 \<Rightarrow> u32" where
  "timer_get c = read_cp0_count c"

definition scheduler_init :: "('fs, 'z) kernel_scheme \<Rightarrow> ('fs, 'z) kernel_scheme option" where
  "scheduler_init s = do {
     m \<leftarrow> list_init (k_mem s) (rq s);
     Some (s\<lparr>k_mem := m, k_cpu := timer_setup THREAD_QUANTUM (k_cpu s)\<rparr>)
   }"

definition sched_insert :: "u32 \<Rightarrow> ('fs, 'z) kernel_scheme \<Rightarrow> ('fs, 'z) kernel_scheme option" where
  "sched_insert thread s = do {
     let (state, s1) = irq_off s;
     m \<leftarrow> list_append (k_mem s1) (rq s1) thread;
     Some (irq_restore state (s1\<lparr>k_mem := m\<rparr>))
   }"

definition sched_remove :: "u32 \<Rightarrow> ('fs, 'z) kernel_scheme \<Rightarrow> ('fs, 'z) kernel_scheme option" where
  "sched_remove thread s = do {
     let (state, s1) = irq_off s;
     m \<leftarrow> list_remove (k_mem s1) thread;
     Some (irq_restore state (s1\<lparr>k_mem := m\<rparr>))
   }"

text \<open>\<^verbatim>\<open>schedule\<close>: whether another thread runs now (then the rest of \<^verbatim>\<open>schedule\<close>, which restores the
  interrupt state, is still to be executed by the old thread), and the state.\<close>

definition schedule :: "('fs, 'z) kernel_scheme \<Rightarrow> (bool \<times> ('fs, 'z) kernel_scheme) option" where
  "schedule s = do {
     let (state, s1) = irq_off s;
     (link, m) \<leftarrow> list_rotate (k_mem s1) (rq s1);
     let s2 = s1\<lparr>k_mem := m\<rparr>;
     if link \<noteq> NULL then do {
       let s3 = upd_thread link (\<lambda>t. t\<lparr>scheduled := timer_get (k_cpu s2)\<rparr>) s2;
       Some (True, thread_switch link s3)
     }
     else Some (False, irq_restore state s2)
   }"

section \<open>Threads\<close>

definition threads_init :: "('fs, 'z) kernel_scheme \<Rightarrow> ('fs, 'z) kernel_scheme" where
  "threads_init s = s\<lparr>current_thread := (\<lambda>i. if unat i < MAX_CPU then NULL else current_thread s i)\<rparr>"

definition thread_yield :: "('fs, 'z) kernel_scheme \<Rightarrow> (bool \<times> ('fs, 'z) kernel_scheme) option" where
  "thread_yield s = schedule s"

definition thread_get_current :: "('fs, 'z) kernel_scheme \<Rightarrow> u32 \<times> ('fs, 'z) kernel_scheme" where
  "thread_get_current s =
     (let (state, s1) = irq_off s; current = cur s1 in (current, irq_restore state s1))"

definition thread_suspend :: "('fs, 'z) kernel_scheme \<Rightarrow> (bool \<times> ('fs, 'z) kernel_scheme) option" where
  "thread_suspend s = do {
     let (state, s1) = irq_off s;
     let current = cur s1;
     let s2 = upd_thread current (\<lambda>t. t\<lparr>t_state := THREAD_SLEEPING\<rparr>) s1;
     s3 \<leftarrow> sched_remove current s2;
     (switched, s4) \<leftarrow> schedule s3;
     Some (switched, if switched then s4 else irq_restore state s4)
   }"

definition thread_wakeup :: "u32 \<Rightarrow> ('fs, 'z) kernel_scheme \<Rightarrow> (u32 \<times> ('fs, 'z) kernel_scheme) option" where
  "thread_wakeup thread s = do {
     let (state, s1) = irq_off s;
     s2 \<leftarrow> (if t_state (thr s1 thread) = THREAD_SLEEPING
           then sched_insert thread (upd_thread thread (\<lambda>t. t\<lparr>t_state := THREAD_READY\<rparr>) s1)
           else Some s1);
     Some (EOK, irq_restore state s2)
   }"

definition thread_timeout_handler :: "u32 \<Rightarrow> u32 \<Rightarrow> ('fs, 'z) kernel_scheme \<Rightarrow> ('fs, 'z) kernel_scheme option" where
  "thread_timeout_handler timer data s = map_option snd (thread_wakeup data s)"

definition thread_can_join :: "u32 \<Rightarrow> ('fs, 'z) kernel_scheme \<Rightarrow> bool \<times> ('fs, 'z) kernel_scheme" where
  "thread_can_join thread s =
     (let (state, s1) = irq_off s; current = cur s1; s2 = irq_restore state s1
      in (if thread = current then False else if joiner (thr s2 thread) \<noteq> NULL then False else True, s2))"

definition thread_set_process :: "u32 \<Rightarrow> u32 \<Rightarrow> ('fs, 'z) kernel_scheme \<Rightarrow> ('fs, 'z) kernel_scheme" where
  "thread_set_process process uthread s =
     (let (state, s1) = irq_off s; current = cur s1;
          s2 = upd_thread current (\<lambda>t. t\<lparr>t_process := process\<rparr>) s1;
          s3 = upd_thread current (\<lambda>t. t\<lparr>t_uthread := uthread\<rparr>) s2
      in irq_restore state s3)"

definition thread_get_process :: "('fs, 'z) kernel_scheme \<Rightarrow> u32 \<times> ('fs, 'z) kernel_scheme" where
  "thread_get_process s =
     (let (state, s1) = irq_off s; process = t_process (thr s1 (cur s1)) in (process, irq_restore state s1))"

definition thread_get_uthread :: "('fs, 'z) kernel_scheme \<Rightarrow> u32 \<times> ('fs, 'z) kernel_scheme" where
  "thread_get_uthread s =
     (let (state, s1) = irq_off s; uthread = t_uthread (thr s1 (cur s1)) in (uthread, irq_restore state s1))"

text \<open>\<^verbatim>\<open>thread_finish\<close> does not return: when \<^verbatim>\<open>schedule\<close> comes back without a switch, it panics.\<close>

definition thread_finish :: "u32 \<Rightarrow> ('fs, 'z) kernel_scheme \<Rightarrow> ('fs, 'z) kernel_scheme option" where
  "thread_finish rv s = do {
     let (_, s1) = irq_off s;
     let current = cur s1;
     let s2 = upd_thread current (\<lambda>t. t\<lparr>t_state := THREAD_ZOMBIE\<rparr>) s1;
     s3 \<leftarrow> sched_remove current s2;
     let s4 = upd_thread current (\<lambda>t. t\<lparr>retval := rv\<rparr>) s3;
     s5 \<leftarrow> (if joiner (thr s4 current) \<noteq> NULL then map_option snd (thread_wakeup (joiner (thr s4 current)) s4) else Some s4);
     (switched, s6) \<leftarrow> schedule s5;
     kassert switched;
     Some s6
   }"

text \<open>\<^verbatim>\<open>thread_destroy\<close>, and \<^verbatim>\<open>thread_join\<close> in two parts: up to the suspension (or to the point behind the
  conditional when the thread is a zombie already), and the rest, which reads the return value and frees
  the structures. The saved interrupt state is the local \<^verbatim>\<open>status\<close>; \<open>F\<close> is the frame allocator.\<close>

definition thread_destroy :: "'fs falloc \<Rightarrow> u32 \<Rightarrow> ('fs, 'z) kernel_scheme \<Rightarrow> ('fs, 'z) kernel_scheme option" where
  "thread_destroy F thread s = do {
     s1 \<leftarrow> kfree F (stack_data (thr s thread)) s;
     kfree F thread s1
   }"

datatype join_step = Join_Invalid | Join_Waits u32 | Join_Proceeds u32

definition thread_join_begin :: "u32 \<Rightarrow> ('fs, 'z) kernel_scheme \<Rightarrow> (join_step \<times> ('fs, 'z) kernel_scheme) option" where
  "thread_join_begin thread s = do {
     let (status, s1) = irq_off s;
     let current = cur s1;
     let (can, s2) = thread_can_join thread s1;
     if \<not> can then Some (Join_Invalid, irq_restore status s2)
     else if t_state (thr s2 thread) \<noteq> THREAD_ZOMBIE then do {
       (switched, s4) \<leftarrow> thread_suspend (upd_thread thread (\<lambda>t. t\<lparr>joiner := current\<rparr>) s2);
       Some (if switched then Join_Waits status else Join_Proceeds status, s4)
     }
     else Some (Join_Proceeds status, s2)
   }"

definition thread_join_end :: "'fs falloc \<Rightarrow> u32 \<Rightarrow> u32 \<Rightarrow> ('fs, 'z) kernel_scheme \<Rightarrow> (u32 \<times> ('fs, 'z) kernel_scheme) option" where
  "thread_join_end F thread status s = do {
     let rv = retval (thr s thread);
     s1 \<leftarrow> thread_destroy F thread s;
     Some (rv, irq_restore status s1)
   }"

end
