(* ===== verification/Sched.thy ===== *)
theory Sched
  imports Kernel
begin

text \<open>
  The scheduler and the thread states: an abstract scheduler with a queue, a running thread, sleepers
  and zombies, and the proof that the code of \<^verbatim>\<open>sched.c\<close> and \<^verbatim>\<open>thread.c\<close> refines it, including its effect on the
  memory; the order in which threads run; and the context switch.
\<close>

unbundle bit_operations_syntax

section \<open>Interrupt brackets\<close>

text \<open>A normal form of updates: the coprocessor innermost, then the memory.\<close>

lemma upd_order:
  "s\<lparr>k_mem := m, k_cpu := c\<rparr> = s\<lparr>k_cpu := c, k_mem := m\<rparr>"
  "s\<lparr>thr := f, k_cpu := c\<rparr> = s\<lparr>k_cpu := c, thr := f\<rparr>"
  "s\<lparr>thr := f, k_mem := m\<rparr> = s\<lparr>k_mem := m, thr := f\<rparr>"
  by simp_all

lemma irq_offE:
  obtains st c where "irq_off s = (st, s\<lparr>k_cpu := c\<rparr>)" "conditionally_enable_interrupts st c = k_cpu s"
  using interrupt_bracket by (cases "query_and_disable_interrupts (k_cpu s)") (auto simp: irq_off_def)

text \<open>The brackets vanish from operations that leave the coprocessor alone.\<close>

lemma sched_insert_eq: "sched_insert t s = map_option (\<lambda>m. s\<lparr>k_mem := m\<rparr>) (list_append (k_mem s) (rq s) t)"
  by (rule irq_offE [of s], cases "list_append (k_mem s) (rq s) t") (simp_all add: sched_insert_def irq_restore_def)

lemma sched_remove_eq: "sched_remove t s = map_option (\<lambda>m. s\<lparr>k_mem := m\<rparr>) (list_remove (k_mem s) t)"
  by (rule irq_offE [of s], cases "list_remove (k_mem s) t") (simp_all add: sched_remove_def irq_restore_def)

lemma thread_get_current_eq: "thread_get_current s = (cur s, s)"
  by (rule irq_offE [of s]) (simp add: thread_get_current_def irq_restore_def)

lemma thread_can_join_eq: "thread_can_join t s = (t \<noteq> cur s \<and> joiner (thr s t) = NULL, s)"
  by (rule irq_offE [of s]) (simp add: thread_can_join_def irq_restore_def)

lemma thread_wakeup_eq:
  "thread_wakeup t s =
     (if t_state (thr s t) = THREAD_SLEEPING
      then map_option (\<lambda>m. (EOK, (upd_thread t (\<lambda>t. t\<lparr>t_state := THREAD_READY\<rparr>) s)\<lparr>k_mem := m\<rparr>)) (list_append (k_mem s) (rq s) t)
      else Some (EOK, s))"
  by (rule irq_offE [of s], cases "list_append (k_mem s) (rq s) t")
     (simp_all add: thread_wakeup_def irq_restore_def sched_insert_eq upd_thread_def)

section \<open>What a switch changes\<close>

lemma cpu_switch_fields [simp]:
  "k_mem (cpu_switch_context old new as s) = k_mem s" "k_fs (cpu_switch_context old new as s) = k_fs s"
  "heap_list (cpu_switch_context old new as s) = heap_list s"
  "tmr (cpu_switch_context old new as s) = tmr s" "vmms (cpu_switch_context old new as s) = vmms s"
  "k_cpuid (cpu_switch_context old new as s) = k_cpuid s" "current_thread (cpu_switch_context old new as s) = current_thread s"
  "runnable_list (cpu_switch_context old new as s) = runnable_list s" "timers_list (cpu_switch_context old new as s) = timers_list s"
  "timer_thread (cpu_switch_context old new as s) = timer_thread s" "jiffies (cpu_switch_context old new as s) = jiffies s"
  "k_tlb (cpu_switch_context old new as s) = k_tlb s" "console (cpu_switch_context old new as s) = console s"
  by (simp_all add: cpu_switch_context_def Let_def upd_thread_def)

lemma cpu_switch_thr [simp]:
  "t_state (thr (cpu_switch_context old new as s) t) = t_state (thr s t)"
  "joiner (thr (cpu_switch_context old new as s) t) = joiner (thr s t)"
  "retval (thr (cpu_switch_context old new as s) t) = retval (thr s t)"
  "stack_data (thr (cpu_switch_context old new as s) t) = stack_data (thr s t)"
  "t_vmm (thr (cpu_switch_context old new as s) t) = t_vmm (thr s t)"
  by (simp_all add: cpu_switch_context_def Let_def upd_thread_def)

lemma thread_switch_fields [simp]:
  "k_mem (thread_switch n s) = k_mem s" "k_cpuid (thread_switch n s) = k_cpuid s" "k_fs (thread_switch n s) = k_fs s"
  "runnable_list (thread_switch n s) = runnable_list s" "timers_list (thread_switch n s) = timers_list s"
  "timer_thread (thread_switch n s) = timer_thread s" "jiffies (thread_switch n s) = jiffies s" "tmr (thread_switch n s) = tmr s"
  "vmms (thread_switch n s) = vmms s" "heap_list (thread_switch n s) = heap_list s"
  "current_thread (thread_switch n s) = (current_thread s)(k_cpuid s := n)"
  "joiner (thr (thread_switch n s) t) = joiner (thr s t)" "retval (thr (thread_switch n s) t) = retval (thr s t)"
  "stack_data (thr (thread_switch n s) t) = stack_data (thr s t)"
  by (rule irq_offE [of s], simp add: thread_switch_def Let_def upd_thread_def)+

lemma thread_switch_state:
  "t_state (thr (thread_switch n s) t) =
     (if t = n then THREAD_RUNNING
      else if t = cur s \<and> t \<noteq> NULL \<and> t_state (thr s t) = THREAD_RUNNING then THREAD_READY else t_state (thr s t))"
  by (rule irq_offE [of s]) (auto simp: thread_switch_def Let_def upd_thread_def)

section \<open>The abstract scheduler\<close>

text \<open>The run queue in order, the running thread, the sleeping and the finished ones, and for every thread
  the one that waits for it in join (or zero).\<close>

record sched_abs =
  queue :: "u32 list"
  running :: u32
  sleeping :: "u32 set"
  dead :: "u32 set"
  waiting :: "u32 \<Rightarrow> u32"

definition spec_switch :: "sched_abs \<Rightarrow> sched_abs" where
  "spec_switch a = a\<lparr>queue := rotate1 (queue a), running := hd (queue a)\<rparr>"

definition spec_wakeup :: "u32 \<Rightarrow> sched_abs \<Rightarrow> sched_abs" where
  "spec_wakeup t a = (if t \<in> sleeping a then a\<lparr>queue := queue a @ [t], sleeping := sleeping a - {t}\<rparr> else a)"

datatype tcall = Yield | Suspend | Wakeup u32 | Join u32 | Finish u32

definition spec_leave :: "sched_abs \<Rightarrow> sched_abs" where
  "spec_leave a = a\<lparr>queue := remove1 (running a) (queue a)\<rparr>"

definition spec_suspend :: "sched_abs \<Rightarrow> sched_abs" where
  "spec_suspend a = spec_switch ((spec_leave a)\<lparr>sleeping := insert (running a) (sleeping a)\<rparr>)"

fun tcall_spec :: "tcall \<Rightarrow> sched_abs \<Rightarrow> sched_abs" where
  "tcall_spec Yield a = spec_switch a"
| "tcall_spec Suspend a = spec_suspend a"
| "tcall_spec (Wakeup t) a = spec_wakeup t a"
| "tcall_spec (Join t) a =
     (if t = running a \<or> waiting a t \<noteq> NULL \<or> t \<in> dead a then a
      else spec_suspend (a\<lparr>waiting := (waiting a)(t := running a)\<rparr>))"
| "tcall_spec (Finish v) a =
     spec_switch (spec_wakeup (waiting a (running a)) ((spec_leave a)\<lparr>dead := insert (running a) (dead a)\<rparr>))"

text \<open>What the caller owes: the thread it names exists, and whoever stops running leaves somebody who
  can run.\<close>

definition known :: "sched_abs \<Rightarrow> u32 set" where
  "known a = set (queue a) \<union> sleeping a \<union> dead a"

fun tcall_ok :: "tcall \<Rightarrow> sched_abs \<Rightarrow> bool" where
  "tcall_ok Yield a \<longleftrightarrow> True"
| "tcall_ok Suspend a \<longleftrightarrow> queue (spec_leave a) \<noteq> []"
| "tcall_ok (Wakeup t) a \<longleftrightarrow> t \<in> known a"
| "tcall_ok (Join t) a \<longleftrightarrow> t \<in> known a \<and> queue (spec_leave a) \<noteq> []"
| "tcall_ok (Finish v) a \<longleftrightarrow> queue (spec_leave a) \<noteq> [] \<or> waiting a (running a) \<in> sleeping a"

text \<open>A call of the running thread, up to the next switch. \<open>Join\<close> is the first half of \<^verbatim>\<open>thread_join\<close>; theory \<open>Thread_Calls\<close> puts the halves together. The conditions \<open>tcall_ok\<close>
  say when the call does not panic for want of another runnable thread.\<close>

fun tcall_exec :: "tcall \<Rightarrow> ('fs, 'z) kernel_scheme \<Rightarrow> ('fs, 'z) kernel_scheme option" where
  "tcall_exec Yield s = map_option snd (thread_yield s)"
| "tcall_exec Suspend s = map_option snd (thread_suspend s)"
| "tcall_exec (Wakeup t) s = map_option snd (thread_wakeup t s)"
| "tcall_exec (Join t) s = map_option snd (thread_join_begin t s)"
| "tcall_exec (Finish v) s = thread_finish v s"

text \<open>The relation between the kernel and the abstract state. \<open>sched_mid\<close> also holds between the moment
  the running thread has left the queue and the switch.\<close>

definition sched_mid :: "('fs, 'z) kernel_scheme \<Rightarrow> sched_abs \<Rightarrow> bool" where
  "sched_mid s a \<longleftrightarrow>
     is_list (k_mem s) (rq s) (queue a) \<and> cur s = running a \<and> running a \<in> known a \<and>
     set (queue a) \<inter> sleeping a = {} \<and> set (queue a) \<inter> dead a = {} \<and> sleeping a \<inter> dead a = {} \<and>
     NULL \<notin> known a \<and> rq s \<notin> known a \<and> links_sep (insert (rq s) (known a)) \<and>
     (\<forall>t \<in> known a. t_state (thr s t) =
        (if t \<in> sleeping a then THREAD_SLEEPING else if t \<in> dead a then THREAD_ZOMBIE
         else if t = running a then THREAD_RUNNING else THREAD_READY)) \<and>
     (\<forall>t \<in> known a. joiner (thr s t) = waiting a t \<and> (waiting a t = NULL \<or> waiting a t \<in> known a))"

definition sched_rel :: "('fs, 'z) kernel_scheme \<Rightarrow> sched_abs \<Rightarrow> bool" where
  "sched_rel s a \<longleftrightarrow> sched_mid s a \<and> running a \<in> set (queue a)"

text \<open>What the scheduling operations leave alone: memory outside the links of the threads, and the
  variables of the other components.\<close>

definition sched_frame :: "u32 set \<Rightarrow> ('fs, 'z) kernel_scheme \<Rightarrow> ('fs, 'z) kernel_scheme \<Rightarrow> bool" where
  "sched_frame S s s' \<longleftrightarrow> (\<forall>x. x \<notin> link_cells S \<longrightarrow> k_mem s' x = k_mem s x) \<and> runnable_list s' = runnable_list s \<and>
     k_cpuid s' = k_cpuid s \<and> tmr s' = tmr s \<and> timers_list s' = timers_list s \<and> timer_thread s' = timer_thread s \<and>
     jiffies s' = jiffies s \<and> vmms s' = vmms s \<and> heap_list s' = heap_list s \<and> k_fs s' = k_fs s"

lemma sched_frame_refl [simp]: "sched_frame S s s"
  by (simp add: sched_frame_def)

lemma sched_frame_trans: "sched_frame S s s' \<Longrightarrow> sched_frame S s' s'' \<Longrightarrow> sched_frame S s s''"
  by (simp add: sched_frame_def)

abbreviation sched_links :: "('fs, 'z) kernel_scheme \<Rightarrow> sched_abs \<Rightarrow> u32 set" where
  "sched_links s a \<equiv> insert (rq s) (known a)"

lemma queue_cells: "sched_mid s a \<Longrightarrow> link_cells (set (rq s # queue a)) \<subseteq> link_cells (sched_links s a)"
  by (rule link_cells_mono) (auto simp: known_def)

lemma schedule_refines:
  assumes "sched_mid s a" "queue a \<noteq> []"
  shows "\<exists>s'. schedule s = Some (True, s') \<and> sched_rel s' (spec_switch a) \<and>
     (\<forall>x. retval (thr s' x) = retval (thr s x)) \<and> sched_frame (sched_links s a) s s'"
proof -
  obtain n rest where q: "queue a = n # rest" using assms(2) by (cases "queue a") auto
  have L: "is_list (k_mem s) (rq s) (n # rest)" and n0: "n \<noteq> NULL"
    using assms(1) q by (auto simp: sched_mid_def known_def)
  obtain m where m: "list_rotate (k_mem s) (rq s) = Some (n, m)" "is_list m (rq s) (rest @ [n])"
    "\<forall>x. x \<notin> link_cells (set (rq s # queue a)) \<longrightarrow> m x = k_mem s x"
    using list_rotate_correct [OF L] q by auto
  obtain st c where i: "irq_off s = (st, s\<lparr>k_cpu := c\<rparr>)" by (rule irq_offE)
  let ?s3 = "upd_thread n (\<lambda>t. t\<lparr>scheduled := timer_get c\<rparr>) (s\<lparr>k_cpu := c, k_mem := m\<rparr>)"
  have run: "schedule s = Some (True, thread_switch n ?s3)"
    using m(1) n0 by (simp add: schedule_def i)
  have "sched_rel (thread_switch n ?s3) (spec_switch a)"
    using assms(1) q m(2)
    unfolding sched_rel_def sched_mid_def known_def spec_switch_def
    by (auto simp: thread_switch_state upd_thread_def)
  moreover have "\<forall>x. retval (thr (thread_switch n ?s3) x) = retval (thr s x)" by (simp add: upd_thread_def)
  moreover have "sched_frame (sched_links s a) s (thread_switch n ?s3)"
    using m(3) queue_cells [OF assms(1)] by (auto simp: sched_frame_def upd_thread_def)
  ultimately show ?thesis using run by blast
qed


text \<open>Interrupts do not matter for the relation.\<close>

lemma sched_mid_cpu [simp]: "sched_mid (s\<lparr>k_cpu := c\<rparr>) a = sched_mid s a"
  by (simp add: sched_mid_def)

lemma sched_rel_irq [simp]: "sched_mid (irq_restore st s) a = sched_mid s a" "sched_rel (irq_restore st s) a = sched_rel s a"
  by (simp_all add: sched_rel_def irq_restore_def)

lemma known_leave: "distinct (queue a) \<Longrightarrow> running a \<in> set (queue a) \<Longrightarrow> set (queue (spec_leave a)) = set (queue a) - {running a}"
  by (simp add: spec_leave_def)

text \<open>The running thread gives up its place: it goes to sleep or becomes a zombie.\<close>

lemma leave_refines:
  assumes R: "sched_rel s a"
  shows "\<exists>m. list_remove (k_mem s) (cur s) = Some m \<and> is_list m (rq s) (queue (spec_leave a)) \<and>
     (\<forall>x. x \<notin> link_cells (sched_links s a) \<longrightarrow> m x = k_mem s x) \<and>
     sched_mid (upd_thread (cur s) (\<lambda>t. t\<lparr>t_state := THREAD_SLEEPING\<rparr>) s\<lparr>k_mem := m\<rparr>)
       ((spec_leave a)\<lparr>sleeping := insert (running a) (sleeping a)\<rparr>) \<and>
     sched_mid (upd_thread (cur s) (\<lambda>t. t\<lparr>t_state := THREAD_ZOMBIE, retval := v\<rparr>) s\<lparr>k_mem := m\<rparr>)
       ((spec_leave a)\<lparr>dead := insert (running a) (dead a)\<rparr>)"
proof -
  have M: "sched_mid s a" and run: "running a \<in> set (queue a)" and c: "cur s = running a"
    and L: "is_list (k_mem s) (rq s) (queue a)"
    using R by (auto simp: sched_rel_def sched_mid_def)
  obtain ys zs where q: "queue a = ys @ running a # zs" "running a \<notin> set ys"
    using split_list_first [OF run] by blast
  have dis: "distinct (queue a)" using is_listD(2) [OF L] by simp
  have lv: "queue (spec_leave a) = ys @ zs"
    "running (spec_leave a) = running a" "sleeping (spec_leave a) = sleeping a" "dead (spec_leave a) = dead a"
    "waiting (spec_leave a) = waiting a"
    using q by (simp_all add: spec_leave_def remove1_append)
  have ks: "known ((spec_leave a)\<lparr>sleeping := insert (running a) (sleeping a)\<rparr>) = known a"
    "known ((spec_leave a)\<lparr>dead := insert (running a) (dead a)\<rparr>) = known a"
    using q lv by (auto simp: known_def)
  have nr: "running a \<notin> set zs" "running a \<notin> sleeping a" "running a \<notin> dead a"
    using dis q M by (auto simp: sched_mid_def)
  obtain m where m: "list_remove (k_mem s) (running a) = Some m" "is_list m (rq s) (ys @ zs)"
    "\<forall>x. x \<notin> link_cells (set (rq s # queue a)) \<longrightarrow> m x = k_mem s x"
    using list_remove_correct [of "k_mem s" "rq s" ys "running a" zs] L q by auto
  have fr: "\<forall>x. x \<notin> link_cells (sched_links s a) \<longrightarrow> m x = k_mem s x"
    using m(3) queue_cells [OF M] by auto
  have "sched_mid (upd_thread (cur s) (\<lambda>t. t\<lparr>t_state := THREAD_SLEEPING\<rparr>) s\<lparr>k_mem := m\<rparr>)
       ((spec_leave a)\<lparr>sleeping := insert (running a) (sleeping a)\<rparr>)"
    using M m(2) q nr unfolding sched_mid_def ks by (auto simp: lv upd_thread_def c)
  moreover have "sched_mid (upd_thread (cur s) (\<lambda>t. t\<lparr>t_state := THREAD_ZOMBIE, retval := v\<rparr>) s\<lparr>k_mem := m\<rparr>)
       ((spec_leave a)\<lparr>dead := insert (running a) (dead a)\<rparr>)"
    using M m(2) q nr unfolding sched_mid_def ks by (auto simp: lv upd_thread_def c)
  ultimately show ?thesis using m lv c fr by auto
qed

lemma wakeup_refines:
  assumes M: "sched_mid s a" and t: "t \<in> known a" and r: "running a \<notin> sleeping a"
  shows "\<exists>s'. thread_wakeup t s = Some (EOK, s') \<and> sched_mid s' (spec_wakeup t a) \<and> retval (thr s' x) = retval (thr s x) \<and>
     sched_frame (sched_links s a) s s'"
proof (cases "t \<in> sleeping a")
  case False
  then show ?thesis using M t by (auto simp: thread_wakeup_eq spec_wakeup_def sched_mid_def)
next
  case True
  have L: "is_list (k_mem s) (rq s) (queue a)" and T: "t \<notin> set (rq s # queue a)" "t \<noteq> NULL" "t \<noteq> running a"
    "t \<notin> dead a"
    and st: "t_state (thr s t) = THREAD_SLEEPING"
    and sep: "links_sep (insert t (set (rq s # queue a)))"
    using M True r by (auto simp: sched_mid_def known_def elim!: links_sep_subset)
  obtain m where m: "list_append (k_mem s) (rq s) t = Some m" "is_list m (rq s) (queue a @ [t])"
    "\<forall>x. x \<notin> link_cells (insert t (set (rq s # queue a))) \<longrightarrow> m x = k_mem s x"
    using list_append_correct [OF L T(1,2) sep] by blast
  have "link_cells (insert t (set (rq s # queue a))) \<subseteq> link_cells (sched_links s a)"
    using t by (intro link_cells_mono) (auto simp: known_def)
  then have fr: "sched_frame (sched_links s a) s (upd_thread t (\<lambda>t. t\<lparr>t_state := THREAD_READY\<rparr>) s\<lparr>k_mem := m\<rparr>)"
    using m(3) by (auto simp: sched_frame_def upd_thread_def)
  have k: "known (spec_wakeup t a) = known a" using True by (auto simp: known_def spec_wakeup_def)
  have "sched_mid (upd_thread t (\<lambda>t. t\<lparr>t_state := THREAD_READY\<rparr>) s\<lparr>k_mem := m\<rparr>) (spec_wakeup t a)"
    using M m(2) T True unfolding sched_mid_def k by (auto simp: spec_wakeup_def upd_thread_def)
  then show ?thesis using st m(1) fr by (auto simp: thread_wakeup_eq upd_thread_def)
qed

lemma known_leave_running:
  assumes "sched_rel s a"
  shows "known ((spec_leave a)\<lparr>sleeping := insert (running a) (sleeping a)\<rparr>) = known a"
    and "known ((spec_leave a)\<lparr>dead := insert (running a) (dead a)\<rparr>) = known a"
proof -
  have r: "running a \<in> set (queue a)" and d: "distinct (queue a)"
    using assms is_listD(2) [of "k_mem s" "rq s" "queue a"] by (auto simp: sched_rel_def sched_mid_def)
  have l: "sleeping (spec_leave a) = sleeping a" "dead (spec_leave a) = dead a" by (simp_all add: spec_leave_def)
  show "known ((spec_leave a)\<lparr>sleeping := insert (running a) (sleeping a)\<rparr>) = known a"
    "known ((spec_leave a)\<lparr>dead := insert (running a) (dead a)\<rparr>) = known a"
    using r by (simp_all add: known_def known_leave [OF d r] l) blast+
qed

lemma suspend_refines:
  assumes R: "sched_rel s a" and ne: "queue (spec_leave a) \<noteq> []"
  shows "\<exists>s'. thread_suspend s = Some (True, s') \<and> sched_rel s' (spec_suspend a) \<and> sched_frame (sched_links s a) s s'"
proof -
  obtain st c where i: "irq_off s = (st, s\<lparr>k_cpu := c\<rparr>)" by (rule irq_offE)
  let ?a = "(spec_leave a)\<lparr>sleeping := insert (running a) (sleeping a)\<rparr>"
  obtain m where m: "list_remove (k_mem s) (cur s) = Some m"
    "sched_mid (upd_thread (cur s) (\<lambda>t. t\<lparr>t_state := THREAD_SLEEPING\<rparr>) s\<lparr>k_mem := m\<rparr>) ?a"
    "\<forall>x. x \<notin> link_cells (sched_links s a) \<longrightarrow> m x = k_mem s x"
    using leave_refines [OF R] by blast
  let ?s = "(upd_thread (cur s) (\<lambda>t. t\<lparr>t_state := THREAD_SLEEPING\<rparr>) s)\<lparr>k_mem := m, k_cpu := c\<rparr>"
  have "sched_mid ?s ?a" "queue ?a \<noteq> []" using m(2) ne by (simp_all add: sched_mid_cpu)
  from schedule_refines [OF this] obtain s' where s': "schedule ?s = Some (True, s')" "sched_rel s' (spec_suspend a)"
    "sched_frame (sched_links ?s ?a) ?s s'"
    unfolding spec_suspend_def by blast
  have "sched_frame (sched_links s a) s s'"
    using s'(3) m(3) known_leave_running(1) [OF R] by (simp add: sched_frame_def upd_thread_def)
  with s' m(1) show ?thesis by (auto simp: thread_suspend_def i sched_remove_eq upd_thread_def Let_def upd_order)
qed

lemma join_refines:
  assumes R: "sched_rel s a" and t: "t \<in> known a" and ne: "queue (spec_leave a) \<noteq> []"
  shows "\<exists>r s'. thread_join_begin t s = Some (r, s') \<and> sched_rel s' (tcall_spec (Join t) a) \<and>
     (r = Join_Invalid \<longleftrightarrow> t = running a \<or> waiting a t \<noteq> NULL) \<and> (\<forall>st. r = Join_Proceeds st \<longrightarrow> t \<in> dead a) \<and>
     (\<forall>st. r = Join_Waits st \<longrightarrow> t \<notin> dead a) \<and> sched_frame (sched_links s a) s s'"
proof -
  obtain st c where i: "irq_off s = (st, s\<lparr>k_cpu := c\<rparr>)" by (rule irq_offE)
  have c: "cur s = running a" and j: "joiner (thr s t) = waiting a t"
    and z: "t_state (thr s t) = THREAD_ZOMBIE \<longleftrightarrow> t \<in> dead a" and rk: "running a \<in> known a" "running a \<noteq> NULL"
    using R t by (auto simp: sched_rel_def sched_mid_def known_def)
  consider (inv) "t = running a \<or> waiting a t \<noteq> NULL"
    | (dead) "t \<noteq> running a" "waiting a t = NULL" "t \<in> dead a"
    | (wait) "t \<noteq> running a" "waiting a t = NULL" "t \<notin> dead a" by blast
  then show ?thesis
  proof cases
    case wait
    let ?a = "a\<lparr>waiting := (waiting a)(t := running a)\<rparr>"
    let ?s = "upd_thread t (\<lambda>t. t\<lparr>joiner := running a\<rparr>) (s\<lparr>k_cpu := c\<rparr>)"
    have k: "known ?a = known a" by (simp add: known_def)
    then have "sched_rel ?s ?a"
      using R rk unfolding sched_rel_def sched_mid_def by (auto simp: upd_thread_def)
    moreover have "queue (spec_leave ?a) \<noteq> []" using ne by (simp add: spec_leave_def)
    ultimately obtain s' where "thread_suspend ?s = Some (True, s')" "sched_rel s' (spec_suspend ?a)" "sched_frame (sched_links ?s ?a) ?s s'"
      using suspend_refines by blast
    moreover from this(3) have "sched_frame (sched_links s a) s s'" using k by (simp add: sched_frame_def upd_thread_def)
    ultimately show ?thesis
      using wait c j z by (auto simp: thread_join_begin_def i thread_can_join_eq Let_def)
  qed (use R c j z in \<open>auto simp: thread_join_begin_def i thread_can_join_eq Let_def sched_rel_def sched_frame_def irq_restore_def\<close>)
qed

lemma finish_refines:
  assumes R: "sched_rel s a" and ne: "tcall_ok (Finish v) a"
  shows "\<exists>s'. thread_finish v s = Some s' \<and> sched_rel s' (tcall_spec (Finish v) a) \<and> retval (thr s' (running a)) = v \<and>
     sched_frame (sched_links s a) s s'"
proof -
  obtain st c where i: "irq_off s = (st, s\<lparr>k_cpu := c\<rparr>)" by (rule irq_offE)
  let ?a = "(spec_leave a)\<lparr>dead := insert (running a) (dead a)\<rparr>"
  obtain m where m: "list_remove (k_mem s) (cur s) = Some m"
    "sched_mid (upd_thread (cur s) (\<lambda>t. t\<lparr>t_state := THREAD_ZOMBIE, retval := v\<rparr>) s\<lparr>k_mem := m\<rparr>) ?a"
    "\<forall>x. x \<notin> link_cells (sched_links s a) \<longrightarrow> m x = k_mem s x"
    using leave_refines [OF R] by blast
  let ?s = "upd_thread (cur s) (\<lambda>t. t\<lparr>t_state := THREAD_ZOMBIE, retval := v\<rparr>) s\<lparr>k_mem := m, k_cpu := c\<rparr>"
  have M: "sched_mid ?s ?a" using m(2) by (simp only: sched_mid_cpu)
  have c: "cur s = running a" and j: "joiner (thr s (running a)) = waiting a (running a)"
    and w: "waiting a (running a) = NULL \<or> waiting a (running a) \<in> known a"
    and rk: "running a \<notin> sleeping a" "running a \<in> set (queue a)" "running a \<in> known a" "NULL \<notin> sleeping a"
    using R by (auto simp: sched_rel_def sched_mid_def known_def)
  have k: "known ?a = known a" by (rule known_leave_running(2) [OF R])
  have f0: "sched_frame (sched_links s a) s ?s" using m(3) by (simp add: sched_frame_def upd_thread_def)
  obtain s1 where s1: "(if joiner (thr ?s (cur s)) \<noteq> NULL then map_option snd (thread_wakeup (joiner (thr ?s (cur s))) ?s) else Some ?s) = Some s1"
    "sched_mid s1 (spec_wakeup (waiting a (running a)) ?a)" "retval (thr s1 (running a)) = v" "sched_frame (sched_links s a) s s1"
  proof (cases "waiting a (running a) = NULL")
    case True
    then show ?thesis using that [of ?s] M c j rk f0 by (simp add: upd_thread_def spec_wakeup_def spec_leave_def)
  next
    case False
    then have "waiting a (running a) \<in> known ?a" using w k by simp
    moreover have "running ?a \<notin> sleeping ?a" using rk by (simp add: spec_leave_def)
    ultimately obtain s1 where "thread_wakeup (waiting a (running a)) ?s = Some (EOK, s1)"
      "sched_mid s1 (spec_wakeup (waiting a (running a)) ?a)" "retval (thr s1 (running a)) = retval (thr ?s (running a))" "sched_frame (sched_links ?s ?a) ?s s1"
      using wakeup_refines [OF M, of _ "running a"] by blast
    moreover from this(4) have "sched_frame (sched_links s a) ?s s1" using k by (simp add: upd_thread_def)
    from sched_frame_trans [OF f0 this] have "sched_frame (sched_links s a) s s1" .
    ultimately show ?thesis using that [of s1] False c j by (simp add: upd_thread_def)
  qed
  have "queue (spec_wakeup (waiting a (running a)) ?a) \<noteq> []"
    using ne by (auto simp: spec_wakeup_def spec_leave_def)
  from schedule_refines [OF s1(2) this] obtain s' where s': "schedule s1 = Some (True, s')"
    "sched_rel s' (tcall_spec (Finish v) a)" "\<forall>x. retval (thr s' x) = retval (thr s1 x)" "sched_frame (sched_links s1 (spec_wakeup (waiting a (running a)) ?a)) s1 s'" by auto
  have "known (spec_wakeup (waiting a (running a)) ?a) = known a" using k by (auto simp: spec_wakeup_def known_def)
  then have "sched_frame (sched_links s a) s1 s'" using s'(4) s1(4) by (simp add: sched_frame_def)
  from sched_frame_trans [OF s1(4) this] have "sched_frame (sched_links s a) s s'" .
  moreover have "thread_finish v s = Some s'"
    using m(1) s1(1) s'(1)
    by (cases "joiner (thr s (cur s)) = NULL") (auto simp: thread_finish_def i sched_remove_eq upd_thread_def Let_def upd_order)
  ultimately show ?thesis using s' s1(3) by auto
qed



section \<open>Runs of thread operations\<close>

lemma tcall_refines:
  assumes "sched_rel s a" and "tcall_ok c a"
  shows "\<exists>s'. tcall_exec c s = Some s' \<and> sched_rel s' (tcall_spec c a) \<and> sched_frame (sched_links s a) s s'"
proof (cases c)
  case Yield
  have "queue a \<noteq> []" using assms(1) by (auto simp: sched_rel_def)
  with schedule_refines assms(1) Yield show ?thesis by (fastforce simp: thread_yield_def sched_rel_def)
next
  case Suspend
  with suspend_refines [OF assms(1)] assms(2) show ?thesis by auto
next
  case (Wakeup t)
  have "running a \<notin> sleeping a" using assms(1) by (auto simp: sched_rel_def sched_mid_def)
  with wakeup_refines [of s a t] assms Wakeup show ?thesis
    by (fastforce simp: sched_rel_def spec_wakeup_def)
next
  case (Join t)
  with join_refines [OF assms(1), of t] assms(2) show ?thesis by (auto simp del: tcall_spec.simps)
next
  case (Finish v)
  with finish_refines [OF assms(1), of v] assms(2) show ?thesis by (auto simp del: tcall_spec.simps)
qed

abbreviation tcalls_exec :: "tcall list \<Rightarrow> ('fs, 'z) kernel_scheme \<Rightarrow> ('fs, 'z) kernel_scheme option" where
  "tcalls_exec \<equiv> run_calls tcall_exec"

abbreviation tcalls_ok :: "tcall list \<Rightarrow> sched_abs \<Rightarrow> bool" where
  "tcalls_ok \<equiv> calls_ok tcall_ok tcall_spec"

interpretation tc: call_refinement sched_rel tcall_exec tcall_spec tcall_ok "\<lambda>_ _. True"
  by unfold_locales (use tcall_refines in blast)+

lemma tcalls_refine:
  "sched_rel s a \<Longrightarrow> tcalls_ok cs a \<Longrightarrow> \<exists>s'. tcalls_exec cs s = Some s' \<and> sched_rel s' (fold tcall_spec cs a)"
  using tc.calls_refine by blast

section \<open>State the scheduler does not have\<close>

text \<open>Switching, waking up, suspending and finishing threads leave alone what other components add to the state.\<close>

lemma switch_more [simp]: "kernel.more (thread_switch n s) = kernel.more s"
  by (rule irq_offE [of s]) (simp add: thread_switch_def Let_def upd_thread_def cpu_switch_context_def)

lemma schedule_more: "schedule s = Some (b, s') \<Longrightarrow> kernel.more s' = kernel.more s"
  by (rule irq_offE [of s]) (auto simp: schedule_def upd_thread_def irq_restore_def Let_def elim!: bind_eq_SomeE split: if_splits)

lemma wakeup_more: "thread_wakeup t s = Some (rc, s') \<Longrightarrow> kernel.more s' = kernel.more s"
  by (auto simp: thread_wakeup_eq upd_thread_def split: if_splits)

lemma finish_more:
  assumes "thread_finish v s = Some s'"
  shows "kernel.more s' = kernel.more s"
proof -
  obtain st c where i: "irq_off s = (st, s\<lparr>k_cpu := c\<rparr>)" by (rule irq_offE)
  show ?thesis using assms
    by (auto simp: thread_finish_def i sched_remove_eq upd_thread_def Let_def elim!: bind_eq_SomeE
      dest!: schedule_more wakeup_more split: if_splits)
qed

lemma suspend_more: "thread_suspend s = Some (b, s') \<Longrightarrow> kernel.more s' = kernel.more s"
  by (rule irq_offE [of s]) (auto simp: thread_suspend_def sched_remove_eq upd_thread_def irq_restore_def Let_def elim!: bind_eq_SomeE
    dest!: schedule_more split: if_splits)

section \<open>The context switch\<close>

text \<open>The registers a thread may rely on: all but \<^verbatim>\<open>$k0\<close>, \<^verbatim>\<open>$k1\<close> and the constant \<^verbatim>\<open>$zero\<close> (the last five members
  of the context are not general registers).\<close>

definition general_regs :: "ctx \<Rightarrow> u32 list" where
  "general_regs r = [c_at r, c_v0 r, c_v1 r, c_a0 r, c_a1 r, c_a2 r, c_a3 r,
     c_t0 r, c_t1 r, c_t2 r, c_t3 r, c_t4 r, c_t5 r, c_t6 r, c_t7 r, c_t8 r, c_t9 r,
     c_s0 r, c_s1 r, c_s2 r, c_s3 r, c_s4 r, c_s5 r, c_s6 r, c_s7 r, c_gp r, c_fp r, c_ra r, c_lo r, c_hi r]"

definition frame_at :: "('fs, 'z) kernel_scheme \<Rightarrow> u32" where
  "frame_at s = c_sp (k_regs s) - CONTEXT_SIZE"

definition saved_context :: "('fs, 'z) kernel_scheme \<Rightarrow> ctx" where
  "saved_context s = (SAVE_REGISTERS (k_regs s) (k_ctx s (frame_at s)))
     \<lparr>c_lo := c_lo (k_regs s), c_hi := c_hi (k_regs s), c_status := r_status (k_cpu s) AND NOT 1\<rparr>"

lemma irq_off_cpu:
  "query_and_disable_interrupts c = (r_status c AND 1, c\<lparr>r_status := r_status c AND NOT 1\<rparr>)"
  by (simp add: query_and_disable_interrupts_def CP0_STATUS_IE_MASK_def Let_def cp0_write_defs cp0_read_defs)

lemma switch_saves:
  assumes "cur s \<noteq> NULL"
  shows "stack_top (thr (thread_switch n s) (cur s)) = frame_at s"
    and "k_ctx (thread_switch n s) (frame_at s) = saved_context s"
  using assms
  by (simp_all add: thread_switch_def irq_off_def irq_off_cpu Let_def upd_thread_def cpu_switch_context_def frame_at_def
    saved_context_def cp0_read_defs cp0_write_defs)

text \<open>Switching to a thread loads its frame, unless its frame is the one just being written.\<close>

lemma cpu_switch_loads:
  assumes "c = (if frame_at s = stack_top (thr s n) then saved_context s else k_ctx s (stack_top (thr s n)))"
    and "n \<noteq> old" and "frame_at s \<noteq> stack_top (thr s n)"
  shows "general_regs (k_regs (cpu_switch_context old n as s)) = general_regs c"
    and "c_sp (k_regs (cpu_switch_context old n as s)) = stack_top (thr s n) + CONTEXT_SIZE"
    and "r_status (k_cpu (cpu_switch_context old n as s)) = c_status c"
    and "r_entryhi (k_cpu (cpu_switch_context old n as s)) = (r_entryhi (k_cpu s) AND NOT 0xff) OR ucast as"
  using assms
  by (simp_all add: cpu_switch_context_def upd_thread_def Let_def frame_at_def general_regs_def LOAD_REGISTERS_def
    cp0_read_defs cp0_write_defs)

lemma status_restored:
  fixes c :: cp0
  assumes "r_status (k_cpu s') = r_status c AND NOT 1"
  shows "r_status (k_cpu (irq_restore (r_status c AND 1) s')) = r_status c"
  using arg_cong [OF interrupt_bracket [OF irq_off_cpu, of c], of r_status] assms
  by (simp add: irq_restore_def conditionally_enable_interrupts_def cp0_read_defs cp0_write_defs CP0_STATUS_IE_MASK_def
    split: if_splits)

lemma low_byte_replaced: "((x AND NOT 0xff) OR ucast a) AND 0xff = ucast a" for x :: u32 and a :: u8
proof -
  have m: "(0xff :: u32) = mask 8" by (simp add: mask_eq_exp_minus_1)
  show ?thesis unfolding m
    by (rule bit_word_eqI) (auto simp: bit_simps dest: bit_imp_le_length)
qed

text \<open>The state in which \<^verbatim>\<open>thread_switch\<close> calls \<^verbatim>\<open>cpu_switch_context\<close>.\<close>

definition switch_prep :: "u32 \<Rightarrow> ('fs, 'z) kernel_scheme \<Rightarrow> ('fs, 'z) kernel_scheme" where
  "switch_prep n s =
     (let s0 = snd (irq_off s);
          s1 = (if cur s0 \<noteq> NULL \<and> t_state (thr s0 (cur s0)) = THREAD_RUNNING
                then upd_thread (cur s0) (\<lambda>t. t\<lparr>t_state := THREAD_READY\<rparr>) s0 else s0);
          s2 = s1\<lparr>current_thread := (current_thread s1)(k_cpuid s1 := n)\<rparr>
      in upd_thread n (\<lambda>t. t\<lparr>t_state := THREAD_RUNNING\<rparr>) s2)"

lemma switch_loads:
  assumes "n \<noteq> cur s" and "frame_at s \<noteq> stack_top (thr s n)"
  shows "general_regs (k_regs (thread_switch n s)) = general_regs (k_ctx s (stack_top (thr s n)))"
    and "c_sp (k_regs (thread_switch n s)) = stack_top (thr s n) + CONTEXT_SIZE"
    and "r_status (k_cpu (thread_switch n s)) = c_status (k_ctx s (stack_top (thr s n)))"
    and "r_entryhi (k_cpu (thread_switch n s)) =
       (r_entryhi (k_cpu s) AND NOT 0xff) OR ucast (asid (vmms s (t_vmm (thr s n))))"
proof -
  define s3 where "s3 = switch_prep n s"
  define a where "a = asid (vmms s (t_vmm (thr s n)))"
  have s3: "thread_switch n s = cpu_switch_context (cur s) n a s3" "frame_at s3 = frame_at s"
    "stack_top (thr s3 n) = stack_top (thr s n)" "k_ctx s3 = k_ctx s" "r_entryhi (k_cpu s3) = r_entryhi (k_cpu s)"
    using assms(1)
    by (auto simp: s3_def a_def thread_switch_def switch_prep_def irq_off_def irq_off_cpu Let_def upd_thread_def frame_at_def)
  note L = cpu_switch_loads [OF refl assms(1), of s3 a, unfolded s3(2-)]
  show "general_regs (k_regs (thread_switch n s)) = general_regs (k_ctx s (stack_top (thr s n)))"
    "c_sp (k_regs (thread_switch n s)) = stack_top (thr s n) + CONTEXT_SIZE"
    "r_status (k_cpu (thread_switch n s)) = c_status (k_ctx s (stack_top (thr s n)))"
    "r_entryhi (k_cpu (thread_switch n s)) =
       (r_entryhi (k_cpu s) AND NOT 0xff) OR ucast (asid (vmms s (t_vmm (thr s n))))"
    using L assms(2) unfolding s3(1) a_def by simp_all
qed

text \<open>C2: A thread that is switched away from and later switched to again finds its registers, its stack pointer
  and, once \<^verbatim>\<open>thread_switch\<close> has returned, its interrupt state as it left them, provided nobody wrote to its structure
  and its stack frame; the address space identifier of EntryHi is the one of its own address space.\<close>

theorem context_switch_roundtrip:
  assumes "t = cur s" and "t \<noteq> NULL" and "s1 = thread_switch u s"
    and "stack_top (thr s2 t) = stack_top (thr s1 t)"
    and "k_ctx s2 (stack_top (thr s1 t)) = k_ctx s1 (stack_top (thr s1 t))"
    and "cur s2 \<noteq> t" and "frame_at s2 \<noteq> frame_at s"
  shows "general_regs (k_regs (thread_switch t s2)) = general_regs (k_regs s) \<and>
     c_sp (k_regs (thread_switch t s2)) = c_sp (k_regs s) \<and>
     r_status (k_cpu (thread_switch_return (fst (irq_off s)) (thread_switch t s2))) = r_status (k_cpu s) \<and>
     r_entryhi (k_cpu (thread_switch t s2)) AND 0xff = ucast (asid (vmms s2 (t_vmm (thr s2 t))))"
proof -
  have top: "stack_top (thr s2 t) = frame_at s" "k_ctx s2 (stack_top (thr s2 t)) = saved_context s"
    using switch_saves [of s u] assms by auto
  have ne: "t \<noteq> cur s2" "frame_at s2 \<noteq> stack_top (thr s2 t)" using assms(6,7) top by auto
  note L = switch_loads [OF ne, unfolded top(2)]
  have "general_regs (saved_context s) = general_regs (k_regs s)"
    by (simp add: general_regs_def saved_context_def SAVE_REGISTERS_def)
  moreover have "c_status (saved_context s) = r_status (k_cpu s) AND NOT 1"
    by (simp add: saved_context_def)
  moreover have "r_status (k_cpu (irq_restore (r_status (k_cpu s) AND 1) (thread_switch t s2))) = r_status (k_cpu s)"
    using L(3) by (intro status_restored) (simp add: saved_context_def)
  moreover have "((x AND NOT 0xff) OR ucast a) AND 0xff = ucast a" for x :: u32 and a :: u8
    by (rule low_byte_replaced)
  ultimately show ?thesis
    using L top by (simp add: thread_switch_return_def irq_off_def irq_off_cpu frame_at_def)
qed


section \<open>A small system\<close>

text \<open>Three threads: one runs, one is ready, one sleeps.\<close>

definition blank_thread :: "thread_state \<Rightarrow> u32 \<Rightarrow> thread" where
  "blank_thread st sp = \<lparr>stack_size = 4096, stack_data = 0, entry_func = 0, entry_data = 0, retval = 0,
     stack_top = sp, t_state = st, scheduled = 0, joiner = 0, t_vmm = 0, t_process = 0, t_uthread = 0\<rparr>"

definition blank_ctx :: ctx where
  "blank_ctx = \<lparr>c_zero = 0, c_at = 0, c_v0 = 0, c_v1 = 0, c_a0 = 0, c_a1 = 0, c_a2 = 0, c_a3 = 0,
     c_t0 = 0, c_t1 = 0, c_t2 = 0, c_t3 = 0, c_t4 = 0, c_t5 = 0, c_t6 = 0, c_t7 = 0, c_t8 = 0, c_t9 = 0,
     c_s0 = 0, c_s1 = 0, c_s2 = 0, c_s3 = 0, c_s4 = 0, c_s5 = 0, c_s6 = 0, c_s7 = 0,
     c_k0 = 0, c_k1 = 0, c_gp = 0, c_fp = 0, c_sp = 0x80052000, c_ra = 0, c_lo = 0, c_hi = 0,
     c_epc = 0, c_cause = 0, c_badva = 0, c_entryhi = 0, c_status = 0\<rparr>"

definition small_mem :: mem where
  "small_mem = (\<lambda>_. 0)(0x80002000 := 0x80010000, 0x80002004 := 0x80020000,
     0x80010000 := 0x80020000, 0x80010004 := 0x80002000, 0x80020000 := 0x80002000, 0x80020004 := 0x80010000)"

definition small_kernel :: "nat set kernel" where
  "small_kernel = \<lparr>k_mem = small_mem, k_cpu = reset_cp0, k_fs = {}, heap_list = 0x80001000,
     thr = (\<lambda>t. if t = 0x80010000 then blank_thread THREAD_RUNNING 0x80060000
                else if t = 0x80020000 then blank_thread THREAD_READY 0x80070000
                else blank_thread THREAD_SLEEPING 0x80080000),
     tmr = (\<lambda>_. \<lparr>tm_timeout = 0, tm_expires = 0, tm_running = False, tm_handler = 0, tm_data = 0\<rparr>),
     vmms = (\<lambda>_. \<lparr>asid = 5, vmas = []\<rparr>), k_ctx = (\<lambda>_. blank_ctx), k_regs = blank_ctx,
     k_tlb = (\<lambda>_. \<lparr>te_hi = 0, te_lo0 = 0, te_lo1 = 0, te_mask = 0\<rparr>), k_cpuid = 0,
     current_thread = (\<lambda>_. 0x80010000), runnable_list = (\<lambda>_. 0x80002000), timers_list = 0x80003000,
     timer_thread = 0x80030000, jiffies = 0, last_asid = 6, console = []\<rparr>"

definition small_sched :: sched_abs where
  "small_sched = \<lparr>queue = [0x80020000, 0x80010000], running = 0x80010000, sleeping = {0x80030000}, dead = {},
     waiting = (\<lambda>_. 0)\<rparr>"

lemma small_sched_rel: "sched_rel small_kernel small_sched"
proof -
  have "is_list small_mem 0x80002000 [0x80020000, 0x80010000]"
    by (simp add: is_list_def links_sep_def link_next_def link_prev_def small_mem_def)
  then show ?thesis
    by (simp add: sched_rel_def sched_mid_def known_def small_sched_def small_kernel_def blank_thread_def links_sep_def)
qed

section \<open>Properties\<close>

lemma yields_rotate:
  "fold tcall_spec (replicate (Suc n) Yield) a =
     a\<lparr>queue := rotate (Suc n) (queue a), running := hd (rotate n (queue a))\<rparr>"
proof -
  have "tcall_spec Yield = spec_switch" by (rule ext) simp
  moreover have "(spec_switch ^^ Suc n) a = a\<lparr>queue := rotate (Suc n) (queue a), running := hd (rotate n (queue a))\<rparr>"
    by (induction n) (simp_all add: spec_switch_def)
  ultimately show ?thesis unfolding fold_replicate by simp
qed

lemma yields_run:
  assumes "sched_rel s a"
  shows "\<exists>s'. tcalls_exec (replicate (Suc n) Yield) s = Some s' \<and> sched_rel s' (fold tcall_spec (replicate (Suc n) Yield) a) \<and>
    cur s' = queue a ! (n mod length (queue a))"
proof -
  have ne: "queue a \<noteq> []" using assms by (auto simp: sched_rel_def)
  have ok: "tcalls_ok (replicate n Yield) a" for n and a :: sched_abs by (induction n arbitrary: a) auto
  obtain s' where s': "tcalls_exec (replicate (Suc n) Yield) s = Some s'"
    "sched_rel s' (fold tcall_spec (replicate (Suc n) Yield) a)"
    using tcalls_refine [OF assms ok] by blast
  have "cur s' = hd (rotate n (queue a))"
    using s'(2) unfolding yields_rotate by (simp add: sched_rel_def sched_mid_def)
  with s' show ?thesis using hd_rotate_conv_nth [OF ne, of n] by auto
qed

lemma yields_reach:
  assumes "sched_rel s a" and "t \<in> set (queue a)"
  shows "\<exists>n < length (queue a). \<exists>s'. tcalls_exec (replicate (Suc n) Yield) s = Some s' \<and> cur s' = t"
proof -
  obtain n where n: "n < length (queue a)" "queue a ! n = t" using assms(2) by (auto simp: in_set_conv_nth)
  with yields_run [OF assms(1), of n] show ?thesis by (intro exI [of _ n]) auto
qed

text \<open>C11: The scheduler is fair: while nobody blocks, the \<open>n\<close>-th reschedule runs the \<open>n\<close>-th thread of the run queue,
  round and round, so every runnable thread runs within as many reschedules as there are runnable threads.\<close>

theorem yield_round_robin:
  assumes "sched_rel s a"
  shows "(\<forall>n. \<exists>s'. tcalls_exec (replicate (Suc n) Yield) s = Some s' \<and> sched_rel s' (fold tcall_spec (replicate (Suc n) Yield) a) \<and>
       cur s' = queue a ! (n mod length (queue a))) \<and>
     (\<forall>t \<in> set (queue a). \<exists>n < length (queue a). \<exists>s'. tcalls_exec (replicate (Suc n) Yield) s = Some s' \<and> cur s' = t)"
  using yields_run [OF assms] yields_reach [OF assms] by blast

theorem yield_round_robin_witness:
  "\<exists>s'. tcalls_exec (replicate (Suc 2) Yield) small_kernel = Some s' \<and> cur s' = 0x80020000"
proof -
  have "queue small_sched ! (2 mod length (queue small_sched)) = 0x80020000" by (simp add: small_sched_def numeral_2_eq_2)
  with yield_round_robin [OF small_sched_rel] show ?thesis by metis
qed

text \<open>C12: A thread that finishes leaves the run queue as a zombie with its return value stored, the processor goes to
  another thread, and a thread that waits for it in \<^verbatim>\<open>thread_join\<close> is runnable again.\<close>

theorem finish_wakes_joiner:
  assumes "sched_rel s a" and "tcall_ok (Finish v) a"
  shows "\<exists>s'. thread_finish v s = Some s' \<and> t_state (thr s' (cur s)) = THREAD_ZOMBIE \<and> retval (thr s' (cur s)) = v \<and>
     cur s' \<noteq> cur s \<and> t_state (thr s' (cur s')) = THREAD_RUNNING \<and>
     (joiner (thr s (cur s)) \<in> sleeping a \<longrightarrow>
        (\<exists>q. is_list (k_mem s') (rq s') q \<and> joiner (thr s (cur s)) \<in> set q \<and> cur s \<notin> set q))"
proof -
  obtain s' where s': "thread_finish v s = Some s'" "sched_rel s' (tcall_spec (Finish v) a)" "retval (thr s' (running a)) = v"
    using finish_refines [OF assms] by blast
  have c: "cur s = running a" and j: "joiner (thr s (cur s)) = waiting a (running a)" 
    using assms(1) by (auto simp: sched_rel_def sched_mid_def known_def)
  let ?a = "tcall_spec (Finish v) a"
  have d: "running a \<in> dead ?a" by (simp add: spec_switch_def spec_wakeup_def spec_leave_def)
  have j': "waiting a (running a) \<in> sleeping a \<Longrightarrow> waiting a (running a) \<in> set (queue ?a)"
    by (simp add: spec_switch_def spec_wakeup_def spec_leave_def)
  note M = s'(2)[unfolded sched_rel_def sched_mid_def known_def]
  have "t_state (thr s' (running a)) = THREAD_ZOMBIE" "cur s' = running ?a" "running ?a \<noteq> running a"
    "t_state (thr s' (running ?a)) = THREAD_RUNNING" "is_list (k_mem s') (rq s') (queue ?a)" "running a \<notin> set (queue ?a)"
    using M d by auto
  then show ?thesis using s'(1,3) c j j' by auto
qed

theorem finish_wakes_joiner_witness:
  "\<exists>s'. thread_finish 7 small_kernel = Some s' \<and> t_state (thr s' 0x80010000) = THREAD_ZOMBIE \<and>
     retval (thr s' 0x80010000) = 7"
proof -
  have "tcall_ok (Finish 7) small_sched" by (simp add: small_sched_def spec_leave_def)
  from finish_wakes_joiner [OF small_sched_rel this] show ?thesis by (auto simp: small_kernel_def)
qed

theorem context_switch_roundtrip_witness:
  "\<exists>s2 :: nat set kernel. general_regs (k_regs (thread_switch 0x80010000 s2)) = general_regs blank_ctx \<and>
     c_sp (k_regs (thread_switch 0x80010000 s2)) = 0x80052000 \<and>
     r_status (k_cpu (thread_switch_return 1 (thread_switch 0x80010000 s2))) = 1 \<and>
     r_entryhi (k_cpu (thread_switch 0x80010000 s2)) AND 0xff = 5"
proof -
  let ?s = small_kernel and ?u = "0x80020000 :: u32"
  have k: "cur ?s = 0x80010000" "fst (irq_off ?s) = 1" "k_regs ?s = blank_ctx" "r_status (k_cpu ?s) = 1"
    "frame_at ?s = 0x80051F64" "vmms ?s = (\<lambda>_. \<lparr>asid = 5, vmas = []\<rparr>)"
    by (simp_all add: small_kernel_def irq_off_def irq_off_cpu reset_cp0_def frame_at_def blank_ctx_def CONTEXT_SIZE_def)
  have cu: "cur (thread_switch ?u ?s) = ?u" by (simp add: small_kernel_def)
  have sp: "c_sp (k_regs (thread_switch ?u ?s)) = 0x80070000 + CONTEXT_SIZE"
    using switch_loads(2) [of ?u ?s] k by (simp add: small_kernel_def blank_thread_def)
  have fr: "frame_at (thread_switch ?u ?s) \<noteq> frame_at ?s"
    using sp k by (simp add: frame_at_def)
  have "general_regs (k_regs (thread_switch 0x80010000 (thread_switch ?u ?s))) = general_regs (k_regs ?s) \<and>
     c_sp (k_regs (thread_switch 0x80010000 (thread_switch ?u ?s))) = c_sp (k_regs ?s) \<and>
     r_status (k_cpu (thread_switch_return (fst (irq_off ?s)) (thread_switch 0x80010000 (thread_switch ?u ?s)))) = r_status (k_cpu ?s) \<and>
     r_entryhi (k_cpu (thread_switch 0x80010000 (thread_switch ?u ?s))) AND 0xff =
       ucast (asid (vmms (thread_switch ?u ?s) (t_vmm (thr (thread_switch ?u ?s) 0x80010000))))"
    by (rule context_switch_roundtrip [OF _ _ refl refl refl _ fr]) (simp_all only: k cu, simp_all)
  note R = this [unfolded k]
  have sp0: "c_sp blank_ctx = 0x80052000" by (simp add: blank_ctx_def)
  show ?thesis by (rule exI [of _ "thread_switch ?u ?s"]) (use R in \<open>simp add: sp0 k(6)\<close>)
qed

text \<open>Switches and wake-ups neither lose nor invent threads.\<close>

lemma known_switch [simp]: "known (spec_switch a) = known a"
  by (simp add: known_def spec_switch_def)

lemma known_wakeup [simp]: "known (spec_wakeup t a) = known a"
  by (auto simp: known_def spec_wakeup_def)

end
