(* ===== verification/Timer.thy ===== *)
theory Timer
  imports Sched
begin

text \<open>
  Timers (\<^verbatim>\<open>time/timer.c\<close>), the periodic interrupt (\<^verbatim>\<open>sched_timer\<close> of \<^verbatim>\<open>sched.c\<close>) and the sleeping operations of
  \<^verbatim>\<open>thread.c\<close>. Function pointers are addresses; \<open>H\<close> says which function an address denotes. The theorems connect the list
  of timers with the abstract scheduler: who is put to sleep, until when, and who is woken up by a tick.
\<close>

section \<open>Timers\<close>

type_synonym ('fs, 'z) timer_fns = "u32 \<Rightarrow> u32 \<Rightarrow> u32 \<Rightarrow> ('fs, 'z) kernel_scheme \<Rightarrow> ('fs, 'z) kernel_scheme option"

definition timer_pending :: "u32 \<Rightarrow> ('fs, 'z) kernel_scheme \<Rightarrow> bool option" where
  "timer_pending timer s = link_connected (k_mem s) timer"

definition timer_remove :: "u32 \<Rightarrow> ('fs, 'z) kernel_scheme \<Rightarrow> ('fs, 'z) kernel_scheme option" where
  "timer_remove timer s = do { m \<leftarrow> list_remove (k_mem s) timer; Some (s\<lparr>k_mem := m\<rparr>) }"

text \<open>\<^verbatim>\<open>list_foreach\<close> over the timers, with the \<^verbatim>\<open>break\<close> at the first expired one.\<close>

definition expired :: "('fs, 'z) kernel_scheme \<Rightarrow> u32 \<Rightarrow> bool" where
  "expired s timer \<longleftrightarrow> tm_expires (tmr s timer) < jiffies s"

definition first_expired :: "('fs, 'z) kernel_scheme \<Rightarrow> u32 option" where
  "first_expired s = list_foreach_find (k_mem s) (timers_list s) (expired s)"

text \<open>The body of the \<^verbatim>\<open>do\<close> loop of \<^verbatim>\<open>timer_thread_func\<close> with the value its condition tests, the loop, and one round
  of the outer loop.\<close>

definition timer_thread_pass ::
  "('fs, 'z) timer_fns \<Rightarrow> ('fs, 'z) kernel_scheme \<Rightarrow> (u32 \<times> ('fs, 'z) kernel_scheme) option" where
  "timer_thread_pass H s = do {
     let (status, s1) = irq_off s;
     expired_timer \<leftarrow> first_expired s1;
     (handler, data, s2) \<leftarrow>
       (if expired_timer \<noteq> NULL then do {
          s' \<leftarrow> timer_remove expired_timer s1;
          let s'' = upd_timer expired_timer (\<lambda>t. t\<lparr>tm_running := True\<rparr>) s';
          Some (tm_handler (tmr s'' expired_timer), tm_data (tmr s'' expired_timer), s'')
        }
        else Some (NULL, NULL, s1));
     let s3 = irq_restore status s2;
     s4 \<leftarrow> (if handler \<noteq> NULL then H handler expired_timer data s3 else Some s3);
     let (status, s5) = irq_off s4;
     let s6 = (if expired_timer \<noteq> NULL then upd_timer expired_timer (\<lambda>t. t\<lparr>tm_running := False\<rparr>) s5 else s5);
     Some (expired_timer, irq_restore status s6)
   }"

partial_function (option) timer_thread_drain ::
  "('fs, 'z) timer_fns \<Rightarrow> ('fs, 'z) kernel_scheme \<Rightarrow> ('fs, 'z) kernel_scheme option" where
  "timer_thread_drain H s = do {
     (expired_timer, s1) \<leftarrow> timer_thread_pass H s;
     if expired_timer \<noteq> NULL then timer_thread_drain H s1 else Some s1
   }"

definition timer_thread_round ::
  "('fs, 'z) timer_fns \<Rightarrow> ('fs, 'z) kernel_scheme \<Rightarrow> (bool \<times> ('fs, 'z) kernel_scheme) option" where
  "timer_thread_round H s = do { s1 \<leftarrow> timer_thread_drain H s; thread_suspend s1 }"

definition timers_run :: "('fs, 'z) kernel_scheme \<Rightarrow> ('fs, 'z) kernel_scheme option" where
  "timers_run s = do {
     timer \<leftarrow> first_expired s;
     if timer \<noteq> NULL then map_option snd (thread_wakeup (timer_thread s) s) else Some s
   }"

definition timer_init_jiffies ::
  "u32 \<Rightarrow> u32 \<Rightarrow> u32 \<Rightarrow> u32 \<Rightarrow> ('fs, 'z) kernel_scheme \<Rightarrow> ('fs, 'z) kernel_scheme option" where
  "timer_init_jiffies timer timeout handler data s = do {
     m \<leftarrow> link_init (k_mem s) timer;
     Some (upd_timer timer (\<lambda>t. t\<lparr>tm_expires := 0, tm_timeout := timeout, tm_running := False,
       tm_handler := handler, tm_data := data\<rparr>) (s\<lparr>k_mem := m\<rparr>))
   }"

definition timer_start :: "u32 \<Rightarrow> ('fs, 'z) kernel_scheme \<Rightarrow> ('fs, 'z) kernel_scheme option" where
  "timer_start timer s = do {
     let (status, s1) = irq_off s;
     let s2 = upd_timer timer (\<lambda>t. t\<lparr>tm_expires := jiffies s1 + tm_timeout t\<rparr>) s1;
     m \<leftarrow> list_append (k_mem s2) (timers_list s2) timer;
     Some (irq_restore status (s2\<lparr>k_mem := m\<rparr>))
   }"

text \<open>\<^verbatim>\<open>timer_destroy\<close>. The part from the inner loop on either ends or, at a \<^verbatim>\<open>thread_yield\<close> that switched, stops
  with \<open>False\<close>; the thread then continues there when it runs again.\<close>

partial_function (option) timer_destroy_wait ::
  "u32 \<Rightarrow> ('fs, 'z) kernel_scheme \<Rightarrow> (bool \<times> ('fs, 'z) kernel_scheme) option" where
  "timer_destroy_wait timer s =
     (if tm_running (tmr s timer) then do {
        (switched, s1) \<leftarrow> thread_yield s;
        if switched then Some (False, s1) else timer_destroy_wait timer s1
      }
      else do {
        pending \<leftarrow> timer_pending timer s;
        if pending then do { s1 \<leftarrow> timer_remove timer s; timer_destroy_wait timer s1 } else Some (True, s)
      })"

definition timer_destroy_continue ::
  "u32 \<Rightarrow> u32 \<Rightarrow> ('fs, 'z) kernel_scheme \<Rightarrow> (bool \<times> ('fs, 'z) kernel_scheme) option" where
  "timer_destroy_continue timer status s = do {
     (done, s1) \<leftarrow> timer_destroy_wait timer s;
     Some (done, if done then irq_restore status s1 else s1)
   }"

definition timer_destroy :: "u32 \<Rightarrow> ('fs, 'z) kernel_scheme \<Rightarrow> (bool \<times> ('fs, 'z) kernel_scheme) option" where
  "timer_destroy timer s = do {
     let (status, s1) = irq_off s;
     pending \<leftarrow> timer_pending timer s1;
     s2 \<leftarrow> (if pending then timer_remove timer s1 else Some s1);
     timer_destroy_continue timer status s2
   }"

section \<open>The periodic interrupt\<close>

definition sched_timer :: "('fs, 'z) kernel_scheme \<Rightarrow> (bool \<times> ('fs, 'z) kernel_scheme) option" where
  "sched_timer s = do {
     s1 \<leftarrow> timers_run (s\<lparr>jiffies := jiffies s + 1\<rparr>);
     let s2 = s1\<lparr>k_cpu := timer_setup THREAD_QUANTUM (k_cpu s1)\<rparr>;
     let current = cur s2;
     let timestamp = timer_get (k_cpu s2);
     if timestamp - scheduled (thr s2 current) \<ge> THREAD_QUANTUM then schedule s2 else Some (False, s2)
   }"

section \<open>Sleeping\<close>

text \<open>\<^verbatim>\<open>thread_sleep\<close> and \<^verbatim>\<open>thread_usleep\<close> up to the switch to another thread (with the saved interrupt state), and from
  there on. \<open>fn\<close> is the address of \<^verbatim>\<open>thread_timeout_handler\<close>.\<close>

definition thread_sleep_jiffies ::
  "u32 \<Rightarrow> u32 \<Rightarrow> ('fs, 'z) kernel_scheme \<Rightarrow> (u32 \<times> bool \<times> ('fs, 'z) kernel_scheme) option" where
  "thread_sleep_jiffies fn timeout s = do {
     let (state, s1) = irq_off s;
     let current = cur s1;
     let s2 = upd_thread current (\<lambda>t. t\<lparr>t_state := THREAD_SLEEPING\<rparr>) s1;
     s3 \<leftarrow> sched_remove current s2;
     s4 \<leftarrow> timer_init_jiffies (thread_timer current) timeout fn current s3;
     s5 \<leftarrow> timer_start (thread_timer current) s4;
     (switched, s6) \<leftarrow> schedule s5;
     Some (state, switched, s6)
   }"

definition thread_sleep_awake ::
  "u32 \<Rightarrow> ('fs, 'z) kernel_scheme \<Rightarrow> (u32 \<times> bool \<times> ('fs, 'z) kernel_scheme) option" where
  "thread_sleep_awake current s = do {
     let remains = tm_expires (tmr s (thread_timer current)) - jiffies s;
     (done, s1) \<leftarrow> timer_destroy (thread_timer current) s;
     Some (remains, done, s1)
   }"

definition thread_sleep_begin ::
  "u32 \<Rightarrow> u32 \<Rightarrow> ('fs, 'z) kernel_scheme \<Rightarrow> (u32 \<times> bool \<times> ('fs, 'z) kernel_scheme) option" where
  "thread_sleep_begin fn sec s = thread_sleep_jiffies fn (sec_to_jiffies sec) s"

definition thread_sleep_end :: "u32 \<Rightarrow> u32 \<Rightarrow> ('fs, 'z) kernel_scheme \<Rightarrow> u32 \<times> ('fs, 'z) kernel_scheme" where
  "thread_sleep_end state remains s = (jiffies_to_sec remains, irq_restore state s)"

definition thread_usleep_begin ::
  "u32 \<Rightarrow> u32 \<Rightarrow> ('fs, 'z) kernel_scheme \<Rightarrow> (u32 \<times> bool \<times> ('fs, 'z) kernel_scheme) option" where
  "thread_usleep_begin fn usec s = thread_sleep_jiffies fn (usec_to_jiffies usec) s"

definition thread_usleep_end :: "u32 \<Rightarrow> u32 \<Rightarrow> ('fs, 'z) kernel_scheme \<Rightarrow> u32 \<times> ('fs, 'z) kernel_scheme" where
  "thread_usleep_end state remains s = (jiffies_to_usec remains, irq_restore state s)"

section \<open>The timers and the scheduler together\<close>

text \<open>\<open>U\<close> is the set of all timer structures; the ones that are pending are \<open>ts\<close>, in order. All of them call
  \<^verbatim>\<open>thread_timeout_handler\<close>, as the kernel's do, for a thread that exists.\<close>

definition timer_rel :: "u32 \<Rightarrow> u32 set \<Rightarrow> ('fs, 'z) kernel_scheme \<Rightarrow> sched_abs \<Rightarrow> u32 list \<Rightarrow> bool" where
  "timer_rel fn U s a ts \<longleftrightarrow>
     is_list (k_mem s) (timers_list s) ts \<and> set ts \<subseteq> U \<and> timers_list s \<notin> U \<and> NULL \<notin> U \<and>
     links_sep (insert (timers_list s) U) \<and> thread_timer ` known a \<subseteq> U \<and>
     link_cells (insert (timers_list s) U) \<inter> link_cells (sched_links s a) = {} \<and>
     timer_thread s \<in> known a \<and>
     (\<forall>t \<in> set ts. tm_handler (tmr s t) = fn \<and> tm_data (tmr s t) \<in> known a)"

lemma timer_rel_list: "timer_rel fn U s a ts \<Longrightarrow> is_list (k_mem s) (timers_list s) ts"
  by (simp add: timer_rel_def)

lemma sched_mid_mem:
  assumes "sched_mid s a" and "\<forall>x \<in> link_cells (sched_links s a). m x = k_mem s x"
  shows "sched_mid (s\<lparr>k_mem := m\<rparr>) a"
proof -
  have "is_list m (rq s) (queue a)"
    using assms is_list_cong [of "rq s" "queue a" m "k_mem s"] queue_cells [OF assms(1)]
    by (auto simp: sched_mid_def)
  then show ?thesis using assms(1) by (simp add: sched_mid_def)
qed

lemma sched_mid_tmr [simp]: "sched_mid (s\<lparr>tmr := f\<rparr>) a = sched_mid s a" "sched_mid (s\<lparr>jiffies := j\<rparr>) a = sched_mid s a"
  by (simp_all add: sched_mid_def)

text \<open>Scheduling operations do not touch the timers.\<close>

lemma timer_rel_frame:
  assumes T: "timer_rel fn U s a ts" and F: "sched_frame (sched_links s a) s s'" and "known b = known a"
  shows "timer_rel fn U s' b ts"
proof -
  have sub: "link_cells (set (timers_list s # ts)) \<subseteq> link_cells (insert (timers_list s) U)"
    using T by (intro link_cells_mono) (auto simp: timer_rel_def)
  have dj: "link_cells (insert (timers_list s) U) \<inter> link_cells (sched_links s a) = {}"
    using T by (simp add: timer_rel_def)
  have "is_list (k_mem s') (timers_list s) ts"
  proof (rule is_list_frame [OF timer_rel_list [OF T]])
    show "\<forall>x. x \<notin> link_cells (sched_links s a) \<longrightarrow> k_mem s' x = k_mem s x" using F by (simp add: sched_frame_def)
    show "link_cells (set (timers_list s # ts)) \<inter> link_cells (sched_links s a) = {}" using sub dj by blast
  qed
  then show ?thesis
    using assms by (simp add: timer_rel_def sched_frame_def)
qed

lemma find_first:
  "(case find P xs of None \<Rightarrow> NULL | Some x \<Rightarrow> x) = (if filter P xs = [] then NULL else hd (filter P xs))"
  by (induction xs) auto

lemma first_expired_eq:
  assumes "is_list (k_mem s) (timers_list s) ts"
  shows "first_expired s = Some (if filter (expired s) ts = [] then NULL else hd (filter (expired s) ts))"
  using list_foreach_find_correct [OF assms] by (simp add: first_expired_def find_first)

lemma timers_run_refines:
  assumes R: "sched_rel s a" and T: "timer_rel fn U s a ts"
  shows "\<exists>s'. timers_run s = Some s' \<and>
     sched_rel s' (if filter (expired s) ts = [] then a else spec_wakeup (timer_thread s) a) \<and>
     timer_rel fn U s' a ts \<and> sched_frame (sched_links s a) s s' \<and> (\<forall>t. scheduled (thr s' t) = scheduled (thr s t)) \<and>
     k_cpu s' = k_cpu s \<and> current_thread s' = current_thread s"
proof (cases "filter (expired s) ts = []")
  case True
  then show ?thesis using assms by (simp add: timers_run_def first_expired_eq [OF timer_rel_list [OF T]])
next
  case False
  then have "hd (filter (expired s) ts) \<in> set ts" by (metis filter_is_subset hd_in_set subsetD)
  then have ne: "hd (filter (expired s) ts) \<noteq> NULL" using T by (auto simp: timer_rel_def)
  have "running a \<notin> sleeping a" "timer_thread s \<in> known a" using R T by (auto simp: sched_rel_def sched_mid_def timer_rel_def)
  then obtain s' where s': "thread_wakeup (timer_thread s) s = Some (EOK, s')" "sched_mid s' (spec_wakeup (timer_thread s) a)"
    "sched_frame (sched_links s a) s s'"
    using wakeup_refines [of s a] R by (auto simp: sched_rel_def)
  moreover have "sched_rel s' (spec_wakeup (timer_thread s) a)"
    using s'(2) R by (auto simp: sched_rel_def spec_wakeup_def)
  moreover have "timer_rel fn U s' a ts" using timer_rel_frame [OF T s'(3) refl] .
  moreover have "(\<forall>t. scheduled (thr s' t) = scheduled (thr s t)) \<and> k_cpu s' = k_cpu s \<and> current_thread s' = current_thread s"
    using s'(1) by (auto simp: thread_wakeup_eq upd_thread_def split: if_splits)
  ultimately show ?thesis
    using False ne by (auto simp: timers_run_def first_expired_eq [OF timer_rel_list [OF T]])
qed


text \<open>The interrupt brackets cancel.\<close>

lemma timer_start_eq:
  "timer_start timer s = do {
     let s2 = upd_timer timer (\<lambda>t. t\<lparr>tm_expires := jiffies s + tm_timeout t\<rparr>) s;
     m \<leftarrow> list_append (k_mem s) (timers_list s) timer;
     Some (s2\<lparr>k_mem := m\<rparr>)
   }"
  by (rule irq_offE [of s], cases "list_append (k_mem s) (timers_list s) timer")
     (simp_all add: timer_start_def irq_restore_def upd_timer_def Let_def)

lemma timer_thread_pass_eq:
  "timer_thread_pass H s = do {
     e \<leftarrow> first_expired s;
     if e = NULL then Some (NULL, s)
     else do {
       m \<leftarrow> list_remove (k_mem s) e;
       let s3 = upd_timer e (\<lambda>t. t\<lparr>tm_running := True\<rparr>) (s\<lparr>k_mem := m\<rparr>);
       s4 \<leftarrow> (if tm_handler (tmr s e) \<noteq> NULL then H (tm_handler (tmr s e)) e (tm_data (tmr s e)) s3 else Some s3);
       Some (e, upd_timer e (\<lambda>t. t\<lparr>tm_running := False\<rparr>) s4)
     }
   }"
proof -
  obtain st c where i: "irq_off s = (st, s\<lparr>k_cpu := c\<rparr>)" "conditionally_enable_interrupts st c = k_cpu s"
    by (rule irq_offE)
  have fe: "first_expired (s\<lparr>k_cpu := c\<rparr>) = first_expired s"
    by (simp add: first_expired_def expired_def [abs_def])
  have tail: "(let (status, s5) = irq_off s4; s6 = (if e \<noteq> NULL then upd_timer e (\<lambda>t. t\<lparr>tm_running := False\<rparr>) s5 else s5)
      in Some (e, irq_restore status s6)) = Some (e, if e \<noteq> NULL then upd_timer e (\<lambda>t. t\<lparr>tm_running := False\<rparr>) s4 else s4)"
    for e and s4 :: "('a, 'b) kernel_scheme"
    by (rule irq_offE [of s4]) (simp add: upd_timer_def irq_restore_def)
  show ?thesis
  proof (cases "first_expired s")
    case None
    then show ?thesis by (simp add: timer_thread_pass_def i fe)
  next
    case (Some e)
    have cont: "(do { s4 \<leftarrow> X; let (status, s5) = irq_off s4;
        let s6 = (if e \<noteq> NULL then upd_timer e (\<lambda>t. t\<lparr>tm_running := False\<rparr>) s5 else s5); Some (e, irq_restore status s6) }) =
        (do { s4 \<leftarrow> X; Some (e, if e \<noteq> NULL then upd_timer e (\<lambda>t. t\<lparr>tm_running := False\<rparr>) s4 else s4) })"
      for X :: "('a, 'b) kernel_scheme option"
      unfolding tail ..
    show ?thesis
      unfolding timer_thread_pass_def i Let_def prod.case fe Some Option.bind.bind_lunit
      unfolding cont [unfolded Let_def]
      by (cases "e = NULL"; cases "list_remove (k_mem s) e")
        (simp_all add: i(2) timer_remove_def irq_restore_def upd_timer_def)
  qed
qed


section \<open>Draining the expired timers\<close>

text \<open>Changes of the timer list leave the scheduler alone.\<close>

lemma timer_cells:
  assumes T: "timer_rel fn U s a ts" and m: "\<forall>x. x \<notin> link_cells (insert (timers_list s) U) \<longrightarrow> m x = k_mem s x"
  shows "\<forall>x \<in> link_cells (sched_links s a). m x = k_mem s x"
proof
  fix x assume "x \<in> link_cells (sched_links s a)"
  moreover have "link_cells (insert (timers_list s) U) \<inter> link_cells (sched_links s a) = {}"
    using T by (simp add: timer_rel_def)
  ultimately show "m x = k_mem s x" using m by blast
qed

lemma sched_rel_mem:
  assumes "sched_rel s a" and "timer_rel fn U s a ts" and "\<forall>x. x \<notin> link_cells (insert (timers_list s) U) \<longrightarrow> m x = k_mem s x"
  shows "sched_rel (s\<lparr>k_mem := m\<rparr>) a"
  using assms sched_mid_mem [OF _ timer_cells [OF assms(2,3)]] by (simp add: sched_rel_def)

lemma timer_unlink:
  assumes R: "sched_rel s a" and T: "timer_rel fn U s a (ys @ x # zs)"
  shows "\<exists>m. list_remove (k_mem s) x = Some m \<and> link_connected m x = Some False \<and> sched_rel (s\<lparr>k_mem := m\<rparr>) a \<and>
     timer_rel fn U (s\<lparr>k_mem := m\<rparr>) a (ys @ zs)"
proof -
  obtain m where m: "list_remove (k_mem s) x = Some m" "is_list m (timers_list s) (ys @ zs)"
    "link_connected m x = Some False" "\<forall>y. y \<notin> link_cells (set (timers_list s # ys @ x # zs)) \<longrightarrow> m y = k_mem s y"
    using list_remove_correct [OF timer_rel_list [OF T]] by blast
  have "link_cells (set (timers_list s # ys @ x # zs)) \<subseteq> link_cells (insert (timers_list s) U)"
    using T by (intro link_cells_mono) (auto simp: timer_rel_def)
  then have "\<forall>y. y \<notin> link_cells (insert (timers_list s) U) \<longrightarrow> m y = k_mem s y" using m(4) by blast
  then have "sched_rel (s\<lparr>k_mem := m\<rparr>) a" by (rule sched_rel_mem [OF R T])
  moreover have "timer_rel fn U (s\<lparr>k_mem := m\<rparr>) a (ys @ zs)" using T m(2) by (auto simp: timer_rel_def)
  ultimately show ?thesis using m by blast
qed

lemma timer_rel_upd:
  "timer_rel fn U (upd_timer e f s) a ts = timer_rel fn U s a ts"
  if "\<And>t. tm_handler (f t) = tm_handler t" "\<And>t. tm_data (f t) = tm_data t"
  using that by (auto simp: timer_rel_def upd_timer_def)

lemma sched_rel_upd [simp]: "sched_rel (upd_timer e f s) a = sched_rel s a"
  by (simp add: sched_rel_def upd_timer_def)

text \<open>One pass over an expired timer takes it off the list and wakes its thread up.\<close>

lemma pass_refines:
  assumes R: "sched_rel s a" and T: "timer_rel fn U s a ts" and H: "fn \<noteq> NULL" "H fn = thread_timeout_handler"
    and e: "filter (expired s) ts = e # es"
  shows "\<exists>s'. timer_thread_pass H s = Some (e, s') \<and> e \<noteq> NULL \<and> sched_rel s' (spec_wakeup (tm_data (tmr s e)) a) \<and>
     timer_rel fn U s' (spec_wakeup (tm_data (tmr s e)) a) (remove1 e ts) \<and> jiffies s' = jiffies s \<and>
     (\<forall>t. tmr s' t = (if t = e then (tmr s e)\<lparr>tm_running := False\<rparr> else tmr s t))"
proof -
  obtain ys zs where ts: "ts = ys @ e # zs" "e \<notin> set ys"
    using e by (metis filter_eq_ConsD split_list_first in_set_conv_decomp)
  have en: "e \<noteq> NULL" and he: "tm_handler (tmr s e) = fn" "tm_data (tmr s e) \<in> known a"
    using T ts by (auto simp: timer_rel_def)
  obtain m where m: "list_remove (k_mem s) e = Some m" "sched_rel (s\<lparr>k_mem := m\<rparr>) a"
    "timer_rel fn U (s\<lparr>k_mem := m\<rparr>) a (ys @ zs)"
    using timer_unlink [OF R T [unfolded ts(1)]] by blast
  let ?s = "upd_timer e (\<lambda>t. t\<lparr>tm_running := True\<rparr>) (s\<lparr>k_mem := m\<rparr>)" and ?b = "spec_wakeup (tm_data (tmr s e)) a"
  have S: "sched_rel ?s a" "timer_rel fn U ?s a (ys @ zs)" using m(2,3) by (simp_all add: timer_rel_upd)
  have "sched_mid ?s a" "running a \<notin> sleeping a" using S(1) by (auto simp: sched_rel_def sched_mid_def)
  then obtain s' where s': "thread_wakeup (tm_data (tmr s e)) ?s = Some (EOK, s')" "sched_mid s' ?b"
    "sched_frame (sched_links ?s a) ?s s'"
    using wakeup_refines [of ?s a] he(2) by blast
  have "sched_rel s' ?b" using s'(2) S(1) by (auto simp: sched_rel_def spec_wakeup_def)
  moreover have "timer_rel fn U s' ?b (ys @ zs)" using timer_rel_frame [OF S(2) s'(3)] by simp
  moreover have "timer_thread_pass H s = Some (e, upd_timer e (\<lambda>t. t\<lparr>tm_running := False\<rparr>) s')"
    using m(1) s'(1) e en H he(1)
    by (simp add: timer_thread_pass_eq first_expired_eq [OF timer_rel_list [OF T]] thread_timeout_handler_def)
  moreover have "tmr s' = tmr ?s" "jiffies s' = jiffies ?s" using s'(3) by (simp_all add: sched_frame_def)
  moreover have "tmr (upd_timer e (\<lambda>t. t\<lparr>tm_running := False\<rparr>) s') t =
      (if t = e then (tmr s e)\<lparr>tm_running := False\<rparr> else tmr s t)" for t
    using calculation(4) by (simp add: upd_timer_def)
  ultimately show ?thesis
    using en ts by (intro exI [of _ "upd_timer e (\<lambda>t. t\<lparr>tm_running := False\<rparr>) s'"])
      (simp add: timer_rel_upd remove1_append, simp add: upd_timer_def)
qed

lemma filter_remove1_hd:
  assumes "filter P ts = e # es" and "distinct ts"
  shows "filter P (remove1 e ts) = es" and "filter (\<lambda>t. \<not> P t) (remove1 e ts) = filter (\<lambda>t. \<not> P t) ts"
proof -
  have e: "P e" using assms(1) by (metis filter_eq_Cons_iff)
  show "filter P (remove1 e ts) = es" using assms(1) e by (simp add: filter_remove1)
  show "filter (\<lambda>t. \<not> P t) (remove1 e ts) = filter (\<lambda>t. \<not> P t) ts"
    using e by (simp add: filter_remove1 remove1_idem)
qed

lemma drain_refines:
  assumes "sched_rel s a" and "timer_rel fn U s a ts" and H: "fn \<noteq> NULL" "H fn = thread_timeout_handler"
    and "filter (expired s) ts = es"
  shows "\<exists>s'. timer_thread_drain H s = Some s' \<and> sched_rel s' (fold (\<lambda>t. spec_wakeup (tm_data (tmr s t))) es a) \<and>
     timer_rel fn U s' (fold (\<lambda>t. spec_wakeup (tm_data (tmr s t))) es a) (filter (\<lambda>t. \<not> expired s t) ts) \<and>
     jiffies s' = jiffies s \<and> (\<forall>t. tmr s' t = (if t \<in> set es then (tmr s t)\<lparr>tm_running := False\<rparr> else tmr s t))"
  using assms(1,2,5)
proof (induction es arbitrary: s a ts)
  case Nil
  then have "timer_thread_pass H s = Some (NULL, s)"
    by (simp add: timer_thread_pass_eq first_expired_eq [OF timer_rel_list [OF Nil.prems(2)]])
  moreover have "filter (\<lambda>t. \<not> expired s t) ts = ts" using Nil.prems(3) by (simp add: filter_empty_conv)
  ultimately show ?case using Nil.prems by (subst timer_thread_drain.simps) simp
next
  case (Cons e es)
  let ?b = "spec_wakeup (tm_data (tmr s e)) a"
  obtain s1 where s1: "timer_thread_pass H s = Some (e, s1)" "e \<noteq> NULL" "sched_rel s1 ?b"
    "timer_rel fn U s1 ?b (remove1 e ts)" "jiffies s1 = jiffies s"
    "\<forall>t. tmr s1 t = (if t = e then (tmr s e)\<lparr>tm_running := False\<rparr> else tmr s t)"
    using pass_refines [OF Cons.prems(1,2) H(1), of H] H(2) Cons.prems(3) by blast
  have ex: "expired s1 = expired s" using s1(5,6) by (intro ext) (simp add: expired_def)
  have d: "distinct ts" using is_listD(2) [OF timer_rel_list [OF Cons.prems(2)]] by simp
  note f = filter_remove1_hd [OF Cons.prems(3) d]
  have data: "tm_data (tmr s1 t) = tm_data (tmr s t)" for t using s1(6) by simp
  obtain s' where s': "timer_thread_drain H s1 = Some s'"
    "sched_rel s' (fold (\<lambda>t. spec_wakeup (tm_data (tmr s t))) es ?b)"
    "timer_rel fn U s' (fold (\<lambda>t. spec_wakeup (tm_data (tmr s t))) es ?b) (filter (\<lambda>t. \<not> expired s t) ts)"
    "jiffies s' = jiffies s1" "\<forall>t. tmr s' t = (if t \<in> set es then (tmr s1 t)\<lparr>tm_running := False\<rparr> else tmr s1 t)"
    using Cons.IH [OF s1(3,4), unfolded ex data, OF f(1), unfolded f(2)] by blast
  then show ?case
    using s1 by (subst timer_thread_drain.simps) (auto simp: s1(1))
qed


section \<open>Going to sleep\<close>

lemma timer_literal:
  "t\<lparr>tm_timeout := n, tm_running := r, tm_handler := h, tm_data := d, tm_expires := e\<rparr> =
     \<lparr>tm_timeout = n, tm_expires = e, tm_running = r, tm_handler = h, tm_data = d\<rparr>"
  by (cases t) simp

lemma timer_insert:
  assumes M: "sched_mid s a" and T: "timer_rel fn U s a ts" and x: "x \<in> U" "x \<notin> set ts" and d: "d \<in> known a"
  shows "\<exists>s1 s2. timer_init_jiffies x n fn d s = Some s1 \<and> timer_start x s1 = Some s2 \<and> sched_mid s2 a \<and>
     timer_rel fn U s2 a (ts @ [x]) \<and> k_cpu s2 = k_cpu s \<and> k_cpuid s2 = k_cpuid s \<and> runnable_list s2 = runnable_list s \<and>
     jiffies s2 = jiffies s \<and> timer_thread s2 = timer_thread s \<and>
     tmr s2 = (tmr s)(x := \<lparr>tm_timeout = n, tm_expires = jiffies s + n, tm_running = False, tm_handler = fn, tm_data = d\<rparr>)"
proof -
  note D = T [unfolded timer_rel_def]
  have xn: "x \<noteq> NULL" "x \<noteq> timers_list s" using x D by auto
  obtain m1 where m1: "link_init (k_mem s) x = Some m1" "\<forall>y. y \<notin> link_cells {x} \<longrightarrow> m1 y = k_mem s y"
    using link_init_unconnected [OF xn(1), of "k_mem s"] by blast
  have sepU: "links_sep (insert x (set (timers_list s # ts)))" using D x by (auto elim!: links_sep_subset)
  have "link_cells (set (timers_list s # ts)) \<inter> link_cells {x} = {}"
    using sepU x(2) xn by (auto simp: link_cells_def links_sep_def)
  with timer_rel_list [OF T] m1(2) have L1: "is_list m1 (timers_list s) ts" by (rule is_list_frame)
  obtain m2 where m2: "list_append m1 (timers_list s) x = Some m2" "is_list m2 (timers_list s) (ts @ [x])"
    "\<forall>y. y \<notin> link_cells (insert x (set (timers_list s # ts))) \<longrightarrow> m2 y = m1 y"
    using list_append_correct [OF L1 _ xn(1) sepU] x xn by auto
  have c: "link_cells {x} \<subseteq> link_cells (insert (timers_list s) U)"
    "link_cells (insert x (set (timers_list s # ts))) \<subseteq> link_cells (insert (timers_list s) U)"
    using D x by (auto intro!: link_cells_mono)
  have "m2 y = k_mem s y" if "y \<notin> link_cells (insert (timers_list s) U)" for y
    using that m1(2) m2(3) subsetD [OF c(1), of y] subsetD [OF c(2), of y] by metis
  then have M2: "sched_mid (s\<lparr>k_mem := m2\<rparr>) a" by (intro sched_mid_mem [OF M] timer_cells [OF T]) blast
  define t1 where "t1 = (tmr s)(x := \<lparr>tm_timeout = n, tm_expires = jiffies s + n, tm_running = False, tm_handler = fn, tm_data = d\<rparr>)"
  have T2: "timer_rel fn U (s\<lparr>k_mem := m2, tmr := t1\<rparr>) a (ts @ [x])"
    using D m2(2) x d by (auto simp: timer_rel_def t1_def)
  obtain s1 where s1: "timer_init_jiffies x n fn d s = Some s1"
    "s1 = upd_timer x (\<lambda>t. t\<lparr>tm_expires := 0, tm_timeout := n, tm_running := False, tm_handler := fn, tm_data := d\<rparr>) (s\<lparr>k_mem := m1\<rparr>)"
    using m1(1) by (simp add: timer_init_jiffies_def)
  have "timer_start x s1 = Some (s\<lparr>k_mem := m2, tmr := t1\<rparr>)"
    using m2(1) by (simp add: timer_start_eq s1(2) upd_timer_def t1_def timer_literal)
  moreover have "sched_mid (s\<lparr>k_mem := m2, tmr := t1\<rparr>) a" using M2 by (simp only: sched_mid_tmr)
  ultimately show ?thesis using s1(1) T2
    by (intro exI [of _ s1] exI [of _ "s\<lparr>k_mem := m2, tmr := t1\<rparr>"]) (simp add: t1_def)
qed

lemma sleep_refines:
  assumes R: "sched_rel s a" and T: "timer_rel fn U s a ts" and x: "thread_timer (running a) \<notin> set ts"
    and ne: "queue (spec_leave a) \<noteq> []"
  shows "\<exists>st s'. thread_sleep_jiffies fn n s = Some (st, True, s') \<and> sched_rel s' (spec_suspend a) \<and>
     timer_rel fn U s' (spec_suspend a) (ts @ [thread_timer (running a)]) \<and> jiffies s' = jiffies s \<and>
     tmr s' = (tmr s)(thread_timer (running a) :=
       \<lparr>tm_timeout = n, tm_expires = jiffies s + n, tm_running = False, tm_handler = fn, tm_data = running a\<rparr>)"
proof -
  obtain st c where i: "irq_off s = (st, s\<lparr>k_cpu := c\<rparr>)" by (rule irq_offE)
  let ?a = "(spec_leave a)\<lparr>sleeping := insert (running a) (sleeping a)\<rparr>" and ?x = "thread_timer (running a)"
  have c: "cur s = running a" and rk: "running a \<in> known a" "running a \<in> set (queue a)"
    using R by (auto simp: sched_rel_def sched_mid_def)
  have k: "known ?a = known a" using rk(2)
    by (auto simp: known_def spec_leave_def dest: set_mp [OF set_remove1_subset])
  obtain m where m: "list_remove (k_mem s) (cur s) = Some m" "\<forall>x. x \<notin> link_cells (sched_links s a) \<longrightarrow> m x = k_mem s x"
    "sched_mid (upd_thread (cur s) (\<lambda>t. t\<lparr>t_state := THREAD_SLEEPING\<rparr>) s\<lparr>k_mem := m\<rparr>) ?a"
    using leave_refines [OF R] by blast
  let ?s = "(upd_thread (cur s) (\<lambda>t. t\<lparr>t_state := THREAD_SLEEPING\<rparr>) s)\<lparr>k_mem := m, k_cpu := c\<rparr>"
  have M: "sched_mid ?s ?a" using m(3) by (simp only: sched_mid_cpu)
  have "sched_frame (sched_links s a) s ?s" using m(2) by (simp add: sched_frame_def upd_thread_def)
  then have T1: "timer_rel fn U ?s ?a ts" using timer_rel_frame [OF T _ k] by blast
  have xU: "?x \<in> U" using T rk by (auto simp: timer_rel_def)
  obtain s1 s2 where s2: "timer_init_jiffies ?x n fn (running a) ?s = Some s1" "timer_start ?x s1 = Some s2"
    "sched_mid s2 ?a" "timer_rel fn U s2 ?a (ts @ [?x])" "jiffies s2 = jiffies ?s"
    "tmr s2 = (tmr ?s)(?x := \<lparr>tm_timeout = n, tm_expires = jiffies ?s + n, tm_running = False, tm_handler = fn, tm_data = running a\<rparr>)"
    using timer_insert [OF M T1 xU x, of "running a" n] rk(1) k by auto
  obtain s' where s': "schedule s2 = Some (True, s')" "sched_rel s' (spec_suspend a)" "sched_frame (sched_links s2 ?a) s2 s'"
    using schedule_refines [OF s2(3)] ne by (auto simp: spec_suspend_def)
  have "timer_rel fn U s' (spec_suspend a) (ts @ [?x])"
    by (rule timer_rel_frame [OF s2(4) s'(3)]) (simp add: spec_suspend_def)
  moreover have "thread_sleep_jiffies fn n s = Some (st, True, s')"
    using m(1) s2(1,2) s'(1)
    by (simp add: thread_sleep_jiffies_def i sched_remove_eq c Let_def upd_thread_def upd_order)
  ultimately show ?thesis using s' s2(5,6) by (auto simp: sched_frame_def upd_thread_def)
qed

lemma sched_timer_refines:
  assumes R: "sched_rel s a" and T: "timer_rel fn U s a ts"
    and b: "b = (if filter (\<lambda>t. tm_expires (tmr s t) < jiffies s + 1) ts = [] then a else spec_wakeup (timer_thread s) a)"
    and p: "preempt = (r_count (k_cpu s) - scheduled (thr s (cur s)) \<ge> THREAD_QUANTUM)"
  shows "\<exists>s'. sched_timer s = Some (preempt, s') \<and> jiffies s' = jiffies s + 1 \<and> tmr s' = tmr s \<and>
     sched_rel s' (if preempt then spec_switch b else b) \<and> timer_rel fn U s' (if preempt then spec_switch b else b) ts \<and>
     (\<not> preempt \<longrightarrow> r_compare (k_cpu s') = r_count (k_cpu s) + THREAD_QUANTUM)"
proof -
  let ?s = "s\<lparr>jiffies := jiffies s + 1\<rparr>"
  have "sched_rel ?s a" "timer_rel fn U ?s a ts" "expired ?s = (\<lambda>t. tm_expires (tmr s t) < jiffies s + 1)"
    using R T by (auto simp: sched_rel_def timer_rel_def expired_def)
  note ok = this
  have tt: "timer_thread ?s = timer_thread s" by simp
  obtain s1 where s1: "timers_run ?s = Some s1" "sched_rel s1 b"
    "timer_rel fn U s1 a ts" "sched_frame (sched_links ?s a) ?s s1" "\<forall>t. scheduled (thr s1 t) = scheduled (thr s t)"
    "k_cpu s1 = k_cpu s" "current_thread s1 = current_thread s"
    using timers_run_refines [OF ok(1,2), unfolded ok(3) tt b [symmetric]] by auto
  let ?s2 = "s1\<lparr>k_cpu := timer_setup THREAD_QUANTUM (k_cpu s1)\<rparr>"
  have kb: "known b = known a" using b by simp
  have R2: "sched_rel ?s2 b" using s1(2) by (simp add: sched_rel_def)
  have T2: "timer_rel fn U ?s2 b ts" using s1(3) kb by (simp add: timer_rel_def)
  have fr: "k_cpuid s1 = k_cpuid s" "jiffies s1 = jiffies s + 1" "tmr s1 = tmr s" using s1(4) by (simp_all add: sched_frame_def)
  have cp: "r_count (timer_setup THREAD_QUANTUM (k_cpu s1)) = r_count (k_cpu s)"
    "r_compare (timer_setup THREAD_QUANTUM (k_cpu s1)) = r_count (k_cpu s) + THREAD_QUANTUM"
    using s1(6) by (simp_all add: timer_setup_def cp0_write_defs cp0_read_defs)
  have run: "sched_timer s = (if preempt then schedule ?s2 else Some (False, ?s2))"
    using s1(1,5,7) fr(1) cp(1) p by (simp add: sched_timer_def timer_get_def cp0_read_defs)
  show ?thesis
  proof (cases preempt)
    case False
    then show ?thesis using run R2 T2 fr cp(2) by auto
  next
    case True
    have "sched_mid ?s2 b" "queue b \<noteq> []" using R2 by (auto simp: sched_rel_def)
    from schedule_refines [OF this] obtain s' where s': "schedule ?s2 = Some (True, s')" "sched_rel s' (spec_switch b)"
      "sched_frame (sched_links ?s2 b) ?s2 s'" by blast
    have "timer_rel fn U s' (spec_switch b) ts" by (rule timer_rel_frame [OF T2 s'(3)]) simp
    then show ?thesis using True run s' fr by (auto simp: sched_frame_def)
  qed
qed


section \<open>Taking a timer down\<close>

lemma destroy_done:
  assumes "\<not> tm_running (tmr s x)" and "link_connected (k_mem s) x = Some False"
  shows "timer_destroy_wait x s = Some (True, s)"
  using assms by (subst timer_destroy_wait.simps) (simp add: timer_pending_def)

lemma destroy_refines:
  assumes R: "sched_rel s a" and T: "timer_rel fn U s a ts" and nr: "\<not> tm_running (tmr s x)"
    and pend: "link_connected (k_mem s) x = Some (x \<in> set ts)"
  shows "\<exists>m. timer_destroy x s = Some (True, s\<lparr>k_mem := m\<rparr>) \<and> link_connected m x = Some False \<and>
     sched_rel (s\<lparr>k_mem := m\<rparr>) a \<and> timer_rel fn U (s\<lparr>k_mem := m\<rparr>) a (remove1 x ts)"
proof -
  obtain st c where i: "irq_off s = (st, s\<lparr>k_cpu := c\<rparr>)" "conditionally_enable_interrupts st c = k_cpu s" by (rule irq_offE)
  show ?thesis
  proof (cases "x \<in> set ts")
    case False
    have "timer_destroy_wait x (s\<lparr>k_cpu := c\<rparr>) = Some (True, s\<lparr>k_cpu := c\<rparr>)"
      using nr pend False by (intro destroy_done) simp_all
    then show ?thesis using False R T pend
      by (intro exI [of _ "k_mem s"])
         (simp add: timer_destroy_def timer_destroy_continue_def timer_pending_def i irq_restore_def remove1_idem)
  next
    case True
    then obtain ys zs where ts: "ts = ys @ x # zs" "x \<notin> set ys" by (auto dest: split_list_first)
    obtain m where m: "list_remove (k_mem s) x = Some m" "link_connected m x = Some False"
      "sched_rel (s\<lparr>k_mem := m\<rparr>) a" "timer_rel fn U (s\<lparr>k_mem := m\<rparr>) a (ys @ zs)"
      using timer_unlink [OF R T [unfolded ts(1)]] by blast
    have "timer_destroy_wait x (s\<lparr>k_cpu := c, k_mem := m\<rparr>) = Some (True, s\<lparr>k_cpu := c, k_mem := m\<rparr>)"
      using nr m(2) by (intro destroy_done) simp_all
    then show ?thesis using True ts m pend
      by (intro exI [of _ m])
         (simp add: timer_destroy_def timer_destroy_continue_def timer_pending_def timer_remove_def i irq_restore_def remove1_append)
  qed
qed

section \<open>A system with timers\<close>

definition small_timers :: "nat set kernel" where
  "small_timers = small_kernel\<lparr>k_mem := small_mem(0x80003000 := 0x80003000, 0x80003004 := 0x80003000)\<rparr>"

lemma small_timer_rel:
  "sched_rel small_timers small_sched"
  "timer_rel 0x80000500 {0x8001002C, 0x8002002C, 0x8003002C} small_timers small_sched []"
proof -
  have "is_list (small_mem(0x80003000 := 0x80003000, 0x80003004 := 0x80003000)) 0x80002000 [0x80020000, 0x80010000]"
    by (simp add: is_list_def links_sep_def link_next_def link_prev_def small_mem_def)
  then show "sched_rel small_timers small_sched"
    using small_sched_rel by (simp add: sched_rel_def sched_mid_def small_timers_def small_sched_def small_kernel_def)
  have k: "known small_sched = {0x80020000, 0x80010000, 0x80030000}" by (auto simp: known_def small_sched_def)
  have "is_list (small_mem(0x80003000 := 0x80003000, 0x80003004 := 0x80003000)) 0x80003000 []"
    by (simp add: is_list_empty_iff link_next_def link_prev_def)
  then show "timer_rel 0x80000500 {0x8001002C, 0x8002002C, 0x8003002C} small_timers small_sched []"
    unfolding timer_rel_def k
    by (simp add: small_timers_def small_kernel_def links_sep_def link_cells_def thread_timer_def)
qed

section \<open>Properties\<close>

text \<open>\<^verbatim>\<open>thread_sleep\<close> takes the caller off the run queue, appends its timer, due \<open>sec\<close> seconds of jiffies from now, to
  the list of timers, and another thread runs. The expiry time wraps around: the timer counts as expired at once
  exactly when the sum of the tick counter and the timeout does not fit into 32 bits.\<close>

theorem thread_sleep_sets_timer:
  assumes "sched_rel s a" and "timer_rel fn U s a ts" and "thread_timer (running a) \<notin> set ts"
    and "queue (spec_leave a) \<noteq> []"
  shows "\<exists>st s'. thread_sleep_begin fn sec s = Some (st, True, s') \<and> sched_rel s' (spec_suspend a) \<and>
     timer_rel fn U s' (spec_suspend a) (ts @ [thread_timer (running a)]) \<and>
     tm_expires (tmr s' (thread_timer (running a))) = jiffies s + sec_to_jiffies sec \<and>
     tm_data (tmr s' (thread_timer (running a))) = running a \<and>
     (expired s' (thread_timer (running a)) \<longleftrightarrow> 2 ^ 32 \<le> unat (jiffies s) + unat (sec_to_jiffies sec))"
proof -
  have wrap: "j + n < j \<longleftrightarrow> 2 ^ 32 \<le> unat j + unat n" for j n :: u32
    using unat_u32_less [of n] unat_u32_less [of j] by (auto simp: word_less_nat_alt unat_word_ariths mod_if)
  show ?thesis
    using sleep_refines [OF assms, of "sec_to_jiffies sec"]
    by (auto simp: thread_sleep_begin_def expired_def wrap)
qed

theorem thread_sleep_sets_timer_witness:
  "\<exists>st s'. thread_sleep_begin 0x80000500 2 small_timers = Some (st, True, s') \<and>
     tm_expires (tmr s' 0x8001002C) = 2000 \<and> \<not> expired s' 0x8001002C"
proof -
  have "queue (spec_leave small_sched) \<noteq> []" "running small_sched = 0x80010000"
    by (simp_all add: small_sched_def spec_leave_def)
  with thread_sleep_sets_timer [OF small_timer_rel, of 2] show ?thesis
    by (auto simp: thread_timer_def sec_to_jiffies_def TIMER_PERIOD_def small_timers_def small_kernel_def)
qed

lemma wakeups_keep: "running (fold (\<lambda>t. spec_wakeup (f t)) es a) = running a"
  by (induction es arbitrary: a) (simp_all add: spec_wakeup_def)

text \<open>C17: A round of the timer thread ends, whatever has expired: it takes exactly the expired timers off the list, wakes their threads up in the order of the list, leaves the
  others pending in order, and no handler is marked as running. Then the timer thread goes to sleep and the first thread of the run queue runs. As everywhere, there has to be a
  runnable thread beside the one that goes to sleep.\<close>

theorem timer_round_wakes_expired:
  assumes "sched_rel s a" and "timer_rel fn U s a ts" and "fn \<noteq> NULL" and "H fn = thread_timeout_handler"
    and "t \<in> set (queue b)" and "t \<noteq> running a" and "b = fold (\<lambda>t. spec_wakeup (tm_data (tmr s t))) (filter (expired s) ts) a"
  shows "\<exists>s'. timer_thread_round H s = Some (True, s') \<and> sched_rel s' (spec_suspend b) \<and>
     timer_rel fn U s' (spec_suspend b) (filter (\<lambda>t. \<not> expired s t) ts) \<and> (\<forall>t \<in> set ts. expired s t \<longrightarrow> \<not> tm_running (tmr s' t)) \<and>
     t_state (thr s' (cur s)) = THREAD_SLEEPING \<and> cur s' = hd (remove1 (cur s) (queue b))"
proof -
  obtain s1 where d: "timer_thread_drain H s = Some s1" "sched_rel s1 b" "timer_rel fn U s1 b (filter (\<lambda>t. \<not> expired s t) ts)"
    "\<forall>t. tmr s1 t = (if t \<in> set (filter (expired s) ts) then (tmr s t)\<lparr>tm_running := False\<rparr> else tmr s t)"
    using drain_refines [OF assms(1-3), of H "filter (expired s) ts"] assms(4) unfolding assms(7) by blast
  have c: "cur s = running b" using assms(1) by (simp add: assms(7) wakeups_keep sched_rel_def sched_mid_def)
  have "running b = running a" by (simp add: assms(7) wakeups_keep)
  then have "t \<in> set (queue (spec_leave b))" using assms(5,6) by (simp add: spec_leave_def in_set_remove1)
  then have "queue (spec_leave b) \<noteq> []" by auto
  from suspend_refines [OF d(2) this] obtain s' where s': "thread_suspend s1 = Some (True, s')" "sched_rel s' (spec_suspend b)"
    "sched_frame (sched_links s1 b) s1 s'" by blast
  have k: "known (spec_suspend b) = known b" using known_leave_running(1) [OF d(2)] by (simp add: spec_suspend_def)
  have r: "running b \<in> known (spec_suspend b)" "running b \<in> sleeping (spec_suspend b)"
    by (auto simp: spec_suspend_def spec_switch_def known_def)
  have "timer_rel fn U s' (spec_suspend b) (filter (\<lambda>t. \<not> expired s t) ts)"
    using timer_rel_frame [OF d(3) s'(3) k] by simp
  moreover have "t_state (thr s' (cur s)) = THREAD_SLEEPING" using s'(2) r unfolding c sched_rel_def sched_mid_def by simp
  moreover have "cur s' = hd (remove1 (cur s) (queue b))" using s'(2) unfolding c sched_rel_def sched_mid_def
    by (simp add: spec_suspend_def spec_switch_def spec_leave_def)
  moreover have "\<forall>t \<in> set ts. expired s t \<longrightarrow> \<not> tm_running (tmr s' t)" using d(4) s'(3) by (simp add: sched_frame_def)
  ultimately show ?thesis using d(1) s'(1,2) by (simp add: timer_thread_round_def)
qed



text \<open>\<^verbatim>\<open>timer_destroy\<close> of a timer whose handler is not running returns without giving up the processor; afterwards the
  timer is not pending, the other timers are, and the interrupt state is what it was.\<close>

theorem timer_destroy_unlinks:
  assumes "sched_rel s a" and "timer_rel fn U s a ts" and "\<not> tm_running (tmr s x)"
    and "link_connected (k_mem s) x = Some (x \<in> set ts)"
  shows "\<exists>m. timer_destroy x s = Some (True, s\<lparr>k_mem := m\<rparr>) \<and> timer_pending x (s\<lparr>k_mem := m\<rparr>) = Some False \<and>
     sched_rel (s\<lparr>k_mem := m\<rparr>) a \<and> timer_rel fn U (s\<lparr>k_mem := m\<rparr>) a (remove1 x ts)"
  using destroy_refines [OF assms] by (simp add: timer_pending_def)

text \<open>The result of \<^verbatim>\<open>thread_sleep\<close> for a thread that its timer woke up \<open>k\<close> ticks after the expiry: zero while \<open>k\<close> is
  below one second, and a number of more than four million seconds afterwards.\<close>

theorem sleep_result_wraps:
  assumes "0 < k" and "unat expires + k = unat now"
  shows "unat (fst (thread_sleep_end st (expires - now) s)) = (if k < 1000 then 0 else (2 ^ 32 - k + 999) div 1000)"
proof -
  have k: "k < 2 ^ 32" using assms(2) unat_u32_less [of now] by simp
  have "int (unat expires) + int k = int (unat now)" using assms(2) by (metis of_nat_add)
  then have "uint expires - uint now = - int k" unfolding uint_nat by linarith
  then have "uint (expires - now) = (- int k) mod 2 ^ 32" by (simp add: uint_word_ariths)
  also have "\<dots> = 2 ^ 32 - int k" using k assms(1) by (simp add: zmod_zminus1_eq_if)
  finally have "unat (expires - now) = 2 ^ 32 - k" by (simp only: unat_eq_nat_uint nat_diff_distrib) (use k in simp)
  moreover have "unat (x + 999) = (unat x + 999) mod 2 ^ 32" for x :: u32
    using unat_word_ariths(1) [of x 999] by simp
  moreover have "expires - now + TIMER_PERIOD - 1 = (expires - now) + 999" by (simp add: TIMER_PERIOD_def)
  ultimately have "unat (expires - now + TIMER_PERIOD - 1) = (2 ^ 32 - k + 999) mod 2 ^ 32" by metis
  also have "\<dots> = (if k < 1000 then 999 - k else 2 ^ 32 - k + 999)" using k assms(1) by (auto simp: mod_if)
  finally have "unat (jiffies_to_sec (expires - now)) = (if k < 1000 then 0 else (2 ^ 32 - k + 999) div 1000)"
    by (simp add: jiffies_to_sec_def unat_div TIMER_PERIOD_def)
  then show ?thesis by (simp add: thread_sleep_end_def)
qed


theorem sleep_result_wraps_witness:
  "unat (fst (thread_sleep_end 0 (1000 - 2000) small_kernel)) = 4294967"
  using sleep_result_wraps [of 1000 1000 2000 0 small_kernel] by simp

text \<open>The list of timers with the timer of the running thread in it, at a time after its expiry.\<close>

lemma expired_timer_example:
  obtains s' :: "nat set kernel" where "sched_rel s' (spec_suspend small_sched)"
    "timer_rel 0x80000500 {0x8001002C, 0x8002002C, 0x8003002C} s' (spec_suspend small_sched) [0x8001002C]"
    "expired s' 0x8001002C" "tm_data (tmr s' 0x8001002C) = 0x80010000" "\<not> tm_running (tmr s' 0x8001002C)"
proof -
  have "queue (spec_leave small_sched) \<noteq> []" "running small_sched = 0x80010000"
    by (simp_all add: small_sched_def spec_leave_def)
  note q = this
  have t: "thread_timer 0x80010000 = 0x8001002C" "jiffies small_timers = 0"
    by (simp_all add: thread_timer_def small_timers_def small_kernel_def)
  obtain s' :: "nat set kernel" where s': "sched_rel s' (spec_suspend small_sched)"
    "timer_rel 0x80000500 {0x8001002C, 0x8002002C, 0x8003002C} s' (spec_suspend small_sched) [0x8001002C]"
    "tm_data (tmr s' 0x8001002C) = 0x80010000" "tm_expires (tmr s' 0x8001002C) = 5" "\<not> tm_running (tmr s' 0x8001002C)"
    using sleep_refines [OF small_timer_rel _ q(1), of 5] unfolding q(2) t by auto
  then show ?thesis
    by (intro that [of "s'\<lparr>jiffies := 6\<rparr>"]) (auto simp: sched_rel_def timer_rel_def expired_def)
qed

theorem timer_round_wakes_expired_witness:
  "\<exists>s s' :: nat set kernel. timer_thread_round (\<lambda>_. thread_timeout_handler) s = Some (True, s') \<and>
     t_state (thr s' (cur s)) = THREAD_SLEEPING \<and> cur s' = 0x80010000"
proof -
  obtain s :: "nat set kernel" where s: "sched_rel s (spec_suspend small_sched)"
    "timer_rel 0x80000500 {0x8001002C, 0x8002002C, 0x8003002C} s (spec_suspend small_sched) [0x8001002C]"
    "expired s 0x8001002C" "tm_data (tmr s 0x8001002C) = 0x80010000"
    using expired_timer_example by blast
  define b where "b = fold (\<lambda>t. spec_wakeup (tm_data (tmr s t))) (filter (expired s) [0x8001002C]) (spec_suspend small_sched)"
  have q: "queue b = [0x80020000, 0x80010000]" "running (spec_suspend small_sched) = 0x80020000"
    using s(3,4) by (simp_all add: b_def small_sched_def spec_suspend_def spec_switch_def spec_leave_def spec_wakeup_def)
  have "cur s = 0x80020000" using s(1) q(2) by (simp add: sched_rel_def sched_mid_def)
  moreover obtain s' where "timer_thread_round (\<lambda>_. thread_timeout_handler) s = Some (True, s')" "t_state (thr s' (cur s)) = THREAD_SLEEPING" "cur s' = hd (remove1 (cur s) (queue b))"
    using timer_round_wakes_expired [OF s(1,2) _ refl, of "0x80010000" b, OF _ _ _ b_def] q by auto
  ultimately show ?thesis using q(1) by (intro exI [of _ s] exI [of _ s']) simp
qed

theorem timer_destroy_unlinks_witness:
  "\<exists>s m. timer_destroy 0x8001002C (s :: nat set kernel) = Some (True, s\<lparr>k_mem := m\<rparr>)"
proof -
  obtain s :: "nat set kernel" where s: "sched_rel s (spec_suspend small_sched)"
    "timer_rel 0x80000500 {0x8001002C, 0x8002002C, 0x8003002C} s (spec_suspend small_sched) [0x8001002C]"
    "\<not> tm_running (tmr s 0x8001002C)"
    using expired_timer_example by blast
  have "lseg (k_mem s) (timers_list s) [0x8001002C] (timers_list s)" "timers_list s \<noteq> 0x8001002C" "timers_list s \<noteq> 0"
    using is_listD(1,2,5) [OF timer_rel_list [OF s(2)]] by auto
  then have "link_connected (k_mem s) 0x8001002C = Some True" by (simp add: link_connected_def)
  with timer_destroy_unlinks [OF s, simplified] show ?thesis by auto
qed

end
