(* ===== verification/Vm_Coherence.thy ===== *)
theory Vm_Coherence
  imports Vm
begin

text \<open>
  The TLB agrees with the virtual memory maps: an invariant of the TLB, its preservation by the operations of \<^verbatim>\<open>mm/tlb.c\<close>
  and \<^verbatim>\<open>mm/vmm.c\<close>, and what the hardware translates after the exception handlers.
\<close>

unbundle bit_operations_syntax

section \<open>Fields of the TLB registers\<close>

abbreviation hi_vpn2 :: "u32 \<Rightarrow> u32" where "hi_vpn2 h \<equiv> drop_bit 13 h"
abbreviation hi_asid :: "u32 \<Rightarrow> u8" where "hi_asid h \<equiv> ucast h"

lemma mask_consts: "(0xffffe000 :: u32) = NOT (mask 13)" "(0xff :: u32) = mask 8" "(0x3fffffc0 :: u32) = push_bit 6 (mask 24)"
  "(0x3f :: u32) = mask 6" "(0xfff :: u32) = mask 12"
  by (simp_all add: mask_eq_exp_minus_1 push_bit_eq_mult)

lemma vpn2_field: "field_get (CP0_ENTRYHI ENTRYHI_VPN2) h = hi_vpn2 h"
  by (rule bit_word_eqI) (auto simp: field_get_def mask_consts bit_simps dest: bit_imp_le_length)

lemma asid_field: "field_get (CP0_ENTRYHI ENTRYHI_ASID) h = ucast (hi_asid h)"
  by (rule bit_word_eqI) (auto simp: field_get_def mask_consts bit_simps)

lemma bit_field: "field_get (push_bit n 1, n) (x :: u32) = of_bool (bit x n)" if "n < 32"
  using that by (intro bit_word_eqI) (auto simp: field_get_def bit_simps)

lemma global_iff: "te_global e \<longleftrightarrow> bit (te_lo0 e) 0 \<and> bit (te_lo1 e) 0"
  using bit_field [of 0 "te_lo0 e AND te_lo1 e"] by (simp add: te_global_def bit_and_iff)

lemma valid_iff: "lo_valid lo \<longleftrightarrow> bit lo 1"
  using bit_field [of 1 lo] by (simp add: lo_valid_def)

lemma p_field: "field_get (CP0_INDEX INDEX_P) x = of_bool (bit x 31)"
  using bit_field [of 31 x] by simp

lemma asid_inj: "ucast (a :: u8) = (ucast b :: u32) \<longleftrightarrow> a = b"
proof
  have "ucast (ucast c :: u32) = c" for c :: u8
    by (rule bit_word_eqI) (auto simp: bit_simps)
  then show "ucast a = (ucast b :: u32) \<Longrightarrow> a = b" by metis
qed simp

lemma te_matches_iff:
  "te_matches hi e \<longleftrightarrow> hi_vpn2 (te_hi e) = hi_vpn2 hi \<and> (te_global e \<or> hi_asid (te_hi e) = hi_asid hi)"
  unfolding te_matches_def vpn2_field asid_field asid_inj ..

lemma entryhi_fields: "hi_vpn2 (entryhi_of virt as) = hi_vpn2 virt" "hi_asid (entryhi_of virt as) = as"
  by (rule bit_word_eqI; auto simp: entryhi_of_def mask_consts bit_simps dest: bit_imp_le_length)+

lemma entrylo_bits: "bit (entrylo_value pfn) n \<longleftrightarrow> n < 32 \<and> (6 \<le> n \<and> bit pfn (n - 6) \<or> n = 2 \<or> n = 1)"
proof -
  have "(4 :: u32) = 2 ^ 2" "(2 :: u32) = 2 ^ 1" by simp_all
  then have e: "entrylo_value pfn = push_bit 6 pfn OR 2 ^ 2 OR 2 ^ 1" by (simp add: entrylo_value_def)
  show ?thesis unfolding e bit_or_iff bit_push_bit_iff bit_exp_iff by auto
qed

lemma entrylo_fields:
  assumes "pfn = take_bit 20 pfn"
  shows "lo_valid (entrylo_value pfn)" "\<not> bit (entrylo_value pfn) 0" "lo_pfn (entrylo_value pfn) = pfn"
proof -
  have b: "bit pfn n \<Longrightarrow> n < 20" for n using assms by (metis bit_take_bit_iff)
  show "lo_valid (entrylo_value pfn)" "\<not> bit (entrylo_value pfn) 0" by (simp_all add: valid_iff entrylo_bits)
  show "lo_pfn (entrylo_value pfn) = pfn"
  proof (rule bit_word_eqI)
    fix n assume "n < LENGTH(32)"
    have "bit (lo_pfn (entrylo_value pfn)) n \<longleftrightarrow> n < 24 \<and> bit (entrylo_value pfn) (n + 6)"
      by (auto simp: lo_pfn_def field_get_def mask_consts bit_simps ac_simps)
    then show "bit (lo_pfn (entrylo_value pfn)) n = bit pfn n" using b [of n] unfolding entrylo_bits by auto
  qed
qed

lemma zero_lo [simp]: "\<not> lo_valid 0" by (simp add: valid_iff)

lemma same_page:
  assumes "hi_vpn2 a = hi_vpn2 b" and "bit a 12 = bit b 12"
  shows "drop_bit 12 a = (drop_bit 12 b :: u32)"
proof (rule bit_word_eqI)
  fix n
  show "bit (drop_bit 12 a) n = bit (drop_bit 12 b) n"
    using assms(2) arg_cong [OF assms(1), of "\<lambda>x. bit x (n - 1)"]
    by (cases n) (simp_all add: bit_drop_bit_eq)
qed

lemma frame_of_phys: "drop_bit 12 (push_bit 12 pfn + (virt AND 0xfff)) = take_bit 20 pfn" for pfn :: u32
proof -
  have "push_bit 12 pfn + (virt AND 0xfff) = push_bit 12 pfn OR (virt AND 0xfff)"
    by (rule disjunctive_add) (auto simp: mask_consts bit_simps)
  then show ?thesis by (intro bit_word_eqI) (auto simp: mask_consts bit_simps)
qed


section \<open>The maps\<close>

text \<open>The frame of a page in a map, as the hardware sees it (20 bits), and the address \<^verbatim>\<open>vmm_mapping_find\<close> gives.\<close>

definition mapped_frame :: "vmm \<Rightarrow> u32 \<Rightarrow> u32 option" where
  "mapped_frame m vpn = (case vma_scan (vma_maps vpn) 0 (vmas m) of
     None \<Rightarrow> None
   | Some i \<Rightarrow> Some (take_bit 20 (pfn_base (vmas m ! i) + (vpn - vpn_base (vmas m ! i)))))"

abbreviation cur_vmm :: "('fs, 'z) kernel_scheme \<Rightarrow> u32" where
  "cur_vmm s \<equiv> t_vmm (thr s (cur s))"

lemma vma_scan_None: "vma_scan P i vs = None \<longleftrightarrow> (\<forall>v \<in> set vs. \<not> P v)"
  by (induction vs arbitrary: i) auto

lemma vma_scan_SomeD: "vma_scan P i vs = Some j \<Longrightarrow> i \<le> j \<and> j - i < length vs \<and> P (vs ! (j - i))"
proof (induction vs arbitrary: i)
  case (Cons v vs)
  show ?case
  proof (cases "P v")
    case False
    with Cons have "Suc i \<le> j \<and> j - Suc i < length vs \<and> P (vs ! (j - Suc i))" by simp
    moreover from this have "j - i = Suc (j - Suc i)" by arith
    ultimately show ?thesis by simp
  qed (use Cons.prems in simp)
qed simp

lemma vmm_mapping_find_eq:
  "vmm_mapping_find virt phys0 s =
     (case mapped_frame (vmms s (cur_vmm s)) (drop_bit 12 virt) of
        None \<Rightarrow> (EINVAL, phys0, s)
      | Some f \<Rightarrow> (EOK, push_bit 12 f + (virt AND 0xfff), s))"
proof -
  obtain st c where i: "irq_off s = (st, s\<lparr>k_cpu := c\<rparr>)" "conditionally_enable_interrupts st c = k_cpu s" by (rule irq_offE)
  have "push_bit 12 (take_bit 20 x) = push_bit 12 x" for x :: u32
    by (rule bit_word_eqI) (auto simp: bit_simps)
  then show ?thesis
    by (simp add: vmm_mapping_find_def i thread_get_current_eq irq_restore_def mapped_frame_def Let_def PAGE_WIDTH_def PAGE_SIZE_def
      FRAME_WIDTH_def FRAME_SIZE_def split: option.splits)
qed

section \<open>The invariant\<close>

text \<open>\<open>V\<close> holds the address spaces in use, \<open>vm\<close> their maps. An entry is good when no page of it is global, and what it maps
  for an address space in use is what the map of that address space says.\<close>

definition entry_ok :: "u32 set \<Rightarrow> (u32 \<Rightarrow> vmm) \<Rightarrow> tlb_entry \<Rightarrow> bool" where
  "entry_ok V vm e \<longleftrightarrow> \<not> bit (te_lo0 e) 0 \<and> \<not> bit (te_lo1 e) 0 \<and> te_mask e = CP0_PAGEMASK_4K \<and>
     (\<forall>v \<in> V. \<forall>virt. asid (vm v) = hi_asid (te_hi e) \<longrightarrow> hi_vpn2 virt = hi_vpn2 (te_hi e) \<longrightarrow>
        lo_valid (te_half (bit virt 12) e) \<longrightarrow> mapped_frame (vm v) (drop_bit 12 virt) = Some (lo_pfn (te_half (bit virt 12) e)))"

definition same_pair :: "tlb_entry \<Rightarrow> tlb_entry \<Rightarrow> bool" where
  "same_pair e f \<longleftrightarrow> hi_vpn2 (te_hi e) = hi_vpn2 (te_hi f) \<and> hi_asid (te_hi e) = hi_asid (te_hi f)"

definition tlb_ok :: "u32 set \<Rightarrow> (u32 \<Rightarrow> vmm) \<Rightarrow> (nat \<Rightarrow> tlb_entry) \<Rightarrow> bool" where
  "tlb_ok V vm tlb \<longleftrightarrow> (\<forall>i < 48. entry_ok V vm (tlb i)) \<and>
     (\<forall>i < 48. \<forall>j < 48. i \<noteq> j \<longrightarrow> same_pair (tlb i) (tlb j) \<longrightarrow> hi_asid (te_hi (tlb i)) \<notin> (\<lambda>v. asid (vm v)) ` V) \<and>
     inj_on (\<lambda>v. asid (vm v)) V"

lemma matches_ok:
  assumes "entry_ok V vm e"
  shows "te_matches hi e \<longleftrightarrow> hi_vpn2 (te_hi e) = hi_vpn2 hi \<and> hi_asid (te_hi e) = hi_asid hi"
  using assms by (auto simp: te_matches_iff global_iff entry_ok_def)

lemma tlb_find_None:
  "tlb_find tlb hi = None \<longleftrightarrow> (\<forall>i < 48. \<not> te_matches hi (tlb i))"
  by (auto simp: tlb_find_def find_None_iff CP0_INDEX_INDEX_COUNT_def)

lemma tlb_find_SomeD:
  assumes "tlb_find tlb hi = Some i"
  shows "i < 48" "te_matches hi (tlb i)"
  using assms by (auto simp: tlb_find_def find_Some_iff CP0_INDEX_INDEX_COUNT_def)

text \<open>At most one entry matches an address space in use.\<close>

lemma tlb_find_unique:
  assumes ok: "tlb_ok V vm tlb" and i: "i < 48" "te_matches hi (tlb i)" and v: "v \<in> V" "hi_asid hi = asid (vm v)"
  shows "tlb_find tlb hi = Some i"
proof -
  obtain j where j: "tlb_find tlb hi = Some j" using i tlb_find_None [of tlb hi] by (cases "tlb_find tlb hi") auto
  note J = tlb_find_SomeD [OF j]
  have eo: "entry_ok V vm (tlb i)" "entry_ok V vm (tlb j)" using ok i J by (auto simp: tlb_ok_def)
  have "same_pair (tlb i) (tlb j)" "hi_asid (te_hi (tlb i)) \<in> (\<lambda>v. asid (vm v)) ` V"
    using i(2) J(2) v unfolding matches_ok [OF eo(1)] matches_ok [OF eo(2)] same_pair_def by auto
  then have "i = j" using ok i(1) J(1) unfolding tlb_ok_def by blast
  with j show ?thesis by simp
qed

lemma tlb_sound:
  assumes ok: "tlb_ok V vm tlb" and v: "v \<in> V" and hit: "tlb_translate tlb (asid (vm v)) virt = TLB_Hit p"
  shows "\<exists>f. mapped_frame (vm v) (drop_bit 12 virt) = Some f \<and> p = push_bit 12 f OR (virt AND 0xfff)"
proof -
  obtain i where i: "tlb_find tlb (entryhi_of virt (asid (vm v))) = Some i"
    "lo_valid (te_half (bit virt 12) (tlb i))" "p = push_bit 12 (lo_pfn (te_half (bit virt 12) (tlb i))) OR (virt AND 0xfff)"
    using hit by (auto simp: tlb_translate_def Let_def PAGE_WIDTH_def FRAME_WIDTH_def PAGE_SIZE_def FRAME_SIZE_def
      split: option.splits if_splits)
  note I = tlb_find_SomeD [OF i(1)]
  have eo: "entry_ok V vm (tlb i)" using ok I by (simp add: tlb_ok_def)
  then have "mapped_frame (vm v) (drop_bit 12 virt) = Some (lo_pfn (te_half (bit virt 12) (tlb i)))"
    using I(2) v i(2) unfolding matches_ok [OF eo] entryhi_fields by (auto simp: entry_ok_def)
  with i(3) show ?thesis by blast
qed

lemma tlb_ok_update:
  assumes ok: "tlb_ok V vm tlb" and e: "entry_ok V vm e"
    and u: "\<And>j. j < 48 \<Longrightarrow> j \<noteq> r \<Longrightarrow> same_pair e (tlb j) \<Longrightarrow> hi_asid (te_hi e) \<notin> (\<lambda>v. asid (vm v)) ` V"
  shows "tlb_ok V vm (tlb(r := e))"
proof -
  have "hi_asid (te_hi (tlb j)) \<notin> (\<lambda>v. asid (vm v)) ` V" if "j < 48" "j \<noteq> r" "same_pair (tlb j) e" for j
    using u [OF that(1,2)] that(3) unfolding same_pair_def by metis
  with ok e u show ?thesis unfolding tlb_ok_def by auto
qed

lemma translate_hit:
  assumes ok: "tlb_ok V vm tlb" and v: "v \<in> V" and i: "i < 48" "hi_vpn2 (te_hi (tlb i)) = hi_vpn2 virt" "hi_asid (te_hi (tlb i)) = asid (vm v)"
  shows "tlb_translate tlb (asid (vm v)) virt =
    (let lo = te_half (bit virt 12) (tlb i) in if lo_valid lo then TLB_Hit (push_bit 12 (lo_pfn lo) OR (virt AND 0xfff)) else TLB_Invalid)"
proof -
  have "te_matches (entryhi_of virt (asid (vm v))) (tlb i)" using i by (simp add: te_matches_iff entryhi_fields)
  then have "tlb_find tlb (entryhi_of virt (asid (vm v))) = Some i"
    using tlb_find_unique [OF ok i(1) _ v] by (simp add: entryhi_fields)
  then show ?thesis by (simp add: tlb_translate_def Let_def PAGE_WIDTH_def FRAME_WIDTH_def PAGE_SIZE_def FRAME_SIZE_def)
qed


section \<open>Filling the TLB\<close>

definition new_entry :: "u32 \<Rightarrow> bool \<Rightarrow> u32 \<Rightarrow> u32 \<Rightarrow> tlb_entry" where
  "new_entry hi second lo other =
     (if second then \<lparr>te_hi = hi, te_lo0 = other, te_lo1 = lo, te_mask = CP0_PAGEMASK_4K\<rparr>
      else \<lparr>te_hi = hi, te_lo0 = lo, te_lo1 = other, te_mask = CP0_PAGEMASK_4K\<rparr>)"

lemma pair_odd: "TLB_ENTRY_PAIR (drop_bit 12 virt) = of_bool (bit virt 12)"
proof -
  have "(x AND 1) = of_bool (bit x 0)" for x :: u32 by (simp add: and_one_eq mod2_eq_if bit_0)
  then show ?thesis by (simp add: TLB_ENTRY_PAIR_def bit_drop_bit_eq)
qed

lemma store_random_effect:
  assumes "r_random (k_cpu s) < 48"
  shows "k_tlb (tlb_store_random (drop_bit 12 virt) pfn s) =
      (k_tlb s)(unat (r_random (k_cpu s)) := new_entry (r_entryhi (k_cpu s)) (bit virt 12) (entrylo_value pfn) 0)"
    and "vmms (tlb_store_random vpn pfn s) = vmms s" "r_entryhi (k_cpu (tlb_store_random vpn pfn s)) = r_entryhi (k_cpu s)"
proof -
  have "r_random (k_cpu s) AND mask 6 = r_random (k_cpu s)"
    using assms by (simp add: take_bit_eq_mask [symmetric] word_unat_eq_iff unsigned_take_bit_eq take_bit_nat_eq_self word_less_nat_alt)
  then show "k_tlb (tlb_store_random (drop_bit 12 virt) pfn s) =
      (k_tlb s)(unat (r_random (k_cpu s)) := new_entry (r_entryhi (k_cpu s)) (bit virt 12) (entrylo_value pfn) 0)"
    by (simp add: tlb_store_random_def tlb_write_random_def entry_registers_def cp0_write_defs field_get_def mask_consts Let_def
      pair_odd new_entry_def)
  show "vmms (tlb_store_random vpn pfn s) = vmms s" "r_entryhi (k_cpu (tlb_store_random vpn pfn s)) = r_entryhi (k_cpu s)"
    by (simp_all add: tlb_store_random_def tlb_write_random_def cp0_write_defs Let_def)
qed

lemma new_entry_ok:
  assumes "inj_on (\<lambda>v. asid (vm v)) V" and "v \<in> V" and "hi_asid hi = asid (vm v)" and "hi_vpn2 hi = hi_vpn2 virt"
    and f: "mapped_frame (vm v) (drop_bit 12 virt) = Some f"
    and oth: "\<not> bit other 0" "\<And>virt'. hi_vpn2 virt' = hi_vpn2 virt \<Longrightarrow> bit virt' 12 \<noteq> bit virt 12 \<Longrightarrow> lo_valid other \<Longrightarrow>
       mapped_frame (vm v) (drop_bit 12 virt') = Some (lo_pfn other)"
  shows "entry_ok V vm (new_entry hi (bit virt 12) (entrylo_value f) other)"
proof -
  have "f = take_bit 20 f" using f by (auto simp: mapped_frame_def split: option.splits)
  note L = entrylo_fields [OF this]
  have "mapped_frame (vm v') (drop_bit 12 virt') = Some (lo_pfn (te_half (bit virt' 12) (new_entry hi (bit virt 12) (entrylo_value f) other)))"
    if v': "v' \<in> V" "asid (vm v') = hi_asid hi" "hi_vpn2 virt' = hi_vpn2 hi"
      "lo_valid (te_half (bit virt' 12) (new_entry hi (bit virt 12) (entrylo_value f) other))" for v' virt'
  proof -
    have vv: "v' = v" using assms(1-3) v'(1,2) by (auto dest: inj_onD)
    show ?thesis
    proof (cases "bit virt' 12 = bit virt 12")
      case True
      then have "drop_bit 12 virt' = drop_bit 12 virt" using v'(3) assms(4) by (intro same_page) simp_all
      then show ?thesis using f vv True L by (auto simp: new_entry_def te_half_def)
    next
      case False
      then show ?thesis using oth(2) [of virt'] v' vv assms(4) by (auto simp: new_entry_def te_half_def)
    qed
  qed
  then show ?thesis using L oth(1) by (auto simp: entry_ok_def new_entry_def)
qed

text \<open>Storing the mapping of the missed page at a random place.\<close>

lemma store_random_ok:
  assumes ok: "tlb_ok V (vmms s) (k_tlb s)" and v: "v \<in> V" and r: "r_random (k_cpu s) < 48"
    and hi: "hi_asid (r_entryhi (k_cpu s)) = asid (vmms s v)" "hi_vpn2 (r_entryhi (k_cpu s)) = hi_vpn2 virt"
    and miss: "tlb_find (k_tlb s) (r_entryhi (k_cpu s)) = None"
    and f: "mapped_frame (vmms s v) (drop_bit 12 virt) = Some f" and s': "s' = tlb_store_random (drop_bit 12 virt) f s"
  shows "tlb_ok V (vmms s') (k_tlb s') \<and> tlb_translate (k_tlb s') (asid (vmms s v)) virt = TLB_Hit (push_bit 12 f OR (virt AND 0xfff))"
proof -
  let ?r = "unat (r_random (k_cpu s))" and ?e = "new_entry (r_entryhi (k_cpu s)) (bit virt 12) (entrylo_value f) 0"
  note E = store_random_effect [OF r]
  have r48: "?r < 48" using r by (simp add: word_less_nat_alt)
  have "entry_ok V (vmms s) ?e"
    using ok by (intro new_entry_ok [of "vmms s" V v, OF _ v hi f]) (auto simp: tlb_ok_def)
  moreover have "\<not> same_pair ?e (k_tlb s j)" if "j < 48" for j
    using miss that ok matches_ok [of V "vmms s" "k_tlb s j" "r_entryhi (k_cpu s)"]
    by (auto simp: tlb_find_None tlb_ok_def same_pair_def new_entry_def split: if_splits)
  ultimately have ok': "tlb_ok V (vmms s) ((k_tlb s)(?r := ?e))" by (intro tlb_ok_update [OF ok]) auto
  have "f = take_bit 20 f" using f by (auto simp: mapped_frame_def split: option.splits)
  note L = entrylo_fields [OF this]
  have "tlb_translate ((k_tlb s)(?r := ?e)) (asid (vmms s v)) virt = TLB_Hit (push_bit 12 f OR (virt AND 0xfff))"
    using translate_hit [OF ok' v r48, of virt] hi L by (auto simp: new_entry_def te_half_def)
  with ok' show ?thesis unfolding s' E by simp
qed


section \<open>Probing\<close>

lemma probe_effect:
  fixes s :: "('fs, 'z) kernel_scheme" and h :: u32
  defines "s2 \<equiv> tlb_probe (on_cpu (write_cp0_entryhi h) s)"
  shows "k_tlb s2 = k_tlb s" "vmms s2 = vmms s" "r_entryhi (k_cpu s2) = h" "r_random (k_cpu s2) = r_random (k_cpu s)"
    "r_status (k_cpu s2) = r_status (k_cpu s)"
    "field_get (CP0_INDEX INDEX_P) (r_index (k_cpu s2)) = 0 \<longleftrightarrow> tlb_find (k_tlb s) h \<noteq> None"
    "tlb_find (k_tlb s) h = Some i \<Longrightarrow> tlb_index s2 = i"
proof -
  show "k_tlb s2 = k_tlb s" "vmms s2 = vmms s" "r_entryhi (k_cpu s2) = h" "r_random (k_cpu s2) = r_random (k_cpu s)"
    "r_status (k_cpu s2) = r_status (k_cpu s)"
    by (simp_all add: s2_def tlb_probe_def cp0_write_defs)
  have idx: "r_index (k_cpu s2) = (case tlb_find (k_tlb s) h of None \<Rightarrow> 0x80000000 | Some i \<Rightarrow> of_nat i)"
    by (simp add: s2_def tlb_probe_def cp0_write_defs split: option.split)
  have small: "take_bit 6 (of_nat i :: u32) = of_nat i" "\<not> bit (of_nat i :: u32) 31" if "i < 48" for i :: nat
  proof -
    have u: "unat (of_nat i :: u32) = i" using that by (simp add: unat_of_nat)
    then show t: "take_bit 6 (of_nat i :: u32) = of_nat i"
      using that by (simp add: word_unat_eq_iff unsigned_take_bit_eq take_bit_nat_eq_self)
    show "\<not> bit (of_nat i :: u32) 31" by (subst t [symmetric]) (simp add: bit_take_bit_iff)
  qed
  have "bit (0x80000000 :: u32) 31" using bit_exp_iff [of 31 31, where 'a = u32] by simp
  then show "field_get (CP0_INDEX INDEX_P) (r_index (k_cpu s2)) = 0 \<longleftrightarrow> tlb_find (k_tlb s) h \<noteq> None"
    unfolding p_field idx by (cases "tlb_find (k_tlb s) h") (simp_all add: small tlb_find_SomeD(1))
  show "tlb_index s2 = i" if f: "tlb_find (k_tlb s) h = Some i"
    using small [OF tlb_find_SomeD(1) [OF f]] tlb_find_SomeD(1) [OF f]
    by (simp add: tlb_index_def idx f field_get_def mask_consts take_bit_eq_mask [symmetric] unat_of_nat)
qed

lemma store_indexed_effect:
  "k_tlb (tlb_store_indexed (drop_bit 12 virt) pfn s) =
     (k_tlb s)(tlb_index s := new_entry (te_hi (k_tlb s (tlb_index s))) (bit virt 12) (entrylo_value pfn)
       (te_half (\<not> bit virt 12) (k_tlb s (tlb_index s))))"
  "vmms (tlb_store_indexed vpn pfn s) = vmms s"
  by (simp_all add: tlb_store_indexed_def tlb_read_def tlb_write_indexed_def entry_registers_def cp0_write_defs Let_def
    pair_odd new_entry_def te_half_def tlb_index_def)

lemma store_indexed_ok:
  assumes ok: "tlb_ok V (vmms s) (k_tlb s)" and v: "v \<in> V"
    and hi: "hi_asid h = asid (vmms s v)" "hi_vpn2 h = hi_vpn2 virt"
    and i: "tlb_find (k_tlb s) h = Some (tlb_index s)"
    and f: "mapped_frame (vmms s v) (drop_bit 12 virt) = Some f" and s': "s' = tlb_store_indexed (drop_bit 12 virt) f s"
  shows "tlb_ok V (vmms s') (k_tlb s') \<and> tlb_translate (k_tlb s') (asid (vmms s v)) virt = TLB_Hit (push_bit 12 f OR (virt AND 0xfff))"
proof -
  let ?i = "tlb_index s" let ?o = "k_tlb s ?i"
  let ?e = "new_entry (te_hi ?o) (bit virt 12) (entrylo_value f) (te_half (\<not> bit virt 12) ?o)"
  note I = tlb_find_SomeD [OF i]
  have eo: "entry_ok V (vmms s) ?o" using ok I by (simp add: tlb_ok_def)
  have oh: "hi_asid (te_hi ?o) = asid (vmms s v)" "hi_vpn2 (te_hi ?o) = hi_vpn2 virt"
    using I(2) hi unfolding matches_ok [OF eo] by auto
  have "entry_ok V (vmms s) ?e"
  proof (rule new_entry_ok [of "vmms s" V v, OF _ v oh f])
    show "inj_on (\<lambda>v. asid (vmms s v)) V" using ok by (simp add: tlb_ok_def)
    show "\<not> bit (te_half (\<not> bit virt 12) ?o) 0" using eo by (simp add: entry_ok_def te_half_def)
    show "mapped_frame (vmms s v) (drop_bit 12 virt') = Some (lo_pfn (te_half (\<not> bit virt 12) ?o))"
      if "hi_vpn2 virt' = hi_vpn2 virt" "bit virt' 12 \<noteq> bit virt 12" "lo_valid (te_half (\<not> bit virt 12) ?o)" for virt'
    proof -
      have b: "(\<not> bit virt 12) = bit virt' 12" using that(2) by blast
      show ?thesis using eo v oh that(1,3) unfolding entry_ok_def b by simp
    qed
  qed
  moreover have "same_pair ?e x \<longleftrightarrow> same_pair ?o x" "hi_asid (te_hi ?e) = hi_asid (te_hi ?o)" for x
    by (auto simp: same_pair_def new_entry_def)
  ultimately have ok': "tlb_ok V (vmms s) ((k_tlb s)(?i := ?e))"
    using ok I(1) by (intro tlb_ok_update [OF ok]) (auto simp: tlb_ok_def)
  have "f = take_bit 20 f" using f by (auto simp: mapped_frame_def split: option.splits)
  note L = entrylo_fields [OF this]
  have "tlb_translate ((k_tlb s)(?i := ?e)) (asid (vmms s v)) virt = TLB_Hit (push_bit 12 f OR (virt AND 0xfff))"
    using translate_hit [OF ok' v I(1), of virt] oh L by (auto simp: new_entry_def te_half_def)
  with ok' show ?thesis unfolding s' store_indexed_effect by simp
qed

section \<open>Flushing\<close>

text \<open>No entry of the address space \<open>as\<close> maps the page \<open>vpn\<close>.\<close>

definition unmapped_page :: "(nat \<Rightarrow> tlb_entry) \<Rightarrow> u8 \<Rightarrow> u32 \<Rightarrow> bool" where
  "unmapped_page tlb as vpn \<longleftrightarrow> (\<forall>i < 48. \<forall>virt. hi_asid (te_hi (tlb i)) = as \<longrightarrow> drop_bit 12 virt = vpn \<longrightarrow>
     hi_vpn2 virt = hi_vpn2 (te_hi (tlb i)) \<longrightarrow> \<not> lo_valid (te_half (bit virt 12) (tlb i)))"

definition flush_hi :: "u32 \<Rightarrow> u32 \<Rightarrow> u32" where
  "flush_hi entryhi addr = (entryhi AND NOT 0xffffe000) OR push_bit 13 (hi_vpn2 addr)"

lemma flush_hi_fields: "hi_vpn2 (flush_hi h addr) = hi_vpn2 addr" "hi_asid (flush_hi h addr) = hi_asid h"
  by (rule bit_word_eqI; auto simp: flush_hi_def mask_consts bit_simps dest: bit_imp_le_length)+

abbreviation blank_entry :: "u32 \<Rightarrow> tlb_entry" where
  "blank_entry h \<equiv> \<lparr>te_hi = h, te_lo0 = 0, te_lo1 = 0, te_mask = CP0_PAGEMASK_4K\<rparr>"

lemma blank_half [simp]: "\<not> lo_valid (te_half b (blank_entry h))"
  by (simp add: te_half_def)

lemma flush_effect:
  fixes s :: "('fs, 'z) kernel_scheme" and addr :: u32
  defines "h \<equiv> flush_hi (r_entryhi (k_cpu s)) addr"
  shows "k_tlb (tlb_flush addr s) = (case tlb_find (k_tlb s) h of None \<Rightarrow> k_tlb s | Some i \<Rightarrow> (k_tlb s)(i := blank_entry h))"
    "vmms (tlb_flush addr s) = vmms s" "r_entryhi (k_cpu (tlb_flush addr s)) = r_entryhi (k_cpu s)"
    "r_status (k_cpu (tlb_flush addr s)) = r_status (k_cpu s)" "r_random (k_cpu (tlb_flush addr s)) = r_random (k_cpu s)"
    "thr (tlb_flush addr s) = thr s" "current_thread (tlb_flush addr s) = current_thread s" "k_cpuid (tlb_flush addr s) = k_cpuid s"
proof -
  define s1 where "s1 = s\<lparr>k_cpu := (k_cpu s)\<lparr>r_status := r_status (k_cpu s) AND NOT 1\<rparr>\<rparr>"
  define s2 where "s2 = tlb_probe (on_cpu (write_cp0_entryhi h) s1)"
  define s3 where "s3 = (if field_get (CP0_INDEX INDEX_P) (r_index (k_cpu s2)) = 0
    then tlb_write_indexed (on_cpu (write_cp0_entrylo1 0) (on_cpu (write_cp0_entrylo0 0) (on_cpu (write_cp0_pagemask CP0_PAGEMASK_4K) s2)))
    else s2)"
  have f: "tlb_flush addr s = irq_restore (r_status (k_cpu s) AND 1) (on_cpu (write_cp0_entryhi (r_entryhi (k_cpu s))) s3)"
    by (simp add: tlb_flush_def irq_off_def irq_off_cpu Let_def s3_def s2_def s1_def cp0_read_defs h_def flush_hi_def
      PAGE_WIDTH_def FRAME_WIDTH_def drop_bit_drop_bit)
  note P = probe_effect [where h = h and s = s1, folded s2_def]
  have s1: "k_tlb s1 = k_tlb s" "vmms s1 = vmms s" "r_random (k_cpu s1) = r_random (k_cpu s)"
    "r_status (k_cpu s1) = r_status (k_cpu s) AND NOT 1" by (simp_all add: s1_def)
  have t3: "k_tlb s3 = (case tlb_find (k_tlb s) h of None \<Rightarrow> k_tlb s | Some i \<Rightarrow> (k_tlb s)(i := blank_entry h))"
  proof (cases "tlb_find (k_tlb s) h")
    case None
    then show ?thesis using P s1 by (simp add: s3_def)
  next
    case (Some i)
    then have "tlb_index s2 = i" "field_get (CP0_INDEX INDEX_P) (r_index (k_cpu s2)) = 0" using P(6,7) s1 by simp_all
    then show ?thesis using Some P(1,3) s1(1)
      by (simp add: s3_def tlb_write_indexed_def entry_registers_def cp0_write_defs tlb_index_def)
  qed
  have r3: "vmms s3 = vmms s" "r_random (k_cpu s3) = r_random (k_cpu s)" "r_status (k_cpu s3) = r_status (k_cpu s) AND NOT 1"
    using P s1 by (simp_all add: s3_def tlb_write_indexed_def cp0_write_defs)
  have q3: "thr s3 = thr s" "current_thread s3 = current_thread s" "k_cpuid s3 = k_cpuid s"
    by (simp_all add: s3_def s2_def s1_def tlb_write_indexed_def tlb_probe_def)
  show "k_tlb (tlb_flush addr s) = (case tlb_find (k_tlb s) h of None \<Rightarrow> k_tlb s | Some i \<Rightarrow> (k_tlb s)(i := blank_entry h))"
    "vmms (tlb_flush addr s) = vmms s" "r_entryhi (k_cpu (tlb_flush addr s)) = r_entryhi (k_cpu s)"
    "r_random (k_cpu (tlb_flush addr s)) = r_random (k_cpu s)"
    "thr (tlb_flush addr s) = thr s" "current_thread (tlb_flush addr s) = current_thread s" "k_cpuid (tlb_flush addr s) = k_cpuid s"
    unfolding f by (simp_all add: irq_restore_def conditionally_enable_interrupts_def cp0_write_defs t3 r3 q3)
  show "r_status (k_cpu (tlb_flush addr s)) = r_status (k_cpu s)"
    unfolding f by (rule status_restored) (simp add: r3 cp0_write_defs)
qed

lemma flush_ok:
  assumes ok: "tlb_ok V (vmms s) (k_tlb s)" and v: "v \<in> V" and as: "hi_asid (r_entryhi (k_cpu s)) = asid (vmms s v)"
  shows "tlb_ok V (vmms s) (k_tlb (tlb_flush addr s))"
    and "unmapped_page (k_tlb (tlb_flush addr s)) (asid (vmms s v)) (drop_bit 12 addr)"
    and "unmapped_page (k_tlb s) a vpn \<Longrightarrow> unmapped_page (k_tlb (tlb_flush addr s)) a vpn"
proof -
  let ?h = "flush_hi (r_entryhi (k_cpu s)) addr"
  note E = flush_effect(1) [of addr s]
  have blank: "entry_ok V (vmms s) (blank_entry ?h)" by (simp add: entry_ok_def te_half_def)
  have pairs: "te_matches ?h (k_tlb s j) \<longleftrightarrow> same_pair (blank_entry ?h) (k_tlb s j)" if "j < 48" for j
    using matches_ok [of V "vmms s" "k_tlb s j" ?h] ok that by (auto simp: tlb_ok_def same_pair_def)
  show "tlb_ok V (vmms s) (k_tlb (tlb_flush addr s))"
  proof (cases "tlb_find (k_tlb s) ?h")
    case (Some i)
    note I = tlb_find_SomeD [OF Some]
    have "same_pair (k_tlb s i) (blank_entry ?h)" using pairs [OF I(1)] I(2) by (auto simp: same_pair_def)
    then have "tlb_ok V (vmms s) ((k_tlb s)(i := blank_entry ?h))"
      using ok I(1) by (intro tlb_ok_update [OF ok blank]) (auto simp: tlb_ok_def same_pair_def)
    then show ?thesis using Some E by simp
  qed (use ok E in simp)
  show "unmapped_page (k_tlb (tlb_flush addr s)) (asid (vmms s v)) (drop_bit 12 addr)"
  proof -
    have pg: "hi_vpn2 virt = hi_vpn2 addr" if "drop_bit 12 virt = drop_bit 12 addr" for virt
      using arg_cong [OF that, of "drop_bit 1"] by (simp add: drop_bit_drop_bit)
    have "te_matches ?h (k_tlb s j)" if "hi_asid (te_hi (k_tlb s j)) = asid (vmms s v)" "hi_vpn2 addr = hi_vpn2 (te_hi (k_tlb s j))" for j
      using that as by (simp add: te_matches_iff flush_hi_fields)
    moreover have "j = i" if "te_matches ?h (k_tlb s j)" "j < 48" "tlb_find (k_tlb s) ?h = Some i" for i j
      using tlb_find_unique [OF ok that(2,1) v] that(3) as by (simp add: flush_hi_fields)
    ultimately show ?thesis
      unfolding unmapped_page_def E using tlb_find_None [of "k_tlb s" ?h]
      by (auto simp: te_half_def split: option.splits dest!: pg)
  qed
  show "unmapped_page (k_tlb s) a vpn \<Longrightarrow> unmapped_page (k_tlb (tlb_flush addr s)) a vpn"
    unfolding unmapped_page_def E by (auto split: option.splits)
qed


section \<open>Unmapping\<close>

lemma flush_pages_ok:
  fixes s :: "('fs, 'z) kernel_scheme" and vpn :: u32
  assumes ok: "tlb_ok V (vmms s) (k_tlb s)" and v: "v \<in> V" and as: "hi_asid (r_entryhi (k_cpu s)) = asid (vmms s v)"
  defines "s' n \<equiv> tlb_flush_pages n vpn s"
  shows "tlb_ok V (vmms s) (k_tlb (s' n)) \<and> vmms (s' n) = vmms s \<and> r_entryhi (k_cpu (s' n)) = r_entryhi (k_cpu s) \<and>
     r_status (k_cpu (s' n)) = r_status (k_cpu s) \<and> r_random (k_cpu (s' n)) = r_random (k_cpu s) \<and> thr (s' n) = thr s \<and>
     current_thread (s' n) = current_thread s \<and> k_cpuid (s' n) = k_cpuid s \<and>
     (\<forall>p < n. unmapped_page (k_tlb (s' n)) (asid (vmms s v)) (take_bit 20 (vpn + of_nat p)))"
proof (induction n)
  case 0
  then show ?case using ok by (simp add: s'_def)
next
  case (Suc n)
  let ?t = "s' n" and ?a = "push_bit 12 (vpn + of_nat n)"
  have t: "tlb_ok V (vmms ?t) (k_tlb ?t)" "hi_asid (r_entryhi (k_cpu ?t)) = asid (vmms ?t v)" using Suc as by simp_all
  have step: "s' (Suc n) = tlb_flush ?a ?t" by (simp add: s'_def FRAME_WIDTH_def)
  have pg: "drop_bit 12 ?a = take_bit 20 (vpn + of_nat n)" by (rule bit_word_eqI) (auto simp: bit_simps)
  note F = flush_ok [OF t(1) v t(2), where addr = ?a]
  have "unmapped_page (k_tlb (s' (Suc n))) (asid (vmms s v)) (take_bit 20 (vpn + of_nat p))" if "p < Suc n" for p
  proof (cases "p = n")
    case True
    then show ?thesis using F(2) Suc pg unfolding step by simp
  next
    case False
    then show ?thesis using F(3) Suc that unfolding step by simp
  qed
  then show ?case using F(1) Suc unfolding step by (simp add: flush_effect(2-))
qed

lemma vma_scan_update:
  assumes "\<not> P v" and "i < length vs \<Longrightarrow> \<not> P (vs ! i)"
  shows "vma_scan P k (vs[i := v]) = vma_scan P k vs"
  using assms
proof (induction vs arbitrary: i k)
  case (Cons w vs)
  then show ?case by (cases i) auto
qed simp

lemma mapped_frame_update:
  assumes "\<not> vma_maps p v" and "i < length (vmas m) \<Longrightarrow> \<not> vma_maps p (vmas m ! i)"
  shows "mapped_frame (m\<lparr>vmas := (vmas m)[i := v]\<rparr>) p = mapped_frame m p"
proof -
  have "vma_scan (vma_maps p) 0 ((vmas m)[i := v]) = vma_scan (vma_maps p) 0 (vmas m)"
    using assms by (rule vma_scan_update)
  moreover have "(vmas m)[i := v] ! j = vmas m ! j" if "vma_scan (vma_maps p) 0 (vmas m) = Some j" for j
    using vma_scan_SomeD [OF that] assms(2) by (cases "i = j") auto
  ultimately show ?thesis by (simp add: mapped_frame_def split: option.splits)
qed

text \<open>A change of one map keeps the TLB good if it keeps the frames of the pages the TLB holds.\<close>

lemma tlb_ok_remap:
  assumes ok: "tlb_ok V vm tlb" and a: "asid m = asid (vm v)"
    and pages: "\<And>virt. \<not> unmapped_page tlb (asid (vm v)) (drop_bit 12 virt) \<Longrightarrow>
       mapped_frame m (drop_bit 12 virt) = mapped_frame (vm v) (drop_bit 12 virt)"
  shows "tlb_ok V (vm(v := m)) tlb"
proof -
  have as: "asid ((vm(v := m)) w) = asid (vm w)" for w using a by simp
  have "entry_ok V (vm(v := m)) (tlb i)" if i: "i < 48" for i
  proof -
    have eo: "entry_ok V vm (tlb i)" using ok i by (simp add: tlb_ok_def)
    have "mapped_frame ((vm(v := m)) w) (drop_bit 12 virt) = Some (lo_pfn (te_half (bit virt 12) (tlb i)))"
      if w: "w \<in> V" "asid (vm w) = hi_asid (te_hi (tlb i))" "hi_vpn2 virt = hi_vpn2 (te_hi (tlb i))"
        "lo_valid (te_half (bit virt 12) (tlb i))" for w virt
    proof (cases "w = v")
      case True
      then have "\<not> unmapped_page tlb (asid (vm v)) (drop_bit 12 virt)"
        using w i unfolding unmapped_page_def by metis
      from pages [OF this] show ?thesis using eo w True by (simp add: entry_ok_def)
    next
      case False
      then show ?thesis using eo w by (simp add: entry_ok_def)
    qed
    then show ?thesis using eo as by (simp add: entry_ok_def)
  qed
  then show ?thesis using ok as by (simp add: tlb_ok_def)
qed

text \<open>The pages of an area, as the code compares them, are those the loop of \<^verbatim>\<open>vma_unmap\<close> flushes.\<close>

lemma area_page:
  assumes "vma_maps p v"
  shows "\<exists>k < unat (vma_count v). p = vpn_base v + of_nat k"
proof -
  have le: "vpn_base v \<le> p" and lt: "p < vpn_base v + vma_count v" using assms by (auto simp: vma_maps_def)
  have n: "unat (p - vpn_base v) = unat p - unat (vpn_base v)" using le by (simp add: unat_sub)
  have "unat (vpn_base v + vma_count v) \<le> unat (vpn_base v) + unat (vma_count v)"
    by (simp add: unat_word_ariths)
  then have "unat (p - vpn_base v) < unat (vma_count v)"
    using le lt n by (simp add: word_less_nat_alt word_le_nat_alt)
  then show ?thesis by (intro exI [of _ "unat (p - vpn_base v)"]) simp
qed


lemma unmapped_no_hit:
  assumes ok: "tlb_ok V vm tlb" and v: "v \<in> V" and u: "unmapped_page tlb (asid (vm v)) (drop_bit 12 virt)"
  shows "tlb_translate tlb (asid (vm v)) virt \<noteq> TLB_Hit p"
proof
  assume "tlb_translate tlb (asid (vm v)) virt = TLB_Hit p"
  then obtain i where i: "tlb_find tlb (entryhi_of virt (asid (vm v))) = Some i" "lo_valid (te_half (bit virt 12) (tlb i))"
    by (auto simp: tlb_translate_def Let_def PAGE_WIDTH_def FRAME_WIDTH_def split: option.splits if_splits)
  note I = tlb_find_SomeD [OF i(1)]
  have eo: "entry_ok V vm (tlb i)" using ok I by (simp add: tlb_ok_def)
  show False using u I i(2) unfolding unmapped_page_def matches_ok [OF eo] entryhi_fields by auto
qed

lemma vma_unmap_eq:
  assumes i: "irq_off s = (st, s\<lparr>k_cpu := c\<rparr>)" "conditionally_enable_interrupts st c = k_cpu s"
  shows "vma_unmap F from s =
    (if ALIGN_DOWN from PAGE_SIZE \<noteq> from then (EINVAL, s)
     else case vma_scan (\<lambda>w. vma_valid w \<and> vpn_base w = drop_bit 12 from) 0 (vmas (vmms s (cur_vmm s))) of
       None \<Rightarrow> (EINVAL, s)
     | Some j \<Rightarrow>
         (let area = vmas (vmms s (cur_vmm s)) ! j;
              r = frame_free F (k_fs s) (push_bit 12 (pfn_base area)) (vma_count area)
          in if fst r \<noteq> EOK then (fst r, s\<lparr>k_fs := snd r\<rparr>)
             else (EOK, irq_restore st (upd_vmm (cur_vmm s) (\<lambda>m. m\<lparr>vmas := (vmas m)[j := area\<lparr>vma_valid := False\<rparr>]\<rparr>)
               (tlb_flush_pages (unat (vma_count area)) (drop_bit 12 from) (s\<lparr>k_cpu := c, k_fs := snd r\<rparr>))))))"
proof (cases "vma_scan (\<lambda>w. vma_valid w \<and> vpn_base w = drop_bit 12 from) 0 (vmas (vmms s (cur_vmm s)))")
  case None
  then show ?thesis
    by (simp add: vma_unmap_def i thread_get_current_eq PAGE_WIDTH_def FRAME_WIDTH_def irq_restore_def)
next
  case (Some j)
  obtain rc fs where r: "frame_free F (k_fs s) (push_bit 12 (pfn_base (vmas (vmms s (cur_vmm s)) ! j)))
      (vma_count (vmas (vmms s (cur_vmm s)) ! j)) = (rc, fs)" by fastforce
  show ?thesis
    using Some r by (auto simp: vma_unmap_def i thread_get_current_eq PAGE_WIDTH_def FRAME_WIDTH_def irq_restore_def Let_def)
qed

lemma irq_restore_fields [simp]:
  "r_entryhi (k_cpu (irq_restore st t)) = r_entryhi (k_cpu t)" "r_random (k_cpu (irq_restore st t)) = r_random (k_cpu t)"
  "vmms (irq_restore st t) = vmms t" "k_tlb (irq_restore st t) = k_tlb t" "thr (irq_restore st t) = thr t"
  "current_thread (irq_restore st t) = current_thread t" "k_cpuid (irq_restore st t) = k_cpuid t"
  by (simp_all add: irq_restore_def conditionally_enable_interrupts_def cp0_write_defs)

lemma irq_off_regs:
  obtains st c where "irq_off s = (st, s\<lparr>k_cpu := c\<rparr>)" "conditionally_enable_interrupts st c = k_cpu s"
    "r_entryhi c = r_entryhi (k_cpu s)" "r_random c = r_random (k_cpu s)"
proof -
  let ?c = "(k_cpu s)\<lparr>r_status := r_status (k_cpu s) AND NOT 1\<rparr>"
  have "irq_off s = (r_status (k_cpu s) AND 1, s\<lparr>k_cpu := ?c\<rparr>)" by (simp add: irq_off_def irq_off_cpu)
  with that [of _ ?c] interrupt_bracket [OF irq_off_cpu, of "k_cpu s"] show ?thesis by simp
qed

lemma unmap_ok:
  assumes ok: "tlb_ok V (vmms s) (k_tlb s)" and v: "v = cur_vmm s" "v \<in> V" and as: "hi_asid (r_entryhi (k_cpu s)) = asid (vmms s v)"
    and un: "vma_unmap F from s = (rc, s')"
  shows "tlb_ok V (vmms s') (k_tlb s') \<and> hi_asid (r_entryhi (k_cpu s')) = asid (vmms s' v) \<and> r_random (k_cpu s') = r_random (k_cpu s) \<and>
     cur_vmm s' = v \<and> (rc \<noteq> EOK \<longrightarrow> vmms s' = vmms s \<and> k_tlb s' = k_tlb s) \<and>
     (rc = EOK \<longrightarrow> (\<exists>i < length (vmas (vmms s v)). let area = vmas (vmms s v) ! i in
        vma_valid area \<and> vpn_base area = drop_bit 12 from \<and>
        vmms s' = (vmms s)(v := (vmms s v)\<lparr>vmas := (vmas (vmms s v))[i := area\<lparr>vma_valid := False\<rparr>]\<rparr>) \<and>
        (\<forall>virt p. vma_maps (drop_bit 12 virt) area \<longrightarrow> tlb_translate (k_tlb s') (asid (vmms s' v)) virt \<noteq> TLB_Hit p)))"
proof -
  obtain st c where i: "irq_off s = (st, s\<lparr>k_cpu := c\<rparr>)" "conditionally_enable_interrupts st c = k_cpu s"
    "r_entryhi c = r_entryhi (k_cpu s)" "r_random c = r_random (k_cpu s)" by (rule irq_off_regs)
  let ?m = "vmms s v" and ?vpn = "drop_bit 12 from"
  note E = un [unfolded vma_unmap_eq [OF i(1,2)], folded v(1)]
  show ?thesis
  proof (cases "rc = EOK")
    case False
    then have "vmms s' = vmms s \<and> k_tlb s' = k_tlb s \<and> k_cpu s' = k_cpu s \<and> cur_vmm s' = v"
      using E v(1) by (auto simp: Let_def split: if_splits option.splits)
    then show ?thesis using ok as False by simp
  next
    case True
    then obtain j fs where found: "vma_scan (\<lambda>w. vma_valid w \<and> vpn_base w = ?vpn) 0 (vmas ?m) = Some j"
      "s' = irq_restore st (upd_vmm v (\<lambda>m. m\<lparr>vmas := (vmas m)[j := (vmas ?m ! j)\<lparr>vma_valid := False\<rparr>]\<rparr>)
         (tlb_flush_pages (unat (vma_count (vmas ?m ! j))) ?vpn (s\<lparr>k_cpu := c, k_fs := fs\<rparr>)))"
      using E by (auto simp: Let_def split: if_splits option.splits)
    let ?area = "vmas ?m ! j" and ?s = "s\<lparr>k_cpu := c, k_fs := fs\<rparr>"
    let ?t = "tlb_flush_pages (unat (vma_count ?area)) ?vpn ?s" and ?m' = "?m\<lparr>vmas := (vmas ?m)[j := ?area\<lparr>vma_valid := False\<rparr>]\<rparr>"
    have J: "j < length (vmas ?m)" "vma_valid ?area" "vpn_base ?area = ?vpn" using vma_scan_SomeD [OF found(1)] by auto
    have pre: "tlb_ok V (vmms ?s) (k_tlb ?s)" "hi_asid (r_entryhi (k_cpu ?s)) = asid (vmms ?s v)" using ok as i(3) by simp_all
    note FP = flush_pages_ok [OF pre(1) v(2) pre(2), where vpn = ?vpn and n = "unat (vma_count ?area)"]
    have t: "tlb_ok V (vmms s) (k_tlb ?t)" "vmms ?t = vmms s"
      and um: "\<And>k. k < unat (vma_count ?area) \<Longrightarrow> unmapped_page (k_tlb ?t) (asid ?m) (take_bit 20 (?vpn + of_nat k))"
      using FP by auto
    have gone: "unmapped_page (k_tlb ?t) (asid ?m) (drop_bit 12 virt)" if m: "vma_maps (drop_bit 12 virt) ?area" for virt
    proof -
      obtain k where k: "k < unat (vma_count ?area)" "drop_bit 12 virt = ?vpn + of_nat k"
        using area_page [OF m] J(3) by auto
      have "take_bit 20 (drop_bit 12 virt) = drop_bit 12 virt"
        by (rule bit_word_eqI) (auto simp: bit_simps dest: bit_imp_le_length)
      then show ?thesis using um [OF k(1)] k(2) by simp
    qed
    have vm': "vmms s' = (vmms s)(v := ?m')" and tl': "k_tlb s' = k_tlb ?t"
      using found(2) t(2) by (simp_all add: upd_vmm_def)
    have "tlb_ok V ((vmms s)(v := ?m')) (k_tlb ?t)"
    proof (rule tlb_ok_remap [OF t(1)])
      fix virt assume "\<not> unmapped_page (k_tlb ?t) (asid (vmms s v)) (drop_bit 12 virt)"
      then have "\<not> vma_maps (drop_bit 12 virt) ?area" using gone by blast
      then show "mapped_frame ?m' (drop_bit 12 virt) = mapped_frame ?m (drop_bit 12 virt)"
        by (intro mapped_frame_update) (simp_all add: vma_maps_def)
    qed simp
    then have ok': "tlb_ok V (vmms s') (k_tlb s')" using vm' tl' by simp
    moreover have "tlb_translate (k_tlb s') (asid (vmms s' v)) virt \<noteq> TLB_Hit p" if "vma_maps (drop_bit 12 virt) ?area" for virt p
      using unmapped_no_hit [OF ok' v(2)] gone [OF that] vm' tl' by simp
    moreover have "cur_vmm s' = v" "hi_asid (r_entryhi (k_cpu s')) = asid (vmms s' v)" "r_random (k_cpu s') = r_random (k_cpu s)"
      using found(2) FP v as vm' i by (simp_all add: upd_vmm_def)
    ultimately show ?thesis using True J vm' by (auto simp: Let_def)
  qed
qed

text \<open>\<^verbatim>\<open>tlb_init\<close> changes the coprocessor and the TLB only.\<close>

lemma tlb_init_form: "\<exists>c t. tlb_init s = s\<lparr>k_cpu := c, k_tlb := t\<rparr>"
proof -
  have clear: "\<exists>c t. tlb_clear n s = s\<lparr>k_cpu := c, k_tlb := t\<rparr>" for n and s :: "('a, 'b) kernel_scheme"
  proof (induction n)
    case 0
    show ?case by (intro exI [of _ "k_cpu s"] exI [of _ "k_tlb s"]) simp
  next
    case (Suc n)
    then obtain c t where "tlb_clear n s = s\<lparr>k_cpu := c, k_tlb := t\<rparr>" by blast
    then show ?case by (simp add: tlb_write_indexed_def upd_order) blast
  qed
  obtain c' where i: "tlb_init s = tlb_clear CP0_INDEX_INDEX_COUNT (s\<lparr>k_cpu := c'\<rparr>)" unfolding tlb_init_def Let_def by simp
  obtain c t where "tlb_clear CP0_INDEX_INDEX_COUNT (s\<lparr>k_cpu := c'\<rparr>) = s\<lparr>k_cpu := c'\<rparr>\<lparr>k_cpu := c, k_tlb := t\<rparr>" using clear by blast
  then show ?thesis unfolding i by auto
qed

end
