(* ===== verification/Vm_Properties.thy ===== *)
theory Vm_Properties
  imports Vm_Coherence Malloc_Free
begin

text \<open>
  What the virtual memory promises as a whole: mapping an area, the two TLB exceptions, the steps of the
  machine that touch the TLB or the maps with the coherence invariant along all of them, the death of a thread that
  touches an unmapped address, and the check of user memory.
\<close>

unbundle bit_operations_syntax

section \<open>Mapping\<close>

lemma vma_map_eq:
  assumes i: "irq_off s = (st, s\<lparr>k_cpu := c\<rparr>)" "conditionally_enable_interrupts st c = k_cpu s"
    and r: "r = frame_alloc F (k_fs s) (drop_bit 12 sz) (VF_VA_AUTO OR VF_AT_KSEG0)"
    and au: "au = (flags AND VF_VA_AUTO = VF_VA_AUTO)"
    and fr: "from1 = (if au then push_bit 12 (vma_top (vmas (vmms s (cur_vmm s))) 0) else from)"
  shows "vma_map F from sz flags s = do {
     kassert (au \<noteq> (flags AND VF_VA_USER = VF_VA_USER));
     if ALIGN_DOWN sz PAGE_SIZE \<noteq> sz then Some (EINVAL, from, s)
     else do {
       kassert (\<not> (flags AND VF_AT_KSEG0 = VF_AT_KSEG0 \<or> flags AND VF_AT_KSEG1 = VF_AT_KSEG1));
       if au \<and> vma_top (vmas (vmms s (cur_vmm s))) 0 = 0 then Some (ENOMEM, from, s)
       else if ALIGN_DOWN from1 PAGE_SIZE \<noteq> from1 then Some (EINVAL, from1, s)
       else case vma_scan (\<lambda>v. \<not> vma_valid v) 0 (vmas (vmms s (cur_vmm s))) of
         None \<Rightarrow> Some (ENOMEM, from1, s)
       | Some j \<Rightarrow>
           if fst r \<noteq> EOK then Some (fst r, from1, s\<lparr>k_fs := snd (snd r)\<rparr>)
           else Some (EOK, from1, upd_vmm (cur_vmm s) (\<lambda>m. m\<lparr>vmas := (vmas m)[j :=
             \<lparr>vpn_base = drop_bit 12 from1, pfn_base = drop_bit 12 (fst (snd r)), vma_count = drop_bit 12 sz, vma_valid = True\<rparr>]\<rparr>)
             (s\<lparr>k_fs := snd (snd r)\<rparr>))
     }
   }"
proof -
  obtain rc ph fs where r': "frame_alloc F (k_fs s) (drop_bit 12 sz) (VF_VA_AUTO OR VF_AT_KSEG0) = (rc, ph, fs)"
    using prod_cases3 by blast
  have R: "irq_restore st (s\<lparr>k_cpu := c\<rparr>) = s" "irq_restore st (s\<lparr>k_cpu := c, k_fs := fs\<rparr>) = s\<lparr>k_fs := fs\<rparr>"
    "irq_restore st (upd_vmm w g (s\<lparr>k_cpu := c, k_fs := fs\<rparr>)) = upd_vmm w g (s\<lparr>k_fs := fs\<rparr>)" for w g
    using i(2) by (simp_all add: irq_restore_def upd_vmm_def)
  show ?thesis
    unfolding vma_map_def r r' fr au
    by (simp add: i(1) thread_get_current_eq R PAGE_WIDTH_def FRAME_WIDTH_def Let_def r' split: option.split)
qed


text \<open>The new area takes the first free slot \<open>j\<close>; where it overlaps other areas, those in the slots before \<open>j\<close> win.\<close>

lemma vma_scan_first: "vma_scan P i vs = Some k \<Longrightarrow> n < k - i \<Longrightarrow> \<not> P (vs ! n)"
proof (induction vs arbitrary: i n)
  case (Cons v vs)
  then show ?case by (cases n) (auto split: if_splits)
qed simp

lemma vma_scan_unique:
  assumes "k < length vs" and "P (vs ! k)" and "\<And>n. n < k \<Longrightarrow> \<not> P (vs ! n)"
  shows "vma_scan P 0 vs = Some k"
proof -
  obtain m where m: "vma_scan P 0 vs = Some m" using assms(1,2) vma_scan_None [of P 0 vs] by (cases "vma_scan P 0 vs") auto
  have "P (vs ! m)" "\<And>n. n < m \<Longrightarrow> \<not> P (vs ! n)" using vma_scan_SomeD [OF m] vma_scan_first [OF m] by auto
  with assms(2,3) have "m = k" by (metis linorder_neqE_nat)
  with m show ?thesis by simp
qed

definition shadowed :: "u32 \<Rightarrow> nat \<Rightarrow> vma list \<Rightarrow> bool" where
  "shadowed p j vs \<longleftrightarrow> (\<exists>n < j. vma_maps p (vs ! n))"

lemma mapped_frame_new:
  assumes j: "j < length (vmas m)" and nv: "\<not> vma_valid (vmas m ! j)"
  shows "mapped_frame (m\<lparr>vmas := (vmas m)[j := a]\<rparr>) p =
     (if vma_maps p a \<and> \<not> shadowed p j (vmas m) then Some (take_bit 20 (pfn_base a + (p - vpn_base a))) else mapped_frame m p)"
proof -
  let ?vs = "vmas m" and ?vs' = "(vmas m)[j := a]"
  have nj: "\<not> vma_maps p (?vs ! j)" using nv by (simp add: vma_maps_def)
  consider (no) "\<not> vma_maps p a" | (new) "vma_maps p a" "\<not> shadowed p j ?vs" | (old) "vma_maps p a" "shadowed p j ?vs" by blast
  then show ?thesis
  proof cases
    case no
    then show ?thesis using mapped_frame_update [OF no] nj by simp
  next
    case new
    have "vma_scan (vma_maps p) 0 ?vs' = Some j" by (rule vma_scan_unique) (use j new in \<open>auto simp: shadowed_def\<close>)
    then show ?thesis using new j by (simp add: mapped_frame_def)
  next
    case old
    then obtain n where n: "n < j" "vma_maps p (?vs ! n)" by (auto simp: shadowed_def)
    then obtain k where k: "vma_scan (vma_maps p) 0 ?vs = Some k" using j vma_scan_None [of "vma_maps p" 0 ?vs] by (cases "vma_scan (vma_maps p) 0 ?vs") auto
    have K: "k < length ?vs" "vma_maps p (?vs ! k)" "\<And>i. i < k \<Longrightarrow> \<not> vma_maps p (?vs ! i)" using vma_scan_SomeD [OF k] vma_scan_first [OF k] by auto
    have kj: "k < j" using K(3) n by (metis linorder_neqE_nat order.strict_trans)
    have "vma_scan (vma_maps p) 0 ?vs' = Some k" by (rule vma_scan_unique) (use K kj in auto)
    then show ?thesis using old k kj by (simp add: mapped_frame_def)
  qed
qed

lemma unmapped_not_shadowed: "mapped_frame m p = None \<Longrightarrow> j \<le> length (vmas m) \<Longrightarrow> \<not> shadowed p j (vmas m)"
  using vma_scan_None [of "vma_maps p" 0 "vmas m"] by (auto simp: mapped_frame_def shadowed_def split: option.splits)

text \<open>The area a call of \<^verbatim>\<open>vma_map\<close> creates.\<close>

definition new_area :: "u32 \<Rightarrow> u32 \<Rightarrow> u32 \<Rightarrow> vma" where
  "new_area from sz phys = \<lparr>vpn_base = drop_bit 12 from, pfn_base = drop_bit 12 phys, vma_count = drop_bit 12 sz, vma_valid = True\<rparr>"

lemma tlb_pages_mapped:
  assumes "tlb_ok V vm tlb" and "v \<in> V" and "\<not> unmapped_page tlb (asid (vm v)) p"
  shows "mapped_frame (vm v) p \<noteq> None"
proof -
  obtain i virt where "i < 48" "hi_asid (te_hi (tlb i)) = asid (vm v)" "drop_bit 12 virt = p"
    "hi_vpn2 virt = hi_vpn2 (te_hi (tlb i))" "lo_valid (te_half (bit virt 12) (tlb i))"
    using assms(3) by (auto simp: unmapped_page_def)
  moreover from this have "entry_ok V vm (tlb i)" using assms(1) by (simp add: tlb_ok_def)
  ultimately show ?thesis using assms(2) unfolding entry_ok_def by fastforce
qed

text \<open>What \<^verbatim>\<open>vma_map\<close> does to the map: the pages of the new area have the frames the allocator gave, but for those that an area in an earlier slot maps.\<close>

definition map_extended :: "'fs falloc \<Rightarrow> u32 \<Rightarrow> u32 \<Rightarrow> ('fs, 'z) kernel_scheme \<Rightarrow> ('fs, 'z) kernel_scheme \<Rightarrow> bool" where
  "map_extended F from sz s s' \<longleftrightarrow> (\<exists>ph j. fst (snd (frame_alloc F (k_fs s) (drop_bit 12 sz) (VF_VA_AUTO OR VF_AT_KSEG0))) = ph \<and>
     vma_scan (\<lambda>w. \<not> vma_valid w) 0 (vmas (vmms s (cur_vmm s))) = Some j \<and>
     vmms s' = (vmms s)(cur_vmm s := (vmms s (cur_vmm s))\<lparr>vmas := (vmas (vmms s (cur_vmm s)))[j := new_area from sz ph]\<rparr>) \<and>
     (\<forall>p. mapped_frame (vmms s' (cur_vmm s)) p =
        (if vma_maps p (new_area from sz ph) \<and> \<not> shadowed p j (vmas (vmms s (cur_vmm s))) then Some (take_bit 20 (drop_bit 12 ph + (p - drop_bit 12 from)))
         else mapped_frame (vmms s (cur_vmm s)) p)))"

lemma map_effect:
  assumes m: "vma_map F from sz flags s = Some (rc, from1, s')"
  shows "k_cpu s' = k_cpu s" "cur_vmm s' = cur_vmm s" "k_tlb s' = k_tlb s" "asid (vmms s' w) = asid (vmms s w)" "last_asid s' = last_asid s"
    "rc \<noteq> EOK \<Longrightarrow> vmms s' = vmms s" "rc = EOK \<Longrightarrow> map_extended F from1 sz s s'"
proof -
  obtain st c where i: "irq_off s = (st, s\<lparr>k_cpu := c\<rparr>)" "conditionally_enable_interrupts st c = k_cpu s" by (rule irq_offE)
  note E = m [unfolded vma_map_eq [OF i refl refl refl]]
  define ph where "ph = fst (snd (frame_alloc F (k_fs s) (drop_bit 12 sz) (VF_VA_AUTO OR VF_AT_KSEG0)))"
  have "k_cpu s' = k_cpu s \<and> cur_vmm s' = cur_vmm s \<and> k_tlb s' = k_tlb s \<and> asid (vmms s' w) = asid (vmms s w) \<and> last_asid s' = last_asid s \<and>
     (rc \<noteq> EOK \<longrightarrow> vmms s' = vmms s) \<and> (rc = EOK \<longrightarrow> map_extended F from1 sz s s')"
  proof (cases "rc = EOK")
    case False
    then have "\<exists>fs. s' = s \<or> s' = s\<lparr>k_fs := fs\<rparr>"
      using E by (auto elim!: bind_eq_SomeE split: if_splits option.splits)
    then show ?thesis using False by auto
  next
    case True
    then obtain j fs where j: "vma_scan (\<lambda>v. \<not> vma_valid v) 0 (vmas (vmms s (cur_vmm s))) = Some j"
      and s': "s' = upd_vmm (cur_vmm s) (\<lambda>m. m\<lparr>vmas := (vmas m)[j := new_area from1 sz ph]\<rparr>) (s\<lparr>k_fs := fs\<rparr>)"
      using E by (auto elim!: bind_eq_SomeE split: if_splits option.splits simp: new_area_def ph_def)
    have J: "j < length (vmas (vmms s (cur_vmm s)))" "\<not> vma_valid (vmas (vmms s (cur_vmm s)) ! j)" using vma_scan_SomeD [OF j] by auto
    have "map_extended F from1 sz s s'"
      unfolding map_extended_def
    proof (intro exI [of _ ph] exI [of _ j] conjI allI)
      show "fst (snd (frame_alloc F (k_fs s) (drop_bit 12 sz) (VF_VA_AUTO OR VF_AT_KSEG0))) = ph" by (simp add: ph_def)
      show "vma_scan (\<lambda>w. \<not> vma_valid w) 0 (vmas (vmms s (cur_vmm s))) = Some j" by (rule j)
      show "vmms s' = (vmms s)(cur_vmm s := (vmms s (cur_vmm s))\<lparr>vmas := (vmas (vmms s (cur_vmm s)))[j := new_area from1 sz ph]\<rparr>)"
        by (simp add: s' upd_vmm_def)
      then show "mapped_frame (vmms s' (cur_vmm s)) p =
          (if vma_maps p (new_area from1 sz ph) \<and> \<not> shadowed p j (vmas (vmms s (cur_vmm s))) then Some (take_bit 20 (drop_bit 12 ph + (p - drop_bit 12 from1)))
           else mapped_frame (vmms s (cur_vmm s)) p)" for p
        using mapped_frame_new [OF J, of "new_area from1 sz ph" p] by (simp add: new_area_def)
    qed
    then show ?thesis using True s' by (simp add: upd_vmm_def)
  qed
  then show "k_cpu s' = k_cpu s" "cur_vmm s' = cur_vmm s" "k_tlb s' = k_tlb s" "asid (vmms s' w) = asid (vmms s w)" "last_asid s' = last_asid s"
    "rc \<noteq> EOK \<Longrightarrow> vmms s' = vmms s" "rc = EOK \<Longrightarrow> map_extended F from1 sz s s'" by simp_all
qed

text \<open>As long as the area overlaps no other one of the map, the TLB stays consistent.\<close>

definition no_overlap :: "u32 \<Rightarrow> u32 \<Rightarrow> vmm \<Rightarrow> bool" where
  "no_overlap from sz m \<longleftrightarrow> (\<forall>p ph. vma_maps p (new_area from sz ph) \<longrightarrow> mapped_frame m p = None)"

lemma map_ok:
  assumes ok: "tlb_ok V (vmms s) (k_tlb s)" and v: "cur_vmm s \<in> V"
    and m: "vma_map F from sz flags s = Some (rc, from1, s')" and free: "no_overlap from1 sz (vmms s (cur_vmm s))"
  shows "tlb_ok V (vmms s') (k_tlb s')"
proof (cases "rc = EOK")
  case False
  then show ?thesis using ok map_effect [OF m] by simp
next
  case True
  from map_effect(7) [OF m True] obtain ph j where M:
    "vmms s' = (vmms s)(cur_vmm s := (vmms s (cur_vmm s))\<lparr>vmas := (vmas (vmms s (cur_vmm s)))[j := new_area from1 sz ph]\<rparr>)"
    "\<And>p. \<not> vma_maps p (new_area from1 sz ph) \<Longrightarrow> mapped_frame (vmms s' (cur_vmm s)) p = mapped_frame (vmms s (cur_vmm s)) p"
    by (auto simp: map_extended_def)
  have "tlb_ok V ((vmms s)(cur_vmm s := vmms s' (cur_vmm s))) (k_tlb s)"
  proof (rule tlb_ok_remap [OF ok])
    fix virt assume u: "\<not> unmapped_page (k_tlb s) (asid (vmms s (cur_vmm s))) (drop_bit 12 virt)"
    show "mapped_frame (vmms s' (cur_vmm s)) (drop_bit 12 virt) = mapped_frame (vmms s (cur_vmm s)) (drop_bit 12 virt)"
    proof (rule M(2))
      show "\<not> vma_maps (drop_bit 12 virt) (new_area from1 sz ph)" using tlb_pages_mapped [OF ok v u] free unfolding no_overlap_def by (metis (no_types))
    qed
  qed (simp add: M(1))
  moreover have "(vmms s)(cur_vmm s := vmms s' (cur_vmm s)) = vmms s'" by (simp add: M(1))
  ultimately show ?thesis using map_effect(3) [OF m] by simp
qed

section \<open>Exceptions\<close>

text \<open>What the hardware sees to: EntryHi holds the address space of the running thread, and Random stays in range.\<close>

definition hw_ok :: "u32 set \<Rightarrow> ('fs, 'z) kernel_scheme \<Rightarrow> bool" where
  "hw_ok V s \<longleftrightarrow> cur_vmm s \<in> V \<and> hi_asid (r_entryhi (k_cpu s)) = asid (vmms s (cur_vmm s)) \<and> r_random (k_cpu s) < 48"

abbreviation cur_asid :: "('fs, 'z) kernel_scheme \<Rightarrow> u8" where
  "cur_asid s \<equiv> asid (vmms s (cur_vmm s))"

text \<open>The state in which the refill handler starts: the processor has put the page pair of the address into EntryHi.\<close>

definition tlb_exception :: "u32 \<Rightarrow> ('fs, 'z) kernel_scheme \<Rightarrow> ('fs, 'z) kernel_scheme" where
  "tlb_exception virt s = s\<lparr>k_cpu := (k_cpu s)\<lparr>r_entryhi := entryhi_of virt (hi_asid (r_entryhi (k_cpu s)))\<rparr>\<rparr>"

lemma or_eq_add: "push_bit 12 f OR (virt AND 0xfff) = push_bit 12 f + (virt AND 0xfff)" for f :: u32
  by (rule disjunctive_add [symmetric]) (auto simp: mask_consts bit_simps)

lemma frame_of_found: "mapped_frame m p = Some f \<Longrightarrow> drop_bit 12 (push_bit 12 f + (virt AND 0xfff)) = f"
  by (auto simp: frame_of_phys mapped_frame_def split: option.splits)

lemma refill_ok:
  assumes ok: "tlb_ok V (vmms s) (k_tlb s)" and hw: "hw_ok V s"
    and miss: "tlb_translate (k_tlb s) (cur_asid s) virt = TLB_Refill"
    and regs: "c_badva registers = virt"
    and f: "mapped_frame (vmms s (cur_vmm s)) (drop_bit 12 virt) = Some f"
  shows "\<exists>s'. wrapped_tlb_refill buf ph registers (tlb_exception virt s) = Some (True, s') \<and>
     tlb_ok V (vmms s') (k_tlb s') \<and> hw_ok V s' \<and> vmms s' = vmms s \<and> cur_vmm s' = cur_vmm s \<and>
     tlb_translate (k_tlb s') (cur_asid s) virt = TLB_Hit (push_bit 12 f + (virt AND 0xfff))"
proof -
  let ?v = "cur_vmm s" and ?s = "tlb_exception virt s"
  have x: "vmms ?s = vmms s" "k_tlb ?s = k_tlb s" "cur_vmm ?s = ?v" "r_random (k_cpu ?s) = r_random (k_cpu s)"
    "r_entryhi (k_cpu ?s) = entryhi_of virt (cur_asid s)" "thr ?s = thr s" "current_thread ?s = current_thread s" "k_cpuid ?s = k_cpuid s"
    using hw by (simp_all add: tlb_exception_def hw_ok_def)
  define s' where "s' = tlb_store_random (drop_bit 12 virt) f ?s"
  have none: "tlb_find (k_tlb ?s) (r_entryhi (k_cpu ?s)) = None"
    using miss x by (auto simp: tlb_translate_def Let_def split: option.splits if_splits)
  have S: "tlb_ok V (vmms s') (k_tlb s') \<and> tlb_translate (k_tlb s') (asid (vmms ?s ?v)) virt = TLB_Hit (push_bit 12 f OR (virt AND 0xfff))"
    by (rule store_random_ok [OF _ _ _ _ _ none _ s'_def]) (use ok hw f x in \<open>simp_all add: hw_ok_def entryhi_fields\<close>)
  have "wrapped_tlb_refill buf ph registers ?s = Some (True, s')"
    using f x frame_of_found [OF f, of virt]
    by (simp add: wrapped_tlb_refill_def regs vmm_mapping_find_eq s'_def PAGE_WIDTH_def FRAME_WIDTH_def)
  moreover have "thr s' = thr s" "current_thread s' = current_thread s" "k_cpuid s' = k_cpuid s" "vmms s' = vmms s"
    "r_entryhi (k_cpu s') = entryhi_of virt (cur_asid s)" "r_random (k_cpu s') = r_random (k_cpu s)"
    using x by (simp_all add: s'_def tlb_store_random_def tlb_write_random_def cp0_write_defs Let_def)
  ultimately show ?thesis using S x hw by (simp add: or_eq_add hw_ok_def entryhi_fields)
qed

lemma invalid_ok:
  assumes ok: "tlb_ok V (vmms s) (k_tlb s)" and hw: "hw_ok V s"
    and regs: "c_badva registers = virt" "c_entryhi registers = entryhi_of virt (cur_asid s)"
    and f: "mapped_frame (vmms s (cur_vmm s)) (drop_bit 12 virt) = Some f"
  shows "\<exists>s'. tlb_invalid buf ph registers s = Some (True, s') \<and>
     tlb_ok V (vmms s') (k_tlb s') \<and> hw_ok V s' \<and> vmms s' = vmms s \<and> cur_vmm s' = cur_vmm s \<and>
     tlb_translate (k_tlb s') (cur_asid s) virt = TLB_Hit (push_bit 12 f + (virt AND 0xfff))"
proof -
  let ?v = "cur_vmm s" and ?h = "entryhi_of virt (cur_asid s)"
  define s2 where "s2 = tlb_probe (on_cpu (write_cp0_entryhi ?h) s)"
  note P = probe_effect [where h = ?h and s = s, folded s2_def]
  have q: "thr s2 = thr s" "current_thread s2 = current_thread s" "k_cpuid s2 = k_cpuid s" by (simp_all add: s2_def tlb_probe_def)
  define s' where "s' = (if field_get (CP0_INDEX INDEX_P) (r_index (k_cpu s2)) \<noteq> 0 then tlb_store_random (drop_bit 12 virt) f s2
    else tlb_store_indexed (drop_bit 12 virt) f s2)"
  have run: "tlb_invalid buf ph registers s = Some (True, s')"
    using f frame_of_found [OF f, of virt] regs
    by (simp add: tlb_invalid_def vmm_mapping_find_eq s'_def s2_def PAGE_WIDTH_def FRAME_WIDTH_def cp0_read_defs)
  have S: "tlb_ok V (vmms s') (k_tlb s') \<and> tlb_translate (k_tlb s') (asid (vmms s2 ?v)) virt = TLB_Hit (push_bit 12 f OR (virt AND 0xfff)) \<and>
      hi_asid (r_entryhi (k_cpu s')) = cur_asid s"
  proof (cases "tlb_find (k_tlb s) ?h")
    case None
    then have s': "s' = tlb_store_random (drop_bit 12 virt) f s2" using P(6) by (simp add: s'_def)
    have "tlb_ok V (vmms s') (k_tlb s') \<and> tlb_translate (k_tlb s') (asid (vmms s2 ?v)) virt = TLB_Hit (push_bit 12 f OR (virt AND 0xfff))"
      by (rule store_random_ok [OF _ _ _ _ _ _ _ s']) (use ok hw f P None in \<open>simp_all add: hw_ok_def entryhi_fields\<close>)
    then show ?thesis using store_random_effect(3) [of s2] hw P s' by (simp add: hw_ok_def entryhi_fields)
  next
    case (Some i)
    then have s': "s' = tlb_store_indexed (drop_bit 12 virt) f s2" and ix: "tlb_index s2 = i" using P(6,7) by (simp_all add: s'_def)
    have eo: "entry_ok V (vmms s) (k_tlb s i)" using ok tlb_find_SomeD(1) [OF Some] by (simp add: tlb_ok_def)
    have hi: "hi_asid (te_hi (k_tlb s i)) = cur_asid s"
      using tlb_find_SomeD(2) [OF Some] unfolding matches_ok [OF eo] by (simp add: entryhi_fields)
    have "tlb_ok V (vmms s') (k_tlb s') \<and> tlb_translate (k_tlb s') (asid (vmms s2 ?v)) virt = TLB_Hit (push_bit 12 f OR (virt AND 0xfff))"
      by (rule store_indexed_ok [OF _ _ _ _ _ _ s', where h = ?h]) (use ok hw f P Some ix in \<open>simp_all add: hw_ok_def entryhi_fields\<close>)
    moreover have "r_entryhi (k_cpu s') = te_hi (k_tlb s i)"
      using P(1) ix by (simp add: s' tlb_store_indexed_def tlb_read_def tlb_write_indexed_def cp0_write_defs Let_def tlb_index_def)
    ultimately show ?thesis using hi by simp
  qed
  moreover have "thr s' = thr s" "current_thread s' = current_thread s" "k_cpuid s' = k_cpuid s" "vmms s' = vmms s"
    "r_random (k_cpu s') = r_random (k_cpu s)"
    using P q by (simp_all add: s'_def tlb_store_random_def tlb_write_random_def tlb_store_indexed_def tlb_read_def tlb_write_indexed_def
      cp0_write_defs Let_def)
  ultimately show ?thesis using run P hw by (simp add: or_eq_add hw_ok_def)
qed


section \<open>The machine\<close>

text \<open>\<^verbatim>\<open>tlb_init\<close> leaves 48 entries of an address space nobody uses.\<close>

lemma tlb_clear_effect:
  assumes "n \<le> 48"
  shows "k_tlb (tlb_clear n s) i = (if i < n then entry_registers (k_cpu s) else k_tlb s i) \<and>
     entry_registers (k_cpu (tlb_clear n s)) = entry_registers (k_cpu s) \<and> r_random (k_cpu (tlb_clear n s)) = r_random (k_cpu s) \<and>
     vmms (tlb_clear n s) = vmms s \<and> thr (tlb_clear n s) = thr s"
  using assms
proof (induction n arbitrary: i)
  case (Suc n)
  have "tlb_index (on_cpu (write_cp0_index (of_nat n)) (tlb_clear n s)) = n"
    using Suc.prems by (simp add: tlb_index_def cp0_write_defs field_get_def mask_consts take_bit_eq_mask [symmetric]
      unsigned_take_bit_eq take_bit_nat_eq_self unat_of_nat)
  then show ?case using Suc by (auto simp: tlb_write_indexed_def entry_registers_def cp0_write_defs)
qed simp

lemma tlb_init_effect:
  "i < 48 \<Longrightarrow> k_tlb (tlb_init s) i = blank_entry 0xff" "vmms (tlb_init s) = vmms s" "thr (tlb_init s) = thr s"
  "r_random (k_cpu (tlb_init s)) = 47"
proof -
  define s5 where "s5 = on_cpu (write_cp0_entryhi (fst (CP0_ENTRYHI ENTRYHI_ASID))) (on_cpu (write_cp0_entrylo1 0)
    (on_cpu (write_cp0_entrylo0 0) (on_cpu (write_cp0_pagemask CP0_PAGEMASK_4K) (on_cpu (write_cp0_wired 0) s))))"
  have i: "tlb_init s = tlb_clear 48 s5" by (simp add: tlb_init_def s5_def Let_def CP0_INDEX_INDEX_COUNT_def)
  have r: "entry_registers (k_cpu s5) = blank_entry 0xff" "vmms s5 = vmms s" "thr s5 = thr s" "r_random (k_cpu s5) = 47"
    by (simp_all add: s5_def entry_registers_def cp0_write_defs)
  note C = tlb_clear_effect [of 48 s5, simplified r]
  show "i < 48 \<Longrightarrow> k_tlb (tlb_init s) i = blank_entry 0xff" "vmms (tlb_init s) = vmms s" "thr (tlb_init s) = thr s"
    "r_random (k_cpu (tlb_init s)) = 47" using C i by auto
qed

lemma tlb_init_ok:
  assumes "inj_on (\<lambda>v. asid (vmms s v)) V" and "\<forall>v \<in> V. asid (vmms s v) \<noteq> 0xff"
  shows "tlb_ok V (vmms (tlb_init s)) (k_tlb (tlb_init s))"
  using assms by (auto simp: tlb_ok_def tlb_init_effect entry_ok_def)

lemma switch_tlb:
  "k_tlb (thread_switch n s) = k_tlb s" "r_random (k_cpu (thread_switch n s)) = r_random (k_cpu s)"
  "t_vmm (thr (thread_switch n s) t) = t_vmm (thr s t)"
  "hi_asid (r_entryhi (k_cpu (thread_switch n s))) = asid (vmms s (t_vmm (thr s n)))"
proof -
  have low: "hi_asid ((x AND NOT 0xff) OR ucast a) = a" for x :: u32 and a :: u8
    by (rule bit_word_eqI) (auto simp: mask_consts bit_simps)
  show "k_tlb (thread_switch n s) = k_tlb s" "r_random (k_cpu (thread_switch n s)) = r_random (k_cpu s)"
    "t_vmm (thr (thread_switch n s) t) = t_vmm (thr s t)"
    "hi_asid (r_entryhi (k_cpu (thread_switch n s))) = asid (vmms s (t_vmm (thr s n)))"
    by (simp_all add: thread_switch_def irq_off_def irq_off_cpu Let_def upd_thread_def cpu_switch_context_def cp0_read_defs cp0_write_defs
      low [simplified])
qed

text \<open>Where a switch by the scheduler leads.\<close>

lemma schedule_tlb:
  assumes "schedule s = Some (True, s')"
  shows "k_tlb s' = k_tlb s" "vmms s' = vmms s" "r_random (k_cpu s') = r_random (k_cpu s)" "last_asid s' = last_asid s"
    "hi_asid (r_entryhi (k_cpu s')) = asid (vmms s (cur_vmm s'))"
proof -
  obtain st c where i: "irq_off s = (st, s\<lparr>k_cpu := c\<rparr>)" "r_entryhi c = r_entryhi (k_cpu s)" "r_random c = r_random (k_cpu s)" by (rule irq_off_regs)
  obtain m n where s': "s' = thread_switch n (upd_thread n (\<lambda>t. t\<lparr>scheduled := timer_get c\<rparr>) (s\<lparr>k_cpu := c, k_mem := m\<rparr>))"
    using assms by (auto simp: schedule_def i Let_def elim!: bind_eq_SomeE split: if_splits)
  have "cur s' = n" by (simp add: s')
  moreover have "last_asid (thread_switch n u) = last_asid u" for u :: "('a, 'b) kernel_scheme"
    by (rule irq_offE [of u]) (simp add: thread_switch_def Let_def upd_thread_def cpu_switch_context_def)
  ultimately show "k_tlb s' = k_tlb s" "vmms s' = vmms s" "r_random (k_cpu s') = r_random (k_cpu s)" "last_asid s' = last_asid s"
    "hi_asid (r_entryhi (k_cpu s')) = asid (vmms s (cur_vmm s'))"
    using i(3) by (simp_all add: s' switch_tlb upd_thread_def)
qed

lemma finish_tlb:
  assumes "thread_finish v s = Some s'"
  shows "k_tlb s' = k_tlb s" "vmms s' = vmms s" "r_random (k_cpu s') = r_random (k_cpu s)" "last_asid s' = last_asid s"
    "hi_asid (r_entryhi (k_cpu s')) = asid (vmms s (cur_vmm s'))"
proof -
  obtain st c where i: "irq_off s = (st, s\<lparr>k_cpu := c\<rparr>)" "r_entryhi c = r_entryhi (k_cpu s)" "r_random c = r_random (k_cpu s)" by (rule irq_off_regs)
  obtain s1 where s1: "schedule s1 = Some (True, s')" "k_tlb s1 = k_tlb s" "vmms s1 = vmms s" "r_random (k_cpu s1) = r_random (k_cpu s)" "last_asid s1 = last_asid s"
    using assms i(3) by (auto simp: thread_finish_def i(1) sched_remove_eq upd_thread_def Let_def thread_wakeup_eq elim!: bind_eq_SomeE split: if_splits)
  show "k_tlb s' = k_tlb s" "vmms s' = vmms s" "r_random (k_cpu s') = r_random (k_cpu s)" "last_asid s' = last_asid s"
    "hi_asid (r_entryhi (k_cpu s')) = asid (vmms s (cur_vmm s'))" using schedule_tlb [OF s1(1)] s1(2-5) by simp_all
qed

text \<open>What happens to the TLB and the maps, with the set \<open>V\<close> of the maps in use: the two exceptions, whether they go back to the thread or finish it, the calls of the running
  thread, the creation of a map, switches between threads, and the Random register counting on. Three things are owed that the code does not check. A new area overlaps no other
  one of its map (the comment in \<^verbatim>\<open>vmm.c\<close> says that overlapping areas are not handled). The 8-bit counter of the address space identifiers has not come to its end (the same
  comment limits their number). And the maps in use are blocks of a well-formed heap, which makes a new map a fresh one.\<close>

inductive vm_step :: "'fs falloc \<Rightarrow> ('fs \<Rightarrow> nat set) \<Rightarrow> u32 set \<times> 'fs kernel \<Rightarrow> u32 set \<times> 'fs kernel \<Rightarrow> bool" for F owned where
  refill: "tlb_translate (k_tlb s) (cur_asid s) (c_badva registers) = TLB_Refill \<Longrightarrow>
    wrapped_tlb_refill buf ph registers (tlb_exception (c_badva registers) s) = Some (ret, s') \<Longrightarrow> cur_vmm s' \<in> V \<Longrightarrow> vm_step F owned (V, s) (V, s')"
| invalid: "tlb_translate (k_tlb s) (cur_asid s) (c_badva registers) = TLB_Invalid \<Longrightarrow>
    c_entryhi registers = r_entryhi (k_cpu (tlb_exception (c_badva registers) s)) \<Longrightarrow>
    tlb_invalid buf ph registers (tlb_exception (c_badva registers) s) = Some (ret, s') \<Longrightarrow> cur_vmm s' \<in> V \<Longrightarrow> vm_step F owned (V, s) (V, s')"
| map: "vma_map F from sz flags s = Some (rc, from1, s') \<Longrightarrow> no_overlap from1 sz (vmms s (cur_vmm s)) \<Longrightarrow> vm_step F owned (V, s) (V, s')"
| unmap: "vma_unmap F from s = (rc, s') \<Longrightarrow> vm_step F owned (V, s) (V, s')"
| create: "kheap_inv F owned s hs \<Longrightarrow> (\<forall>v \<in> V. \<exists>k > 0. (unat v, k) \<in> allocated hs) \<Longrightarrow> last_asid s < 0xff \<Longrightarrow>
    vmm_create F pvmm s = Some (rc, v, s') \<Longrightarrow> vm_step F owned (V, s) (if rc = EOK then insert v V else V, s')"
| switch: "t_vmm (thr s n) \<in> V \<Longrightarrow> vm_step F owned (V, s) (V, thread_switch n s)"
| cycle: "r < 48 \<Longrightarrow> vm_step F owned (V, s) (V, s\<lparr>k_cpu := (k_cpu s)\<lparr>r_random := r\<rparr>\<rparr>)"

text \<open>The invariant: beside the consistency of the TLB, its entries belong to maps in use or to nobody, and the identifiers given out lie below the counter.\<close>

definition asids :: "u32 set \<Rightarrow> ('fs, 'z) kernel_scheme \<Rightarrow> u8 set" where
  "asids V s = insert 0xff ((\<lambda>v. asid (vmms s v)) ` V)"

definition asids_in :: "u8 set \<Rightarrow> (nat \<Rightarrow> tlb_entry) \<Rightarrow> bool" where
  "asids_in A tlb \<longleftrightarrow> (\<forall>i < 48. hi_asid (te_hi (tlb i)) \<in> A)"

definition vm_inv :: "u32 set \<times> 'fs kernel \<Rightarrow> bool" where
  "vm_inv x \<longleftrightarrow> (case x of (V, s) \<Rightarrow> tlb_ok V (vmms s) (k_tlb s) \<and> hw_ok V s \<and> asids_in (asids V s) (k_tlb s) \<and> (\<forall>v \<in> V. asid (vmms s v) < last_asid s))"

lemma asids_in_upd: "asids_in A tlb \<Longrightarrow> hi_asid (te_hi e) \<in> A \<Longrightarrow> asids_in A (tlb(r := e))"
  by (simp add: asids_in_def)

lemma exception_ok:
  assumes "tlb_ok V (vmms s) (k_tlb s)" and "hw_ok V s"
  shows "tlb_ok V (vmms (tlb_exception virt s)) (k_tlb (tlb_exception virt s))" "hw_ok V (tlb_exception virt s)"
    "vmms (tlb_exception virt s) = vmms s" "cur_vmm (tlb_exception virt s) = cur_vmm s"
    "r_entryhi (k_cpu (tlb_exception virt s)) = entryhi_of virt (cur_asid s)" "k_tlb (tlb_exception virt s) = k_tlb s"
    "last_asid (tlb_exception virt s) = last_asid s" "r_random (k_cpu (tlb_exception virt s)) = r_random (k_cpu s)"
  using assms by (simp_all add: tlb_exception_def hw_ok_def entryhi_fields)

text \<open>What the handlers write into the TLB belongs to the map of the running thread.\<close>

lemma refill_found:
  assumes "wrapped_tlb_refill buf ph registers s = Some (True, s')"
  obtains f where "mapped_frame (vmms s (cur_vmm s)) (drop_bit 12 (c_badva registers)) = Some f"
    "s' = tlb_store_random (drop_bit 12 (c_badva registers)) f s"
proof -
  obtain f where f: "mapped_frame (vmms s (cur_vmm s)) (drop_bit 12 (c_badva registers)) = Some f"
    using assms by (auto simp: wrapped_tlb_refill_def vmm_mapping_find_eq thread_get_current_eq Let_def elim!: bind_eq_SomeE split: option.splits)
  then have "s' = tlb_store_random (drop_bit 12 (c_badva registers)) f s"
    using assms frame_of_found [OF f, of "c_badva registers"]
    by (simp add: wrapped_tlb_refill_def vmm_mapping_find_eq PAGE_WIDTH_def FRAME_WIDTH_def)
  with f show thesis by (rule that)
qed

lemma invalid_found:
  assumes "tlb_invalid buf ph registers s = Some (True, s')"
  obtains f where "mapped_frame (vmms s (cur_vmm s)) (drop_bit 12 (c_badva registers)) = Some f"
    "s' = (let s2 = tlb_probe (on_cpu (write_cp0_entryhi (c_entryhi registers)) s) in
       if field_get (CP0_INDEX INDEX_P) (r_index (k_cpu s2)) \<noteq> 0 then tlb_store_random (drop_bit 12 (c_badva registers)) f s2
       else tlb_store_indexed (drop_bit 12 (c_badva registers)) f s2)"
proof -
  obtain f where f: "mapped_frame (vmms s (cur_vmm s)) (drop_bit 12 (c_badva registers)) = Some f"
    using assms by (auto simp: tlb_invalid_def vmm_mapping_find_eq thread_get_current_eq Let_def elim!: bind_eq_SomeE split: option.splits)
  then have "s' = (let s2 = tlb_probe (on_cpu (write_cp0_entryhi (c_entryhi registers)) s) in
       if field_get (CP0_INDEX INDEX_P) (r_index (k_cpu s2)) \<noteq> 0 then tlb_store_random (drop_bit 12 (c_badva registers)) f s2
       else tlb_store_indexed (drop_bit 12 (c_badva registers)) f s2)"
    using assms frame_of_found [OF f, of "c_badva registers"]
    by (auto simp: tlb_invalid_def vmm_mapping_find_eq PAGE_WIDTH_def FRAME_WIDTH_def cp0_read_defs Let_def split: if_splits)
  with f show thesis by (rule that)
qed

lemma refill_killed:
  assumes "wrapped_tlb_refill buf ph registers s = Some (False, s') \<or> tlb_invalid buf ph registers s = Some (False, s')"
  shows "\<exists>out. thread_finish NULL (s\<lparr>console := out\<rparr>) = Some s'"
  using assms
  by (auto simp: wrapped_tlb_refill_def tlb_invalid_def vmm_mapping_find_eq thread_get_current_eq kprintk_def Let_def elim!: bind_eq_SomeE split: option.splits)

lemma store_random_asids:
  assumes "asids_in A (k_tlb s)" and "hi_asid (r_entryhi (k_cpu s)) \<in> A" and "r_random (k_cpu s) < 48"
  shows "asids_in A (k_tlb (tlb_store_random (drop_bit 12 virt) f s))" "last_asid (tlb_store_random vpn f s) = last_asid s"
proof -
  show "asids_in A (k_tlb (tlb_store_random (drop_bit 12 virt) f s))"
    using assms unfolding store_random_effect(1) [OF assms(3)] by (intro asids_in_upd) (simp_all add: new_entry_def)
  show "last_asid (tlb_store_random vpn f s) = last_asid s" by (simp add: tlb_store_random_def tlb_write_random_def Let_def)
qed

lemma invalid_asids:
  assumes "tlb_invalid buf ph registers s = Some (True, s')" and "asids_in A (k_tlb s)" and "hi_asid (c_entryhi registers) \<in> A" and r: "r_random (k_cpu s) < 48"
  shows "asids_in A (k_tlb s')" "last_asid s' = last_asid s"
proof -
  let ?h = "c_entryhi registers"
  define s2 where "s2 = tlb_probe (on_cpu (write_cp0_entryhi ?h) s)"
  note P = probe_effect [where h = ?h and s = s, folded s2_def]
  have l: "last_asid s2 = last_asid s" by (simp add: s2_def tlb_probe_def)
  obtain f where s': "s' = (if field_get (CP0_INDEX INDEX_P) (r_index (k_cpu s2)) \<noteq> 0 then tlb_store_random (drop_bit 12 (c_badva registers)) f s2
       else tlb_store_indexed (drop_bit 12 (c_badva registers)) f s2)"
    using invalid_found [OF assms(1)] unfolding Let_def s2_def by metis
  have "asids_in A (k_tlb s') \<and> last_asid s' = last_asid s"
  proof (cases "tlb_find (k_tlb s) ?h")
    case None
    then have "s' = tlb_store_random (drop_bit 12 (c_badva registers)) f s2" using P(6) by (simp add: s')
    then show ?thesis using store_random_asids [of A s2] P assms(2-4) l by simp
  next
    case (Some i)
    then have e: "s' = tlb_store_indexed (drop_bit 12 (c_badva registers)) f s2" "tlb_index s2 = i" using P(6,7) by (simp_all add: s')
    have "i < 48" using tlb_find_SomeD(1) [OF Some] .
    then have "hi_asid (te_hi (k_tlb s i)) \<in> A" using assms(2) by (simp add: asids_in_def)
    then have "asids_in A (k_tlb s')" unfolding e(1) store_indexed_effect(1) e(2) using assms(2) P(1) by (intro asids_in_upd) (simp_all add: new_entry_def)
    moreover have "last_asid s' = last_asid s2" by (simp add: e tlb_store_indexed_def tlb_read_def tlb_write_indexed_def Let_def)
    ultimately show ?thesis using l by simp
  qed
  then show "asids_in A (k_tlb s')" "last_asid s' = last_asid s" by simp_all
qed

lemma flush_asids:
  assumes "asids_in A (k_tlb s)" and "hi_asid (r_entryhi (k_cpu s)) \<in> A"
  shows "asids_in A (k_tlb (tlb_flush_pages n vpn s)) \<and> last_asid (tlb_flush_pages n vpn s) = last_asid s \<and> r_entryhi (k_cpu (tlb_flush_pages n vpn s)) = r_entryhi (k_cpu s)"
proof (induction n)
  case (Suc n)
  let ?t = "tlb_flush_pages n vpn s" and ?a = "push_bit FRAME_WIDTH (vpn + of_nat n)"
  have "asids_in A (k_tlb (tlb_flush ?a ?t))"
    using Suc assms(2) unfolding flush_effect(1) by (auto split: option.split intro!: asids_in_upd simp: flush_hi_fields)
  moreover have "last_asid (tlb_flush a u) = last_asid u" for a and u :: "('a, 'b) kernel_scheme"
    by (rule irq_offE [of u]) (simp add: tlb_flush_def tlb_probe_def tlb_write_indexed_def irq_restore_def Let_def)
  ultimately show ?case using Suc flush_effect(3) [of ?a ?t] by simp
qed (use assms in simp)

lemma unmap_asids:
  assumes "vma_unmap F from s = (rc, s')" and "asids_in A (k_tlb s)" and "hi_asid (r_entryhi (k_cpu s)) \<in> A"
  shows "asids_in A (k_tlb s')" "last_asid s' = last_asid s"
proof -
  obtain st c where i: "irq_off s = (st, s\<lparr>k_cpu := c\<rparr>)" "conditionally_enable_interrupts st c = k_cpu s"
    "r_entryhi c = r_entryhi (k_cpu s)" "r_random c = r_random (k_cpu s)" by (rule irq_off_regs)
  have F: "asids_in A (k_tlb (tlb_flush_pages n v (s\<lparr>k_cpu := c, k_fs := fs\<rparr>))) \<and> last_asid (tlb_flush_pages n v (s\<lparr>k_cpu := c, k_fs := fs\<rparr>)) = last_asid s" for n v fs
    using flush_asids [of A "s\<lparr>k_cpu := c, k_fs := fs\<rparr>" n v] assms(2,3) i(3) by simp
  then have "asids_in A (k_tlb s') \<and> last_asid s' = last_asid s"
    using assms(1,2) unfolding vma_unmap_eq [OF i(1,2)]
    by (auto simp: irq_restore_def upd_vmm_def Let_def split: option.splits if_splits)
  then show "asids_in A (k_tlb s')" "last_asid s' = last_asid s" by simp_all
qed

lemma create_effect:
  assumes inv: "kheap_inv F owned s hs" and V: "\<forall>v \<in> V. \<exists>k > 0. (unat v, k) \<in> allocated hs" and c: "vmm_create F pvmm s = Some (rc, v, s')"
  shows "k_tlb s' = k_tlb s" "k_cpu s' = k_cpu s" "thr s' = thr s" "cur s' = cur s" "rc \<noteq> EOK \<Longrightarrow> vmms s' = vmms s \<and> last_asid s' = last_asid s"
    "rc = EOK \<Longrightarrow> v \<notin> V \<and> vmms s' = (vmms s)(v := zero_vmm\<lparr>asid := last_asid s\<rparr>) \<and> last_asid s' = last_asid s + 1"
proof -
  have n: "sizeof_vmm \<le> HEAP_BLOCK_SIZE_MAX" by (simp add: sizeof_vmm_def HEAP_BLOCK_SIZE_MAX_def)
  have "k_tlb s' = k_tlb s \<and> k_cpu s' = k_cpu s \<and> thr s' = thr s \<and> cur s' = cur s \<and> (rc \<noteq> EOK \<longrightarrow> vmms s' = vmms s \<and> last_asid s' = last_asid s) \<and>
    (rc = EOK \<longrightarrow> v \<notin> V \<and> vmms s' = (vmms s)(v := zero_vmm\<lparr>asid := last_asid s\<rparr>) \<and> last_asid s' = last_asid s + 1)"
  proof (cases rule: malloc_cases [OF inv n, case_names fail ok])
    case (fail rc' phys fs')
    then show ?thesis using c by (auto simp: vmm_create_def EOK_def ENOMEM_def)
  next
    case (ok p m hs' s1)
    have s1: "s1 = s\<lparr>k_mem := k_mem s1, k_fs := k_fs s1\<rparr>" using ok(2) by (simp only: malloc_post_def)
    have p: "W p \<noteq> NULL" "unat (W p) = p" using ok(2) by (auto simp: malloc_post_def W_eq_0_iff unat_W)
    let ?u = "upd_vmm (W p) (\<lambda>_. zero_vmm) s1"
    obtain st c' where i: "irq_off ?u = (st, ?u\<lparr>k_cpu := c'\<rparr>)" "conditionally_enable_interrupts st c' = k_cpu ?u" by (rule irq_offE)
    have e: "rc = EOK" "v = W p" "s' = s1\<lparr>vmms := (vmms s1)(W p := zero_vmm\<lparr>asid := last_asid s1\<rparr>), last_asid := last_asid s1 + 1\<rparr>"
      using c ok(1) p(1) i by (auto simp: vmm_create_def upd_vmm_def irq_restore_def)
    have new: "v \<notin> V"
    proof
      assume "v \<in> V"
      then obtain k where k: "k > 0" "(p, k) \<in> allocated hs" using V p(2) e(2) by auto
      have "unat sizeof_vmm \<le> m" using ok(2) by (simp add: malloc_post_def)
      then have "p \<in> area (p, k)" "p \<in> area (p, m)" using k(1) by (auto simp: area_def sizeof_vmm_def)
      moreover have "\<forall>q' \<in> allocated hs. area q' \<inter> area (p, m) = {}" using ok(2) by (simp add: malloc_post_def alloc_post_def)
      ultimately show False using k(2) by blast
    qed
    have "k_tlb s1 = k_tlb s" "k_cpu s1 = k_cpu s" "thr s1 = thr s" "cur s1 = cur s" "vmms s1 = vmms s" "last_asid s1 = last_asid s" by (subst s1, simp)+
    then show ?thesis using e new by simp
  qed
  then show "k_tlb s' = k_tlb s" "k_cpu s' = k_cpu s" "thr s' = thr s" "cur s' = cur s" "rc \<noteq> EOK \<Longrightarrow> vmms s' = vmms s \<and> last_asid s' = last_asid s"
    "rc = EOK \<Longrightarrow> v \<notin> V \<and> vmms s' = (vmms s)(v := zero_vmm\<lparr>asid := last_asid s\<rparr>) \<and> last_asid s' = last_asid s + 1" by blast+
qed

lemma asids_cong: "(\<And>v. v \<in> V \<Longrightarrow> asid (vmms s' v) = asid (vmms s v)) \<Longrightarrow> asids V s' = asids V s"
  by (simp add: asids_def)

lemma handled_ok:
  assumes I: "vm_inv (V, s)" and r: "tlb_translate (k_tlb s) (cur_asid s) virt = TLB_Refill \<and> wrapped_tlb_refill buf ph registers (tlb_exception virt s) = Some (ret, s') \<or>
      c_entryhi registers = r_entryhi (k_cpu (tlb_exception virt s)) \<and> tlb_invalid buf ph registers (tlb_exception virt s) = Some (ret, s')"
    and b: "c_badva registers = virt" and c: "cur_vmm s' \<in> V"
  shows "vm_inv (V, s')"
proof -
  let ?t = "tlb_exception virt s"
  have ok: "tlb_ok V (vmms s) (k_tlb s)" and hw: "hw_ok V s" and A: "asids_in (asids V s) (k_tlb s)" and L: "\<forall>v \<in> V. asid (vmms s v) < last_asid s"
    using I by (simp_all add: vm_inv_def)
  note X = exception_ok [OF ok hw, of virt]
  have cv: "cur_vmm s \<in> V" "r_random (k_cpu s) < 48" using hw by (simp_all add: hw_ok_def)
  have h: "hi_asid (r_entryhi (k_cpu ?t)) \<in> asids V s" using X(5) cv(1) by (simp add: entryhi_fields asids_def)
  show ?thesis
  proof (cases ret)
    case False
    then obtain out where f: "thread_finish NULL (?t\<lparr>console := out\<rparr>) = Some s'" using refill_killed [of buf ph registers ?t s'] r by auto
    note F = finish_tlb [OF f, simplified X(3,6-8) kernel.simps]
    have "tlb_ok V (vmms s') (k_tlb s')" "hw_ok V s'" using ok F c cv(2) by (simp_all add: hw_ok_def X)
    then show ?thesis using A L F asids_cong [of V s' s] by (simp add: vm_inv_def X)
  next
    case True
    from r show ?thesis
    proof
      assume R: "tlb_translate (k_tlb s) (cur_asid s) virt = TLB_Refill \<and> wrapped_tlb_refill buf ph registers ?t = Some (ret, s')"
      then have run: "wrapped_tlb_refill buf ph registers ?t = Some (True, s')" using True by simp
      obtain f where f: "mapped_frame (vmms s (cur_vmm s)) (drop_bit 12 virt) = Some f" "s' = tlb_store_random (drop_bit 12 virt) f ?t"
        by (rule refill_found [OF run]) (use X b in simp)
      have S: "tlb_ok V (vmms s') (k_tlb s')" "hw_ok V s'" "vmms s' = vmms s" using refill_ok [OF ok hw _ b f(1), of buf ph] R run by auto
      have "asids_in (asids V s) (k_tlb s')" "last_asid s' = last_asid s"
        using store_random_asids(1) [of "asids V s" ?t virt f] store_random_asids(2) [of "asids V s" ?t "drop_bit 12 virt" f] A X(6-8) h cv(2) unfolding f(2) by simp_all
      then show ?thesis using S L asids_cong [of V s' s] by (simp add: vm_inv_def)
    next
      assume R: "c_entryhi registers = r_entryhi (k_cpu ?t) \<and> tlb_invalid buf ph registers ?t = Some (ret, s')"
      then have run: "tlb_invalid buf ph registers ?t = Some (True, s')" using True by simp
      obtain f where f: "mapped_frame (vmms ?t (cur_vmm ?t)) (drop_bit 12 virt) = Some f" using invalid_found [OF run] b by metis
      have S: "tlb_ok V (vmms s') (k_tlb s')" "hw_ok V s'" "vmms s' = vmms s"
        using invalid_ok [OF X(1,2) b _ f, of buf ph] R run X(3-5) by auto
      have "asids_in (asids V s) (k_tlb s')" "last_asid s' = last_asid s"
        using invalid_asids [OF run, of "asids V s"] A X(6-8) h cv(2) R by simp_all
      then show ?thesis using S L asids_cong [of V s' s] by (simp add: vm_inv_def)
    qed
  qed
qed

lemma create_ok:
  assumes I: "vm_inv (V, s)" and inv: "kheap_inv F owned s hs" and V: "\<forall>v \<in> V. \<exists>k > 0. (unat v, k) \<in> allocated hs" and l: "last_asid s < 0xff"
    and c: "vmm_create F pvmm s = Some (rc, v, s')"
  shows "vm_inv (if rc = EOK then insert v V else V, s')"
proof -
  have ok: "tlb_ok V (vmms s) (k_tlb s)" and hw: "hw_ok V s" and A: "asids_in (asids V s) (k_tlb s)" and L: "\<And>u. u \<in> V \<Longrightarrow> asid (vmms s u) < last_asid s"
    using I by (simp_all add: vm_inv_def)
  note C = create_effect [OF inv V c]
  show ?thesis
  proof (cases "rc = EOK")
    case False
    then show ?thesis using I C by (simp add: vm_inv_def hw_ok_def asids_def)
  next
    case True
    note N = C(6) [OF True]
    let ?vm = "(vmms s)(v := zero_vmm\<lparr>asid := last_asid s\<rparr>)" and ?V = "insert v V"
    have as: "asid (?vm u) = (if u = v then last_asid s else asid (vmms s u))" for u by simp
    have un: "last_asid s \<notin> asids V s" using l by (auto simp: asids_def dest: L)
    have old: "asid (?vm u) = asid (vmms s u)" "?vm u = vmms s u" if "u \<in> V" for u using that N by auto
    have im: "(\<lambda>u. asid (?vm u)) ` ?V = insert (last_asid s) ((\<lambda>u. asid (vmms s u)) ` V)" using N by auto
    have nh: "hi_asid (te_hi (k_tlb s i)) \<noteq> last_asid s" if "i < 48" for i using A un that by (auto simp: asids_in_def)
    have "tlb_ok ?V ?vm (k_tlb s)"
      unfolding tlb_ok_def im
    proof (intro conjI allI impI)
      show "entry_ok ?V ?vm (k_tlb s i)" if "i < 48" for i
        using ok that nh [OF that] old unfolding tlb_ok_def entry_ok_def by auto
      show "hi_asid (te_hi (k_tlb s i)) \<notin> insert (last_asid s) ((\<lambda>u. asid (vmms s u)) ` V)" if "i < 48" "j < 48" "i \<noteq> j" "same_pair (k_tlb s i) (k_tlb s j)" for i j
        using ok that nh [OF that(1)] unfolding tlb_ok_def by blast
      show "inj_on (\<lambda>u. asid (?vm u)) ?V"
      proof (rule inj_onI)
        fix u w assume "u \<in> ?V" "w \<in> ?V" "asid (?vm u) = asid (?vm w)"
        then show "u = w" using ok L [of u] L [of w] unfolding as tlb_ok_def by (auto simp: inj_on_def split: if_splits)
      qed
    qed
    moreover have "cur_vmm s' = cur_vmm s" "cur_vmm s \<noteq> v" using C(3,4) N hw by (auto simp: hw_ok_def)
    then have "hw_ok ?V s'" using hw C N by (simp add: hw_ok_def)
    moreover have "asids ?V s' = insert (last_asid s) (asids V s)" using N im by (simp add: asids_def insert_commute)
    then have "asids_in (asids ?V s') (k_tlb s')" using A C(1) by (simp add: asids_in_def)
    moreover have up: "last_asid s < last_asid s + 1" using l by (simp add: word_less_nat_alt unat_word_ariths)
    have "\<forall>u \<in> ?V. asid (vmms s' u) < last_asid s'"
    proof
      fix u assume u: "u \<in> ?V"
      show "asid (vmms s' u) < last_asid s'"
      proof (cases "u = v")
        case False
        then show ?thesis using L [of u] up N u by simp
      qed (use N up in simp)
    qed
    ultimately show ?thesis using True N C(1) unfolding vm_inv_def by simp
  qed
qed

lemma vm_step_ok: "vm_inv x \<Longrightarrow> vm_step F owned x y \<Longrightarrow> vm_inv y"
proof (erule vm_step.cases)
  fix s registers buf ph ret s' V
  assume "vm_inv x" "x = (V, s)" "y = (V, s')" "tlb_translate (k_tlb s) (cur_asid s) (c_badva registers) = TLB_Refill"
    "wrapped_tlb_refill buf ph registers (tlb_exception (c_badva registers) s) = Some (ret, s')" "cur_vmm s' \<in> V"
  then show "vm_inv y" using handled_ok [of V s "c_badva registers" buf ph registers ret s'] by simp
next
  fix s registers buf ph ret s' V
  assume "vm_inv x" "x = (V, s)" "y = (V, s')" "c_entryhi registers = r_entryhi (k_cpu (tlb_exception (c_badva registers) s))"
    "tlb_invalid buf ph registers (tlb_exception (c_badva registers) s) = Some (ret, s')" "cur_vmm s' \<in> V"
  then show "vm_inv y" using handled_ok [of V s "c_badva registers" buf ph registers ret s'] by simp
next
  fix fr sz flags s rc fr' s' V
  assume I: "vm_inv x" "x = (V, s)" "y = (V, s')" and m: "vma_map F fr sz flags s = Some (rc, fr', s')" and n: "no_overlap fr' sz (vmms s (cur_vmm s))"
  note M = map_effect [OF m]
  have "tlb_ok V (vmms s') (k_tlb s')" using I map_ok [OF _ _ m n] by (simp add: vm_inv_def hw_ok_def)
  then show "vm_inv y" using I M(1-5) asids_cong [of V s' s] by (simp add: vm_inv_def hw_ok_def)
next
  fix fr s rc s' V
  assume I: "vm_inv x" "x = (V, s)" "y = (V, s')" and u: "vma_unmap F fr s = (rc, s')"
  have h: "cur_vmm s \<in> V" "hi_asid (r_entryhi (k_cpu s)) = cur_asid s" using I by (simp_all add: vm_inv_def hw_ok_def)
  have ok: "tlb_ok V (vmms s) (k_tlb s)" using I by (simp add: vm_inv_def)
  note U = unmap_ok [OF ok refl h u]
  have as: "asid (vmms s' v) = asid (vmms s v)" for v using U by (cases "rc = EOK") (auto simp: Let_def)
  have "hi_asid (r_entryhi (k_cpu s)) \<in> asids V s" using h by (simp add: asids_def)
  then show "vm_inv y" using I U unmap_asids [OF u, of "asids V s"] as asids_cong [of V s' s] by (simp add: vm_inv_def hw_ok_def)
next
  fix s hs V pvmm rc v s'
  assume "vm_inv x" "x = (V, s)" "y = (if rc = EOK then insert v V else V, s')" "kheap_inv F owned s hs" "\<forall>v \<in> V. \<exists>k > 0. (unat v, k) \<in> allocated hs"
    "last_asid s < 0xff" "vmm_create F pvmm s = Some (rc, v, s')"
  then show "vm_inv y" using create_ok [of V s F owned hs pvmm rc v s'] by simp
next
  fix s n V
  assume I: "vm_inv x" "x = (V, s)" "y = (V, thread_switch n s)" "t_vmm (thr s n) \<in> V"
  have "last_asid (thread_switch n s) = last_asid s"
    by (rule irq_offE [of s]) (simp add: thread_switch_def Let_def upd_thread_def cpu_switch_context_def)
  then show "vm_inv y" using I by (simp add: vm_inv_def hw_ok_def switch_tlb asids_def)
next
  fix r :: u32 and s V
  assume "vm_inv x" "x = (V, s)" "y = (V, s\<lparr>k_cpu := (k_cpu s)\<lparr>r_random := r\<rparr>\<rparr>)" "r < 48"
  then show "vm_inv y" by (simp add: vm_inv_def hw_ok_def asids_def)
qed

interpretation vs: step_invariant "vm_step F owned" vm_inv for F owned
  by unfold_locales (rule vm_step_ok)

section \<open>The console\<close>

lemma switch_console [simp]: "console (thread_switch n s) = console s"
  by (rule irq_offE [of s]) (simp add: thread_switch_def Let_def upd_thread_def)

lemma schedule_console: "schedule s = Some (b, s') \<Longrightarrow> console s' = console s"
  by (rule irq_offE [of s]) (auto simp: schedule_def upd_thread_def irq_restore_def Let_def elim!: bind_eq_SomeE split: if_splits)

lemma wakeup_console: "thread_wakeup t s = Some (rc, s') \<Longrightarrow> console s' = console s"
  by (auto simp: thread_wakeup_eq upd_thread_def split: if_splits)

lemma finish_console:
  assumes "thread_finish v s = Some s'"
  shows "console s' = console s"
proof -
  obtain st c where i: "irq_off s = (st, s\<lparr>k_cpu := c\<rparr>)" by (rule irq_offE)
  show ?thesis using assms
    by (auto simp: thread_finish_def i sched_remove_eq upd_thread_def Let_def elim!: bind_eq_SomeE
      dest!: schedule_console wakeup_console split: if_splits)
qed

section \<open>A process with one area\<close>

definition small_vm :: "nat set kernel" where
  "small_vm = small_kernel\<lparr>vmms := (\<lambda>_. \<lparr>asid = 5, vmas =
     \<lparr>vpn_base = 0x1FB00, pfn_base = 0x2000, vma_count = 32, vma_valid = True\<rparr> #
     replicate 99 \<lparr>vpn_base = 0, pfn_base = 0, vma_count = 0, vma_valid = False\<rparr>\<rparr>)\<rparr>"

definition small_start :: "nat set kernel" where "small_start = thread_switch 0x80020000 (tlb_init small_vm)"

lemma small_vm_facts:
  "inj_on (\<lambda>v. asid (vmms small_vm v)) {0}" "\<forall>v \<in> {0}. asid (vmms small_vm v) \<noteq> 0xff" "t_vmm (thr small_vm 0x80020000) \<in> {0}"
  by (simp_all add: small_vm_def small_kernel_def blank_thread_def)

lemma start_ok:
  assumes "inj_on (\<lambda>v. asid (vmms s v)) V" and "\<forall>v \<in> V. asid (vmms s v) \<noteq> 0xff" and "t_vmm (thr s n) \<in> V"
  shows "tlb_ok V (vmms (thread_switch n (tlb_init s))) (k_tlb (thread_switch n (tlb_init s))) \<and> hw_ok V (thread_switch n (tlb_init s))"
  using tlb_init_ok [OF assms(1,2)] assms(3) by (simp add: hw_ok_def switch_tlb tlb_init_effect)

lemma small_start_facts:
  "vmms small_start = vmms small_vm" "cur_vmm small_start = 0" "tlb_ok {0} (vmms small_start) (k_tlb small_start)" "hw_ok {0} small_start"
  using start_ok [OF small_vm_facts]
  by (simp_all add: small_start_def switch_tlb tlb_init_effect small_vm_def small_kernel_def blank_thread_def)

lemma small_frame: "mapped_frame (vmms small_vm 0) (drop_bit 12 0x1FB01234) = Some 0x2001"
  by (simp add: mapped_frame_def small_vm_def vma_maps_def take_bit_eq_mod)

lemma small_miss: "tlb_translate (k_tlb small_start) (cur_asid small_start) 0x1FB01234 = TLB_Refill"
proof -
  have "k_tlb small_start i = blank_entry 0xff" if "i < 48" for i
    using that by (simp add: small_start_def switch_tlb tlb_init_effect)
  then have "tlb_find (k_tlb small_start) (entryhi_of 0x1FB01234 (cur_asid small_start)) = None"
    unfolding tlb_find_None te_matches_iff entryhi_fields
    by (simp add: global_iff)
  then show ?thesis by (simp add: tlb_translate_def)
qed

section \<open>Properties\<close>

lemma clear_asid: "last_asid (tlb_clear n s) = last_asid s"
  by (induction n) (simp_all add: tlb_write_indexed_def)

lemma start_inv:
  assumes i: "inj_on (\<lambda>v. asid (vmms s v)) V" and l: "\<forall>v \<in> V. asid (vmms s v) < last_asid s" and n: "t_vmm (thr s n) \<in> V"
  shows "vm_inv (V, thread_switch n (tlb_init s))"
proof -
  have ff: "\<forall>v \<in> V. asid (vmms s v) \<noteq> 0xff"
  proof
    fix v assume "v \<in> V"
    then have "asid (vmms s v) < last_asid s" using l by blast
    moreover have "last_asid s \<le> 0xff" using unsigned_less [where ?'a = nat, of "last_asid s"] by (simp add: word_le_nat_alt)
    ultimately show "asid (vmms s v) \<noteq> 0xff" by auto
  qed
  have la: "last_asid (tlb_init s) = last_asid s" by (simp add: tlb_init_def Let_def clear_asid)
  have sw: "last_asid (thread_switch n u) = last_asid u" for u :: "('a, 'b) kernel_scheme"
    by (rule irq_offE [of u]) (simp add: thread_switch_def Let_def upd_thread_def cpu_switch_context_def)
  have "asids_in (asids V (thread_switch n (tlb_init s))) (k_tlb (thread_switch n (tlb_init s)))"
    by (simp add: asids_in_def asids_def switch_tlb tlb_init_effect)
  moreover have "vmms (thread_switch n (tlb_init s)) = vmms s" by (simp add: tlb_init_effect)
  ultimately show ?thesis using start_ok [OF i ff n] l by (simp add: vm_inv_def la sw)
qed

text \<open>C7: From the moment \<^verbatim>\<open>tlb_init\<close> is done and a first thread runs, whatever happens to the TLB and the maps (\<open>vm_step\<close>: TLB Refill and TLB Invalid exceptions, those that
  finish the thread and switch to another one included; \<^verbatim>\<open>vma_map\<close>, \<^verbatim>\<open>vma_unmap\<close> and \<^verbatim>\<open>vmm_create\<close>; thread switches; the Random register), the hardware never translates an address
  of the running thread other than \<^verbatim>\<open>vmm_mapping_find\<close> does: no stale entry, and no entry of another address space, is ever used. This holds under three conditions that the code does
  not check: \<^verbatim>\<open>vma_map\<close> is called for areas that overlap no other area of the map (without it the claim is false, lemma \<open>vma_map_overlap_stale\<close>), at most 255 maps are
  created, so that the 8-bit identifiers do not come round, and \<^verbatim>\<open>vmm_create\<close> finds a well-formed heap in which the maps in use are allocated. Threads run in maps in use.\<close>

theorem tlb_never_stale:
  assumes "inj_on (\<lambda>v. asid (vmms s0 v)) V0" and "\<forall>v \<in> V0. asid (vmms s0 v) < last_asid s0" and "t_vmm (thr s0 n) \<in> V0"
    and "(vm_step F owned)\<^sup>*\<^sup>* (V0, thread_switch n (tlb_init s0)) (V, s)"
    and "tlb_translate (k_tlb s) (cur_asid s) virt = TLB_Hit p"
  shows "vmm_mapping_find virt ph s = (EOK, p, s)"
proof -
  have "vm_inv (V, s)" by (rule vs.reachable_inv [OF assms(4) start_inv [OF assms(1-3)]])
  then have ok: "tlb_ok V (vmms s) (k_tlb s)" "hw_ok V s" by (simp_all add: vm_inv_def)
  then show ?thesis
    using tlb_sound [OF ok(1) _ assms(5)] by (auto simp: hw_ok_def vmm_mapping_find_eq or_eq_add)
qed

text \<open>An area that overlaps another one whose translation is in the TLB takes a slot before it: the map changes, the TLB does not, and the hardware goes on using the old frame.\<close>

lemma vma_map_overlap_stale:
  assumes m: "vma_map F from sz flags s = Some (EOK, from1, s')" and h: "tlb_translate (k_tlb s) (cur_asid s) virt = TLB_Hit p"
    and ph: "phys = fst (snd (frame_alloc F (k_fs s) (drop_bit 12 sz) (VF_VA_AUTO OR VF_AT_KSEG0)))"
    and j: "vma_scan (\<lambda>w. \<not> vma_valid w) 0 (vmas (vmms s (cur_vmm s))) = Some j"
    and o: "vma_maps (drop_bit 12 virt) (new_area from1 sz phys)" "\<not> shadowed (drop_bit 12 virt) j (vmas (vmms s (cur_vmm s)))"
    and d: "push_bit 12 (take_bit 20 (drop_bit 12 phys + (drop_bit 12 virt - drop_bit 12 from1))) + (virt AND 0xfff) \<noteq> p"
  shows "tlb_translate (k_tlb s') (cur_asid s') virt = TLB_Hit p \<and> vmm_mapping_find virt ph0 s' \<noteq> (EOK, p, s')"
proof -
  note M = map_effect [OF m]
  have "mapped_frame (vmms s' (cur_vmm s)) (drop_bit 12 virt) = Some (take_bit 20 (drop_bit 12 phys + (drop_bit 12 virt - drop_bit 12 from1)))"
    using M(7) [OF refl] j o ph by (auto simp: map_extended_def)
  then show ?thesis using h d M(2-4) by (simp add: vmm_mapping_find_eq)
qed

text \<open>The TLB Refill handler on a mapped address returns to the thread, and from then on the hardware translates the
  address to what \<^verbatim>\<open>vmm_mapping_find\<close> gives; the TLB stays consistent.\<close>

theorem tlb_refill_installs:
  assumes "tlb_ok V (vmms s) (k_tlb s)" and "hw_ok V s"
    and "tlb_translate (k_tlb s) (cur_asid s) (c_badva registers) = TLB_Refill"
    and "vmm_mapping_find (c_badva registers) ph s = (EOK, phys, s)"
  shows "\<exists>s'. wrapped_tlb_refill buf ph registers (tlb_exception (c_badva registers) s) = Some (True, s') \<and>
     tlb_ok V (vmms s') (k_tlb s') \<and> hw_ok V s' \<and> tlb_translate (k_tlb s') (cur_asid s') (c_badva registers) = TLB_Hit phys"
proof -
  obtain f where "mapped_frame (vmms s (cur_vmm s)) (drop_bit 12 (c_badva registers)) = Some f"
    "phys = push_bit 12 f + (c_badva registers AND 0xfff)"
    using assms(4) by (auto simp: vmm_mapping_find_eq split: option.splits)
  with refill_ok [OF assms(1-3) refl, of f buf ph] show ?thesis by auto
qed

theorem tlb_refill_installs_witness:
  "\<exists>s'. wrapped_tlb_refill [] 0 (blank_ctx\<lparr>c_badva := 0x1FB01234\<rparr>) (tlb_exception 0x1FB01234 small_start) = Some (True, s') \<and>
     tlb_translate (k_tlb s') (cur_asid s') 0x1FB01234 = TLB_Hit 0x2001234"
proof -
  have "vmm_mapping_find 0x1FB01234 0 small_start = (EOK, 0x2001234, small_start)"
    using small_frame by (simp add: vmm_mapping_find_eq small_start_facts)
  then show ?thesis
    using tlb_refill_installs [of "{0}" small_start "blank_ctx\<lparr>c_badva := 0x1FB01234\<rparr>" 0 "0x2001234" "[]"]
      small_start_facts small_miss by auto
qed

theorem tlb_never_stale_witness:
  "\<exists>s. (vm_step one_region (\<lambda>fs. fs))\<^sup>*\<^sup>* ({0}, small_start) ({0}, s) \<and> tlb_translate (k_tlb s) (cur_asid s) 0x1FB01234 = TLB_Hit 0x2001234 \<and>
     vmm_mapping_find 0x1FB01234 0 s = (EOK, 0x2001234, s)"
proof -
  let ?r = "blank_ctx\<lparr>c_badva := 0x1FB01234\<rparr>"
  obtain s' where s': "wrapped_tlb_refill [] 0 ?r (tlb_exception (c_badva ?r) small_start) = Some (True, s')"
    "tlb_translate (k_tlb s') (cur_asid s') 0x1FB01234 = TLB_Hit 0x2001234" and v: "cur_vmm s' = 0"
    using refill_ok [of "{0}" small_start "c_badva ?r" ?r "0x2001" "[]" 0] small_start_facts small_miss small_frame
    by auto
  have "vm_step one_region (\<lambda>fs. fs) ({0}, small_start) ({0}, s')"
    using small_miss s'(1) v by (intro vm_step.refill [of _ ?r]) auto
  then have r: "(vm_step one_region (\<lambda>fs. fs))\<^sup>*\<^sup>* ({0}, small_start) ({0}, s')" by blast
  have "\<forall>v \<in> {0}. asid (vmms small_vm v) < last_asid small_vm" by (simp add: small_vm_def small_kernel_def)
  from tlb_never_stale [OF small_vm_facts(1) this small_vm_facts(3) r [unfolded small_start_def] s'(2)] r s'(2) show ?thesis by blast
qed


text \<open>The TLB Invalid handler on a mapped address makes the hardware translate it as \<^verbatim>\<open>vmm_mapping_find\<close> says, reusing the
  entry of the page pair when there is one, and keeps the TLB consistent.\<close>

theorem tlb_invalid_installs:
  assumes "tlb_ok V (vmms s) (k_tlb s)" and "hw_ok V s" and "c_entryhi registers = entryhi_of (c_badva registers) (cur_asid s)"
    and "vmm_mapping_find (c_badva registers) ph s = (EOK, phys, s)"
  shows "\<exists>s'. tlb_invalid buf ph registers s = Some (True, s') \<and>
     tlb_ok V (vmms s') (k_tlb s') \<and> hw_ok V s' \<and> tlb_translate (k_tlb s') (cur_asid s') (c_badva registers) = TLB_Hit phys"
proof -
  obtain f where "mapped_frame (vmms s (cur_vmm s)) (drop_bit 12 (c_badva registers)) = Some f"
    "phys = push_bit 12 f + (c_badva registers AND 0xfff)"
    using assms(4) by (auto simp: vmm_mapping_find_eq split: option.splits)
  with invalid_ok [OF assms(1,2) refl assms(3), of f buf ph] show ?thesis by auto
qed

theorem tlb_invalid_installs_witness:
  "\<exists>s'. tlb_invalid [] 0 (blank_ctx\<lparr>c_badva := 0x1FB01234, c_entryhi := 0x1FB00005\<rparr>) small_start = Some (True, s') \<and>
     tlb_translate (k_tlb s') (cur_asid s') 0x1FB01234 = TLB_Hit 0x2001234"
proof -
  have "vmm_mapping_find 0x1FB01234 0 small_start = (EOK, 0x2001234, small_start)"
    using small_frame by (simp add: vmm_mapping_find_eq small_start_facts)
  moreover have "cur_asid small_start = 5" by (simp add: small_start_facts small_vm_def)
  ultimately show ?thesis
    using tlb_invalid_installs [of "{0}" small_start "blank_ctx\<lparr>c_badva := 0x1FB01234, c_entryhi := 0x1FB00005\<rparr>" 0 "0x2001234" "[]"]
      small_start_facts by (auto simp: entryhi_of_def)
qed

text \<open>C32: \<^verbatim>\<open>vma_unmap\<close> that succeeds has removed one area that starts at the address, and the hardware has no translation for any page
  of it left; on an error no map and no TLB entry has changed. The TLB stays consistent with the maps.\<close>

theorem vma_unmap_flushes:
  assumes "tlb_ok V (vmms s) (k_tlb s)" and "hw_ok V s" and "vma_unmap F from s = (rc, s')"
  shows "tlb_ok V (vmms s') (k_tlb s') \<and> hw_ok V s' \<and> (rc \<noteq> EOK \<longrightarrow> vmms s' = vmms s \<and> k_tlb s' = k_tlb s) \<and>
     (rc = EOK \<longrightarrow> (\<exists>i < length (vmas (vmms s (cur_vmm s))). let area = vmas (vmms s (cur_vmm s)) ! i in
        vma_valid area \<and> vpn_base area = drop_bit 12 from \<and>
        vmas (vmms s' (cur_vmm s)) = (vmas (vmms s (cur_vmm s)))[i := area\<lparr>vma_valid := False\<rparr>] \<and>
        (\<forall>virt p. vma_maps (drop_bit 12 virt) area \<longrightarrow> tlb_translate (k_tlb s') (cur_asid s') virt \<noteq> TLB_Hit p)))"
proof -
  have "cur_vmm s \<in> V" "hi_asid (r_entryhi (k_cpu s)) = cur_asid s" using assms(2) by (simp_all add: hw_ok_def)
  note U = unmap_ok [OF assms(1) refl this assms(3)]
  show ?thesis
  proof (cases "rc = EOK")
    case True
    with U obtain i where "i < length (vmas (vmms s (cur_vmm s)))" "vma_valid (vmas (vmms s (cur_vmm s)) ! i)"
      "vpn_base (vmas (vmms s (cur_vmm s)) ! i) = drop_bit 12 from"
      "vmas (vmms s' (cur_vmm s)) = (vmas (vmms s (cur_vmm s)))[i := (vmas (vmms s (cur_vmm s)) ! i)\<lparr>vma_valid := False\<rparr>]"
      "\<And>virt p. vma_maps (drop_bit 12 virt) (vmas (vmms s (cur_vmm s)) ! i) \<Longrightarrow>
         tlb_translate (k_tlb s') (asid (vmms s' (cur_vmm s))) virt \<noteq> TLB_Hit p"
      by (auto simp: Let_def)
    moreover have "tlb_ok V (vmms s') (k_tlb s')" "hw_ok V s'" "cur_vmm s' = cur_vmm s" using U assms(2) by (simp_all add: hw_ok_def)
    ultimately show ?thesis using True by (auto simp: Let_def)
  qed (use U assms(2) in \<open>auto simp: hw_ok_def\<close>)
qed

lemma small_unmap: "fst (vma_unmap one_region 0x1FB00000 small_start) = EOK"
proof -
  obtain st c where i: "irq_off small_start = (st, small_start\<lparr>k_cpu := c\<rparr>)"
    "conditionally_enable_interrupts st c = k_cpu small_start" by (rule irq_offE)
  show ?thesis
    unfolding vma_unmap_eq [OF i] small_start_facts
    by (simp add: small_vm_def one_region_def ALIGN_DOWN_def PAGE_SIZE_def FRAME_SIZE_def FRAME_WIDTH_def)
qed

theorem vma_unmap_flushes_witness:
  "\<exists>s'. vma_unmap one_region 0x1FB00000 small_start = (EOK, s') \<and> tlb_ok {0} (vmms s') (k_tlb s') \<and>
     (\<forall>p. tlb_translate (k_tlb s') (cur_asid s') 0x1FB01234 \<noteq> TLB_Hit p)"
proof -
  obtain s' where s': "vma_unmap one_region 0x1FB00000 small_start = (EOK, s')" using small_unmap by (metis fst_conv surj_pair)
  note U = vma_unmap_flushes [OF small_start_facts(3,4) s', unfolded small_start_facts]
  then obtain i where i: "i < 100" "vma_valid (vmas (vmms small_vm 0) ! i)"
     "\<And>virt p. vma_maps (drop_bit 12 virt) (vmas (vmms small_vm 0) ! i) \<Longrightarrow> tlb_translate (k_tlb s') (cur_asid s') virt \<noteq> TLB_Hit p"
    by (auto simp: Let_def small_vm_def)
  have "i = 0" using i(1,2) by (cases i) (auto simp: small_vm_def)
  then have "tlb_translate (k_tlb s') (cur_asid s') 0x1FB01234 \<noteq> TLB_Hit p" for p
    by (intro i(3)) (simp add: small_vm_def vma_maps_def)
  then show ?thesis using s' U by blast
qed

text \<open>C33: \<^verbatim>\<open>vma_map\<close> changes no TLB entry and, when it fails, no map. When it succeeds, the new area has the first free slot of the map of the running thread, no other slot and no other
  map has changed, and the pages of the area are mapped to the consecutive frames the frame allocator gave, but for pages that an area in an earlier slot maps: \<^verbatim>\<open>vma_map\<close> does not look for
  overlaps. If the area overlaps no other one, then all its pages have the new frames, all other pages are mapped as before, and the TLB stays consistent with the maps.\<close>

theorem vma_map_extends:
  assumes "tlb_ok V (vmms s) (k_tlb s)" and "hw_ok V s" and "vma_map F from sz flags s = Some (rc, from1, s')"
  shows "hw_ok V s' \<and> k_tlb s' = k_tlb s \<and> (rc \<noteq> EOK \<longrightarrow> vmms s' = vmms s) \<and> (rc = EOK \<longrightarrow> map_extended F from1 sz s s') \<and>
     (no_overlap from1 sz (vmms s (cur_vmm s)) \<longrightarrow> tlb_ok V (vmms s') (k_tlb s') \<and>
        (rc = EOK \<longrightarrow> (\<exists>ph. fst (snd (frame_alloc F (k_fs s) (drop_bit 12 sz) (VF_VA_AUTO OR VF_AT_KSEG0))) = ph \<and>
          (\<forall>p. mapped_frame (vmms s' (cur_vmm s)) p =
             (if vma_maps p (new_area from1 sz ph) then Some (take_bit 20 (drop_bit 12 ph + (p - drop_bit 12 from1)))
              else mapped_frame (vmms s (cur_vmm s)) p)))))"
proof -
  note M = map_effect [OF assms(3)]
  have v: "cur_vmm s \<in> V" using assms(2) by (simp add: hw_ok_def)
  have "\<exists>ph. fst (snd (frame_alloc F (k_fs s) (drop_bit 12 sz) (VF_VA_AUTO OR VF_AT_KSEG0))) = ph \<and> (\<forall>p. mapped_frame (vmms s' (cur_vmm s)) p =
       (if vma_maps p (new_area from1 sz ph) then Some (take_bit 20 (drop_bit 12 ph + (p - drop_bit 12 from1))) else mapped_frame (vmms s (cur_vmm s)) p))"
    if r: "rc = EOK" and free: "no_overlap from1 sz (vmms s (cur_vmm s))"
  proof -
    obtain ph j where E: "fst (snd (frame_alloc F (k_fs s) (drop_bit 12 sz) (VF_VA_AUTO OR VF_AT_KSEG0))) = ph"
      "vma_scan (\<lambda>w. \<not> vma_valid w) 0 (vmas (vmms s (cur_vmm s))) = Some j"
      "\<And>p. mapped_frame (vmms s' (cur_vmm s)) p = (if vma_maps p (new_area from1 sz ph) \<and> \<not> shadowed p j (vmas (vmms s (cur_vmm s)))
         then Some (take_bit 20 (drop_bit 12 ph + (p - drop_bit 12 from1))) else mapped_frame (vmms s (cur_vmm s)) p)"
      using M(7) [OF r] by (auto simp: map_extended_def)
    have "j \<le> length (vmas (vmms s (cur_vmm s)))" using vma_scan_SomeD [OF E(2)] by simp
    then have "\<not> shadowed p j (vmas (vmms s (cur_vmm s)))" if "vma_maps p (new_area from1 sz ph)" for p
      using free that by (intro unmapped_not_shadowed) (auto simp: no_overlap_def)
    then show ?thesis using E by auto
  qed
  then show ?thesis using assms(2) M map_ok [OF assms(1) v assms(3)] by (auto simp: hw_ok_def)
qed

lemma tlb_init_fs: "k_fs (tlb_init s) = k_fs s"
proof -
  have "k_fs (tlb_clear n s) = k_fs s" for n and s :: "('a, 'b) kernel_scheme"
    by (induction n) (simp_all add: tlb_write_indexed_def)
  then show ?thesis by (simp add: tlb_init_def Let_def)
qed

lemma switch_fs: "k_fs (thread_switch n s) = k_fs s"
  by (rule irq_offE [of s]) (simp add: thread_switch_def Let_def upd_thread_def)

lemma small_fs: "k_fs small_start = k_fs small_kernel"
  by (simp add: small_start_def small_vm_def tlb_init_fs switch_fs)

lemma small_alloc: "frame_alloc one_region (k_fs small_kernel) 2 x = (EOK, 0x1000000, frame_range 0x1000000 2)"
  by (simp add: one_region_def small_kernel_def)

lemma small_map: "\<exists>s'. vma_map one_region 0x40000000 0x2000 VF_VA_USER small_start = Some (EOK, 0x40000000, s')"
proof -
  obtain st c where i: "irq_off small_start = (st, small_start\<lparr>k_cpu := c\<rparr>)"
    "conditionally_enable_interrupts st c = k_cpu small_start" by (rule irq_offE)
  have sc: "vma_scan (\<lambda>v. \<not> vma_valid v) 0 (vmas (vmms small_vm 0)) = Some 1"
    using replicate_Suc [of 98 "\<lparr>vpn_base = 0, pfn_base = 0, vma_count = 0, vma_valid = False\<rparr> :: vma"] by (simp add: small_vm_def)
  show ?thesis
    unfolding vma_map_eq [OF i refl refl refl] small_start_facts small_fs
    by (simp add: sc small_alloc ALIGN_DOWN_def PAGE_SIZE_def FRAME_SIZE_def FRAME_WIDTH_def VF_VA_AUTO_def VF_VA_USER_def
      VF_AT_KSEG0_def VF_AT_KSEG1_def)
qed

theorem vma_map_extends_witness:
  "\<exists>s'. vma_map one_region 0x40000000 0x2000 VF_VA_USER small_start = Some (EOK, 0x40000000, s') \<and>
     mapped_frame (vmms s' 0) 0x40001 = Some 0x1001 \<and> tlb_ok {0} (vmms s') (k_tlb s')"
proof -
  obtain s' where s': "vma_map one_region 0x40000000 0x2000 VF_VA_USER small_start = Some (EOK, 0x40000000, s')"
    using small_map by blast
  have "\<not> vma_maps p w" if "vma_maps p (new_area 0x40000000 0x2000 ph)" "w \<in> set (vmas (vmms small_vm 0))" for p ph w
    using that by (auto simp: small_vm_def vma_maps_def new_area_def) (auto simp: word_le_nat_alt word_less_nat_alt)
  then have "vma_scan (vma_maps p) 0 (vmas (vmms small_vm 0)) = None" if "vma_maps p (new_area 0x40000000 0x2000 ph)" for p ph
    using that unfolding vma_scan_None by blast
  then have free: "no_overlap 0x40000000 0x2000 (vmms small_start (cur_vmm small_start))"
    by (auto simp: no_overlap_def small_start_facts mapped_frame_def)
  note U = vma_map_extends [OF small_start_facts(3,4) s']
  show ?thesis using U free s' by (auto simp: small_start_facts vma_maps_def new_area_def small_fs small_alloc)
qed

text \<open>A thread that touches an address that is not mapped is finished: the refill handler prints a message with the thread,
  the program counter and the address on the console and switches to another thread.\<close>

theorem tlb_refill_kills:
  assumes "vmm_mapping_find (c_badva registers) ph s = (EINVAL, ph, s)" and "sched_rel s a" and "tcall_ok (Finish NULL) a"
    and "length buf = PRINT_BUF"
  shows "\<exists>s'. wrapped_tlb_refill buf ph registers s = Some (False, s') \<and> sched_rel s' (tcall_spec (Finish NULL) a) \<and>
     console s' = console s @ ''Thread '' @ hex_text (cur s) @ '' (pc='' @ hex_text (c_epc registers) @
       '') caused invalid memory access at address '' @ hex_text (c_badva registers) @ [CHR 0x0A]"
proof -
  let ?args = "[VInt (cur s), VInt (c_epc registers), VInt (c_badva registers)]"
  let ?t = "''Thread '' @ hex_text (cur s) @ '' (pc='' @ hex_text (c_epc registers) @
       '') caused invalid memory access at address '' @ hex_text (c_badva registers) @ [CHR 0x0A]"
  have "format_text invalid_access_message ?args = Some ?t"
    by (simp add: invalid_access_message_def conv_text_def)
  then have p: "printk buf invalid_access_message ?args (console s) = Some (length ?t, console s @ ?t)"
    using vprintk_loop_correct [of buf invalid_access_message ?args ?t 0 "console s"] assms(4)
    by (simp add: printk_def vprintk_def PRINT_BUF_def)
  let ?s = "s\<lparr>console := console s @ ?t\<rparr>"
  have "sched_rel ?s a" using assms(2) by (simp add: sched_rel_def sched_mid_def)
  from finish_refines [OF this assms(3)] obtain s' where s': "thread_finish NULL ?s = Some s'" "sched_rel s' (tcall_spec (Finish NULL) a)"
    by blast
  have con: "console s' = console ?s" using finish_console [OF s'(1)] .
  have "wrapped_tlb_refill buf ph registers s = Some (False, s')"
    using assms(1) p s'(1) by (simp add: wrapped_tlb_refill_def thread_get_current_eq kprintk_def del: append_assoc)
  with s'(2) con show ?thesis by simp
qed


text \<open>\<^verbatim>\<open>vma_check_user\<close>\<close>

lemma vma_check_user_eq:
  "vma_check_user addr sz s =
     (\<exists>v \<in> set (vmas (vmms s (cur_vmm s))). vma_maps (drop_bit 12 addr) v \<and> vma_maps (drop_bit 12 (addr + sz)) v, s)"
proof -
  obtain st c where i: "irq_off s = (st, s\<lparr>k_cpu := c\<rparr>)" "conditionally_enable_interrupts st c = k_cpu s" by (rule irq_offE)
  show ?thesis
    unfolding vma_check_user_def
    by (auto simp: i thread_get_current_eq irq_restore_def Let_def PAGE_WIDTH_def FRAME_WIDTH_def vma_maps_def vma_scan_None simp del: not_None_eq)
qed


lemma page_between:
  fixes a addr :: u32
  assumes "unat addr + unat sz < 2 ^ 32" and "addr \<le> a" and "unat a \<le> unat addr + unat sz"
  shows "drop_bit 12 addr \<le> drop_bit 12 a" and "drop_bit 12 a \<le> drop_bit 12 (addr + sz)"
proof -
  have "unat (addr + sz) = unat addr + unat sz" using assms(1) by (simp add: unat_word_ariths)
  then show "drop_bit 12 addr \<le> drop_bit 12 a" "drop_bit 12 a \<le> drop_bit 12 (addr + sz)"
    using assms by (simp_all add: word_le_nat_alt drop_bit_eq_div unat_div_distrib div_le_mono)
qed

text \<open>When \<^verbatim>\<open>vma_check_user\<close> accepts a memory area that does not wrap around the address space, every byte of the area is mapped for
  the running thread.\<close>

theorem vma_check_user_sound:
  assumes "vma_check_user addr sz s = (True, s')" and "unat addr + unat sz < 2 ^ 32"
    and "addr \<le> a" and "unat a < unat addr + unat sz"
  shows "\<exists>phys. vmm_mapping_find a ph s' = (EOK, phys, s')"
proof -
  obtain v where v: "v \<in> set (vmas (vmms s (cur_vmm s)))" "vma_maps (drop_bit 12 addr) v" "vma_maps (drop_bit 12 (addr + sz)) v" and "s' = s"
    using assms(1) unfolding vma_check_user_eq prod.inject by metis
  moreover have "vma_maps (drop_bit 12 a) v"
  proof -
    have p: "drop_bit 12 addr \<le> drop_bit 12 a" "drop_bit 12 a \<le> drop_bit 12 (addr + sz)"
      using page_between [OF assms(2,3) less_imp_le [OF assms(4)]] .
    show ?thesis
      using v(2,3) order_trans [OF _ p(1)] le_less_trans [OF p(2)] unfolding vma_maps_def by blast
  qed
  ultimately have "mapped_frame (vmms s (cur_vmm s)) (drop_bit 12 a) \<noteq> None"
    by (auto simp: mapped_frame_def vma_scan_None split: option.splits)
  then show ?thesis using \<open>s' = s\<close> by (auto simp: vmm_mapping_find_eq)
qed

theorem vma_check_user_sound_witness:
  "\<exists>phys. vma_check_user 0x1FB01000 0x800 small_start = (True, small_start) \<and> vmm_mapping_find 0x1FB01234 0 small_start = (EOK, phys, small_start)"
proof -
  have "vma_check_user 0x1FB01000 0x800 small_start = (True, small_start)"
    by (simp add: vma_check_user_eq small_start_facts small_vm_def vma_maps_def)
  with vma_check_user_sound [of "0x1FB01000" "0x800" small_start small_start "0x1FB01234" 0] show ?thesis by simp
qed

text \<open>Without the bound the check is not sound: \<^verbatim>\<open>addr + size\<close> wraps and an area of nearly the whole address space is accepted. It is not
  complete either: an area that ends where a mapping ends is refused.\<close>

lemma vma_check_user_wraps:
  "fst (vma_check_user 0x1FB00008 0xFFFFFFFC small_start)" "vmm_mapping_find 0x40000000 0 small_start = (EINVAL, 0, small_start)"
  "\<not> fst (vma_check_user 0x1FB00000 0x20000 small_start)"
proof -
  have "vma_scan (vma_maps 0x40000) 0 (vmas (vmms small_vm 0)) = None"
    unfolding vma_scan_None by (simp add: small_vm_def vma_maps_def)
  then show "vmm_mapping_find 0x40000000 0 small_start = (EINVAL, 0, small_start)"
    by (simp add: vmm_mapping_find_eq mapped_frame_def small_start_facts)
qed (simp_all add: vma_check_user_eq small_start_facts small_vm_def vma_maps_def)


theorem tlb_refill_kills_witness:
  "\<exists>s'. wrapped_tlb_refill (replicate PRINT_BUF (CHR ''x'')) 0 (blank_ctx\<lparr>c_epc := 0x400120, c_badva := 0xdead\<rparr>) small_kernel = Some (False, s') \<and>
     sched_rel s' (tcall_spec (Finish NULL) small_sched)"
proof -
  have "vmm_mapping_find 0xdead 0 small_kernel = (EINVAL, 0, small_kernel)"
    by (simp add: vmm_mapping_find_eq mapped_frame_def small_kernel_def)
  moreover have "tcall_ok (Finish NULL) small_sched" by (simp add: small_sched_def spec_leave_def)
  ultimately show ?thesis
    using tlb_refill_kills [of "blank_ctx\<lparr>c_epc := 0x400120, c_badva := 0xdead\<rparr>" 0 small_kernel small_sched
      "replicate PRINT_BUF (CHR ''x'')"] small_sched_rel by auto
qed

end
