(* ===== verification/Rbtree.thy ===== *)
theory Rbtree
  imports Prelude
begin

text \<open>
  The red-black tree of \<^verbatim>\<open>kernel/adt/rbtree.h\<close> and \<^verbatim>\<open>kernel/adt/rbtree.c\<close>: nodes with parent pointers that
  live inside other structures, mutated in place. The store maps the address of a \<^verbatim>\<open>struct rbnode\<close> to its members
  and the address of a \<^verbatim>\<open>struct rbtree\<close> to its root. Every access through a \<^verbatim>\<open>NULL\<close> pointer and every failed
  assertion is \<^term>\<open>None\<close>, so that a returned state also means that no such access happened. The functions follow
  the statements of the code; loops are partial functions, and the prefix \<^verbatim>\<open>__\<close> of an inner function is written \<open>do_\<close> where the
  public function of the name exists too.
\<close>

section \<open>Data\<close>

datatype rbcolor = RB_BLACK | RB_RED

record rbnode =
  rb_color :: rbcolor
  rb_left :: u32
  rb_right :: u32
  rb_parent :: u32

record rbstore =
  rb_node :: "u32 \<Rightarrow> rbnode"
  rb_root :: "u32 \<Rightarrow> u32"

text \<open>The places a \<^verbatim>\<open>struct rbnode **clinkp\<close> can point at.\<close>

datatype clink = Clink_NULL | Root_of u32 | Left_of u32 | Right_of u32

abbreviation RBTREE_NULL :: u32 where "RBTREE_NULL \<equiv> NULL"

text \<open>A node that is initialized statically, and the address of the structure that holds a node.\<close>

definition RBTREE_INIT :: rbnode where
  "RBTREE_INIT = \<lparr>rb_color = RB_RED, rb_left = RBTREE_NULL, rb_right = RBTREE_NULL, rb_parent = RBTREE_NULL\<rparr>"

definition rbtree_container_of :: "u32 \<Rightarrow> u32 \<Rightarrow> u32" where
  "rbtree_container_of ptr offset = ptr - offset"

definition rbtree_item :: "u32 \<Rightarrow> u32 \<Rightarrow> u32" where
  "rbtree_item ptr offset = rbtree_container_of ptr offset"

definition rbtree_is_node :: "u32 \<Rightarrow> bool" where
  "rbtree_is_node node \<longleftrightarrow> node \<noteq> RBTREE_NULL"

text \<open>Reading a node and writing a member of a node.\<close>

definition rd :: "u32 \<Rightarrow> rbstore \<Rightarrow> rbnode option" where
  "rd p h = (if p = NULL then None else Some (rb_node h p))"

definition upd :: "u32 \<Rightarrow> (rbnode \<Rightarrow> rbnode) \<Rightarrow> rbstore \<Rightarrow> rbstore" where
  "upd p f h = h\<lparr>rb_node := (rb_node h)(p := f (rb_node h p))\<rparr>"

definition wr :: "u32 \<Rightarrow> (rbnode \<Rightarrow> rbnode) \<Rightarrow> rbstore \<Rightarrow> rbstore option" where
  "wr p f h = (if p = NULL then None else Some (upd p f h))"

definition rbtree_is_root :: "u32 \<Rightarrow> rbstore \<Rightarrow> bool option" where
  "rbtree_is_root node h = do { n \<leftarrow> rd node h; Some (\<not> rbtree_is_node (rb_parent n)) }"

definition rbtree_is_leaf :: "u32 \<Rightarrow> rbstore \<Rightarrow> bool option" where
  "rbtree_is_leaf node h = do { n \<leftarrow> rd node h; Some (rb_left n = rb_right n) }"

definition rbtree_is_red :: "u32 \<Rightarrow> rbstore \<Rightarrow> bool" where
  "rbtree_is_red node h \<longleftrightarrow> rbtree_is_node node \<and> rb_color (rb_node h node) = RB_RED"

definition rbtree_is_black :: "u32 \<Rightarrow> rbstore \<Rightarrow> bool" where
  "rbtree_is_black node h \<longleftrightarrow> \<not> rbtree_is_node node \<or> rb_color (rb_node h node) = RB_BLACK"

definition rbtree_has_left :: "u32 \<Rightarrow> rbstore \<Rightarrow> bool option" where
  "rbtree_has_left node h = do { n \<leftarrow> rd node h; Some (rbtree_is_node (rb_left n)) }"

definition rbtree_has_right :: "u32 \<Rightarrow> rbstore \<Rightarrow> bool option" where
  "rbtree_has_right node h = do { n \<leftarrow> rd node h; Some (rbtree_is_node (rb_right n)) }"

definition rbtree_has_both :: "u32 \<Rightarrow> rbstore \<Rightarrow> bool option" where
  "rbtree_has_both node h = do { n \<leftarrow> rd node h; Some (rbtree_is_node (rb_left n) \<and> rbtree_is_node (rb_right n)) }"


section \<open>Walking the tree\<close>

definition do_rbtree_init :: "u32 \<Rightarrow> rbstore \<Rightarrow> rbstore option" where
  "do_rbtree_init node h = do {
     h1 \<leftarrow> wr node (rb_color_update (\<lambda>_. RB_RED)) h;
     h2 \<leftarrow> wr node (rb_left_update (\<lambda>_. RBTREE_NULL)) h1;
     h3 \<leftarrow> wr node (rb_right_update (\<lambda>_. RBTREE_NULL)) h2;
     wr node (rb_parent_update (\<lambda>_. RBTREE_NULL)) h3
   }"

definition rbtree_init :: "u32 \<Rightarrow> rbstore \<Rightarrow> rbstore option" where
  "rbtree_init node h = do { kassert (node \<noteq> NULL); do_rbtree_init node h }"

lemma rbtree_init_static: "node \<noteq> NULL \<Longrightarrow> \<exists>h'. rbtree_init node h = Some h' \<and> rb_node h' node = RBTREE_INIT"
  by (simp add: rbtree_init_def do_rbtree_init_def wr_def upd_def RBTREE_INIT_def)

text \<open>The loops of \<^verbatim>\<open>__rbtree_first\<close> and \<^verbatim>\<open>__rbtree_last\<close>.\<close>

partial_function (option) first_loop :: "u32 \<Rightarrow> rbstore \<Rightarrow> u32 option" where
  "first_loop root h = do {
     n \<leftarrow> rd root h;
     if rbtree_is_node (rb_left n) then first_loop (rb_left n) h else Some root
   }"

partial_function (option) last_loop :: "u32 \<Rightarrow> rbstore \<Rightarrow> u32 option" where
  "last_loop root h = do {
     n \<leftarrow> rd root h;
     if rbtree_is_node (rb_right n) then last_loop (rb_right n) h else Some root
   }"

text \<open>The loops of \<^verbatim>\<open>__rbtree_next\<close> and \<^verbatim>\<open>__rbtree_prev\<close> that climb to the first ancestor entered from the other side.\<close>

partial_function (option) climb_right :: "u32 \<Rightarrow> rbstore \<Rightarrow> u32 option" where
  "climb_right node h = do {
     n \<leftarrow> rd node h;
     if rbtree_is_node (rb_parent n) then do {
       p \<leftarrow> rd (rb_parent n) h;
       if node = rb_right p then climb_right (rb_parent n) h else Some (rb_parent n)
     } else Some (rb_parent n)
   }"

partial_function (option) climb_left :: "u32 \<Rightarrow> rbstore \<Rightarrow> u32 option" where
  "climb_left node h = do {
     n \<leftarrow> rd node h;
     if rbtree_is_node (rb_parent n) then do {
       p \<leftarrow> rd (rb_parent n) h;
       if node = rb_left p then climb_left (rb_parent n) h else Some (rb_parent n)
     } else Some (rb_parent n)
   }"

definition rbtree_first :: "u32 \<Rightarrow> rbstore \<Rightarrow> u32 option" where
  "rbtree_first root h = do { kassert (root \<noteq> NULL); first_loop root h }"

definition rbtree_last :: "u32 \<Rightarrow> rbstore \<Rightarrow> u32 option" where
  "rbtree_last root h = do { kassert (root \<noteq> NULL); last_loop root h }"

definition do_rbtree_next :: "u32 \<Rightarrow> rbstore \<Rightarrow> u32 option" where
  "do_rbtree_next node h = do {
     n \<leftarrow> rd node h;
     if rbtree_is_node (rb_right n) then first_loop (rb_right n) h else climb_right node h
   }"

definition rbtree_next :: "u32 \<Rightarrow> rbstore \<Rightarrow> u32 option" where
  "rbtree_next node h = do { kassert (rbtree_is_node node); do_rbtree_next node h }"

definition do_rbtree_prev :: "u32 \<Rightarrow> rbstore \<Rightarrow> u32 option" where
  "do_rbtree_prev node h = do {
     n \<leftarrow> rd node h;
     if rbtree_is_node (rb_left n) then last_loop (rb_left n) h else climb_left node h
   }"

definition rbtree_prev :: "u32 \<Rightarrow> rbstore \<Rightarrow> u32 option" where
  "rbtree_prev node h = do { kassert (rbtree_is_node node); do_rbtree_prev node h }"

text \<open>\<^verbatim>\<open>rbtree_find\<close> with the comparison already applied to its data.\<close>

partial_function (option) rbtree_find :: "u32 \<Rightarrow> (u32 \<Rightarrow> int) \<Rightarrow> rbstore \<Rightarrow> u32 option" where
  "rbtree_find root compare h =
     (if rbtree_is_node root then do {
        let cmp = compare root;
        n \<leftarrow> rd root h;
        if cmp < 0 then rbtree_find (rb_left n) compare h
        else if cmp > 0 then rbtree_find (rb_right n) compare h
        else Some root
      } else Some NULL)"


section \<open>Moving links and rotations\<close>

definition move_parent :: "u32 \<Rightarrow> u32 \<Rightarrow> u32 \<Rightarrow> rbstore \<Rightarrow> (u32 \<times> rbstore) option" where
  "move_parent tree old new h = do {
     n \<leftarrow> rd old h;
     let parent = rb_parent n;
     h1 \<leftarrow> (if rbtree_is_node new then wr new (rb_parent_update (\<lambda>_. parent)) h else Some h);
     h2 \<leftarrow> (if rbtree_is_node parent then do {
              p \<leftarrow> rd parent h1;
              if old = rb_left p then wr parent (rb_left_update (\<lambda>_. new)) h1
              else wr parent (rb_right_update (\<lambda>_. new)) h1
            } else Some (h1\<lparr>rb_root := (rb_root h1)(tree := new)\<rparr>));
     Some (parent, h2)
   }"

definition move_children :: "u32 \<Rightarrow> u32 \<Rightarrow> rbstore \<Rightarrow> rbstore option" where
  "move_children old new h = do {
     h2 \<leftarrow> (if rbtree_is_node new then do {
              o1 \<leftarrow> rd old h;
              h1 \<leftarrow> wr new (rb_left_update (\<lambda>_. rb_left o1)) h;
              o2 \<leftarrow> rd old h1;
              wr new (rb_right_update (\<lambda>_. rb_right o2)) h1
            } else Some h);
     o3 \<leftarrow> rd old h2;
     h3 \<leftarrow> (if rbtree_is_node (rb_left o3) then wr (rb_left o3) (rb_parent_update (\<lambda>_. new)) h2 else Some h2);
     o4 \<leftarrow> rd old h3;
     if rbtree_is_node (rb_right o4) then wr (rb_right o4) (rb_parent_update (\<lambda>_. new)) h3 else Some h3
   }"

definition rotate_left :: "u32 \<Rightarrow> u32 \<Rightarrow> rbstore \<Rightarrow> rbstore option" where
  "rotate_left tree pivot h = do {
     n \<leftarrow> rd pivot h;
     let child = rb_right n;
     c \<leftarrow> rd child h;
     h1 \<leftarrow> wr pivot (rb_right_update (\<lambda>_. rb_left c)) h;
     h2 \<leftarrow> wr child (rb_left_update (\<lambda>_. pivot)) h1;
     n2 \<leftarrow> rd pivot h2;
     h3 \<leftarrow> (if rbtree_is_node (rb_right n2) then wr (rb_right n2) (rb_parent_update (\<lambda>_. pivot)) h2 else Some h2);
     (_, h4) \<leftarrow> move_parent tree pivot child h3;
     wr pivot (rb_parent_update (\<lambda>_. child)) h4
   }"

definition rotate_right :: "u32 \<Rightarrow> u32 \<Rightarrow> rbstore \<Rightarrow> rbstore option" where
  "rotate_right tree pivot h = do {
     n \<leftarrow> rd pivot h;
     let child = rb_left n;
     c \<leftarrow> rd child h;
     h1 \<leftarrow> wr pivot (rb_left_update (\<lambda>_. rb_right c)) h;
     h2 \<leftarrow> wr child (rb_right_update (\<lambda>_. pivot)) h1;
     n2 \<leftarrow> rd pivot h2;
     h3 \<leftarrow> (if rbtree_is_node (rb_left n2) then wr (rb_left n2) (rb_parent_update (\<lambda>_. pivot)) h2 else Some h2);
     (_, h4) \<leftarrow> move_parent tree pivot child h3;
     wr pivot (rb_parent_update (\<lambda>_. child)) h4
   }"

definition rotate :: "u32 \<Rightarrow> u32 \<Rightarrow> bool \<Rightarrow> rbstore \<Rightarrow> rbstore option" where
  "rotate tree pivot left h = (if left then rotate_left tree pivot h else rotate_right tree pivot h)"

abbreviation paint_node :: "u32 \<Rightarrow> rbcolor \<Rightarrow> rbstore \<Rightarrow> rbstore option" where
  "paint_node p c \<equiv> wr p (rb_color_update (\<lambda>_. c))"


section \<open>Insertion\<close>

text \<open>The loop of \<^verbatim>\<open>__rbtree_rebalance_insert\<close>.\<close>

partial_function (option) insert_loop :: "u32 \<Rightarrow> u32 \<Rightarrow> rbstore \<Rightarrow> rbstore option" where
  "insert_loop tree node h = do {
     n \<leftarrow> rd node h;
     if \<not> rbtree_is_red (rb_parent n) h then Some h
     else do {
       let parent = rb_parent n;
       p \<leftarrow> rd parent h;
       let gparent = rb_parent p;
       g \<leftarrow> rd gparent h;
       let uncle = (if rb_left g = parent then rb_right g else rb_left g);
       if rbtree_is_red uncle h then do {
         h1 \<leftarrow> paint_node uncle RB_BLACK h;
         h2 \<leftarrow> paint_node parent RB_BLACK h1;
         h3 \<leftarrow> paint_node gparent RB_RED h2;
         insert_loop tree gparent h3
       } else do {
         let nleft = (rb_left p = node);
         let pleft = (rb_left g = parent);
         (node', parent', h1) \<leftarrow>
           (if nleft \<noteq> pleft then do {
              h1 \<leftarrow> rotate tree parent pleft h;
              n' \<leftarrow> rd parent h1;
              Some (parent, rb_parent n', h1)
            } else Some (node, parent, h));
         h2 \<leftarrow> rotate tree gparent (\<not> pleft) h1;
         h3 \<leftarrow> paint_node gparent RB_RED h2;
         h4 \<leftarrow> paint_node parent' RB_BLACK h3;
         insert_loop tree node' h4
       }
     }
   }"

definition rebalance_insert :: "u32 \<Rightarrow> u32 \<Rightarrow> rbstore \<Rightarrow> rbstore option" where
  "rebalance_insert tree node h = do {
     h1 \<leftarrow> insert_loop tree node h;
     paint_node (rb_root h1 tree) RB_BLACK h1
   }"

definition set_clink :: "clink \<Rightarrow> u32 \<Rightarrow> rbstore \<Rightarrow> rbstore option" where
  "set_clink clinkp node h = (case clinkp of
     Clink_NULL \<Rightarrow> None
   | Root_of tree \<Rightarrow> Some (h\<lparr>rb_root := (rb_root h)(tree := node)\<rparr>)
   | Left_of p \<Rightarrow> wr p (rb_left_update (\<lambda>_. node)) h
   | Right_of p \<Rightarrow> wr p (rb_right_update (\<lambda>_. node)) h)"

definition do_rbtree_insert :: "u32 \<Rightarrow> u32 \<Rightarrow> u32 \<Rightarrow> clink \<Rightarrow> rbstore \<Rightarrow> rbstore option" where
  "do_rbtree_insert tree node parent clinkp h = do {
     h1 \<leftarrow> wr node (rb_color_update (\<lambda>_. RB_RED)) h;
     h2 \<leftarrow> wr node (rb_left_update (\<lambda>_. NULL)) h1;
     h3 \<leftarrow> wr node (rb_right_update (\<lambda>_. NULL)) h2;
     h4 \<leftarrow> wr node (rb_parent_update (\<lambda>_. parent)) h3;
     h5 \<leftarrow> set_clink clinkp node h4;
     rebalance_insert tree node h5
   }"

definition rbtree_insert :: "u32 \<Rightarrow> u32 \<Rightarrow> u32 \<Rightarrow> clink \<Rightarrow> rbstore \<Rightarrow> rbstore option" where
  "rbtree_insert tree node parent clinkp h = do {
     kassert (tree \<noteq> NULL);
     kassert (clinkp \<noteq> Clink_NULL);
     kassert (rbtree_is_node node);
     do_rbtree_insert tree node parent clinkp h
   }"


section \<open>Deletion\<close>

text \<open>The second part of the body of the loop of \<^verbatim>\<open>__rbtree_rebalance_delete\<close>, where the sibling is black: whether the loop
  goes on (it leaves through \<^verbatim>\<open>break\<close> otherwise), the new \<^verbatim>\<open>parent\<close> and \<^verbatim>\<open>node\<close>, and the store.\<close>

definition delete_nephews :: "u32 \<Rightarrow> u32 \<Rightarrow> bool \<Rightarrow> u32 \<Rightarrow> rbstore \<Rightarrow> (bool \<times> u32 \<times> u32 \<times> rbstore) option" where
  "delete_nephews tree parent nleft sibling h = do {
     s \<leftarrow> rd sibling h;
     if rbtree_is_black (rb_left s) h \<and> rbtree_is_black (rb_right s) h then do {
       h1 \<leftarrow> paint_node sibling RB_RED h;
       n \<leftarrow> rd parent h1;
       Some (True, rb_parent n, parent, h1)
     } else do {
       let inner = (if nleft then rb_right s else rb_left s);
       (inner', sibling', h3) \<leftarrow>
         (if rbtree_is_black inner h then do {
            let outer = (if nleft then rb_left s else rb_right s);
            kassert (rbtree_is_red outer h);
            h1 \<leftarrow> rotate tree sibling (\<not> nleft) h;
            h2 \<leftarrow> paint_node outer RB_BLACK h1;
            h3 \<leftarrow> paint_node sibling RB_RED h2;
            Some (sibling, outer, h3)
          } else Some (inner, sibling, h));
       kassert (rbtree_is_red inner' h3);
       h4 \<leftarrow> rotate tree parent nleft h3;
       p \<leftarrow> rd parent h4;
       h5 \<leftarrow> paint_node sibling' (rb_color p) h4;
       h6 \<leftarrow> paint_node parent RB_BLACK h5;
       h7 \<leftarrow> paint_node inner' RB_BLACK h6;
       Some (False, parent, rb_root h7 tree, h7)
     }
   }"

definition delete_body :: "u32 \<Rightarrow> u32 \<Rightarrow> u32 \<Rightarrow> rbstore \<Rightarrow> (bool \<times> u32 \<times> u32 \<times> rbstore) option" where
  "delete_body tree parent node h = do {
     p \<leftarrow> rd parent h;
     let nleft = (node = rb_left p);
     let sibling = (if node = rb_left p then rb_right p else rb_left p);
     if rbtree_is_red sibling h then do {
       h1 \<leftarrow> rotate tree parent nleft h;
       h2 \<leftarrow> paint_node parent RB_RED h1;
       h3 \<leftarrow> paint_node sibling RB_BLACK h2;
       p' \<leftarrow> rd parent h3;
       delete_nephews tree parent nleft (if nleft then rb_right p' else rb_left p') h3
     } else delete_nephews tree parent nleft sibling h
   }"

text \<open>The loop; the result is the last value of \<^verbatim>\<open>node\<close>.\<close>

partial_function (option) delete_loop :: "u32 \<Rightarrow> u32 \<Rightarrow> u32 \<Rightarrow> rbstore \<Rightarrow> (u32 \<times> rbstore) option" where
  "delete_loop tree parent node h =
     (if rbtree_is_black node h \<and> node \<noteq> rb_root h tree then do {
        (continue, parent', node', h') \<leftarrow> delete_body tree parent node h;
        if continue then delete_loop tree parent' node' h' else Some (node', h')
      } else Some (node, h))"

definition rebalance_delete :: "u32 \<Rightarrow> u32 \<Rightarrow> u32 \<Rightarrow> rbstore \<Rightarrow> rbstore option" where
  "rebalance_delete tree parent node h = do {
     (node', h1) \<leftarrow> delete_loop tree parent node h;
     if rbtree_is_node node' then paint_node node' RB_BLACK h1 else Some h1
   }"

definition rbtree_replace :: "u32 \<Rightarrow> u32 \<Rightarrow> u32 \<Rightarrow> rbstore \<Rightarrow> rbstore option" where
  "rbtree_replace tree old new h = do {
     h1 \<leftarrow> (if rbtree_is_node new then do { o1 \<leftarrow> rd old h; wr new (rb_color_update (\<lambda>_. rb_color o1)) h } else Some h);
     h2 \<leftarrow> move_children old new h1;
     (_, h3) \<leftarrow> move_parent tree old new h2;
     Some h3
   }"

definition do_rbtree_delete :: "u32 \<Rightarrow> u32 \<Rightarrow> rbstore \<Rightarrow> rbstore option" where
  "do_rbtree_delete tree node h = do {
     both \<leftarrow> rbtree_has_both node h;
     (color, child, parent, h') \<leftarrow>
       (if \<not> both then do {
          n \<leftarrow> rd node h;
          let child = (if rbtree_is_node (rb_left n) then rb_left n else rb_right n);
          (parent, h1) \<leftarrow> move_parent tree node child h;
          n1 \<leftarrow> rd node h1;
          Some (rb_color n1, child, parent, h1)
        } else do {
          n \<leftarrow> rd node h;
          subst \<leftarrow> rbtree_first (rb_right n) h;
          s \<leftarrow> rd subst h;
          let child = rb_right s;
          (parent, h1) \<leftarrow> move_parent tree subst child h;
          s1 \<leftarrow> rd subst h1;
          h2 \<leftarrow> rbtree_replace tree node subst h1;
          Some (rb_color s1, child, if parent = node then subst else parent, h2)
        });
     if color = RB_BLACK then rebalance_delete tree parent child h' else Some h'
   }"

definition rbtree_delete :: "u32 \<Rightarrow> u32 \<Rightarrow> rbstore \<Rightarrow> rbstore option" where
  "rbtree_delete tree node h = do {
     kassert (tree \<noteq> NULL);
     kassert (rbtree_is_node node);
     do_rbtree_delete tree node h
   }"

end
