(* ===== verification/Rbtree_Shape.thy ===== *)
theory Rbtree_Shape
  imports Rbtree
begin

text \<open>
  Red-black trees as a datatype and as zippers, and the relation of the node store to them. The order of the keys is the
  business of the callers; here a tree stands for the sequence of its nodes. The frame lemmas say what an update leaves alone,
  \<open>rotate_ok\<close> and \<open>paint_ok\<close> what a rotation and a change of colour do anywhere in a tree.
\<close>

section \<open>Trees and zippers\<close>

datatype rbt = Tip | Bin rbcolor rbt u32 rbt

primrec addr :: "rbt \<Rightarrow> u32" where
  "addr Tip = NULL"
| "addr (Bin c l a r) = a"

primrec inorder :: "rbt \<Rightarrow> u32 list" where
  "inorder Tip = []"
| "inorder (Bin c l a r) = inorder l @ a # inorder r"

text \<open>The two children of a node by direction, so that left and right need no separate proofs: \<open>bin d c x a y\<close> has \<open>x\<close> on
  side \<open>d\<close> (left when \<^term>\<open>True\<close>).\<close>

definition bin :: "bool \<Rightarrow> rbcolor \<Rightarrow> rbt \<Rightarrow> u32 \<Rightarrow> rbt \<Rightarrow> rbt" where
  "bin d c x a y = (if d then Bin c x a y else Bin c y a x)"

definition kid :: "bool \<Rightarrow> rbnode \<Rightarrow> u32" where
  "kid d n = (if d then rb_left n else rb_right n)"

definition set_kid :: "bool \<Rightarrow> u32 \<Rightarrow> rbnode \<Rightarrow> rbnode" where
  "set_kid d v n = (if d then n\<lparr>rb_left := v\<rparr> else n\<lparr>rb_right := v\<rparr>)"

lemma kid_simps [simp]:
  "kid True n = rb_left n" "kid False n = rb_right n"
  "kid d (set_kid d v n) = v" "kid (\<not> d) (set_kid d v n) = kid (\<not> d) n" "kid d (set_kid (\<not> d) v n) = kid d n"
  "rb_color (set_kid d v n) = rb_color n" "rb_parent (set_kid d v n) = rb_parent n"
  "kid d (n\<lparr>rb_color := c\<rparr>) = kid d n" "kid d (n\<lparr>rb_parent := q\<rparr>) = kid d n"
  by (auto simp: kid_def set_kid_def)

lemma set_kid_fun: "set_kid True v = rb_left_update (\<lambda>_. v)" "set_kid False v = rb_right_update (\<lambda>_. v)"
  by (auto simp: set_kid_def)

lemma bin_flip: "bin (\<not> d) c y a x = bin d c x a y"
  by (auto simp: bin_def)

lemma bin_neq_Tip [simp]: "bin d c x a y \<noteq> Tip" "Tip \<noteq> bin d c x a y"
  by (simp_all add: bin_def)

lemma addr_bin [simp]: "addr (bin d c x a y) = a"
  by (simp add: bin_def)

lemma bin_cases: obtains "t = Tip" | c x a y where "t = bin d c x a y"
  by (cases t; cases d) (auto simp: bin_def)

lemma bin_inject [simp]: "bin d c x a y = bin d c' x' a' y' \<longleftrightarrow> c = c' \<and> x = x' \<and> a = a' \<and> y = y'"
  by (auto simp: bin_def)

text \<open>One step up from a subtree: \<open>Up d c a s\<close> says that the subtree is on side \<open>d\<close> of the node \<open>a\<close> of colour \<open>c\<close>, whose
  other subtree is \<open>s\<close>.\<close>

datatype up = Up bool rbcolor u32 rbt

primrec plug :: "rbt \<Rightarrow> up list \<Rightarrow> rbt" where
  "plug t [] = t"
| "plug t (f # p) = (case f of Up d c a s \<Rightarrow> plug (bin d c t a s) p)"

primrec above :: "up list \<Rightarrow> u32" where
  "above [] = NULL"
| "above (f # p) = (case f of Up d c a s \<Rightarrow> a)"

text \<open>The nodes of a tree and of the context of a subtree.\<close>

primrec nodes :: "rbt \<Rightarrow> u32 set" where
  "nodes Tip = {}"
| "nodes (Bin c l a r) = insert a (nodes l \<union> nodes r)"

primrec unodes :: "up list \<Rightarrow> u32 set" where
  "unodes [] = {}"
| "unodes (f # p) = (case f of Up d c a s \<Rightarrow> insert a (nodes s \<union> unodes p))"

lemma nodes_bin [simp]: "nodes (bin d c x a y) = insert a (nodes x \<union> nodes y)"
  by (auto simp: bin_def)

lemma set_inorder: "set (inorder t) = nodes t"
  by (induction t) auto

lemma nodes_plug: "nodes (plug t p) = nodes t \<union> unodes p"
  by (induction p arbitrary: t) (auto split: up.splits)

text \<open>No node occurs twice.\<close>

primrec sep :: "rbt \<Rightarrow> bool" where
  "sep Tip = True"
| "sep (Bin c l a r) \<longleftrightarrow> a \<notin> nodes l \<and> a \<notin> nodes r \<and> nodes l \<inter> nodes r = {} \<and> sep l \<and> sep r"

primrec usep :: "up list \<Rightarrow> bool" where
  "usep [] = True"
| "usep (f # p) \<longleftrightarrow> (case f of Up d c a s \<Rightarrow> a \<notin> nodes s \<and> sep s \<and> insert a (nodes s) \<inter> unodes p = {} \<and> usep p)"

lemma sep_distinct: "sep t \<longleftrightarrow> distinct (inorder t)"
  by (induction t) (auto simp: set_inorder)

lemma sep_bin [simp]: "sep (bin d c x a y) \<longleftrightarrow> a \<notin> nodes x \<and> a \<notin> nodes y \<and> nodes x \<inter> nodes y = {} \<and> sep x \<and> sep y"
  by (auto simp: bin_def)

lemma sep_plug: "sep (plug t p) \<longleftrightarrow> sep t \<and> usep p \<and> nodes t \<inter> unodes p = {}"
  by (induction p arbitrary: t) (auto split: up.splits)


section \<open>The representation\<close>

text \<open>\<open>shape h q t\<close>: the store holds the tree \<open>t\<close>, its top having the parent \<open>q\<close>. \<open>spine h tree x p\<close>: the store holds the
  context \<open>p\<close> of a subtree whose top is \<open>x\<close>.\<close>

primrec shape :: "rbstore \<Rightarrow> u32 \<Rightarrow> rbt \<Rightarrow> bool" where
  "shape h q Tip = True"
| "shape h q (Bin c l a r) \<longleftrightarrow> a \<noteq> NULL \<and>
     rb_node h a = \<lparr>rb_color = c, rb_left = addr l, rb_right = addr r, rb_parent = q\<rparr> \<and> shape h a l \<and> shape h a r"

definition is_bin :: "rbnode \<Rightarrow> bool \<Rightarrow> rbcolor \<Rightarrow> u32 \<Rightarrow> u32 \<Rightarrow> u32 \<Rightarrow> bool" where
  "is_bin n d c x y q \<longleftrightarrow> rb_color n = c \<and> kid d n = x \<and> kid (\<not> d) n = y \<and> rb_parent n = q"

primrec spine :: "rbstore \<Rightarrow> u32 \<Rightarrow> u32 \<Rightarrow> up list \<Rightarrow> bool" where
  "spine h tree x [] \<longleftrightarrow> rb_root h tree = x"
| "spine h tree x (f # p) \<longleftrightarrow> (case f of Up d c a s \<Rightarrow>
     a \<noteq> NULL \<and> is_bin (rb_node h a) d c x (addr s) (above p) \<and> shape h a s \<and> spine h tree a p)"

lemma shape_bin [simp]:
  "shape h q (bin d c x a y) \<longleftrightarrow> a \<noteq> NULL \<and> is_bin (rb_node h a) d c (addr x) (addr y) q \<and> shape h a x \<and> shape h a y"
  by (auto simp: bin_def is_bin_def)

lemma shape_NULL: "shape h q t \<Longrightarrow> NULL \<notin> nodes t"
  by (induction t arbitrary: q) auto

lemma spine_NULL: "spine h tree x p \<Longrightarrow> NULL \<notin> unodes p"
  by (induction p arbitrary: x) (auto split: up.splits dest: shape_NULL)

lemma addr_NULL: "shape h q t \<Longrightarrow> addr t = NULL \<longleftrightarrow> t = Tip"
  by (cases t) auto

lemma addr_nodes: "t \<noteq> Tip \<Longrightarrow> addr t \<in> nodes t"
  by (cases t) auto

lemma above_unodes: "p \<noteq> [] \<Longrightarrow> above p \<in> unodes p"
  by (cases p) (auto split: up.splits)

text \<open>What lies outside a structure does not matter to it.\<close>

lemma shape_cong: "(\<And>a. a \<in> nodes t \<Longrightarrow> rb_node h' a = rb_node h a) \<Longrightarrow> shape h' q t = shape h q t"
  by (induction t arbitrary: q) auto

lemma spine_cong:
  "(\<And>a. a \<in> unodes p \<Longrightarrow> rb_node h' a = rb_node h a) \<Longrightarrow> rb_root h' tree = rb_root h tree \<Longrightarrow> spine h' tree x p = spine h tree x p"
proof (induction p arbitrary: x)
  case (Cons f p)
  then show ?case by (cases f) (auto intro!: shape_cong [THEN iffD1] shape_cong [THEN iffD2] simp: shape_cong [of _ h' h])
qed simp

lemma upd_simps [simp]:
  "rb_node (upd a f h) b = (if b = a then f (rb_node h a) else rb_node h b)" "rb_root (upd a f h) = rb_root h"
  by (simp_all add: upd_def)

lemma shape_upd [simp]: "a \<notin> nodes t \<Longrightarrow> shape (upd a f h) q t = shape h q t"
  by (rule shape_cong) auto

lemma spine_upd [simp]: "a \<notin> unodes p \<Longrightarrow> spine (upd a f h) tree x p = spine h tree x p"
  by (rule spine_cong) auto

lemma shape_root [simp]: "shape (h\<lparr>rb_root := g\<rparr>) q t = shape h q t"
  by (rule shape_cong) auto

text \<open>The whole tree.\<close>

definition rep :: "rbstore \<Rightarrow> u32 \<Rightarrow> rbt \<Rightarrow> bool" where
  "rep h tree t \<longleftrightarrow> rb_root h tree = addr t \<and> shape h NULL t \<and> sep t"

lemma rep_plug:
  "rep h tree (plug t p) \<longleftrightarrow> shape h (above p) t \<and> spine h tree (addr t) p \<and> sep t \<and> usep p \<and> nodes t \<inter> unodes p = {}"
proof -
  have "rb_root h tree = addr (plug t p) \<and> shape h NULL (plug t p) \<longleftrightarrow> shape h (above p) t \<and> spine h tree (addr t) p"
    by (induction p arbitrary: t) (auto split: up.splits)
  then show ?thesis by (auto simp: rep_def sep_plug)
qed

text \<open>\<open>outside S h h' tree\<close>: only the nodes of \<open>S\<close> and the root of \<open>tree\<close> differ.\<close>

definition outside :: "u32 set \<Rightarrow> u32 \<Rightarrow> rbstore \<Rightarrow> rbstore \<Rightarrow> bool" where
  "outside S tree h h' \<longleftrightarrow> (\<forall>a. a \<notin> S \<longrightarrow> rb_node h' a = rb_node h a) \<and> (\<forall>t. t \<noteq> tree \<longrightarrow> rb_root h' t = rb_root h t)"

lemma outside_refl [simp]: "outside S tree h h"
  by (simp add: outside_def)

lemma outside_trans [trans]: "outside S tree h h' \<Longrightarrow> outside S tree h' h'' \<Longrightarrow> outside S tree h h''"
  by (simp add: outside_def)

lemma outside_upd: "a \<in> S \<Longrightarrow> outside S tree h h' \<Longrightarrow> outside S tree h (upd a f h')"
  by (auto simp: outside_def)

lemma rd_node [simp]: "a \<noteq> NULL \<Longrightarrow> rd a h = Some (rb_node h a)"
  by (simp add: rd_def)

lemma wr_node [simp]: "a \<noteq> NULL \<Longrightarrow> wr a f h = Some (upd a f h)"
  by (simp add: wr_def)

lemma is_node_iff [simp]: "rbtree_is_node a \<longleftrightarrow> a \<noteq> NULL"
  by (simp add: rbtree_is_node_def)


section \<open>Relinking and rotating\<close>

text \<open>The link of the context that \<^verbatim>\<open>__rbtree_move_parent\<close> redirects.\<close>

definition relink :: "up list \<Rightarrow> u32 \<Rightarrow> u32 \<Rightarrow> rbstore \<Rightarrow> rbstore" where
  "relink p tree new h = (case p of
     [] \<Rightarrow> h\<lparr>rb_root := (rb_root h)(tree := new)\<rparr>
   | Up d c a s # _ \<Rightarrow> upd a (set_kid d new) h)"

lemma relink_node: "b \<notin> unodes p \<Longrightarrow> rb_node (relink p tree new h) b = rb_node h b"
  by (auto simp: relink_def split: list.splits up.splits)

lemma relink_shape [simp]: "nodes t \<inter> unodes p = {} \<Longrightarrow> shape (relink p tree new h) q t = shape h q t"
  by (rule shape_cong) (simp add: relink_node disjoint_iff)

lemma relink_spine: "spine h tree old p \<Longrightarrow> usep p \<Longrightarrow> spine (relink p tree new h) tree new p"
  by (cases p) (auto simp: relink_def is_bin_def split: up.splits)

lemma relink_outside: "unodes p \<subseteq> S \<Longrightarrow> outside S tree h h' \<Longrightarrow> outside S tree h (relink p tree new h')"
  by (auto simp: relink_def outside_def split: list.splits up.splits)

text \<open>The update of a parent pointer that is skipped for \<^verbatim>\<open>NULL\<close>.\<close>

definition set_parent :: "u32 \<Rightarrow> u32 \<Rightarrow> rbstore \<Rightarrow> rbstore" where
  "set_parent a q h = (if a = NULL then h else upd a (rb_parent_update (\<lambda>_. q)) h)"

lemma set_parent_wr [simp]: "(if a \<noteq> NULL then wr a (rb_parent_update (\<lambda>_. q)) h else Some h) = Some (set_parent a q h)"
  by (simp add: set_parent_def)

lemma set_parent_simps [simp]:
  "rb_node (set_parent a q h) b = (if b = a \<and> a \<noteq> NULL then (rb_node h a)\<lparr>rb_parent := q\<rparr> else rb_node h b)"
  "rb_root (set_parent a q h) = rb_root h"
  by (simp_all add: set_parent_def)

lemma set_parent_other [simp]:
  "a \<notin> nodes t \<Longrightarrow> shape (set_parent a q h) q' t = shape h q' t" "a \<notin> unodes p \<Longrightarrow> spine (set_parent a q h) tree x p = spine h tree x p"
  by (simp_all add: set_parent_def)

lemma set_parent_shape: "shape h q t \<Longrightarrow> sep t \<Longrightarrow> shape (set_parent (addr t) q' h) q' t"
  by (cases t) auto

lemma set_parent_outside: "a \<noteq> NULL \<longrightarrow> a \<in> S \<Longrightarrow> outside S tree h h' \<Longrightarrow> outside S tree h (set_parent a q h')"
  by (simp add: set_parent_def outside_upd)

lemma move_parent_eq:
  assumes "spine h tree old p" and "rb_parent (rb_node h old) = above p" and "old \<noteq> NULL" and "new \<notin> unodes p"
    and "old \<notin> unodes p"
  shows "move_parent tree old new h = Some (above p, relink p tree new (set_parent new (above p) h))"
proof (cases p)
  case Nil
  then show ?thesis using assms by (simp add: move_parent_def relink_def)
next
  case (Cons f q)
  obtain d c a s where f: "f = Up d c a s" by (cases f)
  then have "a \<noteq> NULL" "kid d (rb_node h a) = old" "kid (\<not> d) (rb_node h a) \<noteq> old" "a \<noteq> new"
    using assms Cons addr_nodes [of s] by (cases "s = Tip"; auto simp: is_bin_def)+
  then show ?thesis using assms Cons f
    by (cases d) (auto simp: move_parent_def relink_def set_kid_fun)
qed


lemma rotate_kid:
  "rotate tree pivot d h = do {
     n \<leftarrow> rd pivot h;
     c \<leftarrow> rd (kid (\<not> d) n) h;
     h1 \<leftarrow> wr pivot (set_kid (\<not> d) (kid d c)) h;
     h2 \<leftarrow> wr (kid (\<not> d) n) (set_kid d pivot) h1;
     n2 \<leftarrow> rd pivot h2;
     (_, h4) \<leftarrow> move_parent tree pivot (kid (\<not> d) n) (set_parent (kid (\<not> d) n2) pivot h2);
     wr pivot (rb_parent_update (\<lambda>_. kid (\<not> d) n)) h4
   }"
  by (cases d) (simp_all add: rotate_def rotate_left_def rotate_right_def set_kid_fun Let_def)

text \<open>A rotation in direction \<open>d\<close> around the top of a subtree, anywhere in the tree.\<close>

lemma rotate_ok:
  assumes "rep h tree (plug (bin d cp a P (bin d cr b R c)) p)" and "S = nodes (plug (bin d cp a P (bin d cr b R c)) p)"
  shows "\<exists>h'. rotate tree P d h = Some h' \<and> rep h' tree (plug (bin d cr (bin d cp a P b) R c) p) \<and> outside S tree h h'"
proof -
  have H: "P \<noteq> NULL" "R \<noteq> NULL" "is_bin (rb_node h P) d cp (addr a) R (above p)" "is_bin (rb_node h R) d cr (addr b) (addr c) P"
    "shape h P a" "shape h R b" "shape h R c" "spine h tree P p"
    and D: "P \<noteq> R" "P \<notin> nodes a" "P \<notin> nodes b" "P \<notin> nodes c" "R \<notin> nodes a" "R \<notin> nodes b" "R \<notin> nodes c" "P \<notin> unodes p" "R \<notin> unodes p"
      "nodes a \<inter> nodes b = {}" "nodes a \<inter> nodes c = {}" "nodes b \<inter> nodes c = {}"
      "nodes a \<inter> unodes p = {}" "nodes b \<inter> unodes p = {}" "nodes c \<inter> unodes p = {}" "sep a" "sep b" "sep c" "usep p"
    using assms(1) unfolding rep_plug by auto
  have b: "addr b \<noteq> P" "addr b \<noteq> R" "addr b \<notin> unodes p" "addr b \<notin> nodes a" "addr b \<notin> nodes c" "addr b \<noteq> NULL \<longrightarrow> addr b \<in> nodes b"
    using D H addr_nodes [of b] spine_NULL [OF H(8)] shape_NULL [OF H(5)] shape_NULL [OF H(7)] by (cases "b = Tip"; auto)+
  define h2 where "h2 = upd R (set_kid d P) (upd P (set_kid (\<not> d) (addr b)) h)"
  define h3 where "h3 = set_parent (addr b) P h2"
  define h4 where "h4 = relink p tree R (set_parent R (above p) h3)"
  define h' where "h' = upd P (rb_parent_update (\<lambda>_. R)) h4"
  have k: "kid (\<not> d) (rb_node h P) = R" "kid d (rb_node h R) = addr b" "rb_parent (rb_node h3 P) = above p"
    using H(3,4) D b by (auto simp: is_bin_def h3_def h2_def)
  have s3: "spine h3 tree P p" using H(8) D b by (simp add: h3_def h2_def)
  have m: "move_parent tree P R h3 = Some (above p, h4)"
    using move_parent_eq [OF s3 k(3) H(1) D(9,8)] by (simp add: h4_def)
  have run: "rotate tree P d h = Some h'"
    using H(1,2) k D m by (simp add: rotate_kid h2_def [symmetric] h3_def [symmetric] h'_def)
  have s4: "spine h4 tree R p" unfolding h4_def by (rule relink_spine [of _ _ P]) (use s3 D in auto)
  have n4: "rb_node h4 P = rb_node h3 P" "rb_node h4 R = (rb_node h3 R)\<lparr>rb_parent := above p\<rparr>"
    using D H by (simp_all add: h4_def relink_node)
  have sh: "shape h4 P a" "shape h4 P b" "shape h4 R c"
    using H D b set_parent_shape [of h2 R b P] by (simp_all add: h4_def h3_def) (simp_all add: h2_def)
  have "rep h' tree (plug (bin d cr (bin d cp a P b) R c) p)"
  proof -
    have n': "rb_node h' P = (rb_node h3 P)\<lparr>rb_parent := R\<rparr>" "rb_node h' R = (rb_node h3 R)\<lparr>rb_parent := above p\<rparr>"
      using D n4 by (simp_all add: h'_def)
    have "is_bin (rb_node h' P) d cp (addr a) (addr b) R" "is_bin (rb_node h' R) d cr P (addr c) (above p)"
      using H(3,4) D(1) b(1,2) unfolding n' by (auto simp: is_bin_def h3_def h2_def)
    then have "shape h' (above p) (bin d cr (bin d cp a P b) R c)" using H(1,2) sh D by (simp add: h'_def)
    moreover have "spine h' tree R p" using s4 D by (simp add: h'_def)
    ultimately show ?thesis unfolding rep_plug using D by auto
  qed
  moreover have "outside S tree h h'"
    unfolding h'_def h4_def h3_def h2_def
    by (intro outside_upd relink_outside set_parent_outside outside_refl) (use b assms(2) in \<open>auto simp: nodes_plug\<close>)
  ultimately show ?thesis using run by blast
qed

lemma paint_ok:
  assumes "rep h tree (plug (Bin c l a r) p)" and "S = nodes (plug (Bin c l a r) p)"
  shows "\<exists>h'. paint_node a c' h = Some h' \<and> rep h' tree (plug (Bin c' l a r) p) \<and> outside S tree h h'"
  using assms unfolding rep_plug by (auto simp: nodes_plug intro!: outside_upd)

end
