(* ===== verification/Rbtree_Insert.thy ===== *)
theory Rbtree_Insert
  imports Rbtree_Shape
begin

text \<open>
  Insertion: the loop of \<^verbatim>\<open>__rbtree_rebalance_insert\<close> computes the function \<open>ins_fix\<close> on zippers, and \<open>ins_fix\<close>
  restores the red-black invariants without changing the order of the nodes.
\<close>

section \<open>Colours\<close>

primrec tcol :: "rbt \<Rightarrow> rbcolor" where
  "tcol Tip = RB_BLACK"
| "tcol (Bin c l a r) = c"

primrec paint :: "rbcolor \<Rightarrow> rbt \<Rightarrow> rbt" where
  "paint c Tip = Tip"
| "paint c (Bin c' l a r) = Bin c l a r"

lemma color_cases: "c \<noteq> RB_BLACK \<longleftrightarrow> c = RB_RED" "c \<noteq> RB_RED \<longleftrightarrow> c = RB_BLACK"
  by (cases c; simp)+

lemma bin_color [simp]: "tcol (bin d c x a y) = c" "paint c' (bin d c x a y) = bin d c' x a y"
  by (simp_all add: bin_def)

lemma paint_simps [simp]: "addr (paint c t) = addr t" "nodes (paint c t) = nodes t" "inorder (paint c t) = inorder t"
    "t \<noteq> Tip \<Longrightarrow> tcol (paint c t) = c" "paint c t = Tip \<longleftrightarrow> t = Tip" "tcol (paint RB_BLACK t) = RB_BLACK"
  by (cases t; simp)+

lemma is_red_shape: "shape h q t \<Longrightarrow> rbtree_is_red (addr t) h \<longleftrightarrow> tcol t = RB_RED"
  by (cases t) (auto simp: rbtree_is_red_def)

lemma is_black_shape: "shape h q t \<Longrightarrow> rbtree_is_black (addr t) h \<longleftrightarrow> tcol t = RB_BLACK"
  by (cases t) (auto simp: rbtree_is_black_def)

lemma paint_tree:
  assumes "rep h tree (plug t p)" and "t \<noteq> Tip" and "S = nodes t \<union> unodes p"
  shows "\<exists>h'. paint_node (addr t) c h = Some h' \<and> rep h' tree (plug (paint c t) p) \<and> outside S tree h h'"
  using assms paint_ok [of h tree] by (cases t) (auto simp: nodes_plug)

text \<open>Which side a child is on can be read off the node.\<close>

lemma side:
  assumes "is_bin n d c x y q" and "x \<noteq> y"
  shows "(rb_left n = x) = d" and "(if rb_left n = x then rb_right n else rb_left n) = y"
    and "(x = rb_left n) = d" and "(if x = rb_left n then rb_right n else rb_left n) = y"
  using assms by (cases d; auto simp: is_bin_def)+

lemma addr_neq: "nodes t \<inter> nodes s = {} \<Longrightarrow> t \<noteq> Tip \<Longrightarrow> shape h q t \<Longrightarrow> addr t \<noteq> addr s"
  using addr_nodes [of t] addr_nodes [of s] addr_NULL [of h q t] by (cases "s = Tip") auto

lemma parent_shape: "shape h q t \<Longrightarrow> t \<noteq> Tip \<Longrightarrow> rb_parent (rb_node h (addr t)) = q \<and> addr t \<noteq> NULL"
  by (cases t) auto


section \<open>Rebalancing after an insertion\<close>

text \<open>What the loop of \<^verbatim>\<open>__rbtree_rebalance_insert\<close> does to the tree with focus on the red node.\<close>

definition sub :: "bool \<Rightarrow> rbt \<Rightarrow> rbt" where
  "sub d t = (case t of Tip \<Rightarrow> Tip | Bin c l a r \<Rightarrow> if d then l else r)"

lemma sub_bin [simp]: "sub d (bin d c x a y) = x" "sub (\<not> d) (bin d c x a y) = y"
  by (auto simp: sub_def bin_def)

fun ins_fix :: "rbt \<Rightarrow> up list \<Rightarrow> rbt" where
  "ins_fix t (Up d c pa u # Up e cg g unc # p) =
     (if c = RB_BLACK then plug t (Up d c pa u # Up e cg g unc # p)
      else if tcol unc = RB_RED then ins_fix (bin e RB_RED (bin d RB_BLACK t pa u) g (paint RB_BLACK unc)) p
      else if d = e then plug (bin e RB_BLACK t pa (bin e RB_RED u g unc)) p
      else plug (bin e RB_BLACK (bin e RB_RED u pa (sub e t)) (addr t) (bin e RB_RED (sub (\<not> e) t) g unc)) p)"
| "ins_fix t p = plug t p"

lemma nodes_sub: "t \<noteq> Tip \<Longrightarrow> insert (addr t) (nodes (sub d t) \<union> nodes (sub (\<not> d) t)) = nodes t"
  by (cases t) (auto simp: sub_def)

lemma insert_loop_stop:
  assumes "rep h tree (plug t p)" and "t \<noteq> Tip" and "\<forall>d c a s q. p = Up d c a s # q \<longrightarrow> c = RB_BLACK"
  shows "insert_loop tree (addr t) h = Some h"
proof -
  have t: "rb_parent (rb_node h (addr t)) = above p" "addr t \<noteq> NULL"
    using assms(1,2) parent_shape [of h "above p" t] unfolding rep_plug by auto
  have "\<not> rbtree_is_red (above p) h"
    using assms(1,3) unfolding rep_plug by (cases p) (auto simp: rbtree_is_red_def is_bin_def split: up.splits)
  then show ?thesis using t by (simp add: insert_loop.simps)
qed

lemma insert_loop_red:
  assumes "rep h tree (plug t (Up d RB_RED pa u # Up e cg g unc # p))" and "t \<noteq> Tip"
  shows "insert_loop tree (addr t) h =
     (if tcol unc = RB_RED then do {
        h1 \<leftarrow> paint_node (addr unc) RB_BLACK h;
        h2 \<leftarrow> paint_node pa RB_BLACK h1;
        h3 \<leftarrow> paint_node g RB_RED h2;
        insert_loop tree g h3
      } else do {
        (node', parent', h1) \<leftarrow>
          (if d \<noteq> e then do {
             h1 \<leftarrow> rotate tree pa e h;
             n' \<leftarrow> rd pa h1;
             Some (pa, rb_parent n', h1)
           } else Some (addr t, pa, h));
        h2 \<leftarrow> rotate tree g (\<not> e) h1;
        h3 \<leftarrow> paint_node g RB_RED h2;
        h4 \<leftarrow> paint_node parent' RB_BLACK h3;
        insert_loop tree node' h4
      })"
proof -
  have H: "shape h pa t" "is_bin (rb_node h pa) d RB_RED (addr t) (addr u) g" "is_bin (rb_node h g) e cg pa (addr unc) (above p)"
    "pa \<noteq> NULL" "g \<noteq> NULL" "shape h g unc" "pa \<notin> nodes unc" "nodes t \<inter> nodes u = {}"
    using assms(1) unfolding rep_plug by auto
  note T = parent_shape [OF H(1) assms(2)]
  have ne: "addr t \<noteq> addr u" "pa \<noteq> addr unc"
    using addr_neq [OF H(8) assms(2) H(1)] addr_nodes [of unc] H(4,7) by (cases "unc = Tip"; auto)+
  note S = side [OF H(2) ne(1)] side [OF H(3) ne(2)]
  have r: "rbtree_is_red pa h" "rb_parent (rb_node h pa) = g" using H(2,4) by (auto simp: rbtree_is_red_def is_bin_def)
  show ?thesis
    by (subst insert_loop.simps) (use T H(4,5) r S is_red_shape [OF H(6)] in \<open>simp add: Let_def\<close>)
qed

lemma ins_uncle_red:
  assumes "rep h tree (plug t (Up d RB_RED pa u # Up e cg g unc # p))" and "tcol unc = RB_RED"
    and S: "S = nodes (plug t (Up d RB_RED pa u # Up e cg g unc # p))"
  shows "\<exists>h1 h2 h3. paint_node (addr unc) RB_BLACK h = Some h1 \<and> paint_node pa RB_BLACK h1 = Some h2 \<and> paint_node g RB_RED h2 = Some h3 \<and>
     rep h3 tree (plug (bin e RB_RED (bin d RB_BLACK t pa u) g (paint RB_BLACK unc)) p) \<and> outside S tree h h3"
proof -
  let ?P = "bin d RB_RED t pa u" and ?P' = "bin d RB_BLACK t pa u"
  have ne: "unc \<noteq> Tip" using assms(2) by auto
  have "rep h tree (plug unc (Up (\<not> e) cg g ?P # p))" using assms(1) by (simp add: bin_flip)
  from paint_tree [OF this ne refl, of RB_BLACK] obtain h1 where h1: "paint_node (addr unc) RB_BLACK h = Some h1"
    "rep h1 tree (plug (bin e cg ?P g (paint RB_BLACK unc)) p)" "outside S tree h h1"
    by (auto simp: bin_flip S nodes_plug Un_ac)
  from h1(2) have "rep h1 tree (plug ?P (Up e cg g (paint RB_BLACK unc) # p))" by simp
  from paint_tree [OF this _ refl, of RB_BLACK] obtain h2 where h2: "paint_node pa RB_BLACK h1 = Some h2"
    "rep h2 tree (plug (bin e cg ?P' g (paint RB_BLACK unc)) p)" "outside S tree h1 h2"
    by (auto simp: S nodes_plug Un_ac insert_commute)
  from paint_tree [OF h2(2) _ refl, of RB_RED] obtain h3 where "paint_node g RB_RED h2 = Some h3"
    "rep h3 tree (plug (bin e RB_RED ?P' g (paint RB_BLACK unc)) p)" "outside S tree h2 h3"
    by (auto simp: S nodes_plug Un_ac insert_commute)
  with h1 h2 show ?thesis using outside_trans by metis
qed

text \<open>The rotation around the grandparent with the exchange of colours.\<close>

lemma ins_outer:
  assumes "rep h tree (plug (bin e cg (bin e c x pa y) g unc) p)" and "S = nodes (plug (bin e cg (bin e c x pa y) g unc) p)"
  shows "\<exists>h2 h3 h4. rotate tree g (\<not> e) h = Some h2 \<and> paint_node g RB_RED h2 = Some h3 \<and> paint_node pa RB_BLACK h3 = Some h4 \<and>
     rep h4 tree (plug (bin e RB_BLACK x pa (bin e RB_RED y g unc)) p) \<and> outside S tree h h4"
proof -
  have "rep h tree (plug (bin (\<not> e) cg unc g (bin (\<not> e) c y pa x)) p)" using assms(1) by (simp add: bin_flip)
  from rotate_ok [OF this refl] obtain h2 where h2: "rotate tree g (\<not> e) h = Some h2"
    "rep h2 tree (plug (bin e c x pa (bin e cg y g unc)) p)" "outside S tree h h2"
    using assms(2) by (auto simp: bin_flip nodes_plug Un_ac insert_commute)
  from h2(2) have "rep h2 tree (plug (bin e cg y g unc) (Up (\<not> e) c pa x # p))" by (simp add: bin_flip)
  from paint_tree [OF this _ refl, of RB_RED] obtain h3 where h3: "paint_node g RB_RED h2 = Some h3"
    "rep h3 tree (plug (bin e c x pa (bin e RB_RED y g unc)) p)" "outside S tree h2 h3"
    by (auto simp: bin_flip assms(2) nodes_plug Un_ac insert_commute)
  from paint_tree [OF h3(2) _ refl, of RB_BLACK] obtain h4 where "paint_node pa RB_BLACK h3 = Some h4"
    "rep h4 tree (plug (bin e RB_BLACK x pa (bin e RB_RED y g unc)) p)" "outside S tree h3 h4"
    by (auto simp: assms(2) nodes_plug Un_ac insert_commute)
  with h2 h3 show ?thesis using outside_trans by metis
qed

lemma insert_loop_ok:
  assumes "rep h tree (plug t p)" and "t \<noteq> Tip" and "\<forall>d c a s q. p = q @ [Up d c a s] \<longrightarrow> c = RB_BLACK"
  shows "\<exists>h'. insert_loop tree (addr t) h = Some h' \<and> rep h' tree (ins_fix t p) \<and> outside (nodes (plug t p)) tree h h'"
  using assms
proof (induction t p arbitrary: h rule: ins_fix.induct [case_names Two Zero One])
  case (Two t d c pa u e cg g unc p)
  let ?S = "nodes (plug t (Up d c pa u # Up e cg g unc # p))"
  have last: "\<forall>d c a s q. p = q @ [Up d c a s] \<longrightarrow> c = RB_BLACK"
    using Two.prems(3) by (metis append_Cons)
  show ?case
  proof (cases "c = RB_BLACK")
    case True
    then show ?thesis using insert_loop_stop [OF Two.prems(1,2)] Two.prems(1) by auto
  next
    case False
    then have c: "c = RB_RED" by (simp add: color_cases)
    note R = Two.prems(1) [unfolded c]
    note L = insert_loop_red [OF R Two.prems(2)]
    show ?thesis
    proof (cases "tcol unc = RB_RED")
      case True
      from ins_uncle_red [OF R True refl] obtain h1 h2 h3 where h: "paint_node (addr unc) RB_BLACK h = Some h1"
        "paint_node pa RB_BLACK h1 = Some h2" "paint_node g RB_RED h2 = Some h3"
        "rep h3 tree (plug (bin e RB_RED (bin d RB_BLACK t pa u) g (paint RB_BLACK unc)) p)" "outside ?S tree h h3"
        unfolding c by blast
      from Two.IH [OF False True h(4) _ last] obtain h' where h': "insert_loop tree g h3 = Some h'"
        "rep h' tree (ins_fix (bin e RB_RED (bin d RB_BLACK t pa u) g (paint RB_BLACK unc)) p)"
        "outside ?S tree h3 h'" by (auto simp: nodes_plug Un_ac)
      show ?thesis using L True h h' c outside_trans [OF h(5) h'(3)] by simp
    next
      case unc: False
      show ?thesis
      proof (cases "d = e")
        case True
        have "rep h tree (plug (bin e cg (bin e RB_RED t pa u) g unc) p)" using R True by simp
        from ins_outer [OF this refl] obtain h2 h3 h4 where h: "rotate tree g (\<not> e) h = Some h2"
          "paint_node g RB_RED h2 = Some h3" "paint_node pa RB_BLACK h3 = Some h4"
          "rep h4 tree (plug (bin e RB_BLACK t pa (bin e RB_RED u g unc)) p)" "outside ?S tree h h4"
          using True c by (auto simp: nodes_plug)
        have "insert_loop tree (addr t) h4 = Some h4"
          by (rule insert_loop_stop [of _ _ _ "Up e RB_BLACK pa (bin e RB_RED u g unc) # p"]) (use h Two.prems(2) in auto)
        then show ?thesis using L unc True h c by simp
      next
        case False
        then have de: "d = (\<not> e)" by auto
        obtain ct x n y where t: "t = bin e ct x n y" using Two.prems(2) bin_cases by metis
        have "rep h tree (plug (bin e RB_RED u pa (bin e ct x n y)) (Up e cg g unc # p))" using R de t by (simp add: bin_flip)
        from rotate_ok [OF this refl] obtain h1 where h1: "rotate tree pa e h = Some h1"
          "rep h1 tree (plug (bin e cg (bin e ct (bin e RB_RED u pa x) n y) g unc) p)" "outside ?S tree h h1"
          using t by (auto simp: nodes_plug Un_ac insert_commute)
        have par: "pa \<noteq> NULL" "rb_parent (rb_node h1 pa) = n"
          using h1(2) rep_plug [of h1 tree "bin e cg (bin e ct (bin e RB_RED u pa x) n y) g unc" p] by (auto simp: is_bin_def)
        from ins_outer [OF h1(2) refl] obtain h2 h3 h4 where h: "rotate tree g (\<not> e) h1 = Some h2"
          "paint_node g RB_RED h2 = Some h3" "paint_node n RB_BLACK h3 = Some h4"
          "rep h4 tree (plug (bin e RB_BLACK (bin e RB_RED u pa x) n (bin e RB_RED y g unc)) p)" "outside ?S tree h1 h4"
          using t by (auto simp: nodes_plug Un_ac insert_commute)
        have "insert_loop tree (addr (bin e RB_RED u pa x)) h4 = Some h4"
          by (rule insert_loop_stop [of _ _ _ "Up e RB_BLACK n (bin e RB_RED y g unc) # p"]) (use h in auto)
        then show ?thesis using L unc False h h1 par c t de outside_trans [OF h1(3) h(5)] by simp
      qed
    qed
  qed
next
  case (Zero t)
  then show ?case using insert_loop_stop [OF Zero(1,2)] by auto
next
  case (One t v)
  obtain d c a s where v: "v = Up d c a s" by (cases v)
  then have "c = RB_BLACK" using One(3) by auto
  then show ?case using insert_loop_stop [OF One(1,2)] One(1) v by auto
qed



section \<open>The red-black invariants\<close>

primrec bheight :: "rbt \<Rightarrow> nat" where
  "bheight Tip = 0"
| "bheight (Bin c l a r) = bheight l + (if c = RB_BLACK then 1 else 0)"

primrec balanced :: "rbt \<Rightarrow> bool" where
  "balanced Tip = True"
| "balanced (Bin c l a r) \<longleftrightarrow> bheight l = bheight r \<and> balanced l \<and> balanced r"

text \<open>The properties the comment in \<^verbatim>\<open>rbtree.c\<close> lists: [redblack] is \<open>coloured\<close>, [blackcount] is \<open>balanced\<close>.\<close>

primrec coloured :: "rbt \<Rightarrow> bool" where
  "coloured Tip = True"
| "coloured (Bin c l a r) \<longleftrightarrow> (c = RB_RED \<longrightarrow> tcol l = RB_BLACK \<and> tcol r = RB_BLACK) \<and> coloured l \<and> coloured r"

definition redblack :: "rbt \<Rightarrow> bool" where
  "redblack t \<longleftrightarrow> tcol t = RB_BLACK \<and> coloured t \<and> balanced t"

text \<open>The same of a context whose hole has the black height \<open>n\<close>.\<close>

primrec ubalanced :: "nat \<Rightarrow> up list \<Rightarrow> bool" where
  "ubalanced n [] = True"
| "ubalanced n (f # p) \<longleftrightarrow> (case f of Up d c a s \<Rightarrow> bheight s = n \<and> balanced s \<and> ubalanced (n + (if c = RB_BLACK then 1 else 0)) p)"

primrec ucol :: "up list \<Rightarrow> rbcolor" where
  "ucol [] = RB_RED"
| "ucol (f # p) = (case f of Up d c a s \<Rightarrow> c)"

primrec ucoloured :: "up list \<Rightarrow> bool" where
  "ucoloured [] = True"
| "ucoloured (f # p) \<longleftrightarrow> (case f of Up d c a s \<Rightarrow> (c = RB_RED \<longrightarrow> tcol s = RB_BLACK \<and> ucol p = RB_BLACK) \<and> coloured s \<and> ucoloured p)"

lemma bin_invariants [simp]:
  "bheight x = bheight y \<Longrightarrow> bheight (bin d c x a y) = bheight x + (if c = RB_BLACK then 1 else 0)"
  "balanced (bin d c x a y) \<longleftrightarrow> bheight x = bheight y \<and> balanced x \<and> balanced y"
  "coloured (bin d c x a y) \<longleftrightarrow> (c = RB_RED \<longrightarrow> tcol x = RB_BLACK \<and> tcol y = RB_BLACK) \<and> coloured x \<and> coloured y"
  by (auto simp: bin_def)

lemma balanced_plug: "balanced (plug t p) \<longleftrightarrow> balanced t \<and> ubalanced (bheight t) p"
proof (induction p arbitrary: t)
  case (Cons f p)
  obtain d c a s where f: "f = Up d c a s" by (cases f)
  show ?case
    by (cases "bheight t = bheight s") (auto simp: f Cons)
qed simp

lemma coloured_plug:
  "coloured (plug t p) \<and> tcol (plug t p) = RB_BLACK \<longleftrightarrow> coloured t \<and> ucoloured p \<and> (tcol t = RB_RED \<longrightarrow> ucol p = RB_BLACK)"
proof (induction p arbitrary: t)
  case Nil
  then show ?case by (cases "tcol t") auto
next
  case (Cons f p)
  obtain d c a s where f: "f = Up d c a s" by (cases f)
  show ?case by (cases c; cases "tcol t") (auto simp: f Cons)
qed

lemma redblack_plug:
  "redblack (plug t p) \<longleftrightarrow> coloured t \<and> ucoloured p \<and> (tcol t = RB_RED \<longrightarrow> ucol p = RB_BLACK) \<and> balanced t \<and> ubalanced (bheight t) p"
  using coloured_plug [of t p] balanced_plug [of t p] by (auto simp: redblack_def)

lemma paint_black: "coloured t \<Longrightarrow> coloured (paint RB_BLACK t)" "balanced (paint c t) = balanced t"
    "bheight (paint RB_BLACK t) = bheight t + (if tcol t = RB_RED then 1 else 0)"
    "tcol t = RB_BLACK \<Longrightarrow> t \<noteq> Tip \<Longrightarrow> bheight t = Suc (bheight (paint RB_RED t))"
  by (cases t; simp add: color_cases)+

lemma inorder_bin: "inorder (bin d c x a y) = (if d then inorder x @ a # inorder y else inorder y @ a # inorder x)"
  by (simp add: bin_def)

lemma inorder_plug: "\<exists>xs ys. \<forall>t. inorder (plug t p) = xs @ inorder t @ ys"
proof (induction p)
  case Nil
  have "\<forall>t. inorder (plug t []) = [] @ inorder t @ []" by simp
  then show ?case by blast
next
  case (Cons f p)
  obtain d c a s where f: "f = Up d c a s" by (cases f)
  obtain xs ys where "\<forall>t. inorder (plug t p) = xs @ inorder t @ ys" using Cons by blast
  then have "\<forall>t. inorder (plug t (f # p)) =
      (if d then xs else xs @ inorder s @ [a]) @ inorder t @ (if d then a # inorder s @ ys else ys)"
    by (simp add: f inorder_bin)
  then show ?case by blast
qed

lemma inorder_plug_cong: "inorder t = inorder t' \<Longrightarrow> inorder (plug t p) = inorder (plug t' p)"
  using inorder_plug [of p] by metis

lemma ins_fix_inorder: "t \<noteq> Tip \<Longrightarrow> inorder (ins_fix t p) = inorder (plug t p)"
proof (induction t p rule: ins_fix.induct [case_names Two Zero One])
  case (Two t d c pa u e cg g unc p)
  obtain ct x n y where t: "t = bin e ct x n y" using Two.prems bin_cases by metis
  have "inorder (plug X p) = inorder (plug t (Up d c pa u # Up e cg g unc # p))"
    if "inorder X = inorder (bin e cg (bin d c t pa u) g unc)" for X
    using inorder_plug_cong [OF that] by simp
  note eq = this
  show ?case
  proof (cases "c = RB_RED \<and> tcol unc = RB_RED")
    case True
    then have "inorder (ins_fix t (Up d c pa u # Up e cg g unc # p)) =
        inorder (plug (bin e RB_RED (bin d RB_BLACK t pa u) g (paint RB_BLACK unc)) p)"
      using Two by simp
    also have "\<dots> = inorder (plug t (Up d c pa u # Up e cg g unc # p))" by (rule eq) (simp add: inorder_bin)
    finally show ?thesis .
  next
    case False
    have o1: "inorder (plug (bin e RB_BLACK t pa (bin e RB_RED u g unc)) p) = inorder (plug t (Up d c pa u # Up e cg g unc # p))" if "d = e"
      by (rule eq) (simp add: inorder_bin that)
    have o2: "inorder (plug (bin e RB_BLACK (bin e RB_RED u pa (sub e t)) (addr t) (bin e RB_RED (sub (\<not> e) t) g unc)) p) =
        inorder (plug t (Up d c pa u # Up e cg g unc # p))" if "d \<noteq> e"
      by (rule eq) (use that t in \<open>auto simp: inorder_bin\<close>)
    show ?thesis using False o1 o2 by (cases "c = RB_BLACK"; cases "d = e") (simp_all add: color_cases)
  qed
qed auto

lemma sub_coloured: "coloured t \<Longrightarrow> coloured (sub d t)" "balanced t \<Longrightarrow> balanced (sub d t)"
    "tcol t = RB_RED \<Longrightarrow> coloured t \<Longrightarrow> tcol (sub d t) = RB_BLACK"
    "balanced t \<Longrightarrow> tcol t = RB_RED \<Longrightarrow> bheight (sub d t) = bheight t"
  by (cases t; auto simp: sub_def)+

lemma ins_fix_invariants:
  assumes "coloured t" and "balanced t" and "ucoloured p" and "ubalanced (bheight t) p" and "tcol t = RB_RED"
  shows "coloured (ins_fix t p) \<and> balanced (ins_fix t p) \<and> ins_fix t p \<noteq> Tip"
  using assms
proof (induction t p rule: ins_fix.induct [case_names Two Zero One])
  case (Two t d c pa u e cg g unc p)
  have plug: "coloured (plug X p) \<and> balanced (plug X p) \<and> plug X p \<noteq> Tip"
    if "coloured X" "balanced X" "tcol X = RB_BLACK" "bheight X = Suc (bheight t)" "cg = RB_BLACK" "c = RB_RED" for X
  proof -
    have "nodes (plug X p) \<noteq> {}" using that(4) by (cases X) (auto simp: nodes_plug)
    then show ?thesis
      using coloured_plug [of X p] balanced_plug [of X p] that Two.prems(3,4) by (auto split: if_splits)
  qed
  show ?case
  proof (cases "c = RB_BLACK")
    case True
    then have "redblack (plug t (Up d c pa u # Up e cg g unc # p))"
      unfolding redblack_plug using Two.prems by (auto split: if_splits)
    moreover have "nodes (plug t (Up d c pa u # Up e cg g unc # p)) \<noteq> {}" by (auto simp: nodes_plug)
    ultimately show ?thesis using True by (auto simp: redblack_def)
  next
    case False
    then have c: "c = RB_RED" "cg = RB_BLACK" using Two.prems(3) by (auto simp: color_cases)
    then show ?thesis
    proof (cases "tcol unc = RB_RED")
      case True
      with Two.IH [OF False True] Two.prems c show ?thesis by (auto simp: paint_black)
    next
      case unc: False
      have "t \<noteq> Tip" using Two.prems(5) by auto
      show ?thesis
      proof (cases "d = e")
        case True
        have "coloured (plug (bin e RB_BLACK t pa (bin e RB_RED u g unc)) p) \<and> balanced (plug (bin e RB_BLACK t pa (bin e RB_RED u g unc)) p) \<and>
            plug (bin e RB_BLACK t pa (bin e RB_RED u g unc)) p \<noteq> Tip"
          by (rule plug) (use Two.prems c unc in \<open>auto simp: color_cases\<close>)
        then show ?thesis using True c unc by simp
      next
        case False
        let ?X = "bin e RB_BLACK (bin e RB_RED u pa (sub e t)) (addr t) (bin e RB_RED (sub (\<not> e) t) g unc)"
        have "coloured (plug ?X p) \<and> balanced (plug ?X p) \<and> plug ?X p \<noteq> Tip"
          by (rule plug) (use Two.prems c unc sub_coloured [of t] in \<open>auto simp: color_cases\<close>)
        then show ?thesis using False c unc by simp
      qed
    qed
  qed
next
  case (One t v)
  obtain d c a s where v: "v = Up d c a s" by (cases v)
  then show ?case using One by (cases c) auto
qed auto



section \<open>Insertion\<close>

lemma rep_unique: "rep h tree t \<Longrightarrow> t \<noteq> Tip \<Longrightarrow> rb_root h tree = addr t \<and> addr t \<noteq> NULL"
  using addr_NULL [of h NULL t] by (auto simp: rep_def)

lemma rebalance_insert_ok:
  assumes "rep h tree (plug t p)" and "tcol t = RB_RED" and "\<forall>d c a s q. p = q @ [Up d c a s] \<longrightarrow> c = RB_BLACK"
    and I: "coloured t" "balanced t" "ucoloured p" "ubalanced (bheight t) p"
  shows "\<exists>h' t'. rebalance_insert tree (addr t) h = Some h' \<and> rep h' tree t' \<and> redblack t' \<and> inorder t' = inorder (plug t p) \<and>
     outside (nodes (plug t p)) tree h h'"
proof -
  have ne: "t \<noteq> Tip" using assms(2) by auto
  obtain h1 where h1: "insert_loop tree (addr t) h = Some h1" "rep h1 tree (ins_fix t p)" "outside (nodes (plug t p)) tree h h1"
    using insert_loop_ok [OF assms(1) ne assms(3)] by blast
  note F = ins_fix_invariants [OF I assms(2)]
  have nd: "nodes (ins_fix t p) = nodes (plug t p)" using ins_fix_inorder [OF ne, of p] set_inorder by metis
  have r: "rb_root h1 tree = addr (ins_fix t p)" using rep_unique [OF h1(2)] F by auto
  have "rep h1 tree (plug (ins_fix t p) [])" using h1(2) by simp
  from paint_tree [OF this _ refl, of RB_BLACK] F obtain h' where "paint_node (addr (ins_fix t p)) RB_BLACK h1 = Some h'"
    "rep h' tree (paint RB_BLACK (ins_fix t p))" "outside (nodes (plug t p)) tree h1 h'"
    using nd by auto
  moreover have "redblack (paint RB_BLACK (ins_fix t p))" using F by (simp add: redblack_def paint_black)
  ultimately show ?thesis
    using h1 r ins_fix_inorder [OF ne, of p] outside_trans [OF h1(3)] by (auto simp: rebalance_insert_def)
qed

text \<open>The link of an empty place in the tree.\<close>

definition clink_at :: "u32 \<Rightarrow> up list \<Rightarrow> clink" where
  "clink_at tree p = (case p of [] \<Rightarrow> Root_of tree | Up d c a s # _ \<Rightarrow> if d then Left_of a else Right_of a)"

lemma last_black: "ucoloured p \<Longrightarrow> \<forall>d c a s q. p = q @ [Up d c a s] \<longrightarrow> c = RB_BLACK"
proof (induction p)
  case (Cons f p)
  obtain d c a s where f: "f = Up d c a s" by (cases f)
  show ?case
  proof (cases "p = []")
    case True
    then show ?thesis using Cons f by (cases c) auto
  next
    case False
    then show ?thesis using Cons f by (auto simp: Cons_eq_append_conv)
  qed
qed simp

lemma insert_ok:
  assumes "rep h tree (plug Tip p)" and "redblack (plug Tip p)" and "node \<noteq> NULL" and "node \<notin> unodes p" and "tree \<noteq> NULL"
  shows "\<exists>h' t'. rbtree_insert tree node (above p) (clink_at tree p) h = Some h' \<and> rep h' tree t' \<and> redblack t' \<and>
     inorder t' = inorder (plug (Bin RB_RED Tip node Tip) p) \<and> outside (insert node (unodes p)) tree h h'"
proof -
  let ?t = "Bin RB_RED Tip node Tip"
  let ?h4 = "upd node (rb_parent_update (\<lambda>_. above p)) (upd node (rb_right_update (\<lambda>_. NULL)) (upd node (rb_left_update (\<lambda>_. NULL))
    (upd node (rb_color_update (\<lambda>_. RB_RED)) h)))"
  define h5 where "h5 = relink p tree node ?h4"
  have H: "spine h tree NULL p" "usep p" using assms(1) unfolding rep_plug by auto
  have "set_clink (clink_at tree p) node ?h4 = Some h5"
    using H(1) by (cases p) (auto simp: set_clink_def clink_at_def h5_def relink_def set_kid_fun split: up.splits)
  then have run: "rbtree_insert tree node (above p) (clink_at tree p) h = rebalance_insert tree node h5"
    using assms(3,5) by (auto simp: rbtree_insert_def do_rbtree_insert_def clink_at_def split: list.splits up.splits)
  have "spine h5 tree node p" unfolding h5_def by (rule relink_spine [of _ _ NULL]) (use H assms(4) in auto)
  moreover have "shape h5 (above p) ?t" using assms(3,4) by (simp add: h5_def relink_node)
  ultimately have "rep h5 tree (plug ?t p)" unfolding rep_plug using H(2) assms(4) by simp
  moreover have "ucoloured p" "ubalanced 0 p" using assms(2) by (simp_all add: redblack_plug)
  ultimately obtain h' t' where R: "rebalance_insert tree node h5 = Some h'" "rep h' tree t'" "redblack t'"
    "inorder t' = inorder (plug ?t p)" "outside (insert node (unodes p)) tree h5 h'"
    using rebalance_insert_ok [of h5 tree ?t p] last_black [of p] by (auto simp: nodes_plug)
  have "outside (insert node (unodes p)) tree h h5" unfolding h5_def
    by (intro relink_outside outside_upd outside_refl) auto
  then show ?thesis using R run outside_trans by (metis (no_types))
qed

end
