(* ===== verification/Rbtree_Delete.thy ===== *)
theory Rbtree_Delete
  imports Rbtree_Insert
begin

text \<open>
  Rebalancing after a deletion: the loop of \<^verbatim>\<open>__rbtree_rebalance_delete\<close> computes the function \<open>del_fix\<close> on zippers, and \<open>del_fix\<close>
  restores the invariants of a tree one of whose subtrees misses a black node.
\<close>

section \<open>Rebalancing after a deletion\<close>

text \<open>The last rotations around the parent \<open>a\<close>, with the short subtree \<open>t\<close> on side \<open>d\<close> and the sibling \<open>sib\<close>.\<close>

definition del_rotated :: "bool \<Rightarrow> rbcolor \<Rightarrow> rbt \<Rightarrow> u32 \<Rightarrow> rbt \<Rightarrow> rbt" where
  "del_rotated d c t a sib = (let x = sub d sib; y = sub (\<not> d) sib in
     if tcol y = RB_BLACK
     then bin d c (bin d RB_BLACK t a (sub d x)) (addr x) (bin d RB_BLACK (sub (\<not> d) x) (addr sib) y)
     else bin d c (bin d RB_BLACK t a x) (addr sib) (paint RB_BLACK y))"

definition black_kids :: "rbt \<Rightarrow> bool" where
  "black_kids t \<longleftrightarrow> tcol (sub True t) = RB_BLACK \<and> tcol (sub False t) = RB_BLACK"

lemma black_kids_bin [simp]: "black_kids (bin d c x a y) \<longleftrightarrow> tcol x = RB_BLACK \<and> tcol y = RB_BLACK"
  by (auto simp: black_kids_def bin_def sub_def)

text \<open>What \<^verbatim>\<open>__rbtree_rebalance_delete\<close> does to a tree whose subtree \<open>t\<close> has lost a black node.\<close>

fun del_fix :: "rbt \<Rightarrow> up list \<Rightarrow> rbt" where
  "del_fix t [] = paint RB_BLACK t"
| "del_fix t (Up d c a sib # p) =
     (if tcol t = RB_RED then plug (paint RB_BLACK t) (Up d c a sib # p)
      else if tcol sib = RB_RED then
        (let x = sub d sib; q = Up d RB_BLACK (addr sib) (sub (\<not> d) sib) # p
         in if black_kids x then plug (bin d RB_BLACK t a (paint RB_RED x)) q
            else paint RB_BLACK (plug (del_rotated d RB_RED t a x) q))
      else if black_kids sib then del_fix (bin d c t a (paint RB_RED sib)) p
      else paint RB_BLACK (plug (del_rotated d c t a sib) p))"

lemma nephews_kid:
  "delete_nephews tree parent d sibling h = do {
     s \<leftarrow> rd sibling h;
     if rbtree_is_black (kid d s) h \<and> rbtree_is_black (kid (\<not> d) s) h then do {
       h1 \<leftarrow> paint_node sibling RB_RED h;
       n \<leftarrow> rd parent h1;
       Some (True, rb_parent n, parent, h1)
     } else do {
       (inner', sibling', h3) \<leftarrow>
         (if rbtree_is_black (kid (\<not> d) s) h then do {
            kassert (rbtree_is_red (kid d s) h);
            h1 \<leftarrow> rotate tree sibling (\<not> d) h;
            h2 \<leftarrow> paint_node (kid d s) RB_BLACK h1;
            h3 \<leftarrow> paint_node sibling RB_RED h2;
            Some (sibling, kid d s, h3)
          } else Some (kid (\<not> d) s, sibling, h));
       kassert (rbtree_is_red inner' h3);
       h4 \<leftarrow> rotate tree parent d h3;
       p \<leftarrow> rd parent h4;
       h5 \<leftarrow> paint_node sibling' (rb_color p) h4;
       h6 \<leftarrow> paint_node parent RB_BLACK h5;
       h7 \<leftarrow> paint_node inner' RB_BLACK h6;
       Some (False, parent, rb_root h7 tree, h7)
     }
   }"
  by (cases d) (simp_all add: delete_nephews_def Let_def conj_commute cong: if_cong)

lemma nephews_black:
  assumes "rep h tree (plug (bin d c t a (bin d cs x s y)) p)" and "tcol x = RB_BLACK" "tcol y = RB_BLACK"
    and S: "S = nodes (plug (bin d c t a (bin d cs x s y)) p)"
  shows "\<exists>h'. delete_nephews tree a d s h = Some (True, above p, a, h') \<and> rep h' tree (plug (bin d c t a (bin d RB_RED x s y)) p) \<and> outside S tree h h'"
proof -
  have H: "s \<noteq> NULL" "is_bin (rb_node h s) d cs (addr x) (addr y) a" "shape h s x" "shape h s y"
    using assms(1) unfolding rep_plug by auto
  have "rep h tree (plug (bin d cs x s y) (Up (\<not> d) c a t # p))" using assms(1) by (simp add: bin_flip)
  from paint_tree [OF this _ refl, of RB_RED] obtain h1 where h1: "paint_node s RB_RED h = Some h1"
    "rep h1 tree (plug (bin d c t a (bin d RB_RED x s y)) p)" "outside S tree h h1"
    by (auto simp: bin_flip S nodes_plug Un_ac insert_commute)
  have "a \<noteq> NULL" "rb_parent (rb_node h1 a) = above p" using h1(2) unfolding rep_plug by (auto simp: is_bin_def)
  then show ?thesis
    using H h1 assms(2,3) is_black_shape [OF H(3)] is_black_shape [OF H(4)] by (simp add: nephews_kid is_bin_def)
qed

text \<open>The last rotation, with a red nephew on the far side.\<close>

lemma nephew_far:
  assumes "rep h tree (plug (bin d c t a (bin d cs x s y)) p)" and "tcol y = RB_RED"
    and S: "S = nodes (plug (bin d c t a (bin d cs x s y)) p)"
  shows "\<exists>h4 h5 h6 h7. rbtree_is_red (addr y) h \<and> rotate tree a d h = Some h4 \<and> a \<noteq> NULL \<and> paint_node s (rb_color (rb_node h4 a)) h4 = Some h5 \<and>
     paint_node a RB_BLACK h5 = Some h6 \<and> paint_node (addr y) RB_BLACK h6 = Some h7 \<and>
     rep h7 tree (plug (bin d c (bin d RB_BLACK t a x) s (paint RB_BLACK y)) p) \<and> outside S tree h h7"
proof -
  have "shape h s y" using assms(1) unfolding rep_plug by auto
  then have r: "rbtree_is_red (addr y) h" using is_red_shape assms(2) by blast
  have y: "y \<noteq> Tip" using assms(2) by auto
  from rotate_ok [OF assms(1) refl] obtain h4 where h4: "rotate tree a d h = Some h4"
    "rep h4 tree (plug (bin d cs (bin d c t a x) s y) p)" "outside S tree h h4" using S by auto
  have ca: "rb_color (rb_node h4 a) = c" "a \<noteq> NULL" using h4(2) unfolding rep_plug by (auto simp: is_bin_def)
  from paint_tree [OF h4(2) _ refl, of c] obtain h5 where h5: "paint_node s c h4 = Some h5"
    "rep h5 tree (plug (bin d c (bin d c t a x) s y) p)" "outside S tree h4 h5"
    by (auto simp: S nodes_plug Un_ac insert_commute)
  from h5(2) have "rep h5 tree (plug (bin d c t a x) (Up d c s y # p))" by simp
  from paint_tree [OF this _ refl, of RB_BLACK] obtain h6 where h6: "paint_node a RB_BLACK h5 = Some h6"
    "rep h6 tree (plug (bin d c (bin d RB_BLACK t a x) s y) p)" "outside S tree h5 h6"
    by (auto simp: S nodes_plug Un_ac insert_commute)
  from h6(2) have "rep h6 tree (plug y (Up (\<not> d) c s (bin d RB_BLACK t a x) # p))" by (simp add: bin_flip)
  from paint_tree [OF this y refl, of RB_BLACK] obtain h7 where h7: "paint_node (addr y) RB_BLACK h6 = Some h7"
    "rep h7 tree (plug (bin d c (bin d RB_BLACK t a x) s (paint RB_BLACK y)) p)" "outside S tree h6 h7"
    by (auto simp: bin_flip S nodes_plug Un_ac insert_commute)
  have "outside S tree h h7" using h4(3) h5(3) h6(3) h7(3) outside_trans by blast
  with r h4 h5 h6 h7 ca show ?thesis by auto
qed

lemma nephews_red:
  assumes "rep h tree (plug (bin d c t a (bin d cs x s y)) p)" and "\<not> (tcol x = RB_BLACK \<and> tcol y = RB_BLACK)"
    and S: "S = nodes (plug (bin d c t a (bin d cs x s y)) p)"
  shows "\<exists>h'. delete_nephews tree a d s h = Some (False, a, rb_root h' tree, h') \<and>
     rep h' tree (plug (del_rotated d c t a (bin d cs x s y)) p) \<and> outside S tree h h'"
proof -
  have H: "s \<noteq> NULL" "is_bin (rb_node h s) d cs (addr x) (addr y) a" "shape h s x" "shape h s y"
    using assms(1) unfolding rep_plug by auto
  note B = is_black_shape [OF H(3)] is_black_shape [OF H(4)] is_red_shape [OF H(3)] is_red_shape [OF H(4)]
  have K: "kid d (rb_node h s) = addr x" "kid (\<not> d) (rb_node h s) = addr y" using H(2) by (auto simp: is_bin_def)
  show ?thesis
  proof (cases "tcol y = RB_RED")
    case True
    from nephew_far [OF assms(1) True S] obtain h4 h5 h6 h7 where "rbtree_is_red (addr y) h" "rotate tree a d h = Some h4" "a \<noteq> NULL"
      "paint_node s (rb_color (rb_node h4 a)) h4 = Some h5"
      "paint_node a RB_BLACK h5 = Some h6" "paint_node (addr y) RB_BLACK h6 = Some h7"
      "rep h7 tree (plug (bin d c (bin d RB_BLACK t a x) s (paint RB_BLACK y)) p)" "outside S tree h h7" by blast
    then show ?thesis using H(1) K B True by (simp add: nephews_kid del_rotated_def)
  next
    case False
    then have col: "tcol y = RB_BLACK" "tcol x = RB_RED" using assms(2) by (auto simp: color_cases)
    then have "x \<noteq> Tip" by auto
    then obtain cx x1 n x2 where "x = bin d cx x1 n x2" using bin_cases by metis
    with col have x: "x = bin d RB_RED x1 n x2" by simp
    have "rep h tree (plug (bin (\<not> d) cs y s (bin (\<not> d) RB_RED x2 n x1)) (Up (\<not> d) c a t # p))"
      using assms(1) x by (simp add: bin_flip)
    from rotate_ok [OF this refl] obtain h1 where h1: "rotate tree s (\<not> d) h = Some h1"
      "rep h1 tree (plug (bin d RB_RED x1 n (bin d cs x2 s y)) (Up (\<not> d) c a t # p))" "outside S tree h h1"
      by (auto simp: bin_flip S x nodes_plug Un_ac insert_commute)
    from paint_tree [OF h1(2) _ refl, of RB_BLACK] obtain h2 where h2: "paint_node n RB_BLACK h1 = Some h2"
      "rep h2 tree (plug (bin d RB_BLACK x1 n (bin d cs x2 s y)) (Up (\<not> d) c a t # p))" "outside S tree h1 h2"
      by (auto simp: S x nodes_plug Un_ac insert_commute)
    from h2(2) have "rep h2 tree (plug (bin d cs x2 s y) (Up (\<not> d) RB_BLACK n x1 # Up (\<not> d) c a t # p))" by (simp add: bin_flip)
    from paint_tree [OF this _ refl, of RB_RED] obtain h3 where h3: "paint_node s RB_RED h2 = Some h3"
      "rep h3 tree (plug (bin d c t a (bin d RB_BLACK x1 n (bin d RB_RED x2 s y))) p)" "outside S tree h2 h3"
      by (auto simp: bin_flip S x nodes_plug Un_ac insert_commute)
    from nephew_far [OF h3(2) _ refl] obtain h4 h5 h6 h7 where "rbtree_is_red s h3" "rotate tree a d h3 = Some h4" "a \<noteq> NULL"
      "paint_node n (rb_color (rb_node h4 a)) h4 = Some h5"
      "paint_node a RB_BLACK h5 = Some h6" "paint_node s RB_BLACK h6 = Some h7"
      "rep h7 tree (plug (bin d c (bin d RB_BLACK t a x1) n (bin d RB_BLACK x2 s y)) p)" "outside S tree h3 h7"
      by (auto simp: S x nodes_plug Un_ac insert_commute)
    moreover from this(8) have "outside S tree h h7" using h1(3) h2(3) h3(3) outside_trans by blast
    ultimately show ?thesis using H(1) K B col x h1 h2 h3 by (auto simp: nephews_kid del_rotated_def)
  qed
qed


text \<open>The preconditions of the loop: the subtree \<open>t\<close> misses one black node, everything else is as it should be.\<close>

definition short_by_one :: "rbt \<Rightarrow> up list \<Rightarrow> bool" where
  "short_by_one t p \<longleftrightarrow> coloured (paint RB_BLACK t) \<and> balanced t \<and> ucoloured p \<and> ubalanced (Suc (bheight t)) p"

lemma short_sibling:
  assumes "short_by_one t (Up d c a sib # p)"
  obtains cs x s y where "sib = bin d cs x s y" and "bheight sib = Suc (bheight t)" and "balanced sib" and "coloured sib"
    and "cs = RB_RED \<longrightarrow> c = RB_BLACK \<and> tcol x = RB_BLACK \<and> tcol y = RB_BLACK \<and> bheight x = Suc (bheight t) \<and> bheight y = Suc (bheight t) \<and> x \<noteq> Tip"
proof -
  have A: "bheight sib = Suc (bheight t)" "balanced sib" "coloured sib" "c = RB_RED \<longrightarrow> tcol sib = RB_BLACK"
    using assms by (auto simp: short_by_one_def)
  then have "sib \<noteq> Tip" by auto
  then obtain cs x s y where "sib = bin d cs x s y" using bin_cases by metis
  with A show thesis by (intro that [of cs x s y]) (auto simp: color_cases)
qed

lemma root_neq:
  assumes "rep h tree (plug t (Up d c a sib # p))"
  shows "addr t \<noteq> rb_root h tree"
proof -
  have S: "spine h tree (addr t) (Up d c a sib # p)" "nodes t \<inter> unodes (Up d c a sib # p) = {}" "shape h a t"
    using assms unfolding rep_plug by auto
  have "rb_root h tree = addr (plug t (Up d c a sib # p))" using assms by (simp add: rep_def)
  moreover have "addr (plug t (f # p)) \<in> unodes (f # p)" for f p
    by (induction p arbitrary: t f) (auto split: up.splits)
  ultimately have "rb_root h tree \<in> unodes (Up d c a sib # p)" by metis
  then show ?thesis using S addr_nodes [of t] spine_NULL [OF S(1)] by (cases "t = Tip") auto
qed

text \<open>One pass of the loop with a black sibling, and with a red one.\<close>

lemma body_black:
  assumes "rep h tree (plug t (Up d c a (bin d RB_BLACK x s y) # p))"
  shows "delete_body tree a (addr t) h = delete_nephews tree a d s h"
proof -
  have H: "a \<noteq> NULL" "is_bin (rb_node h a) d c (addr t) s (above p)" "shape h a (bin d RB_BLACK x s y)" "nodes t \<inter> nodes (bin d RB_BLACK x s y) = {}" "shape h a t"
    using assms unfolding rep_plug by auto
  have "addr t \<noteq> s" using addr_neq [of "bin d RB_BLACK x s y" t, OF _ _ H(3)] H(4) by auto
  note S = side(3) [OF H(2) this]
  have "(if d then rb_right (rb_node h a) else rb_left (rb_node h a)) = s" using H(2) by (cases d) (auto simp: is_bin_def)
  then show ?thesis using H(1) is_red_shape [OF H(3)] unfolding delete_body_def by (simp add: S Let_def)
qed

lemma body_red:
  assumes "rep h tree (plug t (Up d c a (bin d RB_RED x s y) # p))" and "c = RB_BLACK"
    and S: "S = nodes (plug t (Up d c a (bin d RB_RED x s y) # p))"
  shows "\<exists>h3. delete_body tree a (addr t) h = delete_nephews tree a d (addr x) h3 \<and>
     rep h3 tree (plug (bin d RB_RED t a x) (Up d RB_BLACK s y # p)) \<and> outside S tree h h3"
proof -
  have H: "a \<noteq> NULL" "is_bin (rb_node h a) d c (addr t) s (above p)" "shape h a (bin d RB_RED x s y)" "nodes t \<inter> nodes (bin d RB_RED x s y) = {}" "shape h a t"
    using assms(1) unfolding rep_plug by auto
  have "addr t \<noteq> s" using addr_neq [of "bin d RB_RED x s y" t, OF _ _ H(3)] H(4) by auto
  note D = side(3) [OF H(2) this]
  have k0: "(if d then rb_right (rb_node h a) else rb_left (rb_node h a)) = s" using H(2) by (cases d) (auto simp: is_bin_def)
  have "rep h tree (plug (bin d c t a (bin d RB_RED x s y)) p)" using assms(1) by simp
  from rotate_ok [OF this refl] obtain h1 where h1: "rotate tree a d h = Some h1"
    "rep h1 tree (plug (bin d c t a x) (Up d RB_RED s y # p))" "outside S tree h h1"
    by (auto simp: S nodes_plug Un_ac insert_commute)
  from paint_tree [OF h1(2) _ refl, of RB_RED] obtain h2 where h2: "paint_node a RB_RED h1 = Some h2"
    "rep h2 tree (plug (bin d RB_RED (bin d RB_RED t a x) s y) p)" "outside S tree h1 h2"
    by (auto simp: S nodes_plug Un_ac insert_commute)
  from paint_tree [OF h2(2) _ refl, of RB_BLACK] obtain h3 where h3: "paint_node s RB_BLACK h2 = Some h3"
    "rep h3 tree (plug (bin d RB_RED t a x) (Up d RB_BLACK s y # p))" "outside S tree h2 h3"
    by (auto simp: S nodes_plug Un_ac insert_commute)
  have "is_bin (rb_node h3 a) d RB_RED (addr t) (addr x) s" using h3(2) unfolding rep_plug by auto
  then have k: "(if d then rb_right (rb_node h3 a) else rb_left (rb_node h3 a)) = addr x" by (auto simp: is_bin_def kid_def split: if_splits)
  have "delete_body tree a (addr t) h = delete_nephews tree a d (addr x) h3"
    using H(1) h1 h2 h3 is_red_shape [OF H(3)] unfolding delete_body_def by (simp add: D Let_def k k0)
  then show ?thesis using h3 h1(3) h2(3) outside_trans by metis
qed

lemma root_paint:
  assumes "rep h tree T" and "T \<noteq> Tip" and "S = nodes T"
  shows "\<exists>h'. paint_node (rb_root h tree) RB_BLACK h = Some h' \<and> rep h' tree (paint RB_BLACK T) \<and> outside S tree h h' \<and> rb_root h tree \<noteq> NULL"
  using paint_tree [of h tree T "[]" S RB_BLACK] assms rep_unique [OF assms(1,2)] by simp

lemma rebalance_delete_simps:
  assumes "rep h tree (plug t p)"
  shows "tcol t = RB_RED \<or> p = [] \<Longrightarrow> rebalance_delete tree q (addr t) h = (if addr t = NULL then Some h else paint_node (addr t) RB_BLACK h)"
    and "tcol t = RB_BLACK \<Longrightarrow> p = Up d c a s # r \<Longrightarrow> delete_body tree q (addr t) h = Some (True, q', x, h1) \<Longrightarrow>
      rebalance_delete tree q (addr t) h = rebalance_delete tree q' x h1"
    and "tcol t = RB_BLACK \<Longrightarrow> p = Up d c a s # r \<Longrightarrow> delete_body tree q (addr t) h = Some (False, q', x, h1) \<Longrightarrow>
      rebalance_delete tree q (addr t) h = (if x = NULL then Some h1 else paint_node x RB_BLACK h1)"
proof -
  have B: "rbtree_is_black (addr t) h \<longleftrightarrow> tcol t = RB_BLACK" using assms is_black_shape unfolding rep_plug by blast
  have R: "p = [] \<Longrightarrow> rb_root h tree = addr t" using assms by (simp add: rep_def)
  show "tcol t = RB_RED \<or> p = [] \<Longrightarrow> rebalance_delete tree q (addr t) h = (if addr t = NULL then Some h else paint_node (addr t) RB_BLACK h)"
    unfolding rebalance_delete_def by (subst delete_loop.simps) (auto simp: B R)
  show "tcol t = RB_BLACK \<Longrightarrow> p = Up d c a s # r \<Longrightarrow> delete_body tree q (addr t) h = Some (True, q', x, h1) \<Longrightarrow>
      rebalance_delete tree q (addr t) h = rebalance_delete tree q' x h1"
    using assms root_neq unfolding rebalance_delete_def by (subst delete_loop.simps) (auto simp: B)
  show "tcol t = RB_BLACK \<Longrightarrow> p = Up d c a s # r \<Longrightarrow> delete_body tree q (addr t) h = Some (False, q', x, h1) \<Longrightarrow>
      rebalance_delete tree q (addr t) h = (if x = NULL then Some h1 else paint_node x RB_BLACK h1)"
    using assms root_neq unfolding rebalance_delete_def by (subst delete_loop.simps) (auto simp: B)
qed



lemma paint_red_coloured: "coloured t \<Longrightarrow> black_kids t \<Longrightarrow> coloured (paint RB_RED t)"
  by (cases t) (auto simp: black_kids_def sub_def)

lemma paint_black_id: "tcol t = RB_BLACK \<Longrightarrow> paint RB_BLACK t = t"
  by (cases t) auto

lemma del_rotated_inorder:
  assumes "\<not> black_kids sib"
  shows "inorder (del_rotated d c t a sib) = inorder (bin d c t a sib)"
proof -
  have ne: "sib \<noteq> Tip" using assms by (auto simp: black_kids_def sub_def)
  then obtain cs x s y where sib: "sib = bin d cs x s y" using bin_cases by metis
  show ?thesis
  proof (cases "tcol y = RB_BLACK")
    case True
    then have "x \<noteq> Tip" using assms sib by auto
    then obtain cx x1 n x2 where "x = bin d cx x1 n x2" using bin_cases by metis
    then show ?thesis using True sib by (simp add: del_rotated_def inorder_bin)
  next
    case False
    then show ?thesis using sib by (simp add: del_rotated_def inorder_bin)
  qed
qed

lemma del_rotated_nodes: "\<not> black_kids sib \<Longrightarrow> nodes (del_rotated d c t a sib) = insert a (nodes t \<union> nodes sib)"
  using del_rotated_inorder [of sib d c t a] set_inorder [of "del_rotated d c t a sib"] set_inorder [of "bin d c t a sib"] by simp

lemma del_fix_ok:
  assumes "rep h tree (plug t p)" and "short_by_one t p"
  shows "\<exists>h'. rebalance_delete tree (above p) (addr t) h = Some h' \<and> rep h' tree (del_fix t p) \<and> outside (nodes (plug t p)) tree h h'"
  using assms
proof (induction t p arbitrary: h rule: del_fix.induct)
  case (1 t)
  then have "rebalance_delete tree (above []) (addr t) h = (if addr t = NULL then Some h else paint_node (addr t) RB_BLACK h)"
    by (intro rebalance_delete_simps) auto
  then show ?case using "1.prems"(1) root_paint [of h tree t] by (cases "t = Tip") (auto simp: rep_def addr_NULL)
next
  case (2 t d c a sib p)
  let ?p = "Up d c a sib # p" and ?S = "nodes (plug t (Up d c a sib # p))"
  obtain cs x s y where sib: "sib = bin d cs x s y" "bheight sib = Suc (bheight t)" "balanced sib" "coloured sib"
    "cs = RB_RED \<longrightarrow> c = RB_BLACK \<and> tcol x = RB_BLACK \<and> tcol y = RB_BLACK \<and> bheight x = Suc (bheight t) \<and> bheight y = Suc (bheight t) \<and> x \<noteq> Tip"
    by (rule short_sibling [OF "2.prems"(2)])
  note I = "2.prems"(2) [unfolded short_by_one_def, simplified]
  note R = "2.prems"(1)
  show ?case
  proof (cases "tcol t = RB_RED")
    case True
    then have t: "t \<noteq> Tip" by auto
    have "addr t \<noteq> NULL" using R t addr_NULL unfolding rep_plug by blast
    then have "rebalance_delete tree (above ?p) (addr t) h = paint_node (addr t) RB_BLACK h"
      using rebalance_delete_simps(1) [OF R] True by simp
    then show ?thesis using paint_tree [OF R t refl, of RB_BLACK] True by (auto simp: nodes_plug Un_ac)
  next
    case False
    then have t: "tcol t = RB_BLACK" by (simp add: color_cases)
    have root: ?thesis
      if B: "delete_body tree a (addr t) h = Some (False, q', rb_root h1 tree, h1)" and RT: "rep h1 tree T" "outside ?S tree h h1"
        "nodes T = ?S" "del_fix t ?p = paint RB_BLACK T" for q' h1 T
    proof -
      have "T \<noteq> Tip" using RT(3) by (auto simp: nodes_plug)
      from root_paint [OF RT(1) this refl] obtain h' where "paint_node (rb_root h1 tree) RB_BLACK h1 = Some h'"
        "rep h' tree (paint RB_BLACK T)" "outside ?S tree h1 h'" "rb_root h1 tree \<noteq> NULL" using RT(3) by auto
      then show ?thesis
        using rebalance_delete_simps(3) [OF R t refl B] RT(2,4) outside_trans by auto
    qed
    show ?thesis
    proof (cases cs)
      case RB_RED
      note red = mp [OF sib(5) this]
      then obtain cx x1 n x2 where x: "x = bin d cx x1 n x2" using bin_cases by metis
      let ?q = "Up d RB_BLACK s y # p"
      from body_red [OF R [unfolded sib(1) RB_RED] _ refl] red obtain h3 where
        h3: "delete_body tree a (addr t) h = delete_nephews tree a d n h3" "rep h3 tree (plug (bin d RB_RED t a (bin d cx x1 n x2)) ?q)"
          "outside ?S tree h h3" using x sib(1) RB_RED by auto
      have S: "nodes (plug (bin d RB_RED t a (bin d cx x1 n x2)) ?q) = ?S" using x sib(1) by (auto simp: nodes_plug)
      show ?thesis
      proof (cases "black_kids x")
        case True
        then have "tcol x1 = RB_BLACK" "tcol x2 = RB_BLACK" using x by simp_all
        from nephews_black [OF h3(2) this S [symmetric]] obtain h4 where h4: "delete_nephews tree a d n h3 = Some (True, s, a, h4)"
          "rep h4 tree (plug (bin d RB_RED t a (paint RB_RED x)) ?q)" "outside ?S tree h3 h4" using x by auto
        from paint_tree [OF h4(2) _ refl, of RB_BLACK] obtain h' where h': "paint_node a RB_BLACK h4 = Some h'"
          "rep h' tree (plug (bin d RB_BLACK t a (paint RB_RED x)) ?q)" "outside ?S tree h4 h'"
          using x sib(1) by (auto simp: nodes_plug Un_ac insert_commute)
        have "a \<noteq> NULL" using h4(2) unfolding rep_plug by simp
        then have "rebalance_delete tree s a h4 = Some h'" using rebalance_delete_simps(1) [OF h4(2), of s] h'(1) by simp
        then have "rebalance_delete tree a (addr t) h = Some h'"
          using rebalance_delete_simps(2) [OF R t refl h3(1) [unfolded h4(1)]] by simp
        moreover have "outside ?S tree h h'" using h3(3) h4(3) h'(3) outside_trans by blast
        ultimately show ?thesis using h'(2) t True sib(1) RB_RED x by (simp add: Let_def)
      next
        case False
        then have "\<not> (tcol x1 = RB_BLACK \<and> tcol x2 = RB_BLACK)" using x by simp
        from nephews_red [OF h3(2) this S [symmetric]] obtain h4 where h4: "delete_nephews tree a d n h3 = Some (False, a, rb_root h4 tree, h4)"
          "rep h4 tree (plug (del_rotated d RB_RED t a x) ?q)" "outside ?S tree h3 h4" using x by auto
        show ?thesis
          by (rule root [of a h4 "plug (del_rotated d RB_RED t a x) ?q"])
            (use h3 h4 outside_trans [OF h3(3) h4(3)] t False sib(1) RB_RED x S del_rotated_nodes in \<open>auto simp: Let_def nodes_plug\<close>)
      qed
    next
      case RB_BLACK
      note B = body_black [OF R [unfolded sib(1) RB_BLACK]]
      have R': "rep h tree (plug (bin d c t a (bin d RB_BLACK x s y)) p)" using R sib(1) RB_BLACK by simp
      have S: "nodes (plug (bin d c t a (bin d RB_BLACK x s y)) p) = ?S" using sib(1) RB_BLACK by simp
      show ?thesis
      proof (cases "black_kids sib")
        case True
        then have "tcol x = RB_BLACK" "tcol y = RB_BLACK" using sib(1) by simp_all
        from nephews_black [OF R' this S [symmetric]] obtain h4 where h4: "delete_nephews tree a d s h = Some (True, above p, a, h4)"
          "rep h4 tree (plug (bin d c t a (paint RB_RED sib)) p)" "outside ?S tree h h4" using sib(1) by auto
        have sh: "short_by_one (bin d c t a (paint RB_RED sib)) p"
          using I sib RB_BLACK t \<open>tcol x = RB_BLACK\<close> \<open>tcol y = RB_BLACK\<close> by (auto simp: short_by_one_def paint_black_id)
        have "\<exists>h'. rebalance_delete tree (above p) a h4 = Some h' \<and> rep h' tree (del_fix (bin d c t a (paint RB_RED sib)) p) \<and> outside ?S tree h4 h'"
          using "2.IH" [OF False _ True h4(2) sh] sib(1) RB_BLACK S by (auto simp: nodes_plug)
        then show ?thesis
          using rebalance_delete_simps(2) [OF R t refl B [unfolded h4(1)]] t True sib(1) RB_BLACK outside_trans [OF h4(3)] by auto
      next
        case False
        then have "\<not> (tcol x = RB_BLACK \<and> tcol y = RB_BLACK)" using sib(1) by simp
        from nephews_red [OF R' this S [symmetric]] obtain h4 where h4: "delete_nephews tree a d s h = Some (False, a, rb_root h4 tree, h4)"
          "rep h4 tree (plug (del_rotated d c t a sib) p)" "outside ?S tree h h4" using sib(1) RB_BLACK by auto
        show ?thesis
          by (rule root [of a h4 "plug (del_rotated d c t a sib) p"])
            (use B h4 t False sib(1) RB_BLACK S del_rotated_nodes in \<open>auto simp: nodes_plug\<close>)
      qed
    qed
  qed
qed


lemma del_rotated_invariants:
  assumes "\<not> black_kids sib" and "coloured t" "balanced t" "coloured sib" "balanced sib" "tcol t = RB_BLACK" "tcol sib = RB_BLACK"
    and "bheight sib = Suc (bheight t)"
  shows "coloured (del_rotated d c t a sib) \<and> balanced (del_rotated d c t a sib) \<and>
     bheight (del_rotated d c t a sib) = Suc (bheight t) + (if c = RB_BLACK then 1 else 0) \<and> tcol (del_rotated d c t a sib) = c"
proof -
  have ne: "sib \<noteq> Tip" using assms(1) by (auto simp: black_kids_def sub_def)
  then obtain cs x s y where "sib = bin d cs x s y" using bin_cases by metis
  then have sib: "sib = bin d RB_BLACK x s y" using assms(7) by simp
  have b: "bheight x = bheight t" "bheight y = bheight t" "balanced x" "balanced y" "coloured x" "coloured y"
    using assms(4,5,8) by (auto simp: sib)
  show ?thesis
  proof (cases "tcol y = RB_BLACK")
    case True
    then have "x \<noteq> Tip" "tcol x = RB_RED" using assms(1) sib by (auto simp: color_cases)
    then obtain x1 n x2 where "x = bin d RB_RED x1 n x2" using bin_cases bin_color(1) by metis
    then show ?thesis using True sib assms(2,3) b by (auto simp: del_rotated_def)
  next
    case False
    then show ?thesis using sib assms(2,3) b by (auto simp: del_rotated_def color_cases paint_black)
  qed
qed

lemma redblack_paint_plug:
  assumes "coloured T" "balanced T" "ucoloured p" "ubalanced (bheight T) p" "tcol T = RB_RED \<longrightarrow> ucol p = RB_BLACK"
  shows "redblack (paint RB_BLACK (plug T p))"
  using assms redblack_plug [of T p] by (simp add: redblack_def paint_black_id)

lemma del_fix_invariants: "short_by_one t p \<Longrightarrow> redblack (del_fix t p)"
proof (induction t p rule: del_fix.induct)
  case (1 t)
  then show ?case by (simp add: short_by_one_def redblack_def paint_black)
next
  case (2 t d c a sib p)
  obtain cs x s y where sib: "sib = bin d cs x s y" "bheight sib = Suc (bheight t)" "balanced sib" "coloured sib"
    "cs = RB_RED \<longrightarrow> c = RB_BLACK \<and> tcol x = RB_BLACK \<and> tcol y = RB_BLACK \<and> bheight x = Suc (bheight t) \<and> bheight y = Suc (bheight t) \<and> x \<noteq> Tip"
    by (rule short_sibling [OF "2.prems"])
  note I = "2.prems" [unfolded short_by_one_def, simplified]
  show ?case
  proof (cases "tcol t = RB_RED")
    case True
    then have "redblack (plug (paint RB_BLACK t) (Up d c a sib # p))"
      unfolding redblack_plug using I by (auto simp: paint_black)
    then show ?thesis using True by simp
  next
    case False
    then have t: "tcol t = RB_BLACK" "coloured t" using I by (simp_all add: color_cases paint_black_id)
    show ?thesis
    proof (cases cs)
      case RB_RED
      note red = mp [OF sib(5) this]
      have x: "coloured x" "balanced x" "coloured y" "balanced y" using sib(1,3,4) by auto
      let ?q = "Up d RB_BLACK s y # p"
      have q: "ucoloured ?q" "ubalanced (Suc (bheight t)) ?q" using I x red by auto
      show ?thesis
      proof (cases "black_kids x")
        case True
        have "redblack (plug (bin d RB_BLACK t a (paint RB_RED x)) ?q)"
          unfolding redblack_plug using q t True red x I paint_red_coloured [OF x(1) True] paint_black(4) [of x]
          by (auto simp: paint_black(2))
        then show ?thesis using t True sib(1) RB_RED by (simp add: Let_def)
      next
        case False
        note D = del_rotated_invariants [OF False t(2) _ x(1,2) t(1), of d RB_RED a] 
        have "redblack (paint RB_BLACK (plug (del_rotated d RB_RED t a x) ?q))"
          by (rule redblack_paint_plug) (use D red q I in auto)
        then show ?thesis using t False sib(1) RB_RED by (simp add: Let_def)
      qed
    next
      case RB_BLACK
      then have sb: "tcol sib = RB_BLACK" "sib \<noteq> Tip" using sib(1) by auto
      show ?thesis
      proof (cases "black_kids sib")
        case True
        have "short_by_one (bin d c t a (paint RB_RED sib)) p"
          using I t sb paint_red_coloured [OF sib(4) True] paint_black(4) [OF sb] sib(2,3)
          by (auto simp: short_by_one_def paint_black(2))
        with "2.IH" [OF False _ True] t True sb show ?thesis by simp
      next
        case f: False
        note D = del_rotated_invariants [OF f t(2) _ sib(4,3) t(1) sb(1) sib(2), of d c a]
        have "redblack (paint RB_BLACK (plug (del_rotated d c t a sib) p))"
          by (rule redblack_paint_plug) (use D I in auto)
        then show ?thesis using t f sb by simp
      qed
    qed
  qed
qed

lemma del_fix_inorder: "short_by_one t p \<Longrightarrow> inorder (del_fix t p) = inorder (plug t p)"
proof (induction t p rule: del_fix.induct)
  case (2 t d c a sib p)
  obtain cs x s y where sib: "sib = bin d cs x s y" "bheight sib = Suc (bheight t)" "balanced sib" "coloured sib"
    "cs = RB_RED \<longrightarrow> c = RB_BLACK \<and> tcol x = RB_BLACK \<and> tcol y = RB_BLACK \<and> bheight x = Suc (bheight t) \<and> bheight y = Suc (bheight t) \<and> x \<noteq> Tip"
    by (rule short_sibling [OF "2.prems"])
  note I = "2.prems" [unfolded short_by_one_def, simplified]
  have eq: "inorder (plug X p) = inorder (plug t (Up d c a sib # p))" if "inorder X = inorder (bin d c t a sib)" for X
    using inorder_plug_cong [OF that] by simp
  show ?case
  proof (cases "tcol t = RB_RED")
    case True
    then show ?thesis using eq [of "bin d c (paint RB_BLACK t) a sib"] by (simp add: inorder_bin)
  next
    case False
    then have t: "tcol t = RB_BLACK" "coloured t" using I by (simp_all add: color_cases paint_black_id)
    show ?thesis
    proof (cases cs)
      case RB_RED
      have "inorder (plug (bin d RB_BLACK (bin d RB_BLACK t a (paint RB_RED x)) s y) p) = inorder (plug t (Up d c a sib # p))"
        by (rule eq) (simp add: sib(1) inorder_bin)
      moreover have "inorder (plug (bin d RB_BLACK (del_rotated d RB_RED t a x) s y) p) = inorder (plug t (Up d c a sib # p))" if "\<not> black_kids x"
        by (rule eq) (simp add: sib(1) inorder_bin del_rotated_inorder [OF that])
      ultimately show ?thesis using t sib(1) RB_RED by (auto simp: Let_def)
    next
      case RB_BLACK
      then have sb: "tcol sib = RB_BLACK" "sib \<noteq> Tip" using sib(1) by auto
      show ?thesis
      proof (cases "black_kids sib")
        case True
        have "short_by_one (bin d c t a (paint RB_RED sib)) p"
          using I t sb paint_red_coloured [OF sib(4) True] paint_black(4) [OF sb] sib(2,3)
          by (auto simp: short_by_one_def paint_black(2))
        with "2.IH" [OF False _ True] eq [of "bin d c t a (paint RB_RED sib)"] t True sb show ?thesis by (simp add: inorder_bin)
      next
        case False
        then show ?thesis using t sb eq [of "del_rotated d c t a sib"] by (simp add: del_rotated_inorder)
      qed
    qed
  qed
qed simp

end
