(* ===== verification/Rbtree_Properties.thy ===== *)
theory Rbtree_Properties
  imports Rbtree_Delete
begin

text \<open>
  Taking a node out of a tree, the walks and the search, the depth bound, and the properties of the public functions.
\<close>

section \<open>Taking a node out\<close>

text \<open>A node with at most one child is replaced by that child.\<close>

lemma unlink_ok:
  assumes "rep h tree (plug (Bin c l a r) p)" and "l = Tip \<and> ch = r \<or> r = Tip \<and> ch = l" and "S = nodes (plug (Bin c l a r) p)"
  shows "\<exists>h1. move_parent tree a (addr ch) h = Some (above p, h1) \<and> rep h1 tree (plug ch p) \<and> rb_node h1 a = rb_node h a \<and> outside S tree h h1"
proof -
  have H: "a \<noteq> NULL" "rb_parent (rb_node h a) = above p" "shape h a ch" "spine h tree a p" "sep ch" "usep p"
    "a \<notin> nodes ch" "a \<notin> unodes p" "nodes ch \<inter> unodes p = {}"
    using assms(1,2) unfolding rep_plug by auto
  have ch: "addr ch \<notin> unodes p" "addr ch \<noteq> a" "addr ch \<noteq> NULL \<longrightarrow> addr ch \<in> S"
    using H spine_NULL [OF H(4)] addr_nodes [of ch] assms(2,3) by (cases "ch = Tip"; auto simp: nodes_plug)+
  define h1 where "h1 = relink p tree (addr ch) (set_parent (addr ch) (above p) h)"
  have "move_parent tree a (addr ch) h = Some (above p, h1)"
    unfolding h1_def by (rule move_parent_eq) (use H ch in auto)
  moreover have "rep h1 tree (plug ch p)"
    unfolding rep_plug h1_def using H ch set_parent_shape [OF H(3,5)] relink_spine [of "set_parent (addr ch) (above p) h" tree a p]
    by simp
  moreover have "rb_node h1 a = rb_node h a" using H ch by (simp add: h1_def relink_node)
  moreover have "outside S tree h h1" unfolding h1_def
    by (intro relink_outside set_parent_outside outside_refl) (use ch assms(3) in \<open>auto simp: nodes_plug\<close>)
  ultimately show ?thesis by blast
qed

text \<open>\<^verbatim>\<open>__rbtree_replace\<close> puts another node in the place of a node of the tree.\<close>

lemma move_children_eq:
  assumes "old \<noteq> NULL" "new \<noteq> NULL" "old \<noteq> new" "rb_left (rb_node h old) \<noteq> old" "rb_right (rb_node h old) \<noteq> old"
  shows "move_children old new h = Some (set_parent (rb_right (rb_node h old)) new (set_parent (rb_left (rb_node h old)) new
     (upd new (rb_right_update (\<lambda>_. rb_right (rb_node h old))) (upd new (rb_left_update (\<lambda>_. rb_left (rb_node h old))) h))))"
  using assms by (simp add: move_children_def)

lemma replace_ok:
  assumes "rep h tree (plug (Bin c l a r) p)" and b: "b \<noteq> NULL" "b \<notin> nodes (plug (Bin c l a r) p)"
    and S: "S = insert b (nodes (plug (Bin c l a r) p))"
  shows "\<exists>h'. rbtree_replace tree a b h = Some h' \<and> rep h' tree (plug (Bin c l b r) p) \<and> outside S tree h h'"
proof -
  have H: "a \<noteq> NULL" "rb_node h a = \<lparr>rb_color = c, rb_left = addr l, rb_right = addr r, rb_parent = above p\<rparr>" "shape h a l" "shape h a r"
    "spine h tree a p" "sep l" "sep r" "usep p" "a \<notin> nodes l" "a \<notin> nodes r" "a \<notin> unodes p"
    "nodes l \<inter> nodes r = {}" "nodes l \<inter> unodes p = {}" "nodes r \<inter> unodes p = {}"
    using assms(1) unfolding rep_plug by auto
  have B: "b \<noteq> a" "b \<notin> nodes l" "b \<notin> nodes r" "b \<notin> unodes p" using b(2) by (auto simp: nodes_plug)
  have L: "addr l \<noteq> a" "addr l \<noteq> b" "addr l \<notin> nodes r" "addr l \<notin> unodes p" "addr l \<noteq> NULL \<longrightarrow> addr l \<in> S"
    using H B b spine_NULL [OF H(5)] shape_NULL [OF H(4)] addr_nodes [of l] S by (cases "l = Tip"; auto simp: nodes_plug)+
  have R: "addr r \<noteq> a" "addr r \<noteq> b" "addr r \<notin> nodes l" "addr r \<notin> unodes p" "addr r \<noteq> NULL \<longrightarrow> addr r \<in> S"
    using H B b spine_NULL [OF H(5)] shape_NULL [OF H(3)] addr_nodes [of r] S by (cases "r = Tip"; auto simp: nodes_plug)+
  define h1 where "h1 = upd b (rb_color_update (\<lambda>_. c)) h"
  define h2 where "h2 = set_parent (addr r) b (set_parent (addr l) b (upd b (rb_right_update (\<lambda>_. addr r)) (upd b (rb_left_update (\<lambda>_. addr l)) h1)))"
  define h' where "h' = relink p tree b (set_parent b (above p) h2)"
  have n1: "rb_node h1 a = rb_node h a" using B by (simp add: h1_def)
  have c2: "move_children a b h1 = Some h2"
    using move_children_eq [of a b h1] H(1) b(1) B(1) L(1) R(1) n1 H(2) by (simp add: h2_def)
  have s2: "spine h2 tree a p" "rb_parent (rb_node h2 a) = above p" "rb_node h2 a = rb_node h a"
    using H B L R by (simp_all add: h2_def h1_def)
  have m: "move_parent tree a b h2 = Some (above p, h')"
    unfolding h'_def by (rule move_parent_eq) (use s2 H B in auto)
  have run: "rbtree_replace tree a b h = Some h'"
    using H(1,2) b(1) c2 m by (simp add: rbtree_replace_def h1_def [symmetric])
  have nb: "rb_node h' b = \<lparr>rb_color = c, rb_left = addr l, rb_right = addr r, rb_parent = above p\<rparr>"
    using B b(1) L R by (simp add: h'_def relink_node h2_def h1_def)
  have "shape h2 b l" "shape h2 b r"
    using H B L R by (auto simp: h2_def h1_def intro!: set_parent_shape)
  then have "shape h' b l" "shape h' b r" using H B by (simp_all add: h'_def)
  moreover have "spine h' tree b p" unfolding h'_def by (rule relink_spine [of _ _ a]) (use s2 H B in auto)
  ultimately have "rep h' tree (plug (Bin c l b r) p)"
    unfolding rep_plug using nb H B b(1) by auto
  moreover have "outside S tree h h'" unfolding h'_def h2_def h1_def
    by (intro relink_outside set_parent_outside outside_upd outside_refl) (use L R S in \<open>auto simp: nodes_plug\<close>)
  ultimately show ?thesis using run by blast
qed

section \<open>Walks\<close>

lemma plug_append: "plug t (p @ q) = plug (plug t p) q"
  by (induction p arbitrary: t) (auto split: up.splits)

lemma above_append: "above (p @ q) = (if p = [] then above q else above p)"
  by (cases p) auto

lemma unodes_append: "unodes (p @ q) = unodes p \<union> unodes q"
  by (induction p) (auto split: up.splits)

text \<open>The nodes before and after a place of the tree, in order.\<close>

primrec before :: "up list \<Rightarrow> u32 list" where
  "before [] = []"
| "before (f # p) = (case f of Up d c a s \<Rightarrow> if d then before p else before p @ inorder s @ [a])"

primrec after :: "up list \<Rightarrow> u32 list" where
  "after [] = []"
| "after (f # p) = (case f of Up d c a s \<Rightarrow> if d then a # inorder s @ after p else after p)"

lemma inorder_place: "inorder (plug t p) = before p @ inorder t @ after p"
  by (induction p arbitrary: t) (auto simp: inorder_bin split: up.splits)

text \<open>The leftmost node of a subtree.\<close>

lemma first_loop_ok:
  assumes "shape h q t" and "t \<noteq> Tip"
  shows "\<exists>c a r pl. t = plug (Bin c Tip a r) pl \<and> first_loop (addr t) h = Some a \<and> before pl = []"
  using assms
proof (induction t arbitrary: q)
  case (Bin c l a r)
  show ?case
  proof (cases "l = Tip")
    case True
    then have "first_loop a h = Some a" using Bin.prems(1) by (subst first_loop.simps) simp
    then have "Bin c l a r = plug (Bin c Tip a r) [] \<and> first_loop (addr (Bin c l a r)) h = Some a \<and> before [] = []" using True by simp
    then show ?thesis by blast
  next
    case False
    have "shape h a l" using Bin.prems(1) by simp
    from Bin.IH(1) [OF this False] obtain c' a' r' pl where
      I: "l = plug (Bin c' Tip a' r') pl" "first_loop (addr l) h = Some a'" "before pl = []" by blast
    have "addr l \<noteq> NULL" using Bin.prems(1) False addr_NULL by auto
    then have "first_loop a h = Some a'" using Bin.prems(1) I(2) by (subst first_loop.simps) simp
    moreover have "before (pl @ [Up True c a r]) = []" using I(3) by (induction pl) (auto split: up.splits if_splits)
    moreover have "Bin c l a r = plug (Bin c' Tip a' r') (pl @ [Up True c a r])" using I(1) by (simp add: plug_append bin_def)
    ultimately show ?thesis by (metis addr.simps(2))
  qed
qed simp


lemma first_loop_hd: "shape h q t \<Longrightarrow> t \<noteq> Tip \<Longrightarrow> first_loop (addr t) h = Some (hd (inorder t))"
  using first_loop_ok [of h q t] by (fastforce simp: inorder_place)

lemma last_loop_last: "shape h q t \<Longrightarrow> t \<noteq> Tip \<Longrightarrow> last_loop (addr t) h = Some (last (inorder t))"
proof (induction t arbitrary: q)
  case (Bin c l a r)
  show ?case
  proof (cases "r = Tip")
    case True
    then show ?thesis using Bin.prems(1) by (simp add: last_loop.simps [of a])
  next
    case False
    then have "inorder r \<noteq> []" "addr r \<noteq> NULL" using Bin.prems(1) addr_NULL set_inorder [of r] addr_nodes [of r] by auto
    then show ?thesis using Bin.IH(2) [of a] Bin.prems(1) False by (simp add: last_loop.simps [of a])
  qed
qed simp

definition first_or_NULL :: "u32 list \<Rightarrow> u32" where
  "first_or_NULL xs = (if xs = [] then NULL else hd xs)"

definition last_or_NULL :: "u32 list \<Rightarrow> u32" where
  "last_or_NULL xs = (if xs = [] then NULL else last xs)"

lemma climb_ok:
  assumes "rep h tree (plug t p)" and "t \<noteq> Tip"
  shows "climb_right (addr t) h = Some (first_or_NULL (after p))" and "climb_left (addr t) h = Some (last_or_NULL (before p))"
  using assms
proof (induction p arbitrary: t)
  case Nil
  {
    case 1
    then show ?case using parent_shape [of h NULL t]
      by (subst climb_right.simps) (simp add: rep_def first_or_NULL_def)
  next
    case 2
    then show ?case using parent_shape [of h NULL t]
      by (subst climb_left.simps) (simp add: rep_def last_or_NULL_def)
  }
next
  case (Cons f p)
  obtain d c a s where f: "f = Up d c a s" by (cases f)
  have facts: "rb_parent (rb_node h (addr t)) = a \<and> addr t \<noteq> NULL \<and> a \<noteq> NULL \<and>
      (addr t = rb_left (rb_node h a)) = d \<and> (addr t = rb_right (rb_node h a)) = (\<not> d) \<and> rep h tree (plug (bin d c t a s) p)"
    if "rep h tree (plug t (f # p))" "t \<noteq> Tip" for t
  proof -
    have H: "shape h a t" "a \<noteq> NULL" "is_bin (rb_node h a) d c (addr t) (addr s) (above p)" "nodes t \<inter> nodes s = {}"
      using that(1) unfolding rep_plug f by auto
    have "addr t \<noteq> addr s" using addr_neq [OF H(4) that(2) H(1)] .
    then show ?thesis using H parent_shape [OF H(1) that(2)] that(1) f by (cases d) (auto simp: is_bin_def)
  qed
  {
    case 1
    note F = facts [OF 1]
    show ?case
      using F Cons.IH(1) [of "bin d c t a s"] by (subst climb_right.simps) (simp add: f first_or_NULL_def)
  next
    case 2
    note F = facts [OF 2]
    show ?case
      using F Cons.IH(2) [of "bin d c t a s"] by (subst climb_left.simps) (simp add: f last_or_NULL_def)
  }
qed

lemma node_place: "a \<in> nodes t \<Longrightarrow> \<exists>c l r p. t = plug (Bin c l a r) p"
proof (induction t)
  case (Bin c l b r)
  have tl: "Bin c l b r = plug l [Up True c b r]" "Bin c l b r = plug r [Up False c b l]" by (simp_all add: bin_def)
  from Bin.prems consider "a = b" | "a \<in> nodes l" | "a \<in> nodes r" by auto
  then show ?case
  proof cases
    case 1
    then have "Bin c l b r = plug (Bin c l a r) []" by simp
    then show ?thesis by blast
  next
    case 2
    then show ?thesis using Bin.IH(1) tl(1) plug_append by metis
  next
    case 3
    then show ?thesis using Bin.IH(2) tl(2) plug_append by metis
  qed
qed simp

lemma split_unique:
  assumes "xs @ a # ys = us @ a # vs" and "distinct (xs @ a # ys)"
  shows "xs = us" and "ys = vs"
  using assms by (auto simp: append_eq_append_conv2 append_eq_Cons_conv Cons_eq_append_conv)

lemma next_prev_ok:
  assumes "rep h tree t" and "inorder t = xs @ a # ys"
  shows "rbtree_next a h = Some (first_or_NULL ys)" and "rbtree_prev a h = Some (last_or_NULL xs)"
proof -
  have "a \<in> nodes t" using assms(2) set_inorder [of t] by auto
  then obtain c l r p where t: "t = plug (Bin c l a r) p" using node_place by blast
  have "distinct (xs @ a # ys)" using assms by (simp add: rep_def sep_distinct)
  moreover have "xs @ a # ys = (before p @ inorder l) @ a # (inorder r @ after p)" using assms(2) t by (simp add: inorder_place)
  ultimately have xy: "xs = before p @ inorder l" "ys = inorder r @ after p" using split_unique by metis+
  have H: "a \<noteq> NULL" "rb_left (rb_node h a) = addr l" "rb_right (rb_node h a) = addr r" "shape h a l" "shape h a r"
    using assms(1) t unfolding t rep_plug by auto
  note C = climb_ok [OF assms(1) [unfolded t]]
  have ne: "s \<noteq> Tip \<Longrightarrow> inorder s \<noteq> []" for s by (cases s) auto
  show "rbtree_next a h = Some (first_or_NULL ys)"
    using H C(1) first_loop_hd [OF H(5)] addr_NULL [OF H(5)] ne [of r] xy(2)
    by (cases "r = Tip") (auto simp: rbtree_next_def do_rbtree_next_def first_or_NULL_def)
  show "rbtree_prev a h = Some (last_or_NULL xs)"
    using H C(2) last_loop_last [OF H(4)] addr_NULL [OF H(4)] ne [of l] xy(1)
    by (cases "l = Tip") (auto simp: rbtree_prev_def do_rbtree_prev_def last_or_NULL_def)
qed

section \<open>Finding\<close>

lemma find_ok:
  assumes "shape h q t" and "sorted_wrt (\<lambda>a b. sgn (cmp a) \<ge> sgn (cmp b)) (inorder t)"
  shows "\<exists>x. rbtree_find (addr t) cmp h = Some x \<and> (if \<exists>a \<in> nodes t. cmp a = 0 then x \<in> nodes t \<and> cmp x = 0 else x = NULL)"
  using assms
proof (induction t arbitrary: q)
  case Tip
  then show ?case by (simp add: rbtree_find.simps)
next
  case (Bin c l a r)
  note A = Bin.prems(2) [unfolded inorder.simps sorted_wrt_append sorted_wrt.simps]
  have sh: "a \<noteq> NULL" "rb_node h a = \<lparr>rb_color = c, rb_left = addr l, rb_right = addr r, rb_parent = q\<rparr>" "shape h a l" "shape h a r"
    using Bin.prems(1) by simp_all
  have F: "rbtree_find a cmp h = (if cmp a < 0 then rbtree_find (addr l) cmp h else if cmp a > 0 then rbtree_find (addr r) cmp h else Some a)"
    using sh by (subst rbtree_find.simps) simp
  have lt: "sgn (cmp x) \<ge> sgn (cmp a)" if "x \<in> nodes l" for x using A that by (simp add: set_inorder)
  have gt: "sgn (cmp x) \<le> sgn (cmp a)" if "x \<in> nodes r" for x using A that by (simp add: set_inorder)
  consider "cmp a < 0" | "cmp a > 0" | "cmp a = 0" by linarith
  then show ?case
  proof cases
    case 1
    then have "cmp x \<noteq> 0" if "x \<in> nodes r" for x using gt [OF that] by auto
    moreover obtain x where "rbtree_find (addr l) cmp h = Some x" "if \<exists>a \<in> nodes l. cmp a = 0 then x \<in> nodes l \<and> cmp x = 0 else x = NULL"
      using Bin.IH(1) [OF sh(3)] A by auto
    ultimately show ?thesis using F 1 by (auto split: if_splits)
  next
    case 2
    then have "cmp x \<noteq> 0" if "x \<in> nodes l" for x using lt [OF that] by auto
    moreover obtain x where "rbtree_find (addr r) cmp h = Some x" "if \<exists>a \<in> nodes r. cmp a = 0 then x \<in> nodes r \<and> cmp x = 0 else x = NULL"
      using Bin.IH(2) [OF sh(4)] A by auto
    ultimately show ?thesis using F 2 by (auto split: if_splits)
  next
    case 3
    then show ?thesis using F by auto
  qed
qed

section \<open>Depth\<close>

primrec depth :: "rbt \<Rightarrow> nat" where
  "depth Tip = 0"
| "depth (Bin c l a r) = Suc (max (depth l) (depth r))"

lemma bheight_nodes: "balanced t \<Longrightarrow> 2 ^ bheight t \<le> Suc (length (inorder t))"
  by (induction t) auto

lemma depth_bheight: "coloured t \<Longrightarrow> balanced t \<Longrightarrow> depth t \<le> 2 * bheight t + (if tcol t = RB_RED then 1 else 0)"
proof (induction t)
  case (Bin c l a r)
  then show ?case by (cases c; cases "tcol l"; cases "tcol r") auto
qed simp

lemma redblack_depth:
  assumes "redblack t"
  shows "2 ^ depth t \<le> (Suc (length (inorder t)))\<^sup>2"
proof -
  have "depth t \<le> 2 * bheight t" using depth_bheight [of t] assms by (simp add: redblack_def)
  then have "(2 :: nat) ^ depth t \<le> 2 ^ (2 * bheight t)" by (rule power_increasing) simp
  also have "\<dots> = (2 ^ bheight t)\<^sup>2" by (simp add: power_mult mult.commute [of 2])
  also have "\<dots> \<le> (Suc (length (inorder t)))\<^sup>2" using bheight_nodes [of t] assms by (intro power_mono) (auto simp: redblack_def)
  finally show ?thesis .
qed

section \<open>Deletion\<close>

text \<open>Rebalancing after a node of colour \<open>c\<close> has left the place \<open>p\<close>, where \<open>ch\<close> is now.\<close>

lemma finish_delete:
  assumes "rep h tree (plug ch p)" and "coloured ch" "balanced ch" "ucoloured p"
    and "c = RB_BLACK \<Longrightarrow> ubalanced (Suc (bheight ch)) p"
    and "c = RB_RED \<Longrightarrow> ubalanced (bheight ch) p \<and> tcol ch = RB_BLACK"
  shows "\<exists>h' t'. (if c = RB_BLACK then rebalance_delete tree (above p) (addr ch) h else Some h) = Some h' \<and> rep h' tree t' \<and> redblack t' \<and>
     inorder t' = inorder (plug ch p) \<and> outside (nodes (plug ch p)) tree h h'"
proof (cases c)
  case RB_BLACK
  then have s: "short_by_one ch p" using assms by (simp add: short_by_one_def paint_black)
  show ?thesis using del_fix_ok [OF assms(1) s] del_fix_invariants [OF s] del_fix_inorder [OF s] RB_BLACK by auto
next
  case RB_RED
  then have "redblack (plug ch p)" using assms by (simp add: redblack_plug)
  then show ?thesis using RB_RED assms(1) by auto
qed

lemma rename_invariants:
  "ubalanced n (pl @ Up d c a s # p) = ubalanced n (pl @ Up d c b s # p)"
  "ucoloured (pl @ Up d c a s # p) = ucoloured (pl @ Up d c b s # p)"
proof -
  show "ubalanced n (pl @ Up d c a s # p) = ubalanced n (pl @ Up d c b s # p)"
    by (induction pl arbitrary: n) (auto split: up.splits)
  have u: "ucol (pl @ Up d c a s # p) = ucol (pl @ Up d c b s # p)" for pl by (cases pl) auto
  show "ucoloured (pl @ Up d c a s # p) = ucoloured (pl @ Up d c b s # p)"
    by (induction pl) (auto simp: u split: up.splits)
qed

lemma remove1_middle: "distinct (xs @ a # ys) \<Longrightarrow> remove1 a (xs @ a # ys) = xs @ ys"
  by (simp add: remove1_append)

lemma delete_one_child:
  assumes R: "rep h tree (plug (Bin c l a r) p)" and I: "redblack (plug (Bin c l a r) p)"
    and one: "l = Tip \<or> r = Tip" and "tree \<noteq> NULL"
  shows "\<exists>h' t'. rbtree_delete tree a h = Some h' \<and> rep h' tree t' \<and> redblack t' \<and>
     inorder t' = before p @ inorder l @ inorder r @ after p \<and> outside (nodes (plug (Bin c l a r) p)) tree h h'"
proof -
  define ch where "ch = (if l = Tip then r else l)"
  have ch: "l = Tip \<and> ch = r \<or> r = Tip \<and> ch = l" using one by (auto simp: ch_def)
  from unlink_ok [OF R ch refl] obtain h1 where h1: "move_parent tree a (addr ch) h = Some (above p, h1)" "rep h1 tree (plug ch p)"
    "rb_node h1 a = rb_node h a" "outside (nodes (plug (Bin c l a r) p)) tree h h1" by blast
  have H: "a \<noteq> NULL" "rb_node h a = \<lparr>rb_color = c, rb_left = addr l, rb_right = addr r, rb_parent = above p\<rparr>" "shape h a l" "shape h a r"
    using R unfolding rep_plug by auto
  have run: "rbtree_delete tree a h = (if c = RB_BLACK then rebalance_delete tree (above p) (addr ch) h1 else Some h1)"
    using H h1 addr_NULL [OF H(3)] addr_NULL [OF H(4)] one assms(4) by (auto simp: rbtree_delete_def do_rbtree_delete_def rbtree_has_both_def ch_def)
  note B = I [unfolded redblack_plug]
  from finish_delete [OF h1(2), of c] obtain h' t' where
    "(if c = RB_BLACK then rebalance_delete tree (above p) (addr ch) h1 else Some h1) = Some h'" "rep h' tree t'" "redblack t'"
    "inorder t' = inorder (plug ch p)" "outside (nodes (plug ch p)) tree h1 h'"
    using B ch by (auto split: if_splits)
  moreover have "outside (nodes (plug ch p)) tree h1 h' \<Longrightarrow> outside (nodes (plug (Bin c l a r) p)) tree h1 h'"
    using ch by (auto simp: outside_def nodes_plug)
  moreover have "inorder (plug ch p) = before p @ inorder l @ inorder r @ after p" using ch by (auto simp: inorder_place)
  ultimately show ?thesis using run outside_trans [OF h1(4)] by metis
qed

lemma delete_two_children:
  assumes R: "rep h tree (plug (Bin c l a r) p)" and I: "redblack (plug (Bin c l a r) p)"
    and two: "l \<noteq> Tip" "r \<noteq> Tip" and "tree \<noteq> NULL"
  shows "\<exists>h' t'. rbtree_delete tree a h = Some h' \<and> rep h' tree t' \<and> redblack t' \<and>
     inorder t' = before p @ inorder l @ inorder r @ after p \<and> outside (nodes (plug (Bin c l a r) p)) tree h h'"
proof -
  let ?S = "nodes (plug (Bin c l a r) p)"
  have H: "a \<noteq> NULL" "rb_node h a = \<lparr>rb_color = c, rb_left = addr l, rb_right = addr r, rb_parent = above p\<rparr>" "shape h a l" "shape h a r"
    "addr l \<noteq> NULL" "addr r \<noteq> NULL" "sep r" "nodes r \<inter> nodes l = {}" "a \<notin> nodes r" "nodes r \<inter> unodes p = {}"
    using R two unfolding rep_plug by (auto simp: addr_NULL)
  from first_loop_ok [OF H(4) two(2)] obtain cs sb rr pl where r: "r = plug (Bin cs Tip sb rr) pl" "first_loop (addr r) h = Some sb" "before pl = []"
    by blast
  have sb: "sb \<noteq> NULL" "sb \<in> ?S" "sb \<noteq> a" "rb_color (rb_node h sb) = cs" "rb_right (rb_node h sb) = addr rr"
    "sb \<notin> nodes l" "sb \<notin> unodes p" "sb \<notin> nodes rr \<union> unodes pl"
  proof -
    have "rep h tree (plug (Bin cs Tip sb rr) (pl @ Up False c a l # p))" using R r(1) by (simp add: plug_append bin_def)
    then show "sb \<noteq> NULL" "rb_color (rb_node h sb) = cs" "rb_right (rb_node h sb) = addr rr" "sb \<notin> nodes rr \<union> unodes pl"
      unfolding rep_plug by (auto simp: unodes_append)
    have "sb \<in> nodes r" using r(1) by (simp add: nodes_plug)
    then show "sb \<in> ?S" "sb \<noteq> a" "sb \<notin> nodes l" "sb \<notin> unodes p" using H by (auto simp: nodes_plug)
  qed
  let ?q = "pl @ Up False c a l # p" and ?q' = "pl @ Up False c sb l # p"
  have R1: "rep h tree (plug (Bin cs Tip sb rr) ?q)" and S1: "nodes (plug (Bin cs Tip sb rr) ?q) = ?S"
    using R r(1) by (simp_all add: plug_append bin_def)
  from unlink_ok [OF R1 _ S1 [symmetric], of rr] obtain h1 where h1: "move_parent tree sb (addr rr) h = Some (above ?q, h1)"
    "rep h1 tree (plug rr ?q)" "rb_node h1 sb = rb_node h sb" "outside ?S tree h h1" by auto
  have R2: "rep h1 tree (plug (Bin c l a (plug rr pl)) p)" using h1(2) by (simp add: plug_append bin_def)
  have S2: "sb \<notin> nodes (plug (Bin c l a (plug rr pl)) p)" "insert sb (nodes (plug (Bin c l a (plug rr pl)) p)) = ?S"
    using sb r(1) by (auto simp: nodes_plug)
  from replace_ok [OF R2 sb(1) S2(1) S2(2) [symmetric]] obtain h2 where h2: "rbtree_replace tree a sb h1 = Some h2"
    "rep h2 tree (plug rr ?q')" "outside ?S tree h1 h2" by (auto simp: plug_append bin_def)
  have par: "(if above ?q = a then sb else above ?q) = above ?q'"
  proof (cases "pl = []")
    case False
    then have "above pl \<in> nodes r" using above_unodes [OF False] r(1) by (auto simp: nodes_plug)
    then show ?thesis using False H(9) by (auto simp: above_append)
  qed simp
  have run: "rbtree_delete tree a h = (if cs = RB_BLACK then rebalance_delete tree (above ?q') (addr rr) h2 else Some h2)"
    using H(1,2,5,6) r(2) h1 h2(1) sb(1,4,5) assms(5) par
    by (simp add: rbtree_delete_def do_rbtree_delete_def rbtree_has_both_def rbtree_first_def)
  have B: "coloured rr" "balanced rr" "ucoloured ?q'" "ubalanced (if cs = RB_BLACK then Suc (bheight rr) else bheight rr) ?q'"
    "cs = RB_RED \<longrightarrow> tcol rr = RB_BLACK"
    using I [unfolded r(1)] redblack_plug [of "Bin cs Tip sb rr" ?q] rename_invariants(1) [of _ pl False c a l p sb] rename_invariants(2) [of pl False c a l p sb]
    by (auto simp: plug_append bin_def split: if_splits)
  from finish_delete [OF h2(2), of cs] B obtain h' t' where F:
    "(if cs = RB_BLACK then rebalance_delete tree (above ?q') (addr rr) h2 else Some h2) = Some h'" "rep h' tree t'" "redblack t'"
    "inorder t' = inorder (plug rr ?q')" "outside (nodes (plug rr ?q')) tree h2 h'" by (auto split: if_splits)
  have "nodes (plug rr ?q') \<subseteq> ?S" using r(1) by (auto simp: nodes_plug unodes_append)
  then have "outside ?S tree h h'" using F(5) h1(4) h2(3) outside_trans [of ?S] by (auto simp: outside_def)
  moreover have "inorder (plug rr ?q') = before p @ inorder l @ inorder r @ after p"
    using r by (simp add: plug_append bin_def inorder_place)
  ultimately show ?thesis using run F by auto
qed

lemma delete_ok:
  assumes "rep h tree t" and "redblack t" and "a \<in> nodes t" and "tree \<noteq> NULL"
  shows "\<exists>h' t'. rbtree_delete tree a h = Some h' \<and> rep h' tree t' \<and> redblack t' \<and> inorder t' = remove1 a (inorder t) \<and> outside (nodes t) tree h h'"
proof -
  obtain c l r p where t: "t = plug (Bin c l a r) p" using node_place [OF assms(3)] by blast
  have i: "inorder t = (before p @ inorder l) @ a # (inorder r @ after p)" by (simp add: t inorder_place)
  have "distinct (inorder t)" using assms(1) by (simp add: rep_def sep_distinct)
  then have "remove1 a (inorder t) = before p @ inorder l @ inorder r @ after p" unfolding i by (subst remove1_middle) auto
  then show ?thesis
    using delete_one_child [OF assms(1,2) [unfolded t] _ assms(4)] delete_two_children [OF assms(1,2) [unfolded t] _ _ assms(4)] t
    by (cases "l = Tip \<or> r = Tip") auto
qed

section \<open>Properties\<close>

text \<open>A tree of two nodes.\<close>

definition two_nodes :: rbstore where
  "two_nodes = \<lparr>rb_node = (\<lambda>a. if a = 0x10 then \<lparr>rb_color = RB_BLACK, rb_left = 0, rb_right = 0x20, rb_parent = 0\<rparr>
      else \<lparr>rb_color = RB_RED, rb_left = 0, rb_right = 0, rb_parent = 0x10\<rparr>), rb_root = (\<lambda>_. 0x10)\<rparr>"

abbreviation two_tree :: rbt where "two_tree \<equiv> Bin RB_BLACK Tip 0x10 (Bin RB_RED Tip 0x20 Tip)"

lemma two_nodes_rep: "rep two_nodes 0x100 two_tree" "redblack two_tree"
  by (simp_all add: rep_def two_nodes_def redblack_def)

text \<open>C19: \<^verbatim>\<open>rbtree_insert\<close> at an empty place \<open>p\<close> of a red-black tree returns, dereferences no \<^verbatim>\<open>NULL\<close> pointer on the way, and leaves a
  red-black tree (black root, no red node with a red child, equal black counts on all paths) with consistent child and parent
  links that holds the old nodes in the old order and the new node in its place; its depth is logarithmic in its size, and
  nodes outside the tree and the roots of other trees are not touched.\<close>

theorem rbtree_insert_correct:
  assumes "rep h tree (plug Tip p)" and "redblack (plug Tip p)" and "node \<noteq> NULL" and "node \<notin> nodes (plug Tip p)" and "tree \<noteq> NULL"
  shows "\<exists>h' t'. rbtree_insert tree node (above p) (clink_at tree p) h = Some h' \<and> rep h' tree t' \<and> redblack t' \<and>
     inorder t' = before p @ node # after p \<and> 2 ^ depth t' \<le> (Suc (length (inorder t')))\<^sup>2 \<and>
     outside (insert node (nodes (plug Tip p))) tree h h'"
proof -
  have "node \<notin> unodes p" "nodes (plug Tip p) = unodes p" using assms(4) by (simp_all add: nodes_plug)
  with insert_ok [OF assms(1-3) _ assms(5)] show ?thesis using redblack_depth by (fastforce simp: inorder_place)
qed

theorem rbtree_insert_correct_witness:
  "\<exists>h' t'. rbtree_insert 0x100 0x30 0x20 (Right_of 0x20) two_nodes = Some h' \<and> rep h' 0x100 t' \<and> redblack t' \<and> inorder t' = [0x10, 0x20, 0x30]"
proof -
  let ?p = "[Up False RB_RED 0x20 Tip, Up False RB_BLACK 0x10 Tip]"
  have p: "plug Tip ?p = two_tree" by (simp add: bin_def)
  show ?thesis
    using rbtree_insert_correct [of two_nodes "0x100" ?p "0x30", unfolded p, OF two_nodes_rep] by (auto simp: clink_at_def)
qed

text \<open>C22: \<^verbatim>\<open>rbtree_delete\<close> of a node of a red-black tree returns, passes its assertions, dereferences no \<^verbatim>\<open>NULL\<close> pointer, and leaves a
  red-black tree of the remaining nodes in the same order; nodes outside the tree and the roots of other trees are not touched.\<close>

theorem rbtree_delete_correct:
  assumes "rep h tree t" and "redblack t" and "node \<in> nodes t" and "tree \<noteq> NULL"
  shows "\<exists>h' t'. rbtree_delete tree node h = Some h' \<and> rep h' tree t' \<and> redblack t' \<and> inorder t' = remove1 node (inorder t) \<and>
     2 ^ depth t' \<le> (Suc (length (inorder t')))\<^sup>2 \<and> outside (nodes t) tree h h'"
  using delete_ok [OF assms] redblack_depth by blast

theorem rbtree_delete_correct_witness:
  "\<exists>h' t'. rbtree_delete 0x100 0x10 two_nodes = Some h' \<and> rep h' 0x100 t' \<and> redblack t' \<and> inorder t' = [0x20]"
  using rbtree_delete_correct [of two_nodes "0x100" two_tree "0x10", OF two_nodes_rep] by auto

text \<open>C39: The walking functions return on every tree and follow its order: \<^verbatim>\<open>rbtree_first\<close> and \<^verbatim>\<open>rbtree_last\<close> of the root give the ends of
  the sequence, \<^verbatim>\<open>rbtree_next\<close> and \<^verbatim>\<open>rbtree_prev\<close> the neighbours of a node, \<^verbatim>\<open>NULL\<close> at the ends.\<close>

theorem rbtree_walks:
  assumes "rep h tree t" and "inorder t = xs @ node # ys"
  shows "rbtree_next node h = Some (first_or_NULL ys) \<and> rbtree_prev node h = Some (last_or_NULL xs) \<and>
     rbtree_first (rb_root h tree) h = Some (hd (inorder t)) \<and> rbtree_last (rb_root h tree) h = Some (last (inorder t))"
proof -
  have t: "t \<noteq> Tip" "shape h NULL t" "rb_root h tree = addr t" using assms by (auto simp: rep_def)
  then show ?thesis
    using next_prev_ok [OF assms] first_loop_hd [OF t(2,1)] last_loop_last [OF t(2,1)] addr_NULL [OF t(2)]
    by (simp add: rbtree_first_def rbtree_last_def)
qed

theorem rbtree_walks_witness:
  "rbtree_next 0x10 two_nodes = Some 0x20 \<and> rbtree_prev 0x10 two_nodes = Some NULL \<and> rbtree_first 0x10 two_nodes = Some 0x10 \<and>
     rbtree_last 0x10 two_nodes = Some 0x20"
proof -
  have "rb_root two_nodes 0x100 = 0x10" by (simp add: two_nodes_def)
  then show ?thesis
    using rbtree_walks [of two_nodes "0x100" two_tree "[]" "0x10" "[0x20]"] two_nodes_rep
    by (simp add: first_or_NULL_def last_or_NULL_def)
qed

text \<open>C31: \<^verbatim>\<open>rbtree_find\<close> on a tree in the order of the comparison returns a node that compares equal if the tree has one, and
  \<^verbatim>\<open>NULL\<close> otherwise.\<close>

theorem rbtree_find_correct:
  assumes "rep h tree t" and "sorted_wrt (\<lambda>a b. sgn (compare a) \<ge> sgn (compare b)) (inorder t)"
  shows "\<exists>x. rbtree_find (rb_root h tree) compare h = Some x \<and>
     (if \<exists>a \<in> nodes t. compare a = 0 then x \<in> nodes t \<and> compare x = 0 else x = NULL)"
  using find_ok [of h NULL t compare] assms by (simp add: rep_def)

theorem rbtree_find_correct_witness:
  "rbtree_find 0x10 (\<lambda>a. 0x20 - uint a) two_nodes = Some 0x20"
proof -
  have "rb_root two_nodes 0x100 = 0x10" by (simp add: two_nodes_def)
  then obtain x where "rbtree_find 0x10 (\<lambda>a. 0x20 - uint a) two_nodes = Some x" "x = 0x10 \<or> x = 0x20" "0x20 = uint x"
    using rbtree_find_correct [of two_nodes "0x100" two_tree "\<lambda>a. 0x20 - uint a"] two_nodes_rep by auto
  then show ?thesis by auto
qed

end
