(* ===== verification/Heap_Client.thy ===== *)
theory Heap_Client
  imports Malloc_Free
begin

text \<open>
  What a client of the kernel heap may rely on cell by cell: the memory it holds (payloads it has allocated, static data) keeps its
  contents over \<^verbatim>\<open>malloc\<close> and \<^verbatim>\<open>free\<close>, and writing to it does not harm the heaps.
\<close>

section \<open>Cells a client relies on\<close>

text \<open>A cell is held when it lies in an allocated payload or in memory that never belongs to a heap.\<close>

definition held :: "('fs \<Rightarrow> nat set) \<Rightarrow> ('fs, 'z) kmem_scheme \<Rightarrow> hp list \<Rightarrow> nat \<Rightarrow> bool" where
  "held owned s hs x \<longleftrightarrow> (\<exists>q \<in> allocated hs. x \<in> area q) \<or> kept owned s hs x"

lemma area_in_heap:
  assumes "heaps_ok m hl hs" and "q \<in> allocated hs" and "x \<in> area q"
  shows "x \<in> heap_bytes hl hs"
  using allocated_bounds [OF assms(1,2)] assms(3) by (fastforce simp: area_def heap_bytes_def)

lemma in_heap: "(g, ds) \<in> set hs \<Longrightarrow> g \<le> x \<Longrightarrow> x < heap_top g ds \<Longrightarrow> x \<in> heap_bytes hl hs"
  by (force simp: heap_bytes_def)

text \<open>The heaps do not depend on the contents of what is held.\<close>

lemma blocks_held:
  assumes "blocks m h a bs" and "\<And>x. a \<le> x \<Longrightarrow> x < a + total bs \<Longrightarrow> (\<forall>q \<in> payloads a bs. x \<notin> area q) \<Longrightarrow> m' (W x) = m (W x)"
  shows "blocks m' h a bs"
  using assms
proof (induction bs arbitrary: a)
  case (Cons b bs)
  obtain s f where b: "b = (s, f)" by (cases b)
  have s: "24 \<le> s" "block_at m h a s f" "blocks m h (a + s) bs" using Cons.prems(1) b by auto
  obtain t where t: "s = t + 24" using s(1) le_Suc_ex by (metis add.commute)
  have above: "a + s \<le> fst q" if "q \<in> payloads (a + s) bs" for q
    using payloads_bounds [OF s(3), of "fst q" "snd q"] that by simp
  have "m' (W x) = m (W x)" if "a \<le> x" "x < a + s" "x < a + 16 \<or> a + t + 16 \<le> x" for x
    using Cons.prems(2) [of x] that above b t by (fastforce simp: area_def split: if_splits)
  then have "block_at m' h a s f" using s(2) unfolding t block_at_raw by simp
  moreover have "blocks m' h (a + s) bs"
    by (rule Cons.IH [OF s(3)]) (use Cons.prems(2) b s(1) t in \<open>auto simp: area_def\<close>)
  ultimately show ?case using Cons.prems(1) b by simp
qed simp

lemma heaps_held:
  assumes ok: "heaps_ok m hl hs"
    and eq: "\<And>x. x < 2 ^ 32 \<Longrightarrow> x \<in> heap_bytes hl hs \<Longrightarrow> (\<forall>q \<in> allocated hs. x \<notin> area q) \<Longrightarrow> m' (W x) = m (W x)"
  shows "heaps_ok m' hl hs"
proof -
  have L: "layout hl hs" using ok by (simp add: heaps_ok_layout)
  note D = heaps_okD [OF ok]
  have free: "x \<notin> area q" if q: "q \<in> allocated hs" and g: "(g, ds) \<in> set hs" and x: "x < g + 36 \<and> g \<le> x" for q g ds x
  proof -
    obtain h bs where h: "(h, bs) \<in> set hs" "h + 36 \<le> fst q" "fst q + snd q + 8 \<le> heap_top h bs" by (rule allocated_bounds [OF ok q])
    show ?thesis using apart_pair [OF D(3) h(1) g] h(2,3) x heap_okD(8,9) [OF D(2) [OF g]]
      by (cases ds) (auto simp: area_def apart_def heap_top_def)
  qed
  have top: "g + 36 \<le> heap_top g ds" "heap_top g ds \<le> 0xA0000000" if "(g, ds) \<in> set hs" for g ds
    using heap_okD(7,8,9) [OF D(2) [OF that]] by (cases ds; auto simp: heap_top_def)+
  have head: "m' (W x) = m (W x)" if "(g, ds) \<in> set hs" "g \<le> x" "x < g + 20" for g ds x
    by (rule eq) (use that top [OF that(1)] free [OF _ that(1)] in_heap [OF that(1)] in auto)
  have hl: "m' (W x) = m (W x)" if "unat hl \<le> x" "x < unat hl + 8" for x
  proof (rule eq)
    show "\<forall>q \<in> allocated hs. x \<notin> area q"
    proof
      fix q assume q: "q \<in> allocated hs"
      obtain h bs where h: "(h, bs) \<in> set hs" "h + 36 \<le> fst q" "fst q + snd q + 8 \<le> heap_top h bs" by (rule allocated_bounds [OF ok q])
      show "x \<notin> area q" using D(6) [OF h(1)] h(2,3) that by (auto simp: area_def)
    qed
  qed (use that D(5) in \<open>auto simp: heap_bytes_def\<close>)
  have "is_list m' hl (map (\<lambda>g. W (fst g)) hs)"
  proof -
    have "m' a = m a" if a: "a \<in> link_cells (set (hl # map (\<lambda>g. W (fst g)) hs))" for a
    proof -
      from a consider "a = hl \<or> a = hl + 4" | g ds where "(g, ds) \<in> set hs" "a = W g \<or> a = W g + 4"
        by (auto simp: link_cells_def)
      then show ?thesis
      proof cases
        case 1
        moreover have "m' hl = m hl" using hl [of "unat hl"] by simp
        moreover have "m' (hl + 4) = m (hl + 4)" using hl [of "unat hl + 4"] by (simp add: W_add_numeral [symmetric, of "unat hl", simplified])
        ultimately show ?thesis by blast
      next
        case 2
        then show ?thesis using head [OF 2(1), of g] head [OF 2(1), of "g + 4"] by (auto simp: W_add_numeral)
      qed
    qed
    then show ?thesis using is_list_cong [of hl _ m' m] D(1) by blast
  qed
  moreover have "heap_ok m' h bs" if hb: "(h, bs) \<in> set hs" for h bs
  proof -
    note H = heap_okD [OF D(2) [OF hb]]
    have "blocks m' h (h + 20) bs"
    proof (rule blocks_held [OF H(8)])
      fix x assume x: "h + 20 \<le> x" "x < h + 20 + total bs" "\<forall>q \<in> payloads (h + 20) bs. x \<notin> area q"
      have "x \<notin> area q" if q: "q \<in> allocated hs" for q
      proof -
        obtain g ds where g: "(g, ds) \<in> set hs" "q \<in> payloads (g + 20) ds" "g + 36 \<le> fst q" "fst q + snd q + 8 \<le> heap_top g ds"
          by (rule allocated_bounds [OF ok q])
        show ?thesis using apart_pair [OF D(3) g(1) hb] g x by (auto simp: area_def apart_def heap_top_def)
      qed
      then show "m' (W x) = m (W x)" using x(1,2) top [OF hb] in_heap [OF hb] by (intro eq) (auto simp: heap_top_def)
    qed
    moreover have "m' (W h + 8) = m (W h + 8)" "m' (W h + 12) = m (W h + 12)" "m' (W h + 16) = m (W h + 16)"
      using head [OF hb, of "h + 8"] head [OF hb, of "h + 12"] head [OF hb, of "h + 16"] by (simp_all add: W_add_numeral)
    ultimately show ?thesis using D(2) [OF hb] by (simp add: heap_ok_def heap_start_def heap_end_def heap_frames_def)
  qed
  ultimately show ?thesis using L by (auto simp: heaps_ok_layout)
qed

lemma write_held:
  assumes "kheap_inv F owned s hs" and "\<And>x. x < 2 ^ 32 \<Longrightarrow> \<not> held owned s hs x \<Longrightarrow> m (W x) = k_mem s (W x)"
  shows "kheap_inv F owned (s\<lparr>k_mem := m\<rparr>) hs"
proof -
  have "heaps_ok m (heap_list s) hs"
    by (rule heaps_held [OF kheap_invD(2) [OF assms(1)]]) (use assms(2) in \<open>auto simp: held_def kept_def\<close>)
  then show ?thesis using assms(1) by (simp add: kheap_inv_def)
qed

text \<open>Allocation and release.\<close>

lemma malloc_held:
  assumes "kheap_inv F owned s hs" and P: "malloc_post F owned n s hs q hs' s'"
  shows "\<And>x. held owned s hs x \<Longrightarrow> held owned s' hs' x" and "\<And>x. x < 2 ^ 32 \<Longrightarrow> held owned s hs x \<Longrightarrow> k_mem s' (W x) = k_mem s (W x)"
    and "\<And>x. x \<in> area q \<Longrightarrow> held owned s' hs' x \<and> \<not> held owned s hs x"
proof -
  have A: "allocated hs' = insert q (allocated hs)" "\<And>p. p \<in> allocated hs \<Longrightarrow> area p \<inter> area q = {}"
      "\<And>p x. p \<in> allocated hs \<Longrightarrow> x \<in> area p \<Longrightarrow> k_mem s' (W x) = k_mem s (W x)" "\<And>x. kept owned s hs x \<Longrightarrow> kept owned s' hs' x"
      "\<And>x. x < 2 ^ 32 \<Longrightarrow> x \<notin> heap_bytes (heap_list s) hs' \<Longrightarrow> k_mem s' (W x) = k_mem s (W x)" "kheap_inv F owned s' hs'"
    using P by (auto simp: malloc_post_def alloc_post_def)
  have hl: "heap_list s' = heap_list s" using P unfolding malloc_post_def by (metis kmem.select_convs(4) kmem.surjective kmem.update_convs(1,3))
  show "\<And>x. held owned s hs x \<Longrightarrow> held owned s' hs' x" using A(1,4) by (auto simp: held_def)
  show "x < 2 ^ 32 \<Longrightarrow> held owned s hs x \<Longrightarrow> k_mem s' (W x) = k_mem s (W x)" for x
    using A(3,4,5) hl by (auto simp: held_def kept_def)
  show "held owned s' hs' x \<and> \<not> held owned s hs x" if x: "x \<in> area q" for x
  proof -
    have "x \<in> heap_bytes (heap_list s') hs'" using area_in_heap [OF kheap_invD(2) [OF A(6)], of q x] A(1) x by simp
    then have "\<not> kept owned s hs x" using A(4) [of x] by (auto simp: kept_def)
    then show ?thesis using A(1,2) x by (auto simp: held_def)
  qed
qed

lemma kfree_held:
  assumes "kheap_inv F owned s hs" and P: "kfree_post F owned s hs q hs' s'" and x: "held owned s hs x" "x \<notin> area q"
  shows "held owned s' hs' x" and "x < 2 ^ 32 \<Longrightarrow> k_mem s' (W x) = k_mem s (W x)"
proof -
  have A: "allocated hs' = allocated hs - {q}" "\<And>p x. p \<in> allocated hs' \<Longrightarrow> x \<in> area p \<Longrightarrow> k_mem s' (W x) = k_mem s (W x)"
    "\<And>x. kept owned s hs x \<Longrightarrow> kept owned s' hs' x"
    "\<And>x. x < 2 ^ 32 \<Longrightarrow> x \<notin> heap_bytes (heap_list s) hs \<Longrightarrow> k_mem s' (W x) = k_mem s (W x)"
    using P by (auto simp: kfree_post_def)
  show "held owned s' hs' x" using A(1,3) x by (auto simp: held_def)
  show "x < 2 ^ 32 \<Longrightarrow> k_mem s' (W x) = k_mem s (W x)" using A x by (auto simp: held_def kept_def)
qed

lemma malloc_fail_held:
  assumes "kheap_inv F owned s hs" and "frame_alloc F (k_fs s) n (VF_VA_AUTO OR VF_AT_KSEG0) = (rc, phys, fs')" and "rc \<noteq> EOK"
  shows "held owned (s\<lparr>k_fs := fs'\<rparr>) hs x = held owned s hs x"
proof -
  have "owned fs' = owned (k_fs s)" using kheap_invD(1) [OF assms(1)] assms(2,3) unfolding frames_ok_def by metis
  then show ?thesis by (simp add: held_def kept_def)
qed

end
