(* ===== verification/Thread_Create.thy ===== *)
theory Thread_Create
  imports Vm_Coherence Timer Heap_Client
begin

text \<open>
  Creation of threads (\<^verbatim>\<open>thread_create\<close> and \<^verbatim>\<open>thread_stub\<close> of \<^verbatim>\<open>kernel/proc/thread.c\<close>, \<^verbatim>\<open>timers_init\<close> of \<^verbatim>\<open>kernel/time/timer.c\<close>),
  where the heap, the virtual memory maps and the scheduler meet: the structure, the stack and the map of the new thread come
  from the kernel heap, whose blocks lie beside the links of all the other threads in the same memory.
\<close>

unbundle bit_operations_syntax

section \<open>Creating a thread\<close>

text \<open>The last part of \<^verbatim>\<open>thread_create\<close>, which fills in the structure and the initial context (the frame at \<^verbatim>\<open>stack_top\<close>) and makes
  the thread runnable. \<open>stub\<close> is the address of \<^verbatim>\<open>thread_stub\<close>.\<close>

definition thread_setup :: "u32 \<Rightarrow> u32 \<Rightarrow> u32 \<Rightarrow> u32 \<Rightarrow> ('fs, 'z) kernel_scheme \<Rightarrow> ('fs, 'z) kernel_scheme option" where
  "thread_setup stub thread entry data s = do {
     m \<leftarrow> link_init (k_mem s) thread;
     let s1 = upd_thread thread (\<lambda>t. t\<lparr>entry_func := entry, entry_data := data, retval := NULL, t_process := NULL, t_uthread := NULL,
         stack_top := stack_data t + THREAD_STACK_SIZE - CONTEXT_SIZE - ABI_STACK_FRAME, scheduled := 0,
         t_state := THREAD_READY, joiner := NULL\<rparr>) (s\<lparr>k_mem := m\<rparr>);
     m' \<leftarrow> link_init (k_mem s1) (wait_queue_link thread);
     let context = stack_top (thr s1 thread);
     let s2 = s1\<lparr>k_mem := m', k_ctx := (k_ctx s1)(context := (k_ctx s1 context)\<lparr>c_ra := stub, c_a0 := thread, c_gp := ADDR_IN_KSEG0 0,
         c_status := CP0_STATUS_IE_MASK OR CP0_STATUS_MASK STATUS_IM\<rparr>)\<rparr>;
     sched_insert thread s2
   }"

text \<open>\<^verbatim>\<open>thread_create (&pthread, entry, data, flags)\<close>: the error code, the new value of \<^verbatim>\<open>pthread\<close> and the state.\<close>

definition thread_create ::
  "'fs falloc \<Rightarrow> u32 \<Rightarrow> u32 \<Rightarrow> u32 \<Rightarrow> u32 \<Rightarrow> u32 \<Rightarrow> ('fs, 'z) kernel_scheme \<Rightarrow> (u32 \<times> u32 \<times> ('fs, 'z) kernel_scheme) option" where
  "thread_create F stub pthread entry data flags s = do {
     (thread, s1) \<leftarrow> malloc F sizeof_thread s;
     if thread = NULL then Some (ENOMEM, pthread, s1)
     else do {
       let s2 = upd_thread thread (\<lambda>t. t\<lparr>stack_size := THREAD_STACK_SIZE\<rparr>) s1;
       (stk, s3) \<leftarrow> malloc F THREAD_STACK_SIZE s2;
       let s4 = upd_thread thread (\<lambda>t. t\<lparr>stack_data := stk\<rparr>) s3;
       if stack_data (thr s4 thread) = NULL then do {
         s5 \<leftarrow> kfree F thread s4;
         Some (ENOMEM, pthread, s5)
       } else do {
         let (state, s5) = irq_off s4;
         let current = cur s5;
         (rc, s6) \<leftarrow>
           (if current = NULL \<or> flags AND TF_NEW_VMM = TF_NEW_VMM then do {
              (rc, vmm, s6) \<leftarrow> vmm_create F (t_vmm (thr s5 thread)) s5;
              Some (rc, upd_thread thread (\<lambda>t. t\<lparr>t_vmm := vmm\<rparr>) s6)
            } else Some (EOK, upd_thread thread (\<lambda>t. t\<lparr>t_vmm := t_vmm (thr s5 current)\<rparr>) s5));
         if rc \<noteq> EOK then do {
           s7 \<leftarrow> kfree F (stack_data (thr s6 thread)) s6;
           s8 \<leftarrow> kfree F thread s7;
           Some (rc, pthread, s8)
         } else do {
           s7 \<leftarrow> thread_setup stub thread entry data (irq_restore state s6);
           Some (EOK, thread, s7)
         }
       }
     }
   }"

text \<open>\<^verbatim>\<open>thread_stub\<close>; \<open>E\<close> runs the entry function at an address on its argument.\<close>

definition thread_stub ::
  "(u32 \<Rightarrow> u32 \<Rightarrow> ('fs, 'z) kernel_scheme \<Rightarrow> (u32 \<times> ('fs, 'z) kernel_scheme) option) \<Rightarrow> u32 \<Rightarrow> ('fs, 'z) kernel_scheme \<Rightarrow>
    ('fs, 'z) kernel_scheme option" where
  "thread_stub E thread s = do {
     (rv, s1) \<leftarrow> E (entry_func (thr s thread)) (entry_data (thr s thread)) s;
     thread_finish rv s1
   }"

text \<open>\<^verbatim>\<open>timers_init\<close>; \<open>fn\<close> is the address of \<^verbatim>\<open>timer_thread_func\<close>.\<close>

definition timers_init :: "'fs falloc \<Rightarrow> u32 \<Rightarrow> u32 \<Rightarrow> ('fs, 'z) kernel_scheme \<Rightarrow> (u32 \<times> ('fs, 'z) kernel_scheme) option" where
  "timers_init F stub fn s = do {
     m \<leftarrow> list_init (k_mem s) (timers_list s);
     let s1 = s\<lparr>k_mem := m\<rparr>;
     (rc, t, s2) \<leftarrow> thread_create F stub (timer_thread s1) fn NULL 0 s1;
     Some (rc, s2\<lparr>timer_thread := t\<rparr>)
   }"

section \<open>Scheduler and heap together\<close>

text \<open>The scheduler is well formed, and runs one of the threads of its queue or, at boot, none yet.\<close>

definition sched_wf :: "('fs, 'z) kernel_scheme \<Rightarrow> sched_abs \<Rightarrow> bool" where
  "sched_wf s a \<longleftrightarrow>
     is_list (k_mem s) (rq s) (queue a) \<and> cur s = running a \<and> (running a = NULL \<or> running a \<in> set (queue a)) \<and>
     set (queue a) \<inter> sleeping a = {} \<and> set (queue a) \<inter> dead a = {} \<and> sleeping a \<inter> dead a = {} \<and>
     NULL \<notin> known a \<and> rq s \<notin> known a \<and> links_sep (insert (rq s) (known a)) \<and>
     (\<forall>t \<in> known a. t_state (thr s t) =
        (if t \<in> sleeping a then THREAD_SLEEPING else if t \<in> dead a then THREAD_ZOMBIE
         else if t = running a then THREAD_RUNNING else THREAD_READY)) \<and>
     (\<forall>t \<in> known a. joiner (thr s t) = waiting a t \<and> (waiting a t = NULL \<or> waiting a t \<in> known a))"

lemma sched_rel_wf: "sched_rel s a \<longleftrightarrow> sched_wf s a \<and> running a \<noteq> NULL"
  by (auto simp: sched_rel_def sched_mid_def sched_wf_def known_def)

text \<open>The heaps are well formed, the scheduler is, and the links of the run queue and of all threads are cells the heap
  leaves alone.\<close>

definition kernel_ok ::
  "'fs falloc \<Rightarrow> ('fs \<Rightarrow> nat set) \<Rightarrow> hp list \<Rightarrow> sched_abs \<Rightarrow> ('fs, 'z) kernel_scheme \<Rightarrow> bool" where
  "kernel_ok F owned hs a s \<longleftrightarrow> kheap_inv F owned s hs \<and> sched_wf s a \<and>
     (\<forall>c \<in> link_cells (sched_links s a). held owned s hs (unat c))"

lemma sched_wf_cong:
  assumes "\<And>c. c \<in> link_cells (sched_links s a) \<Longrightarrow> k_mem s' c = k_mem s c" "runnable_list s' = runnable_list s" "k_cpuid s' = k_cpuid s"
    "current_thread s' = current_thread s" "\<And>t. t \<in> known a \<Longrightarrow> t_state (thr s' t) = t_state (thr s t) \<and> joiner (thr s' t) = joiner (thr s t)"
  shows "sched_wf s a \<Longrightarrow> sched_wf s' a"
proof -
  assume R: "sched_wf s a"
  have "set (rq s # queue a) \<subseteq> sched_links s a" by (auto simp: known_def)
  then have "\<forall>c \<in> link_cells (set (rq s # queue a)). k_mem s' c = k_mem s c" using assms(1) link_cells_mono by blast
  from is_list_cong [OF this] have "is_list (k_mem s') (rq s) (queue a) = is_list (k_mem s) (rq s) (queue a)" .
  then show "sched_wf s' a" using R assms(2-5) by (simp add: sched_wf_def)
qed

text \<open>What creating a thread leaves alone: the variables of the other components and all held memory but the links of the run queue.\<close>

definition same_vars :: "('fs, 'z) kernel_scheme \<Rightarrow> ('fs, 'z) kernel_scheme \<Rightarrow> bool" where
  "same_vars s s' \<longleftrightarrow> heap_list s' = heap_list s \<and> tmr s' = tmr s \<and> k_regs s' = k_regs s \<and> k_tlb s' = k_tlb s \<and> k_cpuid s' = k_cpuid s \<and>
     current_thread s' = current_thread s \<and> runnable_list s' = runnable_list s \<and> timers_list s' = timers_list s \<and>
     timer_thread s' = timer_thread s \<and> jiffies s' = jiffies s \<and> console s' = console s"

definition keeps ::
  "('fs \<Rightarrow> nat set) \<Rightarrow> sched_abs \<Rightarrow> ('fs, 'z) kernel_scheme \<Rightarrow> hp list \<Rightarrow> ('fs, 'z) kernel_scheme \<Rightarrow> hp list \<Rightarrow> bool" where
  "keeps owned a s hs s' hs' \<longleftrightarrow>
     same_vars s s' \<and>
     (\<forall>x. held owned s hs x \<longrightarrow> held owned s' hs' x) \<and>
     (\<forall>c. held owned s hs (unat c) \<and> c \<notin> link_cells (sched_links s a) \<longrightarrow> k_mem s' c = k_mem s c)"

lemma keeps_same: "keeps owned a s hs s' hs' \<Longrightarrow> same_vars s s'"
  by (simp add: keeps_def)

lemma same_vars_refl [simp]: "same_vars s s"
  by (simp add: same_vars_def)

lemma same_vars_upd [simp]: "same_vars s (s'\<lparr>k_mem := m\<rparr>) = same_vars s s'" "same_vars s (s'\<lparr>k_cpu := c\<rparr>) = same_vars s s'"
    "same_vars s (s'\<lparr>k_fs := fs\<rparr>) = same_vars s s'" "same_vars s (s'\<lparr>thr := t\<rparr>) = same_vars s s'" "same_vars s (s'\<lparr>vmms := v\<rparr>) = same_vars s s'"
    "same_vars s (s'\<lparr>k_ctx := x\<rparr>) = same_vars s s'" "same_vars s (s'\<lparr>last_asid := l\<rparr>) = same_vars s s'"
  by (simp_all add: same_vars_def)

lemma keeps_refl: "keeps owned a s hs s hs"
  by (simp add: keeps_def)

lemma keeps_trans:
  assumes A: "keeps owned a s hs s1 hs1" and B: "keeps owned a s1 hs1 s2 hs2"
  shows "keeps owned a s hs s2 hs2"
proof -
  have l: "sched_links s1 a = sched_links s a" using keeps_same [OF A] by (simp add: same_vars_def)
  have "same_vars s s2" using keeps_same [OF A] keeps_same [OF B] by (simp add: same_vars_def)
  moreover have "held owned s2 hs2 x" if "held owned s hs x" for x using A B that by (simp add: keeps_def)
  moreover have "k_mem s2 c = k_mem s c" if "held owned s hs (unat c)" "c \<notin> link_cells (sched_links s a)" for c
  proof -
    have "held owned s1 hs1 (unat c)" "k_mem s1 c = k_mem s c" using A that by (auto simp: keeps_def)
    moreover have "k_mem s2 c = k_mem s1 c" using B that(2) calculation(1) l unfolding keeps_def by metis
    ultimately show ?thesis by simp
  qed
  ultimately show ?thesis by (simp add: keeps_def)
qed

lemma list_kept:
  assumes "keeps owned a s hs s' hs'" and "is_list (k_mem s) h xs"
    and "\<And>c. c \<in> link_cells (set (h # xs)) \<Longrightarrow> held owned s hs (unat c) \<and> c \<notin> link_cells (sched_links s a)"
  shows "is_list (k_mem s') h xs"
  using is_list_cong [of h xs "k_mem s'" "k_mem s"] assms by (auto simp: keeps_def)

lemma held_cpu [simp]: "held owned (s\<lparr>k_cpu := c\<rparr>) hs x = held owned s hs x" "held owned (s\<lparr>thr := f\<rparr>) hs x = held owned s hs x"
    "held owned (s\<lparr>vmms := v\<rparr>) hs x = held owned s hs x" "held owned (s\<lparr>last_asid := i\<rparr>) hs x = held owned s hs x"
    "held owned (s\<lparr>k_mem := m\<rparr>) hs x = held owned s hs x" "held owned (s\<lparr>k_ctx := g\<rparr>) hs x = held owned s hs x"
  by (simp_all add: held_def kept_def)

lemma keeps_upd [simp]: "keeps owned a s hs (s'\<lparr>k_cpu := c\<rparr>) hs' = keeps owned a s hs s' hs'"
    "keeps owned a s hs (s'\<lparr>thr := t\<rparr>) hs' = keeps owned a s hs s' hs'" "keeps owned a s hs (s'\<lparr>vmms := v\<rparr>) hs' = keeps owned a s hs s' hs'"
    "keeps owned a s hs (s'\<lparr>k_ctx := x\<rparr>) hs' = keeps owned a s hs s' hs'" "keeps owned a s hs (s'\<lparr>last_asid := l\<rparr>) hs' = keeps owned a s hs s' hs'"
  by (simp_all add: keeps_def)

lemma kheap_inv_other [simp]: "kheap_inv F owned (s\<lparr>k_cpu := c\<rparr>) hs = kheap_inv F owned s hs"
    "kheap_inv F owned (s\<lparr>thr := f\<rparr>) hs = kheap_inv F owned s hs" "kheap_inv F owned (s\<lparr>vmms := v\<rparr>) hs = kheap_inv F owned s hs"
    "kheap_inv F owned (s\<lparr>last_asid := i\<rparr>) hs = kheap_inv F owned s hs" "kheap_inv F owned (s\<lparr>k_ctx := g\<rparr>) hs = kheap_inv F owned s hs"
  by (simp_all add: kheap_inv_def)

text \<open>Changing what the scheduler does not look at.\<close>

lemma kernel_ok_cong:
  assumes "kernel_ok F owned hs a s" and "k_mem s' = k_mem s" "k_fs s' = k_fs s" "heap_list s' = heap_list s" "runnable_list s' = runnable_list s"
    "k_cpuid s' = k_cpuid s" "current_thread s' = current_thread s" "\<And>t. t \<in> known a \<Longrightarrow> thr s' t = thr s t"
  shows "kernel_ok F owned hs a s'"
proof -
  have "kheap_inv F owned s' hs = kheap_inv F owned s hs" using assms by (intro kheap_inv_cong) auto
  moreover have "held owned s' hs x = held owned s hs x" for x using assms by (simp add: held_def kept_def)
  moreover have "sched_wf s' a" by (rule sched_wf_cong [of s]) (use assms in \<open>auto simp: kernel_ok_def\<close>)
  ultimately show ?thesis using assms by (simp add: kernel_ok_def)
qed

lemma kernel_malloc:
  fixes s :: "('fs, 'z) kernel_scheme"
  assumes K: "kernel_ok F owned hs a s" and n: "n \<le> HEAP_BLOCK_SIZE_MAX"
  obtains (fail) fs' where "malloc F n s = Some (NULL, s\<lparr>k_fs := fs'\<rparr>)" "kernel_ok F owned hs a (s\<lparr>k_fs := fs'\<rparr>)"
      "keeps owned a s hs (s\<lparr>k_fs := fs'\<rparr>) hs" "\<And>x. held owned (s\<lparr>k_fs := fs'\<rparr>) hs x = held owned s hs x"
  | (ok) p k hs' m fs' where "malloc F n s = Some (p, s\<lparr>k_mem := m, k_fs := fs'\<rparr>)" "p \<noteq> NULL" "unat n \<le> k"
      "unat p + k < 2 ^ 32" "allocated hs' = insert (unat p, k) (allocated hs)" "(unat p, k) \<notin> allocated hs"
      "kernel_ok F owned hs' a (s\<lparr>k_mem := m, k_fs := fs'\<rparr>)"
      "keeps owned a s hs (s\<lparr>k_mem := m, k_fs := fs'\<rparr>) hs'"
      "\<And>x. x \<in> area (unat p, k) \<Longrightarrow> held owned (s\<lparr>k_mem := m, k_fs := fs'\<rparr>) hs' x \<and> \<not> held owned s hs x"
proof -
  have inv: "kheap_inv F owned s hs" and H: "\<And>c. c \<in> link_cells (sched_links s a) \<Longrightarrow> held owned s hs (unat c)" and R: "sched_wf s a"
    using K by (auto simp: kernel_ok_def)
  show thesis
  proof (cases rule: malloc_cases [OF inv n, case_names no yes])
    case (no rc phys fs')
    have "kernel_ok F owned hs a (s\<lparr>k_fs := fs'\<rparr>)"
      using K no(5) malloc_fail_held [OF inv no(3,4)] sched_wf_cong [of s a "s\<lparr>k_fs := fs'\<rparr>"] by (simp add: kernel_ok_def)
    then show thesis using malloc_fail_held [OF inv no(3,4)] by (intro fail [OF no(1)]) (auto simp: keeps_def)
  next
    case (yes p k hs' s')
    obtain m fs' where s': "s' = s\<lparr>k_mem := m, k_fs := fs'\<rparr>" using yes(2) unfolding malloc_post_def by blast
    note P = malloc_held [OF inv yes(2), unfolded s'] and Q = yes(2) [unfolded s' malloc_post_def alloc_post_def]
    have B: "unat n \<le> k" "0x80000000 \<le> p" "p + k \<le> 0xA0000000" "allocated hs' = insert (p, k) (allocated hs)"
      "kheap_inv F owned (s\<lparr>k_mem := m, k_fs := fs'\<rparr>) hs'" using Q by auto
    have p: "unat (W p) = p" "W p \<noteq> NULL" using B by (auto simp: unat_W W_eq_0_iff)
    have R': "sched_wf (s\<lparr>k_mem := m, k_fs := fs'\<rparr>) a"
    proof (rule sched_wf_cong [OF _ _ _ _ _ R])
      show "k_mem (s\<lparr>k_mem := m, k_fs := fs'\<rparr>) c = k_mem s c" if "c \<in> link_cells (sched_links s a)" for c
        using P(2) [of "unat c"] H [OF that] unat_u32_less [of c] by simp
    qed simp_all
    have "kernel_ok F owned hs' a (s\<lparr>k_mem := m, k_fs := fs'\<rparr>)"
      using B(5) R' P(1) H by (simp add: kernel_ok_def)
    moreover have "(p, k) \<notin> allocated hs" by (rule malloc_then_free [OF inv yes(2)])
    moreover have "k_mem (s\<lparr>k_mem := m, k_fs := fs'\<rparr>) c = k_mem s c" if "held owned s hs (unat c)" for c
      using P(2) [OF unat_u32_less that] by simp
    then have "keeps owned a s hs (s\<lparr>k_mem := m, k_fs := fs'\<rparr>) hs'" using P(1) by (simp add: keeps_def)
    ultimately show thesis
      using yes(1) s' p B P by (intro ok [of "W p" fs' m k hs']) simp_all
  qed
qed

lemma kernel_free_frame:
  fixes s :: "('fs, 'z) kernel_scheme"
  assumes K: "kernel_ok F owned hs a s" and p: "(unat p, k) \<in> allocated hs"
    and d: "\<And>c. c \<in> link_cells (sched_links s a) \<Longrightarrow> unat c \<notin> area (unat p, k)"
  obtains m fs' hs' where "kfree F p s = Some (s\<lparr>k_mem := m, k_fs := fs'\<rparr>)" "allocated hs' = allocated hs - {(unat p, k)}"
    "kernel_ok F owned hs' a (s\<lparr>k_mem := m, k_fs := fs'\<rparr>)"
    "\<And>x. held owned s hs x \<Longrightarrow> x \<notin> area (unat p, k) \<Longrightarrow> held owned (s\<lparr>k_mem := m, k_fs := fs'\<rparr>) hs' x \<and> (x < 2 ^ 32 \<longrightarrow> m (W x) = k_mem s (W x))"
proof -
  have inv: "kheap_inv F owned s hs" and H: "\<And>c. c \<in> link_cells (sched_links s a) \<Longrightarrow> held owned s hs (unat c)" and R: "sched_wf s a"
    using K by (auto simp: kernel_ok_def)
  obtain s' hs' where f: "kfree F p s = Some s'" "kfree_post F owned s hs (unat p, k) hs' s'"
    using kfree_allocated [OF inv p] by auto
  obtain m fs' where s': "s' = s\<lparr>k_mem := m, k_fs := fs'\<rparr>" using f(2) unfolding kfree_post_def by blast
  note P = kfree_held [OF inv f(2), unfolded s'] and Q = f(2) [unfolded s' kfree_post_def]
  have "sched_wf (s\<lparr>k_mem := m, k_fs := fs'\<rparr>) a"
  proof (rule sched_wf_cong [OF _ _ _ _ _ R])
    show "k_mem (s\<lparr>k_mem := m, k_fs := fs'\<rparr>) c = k_mem s c" if "c \<in> link_cells (sched_links s a)" for c
      using P(2) [of "unat c"] H [OF that] d [OF that] unat_u32_less [of c] by simp
  qed simp_all
  then have "kernel_ok F owned hs' a (s\<lparr>k_mem := m, k_fs := fs'\<rparr>)"
    using Q P(1) H d by (simp add: kernel_ok_def)
  then show thesis using that f(1) s' Q P by auto
qed

lemma kernel_free:
  fixes s s0 :: "('fs, 'z) kernel_scheme"
  assumes K: "kernel_ok F owned hs a s" and p: "(unat p, k) \<in> allocated hs"
    and d: "\<And>c. c \<in> link_cells (sched_links s a) \<Longrightarrow> unat c \<notin> area (unat p, k)"
    and k0: "keeps owned a s0 hs0 s hs" "\<And>x. x \<in> area (unat p, k) \<Longrightarrow> \<not> held owned s0 hs0 x"
  obtains m fs' hs' where "kfree F p s = Some (s\<lparr>k_mem := m, k_fs := fs'\<rparr>)" "allocated hs' = allocated hs - {(unat p, k)}"
    "kernel_ok F owned hs' a (s\<lparr>k_mem := m, k_fs := fs'\<rparr>)" "keeps owned a s0 hs0 (s\<lparr>k_mem := m, k_fs := fs'\<rparr>) hs'"
proof -
  obtain m fs' hs' where f: "kfree F p s = Some (s\<lparr>k_mem := m, k_fs := fs'\<rparr>)" "allocated hs' = allocated hs - {(unat p, k)}"
    "kernel_ok F owned hs' a (s\<lparr>k_mem := m, k_fs := fs'\<rparr>)"
    and P: "\<And>x. held owned s hs x \<Longrightarrow> x \<notin> area (unat p, k) \<Longrightarrow> held owned (s\<lparr>k_mem := m, k_fs := fs'\<rparr>) hs' x \<and> (x < 2 ^ 32 \<longrightarrow> m (W x) = k_mem s (W x))"
    by (rule kernel_free_frame [OF K p d], assumption, rule that)
  have kept: "held owned s hs x" "x \<notin> area (unat p, k)" if "held owned s0 hs0 x" for x
    using that k0 by (auto simp: keeps_def)
  have "k_mem (s\<lparr>k_mem := m, k_fs := fs'\<rparr>) c = k_mem s0 c"
    if "held owned s0 hs0 (unat c)" "c \<notin> link_cells (sched_links s0 a)" for c
    using P [of "unat c"] kept [OF that(1)] unat_u32_less [of c] k0(1) that by (simp add: keeps_def)
  then have "keeps owned a s0 hs0 (s\<lparr>k_mem := m, k_fs := fs'\<rparr>) hs'" using k0(1) P kept by (simp add: keeps_def)
  then show thesis using that f by blast
qed

lemma kernel_write:
  assumes K: "kernel_ok F owned hs a s"
    and w: "\<And>c. m c \<noteq> k_mem s c \<Longrightarrow> held owned s hs (unat c) \<and> c \<notin> link_cells (sched_links s a)"
  shows "kernel_ok F owned hs a (s\<lparr>k_mem := m\<rparr>)"
proof -
  have "kheap_inv F owned (s\<lparr>k_mem := m\<rparr>) hs"
  proof (rule write_held)
    show "m (W x) = k_mem s (W x)" if "x < 2 ^ 32" "\<not> held owned s hs x" for x
      using w [of "W x"] that by (auto simp: unat_W)
  qed (use K in \<open>simp add: kernel_ok_def\<close>)
  moreover have "sched_wf (s\<lparr>k_mem := m\<rparr>) a" by (rule sched_wf_cong [of s]) (use K w in \<open>auto simp: kernel_ok_def\<close>)
  ultimately show ?thesis using K by (simp add: kernel_ok_def)
qed

definition spec_create :: "u32 \<Rightarrow> sched_abs \<Rightarrow> sched_abs" where
  "spec_create t a = a\<lparr>queue := queue a @ [t], waiting := (waiting a)(t := NULL)\<rparr>"

lemma kernel_insert:
  assumes K: "kernel_ok F owned hs a s" and t: "t \<noteq> NULL" "held owned s hs (unat t)" "held owned s hs (unat (t + 4))"
    and sep: "link_cells {t} \<inter> link_cells (sched_links s a) = {}" and st: "t_state (thr s t) = THREAD_READY" "joiner (thr s t) = NULL"
  shows "\<exists>m. sched_insert t s = Some (s\<lparr>k_mem := m\<rparr>) \<and> kernel_ok F owned hs (spec_create t a) (s\<lparr>k_mem := m\<rparr>) \<and>
     (\<forall>c. c \<notin> link_cells (insert t (sched_links s a)) \<longrightarrow> m c = k_mem s c)"
proof -
  have inv: "kheap_inv F owned s hs" and H: "\<And>c. c \<in> link_cells (sched_links s a) \<Longrightarrow> held owned s hs (unat c)" and R: "sched_wf s a"
    using K by (auto simp: kernel_ok_def)
  have L: "is_list (k_mem s) (rq s) (queue a)" "links_sep (sched_links s a)" using R by (auto simp: sched_wf_def)
  have new: "t \<notin> sched_links s a" "links_sep (insert t (sched_links s a))"
    using sep L(2) by (auto simp: link_cells_def links_sep_def)
  have q: "set (rq s # queue a) \<subseteq> sched_links s a" by (auto simp: known_def)
  obtain m where m: "list_append (k_mem s) (rq s) t = Some m" "is_list m (rq s) (queue a @ [t])"
    "\<forall>c. c \<notin> link_cells (insert t (set (rq s # queue a))) \<longrightarrow> m c = k_mem s c"
    using list_append_correct [OF L(1), of t] new t(1) q links_sep_subset [OF new(2), of "insert t (set (rq s # queue a))"] by blast
  have kn: "known (spec_create t a) = insert t (known a)" by (auto simp: known_def spec_create_def)
  have cells: "link_cells (insert t (sched_links s a)) = link_cells {t} \<union> link_cells (sched_links s a)" by (auto simp: link_cells_def)
  have hc: "held owned s hs (unat c)" if "c \<in> link_cells (insert t (sched_links s a))" for c
    using that H t(2,3) unfolding cells by (auto simp: link_cells_def)
  have "kheap_inv F owned (s\<lparr>k_mem := m\<rparr>) hs"
  proof (rule write_held [OF inv])
    fix x :: nat assume x: "x < 2 ^ 32" "\<not> held owned s hs x"
    then have "W x \<notin> link_cells (insert t (set (rq s # queue a)))"
      using hc [of "W x"] link_cells_mono [of "insert t (set (rq s # queue a))" "insert t (sched_links s a)"] q by (auto simp: unat_W)
    then show "m (W x) = k_mem s (W x)" using m(3) by blast
  qed
  moreover have "sched_wf (s\<lparr>k_mem := m\<rparr>) (spec_create t a)"
    using R m(2) new st t(1) unfolding sched_wf_def kn
    by (auto simp: spec_create_def known_def insert_commute)
  moreover have "sched_links (s\<lparr>k_mem := m\<rparr>) (spec_create t a) = insert t (sched_links s a)" by (auto simp: kn)
  ultimately have "kernel_ok F owned hs (spec_create t a) (s\<lparr>k_mem := m\<rparr>)" using hc by (simp add: kernel_ok_def)
  moreover have "\<forall>c. c \<notin> link_cells (insert t (sched_links s a)) \<longrightarrow> m c = k_mem s c"
    using m(3) q link_cells_mono [of "insert t (set (rq s # queue a))" "insert t (sched_links s a)"] by blast
  ultimately show ?thesis using m(1) by (auto simp: sched_insert_eq)
qed

lemma fresh_object:
  assumes K: "kernel_ok F owned hs a s" and f: "\<And>x. x \<in> area (unat p, k) \<Longrightarrow> \<not> held owned s hs x" and k: "92 \<le> k" "unat p + k < 2 ^ 32"
  shows "p \<notin> known a" and "\<And>c. c \<in> link_cells (sched_links s a) \<Longrightarrow> unat c \<notin> area (unat p, k)"
    and "i + 4 \<le> 92 \<Longrightarrow> unat (p + of_nat i) \<in> area (unat p, k)" and "i + 4 \<le> 92 \<Longrightarrow> p + of_nat i \<notin> link_cells (sched_links s a)"
proof -
  show C: "unat c \<notin> area (unat p, k)" if "c \<in> link_cells (sched_links s a)" for c
    using f K that by (auto simp: kernel_ok_def)
  show A: "unat (p + of_nat i) \<in> area (unat p, k)" if "i + 4 \<le> 92" for i
  proof -
    have "unat (of_nat i :: u32) = i" using that by (simp add: unat_of_nat)
    then have "unat (p + of_nat i) = unat p + i" using that k by (simp add: unat_word_ariths)
    then show ?thesis using that k by (simp add: area_def)
  qed
  then show "i + 4 \<le> 92 \<Longrightarrow> p + of_nat i \<notin> link_cells (sched_links s a)" using C by blast
  show "p \<notin> known a" using A [of 0] C [of p] by (auto simp: link_cells_def)
qed

lemma kernel_vmm_create:
  fixes s :: "('fs, 'z) kernel_scheme"
  assumes K: "kernel_ok F owned hs a s"
  obtains (fail) fs' where "vmm_create F old s = Some (ENOMEM, old, s\<lparr>k_fs := fs'\<rparr>)" "kernel_ok F owned hs a (s\<lparr>k_fs := fs'\<rparr>)"
      "keeps owned a s hs (s\<lparr>k_fs := fs'\<rparr>) hs" "\<And>x. held owned (s\<lparr>k_fs := fs'\<rparr>) hs x = held owned s hs x"
  | (ok) v k hs' m fs' where "vmm_create F old s = Some (EOK, v, s\<lparr>k_mem := m, k_fs := fs', vmms := (vmms s)(v := zero_vmm\<lparr>asid := last_asid s\<rparr>),
        last_asid := last_asid s + 1\<rparr>)" "v \<noteq> NULL" "allocated hs' = insert (unat v, k) (allocated hs)"
      "(unat v, k) \<notin> allocated hs"
      "kernel_ok F owned hs' a (s\<lparr>k_mem := m, k_fs := fs', vmms := (vmms s)(v := zero_vmm\<lparr>asid := last_asid s\<rparr>), last_asid := last_asid s + 1\<rparr>)"
      "keeps owned a s hs (s\<lparr>k_mem := m, k_fs := fs', vmms := (vmms s)(v := zero_vmm\<lparr>asid := last_asid s\<rparr>), last_asid := last_asid s + 1\<rparr>) hs'"
proof -
  have n: "sizeof_vmm \<le> HEAP_BLOCK_SIZE_MAX" by (simp add: sizeof_vmm_def HEAP_BLOCK_SIZE_MAX_def)
  show thesis
  proof (cases rule: kernel_malloc [OF K n, case_names no yes])
    case (no fs')
    then have "vmm_create F old s = Some (ENOMEM, old, s\<lparr>k_fs := fs'\<rparr>)" by (simp add: vmm_create_def)
    then show thesis using no(2-4) by (rule fail)
  next
    case (yes p k hs' m fs')
    let ?s = "s\<lparr>k_mem := m, k_fs := fs'\<rparr>"
    let ?s' = "s\<lparr>k_mem := m, k_fs := fs', vmms := (vmms s)(p := zero_vmm\<lparr>asid := last_asid s\<rparr>), last_asid := last_asid s + 1\<rparr>"
    obtain st c where i: "irq_off (upd_vmm p (\<lambda>_. zero_vmm) ?s) = (st, (upd_vmm p (\<lambda>_. zero_vmm) ?s)\<lparr>k_cpu := c\<rparr>)"
      "conditionally_enable_interrupts st c = k_cpu s" using irq_offE [of "upd_vmm p (\<lambda>_. zero_vmm) ?s"] by (auto simp: upd_vmm_def)
    have "vmm_create F old s = Some (EOK, p, ?s')"
      using yes(1,2) i by (simp add: vmm_create_def upd_vmm_def irq_restore_def zero_vmm_def)
    moreover have "kernel_ok F owned hs' a ?s'" by (rule kernel_ok_cong [OF yes(7)]) simp_all
    moreover have "keeps owned a s hs ?s' hs'" using yes(8) by (simp add: keeps_def)
    ultimately show thesis using yes(2,5,6) by (intro ok [of p fs' m hs' k]) simp_all
  qed
qed

text \<open>The structure and the context of a new thread.\<close>

definition new_thread :: "u32 \<Rightarrow> u32 \<Rightarrow> thread \<Rightarrow> thread" where
  "new_thread entry data t = t\<lparr>entry_func := entry, entry_data := data, retval := NULL, t_process := NULL, t_uthread := NULL,
     stack_top := stack_data t + THREAD_STACK_SIZE - CONTEXT_SIZE - ABI_STACK_FRAME, scheduled := 0, t_state := THREAD_READY, joiner := NULL\<rparr>"

definition new_context :: "u32 \<Rightarrow> u32 \<Rightarrow> ctx \<Rightarrow> ctx" where
  "new_context stub thread c = c\<lparr>c_ra := stub, c_a0 := thread, c_gp := ADDR_IN_KSEG0 0, c_status := CP0_STATUS_IE_MASK OR CP0_STATUS_MASK STATUS_IM\<rparr>"

lemma setup_ok:
  assumes K: "kernel_ok F owned hs a s" and p: "p \<noteq> NULL" "p \<notin> known a"
    and h: "\<And>x. x \<in> area (unat p, k) \<Longrightarrow> held owned s hs x"
    and in_area: "\<And>i. i + 4 \<le> 92 \<Longrightarrow> unat (p + of_nat i) \<in> area (unat p, k)"
    and apart: "\<And>i. i + 4 \<le> 92 \<Longrightarrow> p + of_nat i \<notin> link_cells (sched_links s a)"
    and w: "wait_queue_link p \<noteq> NULL"
  shows "\<exists>s'. thread_setup stub p entry data s = Some s' \<and> kernel_ok F owned hs (spec_create p a) s' \<and> same_vars s s' \<and> kernel.more s' = kernel.more s \<and> k_fs s' = k_fs s \<and>
     (\<forall>c. c \<notin> link_cells (sched_links s a) \<and> unat c \<notin> area (unat p, k) \<longrightarrow> k_mem s' c = k_mem s c) \<and>
     thr s' = (thr s)(p := new_thread entry data (thr s p)) \<and> k_cpu s' = k_cpu s \<and> vmms s' = vmms s \<and> last_asid s' = last_asid s \<and>
     k_ctx s' = (k_ctx s)(stack_top (thr s' p) := new_context stub p (k_ctx s (stack_top (thr s' p))))"
proof -
  obtain m1 where m1: "link_init (k_mem s) p = Some m1" "\<forall>c. c \<notin> link_cells {p} \<longrightarrow> m1 c = k_mem s c"
    using link_init_unconnected [OF p(1)] by blast
  obtain m2 where m2: "link_init m1 (wait_queue_link p) = Some m2" "\<forall>c. c \<notin> link_cells {wait_queue_link p} \<longrightarrow> m2 c = m1 c"
    using link_init_unconnected [OF w] by blast
  have cells: "c \<in> {p + of_nat 0, p + of_nat 4, p + of_nat 72, p + of_nat 76}" if "m2 c \<noteq> k_mem s c" for c
    using that m1(2) m2(2) by (cases "c \<in> link_cells {p}"; cases "c \<in> link_cells {wait_queue_link p}")
      (auto simp: link_cells_def wait_queue_link_def add.assoc)
  have ok: "held owned s hs (unat c) \<and> c \<notin> link_cells (sched_links s a)" if c: "m2 c \<noteq> k_mem s c" for c
    using cells [OF c] h in_area [of 0] in_area [of 4] in_area [of 72] in_area [of 76] apart [of 0] apart [of 4] apart [of 72] apart [of 76]
    by auto
  let ?t = "new_thread entry data (thr s p)"
  let ?s = "s\<lparr>k_mem := m2, thr := (thr s)(p := ?t), k_ctx := (k_ctx s)(stack_top ?t := new_context stub p (k_ctx s (stack_top ?t)))\<rparr>"
  have "kernel_ok F owned hs a (s\<lparr>k_mem := m2\<rparr>)" by (rule kernel_write [OF K ok])
  then have K2: "kernel_ok F owned hs a ?s" by (rule kernel_ok_cong) (use p(2) in auto)
  have ins: "\<exists>m. sched_insert p ?s = Some (?s\<lparr>k_mem := m\<rparr>) \<and> kernel_ok F owned hs (spec_create p a) (?s\<lparr>k_mem := m\<rparr>) \<and>
     (\<forall>c. c \<notin> link_cells (insert p (sched_links ?s a)) \<longrightarrow> m c = k_mem ?s c)"
  proof (rule kernel_insert [OF K2 p(1)])
    show "held owned ?s hs (unat p)" "held owned ?s hs (unat (p + 4))" using h in_area [of 0] in_area [of 4] by simp_all
    show "link_cells {p} \<inter> link_cells (sched_links ?s a) = {}" using apart [of 0] apart [of 4] by (auto simp: link_cells_def)
  qed (simp_all add: new_thread_def)
  have "thread_setup stub p entry data s = sched_insert p ?s"
    using m1(1) m2(1) by (simp add: thread_setup_def upd_thread_def new_thread_def new_context_def Let_def upd_order)
  moreover obtain m where m: "sched_insert p ?s = Some (?s\<lparr>k_mem := m\<rparr>)" "kernel_ok F owned hs (spec_create p a) (?s\<lparr>k_mem := m\<rparr>)"
    "\<forall>c. c \<notin> link_cells (insert p (sched_links ?s a)) \<longrightarrow> m c = m2 c" using ins by auto
  moreover have "m c = k_mem s c" if "c \<notin> link_cells (sched_links s a)" "unat c \<notin> area (unat p, k)" for c
  proof -
    have "m2 c = k_mem s c" using cells [of c] that(2) in_area [of 0] in_area [of 4] in_area [of 72] in_area [of 76] by auto
    moreover have "c \<notin> link_cells (insert p (sched_links ?s a))" using that in_area [of 0] in_area [of 4] by (auto simp: link_cells_def)
    ultimately show ?thesis using m(3) by metis
  qed
  ultimately show ?thesis by (intro exI [of _ "?s\<lparr>k_mem := m\<rparr>"]) simp
qed

text \<open>What the result of \<^verbatim>\<open>thread_create\<close> is, given the kernel before and after.\<close>

definition new_map :: "u32 \<Rightarrow> ('fs, 'z) kernel_scheme \<Rightarrow> bool" where
  "new_map flags s \<longleftrightarrow> cur s = NULL \<or> flags AND TF_NEW_VMM = TF_NEW_VMM"

definition created ::
  "'fs falloc \<Rightarrow> ('fs \<Rightarrow> nat set) \<Rightarrow> hp list \<Rightarrow> sched_abs \<Rightarrow> ('fs, 'z) kernel_scheme \<Rightarrow> u32 \<Rightarrow> u32 \<Rightarrow> u32 \<Rightarrow> u32 \<Rightarrow> u32 \<Rightarrow> hp list \<Rightarrow> ('fs, 'z) kernel_scheme \<Rightarrow> bool" where
  "created F owned hs a s stub entry data flags t hs' s' \<longleftrightarrow>
     kernel_ok F owned hs' (spec_create t a) s' \<and> t \<notin> known a \<and> k_cpu s' = k_cpu s \<and> allocated hs \<subseteq> allocated hs' \<and>
     keeps owned a s hs s' hs' \<and> kernel.more s' = kernel.more s \<and> (\<forall>t' \<in> known a. thr s' t' = thr s t') \<and>
     (\<exists>k \<ge> unat sizeof_thread. (unat t, k) \<in> allocated hs' - allocated hs \<and> unat t + k < 2 ^ 32 \<and>
        (\<forall>x \<in> area (unat t, k). \<not> held owned s hs x)) \<and>
     (\<exists>k \<ge> unat THREAD_STACK_SIZE. (unat (stack_data (thr s' t)), k) \<in> allocated hs' - allocated hs \<and> unat (stack_data (thr s' t)) + k < 2 ^ 32 \<and>
        (\<forall>x \<in> area (unat (stack_data (thr s' t)), k). \<not> held owned s hs x)) \<and>
     stack_data (thr s' t) \<noteq> t \<and>
     (\<not> new_map flags s \<longrightarrow> (\<exists>k j. allocated hs' = insert (unat (stack_data (thr s' t)), j) (insert (unat t, k) (allocated hs)))) \<and>
     entry_func (thr s' t) = entry \<and> entry_data (thr s' t) = data \<and> t_state (thr s' t) = THREAD_READY \<and>
     k_ctx s' (stack_top (thr s' t)) = new_context stub t (k_ctx s (stack_top (thr s' t))) \<and>
     stack_top (thr s' t) + CONTEXT_SIZE + ABI_STACK_FRAME = stack_data (thr s' t) + THREAD_STACK_SIZE \<and>
     (if new_map flags s
      then vmms s' (t_vmm (thr s' t)) = zero_vmm\<lparr>asid := last_asid s\<rparr> \<and> last_asid s' = last_asid s + 1
      else t_vmm (thr s' t) = t_vmm (thr s (cur s)) \<and> vmms s' = vmms s \<and> last_asid s' = last_asid s)"

lemma create_tail:
  fixes s s4 :: "('fs, 'z) kernel_scheme"
  assumes K0: "kernel_ok F owned hs a s" and K: "kernel_ok F owned hs6 a s6"
    and p: "p \<noteq> NULL" "92 \<le> k" "unat p + k < 2 ^ 32" "\<And>x. x \<in> area (unat p, k) \<Longrightarrow> held owned s6 hs6 x \<and> \<not> held owned s hs x"
    and k: "keeps owned a s hs s6 hs6" "kernel.more s6 = kernel.more s" "\<And>t. t \<noteq> p \<Longrightarrow> thr s6 t = thr s t" and f: "rq s6 = rq s" "irq_off s4 = (st, s4\<lparr>k_cpu := c\<rparr>)" "conditionally_enable_interrupts st c = k_cpu s" "k_cpu s6 = c"
    and al: "allocated hs \<subseteq> allocated hs6" "(unat p, k) \<in> allocated hs6 - allocated hs"
      "4096 \<le> j" "(unat (stack_data (thr s6 p)), j) \<in> allocated hs6 - allocated hs" "unat (stack_data (thr s6 p)) + j < 2 ^ 32"
      "\<And>x. x \<in> area (unat (stack_data (thr s6 p)), j) \<Longrightarrow> \<not> held owned s hs x" "k_ctx s6 = k_ctx s"
      "stack_data (thr s6 p) \<noteq> p" "\<not> new_map flags s \<Longrightarrow> allocated hs6 = insert (unat (stack_data (thr s6 p)), j) (insert (unat p, k) (allocated hs))"
    and vm: "if new_map flags s
      then vmms s6 (t_vmm (thr s6 p)) = zero_vmm\<lparr>asid := last_asid s\<rparr> \<and> last_asid s6 = last_asid s + 1
      else t_vmm (thr s6 p) = t_vmm (thr s (cur s)) \<and> vmms s6 = vmms s \<and> last_asid s6 = last_asid s"
  shows "\<exists>s' hs'. thread_setup stub p entry data (irq_restore st s6) = Some s' \<and> created F owned hs a s stub entry data flags p hs' s'"
proof -
  have O': "p \<notin> known a" "\<And>i. i + 4 \<le> 92 \<Longrightarrow> unat (p + of_nat i) \<in> area (unat p, k)"
    "\<And>i. i + 4 \<le> 92 \<Longrightarrow> p + of_nat i \<notin> link_cells (sched_links s a)"
    using fresh_object [OF K0, of p k] p(2-4) by blast+
  let ?s7 = "irq_restore st s6"
  have K7: "kernel_ok F owned hs6 a ?s7" by (rule kernel_ok_cong [OF K]) (simp_all add: irq_restore_def)
  have links: "sched_links ?s7 a = sched_links s a" using f(1) by (simp add: irq_restore_def)
  have "unat (wait_queue_link p) = unat p + 72"
    using p(2,3) by (simp add: wait_queue_link_def unat_word_ariths)
  then have wq: "wait_queue_link p \<noteq> NULL" by (metis add_is_0 unsigned_0 zero_neq_numeral)
  obtain s' where m: "thread_setup stub p entry data ?s7 = Some s'" "kernel_ok F owned hs6 (spec_create p a) s'"
    "thr s' = (thr s6)(p := new_thread entry data (thr s6 p))" "k_cpu s' = k_cpu s" "vmms s' = vmms s6" "last_asid s' = last_asid s6"
    "k_ctx s' = (k_ctx s)(stack_top (thr s' p) := new_context stub p (k_ctx s (stack_top (thr s' p))))" "same_vars s6 s'" "k_fs s' = k_fs s6" "kernel.more s' = kernel.more s6"
    "\<forall>c. c \<notin> link_cells (sched_links s a) \<and> unat c \<notin> area (unat p, k) \<longrightarrow> k_mem s' c = k_mem s6 c"
  proof -
    have "held owned ?s7 hs6 x" if "x \<in> area (unat p, k)" for x using p(4) [OF that] by (simp add: irq_restore_def)
    moreover have "p + of_nat i \<notin> link_cells (sched_links ?s7 a)" if "i + 4 \<le> 92" for i unfolding links by (rule O'(3) [OF that])
    ultimately have "\<exists>s'. thread_setup stub p entry data ?s7 = Some s' \<and> kernel_ok F owned hs6 (spec_create p a) s' \<and> same_vars ?s7 s' \<and> kernel.more s' = kernel.more ?s7 \<and> k_fs s' = k_fs ?s7 \<and>
       (\<forall>c. c \<notin> link_cells (sched_links ?s7 a) \<and> unat c \<notin> area (unat p, k) \<longrightarrow> k_mem s' c = k_mem ?s7 c) \<and>
       thr s' = (thr ?s7)(p := new_thread entry data (thr ?s7 p)) \<and> k_cpu s' = k_cpu ?s7 \<and> vmms s' = vmms ?s7 \<and> last_asid s' = last_asid ?s7 \<and>
       k_ctx s' = (k_ctx ?s7)(stack_top (thr s' p) := new_context stub p (k_ctx ?s7 (stack_top (thr s' p))))"
      using O'(1,2) by (intro setup_ok [OF K7 p(1) _ _ _ _ wq]) auto
    then obtain s' where "thread_setup stub p entry data ?s7 = Some s'" "kernel_ok F owned hs6 (spec_create p a) s'" "same_vars ?s7 s'" "kernel.more s' = kernel.more ?s7" "k_fs s' = k_fs ?s7"
      "\<forall>c. c \<notin> link_cells (sched_links ?s7 a) \<and> unat c \<notin> area (unat p, k) \<longrightarrow> k_mem s' c = k_mem ?s7 c"
       "thr s' = (thr ?s7)(p := new_thread entry data (thr ?s7 p))" "k_cpu s' = k_cpu ?s7" "vmms s' = vmms ?s7" "last_asid s' = last_asid ?s7"
       "k_ctx s' = (k_ctx ?s7)(stack_top (thr s' p) := new_context stub p (k_ctx ?s7 (stack_top (thr s' p))))" by blast
    then show thesis using f(3,4) al(7) links by (intro that [of s']) (simp_all add: irq_restore_def same_vars_def)
  qed
  have keep: "keeps owned a s hs s' hs6"
  proof -
    have "held owned s' hs6 x = held owned s6 hs6 x" for x using m(8,9) by (simp add: held_def kept_def same_vars_def)
    moreover have "k_mem s' c = k_mem s c" if "held owned s hs (unat c)" "c \<notin> link_cells (sched_links s a)" for c
      using m(11) k(1) that p(4) unfolding keeps_def by metis
    moreover have "same_vars s s'" using keeps_same [OF k(1)] m(8) by (simp add: same_vars_def)
    ultimately show ?thesis using k(1) by (simp add: keeps_def)
  qed
  have "\<not> new_map flags s \<longrightarrow> (\<exists>k j. allocated hs6 = insert (unat (stack_data (thr s' p)), j) (insert (unat p, k) (allocated hs)))"
    using al(9) m(3) by (auto simp: new_thread_def)
  then have "created F owned hs a s stub entry data flags p hs6 s'"
    using m(2-7,10) O'(1) al(1-8) p(2-4) vm keep k(2,3) unfolding created_def
    by (auto simp: new_thread_def sizeof_thread_def THREAD_STACK_SIZE_def split: if_splits)
  then show ?thesis using m(1) by blast
qed

text \<open>Nothing has been created: the scheduler is as before and all memory has been given back.\<close>

definition not_created ::
  "'fs falloc \<Rightarrow> ('fs \<Rightarrow> nat set) \<Rightarrow> hp list \<Rightarrow> sched_abs \<Rightarrow> ('fs, 'z) kernel_scheme \<Rightarrow> hp list \<Rightarrow> ('fs, 'z) kernel_scheme \<Rightarrow> bool" where
  "not_created F owned hs a s hs' s' \<longleftrightarrow> kernel_ok F owned hs' a s' \<and> allocated hs' = allocated hs \<and> keeps owned a s hs s' hs' \<and>
     kernel.more s' = kernel.more s \<and> vmms s' = vmms s \<and> last_asid s' = last_asid s \<and> k_ctx s' = k_ctx s \<and> (\<forall>t \<in> known a. thr s' t = thr s t)"

text \<open>\<open>begun\<close>: the structure at \<open>p\<close> has been allocated; \<open>stacked\<close>: the stack at \<open>q\<close> too.\<close>

definition begun ::
  "'fs falloc \<Rightarrow> ('fs \<Rightarrow> nat set) \<Rightarrow> hp list \<Rightarrow> sched_abs \<Rightarrow> ('fs, 'z) kernel_scheme \<Rightarrow> u32 \<Rightarrow> nat \<Rightarrow> hp list \<Rightarrow> ('fs, 'z) kernel_scheme \<Rightarrow> bool" where
  "begun F owned hs a s p k hs1 s1 \<longleftrightarrow> kernel_ok F owned hs1 a s1 \<and> kernel.more s1 = kernel.more s \<and> p \<noteq> NULL \<and> 92 \<le> k \<and> unat p + k < 2 ^ 32 \<and>
     allocated hs1 = insert (unat p, k) (allocated hs) \<and> (unat p, k) \<notin> allocated hs \<and>
     (\<forall>x \<in> area (unat p, k). held owned s1 hs1 x \<and> \<not> held owned s hs x) \<and> keeps owned a s hs s1 hs1 \<and>
     rq s1 = rq s \<and> cur s1 = cur s \<and> vmms s1 = vmms s \<and> last_asid s1 = last_asid s \<and> k_ctx s1 = k_ctx s \<and> (\<forall>t. t \<noteq> p \<longrightarrow> thr s1 t = thr s t)"

lemma begun_fresh:
  assumes "kernel_ok F owned hs a s" "begun F owned hs a s p k hs1 s1"
  shows "p \<notin> known a" and "\<And>c. c \<in> link_cells (sched_links s1 a) \<Longrightarrow> unat c \<notin> area (unat p, k)"
  using fresh_object(1,2) [OF assms(1), of p k] assms(2) unfolding begun_def by auto

lemma begun_upd:
  assumes K0: "kernel_ok F owned hs a s" and B: "begun F owned hs a s p k hs1 s1"
  shows "begun F owned hs a s p k hs1 (upd_thread p f s1)"
proof -
  have "kernel_ok F owned hs1 a (upd_thread p f s1)"
    by (rule kernel_ok_cong [of F owned hs1 a s1]) (use B begun_fresh(1) [OF K0 B] in \<open>auto simp: begun_def upd_thread_def\<close>)
  then show ?thesis using B by (simp add: begun_def upd_thread_def)
qed

lemma create_begin:
  fixes s :: "('fs, 'z) kernel_scheme"
  assumes K0: "kernel_ok F owned hs a s"
  obtains (fail) fs' where "malloc F sizeof_thread s = Some (NULL, s\<lparr>k_fs := fs'\<rparr>)" "not_created F owned hs a s hs (s\<lparr>k_fs := fs'\<rparr>)"
  | (ok) p k hs1 s1 where "malloc F sizeof_thread s = Some (p, s1)" "p \<noteq> NULL" "begun F owned hs a s p k hs1 s1" "k_cpu s1 = k_cpu s"
proof -
  have n: "sizeof_thread \<le> HEAP_BLOCK_SIZE_MAX" by (simp add: sizeof_thread_def HEAP_BLOCK_SIZE_MAX_def)
  show thesis
  proof (cases rule: kernel_malloc [OF K0 n, case_names no yes])
    case (no fs')
    then show thesis by (intro fail) (simp_all add: not_created_def)
  next
    case (yes p k hs' m fs')
    then have "begun F owned hs a s p k hs' (s\<lparr>k_mem := m, k_fs := fs'\<rparr>)" by (simp add: begun_def sizeof_thread_def)
    then show thesis by (rule ok [OF yes(1,2)]) simp
  qed
qed

lemma create_free_thread:
  assumes K0: "kernel_ok F owned hs a s" and B: "begun F owned hs a s p k hs1 s1"
  shows "\<exists>s' hs'. kfree F p s1 = Some s' \<and> not_created F owned hs a s hs' s' \<and> k_cpu s' = k_cpu s1"
proof -
  have "kernel_ok F owned hs1 a s1" "(unat p, k) \<in> allocated hs1" using B by (auto simp: begun_def)
  then obtain m fs' hs' where "kfree F p s1 = Some (s1\<lparr>k_mem := m, k_fs := fs'\<rparr>)" "allocated hs' = allocated hs1 - {(unat p, k)}"
    "kernel_ok F owned hs' a (s1\<lparr>k_mem := m, k_fs := fs'\<rparr>)" "keeps owned a s hs (s1\<lparr>k_mem := m, k_fs := fs'\<rparr>) hs'"
  proof (rule kernel_free)
    show "unat c \<notin> area (unat p, k)" if "c \<in> link_cells (sched_links s1 a)" for c by (rule begun_fresh(2) [OF K0 B that])
    show "keeps owned a s hs s1 hs1" "\<And>x. x \<in> area (unat p, k) \<Longrightarrow> \<not> held owned s hs x" using B by (auto simp: begun_def)
  qed
  moreover have "\<forall>t \<in> known a. thr s1 t = thr s t" using B begun_fresh(1) [OF K0 B] by (auto simp: begun_def)
  ultimately show ?thesis using B by (auto simp: not_created_def begun_def)
qed

definition stacked ::
  "'fs falloc \<Rightarrow> ('fs \<Rightarrow> nat set) \<Rightarrow> hp list \<Rightarrow> sched_abs \<Rightarrow> ('fs, 'z) kernel_scheme \<Rightarrow> u32 \<Rightarrow> nat \<Rightarrow> u32 \<Rightarrow> nat \<Rightarrow> hp list \<Rightarrow> ('fs, 'z) kernel_scheme \<Rightarrow> bool" where
  "stacked F owned hs a s p k q j hs2 s2 \<longleftrightarrow> kernel_ok F owned hs2 a s2 \<and> kernel.more s2 = kernel.more s \<and> p \<noteq> NULL \<and> 92 \<le> k \<and> unat p + k < 2 ^ 32 \<and> 4096 \<le> j \<and>
     allocated hs2 = insert (unat q, j) (insert (unat p, k) (allocated hs)) \<and> (unat p, k) \<notin> allocated hs \<and>
     (unat q, j) \<notin> insert (unat p, k) (allocated hs) \<and> stack_data (thr s2 p) = q \<and> q \<noteq> p \<and>
     (\<forall>x \<in> area (unat p, k). held owned s2 hs2 x \<and> \<not> held owned s hs x) \<and>
     (\<forall>x \<in> area (unat q, j). \<not> held owned s hs x) \<and> unat q + j < 2 ^ 32 \<and> keeps owned a s hs s2 hs2 \<and>
     rq s2 = rq s \<and> cur s2 = cur s \<and> vmms s2 = vmms s \<and> last_asid s2 = last_asid s \<and> k_ctx s2 = k_ctx s \<and> (\<forall>t. t \<noteq> p \<longrightarrow> thr s2 t = thr s t)"

lemma create_stack:
  fixes s s1 :: "('fs, 'z) kernel_scheme"
  assumes K0: "kernel_ok F owned hs a s" and B: "begun F owned hs a s p k hs1 s1"
  obtains (fail) s2 where "malloc F THREAD_STACK_SIZE s1 = Some (NULL, s2)" "begun F owned hs a s p k hs1 s2" "k_cpu s2 = k_cpu s1"
  | (ok) q j hs2 s2 where "malloc F THREAD_STACK_SIZE s1 = Some (q, s2)" "q \<noteq> NULL"
      "stacked F owned hs a s p k q j hs2 (upd_thread p (\<lambda>t. t\<lparr>stack_data := q\<rparr>) s2)" "k_cpu s2 = k_cpu s1"
proof -
  have n: "THREAD_STACK_SIZE \<le> HEAP_BLOCK_SIZE_MAX" by (simp add: THREAD_STACK_SIZE_def HEAP_BLOCK_SIZE_MAX_def)
  have K1: "kernel_ok F owned hs1 a s1" using B by (simp add: begun_def)
  show thesis
  proof (cases rule: kernel_malloc [OF K1 n, case_names no yes])
    case (no fs')
    have "keeps owned a s hs (s1\<lparr>k_fs := fs'\<rparr>) hs1" by (rule keeps_trans [OF _ no(3)]) (use B in \<open>simp add: begun_def\<close>)
    then have "begun F owned hs a s p k hs1 (s1\<lparr>k_fs := fs'\<rparr>)" using no(2,4) B by (simp add: begun_def)
    then show thesis by (rule fail [OF no(1)]) simp
  next
    case (yes q j hs2 m fs')
    let ?s = "s1\<lparr>k_mem := m, k_fs := fs'\<rparr>" and ?s2 = "upd_thread p (\<lambda>t. t\<lparr>stack_data := q\<rparr>) (s1\<lparr>k_mem := m, k_fs := fs'\<rparr>)"
    have K2: "kernel_ok F owned hs2 a ?s2"
      by (rule kernel_ok_cong [OF yes(7)]) (use begun_fresh(1) [OF K0 B] in \<open>auto simp: upd_thread_def\<close>)
    have "held owned s1 hs1 (unat p)" "unat q \<in> area (unat q, j)"
      using B yes(3) by (auto simp: begun_def area_def THREAD_STACK_SIZE_def)
    then have qp: "q \<noteq> p" using yes(9) [of "unat q"] B by (auto simp: begun_def keeps_def)
    have "keeps owned a s hs ?s hs2" by (rule keeps_trans [OF _ yes(8)]) (use B in \<open>simp add: begun_def\<close>)
    moreover have "\<not> held owned s hs x" if "x \<in> area (unat q, j)" for x
      using yes(9) [OF that] B by (auto simp: begun_def keeps_def)
    moreover have "held owned ?s2 hs2 x" if "x \<in> area (unat p, k)" for x
      using yes(8) B that by (auto simp: begun_def keeps_def upd_thread_def)
    ultimately have "stacked F owned hs a s p k q j hs2 ?s2"
      using K2 B yes(3-6) qp unfolding stacked_def begun_def by (simp add: upd_thread_def THREAD_STACK_SIZE_def)
    then show thesis by (rule ok [OF yes(1,2)]) simp
  qed
qed

lemma create_free_both:
  assumes K0: "kernel_ok F owned hs a s" and B: "stacked F owned hs a s p k q j hs2 s2"
  shows "\<exists>s3 s' hs'. kfree F q s2 = Some s3 \<and> kfree F p s3 = Some s' \<and> not_created F owned hs a s hs' s' \<and> k_cpu s' = k_cpu s2"
proof -
  note S = B [unfolded stacked_def]
  have link: "unat c \<notin> area x" if "c \<in> link_cells (sched_links s a)" "\<forall>y \<in> area x. \<not> held owned s hs y" for c x
    using K0 that by (auto simp: kernel_ok_def)
  have "kernel_ok F owned hs2 a s2" "(unat q, j) \<in> allocated hs2"
    "\<And>c. c \<in> link_cells (sched_links s2 a) \<Longrightarrow> unat c \<notin> area (unat q, j)" "keeps owned a s hs s2 hs2" "\<And>x. x \<in> area (unat q, j) \<Longrightarrow> \<not> held owned s hs x"
    using S link by auto
  then obtain m fs' hs3 where f: "kfree F q s2 = Some (s2\<lparr>k_mem := m, k_fs := fs'\<rparr>)" "allocated hs3 = allocated hs2 - {(unat q, j)}"
    "kernel_ok F owned hs3 a (s2\<lparr>k_mem := m, k_fs := fs'\<rparr>)" "keeps owned a s hs (s2\<lparr>k_mem := m, k_fs := fs'\<rparr>) hs3" by (rule kernel_free)
  let ?s3 = "s2\<lparr>k_mem := m, k_fs := fs'\<rparr>"
  have "(unat p, k) \<in> allocated hs3" "\<And>c. c \<in> link_cells (sched_links ?s3 a) \<Longrightarrow> unat c \<notin> area (unat p, k)"
    using S f(2) link by auto
  with f(3) obtain m' fs'' hs' where "kfree F p ?s3 = Some (?s3\<lparr>k_mem := m', k_fs := fs''\<rparr>)" "allocated hs' = allocated hs3 - {(unat p, k)}"
    "kernel_ok F owned hs' a (?s3\<lparr>k_mem := m', k_fs := fs''\<rparr>)" "keeps owned a s hs (?s3\<lparr>k_mem := m', k_fs := fs''\<rparr>) hs'"
  proof (rule kernel_free)
    show "keeps owned a s hs ?s3 hs3" "\<And>x. x \<in> area (unat p, k) \<Longrightarrow> \<not> held owned s hs x" using f(4) S by auto
  qed
  moreover have "p \<notin> known a" using fresh_object(1) [OF K0, of p k] S by auto
  then have "\<forall>t \<in> known a. thr s2 t = thr s t" using S by auto
  ultimately show ?thesis using f S by (auto simp: not_created_def)
qed

lemma stacked_cpu: "stacked F owned hs a s p k q j hs2 s2 \<Longrightarrow> stacked F owned hs a s p k q j hs2 (s2\<lparr>k_cpu := c\<rparr>)"
  unfolding stacked_def by (auto intro!: kernel_ok_cong [of F owned hs2 a s2])

lemma stacked_upd_vmm:
  assumes K0: "kernel_ok F owned hs a s" and B: "stacked F owned hs a s p k q j hs2 s2"
  shows "stacked F owned hs a s p k q j hs2 (upd_thread p (\<lambda>t. t\<lparr>t_vmm := v\<rparr>) s2)" and "p \<notin> known a"
proof -
  show p: "p \<notin> known a" using fresh_object(1) [OF K0, of p k] B unfolding stacked_def by auto
  have "kernel_ok F owned hs2 a (upd_thread p (\<lambda>t. t\<lparr>t_vmm := v\<rparr>) s2)"
    by (rule kernel_ok_cong [of F owned hs2 a s2]) (use B p in \<open>auto simp: stacked_def upd_thread_def\<close>)
  then show "stacked F owned hs a s p k q j hs2 (upd_thread p (\<lambda>t. t\<lparr>t_vmm := v\<rparr>) s2)"
    using B by (simp add: stacked_def upd_thread_def)
qed

text \<open>The choice of the map of virtual memory, with interrupts disabled.\<close>

definition create_vmm :: "'fs falloc \<Rightarrow> u32 \<Rightarrow> u32 \<Rightarrow> ('fs, 'z) kernel_scheme \<Rightarrow> (u32 \<times> ('fs, 'z) kernel_scheme) option" where
  "create_vmm F flags thread s =
     (if cur s = NULL \<or> flags AND TF_NEW_VMM = TF_NEW_VMM then do {
        (rc, vmm, s') \<leftarrow> vmm_create F (t_vmm (thr s thread)) s;
        Some (rc, upd_thread thread (\<lambda>t. t\<lparr>t_vmm := vmm\<rparr>) s')
      } else Some (EOK, upd_thread thread (\<lambda>t. t\<lparr>t_vmm := t_vmm (thr s (cur s))\<rparr>) s))"

lemma create_vmm_cases:
  fixes s s2 s4 :: "('fs, 'z) kernel_scheme"
  assumes K0: "kernel_ok F owned hs a s" and B: "stacked F owned hs a s p k q j hs2 s2"
    and tail: "irq_off s4 = (st, s4\<lparr>k_cpu := c\<rparr>)" "conditionally_enable_interrupts st c = k_cpu s" "k_cpu s2 = c"
  obtains (fail) s3 where "create_vmm F flags p s2 = Some (ENOMEM, s3)" "stacked F owned hs a s p k q j hs2 s3"
      "new_map flags s" "stack_data (thr s3 p) = q" "k_cpu s3 = k_cpu s2"
  | (ok) s3 s' hs' where "create_vmm F flags p s2 = Some (EOK, s3)" "thread_setup stub p entry data (irq_restore st s3) = Some s'"
      "created F owned hs a s stub entry data flags p hs' s'"
proof -
  note S = B [unfolded stacked_def]
  have K2: "kernel_ok F owned hs2 a s2" using S by simp
  have pk: "p \<notin> known a" by (rule stacked_upd_vmm(2) [OF K0 B])
  have c2: "cur s2 = cur s" "cur s \<noteq> NULL \<Longrightarrow> thr s2 (cur s) = thr s (cur s)"
    using S pk K0 by (auto simp: kernel_ok_def sched_wf_def known_def)
  then have nm: "new_map flags s2 = new_map flags s" by (simp add: new_map_def)
  show thesis
  proof (cases "new_map flags s")
    case False
    then have c3: "cur s \<noteq> NULL" by (simp add: new_map_def)
    let ?s3 = "upd_thread p (\<lambda>t. t\<lparr>t_vmm := t_vmm (thr s2 (cur s2))\<rparr>) s2"
    note S3 = stacked_upd_vmm(1) [OF K0 B, of "t_vmm (thr s2 (cur s2))", unfolded stacked_def]
    have "\<exists>s' hs'. thread_setup stub p entry data (irq_restore st ?s3) = Some s' \<and> created F owned hs a s stub entry data flags p hs' s'"
    proof (rule create_tail [OF K0 _ _ _ _ _ _ _ _ _ tail(1,2), where k = k and j = j and ?hs6.0 = hs2])
      show "(unat (stack_data (thr ?s3 p)), j) \<in> allocated hs2 - allocated hs" using S3 by auto
    qed (use S3 tail(3) False c2 c3 in \<open>auto simp: upd_thread_def\<close>)
    then show thesis using ok False nm by (auto simp: create_vmm_def new_map_def)
  next
    case True
    show thesis
    proof (cases rule: kernel_vmm_create [OF K2, where old = "t_vmm (thr s2 p)", case_names no yes])
      case (no fs')
      let ?s3 = "upd_thread p (\<lambda>t. t\<lparr>t_vmm := t_vmm (thr s2 p)\<rparr>) (s2\<lparr>k_fs := fs'\<rparr>)"
      have "keeps owned a s hs (s2\<lparr>k_fs := fs'\<rparr>) hs2" by (rule keeps_trans [OF _ no(3)]) (use S in simp)
      then have "stacked F owned hs a s p k q j hs2 (s2\<lparr>k_fs := fs'\<rparr>)" using no(2,4) B by (simp add: stacked_def)
      then have "stacked F owned hs a s p k q j hs2 ?s3" by (rule stacked_upd_vmm(1) [OF K0])
      moreover have "create_vmm F flags p s2 = Some (ENOMEM, ?s3)" using no(1) True nm by (simp add: create_vmm_def new_map_def)
      ultimately show thesis using True S by (intro fail [of ?s3]) (simp_all add: upd_thread_def)
    next
      case (yes v kv hs3 m fs')
      let ?t = "s2\<lparr>k_mem := m, k_fs := fs', vmms := (vmms s2)(v := zero_vmm\<lparr>asid := last_asid s2\<rparr>), last_asid := last_asid s2 + 1\<rparr>"
      let ?s3 = "upd_thread p (\<lambda>t. t\<lparr>t_vmm := v\<rparr>) ?t"
      have K3: "kernel_ok F owned hs3 a ?s3" by (rule kernel_ok_cong [OF yes(5)]) (use pk in \<open>auto simp: upd_thread_def\<close>)
      have "\<exists>s' hs'. thread_setup stub p entry data (irq_restore st ?s3) = Some s' \<and> created F owned hs a s stub entry data flags p hs' s'"
      proof (rule create_tail [OF K0 K3 _ _ _ _ _ _ _ _ tail(1,2), where k = k and j = j])
        show "(unat (stack_data (thr ?s3 p)), j) \<in> allocated hs3 - allocated hs" using S yes(3) by (auto simp: upd_thread_def)
        show "held owned ?s3 hs3 x \<and> \<not> held owned s hs x" if "x \<in> area (unat p, k)" for x
          using S that yes(6) by (auto simp: upd_thread_def keeps_def)
        show "keeps owned a s hs ?s3 hs3" using keeps_trans [OF _ yes(6)] S by (simp add: upd_thread_def)
      qed (use S yes(3) tail(3) True in \<open>auto simp: upd_thread_def\<close>)
      then show thesis using ok True nm yes(1) by (auto simp: create_vmm_def new_map_def)
    qed
  qed
qed

text \<open>The code creates the map with interrupts disabled, but returns from a failure of \<^verbatim>\<open>vmm_create\<close> without enabling them again.\<close>

lemma thread_create_eq:
  "thread_create F stub pthread entry data flags s = do {
     (thread, s1) \<leftarrow> malloc F sizeof_thread s;
     if thread = NULL then Some (ENOMEM, pthread, s1)
     else do {
       (stk, s3) \<leftarrow> malloc F THREAD_STACK_SIZE (upd_thread thread (\<lambda>t. t\<lparr>stack_size := THREAD_STACK_SIZE\<rparr>) s1);
       let s4 = upd_thread thread (\<lambda>t. t\<lparr>stack_data := stk\<rparr>) s3;
       if stk = NULL then do {
         s5 \<leftarrow> kfree F thread s4;
         Some (ENOMEM, pthread, s5)
       } else do {
         let (state, s5) = irq_off s4;
         (rc, s6) \<leftarrow> create_vmm F flags thread s5;
         if rc \<noteq> EOK then do {
           s7 \<leftarrow> kfree F (stack_data (thr s6 thread)) s6;
           s8 \<leftarrow> kfree F thread s7;
           Some (rc, pthread, s8)
         } else do {
           s7 \<leftarrow> thread_setup stub thread entry data (irq_restore state s6);
           Some (EOK, thread, s7)
         }
       }
     }
   }"
  by (simp add: thread_create_def create_vmm_def Let_def upd_thread_def cong: if_cong)

lemma create_outcome:
  fixes s :: "('fs, 'z) kernel_scheme"
  assumes K: "kernel_ok F owned hs a s"
  shows "\<exists>rc t s' hs'. thread_create F stub pthread entry data flags s = Some (rc, t, s') \<and>
     (if rc = EOK then created F owned hs a s stub entry data flags t hs' s'
      else rc = ENOMEM \<and> t = pthread \<and> not_created F owned hs a s hs' s' \<and> (k_cpu s' = k_cpu s \<or> new_map flags s \<and> k_cpu s' = k_cpu (snd (irq_off s))))"
proof (cases rule: create_begin [OF K, case_names no yes])
  case (no fs')
  then show ?thesis by (auto simp: thread_create_eq EOK_def ENOMEM_def)
next
  case (yes p k hs1 s1)
  let ?s1 = "upd_thread p (\<lambda>t. t\<lparr>stack_size := THREAD_STACK_SIZE\<rparr>) s1"
  have B1: "begun F owned hs a s p k hs1 ?s1" by (rule begun_upd [OF K yes(3)])
  have c1: "k_cpu ?s1 = k_cpu s" using yes(4) by (simp add: upd_thread_def)
  show ?thesis
  proof (cases rule: create_stack [OF K B1, case_names no' yes'])
    case (no' s2)
    let ?s2 = "upd_thread p (\<lambda>t. t\<lparr>stack_data := NULL\<rparr>) s2"
    obtain s' hs' where "kfree F p ?s2 = Some s'" "not_created F owned hs a s hs' s'" "k_cpu s' = k_cpu ?s2"
      using create_free_thread [OF K begun_upd [OF K no'(2)]] by blast
    then show ?thesis using yes(1,2) no'(1,3) c1 by (auto simp: thread_create_eq EOK_def ENOMEM_def upd_thread_def)
  next
    case (yes' q j hs2 s2)
    let ?s2 = "upd_thread p (\<lambda>t. t\<lparr>stack_data := q\<rparr>) s2"
    obtain st c where i: "irq_off ?s2 = (st, ?s2\<lparr>k_cpu := c\<rparr>)" "conditionally_enable_interrupts st c = k_cpu s"
      using irq_offE [of ?s2] yes'(4) c1 by (auto simp: upd_thread_def)
    have B: "stacked F owned hs a s p k q j hs2 (?s2\<lparr>k_cpu := c\<rparr>)" by (rule stacked_cpu [OF yes'(3)])
    have off: "k_cpu (snd (irq_off s)) = c"
      using i(1) yes'(4) c1 by (auto simp: irq_off_def upd_thread_def split: prod.splits dest: arg_cong [of _ _ k_cpu])
    show ?thesis
    proof (cases rule: create_vmm_cases [OF K B i, where flags = flags and stub = stub and entry = entry and data = data, case_names cpu no'' yes''])
      case (no'' s3)
      obtain s4 s' hs' where "kfree F q s3 = Some s4" "kfree F p s4 = Some s'" "not_created F owned hs a s hs' s'" "k_cpu s' = k_cpu s3"
        using create_free_both [OF K no''(2)] by blast
      then show ?thesis using yes(1,2) yes'(1,2) i(1) no''(1,3-5) off by (auto simp: thread_create_eq EOK_def ENOMEM_def)
    next
      case (yes'' s3 s' hs')
      then show ?thesis using yes(1,2) yes'(1,2) i(1) by (auto simp: thread_create_eq)
    qed simp
  qed
qed

text \<open>C13: In a kernel whose heaps and scheduler are well formed, \<^verbatim>\<open>thread_create\<close> always returns. On success the heap has the
  thread's structure and its stack, the new thread is the last of the run queue, ready and with its entry function and a
  context that starts it in \<^verbatim>\<open>thread_stub\<close>, and it has the map of the current thread or, with \<^verbatim>\<open>TF_NEW_VMM\<close>, a new one with
  the next address space identifier (a thread created at boot, when no thread runs, always has a new one). On failure the code is \<^verbatim>\<open>ENOMEM\<close>, \<^verbatim>\<open>pthread\<close> is untouched, all memory has been given
  back and the scheduler is as before; the interrupts are as before unless the map could not be created: then they stay disabled.\<close>

theorem thread_create_correct:
  fixes s :: "('fs, 'z) kernel_scheme"
  assumes K: "kernel_ok F owned hs a s"
  shows "\<exists>rc t s' hs'. thread_create F stub pthread entry data flags s = Some (rc, t, s') \<and>
     (if rc = EOK then created F owned hs a s stub entry data flags t hs' s'
      else rc = ENOMEM \<and> t = pthread \<and> not_created F owned hs a s hs' s' \<and> (k_cpu s' = k_cpu s \<or> new_map flags s \<and> k_cpu s' = k_cpu (snd (irq_off s))))"
  by (rule create_outcome [OF K])

text \<open>The small system with 1 MB of static memory and no heap yet.\<close>

definition boot_kernel :: "nat set kernel" where
  "boot_kernel = small_kernel\<lparr>k_mem := small_mem(0x80001000 := 0x80001000, 0x80001004 := 0x80001000), k_fs := {0..<0x100000}\<rparr>"

lemma small_sched_wf: "sched_wf small_kernel small_sched"
  using small_sched_rel by (simp add: sched_rel_wf)

lemma boot_kernel_ok: "kernel_ok one_region (\<lambda>fs. fs) [] small_sched boot_kernel"
proof -
  have "kheap_inv one_region (\<lambda>fs. fs) boot_kernel []"
    using one_region_ok by (auto simp: kheap_inv_def heaps_ok_def heap_bytes_def is_list_empty_iff link_next_def link_prev_def
        boot_kernel_def small_kernel_def)
  moreover have "sched_wf boot_kernel small_sched"
    by (rule sched_wf_cong [OF _ _ _ _ _ small_sched_wf])
      (auto simp: boot_kernel_def small_kernel_def small_sched_def known_def link_cells_def)
  moreover have "held (\<lambda>fs. fs) boot_kernel [] (unat c)" if "c \<in> link_cells (sched_links boot_kernel small_sched)" for c
    using that by (auto simp: boot_kernel_def small_kernel_def small_sched_def known_def link_cells_def held_def kept_def heap_bytes_def)
  ultimately show ?thesis by (simp add: kernel_ok_def)
qed

theorem thread_create_correct_witness:
  "\<exists>rc t s' hs'. thread_create one_region 0x80000400 0 0x80000500 42 TF_NEW_VMM boot_kernel = Some (rc, t, s') \<and>
     (if rc = EOK then created one_region (\<lambda>fs. fs) [] small_sched boot_kernel 0x80000400 0x80000500 42 TF_NEW_VMM t hs' s'
      else rc = ENOMEM \<and> t = 0 \<and> not_created one_region (\<lambda>fs. fs) [] small_sched boot_kernel hs' s' \<and>
        (k_cpu s' = k_cpu boot_kernel \<or> new_map TF_NEW_VMM boot_kernel \<and> k_cpu s' = k_cpu (snd (irq_off boot_kernel))))"
  using thread_create_correct [OF boot_kernel_ok, of "0x80000400" 0 "0x80000500" 42 TF_NEW_VMM] by (simp cong: if_cong)

text \<open>\<^verbatim>\<open>timers_init\<close> starts the thread that runs the timers.\<close>

lemma timers_init_outcome:
  fixes s :: "('fs, 'z) kernel_scheme"
  assumes K: "kernel_ok F owned hs a s"
    and t: "timers_list s \<noteq> NULL" "link_cells {timers_list s} \<inter> link_cells (sched_links s a) = {}"
      "\<And>c. c \<in> link_cells {timers_list s} \<Longrightarrow> held owned s hs (unat c)"
  obtains (fail) m s2 hs' where "timers_init F stub fn s = Some (ENOMEM, s2)" "not_created F owned hs a (s\<lparr>k_mem := m\<rparr>) hs' s2"
  | (ok) p m s2 hs' where "timers_init F stub fn s = Some (EOK, s2\<lparr>timer_thread := p\<rparr>)" "created F owned hs a (s\<lparr>k_mem := m\<rparr>) stub fn NULL 0 p hs' s2"
     "kernel_ok F owned hs a (s\<lparr>k_mem := m\<rparr>)" "is_list m (timers_list s) []"
proof -
  obtain m where m: "list_init (k_mem s) (timers_list s) = Some m" "is_list m (timers_list s) []"
    "\<forall>c. c \<notin> link_cells {timers_list s} \<longrightarrow> m c = k_mem s c"
    using list_init_correct [OF t(1)] by blast
  have K1: "kernel_ok F owned hs a (s\<lparr>k_mem := m\<rparr>)" by (rule kernel_write [OF K]) (use m(3) t(2,3) in blast)
  obtain rc p s2 hs' where c: "thread_create F stub (timer_thread s) fn NULL 0 (s\<lparr>k_mem := m\<rparr>) = Some (rc, p, s2)" and
    q: "if rc = EOK then created F owned hs a (s\<lparr>k_mem := m\<rparr>) stub fn NULL 0 p hs' s2
        else rc = ENOMEM \<and> p = timer_thread s \<and> not_created F owned hs a (s\<lparr>k_mem := m\<rparr>) hs' s2"
    using create_outcome [OF K1, of stub "timer_thread s" fn NULL 0] by (auto split: if_splits)
  have run: "timers_init F stub fn s = Some (rc, s2\<lparr>timer_thread := p\<rparr>)" using m(1) c by (simp add: timers_init_def)
  show thesis
  proof (cases "rc = EOK")
    case True
    then have C: "created F owned hs a (s\<lparr>k_mem := m\<rparr>) stub fn NULL 0 p hs' s2" using q by simp
    show thesis by (rule ok [OF _ C K1 m(2)]) (use run True in simp)
  next
    case False
    then have N: "not_created F owned hs a (s\<lparr>k_mem := m\<rparr>) hs' s2" "p = timer_thread s" "rc = ENOMEM" using q by auto
    have "s2\<lparr>timer_thread := timer_thread s\<rparr> = s2" using keeps_same [of owned a "s\<lparr>k_mem := m\<rparr>" hs s2 hs'] N(1)
      by (simp add: not_created_def same_vars_def)
    then show thesis using run N by (intro fail) simp_all
  qed
qed

end
