(* ===== verification/Thread_Join.thy ===== *)
theory Thread_Join
  imports Thread_Create
begin

text \<open>
  The end of a thread (\<^verbatim>\<open>kernel/proc/thread.c\<close>): the second half of \<^verbatim>\<open>thread_join\<close> and \<^verbatim>\<open>thread_destroy\<close> on the heap. Thread calls keep the heaps well formed, and a thread
  that is created, finishes and is joined gives back what it was created with.
\<close>

section \<open>The heap during thread calls\<close>

text \<open>Thread calls neither lose nor invent threads.\<close>

lemma known_waiting [simp]: "known (a\<lparr>waiting := w\<rparr>) = known a"
  by (simp add: known_def)

lemma known_spec:
  assumes "sched_rel s a"
  shows "known (tcall_spec c a) = known a"
proof -
  have w: "(spec_leave (a\<lparr>waiting := w\<rparr>))\<lparr>sleeping := x\<rparr> = (spec_leave a)\<lparr>sleeping := x, waiting := w\<rparr>" for w x by (simp add: spec_leave_def)
  show ?thesis using known_leave_running [OF assms] by (cases c) (simp_all add: spec_suspend_def w)
qed

text \<open>A kernel with well-formed heaps in which a thread runs, with the set \<open>S\<close> of its scheduler links: thread calls keep it, and change only these links in memory.\<close>

definition live :: "'fs falloc \<Rightarrow> ('fs \<Rightarrow> nat set) \<Rightarrow> hp list \<Rightarrow> u32 set \<Rightarrow> ('fs, 'z) kernel_scheme \<Rightarrow> sched_abs \<Rightarrow> bool" where
  "live F owned hs S s a \<longleftrightarrow> kernel_ok F owned hs a s \<and> running a \<noteq> NULL \<and> sched_links s a = S"

definition call_frame :: "u32 set \<Rightarrow> ('fs, 'z) kernel_scheme \<Rightarrow> ('fs, 'z) kernel_scheme \<Rightarrow> bool" where
  "call_frame S s s' \<longleftrightarrow> sched_frame S s s' \<and> (\<forall>t. stack_data (thr s' t) = stack_data (thr s t))"

lemma schedule_stack: "schedule s = Some (b, s') \<Longrightarrow> stack_data (thr s' t) = stack_data (thr s t)"
  by (rule irq_offE [of s]) (auto simp: schedule_def upd_thread_def irq_restore_def Let_def elim!: bind_eq_SomeE split: if_splits)

lemma wakeup_stack: "thread_wakeup u s = Some (rc, s') \<Longrightarrow> stack_data (thr s' t) = stack_data (thr s t)"
  by (auto simp: thread_wakeup_eq upd_thread_def split: if_splits)

lemma suspend_stack: "thread_suspend s = Some (b, s') \<Longrightarrow> stack_data (thr s' t) = stack_data (thr s t)"
  by (rule irq_offE [of s]) (auto simp: thread_suspend_def sched_remove_eq upd_thread_def irq_restore_def Let_def elim!: bind_eq_SomeE
    dest!: schedule_stack [where t = t] split: if_splits)

lemma finish_stack:
  assumes "thread_finish v s = Some s'"
  shows "stack_data (thr s' t) = stack_data (thr s t)"
proof -
  obtain st c where i: "irq_off s = (st, s\<lparr>k_cpu := c\<rparr>)" by (rule irq_offE)
  show ?thesis using assms
    by (auto simp: thread_finish_def i sched_remove_eq upd_thread_def Let_def elim!: bind_eq_SomeE
      dest!: schedule_stack [where t = t] wakeup_stack [where t = t] split: if_splits)
qed

lemma join_cases:
  assumes "thread_join_begin t s = Some (r, s')"
  shows "\<exists>c. s' = s\<lparr>k_cpu := c\<rparr> \<or> (\<exists>b. thread_suspend (upd_thread t (\<lambda>x. x\<lparr>joiner := cur s\<rparr>) (s\<lparr>k_cpu := c\<rparr>)) = Some (b, s'))"
proof -
  obtain st c where i: "irq_off s = (st, s\<lparr>k_cpu := c\<rparr>)" by (rule irq_offE)
  obtain st' c' where i': "irq_off (s\<lparr>k_cpu := c\<rparr>) = (st', s\<lparr>k_cpu := c'\<rparr>)" by (rule irq_offE [of "s\<lparr>k_cpu := c\<rparr>"]) simp
  show ?thesis using assms
    by (auto simp: thread_join_begin_def thread_can_join_def i i' irq_restore_def Let_def elim!: bind_eq_SomeE split: if_splits)
qed

lemma tcall_stack:
  assumes "tcall_exec c s = Some s'"
  shows "stack_data (thr s' t) = stack_data (thr s t)"
proof (cases c)
  case (Join u)
  then obtain r where "thread_join_begin u s = Some (r, s')" using assms by auto
  from join_cases [OF this] show ?thesis by (auto simp: upd_thread_def dest!: suspend_stack [where t = t])
qed (use assms in \<open>auto simp: thread_yield_def dest!: schedule_stack [where t = t] suspend_stack [where t = t] wakeup_stack [where t = t] finish_stack [where t = t]\<close>)

lemma tcall_live:
  assumes L: "live F owned hs S s a" and c: "tcall_ok c a"
  shows "\<exists>s'. tcall_exec c s = Some s' \<and> live F owned hs S s' (tcall_spec c a) \<and> call_frame S s s'"
proof -
  have K: "kernel_ok F owned hs a s" and S: "S = sched_links s a" using L by (auto simp: live_def)
  have R: "sched_rel s a" using L by (simp add: live_def kernel_ok_def sched_rel_wf)
  from tcall_refines [OF R c] obtain s' where s': "tcall_exec c s = Some s'" "sched_rel s' (tcall_spec c a)" "sched_frame S s s'" unfolding S by blast
  have k: "sched_links s' (tcall_spec c a) = S" using s'(3) known_spec [OF R, of c] by (simp add: S sched_frame_def del: tcall_spec.simps)
  have inv: "kheap_inv F owned s hs" and H: "\<And>q. q \<in> link_cells S \<Longrightarrow> held owned s hs (unat q)" using K by (auto simp: kernel_ok_def S)
  have "kheap_inv F owned (s\<lparr>k_mem := k_mem s'\<rparr>) hs"
  proof (rule write_held [OF inv])
    fix x :: nat
    assume x: "x < 2 ^ 32" "\<not> held owned s hs x"
    then have "W x \<notin> link_cells S" using H [of "W x"] by (auto simp: unat_W)
    then show "k_mem s' (W x) = k_mem s (W x)" using s'(3) by (simp add: sched_frame_def)
  qed
  moreover have "kheap_inv F owned s' hs = kheap_inv F owned (s\<lparr>k_mem := k_mem s'\<rparr>) hs" using s'(3) by (intro kheap_inv_cong) (simp_all add: sched_frame_def)
  moreover have "held owned s' hs x = held owned s hs x" for x using s'(3) by (simp add: held_def kept_def sched_frame_def)
  ultimately have "kernel_ok F owned hs (tcall_spec c a) s'" using s'(2) H by (simp add: kernel_ok_def sched_rel_wf k del: tcall_spec.simps)
  moreover have "running (tcall_spec c a) \<noteq> NULL" using s'(2) by (simp add: sched_rel_wf del: tcall_spec.simps)
  ultimately show ?thesis using s'(1,3) k tcall_stack [OF s'(1)] by (auto simp: live_def call_frame_def simp del: tcall_spec.simps)
qed

interpretation lv: call_refinement "live F owned hs S" tcall_exec tcall_spec tcall_ok "call_frame S"
  for F :: "'fs falloc" and owned hs S
proof
  show "\<exists>s'. tcall_exec c s = Some s' \<and> live F owned hs S s' (tcall_spec c a) \<and> call_frame S s s'"
    if "live F owned hs S s a" "tcall_ok c a" for s :: "('fs, 'z) kernel_scheme" and a c by (rule tcall_live [OF that])
qed (auto simp: call_frame_def dest: sched_frame_trans)

section \<open>Freeing a thread\<close>

text \<open>The scheduler without a finished thread.\<close>

definition spec_reap :: "u32 \<Rightarrow> sched_abs \<Rightarrow> sched_abs" where
  "spec_reap t a = a\<lparr>dead := dead a - {t}\<rparr>"

lemma reap_ok:
  assumes K: "kernel_ok F owned hs a s" and t: "t \<in> dead a" and w: "\<And>t'. t' \<in> known a \<Longrightarrow> waiting a t' \<noteq> t"
  shows "kernel_ok F owned hs (spec_reap t a) s"
proof -
  have k: "known (spec_reap t a) = known a - {t}" using K t by (auto simp: known_def spec_reap_def kernel_ok_def sched_wf_def)
  have "links_sep (insert (rq s) (known a - {t}))" using K by (auto simp: kernel_ok_def sched_wf_def links_sep_def)
  moreover have "running a = NULL \<or> running a \<in> set (queue a) \<and> running a \<noteq> t" using K t by (auto simp: kernel_ok_def sched_wf_def)
  ultimately have "sched_wf s (spec_reap t a)" using K w unfolding kernel_ok_def sched_wf_def k by (auto simp: spec_reap_def)
  then show ?thesis using K k by (auto simp: kernel_ok_def link_cells_def)
qed

text \<open>The second half of \<^verbatim>\<open>thread_join\<close>, once the thread has finished: it returns the value the thread has finished with, gives back the stack and the structure of the
  thread and nothing else, forgets the thread, leaves the heaps and the scheduler well formed and all other held memory as it was, and restores the interrupt state.\<close>

definition reaped ::
  "'fs falloc \<Rightarrow> ('fs \<Rightarrow> nat set) \<Rightarrow> hp list \<Rightarrow> sched_abs \<Rightarrow> ('fs, 'z) kernel_scheme \<Rightarrow> u32 \<Rightarrow> (nat \<times> nat) set \<Rightarrow> u32 \<Rightarrow> hp list \<Rightarrow> ('fs, 'z) kernel_scheme \<Rightarrow> bool" where
  "reaped F owned hs a s t B status hs' s' \<longleftrightarrow> kernel_ok F owned hs' (spec_reap t a) s' \<and> allocated hs' = allocated hs - B \<and>
     (\<forall>x. held owned s hs x \<and> (\<forall>b \<in> B. x \<notin> area b) \<longrightarrow> held owned s' hs' x \<and> (x < 2 ^ 32 \<longrightarrow> k_mem s' (W x) = k_mem s (W x))) \<and>
     s' = s\<lparr>k_mem := k_mem s', k_fs := k_fs s', k_cpu := conditionally_enable_interrupts status (k_cpu s)\<rparr>"

theorem thread_join_end_frees:
  fixes s :: "('fs, 'z) kernel_scheme"
  assumes K: "kernel_ok F owned hs a s" and t: "t \<in> dead a" and w: "\<And>t'. t' \<in> known a \<Longrightarrow> waiting a t' \<noteq> t"
    and b: "(unat t, k) \<in> allocated hs" "(unat (stack_data (thr s t)), j) \<in> allocated hs" "stack_data (thr s t) \<noteq> t"
    and d: "\<And>c. c \<in> link_cells (sched_links s (spec_reap t a)) \<Longrightarrow> unat c \<notin> area (unat t, k) \<union> area (unat (stack_data (thr s t)), j)"
  shows "\<exists>s' hs'. thread_join_end F t status s = Some (retval (thr s t), s') \<and>
     reaped F owned hs a s t {(unat t, k), (unat (stack_data (thr s t)), j)} status hs' s'"
proof -
  let ?q = "stack_data (thr s t)" and ?a = "spec_reap t a"
  have K0: "kernel_ok F owned hs ?a s" by (rule reap_ok [OF K t w])
  have d1: "unat c \<notin> area (unat ?q, j)" if "c \<in> link_cells (sched_links s ?a)" for c using d [OF that] by blast
  obtain m fs1 hs1 where f1: "kfree F ?q s = Some (s\<lparr>k_mem := m, k_fs := fs1\<rparr>)" "allocated hs1 = allocated hs - {(unat ?q, j)}"
    "kernel_ok F owned hs1 ?a (s\<lparr>k_mem := m, k_fs := fs1\<rparr>)"
    "\<And>x. held owned s hs x \<Longrightarrow> x \<notin> area (unat ?q, j) \<Longrightarrow> held owned (s\<lparr>k_mem := m, k_fs := fs1\<rparr>) hs1 x \<and> (x < 2 ^ 32 \<longrightarrow> m (W x) = k_mem s (W x))"
    by (rule kernel_free_frame [OF K0 b(2) d1], assumption, rule that)
  let ?s1 = "s\<lparr>k_mem := m, k_fs := fs1\<rparr>"
  have t1: "(unat t, k) \<in> allocated hs1" unfolding f1(2) using b(1,3) by (simp add: word_unat_eq_iff)
  have d2: "unat c \<notin> area (unat t, k)" if "c \<in> link_cells (sched_links ?s1 ?a)" for c using d [of c] that by simp
  obtain m' fs2 hs2 where f2: "kfree F t ?s1 = Some (?s1\<lparr>k_mem := m', k_fs := fs2\<rparr>)" "allocated hs2 = allocated hs1 - {(unat t, k)}"
    "kernel_ok F owned hs2 ?a (?s1\<lparr>k_mem := m', k_fs := fs2\<rparr>)"
    "\<And>x. held owned ?s1 hs1 x \<Longrightarrow> x \<notin> area (unat t, k) \<Longrightarrow> held owned (?s1\<lparr>k_mem := m', k_fs := fs2\<rparr>) hs2 x \<and> (x < 2 ^ 32 \<longrightarrow> m' (W x) = k_mem ?s1 (W x))"
    by (rule kernel_free_frame [OF f1(3) t1 d2], assumption, rule that)
  let ?s2 = "s\<lparr>k_mem := m', k_fs := fs2, k_cpu := conditionally_enable_interrupts status (k_cpu s)\<rparr>"
  have "thread_join_end F t status s = Some (retval (thr s t), ?s2)" using f1(1) f2(1) by (simp add: thread_join_end_def thread_destroy_def irq_restore_def)
  moreover have "kernel_ok F owned hs2 ?a ?s2" by (rule kernel_ok_cong [OF f2(3)]) simp_all
  moreover have "held owned ?s2 hs2 x = held owned (?s1\<lparr>k_mem := m', k_fs := fs2\<rparr>) hs2 x" for x by (simp add: held_def kept_def)
  ultimately show ?thesis using f1(2,4) f2(2,4) by (intro exI [of _ ?s2] exI [of _ hs2]) (auto simp: reaped_def)
qed

section \<open>The life of a thread\<close>

lemma tcall_retval:
  assumes "tcall_exec c s = Some s'" and "cur s \<noteq> t"
  shows "retval (thr s' t) = retval (thr s t)"
proof -
  have sch: "schedule s = Some (b, s') \<Longrightarrow> retval (thr s' t) = retval (thr s t)" for b and s s' :: "('a, 'b) kernel_scheme"
    by (rule irq_offE [of s]) (auto simp: schedule_def upd_thread_def irq_restore_def Let_def elim!: bind_eq_SomeE split: if_splits)
  have wk: "thread_wakeup u s = Some (rc, s') \<Longrightarrow> retval (thr s' t) = retval (thr s t)" for u rc and s s' :: "('a, 'b) kernel_scheme"
    by (auto simp: thread_wakeup_eq upd_thread_def split: if_splits)
  have su: "thread_suspend s = Some (b, s') \<Longrightarrow> retval (thr s' t) = retval (thr s t)" for b and s s' :: "('a, 'b) kernel_scheme"
    by (rule irq_offE [of s]) (auto simp: thread_suspend_def sched_remove_eq upd_thread_def irq_restore_def Let_def elim!: bind_eq_SomeE dest!: sch split: if_splits)
  show ?thesis
  proof (cases c)
    case (Join u)
    then obtain r where "thread_join_begin u s = Some (r, s')" using assms by auto
    from join_cases [OF this] show ?thesis by (auto simp: upd_thread_def dest!: su)
  next
    case (Finish v)
    obtain st c where i: "irq_off s = (st, s\<lparr>k_cpu := c\<rparr>)" by (rule irq_offE)
    show ?thesis using assms Finish
      by (auto simp: thread_finish_def i sched_remove_eq upd_thread_def Let_def elim!: bind_eq_SomeE dest!: sch wk split: if_splits)
  qed (use assms in \<open>auto simp: thread_yield_def dest!: sch su wk\<close>)
qed

text \<open>A finished thread stays finished, and its result stays what it is.\<close>

definition finished_live ::
  "'fs falloc \<Rightarrow> ('fs \<Rightarrow> nat set) \<Rightarrow> hp list \<Rightarrow> u32 set \<Rightarrow> u32 \<Rightarrow> u32 \<Rightarrow> ('fs, 'z) kernel_scheme \<Rightarrow> sched_abs \<Rightarrow> bool" where
  "finished_live F owned hs S t v s a \<longleftrightarrow> live F owned hs S s a \<and> t \<in> dead a \<and> retval (thr s t) = v"

lemma dead_spec: "t \<in> dead a \<Longrightarrow> t \<in> dead (tcall_spec c a)"
  by (cases c) (auto simp: spec_switch_def spec_suspend_def spec_wakeup_def spec_leave_def)

lemma finished_call:
  assumes "finished_live F owned hs S t v s a" and "tcall_ok c a"
  shows "\<exists>s'. tcall_exec c s = Some s' \<and> finished_live F owned hs S t v s' (tcall_spec c a) \<and> call_frame S s s'"
proof -
  have L: "live F owned hs S s a" and d: "t \<in> dead a" "retval (thr s t) = v" using assms(1) by (simp_all add: finished_live_def)
  from tcall_live [OF L assms(2)] obtain s' where s': "tcall_exec c s = Some s'" "live F owned hs S s' (tcall_spec c a)" "call_frame S s s'" by blast
  have "cur s \<noteq> t" using L d(1) by (auto simp: live_def kernel_ok_def sched_wf_def)
  then show ?thesis using s' tcall_retval [OF s'(1)] dead_spec [OF d(1)] d(2) by (auto simp: finished_live_def simp del: tcall_spec.simps)
qed

interpretation fl: call_refinement "finished_live F owned hs S t v" tcall_exec tcall_spec tcall_ok "call_frame S"
  for F :: "'fs falloc" and owned hs S t v
proof
  show "\<exists>s'. tcall_exec c s = Some s' \<and> finished_live F owned hs S t v s' (tcall_spec c a) \<and> call_frame S s s'"
    if "finished_live F owned hs S t v s a" "tcall_ok c a" for s :: "('fs, 'z) kernel_scheme" and a c by (rule finished_call [OF that])
qed (auto simp: call_frame_def dest: sched_frame_trans)

lemma call_frame_trans: "call_frame S s s' \<Longrightarrow> call_frame S s' s'' \<Longrightarrow> call_frame S s s''"
  by (auto simp: call_frame_def dest: sched_frame_trans)

lemma run_calls_append: "run_calls f (cs @ ds) s = Option.bind (run_calls f cs s) (run_calls f ds)"
proof (induction cs arbitrary: s)
  case (Cons c cs)
  then show ?case by (cases "f c s") simp_all
qed simp

lemma calls_ok_append: "calls_ok ok spec (cs @ ds) a \<longleftrightarrow> calls_ok ok spec cs a \<and> calls_ok ok spec ds (fold spec cs a)"
  by (induction cs arbitrary: a) simp_all

lemma finish_run:
  assumes L: "live F owned hs S s a" and ok: "tcalls_ok (cs @ Finish v # ds) a" and t: "running (fold tcall_spec cs a) = t"
  shows "\<exists>s'. tcalls_exec (cs @ Finish v # ds) s = Some s' \<and> finished_live F owned hs S t v s' (fold tcall_spec (cs @ Finish v # ds) a) \<and> call_frame S s s'"
proof -
  let ?b = "fold tcall_spec cs a"
  have o: "tcalls_ok cs a" "tcall_ok (Finish v) ?b" "tcalls_ok ds (tcall_spec (Finish v) ?b)" using ok by (simp_all only: calls_ok_append calls_ok.simps)
  from lv.calls_refine [OF L o(1)] obtain s1 where s1: "tcalls_exec cs s = Some s1" "live F owned hs S s1 ?b" "call_frame S s s1" by blast
  from tcall_live [OF s1(2) o(2)] obtain s2 where s2: "thread_finish v s1 = Some s2" "live F owned hs S s2 (tcall_spec (Finish v) ?b)" "call_frame S s1 s2" by auto
  have "sched_rel s1 ?b" using s1(2) by (simp add: live_def kernel_ok_def sched_rel_wf)
  from finish_refines [OF this o(2)] s2(1) t have "retval (thr s2 t) = v" by auto
  moreover have "t \<in> dead (tcall_spec (Finish v) ?b)" using t by (simp add: spec_switch_def spec_wakeup_def)
  ultimately have "finished_live F owned hs S t v s2 (tcall_spec (Finish v) ?b)" using s2(2) by (simp add: finished_live_def)
  from fl.calls_refine [OF this o(3)] obtain s3 where "tcalls_exec ds s2 = Some s3" "finished_live F owned hs S t v s3 (fold tcall_spec ds (tcall_spec (Finish v) ?b))"
    "call_frame S s2 s3" by blast
  then show ?thesis using s1(1,3) s2(1,3) by (auto simp: run_calls_append dest: call_frame_trans simp del: tcall_spec.simps)
qed


text \<open>A thread created in the small system: the memory suffices.\<close>

lemma boot_first_malloc:
  "\<exists>s. malloc one_region sizeof_thread boot_kernel = Some (0x81000024, s) \<and> cur s = cur boot_kernel \<and> kheap_inv one_region (\<lambda>fs. fs) s [(0x81000000, [(116, False), (65400, True)])]"
proof -
  let ?fs = "{0..<0x100000} \<union> frame_range 0x1000000 16"
  have nf: "new_frames 92 = 16" "real_block 92 = 116" by (simp_all add: new_frames_def real_block_def)
  have fa: "frame_alloc one_region (k_fs boot_kernel) (W (new_frames (unat sizeof_thread))) (VF_VA_AUTO OR VF_AT_KSEG0) = (EOK, 0x1000000, ?fs)"
    by (auto simp: one_region_def boot_kernel_def frame_range_def nf sizeof_thread_def)
  have sz: "sizeof_thread \<le> HEAP_BLOCK_SIZE_MAX" by (simp add: HEAP_BLOCK_SIZE_MAX_def sizeof_thread_def)
  obtain st c where q: "query_and_disable_interrupts (k_cpu boot_kernel) = (st, c)" by fastforce
  let ?s = "boot_kernel\<lparr>k_cpu := c\<rparr>"
  have inv: "kheap_inv one_region (\<lambda>fs. fs) boot_kernel []" using boot_kernel_ok by (simp add: kernel_ok_def)
  then have "kheap_inv one_region (\<lambda>fs. fs) ?s []" by simp
  then obtain m' where M: "malloc_heap one_region sizeof_thread ?s = Some (0x81000024, ?s\<lparr>k_mem := m', k_fs := ?fs\<rparr>)"
    "kheap_inv one_region (\<lambda>fs. fs) (?s\<lparr>k_mem := m', k_fs := ?fs\<rparr>) [new_heap 0x81000000 92]"
    using malloc_heap_correct [of one_region "\<lambda>fs. fs" ?s "[]" sizeof_thread "0x1000000" ?fs] sz fa by (auto simp: sizeof_thread_def)
  have "malloc one_region sizeof_thread boot_kernel = Some (0x81000024, boot_kernel\<lparr>k_mem := m', k_fs := ?fs\<rparr>)"
    using malloc_miss [OF inv sz _ q] M(1) interrupt_bracket [OF q] by simp
  moreover have "kheap_inv one_region (\<lambda>fs. fs) (boot_kernel\<lparr>k_mem := m', k_fs := ?fs\<rparr>) [(0x81000000, [(116, False), (65400, True)])]"
    using M(2) by (simp add: kheap_inv_def new_heap_def split_block_def nf)
  ultimately show ?thesis by (intro exI [of _ "boot_kernel\<lparr>k_mem := m', k_fs := ?fs\<rparr>"]) simp
qed

lemma small_create:
  obtains t s1 hs1 where "thread_create one_region stub p entry data 0 boot_kernel = Some (EOK, t, s1)"
    "created one_region (\<lambda>fs. fs) [] small_sched boot_kernel stub entry data 0 t hs1 s1"
proof -
  obtain s1 where m1: "malloc one_region sizeof_thread boot_kernel = Some (0x81000024, s1)" "kheap_inv one_region (\<lambda>fs. fs) s1 [(0x81000000, [(116, False), (65400, True)])]" "cur s1 = cur boot_kernel"
    using boot_first_malloc by blast
  let ?s1 = "upd_thread 0x81000024 (\<lambda>t. t\<lparr>stack_size := THREAD_STACK_SIZE\<rparr>) s1"
  have inv: "kheap_inv one_region (\<lambda>fs. fs) ?s1 [(0x81000000, [(116, False), (65400, True)])]" using m1(2) by (simp add: upd_thread_def)
  have sz: "THREAD_STACK_SIZE \<le> HEAP_BLOCK_SIZE_MAX" by (simp add: HEAP_BLOCK_SIZE_MAX_def THREAD_STACK_SIZE_def)
  obtain p' hs' where hit: "alloc_heaps (real_block (unat THREAD_STACK_SIZE)) [(0x81000000, [(116, False), (65400, True)])] = Some (p', hs')"
    by (simp add: THREAD_STACK_SIZE_def real_block_def)
  obtain n s2 where m2: "malloc one_region THREAD_STACK_SIZE ?s1 = Some (W p', s2)" "malloc_post one_region (\<lambda>fs. fs) (unat THREAD_STACK_SIZE) ?s1 [(0x81000000, [(116, False), (65400, True)])] (p', n) hs' s2"
    by (rule malloc_hit [OF inv sz hit])
  have q: "W p' \<noteq> NULL" using m2(2) by (auto simp: malloc_post_def W_eq_0_iff)
  have nm: "\<not> new_map 0 boot_kernel" by (simp add: new_map_def TF_NEW_VMM_def boot_kernel_def small_kernel_def)
  obtain rc t s' hs' where c: "thread_create one_region stub p entry data 0 boot_kernel = Some (rc, t, s')"
    "if rc = EOK then created one_region (\<lambda>fs. fs) [] small_sched boot_kernel stub entry data 0 t hs' s'
      else rc = ENOMEM \<and> t = p \<and> not_created one_region (\<lambda>fs. fs) [] small_sched boot_kernel hs' s'"
    using create_outcome [OF boot_kernel_ok, of stub p entry data 0] by (auto split: if_splits)
  let ?s2 = "upd_thread 0x81000024 (\<lambda>t. t\<lparr>stack_data := W p'\<rparr>) s2"
  obtain st c' where i: "irq_off ?s2 = (st, ?s2\<lparr>k_cpu := c'\<rparr>)" by (rule irq_offE)
  have s2: "s2 = ?s1\<lparr>k_mem := k_mem s2, k_fs := k_fs s2\<rparr>" using m2(2) by (simp only: malloc_post_def)
  have "current_thread s2 = current_thread ?s1" "k_cpuid s2 = k_cpuid ?s1" by (subst s2, simp)+
  then have "cur s2 = cur ?s1" by simp
  then have "cur s2 \<noteq> NULL" using m1(3) by (simp add: upd_thread_def boot_kernel_def small_kernel_def)
  then have "rc = EOK" using c(1) m1(1) m2(1) q nm i
    by (auto simp: thread_create_eq create_vmm_def new_map_def upd_thread_def Let_def elim!: bind_eq_SomeE split: prod.splits if_splits)
  then show thesis using that c by auto
qed


section \<open>Waking up a thread that joins\<close>

text \<open>A thread that sleeps in \<^verbatim>\<open>thread_join\<close> can be woken up by anyone, not only by the end of the thread it waits for, and \<^verbatim>\<open>thread_join\<close> does not look at the state of that
  thread again: here both threads are runnable, and the rest of the join would free a thread that has not finished.\<close>

lemma join_woken_early:
  assumes R: "sched_rel s a" and t: "t \<in> set (queue a)" "t \<noteq> running a" "waiting a t = NULL"
  shows "\<exists>s' b. tcalls_exec [Join t, Wakeup (running a)] s = Some s' \<and> sched_rel s' b \<and> t \<in> set (queue b) \<and> running a \<in> set (queue b) \<and> t_state (thr s' t) \<noteq> THREAD_ZOMBIE"
proof -
  have k: "t \<notin> dead a" "running a \<in> set (queue a)" using R t(1) by (auto simp: sched_rel_def sched_mid_def)
  have q: "t \<in> set (queue (spec_leave a))" using t(1,2) by (simp add: spec_leave_def in_set_remove1)
  then have ne: "queue (spec_leave a) \<noteq> []" by auto
  let ?b = "fold tcall_spec [Join t, Wakeup (running a)] a"
  have kn: "running a \<in> known (tcall_spec (Join t) a)" using known_spec [OF R, of "Join t"] k(2) by (simp add: known_def del: tcall_spec.simps)
  have "tcalls_ok [Join t, Wakeup (running a)] a" using t(1) ne kn by (simp add: known_def del: tcall_spec.simps)
  from tcalls_refine [OF R this] obtain s' where s': "tcalls_exec [Join t, Wakeup (running a)] s = Some s'" "sched_rel s' ?b" by blast
  have b: "t \<in> set (queue ?b)" "running a \<in> set (queue ?b)" "t \<notin> dead ?b"
    using t k q by (simp_all add: spec_suspend_def spec_switch_def spec_wakeup_def spec_leave_def)
  then have "t_state (thr s' t) \<noteq> THREAD_ZOMBIE" using s'(2) by (auto simp: sched_rel_def sched_mid_def known_def simp del: fold_simps)
  then show ?thesis using s' b by blast
qed

end
