(* ===== verification/Thread_Calls.thy ===== *)
theory Thread_Calls
  imports Thread_Join
begin

text \<open>
  Whole thread calls: \<^verbatim>\<open>kernel/proc/thread.c\<close> with both halves of \<^verbatim>\<open>thread_join\<close>, the destruction of the joined thread included, in any interleaving. A run of calls
  refines an abstract machine of scheduler, joins in progress and threads that exist; the relation ties the blocks of the heap to the threads. The last section finds the
  threads of a kernel under construction in this relation.
\<close>

section \<open>Calls from beginning to end\<close>

text \<open>A thread that sleeps in \<^verbatim>\<open>thread_join\<close> executes the rest of it when it runs again, before it calls anything else. The state of a run of calls holds, beside the kernel, for
  every thread in the middle of a join the thread it waits for and the local variable \<^verbatim>\<open>status\<close>, and what the joins have returned so far: who, whom, and the value, or that the
  code was \<^verbatim>\<open>EINVAL\<close>.\<close>

datatype join_result = Joined u32 u32 u32 | Refused u32 u32

type_synonym ('fs, 'z) call_state = "('fs, 'z) kernel_scheme \<times> (u32 \<rightharpoonup> u32 \<times> u32) \<times> join_result list"

definition resume_join :: "'fs falloc \<Rightarrow> ('fs, 'z) call_state \<Rightarrow> ('fs, 'z) call_state option" where
  "resume_join F st = (case st of (s, J, out) \<Rightarrow>
     (case J (cur s) of
       None \<Rightarrow> Some st
     | Some (thread, status) \<Rightarrow> do {
         (rv, s1) \<leftarrow> thread_join_end F thread status s;
         Some (s1, J(cur s := None), out @ [Joined (cur s) thread rv])
       }))"

definition join_call :: "'fs falloc \<Rightarrow> u32 \<Rightarrow> ('fs, 'z) call_state \<Rightarrow> ('fs, 'z) call_state option" where
  "join_call F thread st = (case st of (s, J, out) \<Rightarrow> do {
     (j, s1) \<leftarrow> thread_join_begin thread s;
     case j of
       Join_Invalid \<Rightarrow> Some (s1, J, out @ [Refused (cur s) thread])
     | Join_Waits status \<Rightarrow> Some (s1, J(cur s \<mapsto> (thread, status)), out)
     | Join_Proceeds status \<Rightarrow> resume_join F (s1, J(cur s \<mapsto> (thread, status)), out)
   })"

definition call_exec :: "'fs falloc \<Rightarrow> tcall \<Rightarrow> ('fs, 'z) call_state \<Rightarrow> ('fs, 'z) call_state option" where
  "call_exec F c st = do {
     (s, J, out) \<leftarrow> resume_join F st;
     (case c of
        Join thread \<Rightarrow> join_call F thread (s, J, out)
      | _ \<Rightarrow> map_option (\<lambda>s'. (s', J, out)) (tcall_exec c s))
   }"

section \<open>The specification\<close>

text \<open>The abstract scheduler with the joins in progress, the values the finished threads have left, the results of the joins, and the threads \<open>dyn\<close> that
  \<^verbatim>\<open>thread_create\<close> has made and that still exist.\<close>

record life_abs =
  sc :: sched_abs
  joins :: "u32 \<rightharpoonup> u32"
  vals :: "u32 \<Rightarrow> u32"
  results :: "join_result list"
  dyn :: "u32 set"

definition spec_resume :: "life_abs \<Rightarrow> life_abs" where
  "spec_resume x = (case joins x (running (sc x)) of
     None \<Rightarrow> x
   | Some t \<Rightarrow> x\<lparr>sc := spec_reap t (sc x), joins := (joins x)(running (sc x) := None), dyn := dyn x - {t},
       results := results x @ [Joined (running (sc x)) t (vals x t)]\<rparr>)"

fun call_effect :: "tcall \<Rightarrow> life_abs \<Rightarrow> life_abs" where
  "call_effect (Join t) x = (let a = sc x in
     if t = running a \<or> waiting a t \<noteq> NULL then x\<lparr>results := results x @ [Refused (running a) t]\<rparr>
     else let y = x\<lparr>sc := tcall_spec (Join t) a, joins := (joins x)(running a \<mapsto> t)\<rparr> in if t \<in> dead a then spec_resume y else y)"
| "call_effect (Finish v) x = x\<lparr>sc := tcall_spec (Finish v) (sc x), vals := (vals x)(running (sc x) := v)\<rparr>"
| "call_effect c x = x\<lparr>sc := tcall_spec c (sc x)\<rparr>"

definition call_spec :: "tcall \<Rightarrow> life_abs \<Rightarrow> life_abs" where
  "call_spec c x = call_effect c (spec_resume x)"

text \<open>What the callers owe. The idle thread \<open>i\<close> only yields and wakes up; a thread that is joined is one \<^verbatim>\<open>thread_create\<close> has made and nobody has joined to the end yet, so that
  its address is valid; a thread that is woken up exists and does not sleep in a join.\<close>

definition effect_ok :: "u32 \<Rightarrow> tcall \<Rightarrow> life_abs \<Rightarrow> bool" where
  "effect_ok i c x \<longleftrightarrow> (case c of
     Yield \<Rightarrow> True
   | Wakeup t \<Rightarrow> t \<in> known (sc x) \<and> joins x t = None
   | Join t \<Rightarrow> running (sc x) \<noteq> i \<and> t \<in> dyn x
   | _ \<Rightarrow> running (sc x) \<noteq> i)"

definition call_ok :: "u32 \<Rightarrow> tcall \<Rightarrow> life_abs \<Rightarrow> bool" where
  "call_ok i c x \<longleftrightarrow> effect_ok i c (spec_resume x)"

section \<open>The relation\<close>

text \<open>The heap blocks of a thread: its structure and its stack, with their sizes \<open>n\<close>.\<close>

definition thread_blocks :: "(u32 \<Rightarrow> nat \<times> nat) \<Rightarrow> ('fs, 'z) kernel_scheme \<Rightarrow> u32 \<Rightarrow> (nat \<times> nat) set" where
  "thread_blocks n s t = {(unat t, fst (n t)), (unat (stack_data (thr s t)), snd (n t))}"

definition own_blocks :: "(u32 \<Rightarrow> nat \<times> nat) \<Rightarrow> u32 set \<Rightarrow> hp list \<Rightarrow> sched_abs \<Rightarrow> ('fs, 'z) kernel_scheme \<Rightarrow> bool" where
  "own_blocks n D hs a s \<longleftrightarrow> D \<subseteq> known a \<and> (\<forall>t \<in> D. thread_blocks n s t \<subseteq> allocated hs \<and> stack_data (thr s t) \<noteq> t \<and>
     (\<forall>u \<in> D. u \<noteq> t \<longrightarrow> thread_blocks n s u \<inter> thread_blocks n s t = {}) \<and>
     (\<forall>c \<in> link_cells (insert (rq s) (known a - {t})). \<forall>b \<in> thread_blocks n s t. unat c \<notin> area b))"

text \<open>The joins in progress: who sleeps in a join is the joiner of that thread, and runs again only when it has finished.\<close>

definition joins_ok :: "life_abs \<Rightarrow> bool" where
  "joins_ok x \<longleftrightarrow> (\<forall>w t. joins x w = Some t \<longrightarrow> w \<in> set (queue (sc x)) \<union> sleeping (sc x) \<and> t \<in> dyn x \<and>
       (waiting (sc x) t = w \<or> w = running (sc x) \<and> waiting (sc x) t = NULL) \<and> (w \<in> set (queue (sc x)) \<longrightarrow> t \<in> dead (sc x))) \<and>
     (\<forall>t \<in> known (sc x). waiting (sc x) t \<noteq> NULL \<longrightarrow> joins x (waiting (sc x) t) = Some t)"

text \<open>The blocks of the heap are those of the threads and others, \<open>B\<close>, that stay as they are.\<close>

definition life_rel ::
  "'fs falloc \<Rightarrow> ('fs \<Rightarrow> nat set) \<Rightarrow> u32 \<Rightarrow> (nat \<times> nat) set \<Rightarrow> (u32 \<Rightarrow> nat \<times> nat) \<Rightarrow> ('fs, 'z) call_state \<Rightarrow> life_abs \<Rightarrow> bool" where
  "life_rel F owned i B n st x \<longleftrightarrow> (case st of (s, J, out) \<Rightarrow>
     (\<exists>hs. kernel_ok F owned hs (sc x) s \<and> own_blocks n (dyn x) hs (sc x) s \<and>
        allocated hs = B \<union> (\<Union>t \<in> dyn x. thread_blocks n s t) \<and> (\<forall>t \<in> dyn x. B \<inter> thread_blocks n s t = {})) \<and>
     running (sc x) \<noteq> NULL \<and> i \<in> set (queue (sc x)) \<and> joins_ok x \<and> (\<forall>w. map_option fst (J w) = joins x w) \<and>
     (\<forall>t \<in> dead (sc x). retval (thr s t) = vals x t) \<and> out = results x)"

section \<open>Refinement\<close>

lemma own_blocks_cong:
  assumes "own_blocks n D hs a s" and "rq s' = rq s" "\<And>t. t \<in> D \<Longrightarrow> stack_data (thr s' t) = stack_data (thr s t)" "known a' = known a"
  shows "own_blocks n D hs a' s'" and "t \<in> D \<Longrightarrow> thread_blocks n s' t = thread_blocks n s t"
  using assms by (simp_all add: own_blocks_def thread_blocks_def)

lemma resume_refines:
  assumes R: "life_rel F owned i B n (s, J, out) x"
  shows "\<exists>st. resume_join F (s, J, out) = Some st \<and> life_rel F owned i B n st (spec_resume x) \<and> joins (spec_resume x) (running (sc (spec_resume x))) = None"
proof -
  obtain hs where K: "kernel_ok F owned hs (sc x) s" and O: "own_blocks n (dyn x) hs (sc x) s"
    and al: "allocated hs = B \<union> (\<Union>t \<in> dyn x. thread_blocks n s t)" "\<forall>t \<in> dyn x. B \<inter> thread_blocks n s t = {}"
    and r: "running (sc x) \<noteq> NULL" "i \<in> set (queue (sc x))" and JO: "joins_ok x" and J: "\<And>w. map_option fst (J w) = joins x w"
    and v: "\<forall>t \<in> dead (sc x). retval (thr s t) = vals x t" and o: "out = results x"
    using R by (auto simp: life_rel_def)
  have c: "cur s = running (sc x)" "running (sc x) \<in> set (queue (sc x))" using K r by (auto simp: kernel_ok_def sched_wf_def)
  show ?thesis
  proof (cases "joins x (running (sc x))")
    case None
    then have "J (cur s) = None" using J [of "cur s"] c by simp
    then show ?thesis using None R by (simp add: resume_join_def spec_resume_def)
  next
    case (Some t)
    let ?r = "running (sc x)" and ?a = "spec_reap t (sc x)"
    obtain status where Jr: "J (cur s) = Some (t, status)" using J [of "cur s"] Some c by auto
    have t: "t \<in> dyn x" "waiting (sc x) t = ?r \<or> waiting (sc x) t = NULL" "t \<in> dead (sc x)" using JO Some c(2) by (auto simp: joins_ok_def)
    have kn: "t \<in> known (sc x)" using t(3) by (simp add: known_def)
    have dj: "set (queue (sc x)) \<inter> dead (sc x) = {}" "sleeping (sc x) \<inter> dead (sc x) = {}" using K by (auto simp: kernel_ok_def sched_wf_def)
    have w: "waiting (sc x) u \<noteq> t" if "u \<in> known (sc x)" for u
    proof
      assume e: "waiting (sc x) u = t"
      have "t \<noteq> NULL" using K kn by (auto simp: kernel_ok_def sched_wf_def)
      then have "joins x t = Some u" using JO that e by (auto simp: joins_ok_def)
      then show False using JO t(3) dj by (auto simp: joins_ok_def)
    qed
    have kr: "known ?a = known (sc x) - {t}" using t(3) dj by (auto simp: known_def spec_reap_def)
    have tb: "thread_blocks n s t \<subseteq> allocated hs" "stack_data (thr s t) \<noteq> t"
      "\<forall>c \<in> link_cells (sched_links s ?a). \<forall>b \<in> thread_blocks n s t. unat c \<notin> area b"
      using O t(1) kr by (auto simp: own_blocks_def)
    obtain s' hs' where e: "thread_join_end F t status s = Some (retval (thr s t), s')"
      "reaped F owned hs (sc x) s t (thread_blocks n s t) status hs' s'"
      using thread_join_end_frees [OF K t(3) w, of "fst (n t)" "snd (n t)" status] tb unfolding thread_blocks_def by auto
    have K': "kernel_ok F owned hs' ?a s'" and al': "allocated hs' = allocated hs - thread_blocks n s t"
      and s': "s' = s\<lparr>k_mem := k_mem s', k_fs := k_fs s', k_cpu := conditionally_enable_interrupts status (k_cpu s)\<rparr>"
      using e(2) by (auto simp only: reaped_def)
    have f: "rq s' = rq s" "thr s' = thr s" "cur s' = cur s" by (subst s', simp)+
    have tb': "thread_blocks n s' = thread_blocks n s" by (simp add: thread_blocks_def f fun_eq_iff)
    have O': "own_blocks n (dyn x - {t}) hs' ?a s'"
      unfolding own_blocks_def f tb' kr
    proof (intro conjI ballI impI)
      show "dyn x - {t} \<subseteq> known (sc x) - {t}" using O by (auto simp: own_blocks_def)
      fix u assume u: "u \<in> dyn x - {t}"
      have U: "thread_blocks n s u \<subseteq> allocated hs" "stack_data (thr s u) \<noteq> u" "thread_blocks n s t \<inter> thread_blocks n s u = {}"
        "\<forall>v \<in> dyn x. v \<noteq> u \<longrightarrow> thread_blocks n s v \<inter> thread_blocks n s u = {}"
        "\<forall>c \<in> link_cells (insert (rq s) (known (sc x) - {u})). \<forall>b \<in> thread_blocks n s u. unat c \<notin> area b"
        using O u t(1) by (auto simp: own_blocks_def)
      show "thread_blocks n s u \<subseteq> allocated hs'" unfolding al' using U(1,3) by blast
      show "stack_data (thr s u) \<noteq> u" by (rule U(2))
      show "thread_blocks n s v \<inter> thread_blocks n s u = {}" if "v \<in> dyn x - {t}" "v \<noteq> u" for v using U(4) that by blast
      show "unat c \<notin> area b" if "c \<in> link_cells (insert (rq s) (known (sc x) - {t} - {u}))" "b \<in> thread_blocks n s u" for c b
        using U(5) that link_cells_mono [of "insert (rq s) (known (sc x) - {t} - {u})" "insert (rq s) (known (sc x) - {u})"] by blast
    qed
    have A: "allocated hs' = B \<union> (\<Union>u \<in> dyn x - {t}. thread_blocks n s' u)"
    proof -
      have "thread_blocks n s u \<inter> thread_blocks n s t = {}" if "u \<in> dyn x - {t}" for u using O t(1) that by (auto simp: own_blocks_def)
      then show ?thesis unfolding al' al(1) tb' using al(2) t(1) by auto
    qed
    have y: "sc (spec_resume x) = ?a" "joins (spec_resume x) = (joins x)(?r := None)" "dyn (spec_resume x) = dyn x - {t}" "vals (spec_resume x) = vals x"
      "results (spec_resume x) = results x @ [Joined ?r t (vals x t)]" using Some by (simp_all add: spec_resume_def)
    have ya: "queue ?a = queue (sc x)" "sleeping ?a = sleeping (sc x)" "dead ?a = dead (sc x) - {t}" "waiting ?a = waiting (sc x)" "running ?a = ?r"
      by (simp_all add: spec_reap_def)
    have JO': "joins_ok (spec_resume x)"
      unfolding joins_ok_def y ya kr
    proof (intro conjI allI impI ballI)
      fix w u
      assume j: "((joins x)(?r := None)) w = Some u"
      then have jw: "joins x w = Some u" and wr: "w \<noteq> ?r" by (auto split: if_splits)
      have A: "w \<in> set (queue (sc x)) \<union> sleeping (sc x)" "u \<in> dyn x" "waiting (sc x) u = w" "w \<in> set (queue (sc x)) \<longrightarrow> u \<in> dead (sc x)"
        using JO jw wr unfolding joins_ok_def by blast+
      have "w \<noteq> NULL" using A(1) K by (auto simp: kernel_ok_def sched_wf_def known_def)
      then have "u \<noteq> t" using A(3) t(2) wr by blast
      then show "w \<in> set (queue (sc x)) \<union> sleeping (sc x)" "u \<in> dyn x - {t}" "waiting (sc x) u = w \<or> w = ?r \<and> waiting (sc x) u = NULL" "w \<in> set (queue (sc x)) \<Longrightarrow> u \<in> dead (sc x) - {t}"
        using A by blast+
    next
      fix u
      assume u: "u \<in> known (sc x) - {t}" and nz: "waiting (sc x) u \<noteq> NULL"
      then have ju: "joins x (waiting (sc x) u) = Some u" using JO unfolding joins_ok_def by blast
      then have "waiting (sc x) u \<noteq> ?r" using Some u by auto
      then show "((joins x)(?r := None)) (waiting (sc x) u) = Some u" using ju by simp
    qed
    have "life_rel F owned i B n (s', J(cur s := None), out @ [Joined (cur s) t (retval (thr s t))]) (spec_resume x)"
      unfolding life_rel_def prod.case y ya
    proof (intro conjI)
      show "\<exists>hs. kernel_ok F owned hs ?a s' \<and> own_blocks n (dyn x - {t}) hs ?a s' \<and> allocated hs = B \<union> \<Union> (thread_blocks n s' ` (dyn x - {t})) \<and>
          (\<forall>t \<in> dyn x - {t}. B \<inter> thread_blocks n s' t = {})"
        using K' O' A al(2) unfolding tb' by blast
      show "\<forall>w. map_option fst ((J(cur s := None)) w) = ((joins x)(?r := None)) w" using J c(1) by simp
      show "\<forall>u \<in> dead (sc x) - {t}. retval (thr s' u) = vals x u" using v f by simp
      show "out @ [Joined (cur s) t (retval (thr s t))] = results x @ [Joined ?r t (vals x t)]" using o c(1) v t(3) by simp
    qed (rule r JO')+
    then show ?thesis using e(1) Jr y ya by (auto simp: resume_join_def)
  qed
qed

lemma join_kind:
  assumes "sched_rel s a" and "t \<in> known a" and "queue (spec_leave a) \<noteq> []" and "thread_join_begin t s = Some (r, s')"
  shows "r = Join_Invalid \<longleftrightarrow> t = running a \<or> waiting a t \<noteq> NULL" and "r = Join_Proceeds st \<Longrightarrow> t \<in> dead a" and "r = Join_Waits st \<Longrightarrow> t \<notin> dead a"
  using join_refines [OF assms(1-3)] assms(4) by auto

text \<open>What the abstract state of a well-formed kernel owes.\<close>

definition abs_wf :: "sched_abs \<Rightarrow> bool" where
  "abs_wf a \<longleftrightarrow> distinct (queue a) \<and> running a \<in> set (queue a) \<and> set (queue a) \<inter> sleeping a = {} \<and> set (queue a) \<inter> dead a = {} \<and>
     sleeping a \<inter> dead a = {} \<and> NULL \<notin> known a"

lemma kernel_abs_wf:
  assumes "kernel_ok F owned hs a s" and "running a \<noteq> NULL"
  shows "abs_wf a"
  using assms is_listD(2) [of "k_mem s" "rq s" "queue a"] by (auto simp: kernel_ok_def sched_wf_def abs_wf_def)

lemma tcall_ok_idle:
  assumes W: "abs_wf (sc x)" and ok: "effect_ok i c x" and i: "i \<in> set (queue (sc x))" and D: "dyn x \<subseteq> known (sc x)"
  shows "tcall_ok c (sc x)" and "i \<in> set (queue (tcall_spec c (sc x)))"
proof -
  have l: "i \<in> set (queue (spec_leave (sc x)))" if "running (sc x) \<noteq> i" using that i by (simp add: spec_leave_def in_set_remove1)
  then have ne: "queue (spec_leave (sc x)) \<noteq> []" if "running (sc x) \<noteq> i" using that by fastforce
  show "tcall_ok c (sc x)" using ok ne D by (cases c) (auto simp: effect_ok_def)
  show "i \<in> set (queue (tcall_spec c (sc x)))"
    using ok l i by (cases c) (auto simp: effect_ok_def spec_switch_def spec_suspend_def spec_wakeup_def spec_leave_def)
qed

text \<open>The effect of a call, but for the rest of a join of a finished thread.\<close>

definition call_begin :: "tcall \<Rightarrow> life_abs \<Rightarrow> life_abs" where
  "call_begin c x =
     (case c of
        Join t \<Rightarrow> if t = running (sc x) \<or> waiting (sc x) t \<noteq> NULL then x else x\<lparr>sc := tcall_spec c (sc x), joins := (joins x)(running (sc x) \<mapsto> t)\<rparr>
      | Finish v \<Rightarrow> x\<lparr>sc := tcall_spec c (sc x), vals := (vals x)(running (sc x) := v)\<rparr>
      | _ \<Rightarrow> x\<lparr>sc := tcall_spec c (sc x)\<rparr>)"

lemma begin_joins_ok:
  assumes JO: "joins_ok x" and W: "abs_wf (sc x)" and n: "joins x (running (sc x)) = None" and ok: "effect_ok i c x" and D: "dyn x \<subseteq> known (sc x)"
  shows "joins_ok (call_begin c x)"
proof -
  let ?a = "sc x" and ?r = "running (sc x)"
  have j: "w \<in> set (queue ?a) \<union> sleeping ?a" "w \<noteq> ?r" "w \<noteq> NULL" "t \<in> dyn x" "waiting ?a t = w" "w \<in> set (queue ?a) \<Longrightarrow> t \<in> dead ?a" if "joins x w = Some t" for w t
  proof -
    show nr: "w \<noteq> ?r" using n that by auto
    show "w \<in> set (queue ?a) \<union> sleeping ?a" "t \<in> dyn x" "waiting ?a t = w" "w \<in> set (queue ?a) \<Longrightarrow> t \<in> dead ?a"
      using JO that nr unfolding joins_ok_def by blast+
    then show "w \<noteq> NULL" using W by (auto simp: abs_wf_def known_def)
  qed
  have wt: "joins x (waiting ?a t) = Some t" if "t \<in> known ?a" "waiting ?a t \<noteq> NULL" for t using JO that unfolding joins_ok_def by blast
  have rm: "set (remove1 ?r (queue ?a)) = set (queue ?a) - {?r}" using W by (simp add: abs_wf_def)
  have r: "?r \<in> known ?a" "?r \<noteq> NULL" "?r \<notin> sleeping ?a" "?r \<notin> dead ?a" "?r \<in> set (queue ?a)" using W by (auto simp: abs_wf_def known_def)
  have okI: "joins_ok y" if "known (sc y) = known ?a" "dyn y = dyn x" "joins y = joins x" "waiting (sc y) = waiting ?a"
    "\<And>w t. joins x w = Some t \<Longrightarrow> w \<in> set (queue (sc y)) \<union> sleeping (sc y) \<and> (w \<in> set (queue (sc y)) \<longrightarrow> t \<in> dead (sc y))" for y
    unfolding joins_ok_def that(1-4) using that(5) j(4,5) wt by blast
  show ?thesis
  proof (cases c)
    case Yield
    show ?thesis by (rule okI) (use j(1,6) in \<open>auto simp: Yield call_begin_def spec_switch_def known_def\<close>)
  next
    case Suspend
    have y: "set (queue (spec_suspend ?a)) = set (queue ?a) - {?r}" "sleeping (spec_suspend ?a) = insert ?r (sleeping ?a)" "dead (spec_suspend ?a) = dead ?a"
      "waiting (spec_suspend ?a) = waiting ?a" by (simp_all add: spec_suspend_def spec_switch_def spec_leave_def rm)
    have k: "known (spec_suspend ?a) = known ?a" using r by (auto simp: known_def y)
    show ?thesis by (rule okI) (use j(1,2,6) in \<open>auto simp: Suspend call_begin_def k y\<close>)
  next
    case (Wakeup t)
    have n: "joins x t = None" using ok Wakeup by (simp add: effect_ok_def)
    show ?thesis by (rule okI) (use j(1,6) n in \<open>auto simp: Wakeup call_begin_def spec_wakeup_def known_def\<close>)
  next
    case (Finish v)
    have q: "set (queue (tcall_spec (Finish v) ?a)) = set (queue ?a) - {?r} \<union> {waiting ?a ?r} \<inter> sleeping ?a"
      "sleeping (tcall_spec (Finish v) ?a) = sleeping ?a - {waiting ?a ?r}" "dead (tcall_spec (Finish v) ?a) = insert ?r (dead ?a)"
      "waiting (tcall_spec (Finish v) ?a) = waiting ?a"
      by (auto simp: spec_wakeup_def spec_switch_def spec_leave_def rm)
    have k: "known (tcall_spec (Finish v) ?a) = known ?a" using r unfolding known_def q by auto
    have w: "t = ?r" if "joins x (waiting ?a ?r) = Some t" "waiting ?a ?r \<in> sleeping ?a" for t
    proof -
      have "waiting ?a ?r \<noteq> NULL" using that(2) W by (auto simp: abs_wf_def known_def)
      then show ?thesis using wt [OF r(1)] that(1) by simp
    qed
    have f: "sc (call_begin c x) = tcall_spec (Finish v) ?a" by (simp add: Finish call_begin_def del: tcall_spec.simps)
    show ?thesis
    proof (rule okI)
      fix u t assume u: "joins x u = Some t"
      show "u \<in> set (queue (sc (call_begin c x))) \<union> sleeping (sc (call_begin c x)) \<and> (u \<in> set (queue (sc (call_begin c x))) \<longrightarrow> t \<in> dead (sc (call_begin c x)))"
        using j(1,2,6) [OF u] w u unfolding f q by blast
    qed (simp_all add: Finish call_begin_def k q del: tcall_spec.simps)
  next
    case (Join t)
    show ?thesis
    proof (cases "t = ?r \<or> waiting ?a t \<noteq> NULL")
      case True
      then show ?thesis using Join JO by (simp add: call_begin_def)
    next
      case False
      have t: "t \<in> dyn x" "t \<in> known ?a" using ok Join D by (auto simp: effect_ok_def)
      have u: "u \<noteq> t" if "joins x w = Some u" for w u using j(3,5) [OF that] False by auto
      have J: "joins (call_begin c x) = (joins x)(?r \<mapsto> t)" "dyn (call_begin c x) = dyn x" "sc (call_begin c x) = tcall_spec (Join t) ?a"
        using False Join by (simp_all add: call_begin_def del: tcall_spec.simps)
      show ?thesis
      proof (cases "t \<in> dead ?a")
        case True
        then have e: "tcall_spec (Join t) ?a = ?a" by simp
        have "joins x (waiting ?a v) = Some v \<and> waiting ?a v \<noteq> ?r" if "v \<in> known ?a" "waiting ?a v \<noteq> NULL" for v
          using wt [OF that] n by auto
        then show ?thesis unfolding joins_ok_def J e using j(1,4,5,6) r(5) t(1) True False by (auto split: if_splits)
      next
        case nd: False
        let ?b = "tcall_spec (Join t) ?a"
        have q: "set (queue ?b) = set (queue ?a) - {?r}" "sleeping ?b = insert ?r (sleeping ?a)" "dead ?b = dead ?a" "waiting ?b = (waiting ?a)(t := ?r)"
          using False nd by (simp_all add: spec_suspend_def spec_switch_def spec_leave_def rm)
        have k: "known ?b = known ?a" using r unfolding known_def q by auto
        have "((joins x)(?r \<mapsto> t)) (((waiting ?a)(t := ?r)) v) = Some v" if v: "v \<in> known ?a" "((waiting ?a)(t := ?r)) v \<noteq> NULL" for v
        proof (cases "v = t")
          case vt: False
          then have "joins x (waiting ?a v) = Some v" using wt v by simp
          then show ?thesis using n vt by auto
        qed simp
        moreover have "w \<in> set (queue ?a) - {?r} \<union> insert ?r (sleeping ?a) \<and> v \<in> dyn x \<and> ((waiting ?a)(t := ?r)) v = w \<and> (w \<in> set (queue ?a) - {?r} \<longrightarrow> v \<in> dead ?a)"
          if "((joins x)(?r \<mapsto> t)) w = Some v" for w v
        proof (cases "w = ?r")
          case True
          then show ?thesis using that t(1) by simp
        next
          case wr: False
          then have jw: "joins x w = Some v" using that by simp
          show ?thesis using j(1,4,5,6) [OF jw] u [OF jw] wr by simp
        qed
        ultimately show ?thesis unfolding joins_ok_def J q k by blast
      qed
    qed
  qed
qed

lemma call_begin_simps:
  "sc (call_begin c x) = tcall_spec c (sc x)" "dyn (call_begin c x) = dyn x" "results (call_begin c x) = results x"
  "vals (call_begin c x) = (case c of Finish v \<Rightarrow> (vals x)(running (sc x) := v) | _ \<Rightarrow> vals x)"
  "joins (call_begin c x) = (case c of Join t \<Rightarrow> if t = running (sc x) \<or> waiting (sc x) t \<noteq> NULL then joins x else (joins x)(running (sc x) \<mapsto> t) | _ \<Rightarrow> joins x)"
  by (cases c; simp add: call_begin_def)+

lemma dead_effect:
  assumes "t \<in> dead (tcall_spec c a)"
  shows "t \<in> dead a \<or> (\<exists>v. c = Finish v) \<and> t = running a"
  using assms by (cases c) (auto simp: spec_switch_def spec_suspend_def spec_wakeup_def spec_leave_def split: if_splits)

lemma begin_refines:
  assumes R: "life_rel F owned i B n (s, J, out) x" and none: "joins x (running (sc x)) = None" and ok: "effect_ok i c x"
  shows "\<exists>s'. tcall_exec c s = Some s' \<and> tcall_ok c (sc x) \<and>
     (\<forall>J'. (\<forall>w. map_option fst (J' w) = joins (call_begin c x) w) \<longrightarrow> life_rel F owned i B n (s', J', out) (call_begin c x))"
proof -
  obtain hs where K: "kernel_ok F owned hs (sc x) s" and O: "own_blocks n (dyn x) hs (sc x) s"
    and al: "allocated hs = B \<union> (\<Union>t \<in> dyn x. thread_blocks n s t)" "\<forall>t \<in> dyn x. B \<inter> thread_blocks n s t = {}"
    and r: "running (sc x) \<noteq> NULL" "i \<in> set (queue (sc x))" and JO: "joins_ok x"
    and v: "\<forall>t \<in> dead (sc x). retval (thr s t) = vals x t" and o: "out = results x"
    using R by (auto simp: life_rel_def)
  have W: "abs_wf (sc x)" by (rule kernel_abs_wf [OF K r(1)])
  have D: "dyn x \<subseteq> known (sc x)" using O by (simp add: own_blocks_def)
  note I = tcall_ok_idle [OF W ok r(2) D]
  have SR: "sched_rel s (sc x)" using K r by (simp add: kernel_ok_def sched_rel_wf)
  have "live F owned hs (sched_links s (sc x)) s (sc x)" using K r by (simp add: live_def)
  from tcall_live [OF this I(1)] obtain s' where s': "tcall_exec c s = Some s'" "kernel_ok F owned hs (tcall_spec c (sc x)) s'" "running (tcall_spec c (sc x)) \<noteq> NULL"
    "call_frame (sched_links s (sc x)) s s'" by (auto simp: live_def)
  have f: "rq s' = rq s" "\<And>t. stack_data (thr s' t) = stack_data (thr s t)" using s'(4) by (simp_all add: call_frame_def sched_frame_def)
  have O': "own_blocks n (dyn x) hs (tcall_spec c (sc x)) s'" by (rule own_blocks_cong(1) [OF O f(1)]) (simp_all only: f known_spec [OF SR])
  have tb: "thread_blocks n s' t = thread_blocks n s t" for t by (simp add: thread_blocks_def f)
  have c: "cur s = running (sc x)" using K by (simp add: kernel_ok_def sched_wf_def)
  have rv: "retval (thr s' t) = vals (call_begin c x) t" if t: "t \<in> dead (tcall_spec c (sc x))" for t
  proof (cases "t = running (sc x)")
    case True
    then have "t \<notin> dead (sc x)" using W by (auto simp: abs_wf_def)
    then obtain u where u: "c = Finish u" using dead_effect [OF t] by blast
    then have "retval (thr s' (running (sc x))) = u" using finish_refines [OF SR, of u] I(1) s'(1) by auto
    then show ?thesis using True u by (simp add: call_begin_simps)
  next
    case False
    then have "t \<in> dead (sc x)" using dead_effect [OF t] by blast
    then show ?thesis using tcall_retval [OF s'(1), of t] False c v by (simp add: call_begin_simps split: tcall.split)
  qed
  have "life_rel F owned i B n (s', J', out) (call_begin c x)" if J': "\<forall>w. map_option fst (J' w) = joins (call_begin c x) w" for J'
    unfolding life_rel_def prod.case call_begin_simps(1-3)
  proof (intro conjI)
    show "\<exists>hs. kernel_ok F owned hs (tcall_spec c (sc x)) s' \<and> own_blocks n (dyn x) hs (tcall_spec c (sc x)) s' \<and> allocated hs = B \<union> \<Union> (thread_blocks n s' ` dyn x) \<and>
        (\<forall>t \<in> dyn x. B \<inter> thread_blocks n s' t = {})" using s'(2) O' al unfolding tb by blast
  qed (use s'(3) I(2) begin_joins_ok [OF JO W none ok D] J' rv o in \<open>simp_all del: tcall_spec.simps\<close>)
  then show ?thesis using s'(1) I(1) by blast
qed

lemma call_refines:
  assumes R: "life_rel F owned i B n st x" and ok: "call_ok i c x"
  shows "\<exists>st'. call_exec F c st = Some st' \<and> life_rel F owned i B n st' (call_spec c x)"
proof -
  obtain s0 J0 out0 where st: "st = (s0, J0, out0)" by (cases st)
  let ?x = "spec_resume x"
  from resume_refines [OF R [unfolded st]] obtain s J out where e: "resume_join F st = Some (s, J, out)" and R1: "life_rel F owned i B n (s, J, out) ?x"
    and none: "joins ?x (running (sc ?x)) = None" by (auto simp: st)
  from begin_refines [OF R1 none ok [unfolded call_ok_def]] obtain s' where s': "tcall_exec c s = Some s'" "tcall_ok c (sc ?x)"
    and L: "\<And>J'. \<forall>w. map_option fst (J' w) = joins (call_begin c ?x) w \<Longrightarrow> life_rel F owned i B n (s', J', out) (call_begin c ?x)" by blast
  have J: "map_option fst (J w) = joins ?x w" for w using R1 by (simp add: life_rel_def)
  have o: "out = results ?x" and cur: "cur s = running (sc ?x)" and K: "sched_rel s (sc ?x)" using R1 by (auto simp: life_rel_def kernel_ok_def sched_wf_def sched_rel_wf)
  show ?thesis
  proof (cases "\<exists>t. c = Join t")
    case False
    then have "call_begin c ?x = call_effect c ?x" by (cases c) (simp_all add: call_begin_def)
    moreover have "joins (call_begin c ?x) = joins ?x" using False by (cases c) (simp_all add: call_begin_simps)
    ultimately have "life_rel F owned i B n (s', J, out) (call_spec c x)" using L [of J] J by (simp add: call_spec_def)
    moreover have "call_exec F c st = Some (s', J, out)" using e s'(1) False by (cases c) (simp_all add: call_exec_def)
    ultimately show ?thesis by blast
  next
    case True
    then obtain t where t: "c = Join t" by blast
    then obtain r where b: "thread_join_begin t s = Some (r, s')" using s'(1) by auto
    have k: "t \<in> known (sc ?x)" "queue (spec_leave (sc ?x)) \<noteq> []" using s'(2) t by simp_all
    note kind = join_kind [OF K k b]
    have ce: "call_exec F c st = join_call F t (s, J, out)" using e t by (simp add: call_exec_def)
    show ?thesis
    proof (cases r)
      case Join_Invalid
      then have inv: "t = running (sc ?x) \<or> waiting (sc ?x) t \<noteq> NULL" using kind(1) by simp
      then have "call_begin c ?x = ?x" by (simp add: t call_begin_def)
      then have "life_rel F owned i B n (s', J, out) ?x" using L [of J] J by simp
      then have "life_rel F owned i B n (s', J, out @ [Refused (cur s) t]) (?x\<lparr>results := results ?x @ [Refused (cur s) t]\<rparr>)"
        unfolding life_rel_def by (simp add: joins_ok_def)
      moreover have "call_spec c x = ?x\<lparr>results := results ?x @ [Refused (cur s) t]\<rparr>" using inv cur by (simp add: call_spec_def t)
      ultimately show ?thesis using ce b Join_Invalid by (simp add: join_call_def)
    next
      case (Join_Waits status)
      then have w: "\<not> (t = running (sc ?x) \<or> waiting (sc ?x) t \<noteq> NULL)" "t \<notin> dead (sc ?x)" using kind by auto
      have "life_rel F owned i B n (s', J(cur s \<mapsto> (t, status)), out) (call_begin c ?x)" by (rule L) (use J cur w in \<open>simp add: call_begin_simps t\<close>)
      moreover have "call_spec c x = call_begin c ?x" using w by (simp add: call_spec_def t call_begin_def Let_def del: tcall_spec.simps)
      ultimately show ?thesis using ce b Join_Waits by (simp add: join_call_def)
    next
      case (Join_Proceeds status)
      then have w: "\<not> (t = running (sc ?x) \<or> waiting (sc ?x) t \<noteq> NULL)" "t \<in> dead (sc ?x)" using kind by auto
      have "life_rel F owned i B n (s', J(cur s \<mapsto> (t, status)), out) (call_begin c ?x)" by (rule L) (use J cur w in \<open>simp add: call_begin_simps t\<close>)
      from resume_refines [OF this] obtain st' where st': "resume_join F (s', J(cur s \<mapsto> (t, status)), out) = Some st'"
        "life_rel F owned i B n st' (spec_resume (call_begin c ?x))" by blast
      moreover have "call_spec c x = spec_resume (call_begin c ?x)" using w by (simp add: call_spec_def t call_begin_def Let_def del: tcall_spec.simps)
      ultimately show ?thesis using ce b Join_Proceeds by (simp add: join_call_def)
    qed
  qed
qed

interpretation wc: call_refinement "life_rel F owned i B n" "call_exec F" call_spec "call_ok i" "\<lambda>_ _. True"
  for F :: "'fs falloc" and owned i B n
  by unfold_locales (use call_refines in auto)

text \<open>A thread that finishes although nobody else can run panics.\<close>

lemma finish_alone_panics:
  assumes R: "sched_rel s a" and e: "queue (spec_leave a) = []" and w: "waiting a (running a) = NULL"
  shows "thread_finish v s = None"
proof -
  obtain st c where i: "irq_off s = (st, s\<lparr>k_cpu := c\<rparr>)" by (rule irq_offE)
  let ?a = "(spec_leave a)\<lparr>dead := insert (running a) (dead a)\<rparr>"
  obtain m where m: "list_remove (k_mem s) (cur s) = Some m"
    "sched_mid (upd_thread (cur s) (\<lambda>t. t\<lparr>t_state := THREAD_ZOMBIE, retval := v\<rparr>) s\<lparr>k_mem := m\<rparr>) ?a"
    using leave_refines [OF R] by blast
  let ?s = "upd_thread (cur s) (\<lambda>t. t\<lparr>t_state := THREAD_ZOMBIE, retval := v\<rparr>) s\<lparr>k_mem := m, k_cpu := c\<rparr>"
  have "is_list m (rq s) []" using m(2) e by (simp add: sched_mid_def upd_thread_def)
  note rot = list_rotate_empty [OF this]
  obtain st' c' where "irq_off ?s = (st', ?s\<lparr>k_cpu := c'\<rparr>)" "conditionally_enable_interrupts st' c' = k_cpu ?s" by (rule irq_offE [of ?s])
  then have "schedule ?s = Some (False, ?s)" using rot by (simp add: schedule_def upd_thread_def irq_restore_def Let_def upd_order)
  moreover have "joiner (thr s (cur s)) = NULL" using R w by (auto simp: sched_rel_def sched_mid_def known_def)
  ultimately show ?thesis using m(1) by (simp add: thread_finish_def i sched_remove_eq upd_thread_def Let_def upd_order)
qed

section \<open>Creation\<close>

lemma link_area:
  assumes "c \<in> link_cells {p}" and "unat p + k < 2 ^ 32" and "8 \<le> k"
  shows "unat c \<in> area (unat p, k)"
proof -
  have e: "unat (p + 4) = unat p + 4" using unat_add_bounded [of p 4] assms(2,3) by simp
  have "c = p \<or> c = p + 4" using assms(1) by (auto simp: link_cells_def)
  then show ?thesis using assms(3) e by (elim disjE) (simp_all add: area_def)
qed

text \<open>A created thread owns its blocks.\<close>

lemma created_owns:
  assumes K: "kernel_ok F owned hs a s" and O: "own_blocks n D hs a s" and C: "created F owned hs a s stub entry data flags t hs' s'"
  shows "\<exists>b. own_blocks (n(t := b)) (insert t D) hs' (spec_create t a) s' \<and> t \<notin> D \<and> (\<forall>u \<in> D. thread_blocks (n(t := b)) s' u = thread_blocks n s u) \<and>
     thread_blocks (n(t := b)) s' t \<subseteq> allocated hs' - allocated hs"
proof -
  note C = C [unfolded created_def]
  have "\<exists>k \<ge> unat sizeof_thread. (unat t, k) \<in> allocated hs' - allocated hs \<and> unat t + k < 2 ^ 32 \<and> (\<forall>x \<in> area (unat t, k). \<not> held owned s hs x)"
    using C by (elim conjE)
  then obtain k where k: "unat sizeof_thread \<le> k" "(unat t, k) \<in> allocated hs' - allocated hs" "unat t + k < 2 ^ 32" "\<forall>x \<in> area (unat t, k). \<not> held owned s hs x" by blast
  let ?q = "stack_data (thr s' t)"
  have "\<exists>j \<ge> unat THREAD_STACK_SIZE. (unat ?q, j) \<in> allocated hs' - allocated hs \<and> unat ?q + j < 2 ^ 32 \<and> (\<forall>x \<in> area (unat ?q, j). \<not> held owned s hs x)"
    using C by (elim conjE)
  then obtain j where j: "(unat ?q, j) \<in> allocated hs' - allocated hs" "\<forall>x \<in> area (unat ?q, j). \<not> held owned s hs x" by blast
  let ?n = "n(t := (k, j))"
  have D: "D \<subseteq> known a" using O by (simp add: own_blocks_def)
  have C1: "t \<notin> known a" "allocated hs \<subseteq> allocated hs'" "keeps owned a s hs s' hs'" "\<forall>u \<in> known a. thr s' u = thr s u" "?q \<noteq> t"
    using C by simp_all
  note D = D C1(1)
  have old: "thread_blocks ?n s' u = thread_blocks n s u" "stack_data (thr s' u) = stack_data (thr s u)" if "u \<in> D" for u using that C1(4) D by (auto simp: thread_blocks_def)
  have new: "thread_blocks ?n s' t = {(unat t, k), (unat ?q, j)}" by (simp add: thread_blocks_def)
  have rq: "rq s' = rq s" using C1(3) by (auto simp: keeps_def same_vars_def)
  have kn: "known (spec_create t a) = insert t (known a)" by (auto simp: known_def spec_create_def)
  have tc: "unat c \<in> area (unat t, k)" if "c \<in> link_cells {t}" for c
    using link_area [OF that k(3)] k(1) by (simp add: sizeof_thread_def)
  have blk: "held owned s hs x" if "u \<in> D" "b \<in> thread_blocks n s u" "x \<in> area b" for u b x
  proof -
    have "b \<in> allocated hs" using O that(1,2) unfolding own_blocks_def by blast
    then show ?thesis using that(3) unfolding held_def by blast
  qed
  have "own_blocks ?n (insert t D) hs' (spec_create t a) s'"
    unfolding own_blocks_def kn rq
  proof (intro conjI ballI impI)
    show "insert t D \<subseteq> insert t (known a)" using D by blast
    fix u assume u: "u \<in> insert t D"
    have sub: "thread_blocks n s u \<subseteq> allocated hs" if "u \<in> D" for u using O that by (simp add: own_blocks_def)
    show "thread_blocks ?n s' u \<subseteq> allocated hs'"
    proof (cases "u = t")
      case False
      then have "u \<in> D" using u by simp
      then show ?thesis using sub C1(2) old by blast
    qed (use new k(2) j(1) in auto)
    show "stack_data (thr s' u) \<noteq> u"
    proof (cases "u = t")
      case False
      then show ?thesis using u O old(2) by (auto simp: own_blocks_def)
    qed (use C1(5) in simp)
    show "thread_blocks ?n s' v \<inter> thread_blocks ?n s' u = {}" if "v \<in> insert t D" "v \<noteq> u" for v
    proof -
      have fresh: "thread_blocks n s w \<inter> {(unat t, k), (unat ?q, j)} = {}" if "w \<in> D" for w using sub [OF that] k(2) j(1) by auto
      consider "v = t" "u \<in> D" | "u = t" "v \<in> D" | "u \<in> D" "v \<in> D" using u \<open>v \<in> insert t D\<close> \<open>v \<noteq> u\<close> by blast
      then show ?thesis
      proof cases
        case 1
        then show ?thesis using fresh [of u] old(1) [of u] new by blast
      next
        case 2
        then show ?thesis using fresh [of v] old(1) [of v] new by blast
      next
        case 3
        then show ?thesis using O old(1) that by (simp add: own_blocks_def)
      qed
    qed
    show "unat c \<notin> area b" if c: "c \<in> link_cells (insert (rq s) (insert t (known a) - {u}))" and b: "b \<in> thread_blocks ?n s' u" for c b
    proof (cases "u = t")
      case True
      then have "c \<in> link_cells (sched_links s a)" using c D(2) by (auto simp: link_cells_def)
      then have "held owned s hs (unat c)" using K by (simp add: kernel_ok_def)
      then show ?thesis using b k(4) j(2) new True by auto
    next
      case False
      then have U: "u \<in> D" "b \<in> thread_blocks n s u" using u b old by auto
      consider "c \<in> link_cells {t}" | "c \<in> link_cells (insert (rq s) (known a - {u}))" using c by (auto simp: link_cells_def)
      then show ?thesis
      proof cases
        case 1
        then show ?thesis using tc [OF 1] k(4) blk [OF U, of "unat c"] by blast
      next
        case 2
        then show ?thesis using O U by (auto simp: own_blocks_def)
      qed
    qed
  qed
  then show ?thesis using D old new k(2) j(1) by (intro exI [of _ "(k, j)"]) auto
qed

text \<open>A kernel with threads that own their blocks, at rest: nobody is in the middle of a join.\<close>

definition fresh_life :: "sched_abs \<Rightarrow> u32 set \<Rightarrow> (u32 \<Rightarrow> u32) \<Rightarrow> life_abs" where
  "fresh_life a D v = \<lparr>sc = a, joins = Map.empty, vals = v, results = [], dyn = D\<rparr>"

lemma life_start:
  assumes K: "kernel_ok F owned hs a s" and O: "own_blocks n D hs a s" and r: "running a \<noteq> NULL" and i: "i \<in> set (queue a)" and w: "\<And>t. t \<in> known a \<Longrightarrow> waiting a t = NULL"
  shows "life_rel F owned i (allocated hs - (\<Union>t \<in> D. thread_blocks n s t)) n (s, Map.empty, []) (fresh_life a D (\<lambda>t. retval (thr s t)))"
proof -
  have "(\<Union>t \<in> D. thread_blocks n s t) \<subseteq> allocated hs" using O by (auto simp: own_blocks_def)
  then have "allocated hs = (allocated hs - (\<Union>t \<in> D. thread_blocks n s t)) \<union> (\<Union>t \<in> D. thread_blocks n s t)" by blast
  then show ?thesis using assms unfolding life_rel_def fresh_life_def joins_ok_def prod.case life_abs.simps
    by (intro conjI exI [of _ hs]) auto
qed

lemma life_relD:
  assumes "life_rel F owned i B n (s, J, out) x"
  shows "out = results x" and "sched_rel s (sc x)"
  using assms by (auto simp: life_rel_def kernel_ok_def sched_rel_wf)

section \<open>All calls\<close>

text \<open>C1: Take a kernel with well-formed heaps and scheduler structures, in which threads own the blocks they were created with, and any sequence of the calls a thread makes: yield, suspend, wakeup,
  finish and the whole of \<^verbatim>\<open>thread_join\<close>, whose second half a waiting thread executes when it runs again. The callers keep three rules (\<open>call_ok\<close>): the idle thread does not suspend,
  join or finish; a thread that is joined was made by \<^verbatim>\<open>thread_create\<close> and has not been destroyed by an earlier join; and a thread that is woken up exists and does not sleep in a join. Then no
  call panics and the kernel ends where the abstract scheduler does: the same run queue, sleeping, finished and waiting threads, the same joins in progress, and the same results of all
  joins (who joined whom and the value that thread passed to \<^verbatim>\<open>thread_finish\<close>, or \<^verbatim>\<open>EINVAL\<close>). The heaps stay well formed, and allocated are exactly the blocks of the threads that still
  exist and the blocks of others.\<close>

theorem whole_calls_refine:
  assumes "life_rel F owned i B n st x" and "calls_ok (call_ok i) call_spec cs x"
  shows "\<exists>s' J'. run_calls (call_exec F) cs st = Some (s', J', results (fold call_spec cs x)) \<and>
     life_rel F owned i B n (s', J', results (fold call_spec cs x)) (fold call_spec cs x) \<and> sched_rel s' (sc (fold call_spec cs x))"
proof -
  obtain s' J' out where r: "run_calls (call_exec F) cs st = Some (s', J', out)" and L: "life_rel F owned i B n (s', J', out) (fold call_spec cs x)"
    using wc.calls_refine [OF assms] by auto
  then show ?thesis using life_relD [OF L] by auto
qed

lemma own_none [simp]: "own_blocks n {} hs a s"
  by (simp add: own_blocks_def)

theorem whole_calls_refine_witness:
  "\<exists>t s1 s2 J. thread_create one_region 0x80000400 0 0x80000500 7 0 boot_kernel = Some (EOK, t, s1) \<and>
     run_calls (call_exec one_region) [Join t, Yield, Finish 42, Yield, Yield] (s1, Map.empty, []) = Some (s2, J, [Joined 0x80010000 t 42])"
proof -
  obtain t s1 hs1 where c: "thread_create one_region 0x80000400 0 0x80000500 7 0 boot_kernel = Some (EOK, t, s1)"
    "created one_region (\<lambda>fs. fs) [] small_sched boot_kernel 0x80000400 0x80000500 7 0 t hs1 s1" by (rule small_create)
  have t: "t \<noteq> 0" "t \<noteq> 0x80010000" "t \<noteq> 0x80020000" and K: "kernel_ok one_region (\<lambda>fs. fs) hs1 (spec_create t small_sched) s1"
    using c(2) by (auto simp: created_def kernel_ok_def sched_wf_def known_def spec_create_def small_sched_def)
  obtain n where O: "own_blocks n {t} hs1 (spec_create t small_sched) s1" using created_owns [OF boot_kernel_ok own_none c(2)] by auto
  let ?x = "fresh_life (spec_create t small_sched) {t} (\<lambda>t. retval (thr s1 t))"
  have L: "life_rel one_region (\<lambda>fs. fs) 0x80020000 (allocated hs1 - (\<Union>t \<in> {t}. thread_blocks n s1 t)) n (s1, Map.empty, []) ?x"
    by (rule life_start [OF K O]) (simp_all add: spec_create_def small_sched_def)
  note S = spec_resume_def fresh_life_def spec_create_def small_sched_def spec_switch_def spec_suspend_def spec_wakeup_def spec_leave_def spec_reap_def
  have "calls_ok (call_ok 0x80020000) call_spec [Join t, Yield, Finish 42, Yield, Yield] ?x"
    "results (fold call_spec [Join t, Yield, Finish 42, Yield, Yield] ?x) = [Joined 0x80010000 t 42]"
    using t by (simp_all add: S call_ok_def effect_ok_def call_spec_def known_def)
  then show ?thesis using whole_calls_refine [OF L] c(1) by fastforce
qed

end
