(* ===== verification/Boot.thy ===== *)
theory Boot
  imports Thread_Calls
begin

text \<open>
  The entry points of the kernel in C (\<^verbatim>\<open>kernel/main.c\<close>): \<^verbatim>\<open>bsp_start\<close> initializes all components and starts the first threads, \<^verbatim>\<open>ap_start\<close>
  starts a further processor. What the initialization establishes is the starting point of the invariants of the other theories.
\<close>

unbundle bit_operations_syntax

section \<open>The entry points in C\<close>

text \<open>The kernel and the atomic variable \<^verbatim>\<open>cpu_ready\<close> of \<^verbatim>\<open>sched.c\<close>.\<close>

record 'fs machine = "'fs kernel" +
  cpu_ready :: u32

text \<open>\<^verbatim>\<open>puts\<close> on the console of the kernel; \<^verbatim>\<open>panic\<close> halts the machine. A processor that has started runs a first thread.\<close>

definition kputs :: "string \<Rightarrow> ('fs, 'z) kernel_scheme \<Rightarrow> ('fs, 'z) kernel_scheme option" where
  "kputs text s = do { (n, out) \<leftarrow> puts (text @ [NUL]) (console s); Some (s\<lparr>console := out\<rparr>) }"

datatype 's started = Halts 's | Runs 's

definition kpanic :: "char list \<Rightarrow> string \<Rightarrow> ('fs, 'z) kernel_scheme \<Rightarrow> ('fs, 'z) kernel_scheme started option" where
  "kpanic buf msg s = do { out \<leftarrow> panic_output buf msg [] (console s); Some (Halts (s\<lparr>console := out\<rparr>)) }"

text \<open>\<^verbatim>\<open>disk_init\<close> does nothing yet.\<close>

definition disk_init :: "('fs, 'z) kernel_scheme \<Rightarrow> u32 \<times> ('fs, 'z) kernel_scheme" where
  "disk_init s = (EOK, s)"

text \<open>\<^verbatim>\<open>bsp_start\<close> up to the timers, and as a whole. \<open>frame_init\<close> is the function of the frame allocator; \<open>hello\<close> is the greeting with version and date;
  \<open>stub\<close>, \<open>timer_fn\<close>, \<open>idle\<close> and \<open>example\<close> are addresses of functions, \<open>j1\<close> and \<open>j2\<close> the contents of the uninitialized variables \<^verbatim>\<open>idle_thread\<close> and \<^verbatim>\<open>thread\<close>.\<close>

definition OK_text :: string where "OK_text = ''OK'' @ [CHR 0x0A]"
definition TLB_text :: string where "TLB_text = ''cpu0: Address translation ... ''"
definition FRAME_text :: string where "FRAME_text = ''cpu0: Frame allocator ... ''"
definition HEAP_text :: string where "HEAP_text = ''cpu0: Heap allocator ... ''"
definition THREAD_text :: string where "THREAD_text = ''cpu0: Threading ... ''"
definition SCHED_text :: string where "SCHED_text = ''cpu0: Scheduler ... ''"
definition TIMER_text :: string where "TIMER_text = ''cpu0: Timers ... ''"
definition DISK_text :: string where "DISK_text = ''cpu0: Disk ... ''"

definition bsp_init :: "('fs \<Rightarrow> 'fs) \<Rightarrow> string \<Rightarrow> ('fs, 'z) machine_scheme \<Rightarrow> ('fs, 'z) machine_scheme option" where
  "bsp_init frame_init hello s = do {
     s \<leftarrow> kputs hello s;
     s \<leftarrow> kputs TLB_text s;
     let s = tlb_init s;
     s \<leftarrow> kputs OK_text s;
     s \<leftarrow> kputs FRAME_text s;
     let s = s\<lparr>k_fs := frame_init (k_fs s)\<rparr>;
     s \<leftarrow> kputs OK_text s;
     s \<leftarrow> kputs HEAP_text s;
     s \<leftarrow> heap_init s;
     s \<leftarrow> kputs OK_text s;
     s \<leftarrow> kputs THREAD_text s;
     let s = threads_init s;
     s \<leftarrow> kputs OK_text s;
     s \<leftarrow> kputs SCHED_text s;
     s \<leftarrow> scheduler_init s;
     s \<leftarrow> kputs OK_text s;
     kputs TIMER_text s
   }"

definition bsp_start ::
  "'fs falloc \<Rightarrow> ('fs \<Rightarrow> 'fs) \<Rightarrow> string \<Rightarrow> char list \<Rightarrow> u32 \<Rightarrow> u32 \<Rightarrow> u32 \<Rightarrow> u32 \<Rightarrow> u32 \<Rightarrow> u32 \<Rightarrow> ('fs, 'z) machine_scheme \<Rightarrow>
    ('fs, 'z) machine_scheme started option" where
  "bsp_start F frame_init hello buf stub timer_fn idle example j1 j2 s = do {
     s1 \<leftarrow> bsp_init frame_init hello s;
     (rc, s2) \<leftarrow> timers_init F stub timer_fn s1;
     if rc \<noteq> EOK then kpanic buf ''Unable to initialize timers.'' s2
     else do {
       s3 \<leftarrow> kputs OK_text s2;
       s4 \<leftarrow> kputs DISK_text s3;
       let (_, s5) = disk_init s4;
       s6 \<leftarrow> kputs OK_text s5;
       (rc, idle_thread, s7) \<leftarrow> thread_create F stub j1 idle NULL 0 s6;
       if rc \<noteq> EOK then kpanic buf ''Unable to create the idle thread.'' s7
       else do {
         (rc, thread, s8) \<leftarrow> thread_create F stub j2 example NULL 0 s7;
         if rc \<noteq> EOK then kpanic buf ''Unable to create the main thread.'' s8
         else Some (Runs (thread_switch thread (s8\<lparr>cpu_ready := cpu_ready s8 + 1\<rparr>)))
       }
     }
   }"

text \<open>\<^verbatim>\<open>ap_start\<close> spins until the processor's turn has come: \<open>None\<close> when it has not. It ignores the result of \<^verbatim>\<open>thread_create\<close>.\<close>

definition ap_start ::
  "'fs falloc \<Rightarrow> u32 \<Rightarrow> u32 \<Rightarrow> u32 \<Rightarrow> ('fs, 'z) machine_scheme \<Rightarrow> ('fs, 'z) machine_scheme started option" where
  "ap_start F stub idle j s = do {
     if sint (cpu_ready s) < sint (k_cpuid s) then None
     else do {
       let s1 = tlb_init s;
       s2 \<leftarrow> scheduler_init s1;
       (_, idle_thread, s3) \<leftarrow> thread_create F stub j idle NULL 0 s2;
       Some (Runs (thread_switch idle_thread (s3\<lparr>cpu_ready := cpu_ready s3 + 1\<rparr>)))
     }
   }"

text \<open>The idle thread: the first \<open>n\<close> rounds of its loop.\<close>

primrec idle_rounds :: "nat \<Rightarrow> ('fs, 'z) machine_scheme \<Rightarrow> ('fs, 'z) machine_scheme option" where
  "idle_rounds 0 s = Some s"
| "idle_rounds (Suc n) s = do { (switched, s1) \<leftarrow> thread_yield s; idle_rounds n s1 }"

lemma idle_runs:
  assumes "sched_rel s a"
  shows "\<exists>s'. idle_rounds n s = Some s' \<and> sched_rel s' (fold tcall_spec (replicate n Yield) a)"
proof -
  have "idle_rounds n s = tcalls_exec (replicate n Yield) s"
  proof (induction n arbitrary: s)
    case (Suc n)
    then show ?case by (cases "thread_yield s") (auto split: prod.splits)
  qed simp
  moreover have "tcalls_ok (replicate n Yield) a" by (induction n arbitrary: a) simp_all
  ultimately show ?thesis using tcalls_refine [OF assms, of "replicate n Yield"] by simp
qed

section \<open>Before the first thread\<close>

lemma kputs_ok: "NUL \<notin> set text \<Longrightarrow> kputs text s = Some (s\<lparr>console := console s @ text\<rparr>)"
  using puts_text [of "text" "[]" "console s"] by (simp add: kputs_def)

lemma boot_texts: "NUL \<notin> set OK_text" "NUL \<notin> set TLB_text" "NUL \<notin> set FRAME_text" "NUL \<notin> set HEAP_text" "NUL \<notin> set THREAD_text"
    "NUL \<notin> set SCHED_text" "NUL \<notin> set TIMER_text" "NUL \<notin> set DISK_text"
  by (simp_all add: OK_text_def TLB_text_def FRAME_text_def HEAP_text_def THREAD_text_def SCHED_text_def TIMER_text_def DISK_text_def)

definition clear_current :: "(u32 \<Rightarrow> u32) \<Rightarrow> u32 \<Rightarrow> u32" where
  "clear_current f = (\<lambda>i. if unat i < MAX_CPU then NULL else f i)"

lemma threads_init_eq: "threads_init s = s\<lparr>current_thread := clear_current (current_thread s)\<rparr>"
  by (simp add: threads_init_def clear_current_def)

definition empty_sched :: sched_abs where
  "empty_sched = \<lparr>queue = [], running = NULL, sleeping = {}, dead = {}, waiting = (\<lambda>_. NULL)\<rparr>"

text \<open>Where the linker and the loader put things: the static lists and the boot stack are in the kernel segment, apart from each other, and
  the frame allocator starts with their frames taken.\<close>

definition static_bytes :: "u32 \<Rightarrow> nat set" where
  "static_bytes l = {unat l..<unat l + 8}"

definition boot_layout :: "'fs falloc \<Rightarrow> ('fs \<Rightarrow> nat set) \<Rightarrow> ('fs \<Rightarrow> 'fs) \<Rightarrow> ('fs, 'z) machine_scheme \<Rightarrow> bool" where
  "boot_layout F owned frame_init s \<longleftrightarrow> frames_ok F owned \<and> unat (k_cpuid s) < MAX_CPU \<and>
     (\<forall>x \<in> static_bytes (heap_list s) \<union> static_bytes (rq s) \<union> static_bytes (timers_list s) \<union> {unat (frame_at s)}.
        0x80000000 \<le> x \<and> x < 0xA0000000 \<and> x - 0x80000000 \<in> owned (frame_init (k_fs s))) \<and>
     static_bytes (heap_list s) \<inter> static_bytes (rq s) = {} \<and> static_bytes (heap_list s) \<inter> static_bytes (timers_list s) = {} \<and>
     static_bytes (rq s) \<inter> static_bytes (timers_list s) = {} \<and> unat (frame_at s) \<notin> static_bytes (heap_list s)"

lemma static_cells:
  assumes "static_bytes l \<subseteq> {0x80000000..<0xA0000000}"
  shows "l \<noteq> NULL" and "unat (l + 4) = unat l + 4" and "0x80000000 \<le> unat l" and "unat l + 8 \<le> 0xA0000000" and "c \<in> link_cells {l} \<Longrightarrow> unat c \<in> static_bytes l"
proof -
  have b: "unat l \<in> static_bytes l" "unat l + 7 \<in> static_bytes l" by (auto simp: static_bytes_def)
  then show b: "0x80000000 \<le> unat l" "unat l + 8 \<le> 0xA0000000" using assms by auto
  then show "l \<noteq> NULL" and u: "unat (l + 4) = unat l + 4" by (auto simp: unat_word_ariths)
  show "c \<in> link_cells {l} \<Longrightarrow> unat c \<in> static_bytes l" using u by (auto simp: link_cells_def static_bytes_def)
qed

lemma boot_init_ok:
  fixes s :: "('fs, 'z) machine_scheme"
  assumes L: "boot_layout F owned frame_init s" and h: "NUL \<notin> set hello"
  obtains s1 where "bsp_init frame_init hello s = Some s1" "kernel_ok F owned [] empty_sched s1" "cur s1 = NULL"
    "timers_list s1 = timers_list s" "frame_at s1 = frame_at s" "rq s1 = rq s" "k_cpuid s1 = k_cpuid s" "heap_list s1 = heap_list s"
    "cpu_ready s1 = cpu_ready s" "\<exists>log. console s1 = console s @ log" "owned (k_fs s1) = owned (frame_init (k_fs s))"
proof -
  have S: "static_bytes l \<subseteq> {0x80000000..<0xA0000000}" if "l \<in> {heap_list s, rq s, timers_list s}" for l
    using L that by (auto simp: boot_layout_def)
  note H = static_cells [OF S, of "heap_list s"] and Q = static_cells [OF S, of "rq s"]
  have H': "heap_list s \<noteq> NULL" "rq s \<noteq> NULL" using H Q by auto
  define x where "x = (console s @ hello) @ TLB_text"
  obtain c tb where tlb: "tlb_init (s\<lparr>console := x\<rparr>) = s\<lparr>console := x, k_cpu := c, k_tlb := tb\<rparr>" using tlb_init_form [of "s\<lparr>console := x\<rparr>"] by auto
  obtain m1 where m1: "list_init (k_mem s) (heap_list s) = Some m1" "is_list m1 (heap_list s) []"
    using list_init_correct [OF H'(1)] by blast
  obtain m2 where m2: "list_init m1 (rq s) = Some m2" "is_list m2 (rq s) []" "\<forall>a. a \<notin> link_cells {rq s} \<longrightarrow> m2 a = m1 a"
    using list_init_correct [OF H'(2)] by blast
  define ct where "ct = clear_current (current_thread s)"
  define log where "log = OK_text @ FRAME_text @ OK_text @ HEAP_text @ OK_text @ THREAD_text @ OK_text @ SCHED_text @ OK_text @ TIMER_text"
  have run: "bsp_init frame_init hello s = Some (s\<lparr>console := x @ log, k_cpu := timer_setup THREAD_QUANTUM c, k_tlb := tb,
      k_fs := frame_init (k_fs s), k_mem := m2, current_thread := ct\<rparr>)"
    using tlb m1(1) m2(1) h unfolding x_def ct_def log_def
    by (simp add: bsp_init_def kputs_ok boot_texts heap_init_def threads_init_eq scheduler_init_def upd_order Let_def)
  let ?s1 = "s\<lparr>console := x @ log, k_cpu := timer_setup THREAD_QUANTUM c, k_tlb := tb,
      k_fs := frame_init (k_fs s), k_mem := m2, current_thread := ct\<rparr>"
  have cells: "c \<in> link_cells {l} \<Longrightarrow> unat c \<in> static_bytes l" if "l \<in> {heap_list s, rq s, timers_list s}" for c l
    using static_cells(5) [OF S [OF that]] by blast
  have "is_list m2 (heap_list s) []"
  proof -
    have "c \<notin> link_cells {rq s}" if "c \<in> link_cells {heap_list s}" for c using cells [of "heap_list s" c] cells [of "rq s" c] that L by (auto simp: boot_layout_def)
    then show ?thesis using m1(2) m2(3) is_list_cong [of "heap_list s" "[]" m2 m1] by auto
  qed
  then have "kheap_inv F owned ?s1 []"
  proof -
    have "\<forall>x \<in> static_bytes (heap_list s). x - 0x80000000 \<in> owned (frame_init (k_fs s))" "frames_ok F owned" using L by (auto simp: boot_layout_def)
    then show ?thesis using static_cells(3,4) [OF S, of "heap_list s"] \<open>is_list m2 (heap_list s) []\<close>
      by (simp add: kheap_inv_def heaps_ok_def heap_bytes_def static_bytes_def)
  qed
  moreover have "sched_wf ?s1 empty_sched" using m2(2) L H' by (simp add: sched_wf_def empty_sched_def known_def links_sep_def ct_def clear_current_def boot_layout_def)
  moreover have "held owned ?s1 [] (unat c)" if "c \<in> link_cells (sched_links ?s1 empty_sched)" for c
    using cells [of "rq s" c] that L by (auto simp: empty_sched_def known_def held_def kept_def heap_bytes_def boot_layout_def static_bytes_def)
  ultimately have "kernel_ok F owned [] empty_sched ?s1" by (simp add: kernel_ok_def)
  then show thesis using L by (intro that [OF run]) (simp_all add: x_def ct_def clear_current_def boot_layout_def frame_at_def)
qed

section \<open>The first thread\<close>

lemma first_switch:
  assumes "sched_wf s a" and "running a = NULL" and "n \<in> set (queue a)"
  shows "sched_rel (thread_switch n s) (a\<lparr>running := n\<rparr>)"
proof -
  have "n \<noteq> NULL" "cur s = NULL" using assms by (auto simp: sched_wf_def known_def)
  then show ?thesis using assms unfolding sched_rel_def sched_mid_def sched_wf_def
    by (auto simp: thread_switch_state known_def)
qed

lemma kpanic_ok:
  assumes "length buf = 32" and "format_text msg [] = Some msg"
  shows "kpanic buf msg s = Some (Halts (s\<lparr>console := console s @ msg\<rparr>))"
  using vprintk_loop_correct [OF assms, of 0 "console s"] by (simp add: kpanic_def panic_output_def vprintk_def)

definition boot_panics :: "string list" where
  "boot_panics = [''Unable to initialize timers.'', ''Unable to create the idle thread.'', ''Unable to create the main thread.'']"

lemma boot_panics_text: "msg \<in> set boot_panics \<Longrightarrow> format_text msg [] = Some msg"
  by (auto simp: boot_panics_def)

text \<open>The machine after boot: three threads, the last of which runs.\<close>

definition boot_sched :: "u32 \<Rightarrow> u32 \<Rightarrow> u32 \<Rightarrow> sched_abs" where
  "boot_sched t1 t2 t3 = \<lparr>queue = [t1, t2, t3], running = t3, sleeping = {}, dead = {}, waiting = (\<lambda>_. NULL)\<rparr>"

definition boot_done ::
  "'fs falloc \<Rightarrow> ('fs \<Rightarrow> nat set) \<Rightarrow> u32 \<Rightarrow> u32 \<Rightarrow> u32 \<Rightarrow> u32 \<Rightarrow> ('fs, 'z) machine_scheme \<Rightarrow> ('fs, 'z) machine_scheme \<Rightarrow> bool" where
  "boot_done F owned stub timer_fn idle example s s' \<longleftrightarrow> (\<exists>t1 t2 t3 hs.
     kheap_inv F owned s' hs \<and> sched_rel s' (boot_sched t1 t2 t3) \<and> kernel_ok F owned hs (boot_sched t1 t2 t3) s' \<and>
     (\<exists>n. own_blocks n {t1, t2, t3} hs (boot_sched t1 t2 t3) s') \<and> timer_thread s' = t1 \<and> is_list (k_mem s') (timers_list s) [] \<and>
     entry_func (thr s' t1) = timer_fn \<and> entry_func (thr s' t2) = idle \<and> entry_func (thr s' t3) = example \<and>
     c_ra (k_regs s') = stub \<and> c_a0 (k_regs s') = t3 \<and> interrupts_on (k_cpu s') \<and> cpu_ready s' = cpu_ready s + 1)"

lemma switch_entry [simp]: "entry_func (thr (thread_switch n s) t) = entry_func (thr s t)"
  by (rule irq_offE [of s]) (simp add: thread_switch_def Let_def upd_thread_def cpu_switch_context_def)

lemma switch_ready: "cpu_ready (thread_switch n s) = cpu_ready s"
proof -
  have ctx: "cpu_ready (cpu_switch_context old n as s) = cpu_ready s" for old as and s :: "('a, 'b) machine_scheme"
    by (simp add: cpu_switch_context_def Let_def upd_thread_def)
  show ?thesis by (rule irq_offE [of s]) (simp add: ctx thread_switch_def Let_def upd_thread_def)
qed

lemma switch_stack [simp]: "stack_data (thr (thread_switch n s) t) = stack_data (thr s t)"
  by (rule irq_offE [of s]) (simp add: thread_switch_def Let_def upd_thread_def cpu_switch_context_def)

lemma kernel_ok_switched:
  assumes "kernel_ok F owned hs a s" and "sched_wf (thread_switch n s) (a\<lparr>running := n\<rparr>)"
  shows "kernel_ok F owned hs (a\<lparr>running := n\<rparr>) (thread_switch n s)"
proof -
  have "kheap_inv F owned (thread_switch n s) hs" using assms(1) kheap_inv_cong [of "thread_switch n s" s] by (simp add: kernel_ok_def)
  moreover have "held owned (thread_switch n s) hs x = held owned s hs x" for x by (simp add: held_def kept_def)
  ultimately show ?thesis using assms by (simp add: kernel_ok_def known_def)
qed

text \<open>Switching to a thread that has just been created starts it in its stub.\<close>

lemma switch_to_new:
  assumes C: "created F owned hs a s stub entry data flags t hs' s'" and c: "cur s = NULL" and f: "held owned s hs (unat (frame_at s))"
    and e: "thr e = thr s'" "k_ctx e = k_ctx s'" "cur e = cur s'" "k_regs e = k_regs s'"
  shows "c_ra (k_regs (thread_switch t e)) = stub" "c_a0 (k_regs (thread_switch t e)) = t" "interrupts_on (k_cpu (thread_switch t e))"
proof -
  note D = C [unfolded created_def]
  have cur: "cur e = NULL" "frame_at e = frame_at s" using D c e by (auto simp: keeps_def same_vars_def frame_at_def)
  have t: "t \<noteq> NULL" using D by (auto simp: kernel_ok_def sched_wf_def known_def spec_create_def)
  obtain k where k: "4096 \<le> k" "unat (stack_data (thr s' t)) + k < 2 ^ 32" "\<forall>x \<in> area (unat (stack_data (thr s' t)), k). \<not> held owned s hs x"
    using D by (auto simp: THREAD_STACK_SIZE_def)
  have "stack_top (thr s' t) = stack_data (thr s' t) + (THREAD_STACK_SIZE - CONTEXT_SIZE - ABI_STACK_FRAME)"
    using D by (simp add: algebra_simps)
  then have "unat (stack_top (thr s' t)) \<in> area (unat (stack_data (thr s' t)), k)"
    using k(1,2) by (simp add: area_def unat_word_ariths THREAD_STACK_SIZE_def CONTEXT_SIZE_def ABI_STACK_FRAME_def)
  then have "frame_at e \<noteq> stack_top (thr e t)" using k(3) f cur(2) e(1) by auto
  note S = switch_loads [OF _ this]
  have x: "k_ctx s' (stack_top (thr s' t)) = new_context stub t (k_ctx s (stack_top (thr s' t)))" using D by blast
  show "c_ra (k_regs (thread_switch t e)) = stub" "c_a0 (k_regs (thread_switch t e)) = t"
    using S(1) cur(1) t by (auto simp: x e general_regs_def new_context_def)
  have "r_status (k_cpu (thread_switch t e)) = CP0_STATUS_IE_MASK OR CP0_STATUS_MASK STATUS_IM"
    using S(3) cur(1) t by (simp add: x e new_context_def)
  then show "interrupts_on (k_cpu (thread_switch t e))" by (simp add: interrupts_on_def CP0_STATUS_IE_MASK_def)
qed

text \<open>The machine while it boots: no thread runs yet, the timer list is empty, the threads own the heap blocks of their structures and stacks.\<close>

definition booting ::
  "'fs falloc \<Rightarrow> ('fs \<Rightarrow> nat set) \<Rightarrow> ('fs, 'z) machine_scheme \<Rightarrow> hp list \<Rightarrow> sched_abs \<Rightarrow> ('fs, 'z) machine_scheme \<Rightarrow> bool" where
  "booting F owned s0 hs a s \<longleftrightarrow> kernel_ok F owned hs a s \<and> running a = NULL \<and> held owned s hs (unat (frame_at s)) \<and>
     (\<forall>c \<in> link_cells {timers_list s}. held owned s hs (unat c) \<and> c \<notin> link_cells (sched_links s a)) \<and>
     timers_list s = timers_list s0 \<and> is_list (k_mem s) (timers_list s) [] \<and> cpu_ready s = cpu_ready s0 \<and> (\<exists>log. console s = console s0 @ log) \<and>
     (\<exists>n. own_blocks n (known a) hs a s)"

lemma booting_console:
  assumes "booting F owned s0 hs a s"
  shows "booting F owned s0 hs a (s\<lparr>console := console s @ x\<rparr>)"
proof -
  have "kernel_ok F owned hs a (s\<lparr>console := console s @ x\<rparr>)" by (rule kernel_ok_cong) (use assms in \<open>auto simp: booting_def\<close>)
  moreover have "held owned (s\<lparr>console := console s @ x\<rparr>) hs y = held owned s hs y" for y by (simp add: held_def kept_def)
  moreover have "own_blocks n D hs a (s\<lparr>console := console s @ x\<rparr>) = own_blocks n D hs a s" for n D by (simp add: own_blocks_def thread_blocks_def)
  ultimately show ?thesis using assms by (auto simp: booting_def frame_at_def)
qed

lemma more_ready:
  fixes s s' :: "('fs, 'z) machine_scheme"
  assumes "kernel.more s = kernel.more s'"
  shows "cpu_ready s = cpu_ready s'"
  using assms by (cases s; cases s'; simp)

lemma booting_created:
  assumes B: "booting F owned s0 hs a s" and C: "created F owned hs a s stub entry data flags t hs' s'"
  shows "booting F owned s0 hs' (spec_create t a) s'"
proof -
  note D = C [unfolded created_def] and E = B [unfolded booting_def]
  have k: "keeps owned a s hs s' hs'" using D by blast
  then have v: "frame_at s' = frame_at s" "timers_list s' = timers_list s" "console s' = console s" "rq s' = rq s"
    by (auto simp: keeps_def same_vars_def frame_at_def)
  have "cpu_ready s' = cpu_ready s" using D more_ready by blast
  moreover have "is_list (k_mem s') (timers_list s) []" by (rule list_kept [OF k]) (use E in auto)
  moreover have "held owned s' hs' (unat c) \<and> c \<notin> link_cells (sched_links s' (spec_create t a))" if c: "c \<in> link_cells {timers_list s}" for c
  proof -
    have h: "held owned s hs (unat c)" "c \<notin> link_cells (sched_links s a)" using E c by auto
    obtain j where j: "92 \<le> j" "unat t + j < 2 ^ 32" "\<forall>x \<in> area (unat t, j). \<not> held owned s hs x" using D by (auto simp: sizeof_thread_def)
    have "unat (t + 4) = unat t + 4" using j(1,2) by (simp add: unat_word_ariths)
    then have "unat t \<in> area (unat t, j)" "unat (t + 4) \<in> area (unat t, j)" using j(1) by (auto simp: area_def)
    then have "c \<noteq> t" "c \<noteq> t + 4" using j(3) h(1) by auto
    moreover have "sched_links s' (spec_create t a) = insert t (sched_links s a)" using v(4) by (auto simp: known_def spec_create_def)
    ultimately show ?thesis using h k by (auto simp: link_cells_def keeps_def)
  qed
  moreover have "held owned s' hs' (unat (frame_at s))" using E k by (simp add: keeps_def)
  moreover have "running (spec_create t a) = NULL" using E by (simp add: spec_create_def)
  moreover have "\<exists>n. own_blocks n (known (spec_create t a)) hs' (spec_create t a) s'"
  proof -
    have "known (spec_create t a) = insert t (known a)" by (auto simp: known_def spec_create_def)
    then show ?thesis using created_owns [OF _ _ C] E by metis
  qed
  ultimately show ?thesis using D E v by (auto simp: booting_def)
qed

lemma boot_create:
  assumes B: "booting F owned s0 hs a s"
  obtains (fail) s' where "thread_create F stub j entry NULL 0 s = Some (ENOMEM, j, s')" "console s' = console s"
  | (ok) t s' hs' where "thread_create F stub j entry NULL 0 s = Some (EOK, t, s')" "created F owned hs a s stub entry NULL 0 t hs' s'"
     "booting F owned s0 hs' (spec_create t a) s'"
proof -
  have K: "kernel_ok F owned hs a s" using B by (simp add: booting_def)
  obtain rc t s' hs' where c: "thread_create F stub j entry NULL 0 s = Some (rc, t, s')"
    "if rc = EOK then created F owned hs a s stub entry NULL 0 t hs' s' else rc = ENOMEM \<and> t = j \<and> not_created F owned hs a s hs' s'"
    using create_outcome [OF K, of stub j entry NULL 0] by (auto split: if_splits)
  show thesis
  proof (cases "rc = EOK")
    case True
    then show thesis using c booting_created [OF B] by (intro ok) auto
  next
    case False
    then show thesis using c by (intro fail [of s']) (auto simp: not_created_def keeps_def same_vars_def)
  qed
qed

lemma boot_outcome:
  fixes s :: "('fs, 'z) machine_scheme"
  assumes L: "boot_layout F owned frame_init s" and h: "NUL \<notin> set hello" and b: "length buf = 32"
  shows "\<exists>r. bsp_start F frame_init hello buf stub timer_fn idle example j1 j2 s = Some r \<and>
     (case r of Halts s' \<Rightarrow> (\<exists>log. \<exists>msg \<in> set boot_panics. console s' = console s @ log @ msg)
      | Runs s' \<Rightarrow> boot_done F owned stub timer_fn idle example s s')"
proof -
  obtain s1 where s1: "bsp_init frame_init hello s = Some s1" "kernel_ok F owned [] empty_sched s1" "cur s1 = NULL"
    "timers_list s1 = timers_list s" "frame_at s1 = frame_at s" "rq s1 = rq s" "k_cpuid s1 = k_cpuid s" "heap_list s1 = heap_list s"
    "cpu_ready s1 = cpu_ready s" "\<exists>log. console s1 = console s @ log" "owned (k_fs s1) = owned (frame_init (k_fs s))"
    by (rule boot_init_ok [OF L h])
  have halt: "kpanic buf msg s' = Some (Halts (s'\<lparr>console := console s' @ msg\<rparr>))" if "msg \<in> set boot_panics" for msg and s' :: "('fs, 'z) machine_scheme"
    by (rule kpanic_ok [OF b boot_panics_text [OF that]])
  have tl: "timers_list s1 \<noteq> NULL" "link_cells {timers_list s1} \<inter> link_cells (sched_links s1 empty_sched) = {}"
    "\<And>c. c \<in> link_cells {timers_list s1} \<Longrightarrow> held owned s1 [] (unat c)" "held owned s1 [] (unat (frame_at s1))"
  proof -
    have S: "static_bytes l \<subseteq> {0x80000000..<0xA0000000}" if "l \<in> {rq s, timers_list s}" for l using L that by (auto simp: boot_layout_def)
    note T = static_cells [OF S, of "timers_list s"] and Q = static_cells [OF S, of "rq s"]
    have k: "held owned s1 [] x" if "x \<in> static_bytes (timers_list s) \<union> {unat (frame_at s)}" for x
      using L that s1(8,11) by (auto simp: held_def kept_def heap_bytes_def boot_layout_def static_bytes_def)
    show "timers_list s1 \<noteq> NULL" "held owned s1 [] (unat (frame_at s1))" using T(1) k s1(4,5) by auto
    show "held owned s1 [] (unat c)" if "c \<in> link_cells {timers_list s1}" for c using T(5) k s1(4) that by simp
    have sl: "sched_links s1 empty_sched = {rq s}" using s1(6) by (simp add: empty_sched_def known_def)
    have "static_bytes (rq s) \<inter> static_bytes (timers_list s) = {}" using L by (simp add: boot_layout_def)
    then have "c \<notin> link_cells {rq s}" if "c \<in> link_cells {timers_list s}" for c using T(5) [of c] Q(5) [of c] that by auto
    then show "link_cells {timers_list s1} \<inter> link_cells (sched_links s1 empty_sched) = {}" unfolding s1(4) sl by blast
  qed
  obtain log1 where log1: "console s1 = console s @ log1" using s1(10) by blast
  note texts = kputs_ok boot_texts disk_init_def
  show ?thesis
  proof (cases rule: timers_init_outcome [OF s1(2) tl(1-3), where stub = stub and fn = timer_fn, case_names prem no1 yes1])
    case (no1 m s2 hs')
    have "console s2 = console s1" using no1(2) by (auto simp: not_created_def keeps_def same_vars_def)
    then show ?thesis using no1(1) s1(1) halt log1 by (auto simp: bsp_start_def EOK_def ENOMEM_def boot_panics_def)
  next
    case (yes1 t1 m s2 hs2)
    let ?s6 = "s2\<lparr>timer_thread := t1, console := console s2 @ OK_text @ DISK_text @ OK_text\<rparr>"
    have B6: "booting F owned s hs2 (spec_create t1 empty_sched) ?s6"
    proof -
      have "booting F owned s [] empty_sched (s1\<lparr>k_mem := m\<rparr>)"
        using yes1(3,4) tl s1(4,5,9) log1 by (auto simp: booting_def empty_sched_def frame_at_def known_def)
      then have B2: "booting F owned s hs2 (spec_create t1 empty_sched) s2" by (rule booting_created [OF _ yes1(2)])
      then have "kernel_ok F owned hs2 (spec_create t1 empty_sched) s2" by (simp add: booting_def)
      then have "kernel_ok F owned hs2 (spec_create t1 empty_sched) (s2\<lparr>timer_thread := t1\<rparr>)" by (rule kernel_ok_cong) simp_all
      moreover have "held owned (s2\<lparr>timer_thread := t1\<rparr>) hs2 y = held owned s2 hs2 y" for y by (simp add: held_def kept_def)
      moreover have "own_blocks n D hs2 a (s2\<lparr>timer_thread := t1\<rparr>) = own_blocks n D hs2 a s2" for n D a by (simp add: own_blocks_def thread_blocks_def)
      ultimately have "booting F owned s hs2 (spec_create t1 empty_sched) (s2\<lparr>timer_thread := t1\<rparr>)" using B2 by (auto simp: booting_def frame_at_def)
      from booting_console [OF this, of "OK_text @ DISK_text @ OK_text"] show ?thesis by simp
    qed
    have run1: "bsp_start F frame_init hello buf stub timer_fn idle example j1 j2 s = do {
       (rc, idle_thread, s7) \<leftarrow> thread_create F stub j1 idle NULL 0 ?s6;
       if rc \<noteq> EOK then kpanic buf ''Unable to create the idle thread.'' s7
       else do {
         (rc, thread, s8) \<leftarrow> thread_create F stub j2 example NULL 0 s7;
         if rc \<noteq> EOK then kpanic buf ''Unable to create the main thread.'' s8
         else Some (Runs (thread_switch thread (s8\<lparr>cpu_ready := cpu_ready s8 + 1\<rparr>)))
       }}" using s1(1) yes1(1) by (simp add: bsp_start_def texts)
    show ?thesis
    proof (cases rule: boot_create [OF B6, where stub = stub and j = j1 and entry = idle, case_names no2 yes2])
      case (no2 s7)
      then show ?thesis using B6 halt unfolding run1 by (auto simp: booting_def boot_panics_def EOK_def ENOMEM_def)
    next
      case (yes2 t2 s7 hs7)
      show ?thesis
      proof (cases rule: boot_create [OF yes2(3), where stub = stub and j = j2 and entry = example, case_names no3 yes3])
        case (no3 s8)
        then show ?thesis using yes2(1,3) halt unfolding run1 by (auto simp: booting_def boot_panics_def EOK_def ENOMEM_def)
      next
        case (yes3 t3 s8 hs8)
        have "boot_done F owned stub timer_fn idle example s (thread_switch t3 (s8\<lparr>cpu_ready := cpu_ready s8 + 1\<rparr>))"
        proof -
          let ?a2 = "spec_create t2 (spec_create t1 empty_sched)" and ?s9 = "s8\<lparr>cpu_ready := cpu_ready s8 + 1\<rparr>"
          note B8 = yes3(3) [unfolded booting_def] and C1 = yes1(2) [unfolded created_def] and C2 = yes2(2) [unfolded created_def] and C3 = yes3(2) [unfolded created_def]
          have a3: "(spec_create t3 ?a2)\<lparr>running := t3\<rparr> = boot_sched t1 t2 t3"
            by (simp add: spec_create_def empty_sched_def boot_sched_def fun_eq_iff)
          have K9: "kernel_ok F owned hs8 (spec_create t3 ?a2) ?s9" by (rule kernel_ok_cong [of F owned hs8 _ s8]) (use B8 in auto)
          have SR: "sched_rel (thread_switch t3 ?s9) (boot_sched t1 t2 t3)"
            using first_switch [of ?s9 "spec_create t3 ?a2" t3] K9 B8 unfolding a3 by (simp add: kernel_ok_def spec_create_def)
          have "kheap_inv F owned (thread_switch t3 ?s9) hs8"
            using K9 kheap_inv_cong [of "thread_switch t3 ?s9" ?s9] by (simp add: kernel_ok_def)
          moreover note SR
          moreover have "kernel_ok F owned hs8 (boot_sched t1 t2 t3) (thread_switch t3 ?s9)"
            unfolding a3 [symmetric] by (rule kernel_ok_switched [OF K9]) (use SR in \<open>simp add: a3 sched_rel_wf\<close>)
          moreover have "\<exists>n. own_blocks n {t1, t2, t3} hs8 (boot_sched t1 t2 t3) (thread_switch t3 ?s9)"
          proof -
            have k: "known (spec_create t3 ?a2) = {t1, t2, t3}" "known (boot_sched t1 t2 t3) = {t1, t2, t3}" by (auto simp: known_def spec_create_def empty_sched_def boot_sched_def)
            obtain n where "own_blocks n {t1, t2, t3} hs8 (spec_create t3 ?a2) s8" using B8 unfolding k by auto
            then have "own_blocks n {t1, t2, t3} hs8 (boot_sched t1 t2 t3) (thread_switch t3 ?s9)"
              by (rule own_blocks_cong(1)) (simp_all add: k)
            then show ?thesis by blast
          qed
          moreover have "timer_thread s8 = t1" using C2 C3 by (auto simp: keeps_def same_vars_def)
          moreover have "entry_func (thr s8 t1) = timer_fn" "entry_func (thr s8 t2) = idle" "entry_func (thr s8 t3) = example"
            using C1 C2 C3 by (auto simp: known_def spec_create_def)
          moreover have "cur s7 = NULL" "held owned s7 hs7 (unat (frame_at s7))" using yes2(3) by (auto simp: booting_def kernel_ok_def sched_wf_def)
          then have "c_ra (k_regs (thread_switch t3 ?s9)) = stub" "c_a0 (k_regs (thread_switch t3 ?s9)) = t3"
             "interrupts_on (k_cpu (thread_switch t3 ?s9))"
            using switch_to_new [OF yes3(2), of ?s9] by simp_all
          moreover have "cpu_ready (thread_switch t3 ?s9) = cpu_ready s + 1" using B8 by (simp add: switch_ready)
          ultimately show ?thesis using B8 unfolding boot_done_def by - (rule exI [of _ t1], rule exI [of _ t2], rule exI [of _ t3], rule exI [of _ hs8], auto)
        qed
        then show ?thesis using yes2(1) yes3(1) unfolding run1 by simp
      qed
    qed
  qed auto
qed


definition reset_machine :: "nat set machine" where
  "reset_machine = kernel.extend (small_kernel\<lparr>k_mem := (\<lambda>_. 0)\<rparr>) \<lparr>cpu_ready = 0\<rparr>"

lemma reset_layout: "boot_layout one_region (\<lambda>fs. fs) (\<lambda>_. {0..<0x100000}) reset_machine"
  using one_region_ok by (auto simp: boot_layout_def reset_machine_def kernel.defs small_kernel_def static_bytes_def frame_at_def blank_ctx_def
      CONTEXT_SIZE_def MAX_CPU_def)


section \<open>A further processor\<close>

text \<open>The machine when a further processor starts: the heaps are well formed, and the run queue and the stack of the processor are static data.\<close>

definition ap_layout :: "'fs falloc \<Rightarrow> ('fs \<Rightarrow> nat set) \<Rightarrow> hp list \<Rightarrow> ('fs, 'z) machine_scheme \<Rightarrow> bool" where
  "ap_layout F owned hs s \<longleftrightarrow> kheap_inv F owned s hs \<and> cur s = NULL \<and> static_bytes (rq s) \<subseteq> {0x80000000..<0xA0000000} \<and>
     (\<forall>x \<in> static_bytes (rq s) \<union> {unat (frame_at s)}. held owned s hs x)"

definition idle_sched :: "u32 \<Rightarrow> sched_abs" where
  "idle_sched t = \<lparr>queue = [t], running = t, sleeping = {}, dead = {}, waiting = (\<lambda>_. NULL)\<rparr>"

lemma ap_init_ok:
  fixes s :: "('fs, 'z) machine_scheme"
  assumes L: "ap_layout F owned hs s"
  obtains m c tb where "scheduler_init (tlb_init s) = Some (s\<lparr>k_mem := m, k_cpu := c, k_tlb := tb\<rparr>)"
    "kernel_ok F owned hs empty_sched (s\<lparr>k_mem := m, k_cpu := c, k_tlb := tb\<rparr>)"
proof -
  have S: "static_bytes (rq s) \<subseteq> {0x80000000..<0xA0000000}" and H: "\<And>x. x \<in> static_bytes (rq s) \<Longrightarrow> held owned s hs x" and inv: "kheap_inv F owned s hs"
    using L by (auto simp: ap_layout_def)
  note Q = static_cells [OF S]
  obtain c tb where tlb: "tlb_init s = s\<lparr>k_cpu := c, k_tlb := tb\<rparr>" using tlb_init_form [of s] by auto
  obtain m where m: "list_init (k_mem s) (rq s) = Some m" "is_list m (rq s) []" "\<forall>a. a \<notin> link_cells {rq s} \<longrightarrow> m a = k_mem s a"
    using list_init_correct [OF Q(1)] by blast
  let ?s = "s\<lparr>k_mem := m, k_cpu := timer_setup THREAD_QUANTUM c, k_tlb := tb\<rparr>"
  have run: "scheduler_init (tlb_init s) = Some ?s" using m(1) by (simp add: scheduler_init_def tlb upd_order Let_def)
  have "kheap_inv F owned (s\<lparr>k_mem := m\<rparr>) hs"
  proof (rule write_held [OF inv])
    fix x :: nat assume x: "x < 2 ^ 32" "\<not> held owned s hs x"
    then have "W x \<notin> link_cells {rq s}" using H Q(5) [of "W x"] by (auto simp: unat_W)
    then show "m (W x) = k_mem s (W x)" using m(3) by blast
  qed
  then have "kheap_inv F owned ?s hs" using kheap_inv_cong [of ?s "s\<lparr>k_mem := m\<rparr>"] by simp
  moreover have "sched_wf ?s empty_sched" using m(2) Q(1) L by (simp add: sched_wf_def empty_sched_def known_def links_sep_def ap_layout_def)
  moreover have "held owned ?s hs (unat x)" if "x \<in> link_cells (sched_links ?s empty_sched)" for x
    using H Q(5) [of x] that by (simp add: empty_sched_def known_def held_def kept_def)
  ultimately show thesis by (intro that [OF run]) (simp add: kernel_ok_def)
qed

text \<open>A further processor whose turn has come starts its scheduler: it runs its idle thread, which is alone on the run queue of the processor, from the stub and with interrupts
  enabled, the heaps are well formed, and the next processor may start. The one other case is that the heap has no room for the thread: then the code, which does not look
  at the result of \<^verbatim>\<open>thread_create\<close>, switches to whatever the uninitialized variable holds.\<close>

theorem ap_start_correct:
  fixes s :: "('fs, 'z) machine_scheme"
  assumes L: "ap_layout F owned hs s" and turn: "sint (k_cpuid s) \<le> sint (cpu_ready s)"
  shows "(\<exists>t s' hs'. ap_start F stub idle j s = Some (Runs s') \<and> kheap_inv F owned s' hs' \<and> sched_rel s' (idle_sched t) \<and> entry_func (thr s' t) = idle \<and>
       c_ra (k_regs s') = stub \<and> c_a0 (k_regs s') = t \<and> interrupts_on (k_cpu s') \<and> cpu_ready s' = cpu_ready s + 1) \<or>
     (\<exists>s2 s3. scheduler_init (tlb_init s) = Some s2 \<and> thread_create F stub j idle NULL 0 s2 = Some (ENOMEM, j, s3) \<and>
       ap_start F stub idle j s = Some (Runs (thread_switch j (s3\<lparr>cpu_ready := cpu_ready s3 + 1\<rparr>))))"
proof -
  obtain m c tb where i: "scheduler_init (tlb_init s) = Some (s\<lparr>k_mem := m, k_cpu := c, k_tlb := tb\<rparr>)"
    and K: "kernel_ok F owned hs empty_sched (s\<lparr>k_mem := m, k_cpu := c, k_tlb := tb\<rparr>)" by (rule ap_init_ok [OF L])
  define s2 where "s2 = s\<lparr>k_mem := m, k_cpu := c, k_tlb := tb\<rparr>"
  obtain rc t s3 hs3 where c: "thread_create F stub j idle NULL 0 s2 = Some (rc, t, s3)"
    "if rc = EOK then created F owned hs empty_sched s2 stub idle NULL 0 t hs3 s3 else rc = ENOMEM \<and> t = j"
    using create_outcome [OF K, of stub j idle NULL 0] by (auto simp: s2_def split: if_splits)
  let ?s4 = "s3\<lparr>cpu_ready := cpu_ready s3 + 1\<rparr>"
  have run: "ap_start F stub idle j s = Some (Runs (thread_switch t ?s4))" using turn i c(1) by (simp add: ap_start_def s2_def)
  show ?thesis
  proof (cases "rc = EOK")
    case False
    then show ?thesis using c run i s2_def by auto
  next
    case True
    then have C: "created F owned hs empty_sched s2 stub idle NULL 0 t hs3 s3" using c(2) by simp
    note C' = C [unfolded created_def]
    have K4: "kernel_ok F owned hs3 (spec_create t empty_sched) ?s4" by (rule kernel_ok_cong [of F owned hs3 _ s3]) (use C' in auto)
    have "(spec_create t empty_sched)\<lparr>running := t\<rparr> = idle_sched t" by (simp add: spec_create_def empty_sched_def idle_sched_def fun_eq_iff)
    then have R: "sched_rel (thread_switch t ?s4) (idle_sched t)"
      using first_switch [of ?s4 "spec_create t empty_sched" t] K4 by (simp add: kernel_ok_def spec_create_def empty_sched_def)
    have inv: "kheap_inv F owned (thread_switch t ?s4) hs3" using K4 kheap_inv_cong [of "thread_switch t ?s4" ?s4] by (simp add: kernel_ok_def)
    have "cur s2 = NULL" "held owned s2 hs (unat (frame_at s2))" using L by (auto simp: ap_layout_def s2_def frame_at_def held_def kept_def)
    note S = switch_to_new [OF C this, of ?s4, simplified]
    have "cpu_ready s3 = cpu_ready s" using C' more_ready [of s3 s2] by (simp add: s2_def)
    then show ?thesis using run R inv S C' by (auto simp: switch_ready)
  qed
qed

definition ap_machine :: "nat set machine" where
  "ap_machine = kernel.extend (boot_kernel\<lparr>current_thread := (\<lambda>_. NULL)\<rparr>) \<lparr>cpu_ready = 0\<rparr>"

theorem ap_start_correct_witness:
  "(\<exists>t s'. ap_start one_region 0x80000400 0x80000600 0 ap_machine = Some (Runs s') \<and> sched_rel s' (idle_sched t) \<and> cpu_ready s' = 1) \<or>
   (\<exists>s2 s3. thread_create one_region 0x80000400 0 0x80000600 NULL 0 s2 = Some (ENOMEM, 0, s3) \<and>
     ap_start one_region 0x80000400 0x80000600 0 ap_machine = Some (Runs (thread_switch 0 (s3\<lparr>cpu_ready := cpu_ready s3 + 1\<rparr>))))"
proof -
  have "kheap_inv one_region (\<lambda>fs. fs) ap_machine []"
    using boot_kernel_ok kheap_inv_cong [of ap_machine boot_kernel] by (simp add: kernel_ok_def ap_machine_def kernel.defs)
  then have "ap_layout one_region (\<lambda>fs. fs) [] ap_machine"
    by (auto simp: ap_layout_def ap_machine_def kernel.defs boot_kernel_def small_kernel_def static_bytes_def frame_at_def blank_ctx_def CONTEXT_SIZE_def
      held_def kept_def heap_bytes_def)
  from ap_start_correct [OF this, of "0x80000400" "0x80000600" 0] show ?thesis
    by (auto simp: ap_machine_def kernel.defs boot_kernel_def small_kernel_def)
qed

end
