(* ===== verification/Process.thy ===== *)
theory Process
  imports Thread_Create Support Vm_Properties
begin

text \<open>
  Processes (\<^verbatim>\<open>kernel/proc/process.c\<close>, the structure of a user thread of \<^verbatim>\<open>kernel/proc/sys_thread.h\<close>): creation with its error
  paths on top of the heap and of \<^verbatim>\<open>thread_create\<close>, return value and join.
\<close>

unbundle bit_operations_syntax

section \<open>Structures\<close>

text \<open>The links of a process and of a user thread are at offset 0; the two list heads of a process are link cells of the
  memory, at their offsets.\<close>

record process =
  p_ustack_top :: u32
  p_main_uthread :: u32
  p_image :: u32
  p_size :: u32
  p_retval :: u32

record uthread =
  u_thread :: u32
  u_process :: u32
  u_entry :: u32
  u_data :: u32
  u_user_data :: u32

definition sizeof_process :: u32 where "sizeof_process = 44"
definition sizeof_uthread :: u32 where "sizeof_uthread = 28"
definition uthread_list :: "u32 \<Rightarrow> u32" where "uthread_list p = p + 28"
definition umutex_list :: "u32 \<Rightarrow> u32" where "umutex_list p = p + 36"

definition USER_CODE_START :: u32 where "USER_CODE_START = 0x00001000"
definition USER_STACK_SIZE :: u32 where "USER_STACK_SIZE = THREAD_STACK_SIZE"
definition USER_STACK_START :: u32 where "USER_STACK_START = 0x7FFFF000 - USER_STACK_SIZE"

text \<open>The kernel with processes; \<open>k_bytes\<close> are the bytes the running thread sees at its virtual addresses.\<close>

record 'fs pkernel = "'fs kernel" +
  prc :: "u32 \<Rightarrow> process"
  uth :: "u32 \<Rightarrow> uthread"
  k_bytes :: bytes

definition upd_process :: "u32 \<Rightarrow> (process \<Rightarrow> process) \<Rightarrow> ('fs, 'z) pkernel_scheme \<Rightarrow> ('fs, 'z) pkernel_scheme" where
  "upd_process p f s = s\<lparr>prc := (prc s)(p := f (prc s p))\<rparr>"

definition upd_uthread :: "u32 \<Rightarrow> (uthread \<Rightarrow> uthread) \<Rightarrow> ('fs, 'z) pkernel_scheme \<Rightarrow> ('fs, 'z) pkernel_scheme" where
  "upd_uthread u f s = s\<lparr>uth := (uth s)(u := f (uth s u))\<rparr>"

section \<open>Operations\<close>

text \<open>The part of \<^verbatim>\<open>process_create\<close> between the allocations and the creation of the main thread.\<close>

definition process_fill :: "u32 \<Rightarrow> u32 \<Rightarrow> u32 \<Rightarrow> u32 \<Rightarrow> ('fs, 'z) pkernel_scheme \<Rightarrow> ('fs, 'z) pkernel_scheme option" where
  "process_fill process uthread img sz s = do {
     let s1 = upd_process process (\<lambda>p. p\<lparr>p_main_uthread := uthread, p_image := img, p_size := sz\<rparr>) s;
     m1 \<leftarrow> list_init (k_mem s1) (uthread_list process);
     m2 \<leftarrow> list_init m1 (umutex_list process);
     let s2 = upd_uthread uthread (\<lambda>u. u\<lparr>u_process := process, u_entry := USER_CODE_START, u_data := NULL, u_user_data := NULL\<rparr>)
       (s1\<lparr>k_mem := m2\<rparr>);
     m3 \<leftarrow> list_append (k_mem s2) (uthread_list process) uthread;
     Some (s2\<lparr>k_mem := m3\<rparr>)
   }"

text \<open>\<^verbatim>\<open>process_create (&pprocess, img, size)\<close>: the error code, the new value of \<^verbatim>\<open>pprocess\<close> and the state; \<open>stub\<close> and \<open>pstub\<close> are
  the addresses of \<^verbatim>\<open>thread_stub\<close> and \<^verbatim>\<open>process_stub\<close>.\<close>

definition process_create ::
  "'fs falloc \<Rightarrow> u32 \<Rightarrow> u32 \<Rightarrow> u32 \<Rightarrow> u32 \<Rightarrow> u32 \<Rightarrow> ('fs, 'z) pkernel_scheme \<Rightarrow> (u32 \<times> u32 \<times> ('fs, 'z) pkernel_scheme) option" where
  "process_create F stub pstub pprocess img sz s = do {
     (process, s1) \<leftarrow> malloc F sizeof_process s;
     if process = NULL then Some (ENOMEM, pprocess, s1)
     else do {
       (uthread, s2) \<leftarrow> malloc F sizeof_uthread s1;
       if uthread = NULL then do {
         s3 \<leftarrow> kfree F process s2;
         Some (ENOMEM, pprocess, s3)
       } else do {
         s3 \<leftarrow> process_fill process uthread img sz s2;
         (rc, t, s4) \<leftarrow> thread_create F stub (u_thread (uth s3 uthread)) pstub process TF_NEW_VMM s3;
         let s5 = upd_uthread uthread (\<lambda>u. u\<lparr>u_thread := t\<rparr>) s4;
         if rc \<noteq> EOK then do {
           m \<leftarrow> list_remove (k_mem s5) uthread;
           s6 \<leftarrow> kfree F uthread (s5\<lparr>k_mem := m\<rparr>);
           s7 \<leftarrow> kfree F process s6;
           Some (rc, pprocess, s7)
         } else Some (EOK, process, s5)
       }
     }
   }"

definition process_set_retval :: "u32 \<Rightarrow> u32 \<Rightarrow> ('fs, 'z) pkernel_scheme \<Rightarrow> ('fs, 'z) pkernel_scheme" where
  "process_set_retval process rv s =
     (let (state, s1) = irq_off s
      in irq_restore state (upd_process process (\<lambda>p. p\<lparr>p_retval := rv\<rparr>) s1))"

text \<open>\<^verbatim>\<open>process_join\<close> up to the point where \<^verbatim>\<open>thread_join\<close> waits or proceeds.\<close>

definition process_join :: "u32 \<Rightarrow> ('fs, 'z) pkernel_scheme \<Rightarrow> (join_step \<times> ('fs, 'z) pkernel_scheme) option" where
  "process_join process s =
     (let (state, s1) = irq_off s;
          thread = u_thread (uth s1 (p_main_uthread (prc s1 process)))
      in thread_join_begin thread (irq_restore state s1))"

section \<open>Lemmas\<close>

lemma keeps_prc [simp]: "keeps owned a s hs (s'\<lparr>prc := P\<rparr>) hs' = keeps owned a s hs s' hs'"
    "keeps owned a s hs (s'\<lparr>uth := U\<rparr>) hs' = keeps owned a s hs s' hs'"
    "keeps owned a (s\<lparr>prc := P\<rparr>) hs s' hs' = keeps owned a s hs s' hs'"
    "keeps owned a (s\<lparr>uth := U\<rparr>) hs s' hs' = keeps owned a s hs s' hs'"
  by (simp_all add: keeps_def same_vars_def held_def kept_def)

lemma held_prc [simp]: "held owned (s\<lparr>prc := P\<rparr>) hs x = held owned s hs x" "held owned (s\<lparr>uth := U\<rparr>) hs x = held owned s hs x"
  by (simp_all add: held_def kept_def)

lemma kernel_ok_prc [simp]: "kernel_ok F owned hs a (s\<lparr>prc := P\<rparr>) = kernel_ok F owned hs a s"
    "kernel_ok F owned hs a (s\<lparr>uth := U\<rparr>) = kernel_ok F owned hs a s"
  by (auto intro: kernel_ok_cong)

lemma keeps_write:
  assumes "keeps owned a s hs s' hs'" and "\<And>c. m c \<noteq> k_mem s' c \<Longrightarrow> \<not> held owned s hs (unat c)"
  shows "keeps owned a s hs (s'\<lparr>k_mem := m\<rparr>) hs'"
proof -
  have "m c = k_mem s c" if "held owned s hs (unat c)" "c \<notin> link_cells (sched_links s a)" for c
    using assms(2) [of c] assms(1) that by (auto simp: keeps_def)
  then show ?thesis using assms(1) by (simp add: keeps_def)
qed

text \<open>Filling in the structures: the main thread is the only user thread, there are no mutexes; only cells of the two blocks change.\<close>

lemma process_fill_ok:
  assumes b: "unat p + 44 < 2 ^ 32" "unat u + 28 < 2 ^ 32" "p \<noteq> NULL" "u \<noteq> NULL" and d: "area (unat p, 44) \<inter> area (unat u, 28) = {}"
  shows "\<exists>m. process_fill p u img sz s = Some (s\<lparr>k_mem := m,
       prc := (prc s)(p := (prc s p)\<lparr>p_main_uthread := u, p_image := img, p_size := sz\<rparr>),
       uth := (uth s)(u := (uth s u)\<lparr>u_process := p, u_entry := USER_CODE_START, u_data := NULL, u_user_data := NULL\<rparr>)\<rparr>) \<and>
     is_list m (uthread_list p) [u] \<and> is_list m (umutex_list p) [] \<and>
     (\<forall>c. m c \<noteq> k_mem s c \<longrightarrow> unat c \<in> area (unat p, 44) \<union> area (unat u, 28))"
proof -
  have ad: "unat (p + 28) = unat p + 28" "unat (p + 32) = unat p + 32" "unat (p + 36) = unat p + 36" "unat (p + 40) = unat p + 40"
    "unat (u + 4) = unat u + 4" using b(1,2) by (simp_all add: unat_word_ariths)
  have nz: "uthread_list p \<noteq> NULL" "umutex_list p \<noteq> NULL" using ad by (auto simp: uthread_list_def umutex_list_def)
  have area: "unat (p + 28) \<in> area (unat p, 44)" "unat (p + 32) \<in> area (unat p, 44)" "unat (p + 36) \<in> area (unat p, 44)"
    "unat (p + 40) \<in> area (unat p, 44)" "unat u \<in> area (unat u, 28)" "unat (u + 4) \<in> area (unat u, 28)"
    unfolding ad by (simp_all add: area_def)
  have far: "x \<noteq> y" if "unat x \<in> area (unat p, 44)" "unat y \<in> area (unat u, 28)" for x y using d that by auto
  have apart: "p + 28 \<noteq> u" "p + 28 \<noteq> u + 4" "p + 32 \<noteq> u" "p + 32 \<noteq> u + 4" "p + 36 \<noteq> u" "p + 36 \<noteq> u + 4" "p + 40 \<noteq> u" "p + 40 \<noteq> u + 4"
    by (rule far; rule area)+
  obtain m1 where m1: "list_init (k_mem s) (uthread_list p) = Some m1" "is_list m1 (uthread_list p) []"
    "\<forall>c. c \<notin> link_cells {uthread_list p} \<longrightarrow> m1 c = k_mem s c" using list_init_correct [OF nz(1)] by blast
  obtain m2 where m2: "list_init m1 (umutex_list p) = Some m2" "is_list m2 (umutex_list p) []"
    "\<forall>c. c \<notin> link_cells {umutex_list p} \<longrightarrow> m2 c = m1 c" using list_init_correct [OF nz(2)] by blast
  have "is_list m2 (uthread_list p) []"
    using m1(2) m2(3) is_list_cong [of "uthread_list p" "[]" m2 m1] by (auto simp: link_cells_def uthread_list_def umutex_list_def)
  moreover have "links_sep (insert u (set [uthread_list p]))" "u \<notin> set [uthread_list p]"
    using apart by (auto simp: links_sep_def uthread_list_def add.assoc dest: sym)
  ultimately obtain m3 where m3: "list_append m2 (uthread_list p) u = Some m3" "is_list m3 (uthread_list p) [u]"
    "\<forall>c. c \<notin> link_cells {u, uthread_list p} \<longrightarrow> m3 c = m2 c"
    using list_append_correct [of m2 "uthread_list p" "[]" u] b(4) by auto
  have "c \<notin> link_cells {u, uthread_list p}" if "c \<in> {p + 36, p + 40}" for c
    using that apart by (auto simp: link_cells_def uthread_list_def)
  then have "m3 (p + 36) = m2 (p + 36)" "m3 (p + 40) = m2 (p + 40)" using m3(3) by blast+
  then have "is_list m3 (umutex_list p) []"
    using m2(2) is_list_cong [of "umutex_list p" "[]" m3 m2] by (simp add: link_cells_def umutex_list_def add.assoc)
  moreover have "unat c \<in> area (unat p, 44) \<union> area (unat u, 28)" if "m3 c \<noteq> k_mem s c" for c
  proof -
    have "c \<in> link_cells {u, uthread_list p, umutex_list p}"
    proof (rule ccontr)
      assume c: "c \<notin> link_cells {u, uthread_list p, umutex_list p}"
      have "m3 c = m2 c" "m2 c = m1 c" "m1 c = k_mem s c" using c m1(3) m2(3) m3(3) by (simp_all add: link_cells_def)
      then show False using that by simp
    qed
    then show ?thesis using area by (auto simp: link_cells_def uthread_list_def umutex_list_def add.assoc)
  qed
  moreover have "process_fill p u img sz s = Some (s\<lparr>k_mem := m3,
       prc := (prc s)(p := (prc s p)\<lparr>p_main_uthread := u, p_image := img, p_size := sz\<rparr>),
       uth := (uth s)(u := (uth s u)\<lparr>u_process := p, u_entry := USER_CODE_START, u_data := NULL, u_user_data := NULL\<rparr>)\<rparr>)"
    using m1(1) m2(1) m3(1) by (simp add: process_fill_def upd_process_def upd_uthread_def)
  ultimately show ?thesis using m3(2) by blast
qed

text \<open>The two blocks of a new process, before and after \<^verbatim>\<open>process_fill\<close>.\<close>

definition blocks_new ::
  "'fs falloc \<Rightarrow> ('fs \<Rightarrow> nat set) \<Rightarrow> hp list \<Rightarrow> sched_abs \<Rightarrow> ('fs, 'z) pkernel_scheme \<Rightarrow> u32 \<Rightarrow> nat \<Rightarrow> u32 \<Rightarrow> nat \<Rightarrow> hp list \<Rightarrow> ('fs, 'z) pkernel_scheme \<Rightarrow> bool" where
  "blocks_new F owned hs a s p k u j hs2 s2 \<longleftrightarrow> kernel_ok F owned hs2 a s2 \<and> keeps owned a s hs s2 hs2 \<and>
     p \<noteq> NULL \<and> u \<noteq> NULL \<and> 44 \<le> k \<and> 28 \<le> j \<and> unat p + k < 2 ^ 32 \<and> unat u + j < 2 ^ 32 \<and>
     allocated hs2 = insert (unat u, j) (insert (unat p, k) (allocated hs)) \<and> (unat p, k) \<notin> allocated hs \<and>
     (unat u, j) \<notin> insert (unat p, k) (allocated hs) \<and> area (unat p, k) \<inter> area (unat u, j) = {} \<and>
     (\<forall>x \<in> area (unat p, k) \<union> area (unat u, j). held owned s2 hs2 x \<and> \<not> held owned s hs x)"

lemma blocks_write:
  assumes K: "kernel_ok F owned hs a s" and B: "blocks_new F owned hs a s p k u j hs2 s2"
    and m: "\<And>c. m c \<noteq> k_mem s2 c \<Longrightarrow> unat c \<in> area (unat p, 44) \<union> area (unat u, 28)"
  shows "blocks_new F owned hs a s p k u j hs2 (s2\<lparr>k_mem := m\<rparr>)"
proof -
  have sub: "unat c \<in> area (unat p, k) \<union> area (unat u, j)" if "m c \<noteq> k_mem s2 c" for c
    using m [OF that] B by (auto simp: blocks_new_def area_def)
  have "kernel_ok F owned hs2 a (s2\<lparr>k_mem := m\<rparr>)"
  proof (rule kernel_write)
    fix c assume c: "m c \<noteq> k_mem s2 c"
    have "c \<notin> link_cells (sched_links s2 a)"
    proof
      assume "c \<in> link_cells (sched_links s2 a)"
      then have "held owned s hs (unat c)" using K B by (auto simp: kernel_ok_def blocks_new_def keeps_def same_vars_def)
      then show False using sub [OF c] B by (auto simp: blocks_new_def)
    qed
    then show "held owned s2 hs2 (unat c) \<and> c \<notin> link_cells (sched_links s2 a)" using sub [OF c] B by (auto simp: blocks_new_def)
  qed (use B in \<open>simp add: blocks_new_def\<close>)
  moreover have "keeps owned a s hs (s2\<lparr>k_mem := m\<rparr>) hs2"
    by (rule keeps_write) (use B sub in \<open>auto simp: blocks_new_def\<close>)
  ultimately show ?thesis using B by (simp add: blocks_new_def)
qed

lemma blocks_prc [simp]: "blocks_new F owned hs a s p k u j hs2 (s2\<lparr>prc := P\<rparr>) = blocks_new F owned hs a s p k u j hs2 s2"
    "blocks_new F owned hs a s p k u j hs2 (s2\<lparr>uth := U\<rparr>) = blocks_new F owned hs a s p k u j hs2 s2"
  by (simp_all add: blocks_new_def)

text \<open>Giving both blocks back.\<close>

lemma blocks_free:
  assumes K: "kernel_ok F owned hs a s" and B: "blocks_new F owned hs a s p k u j hs2 s2"
  shows "\<exists>s3 s' hs'. kfree F u s2 = Some s3 \<and> kfree F p s3 = Some s' \<and> kernel_ok F owned hs' a s' \<and> keeps owned a s hs s' hs' \<and>
     allocated hs' = allocated hs"
proof -
  note S = B [unfolded blocks_new_def]
  have link: "unat c \<notin> area x" if "c \<in> link_cells (sched_links s a)" "\<forall>y \<in> area x. \<not> held owned s hs y" for c x
    using K that by (auto simp: kernel_ok_def)
  have rq2: "rq s2 = rq s" using S keeps_same by (fastforce simp: same_vars_def)
  have "kernel_ok F owned hs2 a s2" "(unat u, j) \<in> allocated hs2"
    "\<And>c. c \<in> link_cells (sched_links s2 a) \<Longrightarrow> unat c \<notin> area (unat u, j)" "keeps owned a s hs s2 hs2"
    "\<And>x. x \<in> area (unat u, j) \<Longrightarrow> \<not> held owned s hs x"
    using S link rq2 by auto
  then obtain m fs' hs3 where f: "kfree F u s2 = Some (s2\<lparr>k_mem := m, k_fs := fs'\<rparr>)" "allocated hs3 = allocated hs2 - {(unat u, j)}"
    "kernel_ok F owned hs3 a (s2\<lparr>k_mem := m, k_fs := fs'\<rparr>)" "keeps owned a s hs (s2\<lparr>k_mem := m, k_fs := fs'\<rparr>) hs3" by (rule kernel_free)
  let ?s3 = "s2\<lparr>k_mem := m, k_fs := fs'\<rparr>"
  have "(unat p, k) \<in> allocated hs3" "\<And>c. c \<in> link_cells (sched_links ?s3 a) \<Longrightarrow> unat c \<notin> area (unat p, k)"
    using S f(2) link rq2 by auto
  with f(3) obtain m' fs'' hs' where "kfree F p ?s3 = Some (?s3\<lparr>k_mem := m', k_fs := fs''\<rparr>)" "allocated hs' = allocated hs3 - {(unat p, k)}"
    "kernel_ok F owned hs' a (?s3\<lparr>k_mem := m', k_fs := fs''\<rparr>)" "keeps owned a s hs (?s3\<lparr>k_mem := m', k_fs := fs''\<rparr>) hs'"
  proof (rule kernel_free)
    show "keeps owned a s hs ?s3 hs3" "\<And>x. x \<in> area (unat p, k) \<Longrightarrow> \<not> held owned s hs x" using f(4) S by auto
  qed
  then show ?thesis using f S by auto
qed

lemma blocks_alloc:
  fixes s :: "('fs, 'z) pkernel_scheme"
  assumes K: "kernel_ok F owned hs a s"
  obtains (fail) s1 where "malloc F sizeof_process s = Some (NULL, s1)" "kernel_ok F owned hs a s1" "keeps owned a s hs s1 hs"
  | (half) p s1 s2 s3 hs' where "malloc F sizeof_process s = Some (p, s1)" "p \<noteq> NULL" "malloc F sizeof_uthread s1 = Some (NULL, s2)"
     "kfree F p s2 = Some s3" "kernel_ok F owned hs' a s3" "keeps owned a s hs s3 hs'" "allocated hs' = allocated hs"
  | (ok) p k u j s1 s2 hs2 where "malloc F sizeof_process s = Some (p, s1)" "malloc F sizeof_uthread s1 = Some (u, s2)"
     "blocks_new F owned hs a s p k u j hs2 s2" "k_cpu s2 = k_cpu s" "last_asid s2 = last_asid s"
proof -
  have n: "sizeof_process \<le> HEAP_BLOCK_SIZE_MAX" "sizeof_uthread \<le> HEAP_BLOCK_SIZE_MAX"
    by (simp_all add: sizeof_process_def sizeof_uthread_def HEAP_BLOCK_SIZE_MAX_def)
  show thesis
  proof (cases rule: kernel_malloc [OF K n(1), case_names no yes])
    case (no fs')
    then show thesis by (intro fail)
  next
    case (yes p k hs1 m fs')
    let ?s1 = "s\<lparr>k_mem := m, k_fs := fs'\<rparr>"
    have new: "\<not> held owned s hs x" if "x \<in> area (unat p, k)" for x using yes(9) [OF that] by simp
    have link: "unat c \<notin> area (unat p, k)" if "c \<in> link_cells (sched_links s a)" for c
      using K that new by (auto simp: kernel_ok_def)
    show thesis
    proof (cases rule: kernel_malloc [OF yes(7) n(2), case_names no' yes'])
      case (no' fs'')
      let ?s2 = "?s1\<lparr>k_fs := fs''\<rparr>"
      have k2: "keeps owned a s hs ?s2 hs1" by (rule keeps_trans [OF yes(8) no'(3)])
      have "(unat p, k) \<in> allocated hs1" "\<And>c. c \<in> link_cells (sched_links ?s2 a) \<Longrightarrow> unat c \<notin> area (unat p, k)"
        using yes(5) link by auto
      with no'(2) obtain m' f hs' where f: "kfree F p ?s2 = Some (?s2\<lparr>k_mem := m', k_fs := f\<rparr>)" "allocated hs' = allocated hs1 - {(unat p, k)}"
        "kernel_ok F owned hs' a (?s2\<lparr>k_mem := m', k_fs := f\<rparr>)" "keeps owned a s hs (?s2\<lparr>k_mem := m', k_fs := f\<rparr>) hs'"
      proof (rule kernel_free)
        show "keeps owned a s hs ?s2 hs1" "\<And>x. x \<in> area (unat p, k) \<Longrightarrow> \<not> held owned s hs x" using k2 new by auto
      qed
      have "allocated hs' = allocated hs" using f(2) yes(5,6) by auto
      then show thesis by (rule half [OF yes(1,2) no'(1) f(1,3,4)])
    next
      case (yes' u j hs2 m' fs'')
      let ?s2 = "?s1\<lparr>k_mem := m', k_fs := fs''\<rparr>"
      have "keeps owned a s hs ?s2 hs2" by (rule keeps_trans [OF yes(8) yes'(8)])
      moreover have "held owned ?s2 hs2 x \<and> \<not> held owned s hs x \<and> x \<notin> area (unat u, j)" if x: "x \<in> area (unat p, k)" for x
        using yes(9) [OF x] yes'(8) yes'(9) [of x] by (auto simp: keeps_def)
      moreover have "held owned ?s2 hs2 x \<and> \<not> held owned s hs x" if x: "x \<in> area (unat u, j)" for x
        using yes'(9) [OF x] yes(8) by (auto simp: keeps_def)
      ultimately have "blocks_new F owned hs a s p k u j hs2 ?s2"
        using yes(2-6) yes'(2-7) by (auto simp: blocks_new_def sizeof_process_def sizeof_uthread_def)
      then show thesis by (rule ok [OF yes(1) yes'(1)]) simp_all
    qed
  qed
qed

section \<open>Creating a process\<close>

text \<open>What a created process is.\<close>

definition process_created ::
  "'fs falloc \<Rightarrow> ('fs \<Rightarrow> nat set) \<Rightarrow> hp list \<Rightarrow> sched_abs \<Rightarrow> ('fs, 'z) pkernel_scheme \<Rightarrow> u32 \<Rightarrow> u32 \<Rightarrow> u32 \<Rightarrow> u32 \<Rightarrow> hp list \<Rightarrow> ('fs, 'z) pkernel_scheme \<Rightarrow> bool" where
  "process_created F owned hs a s pstub img sz p hs' s' \<longleftrightarrow>
     (let u = p_main_uthread (prc s' p); t = u_thread (uth s' u) in
       kernel_ok F owned hs' (spec_create t a) s' \<and> t \<notin> known a \<and> k_cpu s' = k_cpu s \<and> keeps owned a s hs s' hs' \<and>
       allocated hs \<subseteq> allocated hs' \<and> (\<exists>k \<ge> unat sizeof_process. (unat p, k) \<in> allocated hs' - allocated hs) \<and>
       (\<exists>j \<ge> unat sizeof_uthread. (unat u, j) \<in> allocated hs' - allocated hs) \<and>
       p_image (prc s' p) = img \<and> p_size (prc s' p) = sz \<and>
       is_list (k_mem s') (uthread_list p) [u] \<and> is_list (k_mem s') (umutex_list p) [] \<and>
       u_process (uth s' u) = p \<and> u_entry (uth s' u) = USER_CODE_START \<and>
       entry_func (thr s' t) = pstub \<and> entry_data (thr s' t) = p \<and> t_state (thr s' t) = THREAD_READY \<and>
       vmms s' (t_vmm (thr s' t)) = zero_vmm\<lparr>asid := last_asid s\<rparr>)"

lemma process_cells:
  assumes "c \<in> link_cells {uthread_list p, umutex_list p, u}" and "unat p + 44 < 2 ^ 32" and "unat u + 28 < 2 ^ 32"
  shows "unat c \<in> area (unat p, 44) \<union> area (unat u, 28)"
proof -
  have "unat (p + 28) = unat p + 28" "unat (p + 32) = unat p + 32" "unat (p + 36) = unat p + 36" "unat (p + 40) = unat p + 40"
    "unat (u + 4) = unat u + 4" using assms(2,3) by (simp_all add: unat_word_ariths)
  then show ?thesis using assms(1) by (auto simp: link_cells_def uthread_list_def umutex_list_def area_def add.assoc)
qed

lemma more_prc:
  fixes s s' :: "('fs, 'z) pkernel_scheme"
  assumes "kernel.more s = kernel.more s'"
  shows "prc s = prc s'" "uth s = uth s'" "k_bytes s = k_bytes s'"
  using assms by (cases s; cases s'; simp)+

lemma process_outcome:
  fixes s :: "('fs, 'z) pkernel_scheme"
  assumes K: "kernel_ok F owned hs a s"
  shows "\<exists>rc p s' hs'. process_create F stub pstub pprocess img sz s = Some (rc, p, s') \<and>
     (if rc = EOK then process_created F owned hs a s pstub img sz p hs' s'
      else rc = ENOMEM \<and> p = pprocess \<and> kernel_ok F owned hs' a s' \<and> keeps owned a s hs s' hs' \<and> allocated hs' = allocated hs)"
proof (cases rule: blocks_alloc [OF K, case_names fail half ok])
  case (fail s1)
  then show ?thesis by (auto simp: process_create_def EOK_def ENOMEM_def)
next
  case (half p s1 s2 s3 hs')
  then show ?thesis by (auto simp: process_create_def EOK_def ENOMEM_def)
next
  case (ok p k u j s1 s2 hs2)
  note B = ok(3) [unfolded blocks_new_def]
  have a44: "area (unat p, 44) \<subseteq> area (unat p, k)" "area (unat u, 28) \<subseteq> area (unat u, j)" using B by (auto simp: area_def)
  obtain m where m: "process_fill p u img sz s2 = Some (s2\<lparr>k_mem := m,
       prc := (prc s2)(p := (prc s2 p)\<lparr>p_main_uthread := u, p_image := img, p_size := sz\<rparr>),
       uth := (uth s2)(u := (uth s2 u)\<lparr>u_process := p, u_entry := USER_CODE_START, u_data := NULL, u_user_data := NULL\<rparr>)\<rparr>)"
      (is "_ = Some ?s3") "is_list m (uthread_list p) [u]" "is_list m (umutex_list p) []"
      "\<forall>c. m c \<noteq> k_mem s2 c \<longrightarrow> unat c \<in> area (unat p, 44) \<union> area (unat u, 28)"
    using process_fill_ok [of p u img sz s2] B a44 by fastforce
  have B3: "blocks_new F owned hs a s p k u j hs2 ?s3"
    using blocks_write [OF K ok(3), of m] m(4) by simp
  have K3: "kernel_ok F owned hs2 a ?s3" using B3 by (simp add: blocks_new_def)
  have cells: "held owned ?s3 hs2 (unat c) \<and> c \<notin> link_cells (sched_links ?s3 a) \<and> unat c \<in> area (unat p, 44) \<union> area (unat u, 28)"
    if "c \<in> link_cells {uthread_list p, umutex_list p, u}" for c
  proof -
    have c: "unat c \<in> area (unat p, 44) \<union> area (unat u, 28)" by (rule process_cells [OF that]) (use B in auto)
    have h: "held owned ?s3 hs2 (unat c)" "\<not> held owned s hs (unat c)" using c a44 B3 unfolding blocks_new_def by blast+
    have "c \<notin> link_cells (sched_links s a)" using h(2) K by (auto simp: kernel_ok_def)
    moreover have "rq ?s3 = rq s" using B keeps_same by (fastforce simp: same_vars_def)
    ultimately show ?thesis using c h(1) by simp
  qed
  obtain rc t s4 hs4 where c: "thread_create F stub (u_thread (uth ?s3 u)) pstub p TF_NEW_VMM ?s3 = Some (rc, t, s4)"
    and q: "if rc = EOK then created F owned hs2 a ?s3 stub pstub p TF_NEW_VMM t hs4 s4
      else rc = ENOMEM \<and> not_created F owned hs2 a ?s3 hs4 s4"
    using create_outcome [OF K3, of stub "u_thread (uth ?s3 u)" pstub p TF_NEW_VMM] by (auto split: if_splits)
  have k4: "keeps owned a ?s3 hs2 s4 hs4" using q by (auto simp: created_def not_created_def split: if_splits)
  have k5: "keeps owned a s hs s4 hs4" using keeps_trans [OF _ k4, of s hs] B3 by (simp add: blocks_new_def)
  have lists: "is_list (k_mem s4) (uthread_list p) [u]" "is_list (k_mem s4) (umutex_list p) []"
    by (rule list_kept [OF k4]; use m(2,3) cells in \<open>auto simp: link_cells_def\<close>)+
  show ?thesis
  proof (cases "rc = EOK")
    case True
    then have C: "created F owned hs2 a ?s3 stub pstub p TF_NEW_VMM t hs4 s4" using q by simp
    note C' = C [unfolded created_def]
    let ?s5 = "upd_uthread u (\<lambda>x. x\<lparr>u_thread := t\<rparr>) s4"
    have same: "prc s4 = prc ?s3" "uth s4 = uth ?s3" using more_prc [of s4 ?s3] C' by auto
    have "process_created F owned hs a s pstub img sz p hs4 ?s5"
      using C' B lists ok(4,5) same k5 unfolding process_created_def upd_uthread_def Let_def
      by (auto simp: sizeof_process_def sizeof_uthread_def new_map_def)
    then show ?thesis using True ok(1,2) m(1) c B by (auto simp: process_create_def)
  next
    case False
    then have N: "not_created F owned hs2 a ?s3 hs4 s4" "rc = ENOMEM" using q by auto
    let ?s5 = "upd_uthread u (\<lambda>x. x\<lparr>u_thread := t\<rparr>) s4"
    have B5: "blocks_new F owned hs a s p k u j hs4 ?s5"
    proof -
      have "held owned s4 hs4 x \<and> \<not> held owned s hs x" if "x \<in> area (unat p, k) \<union> area (unat u, j)" for x
        using k4 B3 that unfolding keeps_def blocks_new_def by blast
      then show ?thesis using B3 N(1) k5 by (auto simp: blocks_new_def not_created_def upd_uthread_def)
    qed
    obtain m' where m': "list_remove (k_mem ?s5) u = Some m'" "\<forall>c. c \<notin> link_cells {uthread_list p, u} \<longrightarrow> m' c = k_mem ?s5 c"
      using list_remove_correct [of "k_mem ?s5" "uthread_list p" "[]" u "[]"] lists(1) by (auto simp: upd_uthread_def)
    have "blocks_new F owned hs a s p k u j hs4 (?s5\<lparr>k_mem := m'\<rparr>)"
    proof (rule blocks_write [OF K B5])
      fix c assume "m' c \<noteq> k_mem ?s5 c"
      then have "c \<in> link_cells {uthread_list p, umutex_list p, u}" using m'(2) by (auto simp: link_cells_def)
      then show "unat c \<in> area (unat p, 44) \<union> area (unat u, 28)" using cells by blast
    qed
    from blocks_free [OF K this] obtain s6 s7 hs' where "kfree F u (?s5\<lparr>k_mem := m'\<rparr>) = Some s6" "kfree F p s6 = Some s7"
      "kernel_ok F owned hs' a s7" "keeps owned a s hs s7 hs'" "allocated hs' = allocated hs" by blast
    then show ?thesis using False N(2) ok(1,2) m(1) c m'(1) B by (auto simp: process_create_def)
  qed
qed

text \<open>C15: In a kernel whose heaps and scheduler are well formed, \<^verbatim>\<open>process_create\<close> always returns. On success the process and its
  main user thread are new blocks of the heap, the process records its image and size, the main thread is the only item of its list of user
  threads and it has no mutexes; the kernel thread of the main thread is the last of the run queue, starts in \<^verbatim>\<open>process_stub\<close>
  with the process as its argument and has an address space of its own. On failure the code is \<^verbatim>\<open>ENOMEM\<close>, all memory has been
  given back, the scheduler is as before and \<^verbatim>\<open>pprocess\<close> is untouched.\<close>

theorem process_create_correct:
  fixes s :: "('fs, 'z) pkernel_scheme"
  assumes K: "kernel_ok F owned hs a s"
  shows "\<exists>rc p s' hs'. process_create F stub pstub pprocess img sz s = Some (rc, p, s') \<and>
     (if rc = EOK then process_created F owned hs a s pstub img sz p hs' s'
      else rc = ENOMEM \<and> p = pprocess \<and> kernel_ok F owned hs' a s' \<and> keeps owned a s hs s' hs' \<and> allocated hs' = allocated hs)"
  by (rule process_outcome [OF K])

definition boot_pkernel :: "nat set pkernel" where
  "boot_pkernel = kernel.extend boot_kernel
     \<lparr>prc = (\<lambda>_. \<lparr>p_ustack_top = 0, p_main_uthread = 0, p_image = 0, p_size = 0, p_retval = 0\<rparr>),
      uth = (\<lambda>_. \<lparr>u_thread = 0, u_process = 0, u_entry = 0, u_data = 0, u_user_data = 0\<rparr>), k_bytes = (\<lambda>_. 0)\<rparr>"

lemma boot_pkernel_ok: "kernel_ok one_region (\<lambda>fs. fs) [] small_sched boot_pkernel"
  by (rule kernel_ok_cong [OF boot_kernel_ok]) (simp_all add: boot_pkernel_def kernel.defs)

theorem process_create_correct_witness:
  "\<exists>rc p s' hs'. process_create one_region 0x80000400 0x80000600 0 0x80090000 8192 boot_pkernel = Some (rc, p, s') \<and>
     (if rc = EOK then process_created one_region (\<lambda>fs. fs) [] small_sched boot_pkernel 0x80000600 0x80090000 8192 p hs' s'
      else rc = ENOMEM \<and> p = 0 \<and> kernel_ok one_region (\<lambda>fs. fs) hs' small_sched s' \<and>
        keeps (\<lambda>fs. fs) small_sched boot_pkernel [] s' hs' \<and> allocated hs' = {})"
  using process_create_correct [OF boot_pkernel_ok, of "0x80000400" "0x80000600" 0 "0x80090000" 8192]
  by (simp add: allocated_def cong: if_cong)

end
