(* ===== verification/Example.thy ===== *)
theory Example
  imports Boot Process Thread_Join Vm_Properties
begin

text \<open>
  The example threads (\<^verbatim>\<open>kernel/example.c\<close>): what \<^verbatim>\<open>activity\<close> prints, and that it comes to an end although the bound of its inner loop is drawn anew at every test. The
  main thread \<^verbatim>\<open>example\<close> puts thread creation, the scheduler, the console and the processes together.
\<close>

section \<open>The example thread\<close>

text \<open>The kernel with the static variables of \<^verbatim>\<open>example.c\<close>.\<close>

record 'fs xmachine = "'fs pkernel" +
  seed :: u32
  thread_one :: u32
  thread_two :: u32
  x_process :: u32

text \<open>The inner loop of \<^verbatim>\<open>activity\<close> draws a new random number at every test; it ends because its bound is never above 19.\<close>

lemma activity_bound: "unat (10 + (r :: u32) mod 10) = 10 + unat r mod 10"
  by (simp add: unat_add_bounded unat_mod)

lemma activity_index:
  assumes "(i :: u32) < 10 + r mod 10"
  shows "unat i < 19" and "unat (i + 1) = Suc (unat i)"
proof -
  have "unat i < 10 + unat r mod 10" using assms by (simp only: word_less_nat_alt activity_bound)
  then show i: "unat i < 19" using mod_less_divisor [of 10 "unat r"] by linarith
  have "unat (i + 1) = unat i + unat (1 :: u32)" using i by (intro unat_add_bounded) simp
  then show "unat (i + 1) = Suc (unat i)" by simp
qed

function activity_chars :: "char \<Rightarrow> u32 \<Rightarrow> u32 \<Rightarrow> string \<Rightarrow> (u32 \<times> string)" where
  "activity_chars act i sd out =
     (let (r, sd1) = random_next sd in
      if i < 10 + r mod 10 then activity_chars act (i + 1) sd1 (snd (putc act out)) else (sd1, out))"
  by pat_completeness auto

termination
proof (relation "measure (\<lambda>(act, i, sd, out). 20 - unat i)", goal_cases)
  case (2 act i sd out x r sd1)
  then show ?case using activity_index [of i r] by simp
qed simp

declare activity_chars.simps [simp del]

text \<open>\<^verbatim>\<open>activity\<close>: a hundred times the signature, with interrupts disabled, and a run of characters.\<close>

definition activity_round :: "string \<Rightarrow> char \<Rightarrow> ('fs, 'z) xmachine_scheme \<Rightarrow> ('fs, 'z) xmachine_scheme option" where
  "activity_round signature act s = do {
     let (state, s1) = irq_off s;
     s2 \<leftarrow> kputs signature s1;
     let s3 = irq_restore state s2;
     let (sd, out) = activity_chars act 0 (seed s3) (console s3);
     Some (s3\<lparr>seed := sd, console := out\<rparr>)
   }"

primrec activity_loop :: "nat \<Rightarrow> string \<Rightarrow> char \<Rightarrow> ('fs, 'z) xmachine_scheme \<Rightarrow> ('fs, 'z) xmachine_scheme option" where
  "activity_loop 0 signature act s = Some s"
| "activity_loop (Suc n) signature act s = do { s1 \<leftarrow> activity_round signature act s; activity_loop n signature act s1 }"

definition activity :: "string \<Rightarrow> char \<Rightarrow> ('fs, 'z) xmachine_scheme \<Rightarrow> ('fs, 'z) xmachine_scheme option" where
  "activity signature act s = activity_loop 100 signature act s"

definition thread_one_function :: "u32 \<Rightarrow> ('fs, 'z) xmachine_scheme \<Rightarrow> (u32 \<times> ('fs, 'z) xmachine_scheme) option" where
  "thread_one_function data s = do { s1 \<leftarrow> activity '' [Thread 1] '' (CHR ''+'') s; Some (NULL, s1) }"

definition thread_two_function :: "u32 \<Rightarrow> ('fs, 'z) xmachine_scheme \<Rightarrow> (u32 \<times> ('fs, 'z) xmachine_scheme) option" where
  "thread_two_function data s = do { s1 \<leftarrow> activity '' [Thread 2] '' (CHR ''*'') s; Some (NULL, s1) }"

section \<open>The main thread\<close>

text \<open>\<^verbatim>\<open>example\<close>, cut where a join switches to another thread: the parts up to the first join, from there to the second join, from there to the join of the process, and the end. A part
  ends with the simulator halted or in a join; the next one starts with the rest of that join. \<open>fn1\<close>, \<open>fn2\<close>, \<open>stub\<close> and \<open>pstub\<close> are the addresses of the functions of the threads,
  \<^verbatim>\<open>thread_stub\<close> and \<^verbatim>\<open>process_stub\<close>.\<close>

definition PROCESS_BASE :: u32 where "PROCESS_BASE = 0x1FB00000"
definition PROCESS_SIZE :: u32 where "PROCESS_SIZE = 128 * 1024"

datatype 's example_step = Stops 's | Joins join_step 's

definition panic_args :: "char list \<Rightarrow> string \<Rightarrow> va_arg list \<Rightarrow> ('fs, 'z) kernel_scheme \<Rightarrow> ('fs, 'z) kernel_scheme example_step option" where
  "panic_args buf msg args s = do { out \<leftarrow> panic_output buf msg args (console s); Some (Stops (s\<lparr>console := out\<rparr>)) }"

definition after_join :: "'fs falloc \<Rightarrow> u32 \<Rightarrow> join_step \<Rightarrow> ('fs, 'z) kernel_scheme \<Rightarrow> ('fs, 'z) kernel_scheme option" where
  "after_join F thread j s =
     (case j of Join_Invalid \<Rightarrow> Some s
      | Join_Waits status \<Rightarrow> map_option snd (thread_join_end F thread status s)
      | Join_Proceeds status \<Rightarrow> map_option snd (thread_join_end F thread status s))"

definition example_begin ::
  "'fs falloc \<Rightarrow> char list \<Rightarrow> u32 \<Rightarrow> u32 \<Rightarrow> u32 \<Rightarrow> ('fs, 'z) xmachine_scheme \<Rightarrow> ('fs, 'z) xmachine_scheme example_step option" where
  "example_begin F buf stub fn1 fn2 s = do {
     (rc, t1, s1) \<leftarrow> thread_create F stub (thread_one s) fn1 NULL 0 s;
     let s2 = s1\<lparr>thread_one := t1\<rparr>;
     if rc \<noteq> EOK then panic_args buf ''Error creating the first activity thread (%d).'' [VInt rc] s2
     else do {
       (rc, t2, s3) \<leftarrow> thread_create F stub (thread_two s2) fn2 NULL 0 s2;
       let s4 = s3\<lparr>thread_two := t2\<rparr>;
       if rc \<noteq> EOK then panic_args buf ''Error creating the second activity thread (%d).'' [VInt rc] s4
       else do {
         s5 \<leftarrow> activity '' [Thread 0] '' (CHR ''-'') s4;
         (j, s6) \<leftarrow> thread_join_begin (thread_one s5) s5;
         Some (Joins j s6)
       }
     }
   }"

definition example_second :: "'fs falloc \<Rightarrow> join_step \<Rightarrow> ('fs, 'z) xmachine_scheme \<Rightarrow> ('fs, 'z) xmachine_scheme example_step option" where
  "example_second F j s = do {
     s1 \<leftarrow> after_join F (thread_one s) j s;
     (j', s2) \<leftarrow> thread_join_begin (thread_two s1) s1;
     Some (Joins j' s2)
   }"

definition CREATING_text :: string where "CREATING_text = [CHR 0x0A] @ ''Creating user space process ...'' @ [CHR 0x0A]"

definition example_third ::
  "'fs falloc \<Rightarrow> char list \<Rightarrow> u32 \<Rightarrow> u32 \<Rightarrow> join_step \<Rightarrow> ('fs, 'z) xmachine_scheme \<Rightarrow> ('fs, 'z) xmachine_scheme example_step option" where
  "example_third F buf stub pstub j s = do {
     s1 \<leftarrow> after_join F (thread_two s) j s;
     (n, out) \<leftarrow> printk buf CREATING_text [] (console s1);
     let s2 = s1\<lparr>console := out\<rparr>;
     (rc, p, s3) \<leftarrow> process_create F stub pstub (x_process s2) (ADDR_IN_KSEG0 PROCESS_BASE) PROCESS_SIZE s2;
     let s4 = s3\<lparr>x_process := p\<rparr>;
     if rc \<noteq> EOK then panic_args buf ''Error creating user space process.'' [] s4
     else do {
       (j', s5) \<leftarrow> process_join (x_process s4) s4;
       Some (Joins j' s5)
     }
   }"

definition example_end :: "'fs falloc \<Rightarrow> join_step \<Rightarrow> ('fs, 'z) xmachine_scheme \<Rightarrow> ('fs, 'z) xmachine_scheme example_step option" where
  "example_end F j s = do {
     s1 \<leftarrow> after_join F (u_thread (uth s (p_main_uthread (prc s (x_process s))))) j s;
     Some (Stops s1)
   }"

section \<open>What the threads print\<close>

lemma activity_chars_prints:
  "\<exists>sd' k. activity_chars act i sd out = (sd', out @ replicate k act) \<and> unat i + k \<le> max (unat i) 19 \<and> 10 \<le> unat i + k"
proof (induction act i sd out rule: activity_chars.induct)
  case (1 act i sd out)
  obtain r sd1 where r: "random_next sd = (r, sd1)" by (cases "random_next sd")
  show ?case
  proof (cases "i < 10 + r mod 10")
    case True
    obtain sd' k where k: "activity_chars act (i + 1) sd1 (snd (putc act out)) = (sd', snd (putc act out) @ replicate k act)"
      "unat (i + 1) + k \<le> max (unat (i + 1)) 19" "10 \<le> unat (i + 1) + k"
      using 1 [OF r [symmetric] refl True] by blast
    have i: "unat i < 19" "unat (i + 1) = Suc (unat i)" using activity_index [OF True] by simp_all
    have "activity_chars act i sd out = (sd', out @ replicate (Suc k) act)"
      using k(1) True r by (simp add: activity_chars.simps [of act i] putc_def printer_putchar_def)
    then show ?thesis using k(2,3) i by (intro exI [of _ sd'] exI [of _ "Suc k"]) simp
  next
    case False
    then have "10 + unat r mod 10 \<le> unat i" by (simp only: not_less word_le_nat_alt activity_bound)
    then show ?thesis using False r by (intro exI [of _ sd1] exI [of _ 0]) (simp add: activity_chars.simps)
  qed
qed

lemma activity_round_prints:
  assumes "NUL \<notin> set signature"
  shows "\<exists>sd k. activity_round signature act s = Some (s\<lparr>seed := sd, console := console s @ signature @ replicate k act\<rparr>) \<and> 10 \<le> k \<and> k \<le> 19"
proof -
  obtain st c where i: "irq_off s = (st, s\<lparr>k_cpu := c\<rparr>)" "conditionally_enable_interrupts st c = k_cpu s" by (rule irq_offE)
  obtain sd k where k: "activity_chars act 0 (seed s) (console s @ signature) = (sd, (console s @ signature) @ replicate k act)" "k \<le> 19" "10 \<le> k"
    using activity_chars_prints [of act 0 "seed s" "console s @ signature"] by auto
  then show ?thesis using assms
    by (intro exI [of _ sd] exI [of _ k]) (simp add: activity_round_def i kputs_ok irq_restore_def)
qed

text \<open>A call of \<^verbatim>\<open>activity\<close> returns; it prints the signature a hundred times, each time with between 10 and 19 characters after it, and changes nothing but the console and
  the seed.\<close>

theorem activity_prints:
  assumes "NUL \<notin> set signature"
  shows "\<exists>sd ks. activity signature act s = Some (s\<lparr>seed := sd, console := console s @ concat (map (\<lambda>k. signature @ replicate k act) ks)\<rparr>) \<and>
     length ks = 100 \<and> (\<forall>k \<in> set ks. 10 \<le> k \<and> k \<le> 19)"
proof -
  have "\<exists>sd ks. activity_loop n signature act s = Some (s\<lparr>seed := sd, console := console s @ concat (map (\<lambda>k. signature @ replicate k act) ks)\<rparr>) \<and>
     length ks = n \<and> (\<forall>k \<in> set ks. 10 \<le> k \<and> k \<le> 19)" for n
  proof (induction n arbitrary: s)
    case 0
    show ?case by (rule exI [of _ "seed s"], rule exI [of _ "[]"]) simp
  next
    case (Suc n)
    obtain sd k where k: "activity_round signature act s = Some (s\<lparr>seed := sd, console := console s @ signature @ replicate k act\<rparr>)" "10 \<le> k" "k \<le> 19"
      using activity_round_prints [OF assms] by blast
    let ?s = "s\<lparr>seed := sd, console := console s @ signature @ replicate k act\<rparr>"
    obtain sd' ks where ks: "activity_loop n signature act ?s = Some (?s\<lparr>seed := sd', console := console ?s @ concat (map (\<lambda>k. signature @ replicate k act) ks)\<rparr>)"
      "length ks = n" "\<forall>k \<in> set ks. 10 \<le> k \<and> k \<le> 19" using Suc.IH [of ?s] by blast
    show ?case using k ks by (intro exI [of _ sd'] exI [of _ "k # ks"]) simp
  qed
  then show ?thesis unfolding activity_def .
qed

section \<open>The main thread starts the others\<close>

lemma panic_args_ok:
  assumes "length buf = 32" and "format_text msg args = Some t"
  shows "panic_args buf msg args s = Some (Stops (s\<lparr>console := console s @ t\<rparr>))"
  using vprintk_loop_correct [OF assms, of 0 "console s"] by (simp add: panic_args_def panic_output_def vprintk_def)

lemma kernel_ok_vars:
  fixes s :: "('fs, 'z) xmachine_scheme"
  shows "kernel_ok F owned hs a (s\<lparr>thread_one := t\<rparr>) = kernel_ok F owned hs a s" "kernel_ok F owned hs a (s\<lparr>thread_two := t\<rparr>) = kernel_ok F owned hs a s"
    "kernel_ok F owned hs a (s\<lparr>x_process := t\<rparr>) = kernel_ok F owned hs a s" "kernel_ok F owned hs a (s\<lparr>seed := d\<rparr>) = kernel_ok F owned hs a s"
    "kernel_ok F owned hs a (s\<lparr>console := out\<rparr>) = kernel_ok F owned hs a s"
  by (auto elim!: kernel_ok_cong)

lemma more_vars:
  fixes s s' :: "('fs, 'z) xmachine_scheme"
  assumes "kernel.more s = kernel.more s'"
  shows "seed s = seed s'" "thread_one s = thread_one s'" "thread_two s = thread_two s'" "x_process s = x_process s'"
  using assms by (cases s; cases s'; simp)+

lemma dec_text_ENOMEM: "dec_text ENOMEM = ''-12''"
  unfolding ENOMEM_def by code_simp

lemma panic_text: "format_text ''Error creating the first activity thread (%d).'' [VInt ENOMEM] = Some ''Error creating the first activity thread (-12).''"
    "format_text ''Error creating the second activity thread (%d).'' [VInt ENOMEM] = Some ''Error creating the second activity thread (-12).''"
  by (simp_all add: conv_text_def dec_text_ENOMEM)

lemma schedule_entry: "schedule s = Some (b, s') \<Longrightarrow> entry_func (thr s' t) = entry_func (thr s t)"
  by (rule irq_offE [of s]) (auto simp: schedule_def upd_thread_def irq_restore_def Let_def elim!: bind_eq_SomeE split: if_splits)

lemma suspend_console: "thread_suspend s = Some (b, s') \<Longrightarrow> console s' = console s"
  by (rule irq_offE [of s]) (auto simp: thread_suspend_def sched_remove_eq upd_thread_def irq_restore_def Let_def elim!: bind_eq_SomeE
    dest!: schedule_console split: if_splits)

lemma suspend_entry: "thread_suspend s = Some (b, s') \<Longrightarrow> entry_func (thr s' t) = entry_func (thr s t)"
  by (rule irq_offE [of s]) (auto simp: thread_suspend_def sched_remove_eq upd_thread_def irq_restore_def Let_def elim!: bind_eq_SomeE
    dest!: schedule_entry [where t = t] split: if_splits)

lemma join_keeps:
  assumes "thread_join_begin t s = Some (r, s')"
  shows "kernel.more s' = kernel.more s" and "console s' = console s" and "entry_func (thr s' t') = entry_func (thr s t')"
proof -
  show "kernel.more s' = kernel.more s" using join_cases [OF assms] by (auto simp: upd_thread_def dest!: suspend_more)
  show "console s' = console s" using join_cases [OF assms] by (auto simp: upd_thread_def dest!: suspend_console)
  show "entry_func (thr s' t') = entry_func (thr s t')" using join_cases [OF assms] by (auto simp: upd_thread_def dest!: suspend_entry [where t = t'])
qed

text \<open>The scheduler after the two threads have been created.\<close>

lemma create_step:
  fixes s :: "('fs, 'z) xmachine_scheme"
  assumes K: "kernel_ok F owned hs a s"
  obtains (fail) s' where "thread_create F stub p fn NULL 0 s = Some (ENOMEM, p, s')" "console s' = console s"
  | (ok) t s' hs' where "thread_create F stub p fn NULL 0 s = Some (EOK, t, s')" "created F owned hs a s stub fn NULL 0 t hs' s'" "console s' = console s"
proof -
  obtain rc t s' hs' where c: "thread_create F stub p fn NULL 0 s = Some (rc, t, s')"
    "if rc = EOK then created F owned hs a s stub fn NULL 0 t hs' s' else rc = ENOMEM \<and> t = p \<and> not_created F owned hs a s hs' s'"
    using create_outcome [OF K, of stub p fn NULL 0] by (auto split: if_splits)
  show thesis
  proof (cases "rc = EOK")
    case True
    then have C: "created F owned hs a s stub fn NULL 0 t hs' s'" using c(2) by simp
    then have "keeps owned a s hs s' hs'" by (simp add: created_def)
    then show thesis using c(1) True by (intro ok [OF _ C]) (simp_all add: keeps_def same_vars_def)
  next
    case False
    then show thesis using c by (intro fail [of s']) (auto simp: not_created_def keeps_def same_vars_def)
  qed
qed

definition example_started ::
  "sched_abs \<Rightarrow> u32 \<Rightarrow> u32 \<Rightarrow> ('fs, 'z) xmachine_scheme \<Rightarrow> ('fs, 'z) xmachine_scheme \<Rightarrow> bool" where
  "example_started a fn1 fn2 s s' \<longleftrightarrow> (let t1 = thread_one s'; t2 = thread_two s' in
     t1 \<notin> known a \<and> t2 \<notin> known a \<and> t1 \<noteq> t2 \<and> entry_func (thr s' t1) = fn1 \<and> entry_func (thr s' t2) = fn2 \<and>
     (\<exists>ks. length ks = 100 \<and> (\<forall>k \<in> set ks. 10 \<le> k \<and> k \<le> 19) \<and> console s' = console s @ concat (map (\<lambda>k. '' [Thread 0] '' @ replicate k (CHR ''-'')) ks)) \<and>
     sched_rel s' (tcall_spec (Join t1) (spec_create t2 (spec_create t1 a))))"

lemma join_runnable:
  assumes "sched_rel s a" and "t \<in> set (queue a)" and "t \<noteq> running a" and "waiting a t = NULL"
  shows "\<exists>j s'. thread_join_begin t s = Some (j, s') \<and> sched_rel s' (tcall_spec (Join t) a) \<and> j \<noteq> Join_Invalid"
proof -
  have "t \<in> set (queue (spec_leave a))" using assms(2,3) by (simp add: spec_leave_def in_set_remove1)
  then have "queue (spec_leave a) \<noteq> []" by auto
  with join_refines [OF assms(1), of t] assms show ?thesis by (auto simp: known_def)
qed

text \<open>C10: The main thread of the example, as long as no other thread runs in between: it panics when the memory does not suffice for the two threads, with the error code in the
  message; otherwise there are two new threads that start in the two functions, the thread has printed its hundred signatures, and it sleeps in the join of the first thread: the
  scheduler is as after the creation of the two threads and the call of \<^verbatim>\<open>thread_join\<close>, so the next thread of the run queue runs.\<close>

theorem example_starts_threads:
  fixes s :: "('fs, 'z) xmachine_scheme"
  assumes K: "kernel_ok F owned hs a s" and r: "running a \<noteq> NULL" and b: "length buf = 32"
  shows "\<exists>e. example_begin F buf stub fn1 fn2 s = Some e \<and>
     (case e of Stops s' \<Rightarrow> \<exists>n \<in> {''first'', ''second''}. console s' = console s @ ''Error creating the '' @ n @ '' activity thread (-12).''
      | Joins j s' \<Rightarrow> j \<noteq> Join_Invalid \<and> example_started a fn1 fn2 s s')"
proof (cases rule: create_step [OF K, of stub "thread_one s" fn1, case_names fail ok])
  case (fail s1)
  then show ?thesis using panic_args_ok [OF b panic_text(1), of "s1\<lparr>thread_one := thread_one s\<rparr>"] by (simp add: example_begin_def)
next
  case (ok t1 s1 hs1)
  define s2 where "s2 = s1\<lparr>thread_one := t1\<rparr>"
  have K1: "kernel_ok F owned hs1 (spec_create t1 a) s2" and t1: "t1 \<notin> known a" "entry_func (thr s2 t1) = fn1"
    using ok(2) by (auto simp: created_def kernel_ok_vars s2_def)
  have B: "example_begin F buf stub fn1 fn2 s = do {
       (rc, t2, s3) \<leftarrow> thread_create F stub (thread_two s2) fn2 NULL 0 s2;
       let s4 = s3\<lparr>thread_two := t2\<rparr>;
       if rc \<noteq> EOK then panic_args buf ''Error creating the second activity thread (%d).'' [VInt rc] s4
       else do {
         s5 \<leftarrow> activity '' [Thread 0] '' (CHR ''-'') s4;
         (j, s6) \<leftarrow> thread_join_begin (thread_one s5) s5;
         Some (Joins j s6)
       }
     }" using ok(1) by (simp add: example_begin_def s2_def)
  show ?thesis
  proof (cases rule: create_step [OF K1, of stub "thread_two s2" fn2, case_names fail ok])
    case (fail s3)
    then show ?thesis using panic_args_ok [OF b panic_text(2), of "s3\<lparr>thread_two := thread_two s2\<rparr>"] ok(3) by (simp add: B s2_def)
  next
    case (ok t2 s3 hs2)
    define s4 where "s4 = s3\<lparr>thread_two := t2\<rparr>"
    have K2: "kernel_ok F owned hs2 (spec_create t2 (spec_create t1 a)) s4" and t2: "t2 \<notin> known (spec_create t1 a)" "entry_func (thr s4 t2) = fn2"
      and k: "kernel.more s3 = kernel.more s2" "thr s4 t1 = thr s2 t1" using ok(2) by (auto simp: created_def kernel_ok_vars s4_def known_def spec_create_def)
    obtain sd ks where p: "activity '' [Thread 0] '' (CHR ''-'') s4 = Some (s4\<lparr>seed := sd, console := console s4 @ concat (map (\<lambda>k. '' [Thread 0] '' @ replicate k (CHR ''-'')) ks)\<rparr>)"
      "length ks = 100" "\<forall>k \<in> set ks. 10 \<le> k \<and> k \<le> 19" using activity_prints [of "'' [Thread 0] ''" "CHR ''-''" s4] by auto
    define s5 where "s5 = s4\<lparr>seed := sd, console := console s4 @ concat (map (\<lambda>k. '' [Thread 0] '' @ replicate k (CHR ''-'')) ks)\<rparr>"
    have v: "thread_one s5 = t1" "thread_two s5 = t2" "thr s5 = thr s4" using more_vars [OF k(1)] by (simp_all add: s5_def s4_def s2_def)
    have "kernel_ok F owned hs2 (spec_create t2 (spec_create t1 a)) s5" using K2 by (simp add: s5_def kernel_ok_vars)
    then have R: "sched_rel s5 (spec_create t2 (spec_create t1 a))" using r by (simp add: sched_rel_wf kernel_ok_def spec_create_def)
    have "running a \<in> known a" using K r by (auto simp: kernel_ok_def sched_wf_def known_def)
    then have "t1 \<noteq> running a" "t1 \<noteq> t2" using t1(1) t2(1) by (auto simp: known_def spec_create_def)
    then obtain j s6 where j: "thread_join_begin t1 s5 = Some (j, s6)" "j \<noteq> Join_Invalid"
      "sched_rel s6 (tcall_spec (Join t1) (spec_create t2 (spec_create t1 a)))"
      using join_runnable [OF R, of t1] by (auto simp: spec_create_def)
    note J = join_keeps [OF j(1)]
    have "thread_one s6 = t1" "thread_two s6 = t2" using more_vars [OF J(1)] v by simp_all
    moreover have "console s6 = console s @ concat (map (\<lambda>k. '' [Thread 0] '' @ replicate k (CHR ''-'')) ks)"
      using J(2) ok(3) \<open>console s1 = console s\<close> by (simp add: s5_def s4_def s2_def)
    moreover have "t2 \<notin> known a" "t1 \<noteq> t2" using t2(1) by (auto simp: known_def spec_create_def)
    ultimately have "example_started a fn1 fn2 s s6" unfolding example_started_def Let_def using J(3) v(3) k(2) t1 t2(2) j(3) p(2,3) by auto
    moreover have "example_begin F buf stub fn1 fn2 s = Some (Joins j s6)" using ok(1) p(1) j(1) v(1) unfolding s5_def by (simp add: B s4_def [symmetric])
    ultimately show ?thesis using j(2) by simp
  qed
qed

text \<open>After the second join the thread creates the process from the image that the loader has put at its address, and sleeps in the join of the process.\<close>

definition example_process ::
  "sched_abs \<Rightarrow> u32 \<Rightarrow> ('fs, 'z) xmachine_scheme \<Rightarrow> bool" where
  "example_process a pstub s' \<longleftrightarrow> (let p = x_process s'; t = u_thread (uth s' (p_main_uthread (prc s' p))) in
     p_image (prc s' p) = 0x9FB00000 \<and> p_size (prc s' p) = 0x20000 \<and> t \<notin> known a \<and> entry_func (thr s' t) = pstub \<and>
     sched_rel s' (tcall_spec (Join t) (spec_create t a)))"

lemma process_join_eq: "process_join p s = thread_join_begin (u_thread (uth s (p_main_uthread (prc s p)))) s"
  by (rule irq_offE [of s]) (simp add: process_join_def irq_restore_def)

theorem example_creates_process:
  fixes s :: "('fs, 'z) xmachine_scheme"
  assumes j: "after_join F (thread_two s) j s = Some s1" and K: "kernel_ok F owned hs a s1" and r: "running a \<noteq> NULL" and b: "length buf = 32"
  shows "\<exists>e. example_third F buf stub pstub j s = Some e \<and>
     (case e of Stops s' \<Rightarrow> console s' = console s1 @ CREATING_text @ ''Error creating user space process.''
      | Joins j' s' \<Rightarrow> j' \<noteq> Join_Invalid \<and> console s' = console s1 @ CREATING_text \<and> example_process a pstub s')"
proof -
  have "format_text CREATING_text [] = Some CREATING_text" by (simp add: CREATING_text_def)
  then have p: "printk buf CREATING_text [] (console s1) = Some (length CREATING_text, console s1 @ CREATING_text)"
    using vprintk_loop_correct [OF b, of CREATING_text "[]" CREATING_text 0 "console s1"] by (simp add: printk_def vprintk_def)
  define s2 where "s2 = s1\<lparr>console := console s1 @ CREATING_text\<rparr>"
  have "kernel_ok F owned hs a s2" using K by (simp add: s2_def kernel_ok_vars)
  from process_outcome [OF this, of stub pstub "x_process s2" "ADDR_IN_KSEG0 PROCESS_BASE" PROCESS_SIZE]
  obtain rc q s3 hs' where c: "process_create F stub pstub (x_process s2) (ADDR_IN_KSEG0 PROCESS_BASE) PROCESS_SIZE s2 = Some (rc, q, s3)"
    "if rc = EOK then process_created F owned hs a s2 pstub (ADDR_IN_KSEG0 PROCESS_BASE) PROCESS_SIZE q hs' s3 else keeps owned a s2 hs s3 hs'"
    by (auto split: if_splits)
  define s4 where "s4 = s3\<lparr>x_process := q\<rparr>"
  have x: "x_process s1 = x_process s2" by (simp add: s2_def)
  have run: "example_third F buf stub pstub j s =
      (if rc \<noteq> EOK then panic_args buf ''Error creating user space process.'' [] s4
       else do { (j', s5) \<leftarrow> process_join q s4; Some (Joins j' s5) })"
    using c(1) by (simp add: example_third_def j p s2_def [symmetric] s4_def x)
  have "keeps owned a s2 hs s3 hs'" using c(2) by (auto simp: process_created_def Let_def split: if_splits)
  then have con: "console s4 = console s1 @ CREATING_text" by (simp add: keeps_def same_vars_def s4_def s2_def)
  show ?thesis
  proof (cases "rc = EOK")
    case False
    then show ?thesis using panic_args_ok [OF b, of "''Error creating user space process.''" "[]" "''Error creating user space process.''" s4] con by (simp add: run)
  next
    case True
    define t where "t = u_thread (uth s4 (p_main_uthread (prc s4 q)))"
    have P: "process_created F owned hs a s2 pstub (ADDR_IN_KSEG0 PROCESS_BASE) PROCESS_SIZE q hs' s3" using c(2) True by simp
    then have t: "kernel_ok F owned hs' (spec_create t a) s4" "t \<notin> known a" "entry_func (thr s4 t) = pstub" "p_image (prc s4 q) = 0x9FB00000" "p_size (prc s4 q) = 0x20000"
      by (simp_all add: process_created_def Let_def s4_def t_def kernel_ok_vars PROCESS_BASE_def PROCESS_SIZE_def segment_defs)
    then have R: "sched_rel s4 (spec_create t a)" using r by (simp add: sched_rel_wf kernel_ok_def spec_create_def)
    have "running a \<in> known a" using K r by (auto simp: kernel_ok_def sched_wf_def known_def)
    then have "t \<noteq> running a" using t(2) by auto
    then obtain j' s5 where J: "thread_join_begin t s4 = Some (j', s5)" "sched_rel s5 (tcall_spec (Join t) (spec_create t a))" "j' \<noteq> Join_Invalid"
      using join_runnable [OF R, of t] by (auto simp: spec_create_def)
    have m: "x_process s5 = q" "prc s5 = prc s4" "uth s5 = uth s4" using more_vars(4) [OF join_keeps(1) [OF J(1)]] more_prc [OF join_keeps(1) [OF J(1)]] by (simp_all add: s4_def)
    have "example_process a pstub s5" unfolding example_process_def Let_def m t_def [symmetric] using t(2-5) J(2) join_keeps(3) [OF J(1), of t] by simp
    moreover have "example_third F buf stub pstub j s = Some (Joins j' s5)" using True J(1) by (simp add: run process_join_eq t_def)
    ultimately show ?thesis using join_keeps(2) [OF J(1)] con J(3) by simp
  qed
qed

definition example_machine :: "nat set xmachine" where
  "example_machine = pkernel.extend (pkernel.truncate boot_pkernel) \<lparr>seed = 0, thread_one = 0, thread_two = 0, x_process = 0\<rparr>"

lemma example_machine_ok: "kernel_ok one_region (\<lambda>fs. fs) [] small_sched example_machine"
  by (rule kernel_ok_cong [OF boot_pkernel_ok]) (simp_all add: example_machine_def pkernel.defs)

theorem example_starts_threads_witness:
  "\<exists>e. example_begin one_region (replicate 32 NUL) 0x80000400 0x80000500 0x80000600 example_machine = Some e \<and>
     (case e of Stops s' \<Rightarrow> \<exists>n \<in> {''first'', ''second''}. console s' = ''Error creating the '' @ n @ '' activity thread (-12).''
      | Joins j s' \<Rightarrow> j \<noteq> Join_Invalid \<and> example_started small_sched 0x80000500 0x80000600 example_machine s')"
proof -
  have "console example_machine = []" by (simp add: example_machine_def pkernel.defs boot_pkernel_def kernel.defs boot_kernel_def small_kernel_def)
  then show ?thesis
    using example_starts_threads [OF example_machine_ok, of "replicate 32 NUL" "0x80000400" "0x80000500" "0x80000600"] by (simp add: small_sched_def cong: example_step.case_cong)
qed

end
