(* ===== verification/User_Mode.thy ===== *)
theory User_Mode
  imports Process
begin

text \<open>
  The start of a process (\<^verbatim>\<open>process_stub\<close> of \<^verbatim>\<open>kernel/proc/process.c\<close> and \<^verbatim>\<open>cpu_uspace_jump\<close> of \<^verbatim>\<open>kernel/head.S\<close>): mapping the code and the
  stack, copying the image and entering user mode.
\<close>

unbundle bit_operations_syntax

section \<open>Entering user mode\<close>

text \<open>\<^verbatim>\<open>cpu_uspace_jump\<close> of \<^verbatim>\<open>head.S\<close>: the stack pointer and the arguments are set, then \<^verbatim>\<open>ERET\<close> leaves the exception level and
  continues at EPC, the first component of the result.\<close>

definition cpu_uspace_jump :: "u32 \<Rightarrow> u32 \<Rightarrow> u32 \<Rightarrow> ('fs, 'z) kernel_scheme \<Rightarrow> u32 \<times> ('fs, 'z) kernel_scheme" where
  "cpu_uspace_jump user_stack data user_data s =
     (read_cp0_epc (k_cpu s),
      s\<lparr>k_regs := (k_regs s)\<lparr>c_sp := user_stack, c_a0 := data, c_a1 := user_data\<rparr>,
        k_cpu := (k_cpu s)\<lparr>r_status := r_status (k_cpu s) AND NOT (CP0_STATUS_MASK STATUS_EXL)\<rparr>\<rparr>)"

text \<open>The stub of a process returns on failure, or continues in user mode at an address.\<close>

datatype stub_result = Stub_Returns u32 | Enters_User u32

definition user_status :: "u32 \<Rightarrow> u32" where
  "user_status status =
     ((status OR CP0_STATUS_MASK STATUS_EXL) AND NOT (CP0_STATUS_MASK STATUS_KSU)) OR CP0_STATUS_KSU_UM OR CP0_STATUS_IE_MASK"

definition process_stub :: "'fs falloc \<Rightarrow> u32 \<Rightarrow> ('fs, 'z) pkernel_scheme \<Rightarrow> (stub_result \<times> ('fs, 'z) pkernel_scheme) option" where
  "process_stub F process s = do {
     let base = ALIGN_DOWN USER_CODE_START PAGE_SIZE;
     let sz = ALIGN_UP (p_size (prc s process)) PAGE_SIZE;
     (rc, base, s1) \<leftarrow> vma_map F base sz (VF_AT_KUSEG OR VF_VA_USER) s;
     if rc \<noteq> EOK then Some (Stub_Returns NULL, s1)
     else do {
       let s2 = s1\<lparr>k_bytes := snd (memcpy (k_bytes s1) base (p_image (prc s1 process)) (p_size (prc s1 process)))\<rparr>;
       let (state, s3) = irq_off s2;
       let s4 = upd_process process (\<lambda>p. p\<lparr>p_ustack_top := ALIGN_DOWN USER_STACK_START PAGE_SIZE\<rparr>) s3;
       let base = p_ustack_top (prc s4 process);
       let s5 = irq_restore state s4;
       let sz = ALIGN_UP USER_STACK_SIZE PAGE_SIZE;
       (rc, base, s6) \<leftarrow> vma_map F base sz (VF_AT_KUSEG OR VF_VA_USER) s5;
       if rc \<noteq> EOK then Some (Stub_Returns NULL, s6)
       else do {
         let s7 = thread_set_process process (p_main_uthread (prc s6 process)) s6;
         let status = user_status (read_cp0_status (k_cpu s7));
         let s8 = s7\<lparr>k_cpu := write_cp0_status status (k_cpu s7)\<rparr>;
         let s9 = s8\<lparr>k_cpu := write_cp0_epc USER_CODE_START (k_cpu s8)\<rparr>;
         let (pc, s10) = cpu_uspace_jump (base + USER_STACK_SIZE) NULL NULL s9;
         Some (Enters_User pc, s10)
       }
     }
   }"

section \<open>Mapping the pages of a process\<close>

lemma user_map:
  assumes "ALIGN_DOWN fr PAGE_SIZE = fr" and "ALIGN_DOWN sz PAGE_SIZE = sz"
    and r: "r = frame_alloc F (k_fs s) (drop_bit 12 sz) (VF_VA_AUTO OR VF_AT_KSEG0)"
    and j: "vma_scan (\<lambda>v. \<not> vma_valid v) 0 (vmas (vmms s (cur_vmm s))) = Some j"
  shows "vma_map F fr sz (VF_AT_KUSEG OR VF_VA_USER) s =
     (if fst r \<noteq> EOK then Some (fst r, fr, s\<lparr>k_fs := snd (snd r)\<rparr>)
      else Some (EOK, fr, upd_vmm (cur_vmm s) (\<lambda>m. m\<lparr>vmas := (vmas m)[j := new_area fr sz (fst (snd r))]\<rparr>) (s\<lparr>k_fs := snd (snd r)\<rparr>)))"
proof -
  obtain st c where i: "irq_off s = (st, s\<lparr>k_cpu := c\<rparr>)" "conditionally_enable_interrupts st c = k_cpu s" by (rule irq_offE)
  show ?thesis unfolding vma_map_eq [OF i r refl refl] using assms(1,2) j
    by (simp add: new_area_def VF_AT_KUSEG_def VF_VA_USER_def VF_VA_AUTO_def VF_AT_KSEG0_def VF_AT_KSEG1_def)
qed

text \<open>The map of a process: the code, the stack and 98 unused areas.\<close>

lemma process_areas:
  assumes "A = new_area fr sz ph" and "vmas zero_vmm = vs"
  shows "vma_scan (\<lambda>v. \<not> vma_valid v) 0 vs = Some 0" and "vma_scan (\<lambda>v. \<not> vma_valid v) 0 (vs[0 := A]) = Some 1"
    and "vma_maps p A \<or> vma_maps p B \<Longrightarrow> mapped_frame \<lparr>asid = i, vmas = vs[0 := A, 1 := B]\<rparr> p \<noteq> None"
proof -
  have vs: "vs = \<lparr>vpn_base = 0, pfn_base = 0, vma_count = 0, vma_valid = False\<rparr> # \<lparr>vpn_base = 0, pfn_base = 0, vma_count = 0, vma_valid = False\<rparr> #
      replicate 98 \<lparr>vpn_base = 0, pfn_base = 0, vma_count = 0, vma_valid = False\<rparr>"
    using assms(2) by (simp add: zero_vmm_def VMAS_def numeral_eq_Suc)
  show "vma_scan (\<lambda>v. \<not> vma_valid v) 0 vs = Some 0" "vma_scan (\<lambda>v. \<not> vma_valid v) 0 (vs[0 := A]) = Some 1"
    using assms(1) by (simp_all add: vs new_area_def)
  show "vma_maps p A \<or> vma_maps p B \<Longrightarrow> mapped_frame \<lparr>asid = i, vmas = vs[0 := A, 1 := B]\<rparr> p \<noteq> None"
    by (auto simp: mapped_frame_def vs)
qed

text \<open>The pages of an area that starts at a page boundary.\<close>

lemma area_covers:
  assumes "4096 dvd unat fr" and "unat fr + n \<le> 0x80000000" and "unat sz = (n + 4095) div 4096 * 4096" and "i < n"
  shows "vma_maps (drop_bit 12 (fr + W i)) (new_area fr sz ph)"
proof -
  obtain k where k: "unat fr = 4096 * k" using assms(1) by blast
  have i: "unat (fr + W i) = 4096 * k + i" using assms(2,4) k by (simp add: unat_word_ariths unat_W)
  have dr: "unat (drop_bit 12 x) = unat x div 4096" for x :: u32 by (simp only: unat_drop_bit_eq) (simp add: drop_bit_eq_div)
  have d: "unat (drop_bit 12 (fr + W i)) = k + i div 4096" "unat (drop_bit 12 fr) = k" "unat (drop_bit 12 sz) = (n + 4095) div 4096"
    unfolding dr using i k assms(3) by simp_all
  have "i div 4096 < (n + 4095) div 4096" using assms(4) by linarith
  moreover have "(n + 4095) div 4096 \<le> n + 4095" by simp
  then have "k + (n + 4095) div 4096 < 2 ^ 32" using assms(2) k by simp
  ultimately show ?thesis using d
    by (simp add: vma_maps_def new_area_def word_le_nat_alt word_less_nat_alt unat_word_ariths)
qed

lemma user_constants:
  "ALIGN_DOWN USER_CODE_START PAGE_SIZE = 0x1000" "ALIGN_DOWN USER_STACK_START PAGE_SIZE = 0x7FFFE000" "ALIGN_UP USER_STACK_SIZE PAGE_SIZE = 0x1000"
  "ALIGN_DOWN 0x1000 PAGE_SIZE = 0x1000" "ALIGN_DOWN 0x7FFFE000 PAGE_SIZE = 0x7FFFE000"
  by (simp_all add: ALIGN_DOWN_def ALIGN_UP_def USER_CODE_START_def USER_STACK_START_def USER_STACK_SIZE_def THREAD_STACK_SIZE_def PAGE_SIZE_def
      FRAME_SIZE_def FRAME_WIDTH_def)

lemma page_round:
  assumes "unat n \<le> 0x7FFFD000"
  shows "unat (ALIGN_UP n PAGE_SIZE) = (unat n + 4095) div 4096 * 4096" and "ALIGN_DOWN (ALIGN_UP n PAGE_SIZE) PAGE_SIZE = ALIGN_UP n PAGE_SIZE"
proof -
  have p: "PAGE_SIZE = 2 ^ 12" by (simp add: PAGE_SIZE_def FRAME_SIZE_def FRAME_WIDTH_def)
  show u: "unat (ALIGN_UP n PAGE_SIZE) = (unat n + 4095) div 4096 * 4096"
  proof -
    have "(2 ^ 12 - 1 :: nat) = 4095" "(2 ^ 12 :: nat) = 4096" by simp_all
    then have e: "ALIGN_UP n PAGE_SIZE = W ((unat n + 4095) div 4096 * 4096)"
      using ALIGN_UP_W [of "unat n" 12] assms unfolding p by (simp only: W_unat) simp
    have "(unat n + 4095) div 4096 * 4096 < 2 ^ 32"
      by (rule le_less_trans [OF div_times_less_eq_dividend]) (use assms in simp)
    then show ?thesis unfolding e by (rule unat_W)
  qed
  show "ALIGN_DOWN (ALIGN_UP n PAGE_SIZE) PAGE_SIZE = ALIGN_UP n PAGE_SIZE"
    unfolding p ALIGN_DOWN_eq_iff using u unfolding p by simp
qed

text \<open>What holds of the processor and the map when the process starts.\<close>

definition user_started :: "u32 \<Rightarrow> ('fs, 'z) pkernel_scheme \<Rightarrow> u32 \<Rightarrow> ('fs, 'z) pkernel_scheme \<Rightarrow> bool" where
  "user_started process s pc s' \<longleftrightarrow> pc = USER_CODE_START \<and> c_sp (k_regs s') = 0x7FFFF000 \<and>
     field_get (CP0_STATUS STATUS_KSU) (r_status (k_cpu s')) = 2 \<and>
     r_status (k_cpu s') AND CP0_STATUS_MASK STATUS_EXL = 0 \<and> interrupts_on (k_cpu s') \<and>
     (\<forall>i < unat (p_size (prc s process)). k_bytes s' (USER_CODE_START + W i) = k_bytes s (p_image (prc s process) + W i) \<and>
        (\<forall>ph. fst (vmm_mapping_find (USER_CODE_START + W i) ph s') = EOK)) \<and>
     (\<forall>i < unat USER_STACK_SIZE. \<forall>ph. fst (vmm_mapping_find (USER_STACK_START + W i) ph s') = EOK) \<and>
     t_process (thr s' (cur s')) = process \<and> t_uthread (thr s' (cur s')) = p_main_uthread (prc s process)"

lemma status_bits:
  fixes st e k um ie :: u32
  assumes "\<And>n. bit e n \<longleftrightarrow> n = 1" and "\<And>n. bit k n \<longleftrightarrow> n = 3 \<or> n = 4" and "\<And>n. bit um n \<longleftrightarrow> n = 4" and "\<And>n. bit ie n \<longleftrightarrow> n = 0"
  shows "bit ((((st OR e) AND NOT k) OR um OR ie) AND NOT e) n \<longleftrightarrow> n < 32 \<and> (n = 0 \<or> n = 4 \<or> n \<noteq> 1 \<and> n \<noteq> 3 \<and> bit st n)"
  by (auto simp: bit_simps assms dest: bit_imp_le_length)

lemma user_status_bits:
  "field_get (CP0_STATUS STATUS_KSU) (user_status st AND NOT (CP0_STATUS_MASK STATUS_EXL)) = 2"
  "(user_status st AND NOT (CP0_STATUS_MASK STATUS_EXL)) AND CP0_STATUS_MASK STATUS_EXL = 0"
  "(user_status st AND NOT (CP0_STATUS_MASK STATUS_EXL)) AND CP0_STATUS_IE_MASK \<noteq> 0"
proof -
  have "bit (0x18 :: u32) k = bit (push_bit 3 1 OR push_bit 4 1 :: u32) k" "bit (0x10 :: u32) k = bit (push_bit 4 1 :: u32) k"
    "bit (2 :: u32) k = bit (push_bit 1 1 :: u32) k" for k by simp_all
  moreover have "bit (push_bit n 1 :: u32) k \<longleftrightarrow> n < 32 \<and> k = n" for n k by (simp only: bit_push_bit_iff bit_1_iff) auto
  ultimately have b: "bit (0x18 :: u32) k \<longleftrightarrow> k = 3 \<or> k = 4" "bit (0x10 :: u32) k \<longleftrightarrow> k = 4" "bit (2 :: u32) k \<longleftrightarrow> k = 1" for k
    by (simp_all only: bit_or_iff) auto
  define w where "w = user_status st AND NOT (CP0_STATUS_MASK STATUS_EXL)"
  have c: "CP0_STATUS_MASK STATUS_EXL = 2" "CP0_STATUS_MASK STATUS_KSU = 0x18" "CP0_STATUS_SHIFT STATUS_KSU = 3" by simp_all
  have u: "bit w k \<longleftrightarrow> k < 32 \<and> (k = 0 \<or> k = 4 \<or> k \<noteq> 1 \<and> k \<noteq> 3 \<and> bit st k)" for k
    unfolding w_def user_status_def c CP0_STATUS_KSU_UM_def CP0_STATUS_IE_MASK_def
    by (rule status_bits) (simp_all only: b bit_1_iff)
  have "bit (drop_bit 3 (w AND 0x18)) k \<longleftrightarrow> bit (2 :: u32) k" for k
    by (simp only: bit_drop_bit_eq o_def bit_and_iff b u) auto
  then have "field_get (CP0_STATUS STATUS_KSU) w = 2" unfolding field_get_def CP0_STATUS_def fst_conv snd_conv c by (intro bit_word_eqI)
  moreover have "bit (w AND 2) k \<longleftrightarrow> bit (0 :: u32) k" for k by (simp only: bit_and_iff b u bit_0_eq bot_apply) auto
  then have "w AND CP0_STATUS_MASK STATUS_EXL = 0" unfolding c by (intro bit_word_eqI)
  moreover have "bit (w AND CP0_STATUS_IE_MASK) 0" unfolding CP0_STATUS_IE_MASK_def by (simp only: bit_and_iff u bit_1_iff) simp
  then have "w AND CP0_STATUS_IE_MASK \<noteq> 0" by auto
  ultimately show "field_get (CP0_STATUS STATUS_KSU) (user_status st AND NOT (CP0_STATUS_MASK STATUS_EXL)) = 2"
    "(user_status st AND NOT (CP0_STATUS_MASK STATUS_EXL)) AND CP0_STATUS_MASK STATUS_EXL = 0"
    "(user_status st AND NOT (CP0_STATUS_MASK STATUS_EXL)) AND CP0_STATUS_IE_MASK \<noteq> 0" unfolding w_def by blast+
qed

lemma thread_set_process_eq:
  "thread_set_process p u s = upd_thread (cur s) (\<lambda>t. t\<lparr>t_process := p, t_uthread := u\<rparr>) s"
  by (rule irq_offE [of s]) (simp add: thread_set_process_def irq_restore_def upd_thread_def Let_def)

lemma stub_outcome:
  fixes s :: "('fs, 'z) pkernel_scheme"
  assumes v: "vmms s (cur_vmm s) = zero_vmm\<lparr>asid := i\<rparr>" and n: "unat (p_size (prc s process)) \<le> 0x7FFFD000"
    and im: "0x80000000 \<le> unat (p_image (prc s process))" "unat (p_image (prc s process)) + unat (p_size (prc s process)) \<le> 2 ^ 32"
  shows "\<exists>r s'. process_stub F process s = Some (r, s') \<and>
     (case r of Stub_Returns rv \<Rightarrow> rv = NULL \<and> (\<exists>fs cnt. fst (frame_alloc F fs cnt (VF_VA_AUTO OR VF_AT_KSEG0)) \<noteq> EOK)
      | Enters_User pc \<Rightarrow> user_started process s pc s')"
proof -
  let ?n = "p_size (prc s process)" and ?im = "p_image (prc s process)" and ?v = "cur_vmm s" and ?z = "vmas zero_vmm"
  let ?sz = "ALIGN_UP ?n PAGE_SIZE"
  define r1 where "r1 = frame_alloc F (k_fs s) (drop_bit 12 ?sz) (VF_VA_AUTO OR VF_AT_KSEG0)"
  define A where "A = new_area 0x1000 ?sz (fst (snd r1))"
  let ?s1 = "upd_vmm ?v (\<lambda>m. m\<lparr>vmas := (vmas m)[0 := A]\<rparr>) (s\<lparr>k_fs := snd (snd r1)\<rparr>)"
  have m1: "vma_map F 0x1000 ?sz (VF_AT_KUSEG OR VF_VA_USER) s = (if fst r1 \<noteq> EOK then Some (fst r1, 0x1000, s\<lparr>k_fs := snd (snd r1)\<rparr>)
      else Some (EOK, 0x1000, ?s1))"
    unfolding A_def by (rule user_map [OF user_constants(4) page_round(2) [OF n] r1_def]) (simp add: v process_areas(1))
  show ?thesis
  proof (cases "fst r1 = EOK")
    case False
    then show ?thesis using m1 r1_def by (auto simp: process_stub_def user_constants)
  next
    case True
    define b where "b = snd (memcpy (k_bytes s) 0x1000 ?im ?n)"
    define P where "P = (prc s)(process := (prc s process)\<lparr>p_ustack_top := 0x7FFFE000\<rparr>)"
    let ?s5 = "?s1\<lparr>k_bytes := b, prc := P\<rparr>"
    obtain st c where i: "irq_off (?s1\<lparr>k_bytes := b\<rparr>) = (st, ?s1\<lparr>k_bytes := b, k_cpu := c\<rparr>)" "conditionally_enable_interrupts st c = k_cpu s"
      using irq_offE [of "?s1\<lparr>k_bytes := b\<rparr>"] by (auto simp: upd_vmm_def)
    define r2 where "r2 = frame_alloc F (k_fs ?s5) (drop_bit 12 0x1000) (VF_VA_AUTO OR VF_AT_KSEG0)"
    define B where "B = new_area 0x7FFFE000 0x1000 (fst (snd r2))"
    let ?s6 = "upd_vmm ?v (\<lambda>m. m\<lparr>vmas := (vmas m)[1 := B]\<rparr>) (?s5\<lparr>k_fs := snd (snd r2)\<rparr>)"
    have m2: "vma_map F 0x7FFFE000 0x1000 (VF_AT_KUSEG OR VF_VA_USER) ?s5 =
      (if fst r2 \<noteq> EOK then Some (fst r2, 0x7FFFE000, ?s5\<lparr>k_fs := snd (snd r2)\<rparr>) else Some (EOK, 0x7FFFE000, ?s6))"
    proof -
      have c5: "cur_vmm ?s5 = ?v" by (simp add: upd_vmm_def)
      show ?thesis unfolding B_def
        by (rule user_map [OF user_constants(5,4) r2_def, of 1, unfolded c5])
          (simp add: v upd_vmm_def process_areas(2) [OF A_def refl])
    qed
    have set: "irq_restore st (upd_process process (\<lambda>p. p\<lparr>p_ustack_top := 0x7FFFE000\<rparr>) (?s1\<lparr>k_bytes := b, k_cpu := c\<rparr>)) = ?s5"
      using i(2) by (simp add: irq_restore_def upd_process_def P_def upd_vmm_def upd_order)
    have run: "process_stub F process s = do {
         (rc, base, s6) \<leftarrow> vma_map F 0x7FFFE000 0x1000 (VF_AT_KUSEG OR VF_VA_USER) ?s5;
         if rc \<noteq> EOK then Some (Stub_Returns NULL, s6)
         else do {
           let s7 = thread_set_process process (p_main_uthread (prc s6 process)) s6;
           let status = user_status (read_cp0_status (k_cpu s7));
           let s8 = s7\<lparr>k_cpu := write_cp0_status status (k_cpu s7)\<rparr>;
           let s9 = s8\<lparr>k_cpu := write_cp0_epc USER_CODE_START (k_cpu s8)\<rparr>;
           let (pc, s10) = cpu_uspace_jump (base + USER_STACK_SIZE) NULL NULL s9;
           Some (Enters_User pc, s10)
         }
       }"
    proof -
      have "prc ?s1 = prc s" "k_bytes ?s1 = k_bytes s" "p_ustack_top (P process) = 0x7FFFE000" by (simp_all add: upd_vmm_def P_def)
      then show ?thesis using m1 True i(1) set
        by (simp add: process_stub_def user_constants b_def upd_process_def P_def)
    qed
    show ?thesis
    proof (cases "fst r2 = EOK")
      case False
      then show ?thesis using m2 r2_def unfolding run by auto
    next
      case ok2: True
      let ?u = "p_main_uthread (prc s process)"
      let ?s7 = "upd_thread (cur ?s6) (\<lambda>t. t\<lparr>t_process := process, t_uthread := ?u\<rparr>) ?s6"
      let ?s9 = "?s7\<lparr>k_cpu := write_cp0_epc USER_CODE_START (write_cp0_status (user_status (read_cp0_status (k_cpu s))) (k_cpu s))\<rparr>"
      have fin: "process_stub F process s = Some (Enters_User USER_CODE_START, snd (cpu_uspace_jump 0x7FFFF000 NULL NULL ?s9))"
      proof -
        have "prc ?s6 = P" "p_main_uthread (P process) = ?u" "k_cpu ?s7 = k_cpu s" by (simp_all add: upd_vmm_def upd_thread_def P_def)
        then show ?thesis using m2 ok2 unfolding run
          by (simp add: thread_set_process_eq USER_STACK_SIZE_def THREAD_STACK_SIZE_def cpu_uspace_jump_def cp0_read_defs cp0_write_defs
            upd_vmm_def upd_thread_def P_def)
      qed
      have "user_started process s USER_CODE_START (snd (cpu_uspace_jump 0x7FFFF000 NULL NULL ?s9))"
      proof -
        define e where "e = snd (cpu_uspace_jump 0x7FFFF000 NULL NULL ?s9)"
        have f: "cur e = cur s" "thr e (cur s) = (thr s (cur s))\<lparr>t_process := process, t_uthread := ?u\<rparr>" "k_bytes e = b"
          "vmms e ?v = \<lparr>asid = i, vmas = (vmas zero_vmm)[0 := A, 1 := B]\<rparr>" "c_sp (k_regs e) = 0x7FFFF000"
          "r_status (k_cpu e) = user_status (read_cp0_status (k_cpu s)) AND NOT (CP0_STATUS_MASK STATUS_EXL)"
          by (simp_all add: e_def cpu_uspace_jump_def upd_thread_def upd_vmm_def v cp0_read_defs cp0_write_defs)
        have find: "fst (vmm_mapping_find virt ph e) = EOK" if "vma_maps (drop_bit 12 virt) A \<or> vma_maps (drop_bit 12 virt) B" for virt ph
          using process_areas(3) [OF A_def refl that, of i] by (auto simp: vmm_mapping_find_eq f split: option.split)
        have code: "fst (vmm_mapping_find (USER_CODE_START + W j) ph e) = EOK" if "j < unat ?n" for j ph
          using area_covers [of "0x1000" "unat ?n" ?sz j] n that page_round(1) [OF n] by (intro find) (simp add: A_def USER_CODE_START_def)
        have stack: "fst (vmm_mapping_find (USER_STACK_START + W j) ph e) = EOK" if "j < unat USER_STACK_SIZE" for j ph
          using area_covers [of "0x7FFFE000" 4096 "0x1000" j] that
          by (intro find) (simp add: B_def USER_STACK_START_def USER_STACK_SIZE_def THREAD_STACK_SIZE_def)
        have "b (0x1000 + W j) = k_bytes s (?im + W j)" if "j < unat ?n" for j
        proof -
          have "block 0x1000 (unat ?n) \<inter> block ?im (unat ?n) = {}"
          proof -
            have "unat (0x1000 + W k :: u32) < 0x80000000" "0x80000000 \<le> unat (?im + W k)" if "k < unat ?n" for k
              using that n im by (simp_all add: unat_word_ariths unat_W)
            then show ?thesis by (auto simp: block_def) (metis linorder_not_less)
          qed
          then show ?thesis using memcpy_loop_copy [of "unat ?n" "0x1000" ?im j] that unat_u32_less [of ?n] by (simp add: b_def memcpy_def)
        qed
        then show ?thesis unfolding user_started_def e_def [symmetric]
          using f code stack user_status_bits [of "read_cp0_status (k_cpu s)"] by (simp add: interrupts_on_def USER_CODE_START_def)
      qed
      then show ?thesis using fin by simp
    qed
  qed
qed

text \<open>C16: The stub of a process whose map is new and whose image lies in the kernel segment always ends: it returns \<^verbatim>\<open>NULL\<close> when the frame allocator
  refuses an area, and otherwise leaves the kernel for user mode with interrupts enabled, at the entry point of the image and with the
  stack pointer at the top of the stack. Then the code pages hold a copy of the image, all addresses of the image and of the stack are mapped,
  and the thread belongs to the process.\<close>

theorem process_stub_enters_user:
  fixes s :: "('fs, 'z) pkernel_scheme"
  assumes "vmms s (cur_vmm s) = zero_vmm\<lparr>asid := i\<rparr>" and "unat (p_size (prc s process)) \<le> 0x7FFFD000"
    and "0x80000000 \<le> unat (p_image (prc s process))" and "unat (p_image (prc s process)) + unat (p_size (prc s process)) \<le> 2 ^ 32"
  shows "\<exists>r s'. process_stub F process s = Some (r, s') \<and>
     (case r of Stub_Returns rv \<Rightarrow> rv = NULL \<and> (\<exists>fs cnt. fst (frame_alloc F fs cnt (VF_VA_AUTO OR VF_AT_KSEG0)) \<noteq> EOK)
      | Enters_User pc \<Rightarrow> user_started process s pc s')"
  by (rule stub_outcome [OF assms])

text \<open>A process of 5000 bytes at \<^verbatim>\<open>0x80090000\<close> in the running thread, and a frame allocator that always has room.\<close>

definition run_pkernel :: "nat set pkernel" where
  "run_pkernel = boot_pkernel\<lparr>vmms := (\<lambda>_. zero_vmm\<lparr>asid := 7\<rparr>), prc := (\<lambda>_. \<lparr>p_ustack_top = 0, p_main_uthread = 0x80095000,
     p_image = 0x80090000, p_size = 5000, p_retval = 0\<rparr>), k_bytes := (\<lambda>a. ucast a)\<rparr>"

definition roomy :: "nat set falloc" where
  "roomy = \<lparr>frame_alloc = (\<lambda>fs cnt flags. (EOK, 0x1000000, fs)), frame_free = (\<lambda>fs phys cnt. (EOK, fs))\<rparr>"

theorem process_stub_enters_user_witness:
  "\<exists>s'. process_stub roomy 0x80094000 run_pkernel = Some (Enters_User USER_CODE_START, s') \<and>
     user_started 0x80094000 run_pkernel USER_CODE_START s'"
proof -
  have "\<exists>r s'. process_stub roomy 0x80094000 run_pkernel = Some (r, s') \<and>
     (case r of Stub_Returns rv \<Rightarrow> rv = NULL \<and> (\<exists>fs cnt. fst (frame_alloc roomy fs cnt (VF_VA_AUTO OR VF_AT_KSEG0)) \<noteq> EOK)
      | Enters_User pc \<Rightarrow> user_started 0x80094000 run_pkernel pc s')"
    by (rule process_stub_enters_user [where i = 7]) (simp_all add: run_pkernel_def boot_pkernel_def boot_kernel_def small_kernel_def)
  then obtain r s' where r: "process_stub roomy 0x80094000 run_pkernel = Some (r, s')"
    "case r of Stub_Returns rv \<Rightarrow> rv = NULL \<and> (\<exists>fs cnt. fst (frame_alloc roomy fs cnt (VF_VA_AUTO OR VF_AT_KSEG0)) \<noteq> EOK)
      | Enters_User pc \<Rightarrow> user_started 0x80094000 run_pkernel pc s'" by blast
  then obtain pc where u: "process_stub roomy 0x80094000 run_pkernel = Some (Enters_User pc, s')" "user_started 0x80094000 run_pkernel pc s'"
    by (cases r) (auto simp: roomy_def)
  moreover have "pc = USER_CODE_START" using u(2) by (simp add: user_started_def)
  ultimately show ?thesis by blast
qed

end
