(* ===== verification/Exceptions.thy ===== *)
theory Exceptions
  imports User_Mode
begin

text \<open>
  Exceptions (\<^verbatim>\<open>kernel/exc/exc.c\<close>), interrupts (\<^verbatim>\<open>kernel/exc/int.c\<close>) and system calls (\<^verbatim>\<open>kernel/exc/syscall.c\<close>, \<^verbatim>\<open>kernel/synch/sys_mutex.c\<close>): the dispatch from
  the cause of an exception to the scheduler, the TLB handler and the system calls, and what it means for the interrupted thread.
\<close>

unbundle bit_operations_syntax

section \<open>Interrupts\<close>

text \<open>Where the processor goes from a handler: back to the interrupted code with the registers the handler leaves, on with a resumption of that
  code later (a context switch has happened below the handler), to another thread for good, or to a halt.\<close>

datatype 'r handled = Resumes 'r | Preempted 'r | Finished | Halted

text \<open>\<^verbatim>\<open>interrupt\<close>; \<open>kbd\<close> stands for \<^verbatim>\<open>kbd_handle\<close>, of which the build links a binary. The flag says whether \<^verbatim>\<open>sched_timer\<close> has switched threads.\<close>

definition interrupt ::
  "(('fs, 'z) kernel_scheme \<Rightarrow> ('fs, 'z) kernel_scheme option) \<Rightarrow> ctx \<Rightarrow> ('fs, 'z) kernel_scheme \<Rightarrow> (bool \<times> ('fs, 'z) kernel_scheme) option" where
  "interrupt kbd registers s = do {
     let cause = c_cause registers;
     s1 \<leftarrow> (if cause AND CP0_CAUSE_IP4_MASK \<noteq> 0 then kbd s else Some s);
     if cause AND CP0_CAUSE_IP7_MASK \<noteq> 0 then sched_timer s1 else Some (False, s1)
   }"

section \<open>System calls\<close>

datatype syscall_t = SYS_EXIT | SYS_PUTC | SYS_PUTSTR | SYS_GETC | SYS_VMA_MAP | SYS_VMA_UNMAP | SYS_THREAD_CREATE | SYS_THREAD_SELF
  | SYS_THREAD_USLEEP | SYS_THREAD_JOIN | SYS_THREAD_FINISH | SYS_MUTEX_INIT | SYS_MUTEX_LOCK | SYS_MUTEX_UNLOCK | SYS_MUTEX_DESTROY

definition syscalls :: "syscall_t list" where
  "syscalls = [SYS_EXIT, SYS_PUTC, SYS_PUTSTR, SYS_GETC, SYS_VMA_MAP, SYS_VMA_UNMAP, SYS_THREAD_CREATE, SYS_THREAD_SELF,
     SYS_THREAD_USLEEP, SYS_THREAD_JOIN, SYS_THREAD_FINISH, SYS_MUTEX_INIT, SYS_MUTEX_LOCK, SYS_MUTEX_UNLOCK, SYS_MUTEX_DESTROY]"

definition SYSCALL_COUNT :: u32 where "SYSCALL_COUNT = 15"

text \<open>A system call returns a value, or the calling thread is gone.\<close>

datatype call_result = Call_Returns u32 | Call_Gone

definition sys_exit :: "u32 \<Rightarrow> ('fs, 'z) pkernel_scheme \<Rightarrow> (call_result \<times> ('fs, 'z) pkernel_scheme) option" where
  "sys_exit rv s = do {
     let (process, s1) = thread_get_process s;
     if process = NULL then Some (Call_Returns EINVAL, s1)
     else do {
       let s2 = process_set_retval process rv s1;
       s3 \<leftarrow> thread_finish NULL s2;
       Some (Call_Gone, s3)
     }
   }"

text \<open>The system calls of user mutexes (\<^verbatim>\<open>sys_mutex.c\<close>). \<^verbatim>\<open>umutex_get\<close> does not look into the list of the process yet, and
  \<^verbatim>\<open>sys_mutex_init\<close> does not allocate; \<open>owner\<close> is the member \<^verbatim>\<open>mtx.owner\<close> of the structures.\<close>

definition umutex_get :: "u32 \<Rightarrow> ('fs, 'z) pkernel_scheme \<Rightarrow> u32 \<times> ('fs, 'z) pkernel_scheme" where
  "umutex_get mid s =
     (let (process, s1) = thread_get_process s;
          umutex = NULL;
          (state, s2) = irq_off s1
      in (umutex, irq_restore state s2))"

definition sys_mutex_init :: "u32 \<Rightarrow> ('fs, 'z) pkernel_scheme \<Rightarrow> (call_result \<times> ('fs, 'z) pkernel_scheme) option" where
  "sys_mutex_init mid s = Some (Call_Returns ENOMEM, s)"

definition sys_mutex_lock :: "u32 \<Rightarrow> ('fs, 'z) pkernel_scheme \<Rightarrow> (call_result \<times> ('fs, 'z) pkernel_scheme) option" where
  "sys_mutex_lock mid s = Some (Call_Returns EOK, s)"

definition sys_mutex_unlock :: "(u32 \<Rightarrow> u32) \<Rightarrow> u32 \<Rightarrow> ('fs, 'z) pkernel_scheme \<Rightarrow> (call_result \<times> ('fs, 'z) pkernel_scheme) option" where
  "sys_mutex_unlock owner mid s = do {
     let (umutex, s1) = umutex_get mid s;
     if umutex = NULL then Some (Call_Returns EINVAL, s1)
     else do {
       let (state, s2) = irq_off s1;
       let (current, s3) = thread_get_current s2;
       if owner umutex \<noteq> NULL \<and> owner umutex \<noteq> current then do {
         s4 \<leftarrow> thread_finish NULL (irq_restore state s3);
         Some (Call_Gone, s4)
       }
       else Some (Call_Returns EOK, irq_restore state s3)
     }
   }"

definition sys_mutex_destroy ::
  "'fs falloc \<Rightarrow> (u32 \<Rightarrow> u32) \<Rightarrow> u32 \<Rightarrow> ('fs, 'z) pkernel_scheme \<Rightarrow> (call_result \<times> ('fs, 'z) pkernel_scheme) option" where
  "sys_mutex_destroy F owner mid s = do {
     let (umutex, s1) = umutex_get mid s;
     if umutex = NULL then Some (Call_Returns EINVAL, s1)
     else do {
       let (state, s2) = irq_off s1;
       if owner umutex \<noteq> NULL then do {
         s3 \<leftarrow> thread_finish NULL (irq_restore state s2);
         Some (Call_Gone, s3)
       }
       else do {
         m \<leftarrow> list_remove (k_mem s2) umutex;
         s3 \<leftarrow> kfree F umutex (irq_restore state (s2\<lparr>k_mem := m\<rparr>));
         Some (Call_Returns EOK, s3)
       }
     }
   }"

text \<open>\<^verbatim>\<open>syscall_table\<close>. The handlers of \<^verbatim>\<open>syscall.c\<close> that have no body yet and those of \<^verbatim>\<open>sys_thread.c\<close>, of which the build links a binary, are a
  parameter.\<close>

type_synonym ('fs, 'z) syscall_handler = "u32 \<Rightarrow> u32 \<Rightarrow> u32 \<Rightarrow> u32 \<Rightarrow> ('fs, 'z) pkernel_scheme \<Rightarrow> (call_result \<times> ('fs, 'z) pkernel_scheme) option"

fun syscall_table :: "'fs falloc \<Rightarrow> (u32 \<Rightarrow> u32) \<Rightarrow> (syscall_t \<Rightarrow> ('fs, 'z) syscall_handler) \<Rightarrow> syscall_t \<Rightarrow> ('fs, 'z) syscall_handler" where
  "syscall_table F owner H SYS_EXIT = (\<lambda>p1 p2 p3 p4. sys_exit p1)"
| "syscall_table F owner H SYS_MUTEX_INIT = (\<lambda>p1 p2 p3 p4. sys_mutex_init p1)"
| "syscall_table F owner H SYS_MUTEX_LOCK = (\<lambda>p1 p2 p3 p4. sys_mutex_lock p1)"
| "syscall_table F owner H SYS_MUTEX_UNLOCK = (\<lambda>p1 p2 p3 p4. sys_mutex_unlock owner p1)"
| "syscall_table F owner H SYS_MUTEX_DESTROY = (\<lambda>p1 p2 p3 p4. sys_mutex_destroy F owner p1)"
| "syscall_table F owner H c = H c"

definition undefined_syscall_message :: string where
  "undefined_syscall_message = ''Thread %x called undefined syscall %u'' @ [CHR 0x0A]"

text \<open>\<^verbatim>\<open>syscall\<close>, on a table of handlers: the registers when it returns, nothing when the thread is gone.\<close>

definition syscall ::
  "char list \<Rightarrow> (syscall_t \<Rightarrow> ('fs, 'z) syscall_handler) \<Rightarrow> ctx \<Rightarrow> ('fs, 'z) pkernel_scheme \<Rightarrow> (ctx option \<times> ('fs, 'z) pkernel_scheme) option" where
  "syscall buf T registers s = do {
     let r1 = registers\<lparr>c_epc := c_epc registers + 4\<rparr>;
     if c_v0 r1 < SYSCALL_COUNT then do {
       let s1 = s\<lparr>k_cpu := enable_interrupts (k_cpu s)\<rparr>;
       (res, s2) \<leftarrow> T (syscalls ! unat (c_v0 r1)) (c_a0 r1) (c_a1 r1) (c_a2 r1) (c_a3 r1) s1;
       case res of
         Call_Returns v \<Rightarrow> Some (Some (r1\<lparr>c_v0 := v\<rparr>), s2\<lparr>k_cpu := disable_interrupts (k_cpu s2)\<rparr>)
       | Call_Gone \<Rightarrow> Some (None, s2)
     }
     else do {
       let (current, s1) = thread_get_current s;
       s2 \<leftarrow> kprintk buf undefined_syscall_message [VInt current, VInt (c_v0 r1)] s1;
       s3 \<leftarrow> thread_finish NULL s2;
       Some (None, s3)
     }
   }"

section \<open>Exceptions\<close>

text \<open>\<^verbatim>\<open>wrapped_general\<close>: the handler is chosen by the cause of the exception; what has no handler panics.\<close>

definition halt_with :: "char list \<Rightarrow> string \<Rightarrow> va_arg list \<Rightarrow> ('fs, 'z) kernel_scheme \<Rightarrow> (ctx handled \<times> ('fs, 'z) kernel_scheme) option" where
  "halt_with buf format args s = do { out \<leftarrow> panic_output buf format args (console s); Some (Halted, s\<lparr>console := out\<rparr>) }"

definition wrapped_general ::
  "char list \<Rightarrow> u32 \<Rightarrow> (('fs, 'z) pkernel_scheme \<Rightarrow> ('fs, 'z) pkernel_scheme option) \<Rightarrow> (syscall_t \<Rightarrow> ('fs, 'z) syscall_handler) \<Rightarrow>
    ctx \<Rightarrow> ('fs, 'z) pkernel_scheme \<Rightarrow> (ctx handled \<times> ('fs, 'z) pkernel_scheme) option" where
  "wrapped_general buf phys0 kbd T registers s =
     (let code = field_get (CP0_CAUSE CAUSE_EXCCODE) (c_cause registers) in
      if code = CP0_CAUSE_EXCCODE EXC_INT then do {
        (switched, s1) \<leftarrow> interrupt kbd registers s;
        Some (if switched then Preempted registers else Resumes registers, s1)
      }
      else if code = CP0_CAUSE_EXCCODE EXC_SYS then do {
        (r, s1) \<leftarrow> syscall buf T registers s;
        Some (case r of Some regs \<Rightarrow> Resumes regs | None \<Rightarrow> Finished, s1)
      }
      else if code = CP0_CAUSE_EXCCODE EXC_TLBL \<or> code = CP0_CAUSE_EXCCODE EXC_TLBS then do {
        (back, s1) \<leftarrow> tlb_invalid buf phys0 registers s;
        Some (if back then Resumes registers else Finished, s1)
      }
      else if code = CP0_CAUSE_EXCCODE EXC_ADEL \<or> code = CP0_CAUSE_EXCCODE EXC_ADES then
        halt_with buf ''Unhandled Address Error exception.'' [] s
      else if code = CP0_CAUSE_EXCCODE EXC_BP \<or> code = CP0_CAUSE_EXCCODE EXC_TR \<or> code = CP0_CAUSE_EXCCODE EXC_OV then
        halt_with buf ''Unhandled Debugging exception.'' [] s
      else if code = CP0_CAUSE_EXCCODE EXC_CPU then halt_with buf ''Unhandled Coprocessor Unusable exception.'' [] s
      else if code = CP0_CAUSE_EXCCODE EXC_RI then halt_with buf ''Unhandled Reserved Instruction exception.'' [] s
      else halt_with buf ''Unhandled exception %u.'' [VInt code] s)"

section \<open>Lemmas\<close>

lemma thread_get_process_eq: "thread_get_process s = (t_process (thr s (cur s)), s)"
  by (rule irq_offE [of s]) (simp add: thread_get_process_def irq_restore_def Let_def)

lemma process_set_retval_eq: "process_set_retval p rv s = upd_process p (\<lambda>x. x\<lparr>p_retval := rv\<rparr>) s"
  by (rule irq_offE [of s]) (simp add: process_set_retval_def irq_restore_def upd_process_def Let_def)

lemma umutex_get_eq: "umutex_get mid s = (NULL, s)"
  by (rule irq_offE [of s]) (simp add: umutex_get_def thread_get_process_eq irq_restore_def Let_def)

lemma sched_rel_other [simp]: "sched_rel (s\<lparr>k_cpu := c\<rparr>) a = sched_rel s a" "sched_rel (s\<lparr>console := x\<rparr>) a = sched_rel s a"
    "sched_rel (s'\<lparr>prc := P\<rparr>) a = sched_rel s' a"
  by (simp_all add: sched_rel_def sched_mid_def)

section \<open>A thread of a process\<close>

definition user_kernel :: "nat set pkernel" where
  "user_kernel = boot_pkernel\<lparr>thr := (\<lambda>t. (thr boot_pkernel t)\<lparr>t_process := 0x80094000\<rparr>)\<rparr>"

definition syscall_regs :: "u32 \<Rightarrow> u32 \<Rightarrow> ctx" where
  "syscall_regs n arg = blank_ctx\<lparr>c_cause := 0x20, c_v0 := n, c_a0 := arg\<rparr>"

lemma user_kernel_facts: "sched_rel user_kernel small_sched" "tcall_ok (Finish NULL) small_sched" "cur user_kernel = 0x80010000"
  "t_process (thr user_kernel 0x80010000) = 0x80094000" "console user_kernel = []"
  "field_get (CP0_CAUSE CAUSE_EXCCODE) (c_cause (syscall_regs n x)) = CP0_CAUSE_EXCCODE EXC_SYS"
proof -
  have "sched_wf boot_pkernel small_sched" using boot_pkernel_ok by (simp add: kernel_ok_def)
  then have "sched_wf user_kernel small_sched" by (rule sched_wf_cong [rotated -1]) (simp_all add: user_kernel_def)
  then show "sched_rel user_kernel small_sched" by (simp add: sched_rel_wf small_sched_def)
qed (simp_all add: user_kernel_def boot_pkernel_def kernel.defs boot_kernel_def small_kernel_def small_sched_def spec_leave_def
    field_get_def syscall_regs_def)

section \<open>Properties\<close>

text \<open>A thread of a process that raises the system call exception with \<^verbatim>\<open>SYS_EXIT\<close> never comes back: its process has the argument as its return
  value, the thread is a zombie and the processor has gone on to another thread; no other process is touched.\<close>

theorem sys_exit_ends_process:
  fixes s :: "('fs, 'z) pkernel_scheme"
  assumes "field_get (CP0_CAUSE CAUSE_EXCCODE) (c_cause registers) = CP0_CAUSE_EXCCODE EXC_SYS" and "c_v0 registers = 0"
    and "t_process (thr s (cur s)) = p" and "p \<noteq> NULL" and "sched_rel s a" and "tcall_ok (Finish NULL) a"
  shows "\<exists>s'. wrapped_general buf ph kbd (syscall_table F owner H) registers s = Some (Finished, s') \<and>
     sched_rel s' (tcall_spec (Finish NULL) a) \<and> prc s' = (prc s)(p := (prc s p)\<lparr>p_retval := c_a0 registers\<rparr>) \<and> uth s' = uth s"
proof -
  let ?s = "upd_process p (\<lambda>x. x\<lparr>p_retval := c_a0 registers\<rparr>) (s\<lparr>k_cpu := enable_interrupts (k_cpu s)\<rparr>)"
  have "sched_rel ?s a" using assms(5) by (simp add: upd_process_def)
  then obtain s' where s': "thread_finish NULL ?s = Some s'" "sched_rel s' (tcall_spec (Finish NULL) a)"
    using finish_refines [OF _ assms(6)] by blast
  have "syscalls ! 0 = SYS_EXIT" by (simp add: syscalls_def)
  then have "wrapped_general buf ph kbd (syscall_table F owner H) registers s = Some (Finished, s')"
    using assms(1-4) s'(1)
    by (simp add: wrapped_general_def syscall_def SYSCALL_COUNT_def sys_exit_def thread_get_process_eq process_set_retval_eq)
  moreover have "prc s' = prc ?s" "uth s' = uth ?s" using more_prc [OF finish_more [OF s'(1)]] by auto
  ultimately show ?thesis using s'(2) by (auto simp: upd_process_def)
qed

theorem sys_exit_ends_process_witness:
  "\<exists>s'. wrapped_general [] 0 Some (syscall_table one_region (\<lambda>_. 0) (\<lambda>_ _ _ _ _ _. None)) (syscall_regs 0 3) user_kernel = Some (Finished, s') \<and>
     p_retval (prc s' 0x80094000) = 3 \<and> cur s' = 0x80020000"
proof -
  obtain s' where s': "wrapped_general [] 0 Some (syscall_table one_region (\<lambda>_. 0) (\<lambda>_ _ _ _ _ _. None)) (syscall_regs 0 3) user_kernel = Some (Finished, s')"
    "sched_rel s' (tcall_spec (Finish NULL) small_sched)" "p_retval (prc s' 0x80094000) = 3"
    using sys_exit_ends_process [of "syscall_regs 0 3" user_kernel "0x80094000" small_sched "[]" 0 Some one_region "\<lambda>_. 0" "\<lambda>_ _ _ _ _ _. None"] user_kernel_facts
    by (auto simp: syscall_regs_def)
  then show ?thesis
    by (auto simp: sched_rel_def sched_mid_def small_sched_def spec_switch_def spec_wakeup_def spec_leave_def)
qed

text \<open>A thread that raises the system call exception with a number that is no system call is reported on the console with its
  address and the number and is finished.\<close>

theorem undefined_syscall_kills:
  fixes s :: "('fs, 'z) pkernel_scheme"
  assumes "field_get (CP0_CAUSE CAUSE_EXCCODE) (c_cause registers) = CP0_CAUSE_EXCCODE EXC_SYS" and "15 \<le> c_v0 registers"
    and "sched_rel s a" and "tcall_ok (Finish NULL) a" and "length buf = PRINT_BUF"
  shows "\<exists>s'. wrapped_general buf ph kbd T registers s = Some (Finished, s') \<and> sched_rel s' (tcall_spec (Finish NULL) a) \<and>
     console s' = console s @ ''Thread '' @ hex_text (cur s) @ '' called undefined syscall '' @ digits_text 10 (c_v0 registers) @ [CHR 0x0A]"
proof -
  let ?args = "[VInt (cur s), VInt (c_v0 registers)]"
  let ?t = "''Thread '' @ hex_text (cur s) @ '' called undefined syscall '' @ digits_text 10 (c_v0 registers) @ [CHR 0x0A]"
  have "format_text undefined_syscall_message ?args = Some ?t"
    by (simp add: undefined_syscall_message_def conv_text_def)
  then have p: "printk buf undefined_syscall_message ?args (console s) = Some (length ?t, console s @ ?t)"
    using vprintk_loop_correct [of buf undefined_syscall_message ?args ?t 0 "console s"] assms(5)
    by (simp add: printk_def vprintk_def PRINT_BUF_def)
  let ?s = "s\<lparr>console := console s @ ?t\<rparr>"
  have "sched_rel ?s a" using assms(3) by simp
  from finish_refines [OF this assms(4)] obtain s' where s': "thread_finish NULL ?s = Some s'" "sched_rel s' (tcall_spec (Finish NULL) a)"
    by blast
  have con: "console s' = console ?s" using finish_console [OF s'(1)] .
  have "\<not> c_v0 registers < SYSCALL_COUNT" using assms(2) by (simp add: SYSCALL_COUNT_def not_less)
  then have "wrapped_general buf ph kbd T registers s = Some (Finished, s')"
    using assms(1) p s'(1) by (simp add: wrapped_general_def syscall_def thread_get_current_eq kprintk_def del: append_assoc)
  with s'(2) con show ?thesis by simp
qed

theorem undefined_syscall_kills_witness:
  "\<exists>s'. wrapped_general (replicate PRINT_BUF NUL) 0 Some (\<lambda>_ _ _ _ _ _. None) (syscall_regs 99 0) user_kernel = Some (Finished, s') \<and>
     console s' = ''Thread '' @ hex_text 0x80010000 @ '' called undefined syscall '' @ digits_text 10 99 @ [CHR 0x0A]"
  using undefined_syscall_kills [of "syscall_regs 99 0" user_kernel small_sched "replicate PRINT_BUF NUL" 0 Some "\<lambda>_ _ _ _ _ _. None"] user_kernel_facts
  by (auto simp: syscall_regs_def)

lemma halt_with_text:
  assumes "length buf = PRINT_BUF" and "format_text fmt args = Some t"
  shows "halt_with buf fmt args s = Some (Halted, s\<lparr>console := console s @ t\<rparr>)"
  using vprintk_loop_correct [of buf fmt args t 0 "console s"] assms by (simp add: halt_with_def panic_output_def vprintk_def PRINT_BUF_def)

text \<open>C35: An exception that is no interrupt, no system call and no invalid TLB entry halts the machine with a message that names it, and changes nothing
  else.\<close>

theorem unhandled_exception_halts:
  fixes s :: "('fs, 'z) pkernel_scheme"
  assumes "code = field_get (CP0_CAUSE CAUSE_EXCCODE) (c_cause registers)" and "length buf = PRINT_BUF"
    and "code \<noteq> CP0_CAUSE_EXCCODE EXC_INT" and "code \<noteq> CP0_CAUSE_EXCCODE EXC_SYS" and "code \<noteq> CP0_CAUSE_EXCCODE EXC_TLBL"
    and "code \<noteq> CP0_CAUSE_EXCCODE EXC_TLBS"
  shows "wrapped_general buf ph kbd T registers s = Some (Halted, s\<lparr>console := console s @
     (if code \<in> {4, 5} then ''Unhandled Address Error exception.''
      else if code \<in> {9, 12, 13} then ''Unhandled Debugging exception.''
      else if code = 11 then ''Unhandled Coprocessor Unusable exception.''
      else if code = 10 then ''Unhandled Reserved Instruction exception.''
      else ''Unhandled exception '' @ digits_text 10 code @ ''.'')\<rparr>)"
proof -
  note H = halt_with_text [OF assms(2)]
  have f: "format_text ''Unhandled Address Error exception.'' [] = Some ''Unhandled Address Error exception.''"
    "format_text ''Unhandled Debugging exception.'' [] = Some ''Unhandled Debugging exception.''"
    "format_text ''Unhandled Coprocessor Unusable exception.'' [] = Some ''Unhandled Coprocessor Unusable exception.''"
    "format_text ''Unhandled Reserved Instruction exception.'' [] = Some ''Unhandled Reserved Instruction exception.''"
    "format_text ''Unhandled exception %u.'' [VInt code] = Some (''Unhandled exception '' @ digits_text 10 code @ ''.'')"
    by (simp_all add: conv_text_def)
  have c: "code \<noteq> 0" "code \<noteq> 8" "code \<noteq> 2" "code \<noteq> 3" using assms(3-6) by simp_all
  show ?thesis unfolding wrapped_general_def Let_def assms(1) [symmetric] using c
    by (simp add: H [OF f(1)] H [OF f(2)] H [OF f(3)] H [OF f(4)] H [OF f(5)] del: append.simps)
qed

theorem unhandled_exception_halts_witness:
  "wrapped_general (replicate PRINT_BUF NUL) 0 Some (\<lambda>_ _ _ _ _ _. None) (blank_ctx\<lparr>c_cause := 0x10\<rparr>) user_kernel =
     Some (Halted, user_kernel\<lparr>console := ''Unhandled Address Error exception.''\<rparr>)"
  using unhandled_exception_halts [of 4 "blank_ctx\<lparr>c_cause := 0x10\<rparr>" "replicate PRINT_BUF NUL" 0 Some "\<lambda>_ _ _ _ _ _. None" user_kernel] user_kernel_facts(5)
  by (simp add: field_get_def)

end
