(* ===== verification/Entry.thy ===== *)
theory Entry
  imports Exceptions
begin

text \<open>
  The assembler entry of the kernel into exceptions (\<^verbatim>\<open>kernel/head.S\<close>, \<^verbatim>\<open>kernel/include/asm.h\<close>): the static areas of the processors, the general exception handler with the frame it
  saves and restores around \<^verbatim>\<open>wrapped_general\<close>, and the TLB Refill handler around \<^verbatim>\<open>wrapped_tlb_refill\<close>. The theorems say what the interrupted code sees of an exception.
\<close>

unbundle bit_operations_syntax

section \<open>The static areas of the processors\<close>

definition KERNEL_STATIC_ADDR :: u32 where "KERNEL_STATIC_ADDR = 0x400"
definition KERNEL_STATIC_SHIFT :: nat where "KERNEL_STATIC_SHIFT = 10"
definition KERNEL_STATIC_SIZE :: u32 where "KERNEL_STATIC_SIZE = 0x400"
definition KERNEL_STATIC_TOTAL :: u32 where "KERNEL_STATIC_TOTAL = W MAX_CPU * KERNEL_STATIC_SIZE"
definition KERNEL_STATIC_AREA :: u32 where "KERNEL_STATIC_AREA = ADDR_IN_KSEG0 KERNEL_STATIC_ADDR"

definition STATIC_OFFSET_EPC :: u32 where "STATIC_OFFSET_EPC = 0"
definition STATIC_OFFSET_CAUSE :: u32 where "STATIC_OFFSET_CAUSE = 4"
definition STATIC_OFFSET_BADVA :: u32 where "STATIC_OFFSET_BADVA = 8"
definition STATIC_OFFSET_ENTRYHI :: u32 where "STATIC_OFFSET_ENTRYHI = 12"
definition STATIC_OFFSET_STATUS :: u32 where "STATIC_OFFSET_STATUS = 16"

lemmas static_defs = KERNEL_STATIC_ADDR_def KERNEL_STATIC_SHIFT_def KERNEL_STATIC_SIZE_def KERNEL_STATIC_TOTAL_def KERNEL_STATIC_AREA_def

lemmas static_offset_defs = STATIC_OFFSET_EPC_def STATIC_OFFSET_CAUSE_def STATIC_OFFSET_BADVA_def STATIC_OFFSET_ENTRYHI_def STATIC_OFFSET_STATUS_def

text \<open>\<^verbatim>\<open>SETUP_STATIC_AREA\<close>: the pointer it computes from the number of the processor, which it reads from the dorder device.\<close>

definition SETUP_STATIC_AREA :: "u32 \<Rightarrow> u32 \<Rightarrow> u32" where
  "SETUP_STATIC_AREA cpuid displacement =
     (let offset = push_bit KERNEL_STATIC_SHIFT cpuid;
          ptr = ADDR_IN_KSEG0 KERNEL_STATIC_ADDR - displacement;
          ptr = ptr + offset
      in ptr + KERNEL_STATIC_SIZE)"

section \<open>Entry and exit of the general exception handler\<close>

text \<open>The kernel with the words of the static areas, by their addresses.\<close>

record 'fs ekernel = "'fs pkernel" +
  k_static :: "u32 \<Rightarrow> u32"

text \<open>What the processor does at an exception, and at the end of a handler (\<^verbatim>\<open>ERET\<close>).\<close>

definition enter_exception :: "u32 \<Rightarrow> u32 \<Rightarrow> u32 \<Rightarrow> ('fs, 'z) kernel_scheme \<Rightarrow> ('fs, 'z) kernel_scheme" where
  "enter_exception cause badva pc s = s\<lparr>k_cpu := (k_cpu s)
     \<lparr>r_epc := pc, r_cause := cause, r_badvaddr := badva, r_status := r_status (k_cpu s) OR CP0_STATUS_MASK STATUS_EXL\<rparr>\<rparr>"

definition eret :: "('fs, 'z) kernel_scheme \<Rightarrow> u32 \<times> ('fs, 'z) kernel_scheme" where
  "eret s = (r_epc (k_cpu s), s\<lparr>k_cpu := (k_cpu s)\<lparr>r_status := r_status (k_cpu s) AND NOT (CP0_STATUS_MASK STATUS_EXL)\<rparr>\<rparr>)"

text \<open>\<^verbatim>\<open>handle_general\<close> up to the call of \<^verbatim>\<open>wrapped_general\<close>, with the address of the frame, and from its return on. The scratch registers
  \<^verbatim>\<open>$k0\<close>, \<^verbatim>\<open>$k1\<close>, \<^verbatim>\<open>$t0\<close> and \<^verbatim>\<open>$t1\<close> it uses in between are not kept: \<open>junk\<close> are the registers as the C code leaves them, of which the
  calling convention guarantees only the stack pointer here.\<close>

definition handle_general_save :: "('fs, 'z) ekernel_scheme \<Rightarrow> u32 \<times> ('fs, 'z) ekernel_scheme" where
  "handle_general_save s =
     (let p = SETUP_STATIC_AREA (k_cpuid s) KERNEL_STATIC_SIZE;
          c = k_cpu s;
          st = (k_static s)(p + STATIC_OFFSET_EPC := read_cp0_epc c, p + STATIC_OFFSET_CAUSE := read_cp0_cause c,
            p + STATIC_OFFSET_BADVA := read_cp0_badvaddr c, p + STATIC_OFFSET_ENTRYHI := read_cp0_entryhi c,
            p + STATIC_OFFSET_STATUS := read_cp0_status c);
          keep = NOT (CP0_STATUS_MASK STATUS_KSU OR CP0_STATUS_MASK STATUS_EXL OR CP0_STATUS_IE_MASK);
          s1 = s\<lparr>k_static := st, k_cpu := write_cp0_status (read_cp0_status c AND keep) c\<rparr>;
          sp = c_sp (k_regs s1) - CONTEXT_SIZE;
          f = (SAVE_REGISTERS (k_regs s1) (k_ctx s1 sp))\<lparr>c_lo := c_lo (k_regs s1), c_hi := c_hi (k_regs s1)\<rparr>;
          p = SETUP_STATIC_AREA (k_cpuid s1) KERNEL_STATIC_SIZE;
          f = f\<lparr>c_epc := st (p + STATIC_OFFSET_EPC), c_cause := st (p + STATIC_OFFSET_CAUSE), c_badva := st (p + STATIC_OFFSET_BADVA),
            c_entryhi := st (p + STATIC_OFFSET_ENTRYHI), c_status := st (p + STATIC_OFFSET_STATUS)\<rparr>
      in (sp, s1\<lparr>k_ctx := (k_ctx s1)(sp := f), k_regs := (k_regs s1)\<lparr>c_a0 := sp, c_sp := sp - ABI_STACK_FRAME\<rparr>\<rparr>))"

definition handle_general_load :: "ctx \<Rightarrow> u32 \<Rightarrow> ('fs, 'z) ekernel_scheme \<Rightarrow> u32 \<times> ('fs, 'z) ekernel_scheme" where
  "handle_general_load junk sp s =
     (let r = junk\<lparr>c_sp := sp\<rparr>;
          f = k_ctx s (c_sp r);
          p = SETUP_STATIC_AREA (k_cpuid s) KERNEL_STATIC_SIZE;
          st = (k_static s)(p + STATIC_OFFSET_STATUS := c_status f, p + STATIC_OFFSET_EPC := c_epc f);
          r = LOAD_REGISTERS f (r\<lparr>c_lo := c_lo f, c_hi := c_hi f\<rparr>);
          r = r\<lparr>c_sp := c_sp r + CONTEXT_SIZE\<rparr>;
          p = SETUP_STATIC_AREA (k_cpuid s) KERNEL_STATIC_SIZE;
          c = write_cp0_epc (st (p + STATIC_OFFSET_EPC)) (k_cpu s);
          c = write_cp0_status (st (p + STATIC_OFFSET_STATUS)) c
      in eret (s\<lparr>k_static := st, k_regs := r\<lparr>c_k0 := st (p + STATIC_OFFSET_STATUS), c_k1 := p\<rparr>, k_cpu := c\<rparr>))"

text \<open>The whole handler. It resumes the interrupted code at an address, or the code waits in a frame for the thread to run again.\<close>

definition handle_general ::
  "char list \<Rightarrow> u32 \<Rightarrow> (('fs, 'z) ekernel_scheme \<Rightarrow> ('fs, 'z) ekernel_scheme option) \<Rightarrow> (syscall_t \<Rightarrow> ('fs, ('z) ekernel_ext) syscall_handler) \<Rightarrow>
    ctx \<Rightarrow> ('fs, 'z) ekernel_scheme \<Rightarrow> (u32 handled \<times> ('fs, 'z) ekernel_scheme) option" where
  "handle_general buf phys0 kbd T junk s = do {
     let (sp, s1) = handle_general_save s;
     (h, s2) \<leftarrow> wrapped_general buf phys0 kbd T (k_ctx s1 sp) s1;
     case h of
       Resumes r \<Rightarrow> let (pc, s3) = handle_general_load junk sp (s2\<lparr>k_ctx := (k_ctx s2)(sp := r)\<rparr>) in Some (Resumes pc, s3)
     | Preempted r \<Rightarrow> Some (Preempted sp, s2)
     | Finished \<Rightarrow> Some (Finished, s2)
     | Halted \<Rightarrow> Some (Halted, s2)
   }"

text \<open>\<^verbatim>\<open>handle_tlb_refill\<close>: the frame is at the top of the static area; \<^verbatim>\<open>EPC\<close> and Status are left to the C code.\<close>

definition handle_tlb_refill_save :: "('fs, 'z) kernel_scheme \<Rightarrow> u32 \<times> ('fs, 'z) kernel_scheme" where
  "handle_tlb_refill_save s =
     (let k1 = SETUP_STATIC_AREA (k_cpuid s) CONTEXT_SIZE;
          f = (k_ctx s k1)\<lparr>c_sp := c_sp (k_regs s)\<rparr>;
          sp = k1;
          f = (SAVE_REGISTERS (k_regs s) f)\<lparr>c_lo := c_lo (k_regs s), c_hi := c_hi (k_regs s)\<rparr>;
          c = k_cpu s;
          f = f\<lparr>c_epc := read_cp0_epc c, c_cause := read_cp0_cause c, c_badva := read_cp0_badvaddr c, c_entryhi := read_cp0_entryhi c,
            c_status := read_cp0_status c\<rparr>
      in (sp, s\<lparr>k_ctx := (k_ctx s)(sp := f), k_regs := (k_regs s)\<lparr>c_a0 := sp, c_sp := sp - ABI_STACK_FRAME\<rparr>\<rparr>))"

definition handle_tlb_refill :: "char list \<Rightarrow> u32 \<Rightarrow> ctx \<Rightarrow> ('fs, 'z) kernel_scheme \<Rightarrow> (u32 handled \<times> ('fs, 'z) kernel_scheme) option" where
  "handle_tlb_refill buf phys0 junk s = do {
     let (sp, s1) = handle_tlb_refill_save s;
     (back, s2) \<leftarrow> wrapped_tlb_refill buf phys0 (k_ctx s1 sp) s1;
     if back then do {
       let f = k_ctx s2 sp;
       let r = LOAD_REGISTERS f (junk\<lparr>c_sp := sp, c_lo := c_lo f, c_hi := c_hi f\<rparr>);
       let (pc, s3) = eret (s2\<lparr>k_regs := r\<lparr>c_sp := c_sp f\<rparr>\<rparr>);
       Some (Resumes pc, s3)
     }
     else Some (Finished, s2)
   }"

section \<open>Saving and loading\<close>

text \<open>What the interrupted code can see of the processor: the general registers with LO and HI, the stack pointer and the Status register.\<close>

definition same_view :: "ctx \<Rightarrow> u32 \<Rightarrow> ('fs, 'z) kernel_scheme \<Rightarrow> bool" where
  "same_view r status s \<longleftrightarrow> general_regs (k_regs s) = general_regs r \<and> c_sp (k_regs s) = c_sp r \<and> r_status (k_cpu s) = status"

lemma save_frame:
  assumes "handle_general_save (enter_exception cause badva pc s) = (sp, s1)"
  shows "sp = c_sp (k_regs s) - CONTEXT_SIZE"
    and "general_regs (k_ctx s1 sp) = general_regs (k_regs s)" and "c_v0 (k_ctx s1 sp) = c_v0 (k_regs s)" 
    and "c_epc (k_ctx s1 sp) = pc" and "c_cause (k_ctx s1 sp) = cause"
    and "c_status (k_ctx s1 sp) = r_status (k_cpu s) OR CP0_STATUS_MASK STATUS_EXL"
    and "c_sp (k_regs s1) = sp - ABI_STACK_FRAME" and "r_count (k_cpu s1) = r_count (k_cpu s)"
  using assms
  by (auto simp: handle_general_save_def enter_exception_def Let_def static_offset_defs SAVE_REGISTERS_def general_regs_def
    cp0_read_defs cp0_write_defs)

lemma save_keeps:
  assumes "handle_general_save (enter_exception cause badva pc s) = (sp, s1)"
  shows "s1 = s\<lparr>k_cpu := k_cpu s1, k_ctx := k_ctx s1, k_regs := k_regs s1, k_static := k_static s1\<rparr>"
  using assms by (intro ekernel.equality) (auto simp: handle_general_save_def enter_exception_def Let_def)

lemma load_frame:
  "fst (handle_general_load junk sp s) = c_epc (k_ctx s sp)"
  "same_view ((k_ctx s sp)\<lparr>c_sp := sp + CONTEXT_SIZE\<rparr>) (c_status (k_ctx s sp) AND NOT (CP0_STATUS_MASK STATUS_EXL)) (snd (handle_general_load junk sp s))"
  by (simp_all add: handle_general_load_def Let_def static_offset_defs same_view_def general_regs_def LOAD_REGISTERS_def eret_def cp0_write_defs)

text \<open>Status loses the exception level again.\<close>

lemma or_and_not:
  fixes x :: u32
  assumes "x AND m = 0"
  shows "(x OR m) AND NOT m = x"
proof (rule bit_word_eqI)
  fix n assume "n < LENGTH(32)"
  moreover have "\<not> (bit x n \<and> bit m n)" using arg_cong [OF assms, of "\<lambda>w. bit w n"] by (simp add: bit_and_iff)
  ultimately show "bit ((x OR m) AND NOT m) n = bit x n" by (auto simp: bit_simps)
qed

section \<open>The frame of the interrupted code\<close>

lemma wakeup_ctx: "thread_wakeup t s = Some (rc, s') \<Longrightarrow> k_ctx s' = k_ctx s \<and> k_regs s' = k_regs s"
  by (auto simp: thread_wakeup_eq upd_thread_def split: if_splits)

lemma timers_run_ctx: "timers_run s = Some s' \<Longrightarrow> k_ctx s' = k_ctx s \<and> k_regs s' = k_regs s"
  by (auto simp: timers_run_def elim!: bind_eq_SomeE split: if_splits dest!: wakeup_ctx)

lemma switch_ctx: "f \<noteq> frame_at s \<Longrightarrow> k_ctx (thread_switch n s) f = k_ctx s f"
  by (rule irq_offE [of s]) (simp add: thread_switch_def Let_def upd_thread_def cpu_switch_context_def frame_at_def)

lemma schedule_ctx: "schedule s = Some (b, s') \<Longrightarrow> f \<noteq> frame_at s \<Longrightarrow> k_ctx s' f = k_ctx s f"
  by (rule irq_offE [of s])
    (auto simp: schedule_def switch_ctx frame_at_def upd_thread_def irq_restore_def Let_def elim!: bind_eq_SomeE split: if_splits)

lemma sched_timer_ctx:
  assumes "sched_timer s = Some (b, s')" and "f \<noteq> frame_at s"
  shows "k_ctx s' f = k_ctx s f"
  using assms timers_run_ctx
  by (fastforce simp: sched_timer_def Let_def frame_at_def elim!: bind_eq_SomeE split: if_splits dest!: schedule_ctx [where f = f] timers_run_ctx)

section \<open>Transparency\<close>

lemma entry_rel:
  assumes "handle_general_save (enter_exception cause badva pc s) = (sp, s1)"
  shows "sched_rel s1 a = sched_rel s a" and "timer_rel fn U s1 a ts = timer_rel fn U s a ts" and "thr s1 = thr s" and "cur s1 = cur s"
    and "tmr s1 = tmr s" and "jiffies s1 = jiffies s"
proof -
  obtain c k r x where "s1 = s\<lparr>k_cpu := c, k_ctx := k, k_regs := r, k_static := x\<rparr>" using save_keeps [OF assms] by blast
  then show "sched_rel s1 a = sched_rel s a" "timer_rel fn U s1 a ts = timer_rel fn U s a ts" "thr s1 = thr s" "cur s1 = cur s"
    "tmr s1 = tmr s" "jiffies s1 = jiffies s"
    by (simp_all add: sched_rel_def sched_mid_def timer_rel_def)
qed

text \<open>Loading a frame that the entry of the handler has saved shows the interrupted code what it saw before.\<close>

lemma load_saved:
  assumes "handle_general_save (enter_exception cause badva pc s) = (sp, s1)" and "r_status (k_cpu s) AND CP0_STATUS_MASK STATUS_EXL = 0"
    and "k_ctx s2 sp = k_ctx s1 sp"
  shows "fst (handle_general_load junk sp s2) = pc" and "same_view (k_regs s) (r_status (k_cpu s)) (snd (handle_general_load junk sp s2))"
proof -
  note f = save_frame [OF assms(1)]
  show "fst (handle_general_load junk sp s2) = pc" using load_frame(1) [of junk sp s2] f(4) assms(3) by simp
  have "general_regs ((k_ctx s2 sp)\<lparr>c_sp := sp + CONTEXT_SIZE\<rparr>) = general_regs (k_regs s)"
    using f(2) assms(3) by (simp add: general_regs_def)
  then show "same_view (k_regs s) (r_status (k_cpu s)) (snd (handle_general_load junk sp s2))"
    using load_frame(2) [of sp s2 junk] f(1,6) assms(2,3) or_and_not [OF assms(2)] by (simp add: same_view_def)
qed

text \<open>
  C4: a timer interrupt is invisible to the code it interrupts. The handler always comes to an end. If the running thread keeps the processor, the interrupted code continues where it was,
  with the general registers, LO and HI, the stack pointer and the Status register it had, whatever the C code of the kernel left in the registers; if the thread
  has used up its quantum, its frame holds them until the thread runs again, and the rest of the handler then restores them, from whatever state it runs in.
\<close>
theorem timer_interrupt_transparent:
  fixes s :: "('fs, 'z) ekernel_scheme"
  assumes "sched_rel s a" and "timer_rel fn U s a ts" and "r_status (k_cpu s) AND CP0_STATUS_MASK STATUS_EXL = 0"
    and "field_get (CP0_CAUSE CAUSE_EXCCODE) cause = CP0_CAUSE_EXCCODE EXC_INT" and "cause AND CP0_CAUSE_IP4_MASK = 0" and "cause AND CP0_CAUSE_IP7_MASK \<noteq> 0"
    and "preempt = (r_count (k_cpu s) - scheduled (thr s (cur s)) \<ge> THREAD_QUANTUM)" and "sp = c_sp (k_regs s) - CONTEXT_SIZE"
  shows "\<exists>s'. handle_general buf ph kbd T junk (enter_exception cause badva pc s) = Some (if preempt then Preempted sp else Resumes pc, s') \<and> jiffies s' = jiffies s + 1 \<and>
     (\<not> preempt \<longrightarrow> same_view (k_regs s) (r_status (k_cpu s)) s') \<and>
     (preempt \<longrightarrow> (\<forall>junk' s2 :: ('fs, 'z) ekernel_scheme. k_ctx s2 sp = k_ctx s' sp \<longrightarrow>
        fst (handle_general_load junk' sp s2) = pc \<and> same_view (k_regs s) (r_status (k_cpu s)) (snd (handle_general_load junk' sp s2))))"
proof -
  obtain sp' s1 where e: "handle_general_save (enter_exception cause badva pc s) = (sp', s1)" by (cases "handle_general_save (enter_exception cause badva pc s)")
  note f = save_frame [OF e]
  have sp: "sp' = sp" using f(1) assms(8) by simp
  obtain s2 where s2: "sched_timer s1 = Some (preempt, s2)" "jiffies s2 = jiffies s + 1"
    using sched_timer_refines [of s1 a fn U ts, OF _ _ refl refl] assms(1,2,7) f(8) by (auto simp: entry_rel [OF e])
  have "frame_at s1 \<noteq> sp" using f(7) sp by (simp add: frame_at_def ABI_STACK_FRAME_def CONTEXT_SIZE_def)
  then have k: "k_ctx s2 sp = k_ctx s1 sp" using sched_timer_ctx [OF s2(1)] by metis
  have w: "wrapped_general buf ph kbd T (k_ctx s1 sp) s1 = Some (if preempt then Preempted (k_ctx s1 sp) else Resumes (k_ctx s1 sp), s2)"
    using assms(4-6) f(5) sp s2(1) by (simp add: wrapped_general_def interrupt_def)
  let ?s2 = "s2\<lparr>k_ctx := (k_ctx s2)(sp := k_ctx s1 sp)\<rparr>"
  show ?thesis
  proof (cases preempt)
    case True
    then have "handle_general buf ph kbd T junk (enter_exception cause badva pc s) = Some (Preempted sp, s2)"
      using w sp by (simp add: handle_general_def e)
    then show ?thesis using True s2(2) load_saved [OF e assms(3)] k sp by auto
  next
    case False
    let ?r = "handle_general_load junk sp ?s2"
    have v: "fst ?r = pc" "same_view (k_regs s) (r_status (k_cpu s)) (snd ?r)" using load_saved [OF e assms(3), of ?s2] sp by simp_all
    have "handle_general buf ph kbd T junk (enter_exception cause badva pc s) = Some (Resumes (fst ?r), snd ?r)"
      using w sp False by (simp add: handle_general_def e case_prod_beta)
    moreover have "jiffies (snd ?r) = jiffies s + 1" using s2(2) by (simp add: handle_general_load_def eret_def Let_def)
    ultimately show ?thesis using False v by auto
  qed
qed

text \<open>A kernel with processes and static areas, from the one of the timer properties.\<close>

definition small_ekernel :: "nat set kernel \<Rightarrow> nat set ekernel" where
  "small_ekernel s = kernel.extend s
     \<lparr>prc = (\<lambda>_. \<lparr>p_ustack_top = 0, p_main_uthread = 0, p_image = 0, p_size = 0, p_retval = 0\<rparr>),
      uth = (\<lambda>_. \<lparr>u_thread = 0, u_process = 0, u_entry = 0, u_data = 0, u_user_data = 0\<rparr>), k_bytes = (\<lambda>_. 0), k_static = (\<lambda>_. 0)\<rparr>"

theorem timer_interrupt_transparent_witness:
  "\<exists>s'. handle_general [] 0 Some (\<lambda>_ _ _ _ _ _. None) blank_ctx (enter_exception 0x8000 0 0x400120 (small_ekernel small_timers)) = Some (Resumes 0x400120, s') \<and>
     same_view blank_ctx 1 s'"
proof -
  have "sched_rel (small_ekernel small_timers) small_sched"
    "timer_rel 0x80000500 {0x8001002C, 0x8002002C, 0x8003002C} (small_ekernel small_timers) small_sched []"
    using small_timer_rel by (simp_all add: small_ekernel_def kernel.defs sched_rel_def sched_mid_def timer_rel_def)
  note T = timer_interrupt_transparent [OF this, of "0x8000" False "c_sp blank_ctx - CONTEXT_SIZE" "[]" 0 Some "\<lambda>_ _ _ _ _ _. None" blank_ctx 0 "0x400120"]
  have "k_regs (small_ekernel small_timers) = blank_ctx" "r_status (k_cpu (small_ekernel small_timers)) = 1" "r_count (k_cpu (small_ekernel small_timers)) = 0"
    "scheduled (thr (small_ekernel small_timers) (cur (small_ekernel small_timers))) = 0"
    by (simp_all add: small_ekernel_def kernel.defs small_timers_def small_kernel_def reset_cp0_def blank_thread_def)
  with T show ?thesis by (auto simp: field_get_def THREAD_QUANTUM_def CP0_CAUSE_IP4_MASK_def CP0_CAUSE_IP7_MASK_def)
qed

section \<open>TLB Refill\<close>

lemma refill_keeps:
  assumes "wrapped_tlb_refill buf ph r s = Some (True, s')"
  shows "k_ctx s' = k_ctx s" "r_epc (k_cpu s') = r_epc (k_cpu s)" "r_status (k_cpu s') = r_status (k_cpu s)"
  using assms
  by (auto simp: wrapped_tlb_refill_def vmm_mapping_find_eq tlb_store_random_def tlb_write_random_def thread_get_current_eq Let_def cp0_write_defs
    elim!: bind_eq_SomeE split: option.splits if_splits)

text \<open>
  C30: a TLB Refill exception on a mapped address restarts the instruction that caused it: the handler returns to that address with the general registers, LO and HI, the stack
  pointer and the Status register unchanged, and now the hardware translates the address to the place that \<^verbatim>\<open>vmm_mapping_find\<close> gives. The TLB stays consistent with the maps.
\<close>
theorem tlb_refill_restarts:
  assumes "tlb_ok V (vmms s) (k_tlb s)" and "hw_ok V s" and "tlb_translate (k_tlb s) (cur_asid s) virt = TLB_Refill"
    and "vmm_mapping_find virt ph s = (EOK, phys, s)" and "r_status (k_cpu s) AND CP0_STATUS_MASK STATUS_EXL = 0"
  shows "\<exists>s'. handle_tlb_refill buf ph junk (tlb_exception virt (enter_exception cause virt pc s)) = Some (Resumes pc, s') \<and>
     same_view (k_regs s) (r_status (k_cpu s)) s' \<and> tlb_ok V (vmms s') (k_tlb s') \<and> hw_ok V s' \<and>
     tlb_translate (k_tlb s') (cur_asid s') virt = TLB_Hit phys"
proof -
  let ?e = "tlb_exception virt (enter_exception cause virt pc s)" and ?sp = "SETUP_STATIC_AREA (k_cpuid s) CONTEXT_SIZE"
  define f where "f = (SAVE_REGISTERS (k_regs s) ((k_ctx s ?sp)\<lparr>c_sp := c_sp (k_regs s)\<rparr>))
    \<lparr>c_lo := c_lo (k_regs s), c_hi := c_hi (k_regs s), c_epc := pc, c_cause := cause, c_badva := virt, c_entryhi := r_entryhi (k_cpu ?e), c_status := r_status (k_cpu ?e)\<rparr>"
  define u where "u = (enter_exception cause virt pc s)\<lparr>k_ctx := (k_ctx s)(?sp := f), k_regs := (k_regs s)\<lparr>c_a0 := ?sp, c_sp := ?sp - ABI_STACK_FRAME\<rparr>\<rparr>"
  have u: "tlb_ok V (vmms u) (k_tlb u)" "hw_ok V u" "tlb_translate (k_tlb u) (cur_asid u) virt = TLB_Refill"
    "mapped_frame (vmms u (cur_vmm u)) = mapped_frame (vmms s (cur_vmm s))"
    using assms(1-3) by (simp_all add: u_def enter_exception_def hw_ok_def)
  obtain n where n: "mapped_frame (vmms s (cur_vmm s)) (drop_bit 12 virt) = Some n" "phys = push_bit 12 n + (virt AND 0xfff)"
    using assms(4) by (auto simp: vmm_mapping_find_eq split: option.splits)
  have "c_badva f = virt" by (simp add: f_def)
  then obtain s2 where s2: "wrapped_tlb_refill buf ph f (tlb_exception virt u) = Some (True, s2)" "tlb_ok V (vmms s2) (k_tlb s2)" "hw_ok V s2"
    "tlb_translate (k_tlb s2) (cur_asid s2) virt = TLB_Hit phys"
    using refill_ok [OF u(1-3), of f n buf ph] u(4) n by auto
  note k = refill_keeps [OF s2(1)]
  have c: "k_ctx s2 ?sp = f" "r_epc (k_cpu s2) = pc" "r_status (k_cpu s2) = r_status (k_cpu s) OR CP0_STATUS_MASK STATUS_EXL"
    using k by (simp_all add: u_def tlb_exception_def enter_exception_def)
  let ?r = "LOAD_REGISTERS f (junk\<lparr>c_sp := ?sp, c_lo := c_lo f, c_hi := c_hi f\<rparr>)"
  let ?s' = "snd (eret (s2\<lparr>k_regs := ?r\<lparr>c_sp := c_sp f\<rparr>\<rparr>))"
  have e: "handle_tlb_refill_save ?e = (?sp, tlb_exception virt u)"
    by (simp add: handle_tlb_refill_save_def Let_def f_def u_def tlb_exception_def enter_exception_def cp0_read_defs)
  have "k_ctx (tlb_exception virt u) ?sp = f" by (simp add: tlb_exception_def u_def)
  then have "handle_tlb_refill buf ph junk ?e = Some (Resumes pc, ?s')"
    using s2(1) c(1,2) by (simp add: handle_tlb_refill_def e eret_def)
  moreover have "same_view (k_regs s) (r_status (k_cpu s)) ?s'"
    using c(3) or_and_not [OF assms(5)] by (simp add: same_view_def eret_def f_def SAVE_REGISTERS_def LOAD_REGISTERS_def general_regs_def)
  moreover have "tlb_ok V (vmms ?s') (k_tlb ?s')" "hw_ok V ?s'" "tlb_translate (k_tlb ?s') (cur_asid ?s') virt = TLB_Hit phys"
    using s2(2-) by (simp_all add: eret_def hw_ok_def)
  ultimately show ?thesis by blast
qed

theorem tlb_refill_restarts_witness:
  "\<exists>s'. handle_tlb_refill [] 0 blank_ctx (tlb_exception 0x1FB01234 (enter_exception 8 0x1FB01234 0x400120 small_start)) = Some (Resumes 0x400120, s') \<and>
     same_view (k_regs small_start) (r_status (k_cpu small_start)) s' \<and> tlb_translate (k_tlb s') (cur_asid s') 0x1FB01234 = TLB_Hit 0x2001234"
proof -
  have "vmm_mapping_find 0x1FB01234 0 small_start = (EOK, 0x2001234, small_start)"
    using small_frame by (simp add: vmm_mapping_find_eq small_start_facts)
  moreover have "r_status (k_cpu small_start) AND CP0_STATUS_MASK STATUS_EXL = 0"
  proof -
    obtain c t where i: "tlb_init small_vm = small_vm\<lparr>k_cpu := c, k_tlb := t\<rparr>" using tlb_init_form by blast
    show ?thesis unfolding small_start_def i by (subst switch_loads(3))
      (simp_all add: frame_at_def small_vm_def small_kernel_def blank_ctx_def blank_thread_def CONTEXT_SIZE_def)
  qed
  ultimately show ?thesis
    using tlb_refill_restarts [of "{0}" small_start "0x1FB01234" 0 "0x2001234" "[]" blank_ctx 8 "0x400120"] small_start_facts small_miss by auto
qed

section \<open>The static areas\<close>

text \<open>The areas of the processors follow each other in the kernel segment; the words of the general handler are at the bottom of an area, the frame of the TLB Refill handler, which may
  interrupt the general handler, is at its top.\<close>

lemma static_area_at:
  assumes "unat i < 32" and "unat d \<le> 0x400"
  shows "unat (SETUP_STATIC_AREA i d) = 0x80000800 + 0x400 * unat i - unat d"
proof -
  let ?n = "0x80000800 + 0x400 * unat i - unat d"
  have "W ?n = 0x80000800 + 0x400 * i - d" using assms by (simp add: of_nat_diff)
  also have "\<dots> = SETUP_STATIC_AREA i d" by (simp add: SETUP_STATIC_AREA_def static_defs segment_defs push_bit_eq_mult)
  finally have "SETUP_STATIC_AREA i d = W ?n" ..
  moreover have "?n < 2 ^ 32" using assms by simp
  ultimately show ?thesis by (simp only: unat_W)
qed

theorem static_areas_apart:
  assumes "unat i < MAX_CPU"
  shows "unat (SETUP_STATIC_AREA i KERNEL_STATIC_SIZE) = unat KERNEL_STATIC_AREA + unat KERNEL_STATIC_SIZE * unat i"
    and "unat (SETUP_STATIC_AREA i KERNEL_STATIC_SIZE) + unat STATIC_OFFSET_STATUS + 4 \<le> unat (SETUP_STATIC_AREA i CONTEXT_SIZE)"
    and "unat (SETUP_STATIC_AREA i CONTEXT_SIZE) + unat CONTEXT_SIZE = unat (SETUP_STATIC_AREA i 0)"
    and "unat (SETUP_STATIC_AREA i 0) \<le> unat KERNEL_STATIC_AREA + unat KERNEL_STATIC_TOTAL"
    and "unat j < MAX_CPU \<Longrightarrow> i < j \<Longrightarrow> unat (SETUP_STATIC_AREA i 0) \<le> unat (SETUP_STATIC_AREA j KERNEL_STATIC_SIZE)"
  using assms by (auto simp: static_area_at static_defs segment_defs STATIC_OFFSET_STATUS_def CONTEXT_SIZE_def MAX_CPU_def word_less_nat_alt)

end
