(* ===== verification/Librt.thy ===== *)
theory Librt
  imports Entry
begin

text \<open>
  The run-time library of user processes (\<^verbatim>\<open>user/librt\<close>): the system call wrapper and its macros, \<^verbatim>\<open>exit\<close>, the entry function \<^verbatim>\<open>__main\<close> and the rest of the library, most of which has no bodies yet, on top of the exception
  handler of the kernel. The theorems follow a system call from the program to its handler in the kernel and back.
\<close>

unbundle bit_operations_syntax

section \<open>System calls of the library\<close>

text \<open>The numbers of the system calls in \<^verbatim>\<open>librt/syscall.h\<close>, an enumeration of its own.\<close>

fun syscall_id :: "syscall_t \<Rightarrow> u32" where
  "syscall_id SYS_EXIT = 0"
| "syscall_id SYS_PUTC = 1"
| "syscall_id SYS_PUTSTR = 2"
| "syscall_id SYS_GETC = 3"
| "syscall_id SYS_VMA_MAP = 4"
| "syscall_id SYS_VMA_UNMAP = 5"
| "syscall_id SYS_THREAD_CREATE = 6"
| "syscall_id SYS_THREAD_SELF = 7"
| "syscall_id SYS_THREAD_USLEEP = 8"
| "syscall_id SYS_THREAD_JOIN = 9"
| "syscall_id SYS_THREAD_FINISH = 10"
| "syscall_id SYS_MUTEX_INIT = 11"
| "syscall_id SYS_MUTEX_LOCK = 12"
| "syscall_id SYS_MUTEX_UNLOCK = 13"
| "syscall_id SYS_MUTEX_DESTROY = 14"

text \<open>The function \<^verbatim>\<open>syscall\<close> loads the registers and executes the instruction \<^verbatim>\<open>SYSCALL\<close>, which raises an exception, \<open>trap\<close>. When the code goes on after it, the
  result of the function is the register \<^verbatim>\<open>$v0\<close>.\<close>

type_synonym ('fs, 'z) trap = "('fs, 'z) ekernel_scheme \<Rightarrow> (u32 handled \<times> ('fs, 'z) ekernel_scheme) option"

definition syscall_args :: "u32 \<Rightarrow> u32 \<Rightarrow> u32 \<Rightarrow> u32 \<Rightarrow> u32 \<Rightarrow> ctx \<Rightarrow> ctx" where
  "syscall_args v0 p1 p2 p3 p4 r = r\<lparr>c_v0 := v0, c_a0 := p1, c_a1 := p2, c_a2 := p3, c_a3 := p4\<rparr>"

definition librt_syscall ::
  "('fs, 'z) trap \<Rightarrow> syscall_t \<Rightarrow> u32 \<Rightarrow> u32 \<Rightarrow> u32 \<Rightarrow> u32 \<Rightarrow> ('fs, 'z) ekernel_scheme \<Rightarrow> (u32 handled \<times> ('fs, 'z) ekernel_scheme) option" where
  "librt_syscall trap sc p1 p2 p3 p4 s = trap (s\<lparr>k_regs := syscall_args (syscall_id sc) p1 p2 p3 p4 (k_regs s)\<rparr>)"

definition SYSCALL0 :: "('fs, 'z) trap \<Rightarrow> syscall_t \<Rightarrow> ('fs, 'z) ekernel_scheme \<Rightarrow> (u32 handled \<times> ('fs, 'z) ekernel_scheme) option" where
  "SYSCALL0 trap sc = librt_syscall trap sc 0 0 0 0"

definition SYSCALL1 :: "('fs, 'z) trap \<Rightarrow> syscall_t \<Rightarrow> u32 \<Rightarrow> ('fs, 'z) ekernel_scheme \<Rightarrow> (u32 handled \<times> ('fs, 'z) ekernel_scheme) option" where
  "SYSCALL1 trap sc p1 = librt_syscall trap sc p1 0 0 0"

definition SYSCALL2 :: "('fs, 'z) trap \<Rightarrow> syscall_t \<Rightarrow> u32 \<Rightarrow> u32 \<Rightarrow> ('fs, 'z) ekernel_scheme \<Rightarrow> (u32 handled \<times> ('fs, 'z) ekernel_scheme) option" where
  "SYSCALL2 trap sc p1 p2 = librt_syscall trap sc p1 p2 0 0"

definition SYSCALL3 ::
  "('fs, 'z) trap \<Rightarrow> syscall_t \<Rightarrow> u32 \<Rightarrow> u32 \<Rightarrow> u32 \<Rightarrow> ('fs, 'z) ekernel_scheme \<Rightarrow> (u32 handled \<times> ('fs, 'z) ekernel_scheme) option" where
  "SYSCALL3 trap sc p1 p2 p3 = librt_syscall trap sc p1 p2 p3 0"

definition SYSCALL4 ::
  "('fs, 'z) trap \<Rightarrow> syscall_t \<Rightarrow> u32 \<Rightarrow> u32 \<Rightarrow> u32 \<Rightarrow> u32 \<Rightarrow> ('fs, 'z) ekernel_scheme \<Rightarrow> (u32 handled \<times> ('fs, 'z) ekernel_scheme) option" where
  "SYSCALL4 trap sc p1 p2 p3 p4 = librt_syscall trap sc p1 p2 p3 p4"

definition exit_process :: "('fs, 'z) trap \<Rightarrow> u32 \<Rightarrow> ('fs, 'z) ekernel_scheme \<Rightarrow> (u32 handled \<times> ('fs, 'z) ekernel_scheme) option" where
  "exit_process trap rv = SYSCALL1 trap SYS_EXIT rv"

text \<open>The entry function of a process. The heap of a process has no implementation yet; \<open>main\<close> is the program.\<close>

definition user_heap_init :: "('fs, 'z) ekernel_scheme \<Rightarrow> ('fs, 'z) ekernel_scheme" where
  "user_heap_init s = s"

definition librt_main ::
  "(('fs, 'z) ekernel_scheme \<Rightarrow> (u32 \<times> ('fs, 'z) ekernel_scheme) option) \<Rightarrow> ('fs, 'z) trap \<Rightarrow> ('fs, 'z) ekernel_scheme \<Rightarrow>
    (u32 handled \<times> ('fs, 'z) ekernel_scheme) option" where
  "librt_main main trap s = do {
     let s1 = user_heap_init s;
     (rc, s2) \<leftarrow> main s1;
     exit_process trap rc s2
   }"

text \<open>Threads, mutexes, memory and output of a process. Where the source has no body yet, the operation returns its result and changes nothing; \<^verbatim>\<open>thread_sleep\<close> has its loop.
  \<^verbatim>\<open>thread_stub\<close> gets the body of the thread as an argument.\<close>

definition user_thread_finish :: "u32 \<Rightarrow> ('fs, 'z) ekernel_scheme \<Rightarrow> ('fs, 'z) ekernel_scheme" where
  "user_thread_finish thread_retval s = s"

definition user_thread_stub ::
  "(u32 \<Rightarrow> ('fs, 'z) ekernel_scheme \<Rightarrow> (u32 \<times> ('fs, 'z) ekernel_scheme) option) \<Rightarrow> u32 \<Rightarrow> ('fs, 'z) ekernel_scheme \<Rightarrow> ('fs, 'z) ekernel_scheme option" where
  "user_thread_stub thread_start data s = do {
     (retval, s1) \<leftarrow> thread_start data s;
     Some (user_thread_finish retval s1)
   }"

definition user_thread_create :: "u32 \<Rightarrow> u32 \<Rightarrow> u32 \<Rightarrow> ('fs, 'z) ekernel_scheme \<Rightarrow> u32 \<times> ('fs, 'z) ekernel_scheme" where
  "user_thread_create thread_ptr thread_start data s = (EOK, s)"

definition user_thread_self :: "('fs, 'z) ekernel_scheme \<Rightarrow> u32 \<times> ('fs, 'z) ekernel_scheme" where
  "user_thread_self s = (0, s)"

definition user_thread_usleep :: "u32 \<Rightarrow> ('fs, 'z) ekernel_scheme \<Rightarrow> ('fs, 'z) ekernel_scheme" where
  "user_thread_usleep usec s = s"

function user_sleep_loop :: "u32 \<Rightarrow> u32 \<Rightarrow> ('fs, 'z) ekernel_scheme \<Rightarrow> ('fs, 'z) ekernel_scheme" where
  "user_sleep_loop cnt sec s = (if cnt < sec then user_sleep_loop (cnt + 1) sec (user_thread_usleep 1000000 s) else s)"
  by pat_completeness auto

termination
proof (relation "measure (\<lambda>(cnt, sec, s). unat sec - unat cnt)", goal_cases)
  case (2 cnt sec s)
  then have "unat (cnt + 1) = unat cnt + unat (1 :: u32)" using unat_u32_less [of sec] by (intro unat_add_bounded) (simp add: word_less_nat_alt)
  then show ?case using 2 by (simp add: word_less_nat_alt)
qed simp

declare user_sleep_loop.simps [simp del]

definition user_thread_sleep :: "u32 \<Rightarrow> ('fs, 'z) ekernel_scheme \<Rightarrow> ('fs, 'z) ekernel_scheme" where
  "user_thread_sleep sec s = user_sleep_loop 0 sec s"

definition user_thread_join :: "u32 \<Rightarrow> u32 \<Rightarrow> ('fs, 'z) ekernel_scheme \<Rightarrow> u32 \<times> ('fs, 'z) ekernel_scheme" where
  "user_thread_join thread thread_retval s = (EOK, s)"

definition user_mutex_init :: "u32 \<Rightarrow> ('fs, 'z) ekernel_scheme \<Rightarrow> u32 \<times> ('fs, 'z) ekernel_scheme" where
  "user_mutex_init mtx s = (EOK, s)"

definition user_mutex_destroy :: "u32 \<Rightarrow> ('fs, 'z) ekernel_scheme \<Rightarrow> u32 \<times> ('fs, 'z) ekernel_scheme" where
  "user_mutex_destroy mtx s = (EOK, s)"

definition user_mutex_lock :: "u32 \<Rightarrow> ('fs, 'z) ekernel_scheme \<Rightarrow> u32 \<times> ('fs, 'z) ekernel_scheme" where
  "user_mutex_lock mtx s = (EOK, s)"

definition user_mutex_unlock :: "u32 \<Rightarrow> ('fs, 'z) ekernel_scheme \<Rightarrow> u32 \<times> ('fs, 'z) ekernel_scheme" where
  "user_mutex_unlock mtx s = (EOK, s)"

definition user_malloc :: "u32 \<Rightarrow> ('fs, 'z) ekernel_scheme \<Rightarrow> u32 \<times> ('fs, 'z) ekernel_scheme" where
  "user_malloc sz s = (NULL, s)"

definition user_free :: "u32 \<Rightarrow> ('fs, 'z) ekernel_scheme \<Rightarrow> ('fs, 'z) ekernel_scheme" where
  "user_free addr s = s"

definition user_printf :: "string \<Rightarrow> ('fs, 'z) ekernel_scheme \<Rightarrow> u32 \<times> ('fs, 'z) ekernel_scheme" where
  "user_printf format s = (0, s)"

text \<open>\<^verbatim>\<open>main\<close> of \<^verbatim>\<open>user/main.c\<close>, the program of the first process.\<close>

definition user_main :: "('fs, 'z) ekernel_scheme \<Rightarrow> (u32 \<times> ('fs, 'z) ekernel_scheme) option" where
  "user_main s = (let (n, s1) = user_printf ([CHR 0x0A] @ ''User space: Hello world!'' @ [CHR 0x0A]) s in Some (0, s1))"

text \<open>The trap of the kernel: the exception with the given cause at an address.\<close>

definition kernel_trap ::
  "char list \<Rightarrow> u32 \<Rightarrow> (('fs, 'z) ekernel_scheme \<Rightarrow> ('fs, 'z) ekernel_scheme option) \<Rightarrow> (syscall_t \<Rightarrow> ('fs, ('z) ekernel_ext) syscall_handler) \<Rightarrow>
    ctx \<Rightarrow> u32 \<Rightarrow> u32 \<Rightarrow> u32 \<Rightarrow> ('fs, 'z) trap" where
  "kernel_trap buf phys0 kbd T junk cause badva pc s = handle_general buf phys0 kbd T junk (enter_exception cause badva pc s)"

section \<open>The interface\<close>

text \<open>The library and the kernel agree on the numbers.\<close>

lemma syscall_numbers: "syscall_id c < SYSCALL_COUNT" "syscalls ! unat (syscall_id c) = c"
  by (cases c; simp add: SYSCALL_COUNT_def syscalls_def)+

text \<open>The kernel finds the arguments in the frame.\<close>

lemma trap_frame:
  assumes "handle_general_save (enter_exception cause badva pc (s\<lparr>k_regs := syscall_args n p1 p2 p3 p4 (k_regs s)\<rparr>)) = (sp, s1)"
  shows "c_v0 (k_ctx s1 sp) = n" "c_a0 (k_ctx s1 sp) = p1" "c_a1 (k_ctx s1 sp) = p2" "c_a2 (k_ctx s1 sp) = p3" "c_a3 (k_ctx s1 sp) = p4"
  using save_frame(2) [OF assms] by (simp_all add: general_regs_def syscall_args_def)

text \<open>
  C21: a system call of the run-time library runs the handler of that call in the kernel, with the arguments the library was given and interrupts enabled; when the handler
  returns, the code goes on after the instruction with the result in \<^verbatim>\<open>$v0\<close> and every other register as it was, in the same mode, whatever the kernel code leaves in the
  registers; the rest of the state is as the handler left it.
\<close>
theorem syscall_runs_handler:
  fixes s :: "('fs, 'z) ekernel_scheme"
  assumes "r_status (k_cpu s) AND CP0_STATUS_MASK STATUS_EXL = 0" and "field_get (CP0_CAUSE CAUSE_EXCCODE) cause = CP0_CAUSE_EXCCODE EXC_SYS"
    and "s1 = snd (handle_general_save (enter_exception cause badva pc (s\<lparr>k_regs := syscall_args (syscall_id sc) p1 p2 p3 p4 (k_regs s)\<rparr>)))"
    and "T sc p1 p2 p3 p4 (s1\<lparr>k_cpu := enable_interrupts (k_cpu s1)\<rparr>) = Some (Call_Returns v, s2)"
  shows "\<exists>s' c k r x. librt_syscall (kernel_trap buf ph kbd T junk cause badva pc) sc p1 p2 p3 p4 s = Some (Resumes (pc + 4), s') \<and>
     same_view (syscall_args v p1 p2 p3 p4 (k_regs s)) (r_status (k_cpu s)) s' \<and> s' = s2\<lparr>k_cpu := c, k_ctx := k, k_regs := r, k_static := x\<rparr>"
proof -
  let ?s = "s\<lparr>k_regs := syscall_args (syscall_id sc) p1 p2 p3 p4 (k_regs s)\<rparr>"
  obtain sp where e: "handle_general_save (enter_exception cause badva pc ?s) = (sp, s1)"
    using assms(3) by (cases "handle_general_save (enter_exception cause badva pc ?s)") simp
  note f = save_frame [OF e] and a = trap_frame [OF e]
  let ?f = "k_ctx s1 sp" and ?s2 = "s2\<lparr>k_cpu := disable_interrupts (k_cpu s2)\<rparr>"
  let ?r = "?f\<lparr>c_epc := pc + 4, c_v0 := v\<rparr>"
  have w: "wrapped_general buf ph kbd T ?f s1 = Some (Resumes ?r, ?s2)"
    using assms(2,4) f(4,5) a syscall_numbers by (simp add: wrapped_general_def syscall_def)
  define s3 where "s3 = ?s2\<lparr>k_ctx := (k_ctx ?s2)(sp := ?r)\<rparr>"
  have "librt_syscall (kernel_trap buf ph kbd T junk cause badva pc) sc p1 p2 p3 p4 s =
      Some (Resumes (fst (handle_general_load junk sp s3)), snd (handle_general_load junk sp s3))"
    using w by (simp add: librt_syscall_def kernel_trap_def handle_general_def e s3_def case_prod_beta)
  moreover have "fst (handle_general_load junk sp s3) = pc + 4" by (simp add: load_frame s3_def)
  moreover have "same_view (syscall_args v p1 p2 p3 p4 (k_regs s)) (r_status (k_cpu s)) (snd (handle_general_load junk sp s3))"
    using load_frame(2) [of sp s3 junk] f(1,2,6) or_and_not [OF assms(1)]
    by (simp add: s3_def same_view_def syscall_args_def general_regs_def)
  moreover have "\<exists>c k r x. snd (handle_general_load junk sp s3) = s2\<lparr>k_cpu := c, k_ctx := k, k_regs := r, k_static := x\<rparr>"
  proof -
    let ?t = "snd (handle_general_load junk sp s3)"
    have "?t = s2\<lparr>k_cpu := k_cpu ?t, k_ctx := k_ctx ?t, k_regs := k_regs ?t, k_static := k_static ?t\<rparr>"
      by (rule ekernel.equality) (simp_all add: handle_general_load_def eret_def s3_def Let_def)
    then show ?thesis by blast
  qed
  ultimately show ?thesis by auto
qed

lemma main_return_outcome:
  fixes s :: "('fs, 'z) ekernel_scheme"
  assumes "main s = Some (rc, s0)" and "field_get (CP0_CAUSE CAUSE_EXCCODE) cause = CP0_CAUSE_EXCCODE EXC_SYS"
    and "t_process (thr s0 (cur s0)) = p" and "p \<noteq> NULL" and "sched_rel s0 a" and "tcall_ok (Finish NULL) a"
  shows "\<exists>s'. librt_main main (kernel_trap buf ph kbd (syscall_table F owner H) junk cause badva pc) s = Some (Finished, s') \<and>
     sched_rel s' (tcall_spec (Finish NULL) a) \<and> prc s' = (prc s0)(p := (prc s0 p)\<lparr>p_retval := rc\<rparr>) \<and> uth s' = uth s0"
proof -
  let ?s = "s0\<lparr>k_regs := syscall_args (syscall_id SYS_EXIT) rc 0 0 0 (k_regs s0)\<rparr>"
  obtain sp s1 where e: "handle_general_save (enter_exception cause badva pc ?s) = (sp, s1)" by (cases "handle_general_save (enter_exception cause badva pc ?s)")
  have "sched_rel ?s a" using assms(5) by (simp add: sched_rel_def sched_mid_def)
  then have R: "sched_rel s1 a" using entry_rel(1) [OF e] by simp
  have "t_process (thr s1 (cur s1)) = p" using assms(3) entry_rel(3,4) [OF e] by simp
  then obtain s' where w: "wrapped_general buf ph kbd (syscall_table F owner H) (k_ctx s1 sp) s1 = Some (Finished, s')"
    and s': "sched_rel s' (tcall_spec (Finish NULL) a)" "prc s' = (prc s1)(p := (prc s1 p)\<lparr>p_retval := rc\<rparr>)" "uth s' = uth s1"
    using sys_exit_ends_process [of "k_ctx s1 sp" s1 p a buf ph kbd F owner H] assms(2,4,6) R save_frame(5) [OF e] trap_frame [OF e] by auto
  have k: "prc s1 = prc s0" "uth s1 = uth s0"
  proof -
    obtain c k r x where "s1 = ?s\<lparr>k_cpu := c, k_ctx := k, k_regs := r, k_static := x\<rparr>" using save_keeps [OF e] by blast
    then show "prc s1 = prc s0" "uth s1 = uth s0" by simp_all
  qed
  have "librt_main main (kernel_trap buf ph kbd (syscall_table F owner H) junk cause badva pc) s = handle_general buf ph kbd (syscall_table F owner H) junk (enter_exception cause badva pc ?s)"
    using assms(1) by (simp add: librt_main_def user_heap_init_def exit_process_def SYSCALL1_def librt_syscall_def kernel_trap_def)
  also have "\<dots> = Some (Finished, s')" unfolding handle_general_def e using w by simp
  finally show ?thesis using s' unfolding k by blast
qed

text \<open>
  C20: a program ends its process by returning from \<^verbatim>\<open>main\<close>: the result goes through the run-time library, the system call exception and the table of system calls into the
  control structure of the process and of no other; the thread does not come back, it is a zombie, a thread waiting for it is runnable, and another thread runs.
\<close>
theorem main_return_ends_process:
  fixes s :: "('fs, 'z) ekernel_scheme"
  assumes "main s = Some (rc, s0)" and "field_get (CP0_CAUSE CAUSE_EXCCODE) cause = CP0_CAUSE_EXCCODE EXC_SYS"
    and "t_process (thr s0 (cur s0)) = p" and "p \<noteq> NULL" and "sched_rel s0 a" and "tcall_ok (Finish NULL) a"
  shows "\<exists>s'. librt_main main (kernel_trap buf ph kbd (syscall_table F owner H) junk cause badva pc) s = Some (Finished, s') \<and>
     sched_rel s' (tcall_spec (Finish NULL) a) \<and> prc s' = (prc s0)(p := (prc s0 p)\<lparr>p_retval := rc\<rparr>) \<and> uth s' = uth s0"
  using assms by (rule main_return_outcome)

text \<open>The program of \<^verbatim>\<open>user/main.c\<close> ends its process with the result 0.\<close>

lemma hello_world_ends:
  fixes s :: "('fs, 'z) ekernel_scheme"
  assumes "field_get (CP0_CAUSE CAUSE_EXCCODE) cause = CP0_CAUSE_EXCCODE EXC_SYS"
    and "t_process (thr s (cur s)) = p" and "p \<noteq> NULL" and "sched_rel s a" and "tcall_ok (Finish NULL) a"
  shows "\<exists>s'. librt_main user_main (kernel_trap buf ph kbd (syscall_table F owner H) junk cause badva pc) s = Some (Finished, s') \<and>
     sched_rel s' (tcall_spec (Finish NULL) a) \<and> prc s' = (prc s)(p := (prc s p)\<lparr>p_retval := 0\<rparr>) \<and> uth s' = uth s"
  by (rule main_return_outcome [OF _ assms]) (simp add: user_main_def user_printf_def)

text \<open>Sleeping in a user program takes no time at all, whatever the number of seconds, and a thread whose body has returned is not ended by its stub, which returns to its caller.\<close>

lemma user_sleep_returns: "user_thread_sleep sec s = s"
proof -
  have "user_sleep_loop cnt sec s = s" for cnt
  proof (induction cnt sec s rule: user_sleep_loop.induct)
    case (1 cnt sec s)
    then show ?case by (cases "cnt < sec") (simp_all add: user_sleep_loop.simps [of cnt] user_thread_usleep_def)
  qed
  then show ?thesis by (simp add: user_thread_sleep_def)
qed

lemma user_stub_returns: "thread_start data s = Some (rv, s1) \<Longrightarrow> user_thread_stub thread_start data s = Some s1"
  by (simp add: user_thread_stub_def user_thread_finish_def)

text \<open>A user thread: the running thread of the kernel of the timer properties, as a thread of a process.\<close>

definition user_ekernel :: "nat set ekernel" where
  "user_ekernel = small_ekernel (small_timers\<lparr>thr := (\<lambda>t. (thr small_timers t)\<lparr>t_process := 0x80094000\<rparr>)\<rparr>)"

lemma user_ekernel_facts: "sched_rel user_ekernel small_sched" "tcall_ok (Finish NULL) small_sched" "t_process (thr user_ekernel (cur user_ekernel)) = 0x80094000"
    "r_status (k_cpu user_ekernel) = 1" "field_get (CP0_CAUSE CAUSE_EXCCODE) 0x20 = CP0_CAUSE_EXCCODE EXC_SYS"
  using small_timer_rel(1)
  by (simp_all add: user_ekernel_def small_ekernel_def kernel.defs sched_rel_def sched_mid_def field_get_def small_sched_def spec_leave_def)
    (simp_all add: small_timers_def small_kernel_def reset_cp0_def)

theorem syscall_runs_handler_witness:
  "\<exists>s'. librt_syscall (kernel_trap [] 0 Some (syscall_table one_region (\<lambda>_. 0) (\<lambda>_ _ _ _ _ _. None)) blank_ctx 0x20 0 0x1000) SYS_MUTEX_INIT 0x2000 0 0 0 user_ekernel =
     Some (Resumes 0x1004, s') \<and> c_v0 (k_regs s') = ENOMEM"
proof -
  let ?T = "syscall_table one_region (\<lambda>_. 0) (\<lambda>_ _ _ _ _ _. None)"
  let ?s1 = "snd (handle_general_save (enter_exception 0x20 0 0x1000 (user_ekernel\<lparr>k_regs := syscall_args (syscall_id SYS_MUTEX_INIT) 0x2000 0 0 0 (k_regs user_ekernel)\<rparr>)))"
  have "?T SYS_MUTEX_INIT 0x2000 0 0 0 (?s1\<lparr>k_cpu := enable_interrupts (k_cpu ?s1)\<rparr>) = Some (Call_Returns ENOMEM, ?s1\<lparr>k_cpu := enable_interrupts (k_cpu ?s1)\<rparr>)"
    by (simp add: sys_mutex_init_def)
  from syscall_runs_handler [of user_ekernel "0x20" ?s1 0 "0x1000" SYS_MUTEX_INIT "0x2000" 0 0 0 ?T ENOMEM "?s1\<lparr>k_cpu := enable_interrupts (k_cpu ?s1)\<rparr>" "[]" 0 Some blank_ctx, OF _ _ refl this] user_ekernel_facts(4,5)
  show ?thesis by (auto simp: same_view_def general_regs_def syscall_args_def)
qed

theorem main_return_ends_process_witness:
  "\<exists>s'. librt_main (\<lambda>s. Some (7, s)) (kernel_trap [] 0 Some (syscall_table one_region (\<lambda>_. 0) (\<lambda>_ _ _ _ _ _. None)) blank_ctx 0x20 0 0x1000) user_ekernel = Some (Finished, s') \<and>
     p_retval (prc s' 0x80094000) = 7 \<and> cur s' = 0x80020000"
proof -
  obtain s' where "librt_main (\<lambda>s. Some (7, s)) (kernel_trap [] 0 Some (syscall_table one_region (\<lambda>_. 0) (\<lambda>_ _ _ _ _ _. None)) blank_ctx 0x20 0 0x1000) user_ekernel = Some (Finished, s')"
    "sched_rel s' (tcall_spec (Finish NULL) small_sched)" "p_retval (prc s' 0x80094000) = 7"
    using main_return_ends_process [of "\<lambda>s. Some (7, s)" user_ekernel 7 user_ekernel "0x20" "0x80094000" small_sched "[]" 0 Some one_region "\<lambda>_. 0" "\<lambda>_ _ _ _ _ _. None" blank_ctx 0 "0x1000"]
      user_ekernel_facts by auto
  then show ?thesis
    by (auto simp: sched_rel_def sched_mid_def small_sched_def spec_switch_def spec_wakeup_def spec_leave_def)
qed

end
