(* ===== verification/Dorder.thy ===== *)
theory Dorder
  imports Vm_Properties
begin

text \<open>
  The dorder device (\<^verbatim>\<open>kernel/drivers/dorder.c\<close>): a ring of messages to the processor, filled by \<^verbatim>\<open>dorder_send\<close> and emptied by the interrupt handler
  \<^verbatim>\<open>dorder_handle\<close>. The ring refines a first in, first out queue of at most 128 messages; beyond that number the driver overwrites messages.
\<close>

unbundle bit_operations_syntax

section \<open>The driver\<close>

text \<open>The static variables of \<^verbatim>\<open>dorder.c\<close>: the ring of messages with its two counters, which are never reduced modulo the size of the ring, the wait queue
  (its head) and the signal.\<close>

definition MSG_BUF_SIZE :: u32 where "MSG_BUF_SIZE = 128"
definition DORDER_MSG_SIGNAL :: u32 where "DORDER_MSG_SIGNAL = 0x0000CAFE"

record 'fs dkernel = "'fs kernel" +
  msg_head :: u32
  msg_tail :: u32
  msg_buffer :: "u32 list"
  dorder_wait_queue :: u32
  dorder_signal :: u32

definition dorder_message :: string where "dorder_message = ''dorder: %x'' @ [CHR 0x0A]"

definition dorder_receive :: "char list \<Rightarrow> u32 \<Rightarrow> ('fs, 'z) dkernel_scheme \<Rightarrow> ('fs, 'z) dkernel_scheme option" where
  "dorder_receive buf msg s = do {
     s1 \<leftarrow> kprintk buf dorder_message [VInt msg] s;
     if msg = DORDER_MSG_SIGNAL then do {
       let (status, s2) = irq_off s1;
       (link, m) \<leftarrow> list_pop (k_mem s2) (dorder_wait_queue s2);
       Some (irq_restore status (s2\<lparr>k_mem := m\<rparr>))
     }
     else Some s1
   }"

text \<open>\<^verbatim>\<open>dorder_handle\<close>; an index outside the buffer would be undefined behaviour.\<close>

partial_function (option) dorder_handle :: "char list \<Rightarrow> ('fs, 'z) dkernel_scheme \<Rightarrow> ('fs, 'z) dkernel_scheme option" where
  "dorder_handle buf s =
     (if msg_tail s \<noteq> msg_head s then do {
        let msg_tail_index = msg_tail s mod MSG_BUF_SIZE;
        kassert (unat msg_tail_index < length (msg_buffer s));
        let msg = msg_buffer s ! unat msg_tail_index;
        let s1 = s\<lparr>msg_tail := msg_tail s + 1\<rparr>;
        s2 \<leftarrow> dorder_receive buf msg s1;
        dorder_handle buf s2
      }
      else Some s)"

text \<open>\<^verbatim>\<open>dorder_send\<close> waits actively while the ring is full: as long as nobody takes a message it does not return, \<open>None\<close>.\<close>

definition dorder_full :: "('fs, 'z) dkernel_scheme \<Rightarrow> bool" where
  "dorder_full s \<longleftrightarrow> msg_tail s = msg_head s + 1"

definition dorder_send :: "u32 \<Rightarrow> u32 \<Rightarrow> ('fs, 'z) dkernel_scheme \<Rightarrow> ('fs, 'z) dkernel_scheme option" where
  "dorder_send cpuid msg s = do {
     kassert (cpuid = 0);
     if dorder_full s then None
     else do {
       let msg_head_index = msg_head s mod MSG_BUF_SIZE;
       let s1 = s\<lparr>msg_head := msg_head s + 1\<rparr>;
       kassert (unat msg_head_index < length (msg_buffer s1));
       Some (s1\<lparr>msg_buffer := (msg_buffer s1)[unat msg_head_index := msg]\<rparr>)
     }
   }"

text \<open>\<^verbatim>\<open>dorder_wait\<close> returns at once when the signal is set (zero), and spins otherwise; \<^verbatim>\<open>dorder_probe\<close> does not read it yet.\<close>

definition dorder_wait :: "('fs, 'z) dkernel_scheme \<Rightarrow> ('fs, 'z) dkernel_scheme option" where
  "dorder_wait s = (if dorder_signal s \<noteq> 0 then None else Some (s\<lparr>dorder_signal := 1\<rparr>))"

definition dorder_probe :: "('fs, 'z) dkernel_scheme \<Rightarrow> bool" where
  "dorder_probe s = (let signal = (1 :: u32) in signal = 0)"

section \<open>The ring as a queue\<close>

definition ring_ok :: "('fs, 'z) dkernel_scheme \<Rightarrow> bool" where
  "ring_ok s \<longleftrightarrow> length (msg_buffer s) = 128 \<and> unat (msg_head s - msg_tail s) \<le> 128"

definition messages :: "('fs, 'z) dkernel_scheme \<Rightarrow> u32 list" where
  "messages s = map (\<lambda>i. msg_buffer s ! unat ((msg_tail s + W i) mod 128)) [0..<unat (msg_head s - msg_tail s)]"

lemma ring_index: "unat ((x :: u32) mod MSG_BUF_SIZE) < 128"
  by (simp add: MSG_BUF_SIZE_def unat_mod)

lemma ring_idx: "unat (((t :: u32) + W i) mod 128) = (unat t + i) mod 128"
proof -
  have "unat (t + W i) = (unat t + i) mod 2 ^ 32" by (simp add: unat_word_ariths unsigned_of_nat take_bit_eq_mod mod_simps)
  moreover have "(unat t + i) mod 2 ^ 32 mod 128 = (unat t + i) mod 128" by (rule mod_mod_cancel) simp
  ultimately show ?thesis by (simp add: unat_mod)
qed

lemma head_eq: "(h :: u32) = t + W (unat (h - t))"
  by simp

lemma send_refines:
  assumes R: "ring_ok s" and n: "length (messages s) < 128"
  shows "\<exists>s'. dorder_send 0 msg s = Some s' \<and> ring_ok s' \<and> messages s' = messages s @ [msg] \<and>
     (\<exists>h b. s' = s\<lparr>msg_head := h, msg_buffer := b\<rparr>)"
proof -
  let ?t = "msg_tail s" and ?k = "unat (msg_head s - msg_tail s)"
  have k: "?k < 128" using n by (simp add: messages_def)
  have h: "msg_head s = ?t + W ?k" by (rule head_eq)
  have idx: "unat (msg_head s mod MSG_BUF_SIZE) = (unat ?t + ?k) mod 128"
    unfolding MSG_BUF_SIZE_def by (subst h) (rule ring_idx)
  have "\<not> dorder_full s"
  proof
    assume "dorder_full s"
    then have "?k = unat (- 1 :: u32)" by (simp add: dorder_full_def)
    then show False using k by (simp add: unsigned_minus_1_eq_mask mask_eq_exp_minus_1)
  qed
  let ?s' = "s\<lparr>msg_head := msg_head s + 1, msg_buffer := (msg_buffer s)[unat (msg_head s mod MSG_BUF_SIZE) := msg]\<rparr>"
  have k': "unat (msg_head s + 1 - ?t) = Suc ?k"
  proof -
    have "msg_head s + 1 - ?t = W (Suc ?k)" by simp
    moreover have "unat (W (Suc ?k)) = Suc ?k" by (rule unat_W) (use k in simp)
    ultimately show ?thesis by (simp only:)
  qed
  have nth: "(msg_buffer s)[unat (msg_head s mod MSG_BUF_SIZE) := msg] ! unat ((?t + W i) mod 128) =
      (if i = ?k then msg else msg_buffer s ! unat ((?t + W i) mod 128))" if "i < Suc ?k" for i
  proof -
    have "(unat ?t + i) mod 128 = (unat ?t + ?k) mod 128 \<longleftrightarrow> i = ?k"
    proof
      assume "(unat ?t + i) mod 128 = (unat ?t + ?k) mod 128"
      then obtain p q where "i + 128 * p = ?k + 128 * q" by (auto simp: nat_mod_eq_iff)
      then have "(i + 128 * p) mod 128 = (?k + 128 * q) mod 128" by (simp only:)
      then show "i = ?k" using that k by simp
    qed simp
    then show ?thesis using R by (auto simp: ring_idx idx ring_ok_def nth_list_update)
  qed
  have "messages ?s' = messages s @ [msg]"
    using nth nth [of ?k] by (simp add: messages_def k' del: upt_Suc) (simp add: upt_Suc_append)
  moreover have "dorder_send 0 msg s = Some ?s'"
    using \<open>\<not> dorder_full s\<close> R ring_index [of "msg_head s"] by (simp add: dorder_send_def ring_ok_def)
  moreover have "ring_ok ?s'" using R k k' by (simp add: ring_ok_def)
  ultimately show ?thesis by blast
qed

lemma messages_Cons:
  assumes "msg_tail s \<noteq> msg_head s"
  shows "messages s = msg_buffer s ! unat (msg_tail s mod 128) # messages (s\<lparr>msg_tail := msg_tail s + 1\<rparr>)"
    and "unat (msg_head s - msg_tail s) = Suc (unat (msg_head s - (msg_tail s + 1)))"
proof -
  let ?t = "msg_tail s" and ?k = "unat (msg_head s - msg_tail s)"
  have "?k \<noteq> 0" using assms by (simp add: unat_eq_zero)
  moreover have "unat (msg_head s - (?t + 1)) = ?k - 1"
  proof -
    have "msg_head s - (?t + 1) = W ?k - 1" by simp
    also have "\<dots> = W (?k - 1)" using \<open>?k \<noteq> 0\<close> by (simp add: of_nat_diff)
    finally show ?thesis using unat_u32_less [of "msg_head s - ?t"] by (simp only: unat_W less_imp_diff_less)
  qed
  ultimately show k: "?k = Suc (unat (msg_head s - (?t + 1)))" by simp
  show "messages s = msg_buffer s ! unat (?t mod 128) # messages (s\<lparr>msg_tail := ?t + 1\<rparr>)"
    unfolding messages_def k by (simp add: upt_conv_Cons map_Suc_upt [symmetric] add.assoc del: upt_Suc)
qed

section \<open>Delivery\<close>

lemma receive_ring:
  assumes "dorder_receive buf msg s = Some s'"
  shows "msg_head s' = msg_head s" "msg_tail s' = msg_tail s" "msg_buffer s' = msg_buffer s" "dorder_wait_queue s' = dorder_wait_queue s"
  using assms by (auto simp: dorder_receive_def kprintk_def irq_off_def irq_restore_def elim!: bind_eq_SomeE split: if_splits prod.splits)

lemma messages_cong: "msg_head s' = msg_head s \<Longrightarrow> msg_tail s' = msg_tail s \<Longrightarrow> msg_buffer s' = msg_buffer s \<Longrightarrow> messages s' = messages s"
  by (simp add: messages_def)

text \<open>\<^verbatim>\<open>dorder_receive\<close> prints a line; a signal takes the first waiter off the wait queue.\<close>

definition message_line :: "u32 \<Rightarrow> string" where
  "message_line msg = ''dorder: '' @ hex_text msg @ [CHR 0x0A]"

lemma receive_ok:
  assumes b: "length buf = PRINT_BUF" and L: "is_list (k_mem s) (dorder_wait_queue s) ws"
  shows "\<exists>s'. dorder_receive buf msg s = Some s' \<and> console s' = console s @ message_line msg \<and>
     is_list (k_mem s') (dorder_wait_queue s') (if msg = DORDER_MSG_SIGNAL then tl ws else ws) \<and> thr s' = thr s"
proof -
  have "format_text dorder_message [VInt msg] = Some (message_line msg)"
    by (simp add: dorder_message_def message_line_def conv_text_def)
  then have p: "printk buf dorder_message [VInt msg] (console s) = Some (length (message_line msg), console s @ message_line msg)"
    using vprintk_loop_correct [of buf dorder_message "[VInt msg]" "message_line msg" 0 "console s"] b
    by (simp add: printk_def vprintk_def PRINT_BUF_def)
  let ?s1 = "s\<lparr>console := console s @ message_line msg\<rparr>"
  obtain st c where i: "irq_off ?s1 = (st, ?s1\<lparr>k_cpu := c\<rparr>)" "conditionally_enable_interrupts st c = k_cpu s"
    using irq_offE [of ?s1] by auto
  obtain l m where m: "list_pop (k_mem s) (dorder_wait_queue s) = Some (l, m)" "is_list m (dorder_wait_queue s) (tl ws)"
    using list_pop_empty [of "k_mem s" "dorder_wait_queue s"] L list_pop_correct [of "k_mem s" "dorder_wait_queue s" "hd ws" "tl ws"] by (cases "ws = []") auto
  show ?thesis using p i m L by (auto simp: dorder_receive_def kprintk_def irq_restore_def)
qed

lemma handle_delivers:
  assumes "unat (msg_head s - msg_tail s) = n" and "length buf = PRINT_BUF" and "length (msg_buffer s) = 128"
    and "is_list (k_mem s) (dorder_wait_queue s) ws"
  shows "\<exists>s' ws'. dorder_handle buf s = Some s' \<and> msg_tail s' = msg_head s \<and> msg_head s' = msg_head s \<and> length (msg_buffer s') = 128 \<and> thr s' = thr s \<and>
     console s' = console s @ concat (map message_line (messages s)) \<and>
     is_list (k_mem s') (dorder_wait_queue s') (drop (count_list (messages s) DORDER_MSG_SIGNAL) ws)"
  using assms
proof (induction n arbitrary: s ws)
  case 0
  then have e: "msg_tail s = msg_head s" by (simp add: unat_eq_zero)
  moreover from this have "messages s = []" by (simp add: messages_def)
  ultimately show ?case using 0 by (simp add: dorder_handle.simps)
next
  case (Suc n)
  then have ne: "msg_tail s \<noteq> msg_head s" by auto
  let ?msg = "msg_buffer s ! unat (msg_tail s mod 128)" and ?s1 = "s\<lparr>msg_tail := msg_tail s + 1\<rparr>"
  obtain s2 where s2: "dorder_receive buf ?msg ?s1 = Some s2" "console s2 = console s @ message_line ?msg"
    "is_list (k_mem s2) (dorder_wait_queue s2) (if ?msg = DORDER_MSG_SIGNAL then tl ws else ws)" "thr s2 = thr s"
    using receive_ok [OF Suc.prems(2), of ?s1 ws ?msg] Suc.prems(4) by auto
  note R = receive_ring [OF s2(1)]
  have ms: "messages s = ?msg # messages s2" using messages_Cons(1) [OF ne] messages_cong [of s2 ?s1] R by simp
  have "unat (msg_head s2 - msg_tail s2) = n" using messages_Cons(2) [OF ne] Suc.prems(1) R by simp
  from Suc.IH [OF this Suc.prems(2) _ s2(3)] Suc.prems(3) R obtain s' where
    "dorder_handle buf s2 = Some s'" "msg_tail s' = msg_head s" "msg_head s' = msg_head s" "length (msg_buffer s') = 128" "thr s' = thr s2"
    "console s' = console s2 @ concat (map message_line (messages s2))"
    "is_list (k_mem s') (dorder_wait_queue s') (drop (count_list (messages s2) DORDER_MSG_SIGNAL) (if ?msg = DORDER_MSG_SIGNAL then tl ws else ws))"
    by auto
  moreover have "dorder_handle buf s = dorder_handle buf s2"
    using ne s2(1) ring_index [of "msg_tail s"] Suc.prems(3) by (subst dorder_handle.simps) (simp add: MSG_BUF_SIZE_def)
  ultimately show ?case using s2(2,4) ms by (auto simp: drop_Suc)
qed

text \<open>Sending messages one after the other appends them to the queue.\<close>

abbreviation send_all :: "u32 list \<Rightarrow> ('fs, 'z) dkernel_scheme \<Rightarrow> ('fs, 'z) dkernel_scheme option" where
  "send_all \<equiv> run_calls (dorder_send 0)"

interpretation dq: call_refinement "\<lambda>s ms. ring_ok s \<and> messages s = ms" "dorder_send 0" "\<lambda>m ms. ms @ [m]" "\<lambda>m ms. length ms < 128"
  "\<lambda>s s'. \<exists>h b. s' = s\<lparr>msg_head := h, msg_buffer := b\<rparr>"
proof unfold_locales
  fix s :: "('fs, 'z) dkernel_scheme" and ms m
  assume "ring_ok s \<and> messages s = ms" and "length ms < 128"
  then show "\<exists>s'. dorder_send 0 m s = Some s' \<and> (ring_ok s' \<and> messages s' = ms @ [m]) \<and> (\<exists>h b. s' = s\<lparr>msg_head := h, msg_buffer := b\<rparr>)"
    using send_refines [of s m] by blast
next
  fix s :: "('fs, 'z) dkernel_scheme"
  have "s = s\<lparr>msg_head := msg_head s, msg_buffer := msg_buffer s\<rparr>" by simp
  then show "\<exists>h b. s = s\<lparr>msg_head := h, msg_buffer := b\<rparr>" by blast
next
  fix s s' s'' :: "('fs, 'z) dkernel_scheme"
  assume "\<exists>h b. s' = s\<lparr>msg_head := h, msg_buffer := b\<rparr>" and "\<exists>h b. s'' = s'\<lparr>msg_head := h, msg_buffer := b\<rparr>"
  then obtain h b h' b' where "s' = s\<lparr>msg_head := h, msg_buffer := b\<rparr>" "s'' = s'\<lparr>msg_head := h', msg_buffer := b'\<rparr>" by blast
  then have "s'' = s\<lparr>msg_head := h', msg_buffer := b'\<rparr>" by simp
  then show "\<exists>h b. s'' = s\<lparr>msg_head := h, msg_buffer := b\<rparr>" by blast
qed

lemma send_calls:
  "length ms + length ns \<le> 128 \<Longrightarrow> calls_ok (\<lambda>m ms. length ms < 128) (\<lambda>m ms. ms @ [m]) ns ms"
  "fold (\<lambda>m ms. ms @ [m]) ns ms = ms @ ns"
  by (induction ns arbitrary: ms) auto

lemma send_all_refines:
  assumes "ring_ok s" and "length (messages s) + length ms \<le> 128"
  shows "\<exists>s'. send_all ms s = Some s' \<and> ring_ok s' \<and> messages s' = messages s @ ms \<and> (\<exists>h b. s' = s\<lparr>msg_head := h, msg_buffer := b\<rparr>)"
proof -
  have "calls_ok (\<lambda>m ms. length ms < 128) (\<lambda>m ms. ms @ [m]) ms (messages s)" using assms(2) by (rule send_calls)
  from dq.calls_refine [OF _ this, of s] assms(1) show ?thesis unfolding send_calls(2) by blast
qed

text \<open>
  C23: the dorder driver delivers messages first in, first out. Sending up to 128 messages to an empty ring (wherever its two counters stand, also just before they wrap) never
  blocks, and the interrupt handler then returns with the ring empty again and a line on the console for each message, in the order they were sent, having taken one waiter off
  the wait queue for each signal message; no thread changes state.
\<close>
theorem dorder_fifo:
  assumes "length (msg_buffer s) = 128" and "msg_tail s = msg_head s" and "length ms \<le> 128"
    and "length buf = PRINT_BUF" and "is_list (k_mem s) (dorder_wait_queue s) ws"
  shows "\<exists>s1 s2. send_all ms s = Some s1 \<and> dorder_handle buf s1 = Some s2 \<and>
     console s2 = console s @ concat (map message_line ms) \<and> msg_tail s2 = msg_head s2 \<and> thr s2 = thr s \<and>
     is_list (k_mem s2) (dorder_wait_queue s2) (drop (count_list ms DORDER_MSG_SIGNAL) ws)"
proof -
  have "ring_ok s" "messages s = []" using assms(1,2) by (simp_all add: ring_ok_def messages_def)
  then obtain s1 h b where s1: "send_all ms s = Some s1" "ring_ok s1" "messages s1 = ms" "s1 = s\<lparr>msg_head := h, msg_buffer := b\<rparr>"
    using send_all_refines [of s ms] assms(3) by auto
  have "is_list (k_mem s1) (dorder_wait_queue s1) ws" "length (msg_buffer s1) = 128" using s1(2,4) assms(5) by (simp_all add: ring_ok_def)
  then show ?thesis using handle_delivers [OF refl assms(4), of s1 ws] s1 by auto
qed

text \<open>A ring whose counters are about to wrap, with one waiter.\<close>

definition small_dorder :: "nat set dkernel" where
  "small_dorder = kernel.extend (small_kernel\<lparr>k_mem := (\<lambda>_. 0)(100 := 8, 104 := 8, 8 := 100, 12 := 100)\<rparr>)
     \<lparr>msg_head = 0xffffffff, msg_tail = 0xffffffff, msg_buffer = replicate 128 0, dorder_wait_queue = 100, dorder_signal = 1\<rparr>"

theorem dorder_fifo_witness:
  "\<exists>s1 s2. send_all [7, 0xcafe, 9] small_dorder = Some s1 \<and> dorder_handle (replicate 32 NUL) s1 = Some s2 \<and>
     console s2 = console small_dorder @ concat (map message_line [7, 0xcafe, 9]) \<and> msg_tail s2 = msg_head s2 \<and> thr s2 = thr small_dorder \<and>
     is_list (k_mem s2) (dorder_wait_queue s2) []"
proof -
  let ?m = "(\<lambda>_. 0)(100 := 8, 104 := 8, 8 := 100, 12 := 100) :: mem"
  have "is_list ?m 100 [8]" by (simp add: is_list_def links_sep_def link_next_def link_prev_def)
  then have "is_list (k_mem small_dorder) (dorder_wait_queue small_dorder) [8]" by (simp add: small_dorder_def kernel.defs)
  from dorder_fifo [OF _ _ _ _ this, of "[7, 0xcafe, 9]" "replicate 32 NUL"]
  show ?thesis by (simp add: small_dorder_def kernel.defs PRINT_BUF_def DORDER_MSG_SIGNAL_def)
qed

text \<open>The full test compares the counters themselves: a ring that holds 128 unread messages is not full for it, and the next message is stored over the oldest one, which
  is never delivered.\<close>

theorem dorder_overrun:
  assumes "length (msg_buffer s) = 128" and "msg_head s = msg_tail s + 128"
  shows "\<exists>s'. dorder_send 0 msg s = Some s' \<and> msg_tail s' = msg_tail s \<and> msg_buffer s' ! unat (msg_tail s' mod MSG_BUF_SIZE) = msg"
proof -
  have "(msg_tail s + 128) mod 128 = msg_tail s mod 128"
    using ring_idx [of "msg_tail s" 128] by (simp add: word_unat_eq_iff unat_mod)
  then have i: "msg_head s mod MSG_BUF_SIZE = msg_tail s mod MSG_BUF_SIZE" using assms(2) by (simp add: MSG_BUF_SIZE_def)
  have "\<not> dorder_full s" using assms(2) by (simp add: dorder_full_def)
  then show ?thesis using i assms(1) ring_index [of "msg_tail s"] by (simp add: dorder_send_def)
qed

end
