(* ===== verification/Synch.thy ===== *)
theory Synch
  imports Sched
begin

text \<open>
  Read/write locks and recursive mutexes (\<^verbatim>\<open>kernel/synch/rwlock.c\<close>, \<^verbatim>\<open>kernel/synch/rmutex.c\<close>), as far as they are written: parts of the operations are still marked to be done in the
  sources. Writers exclude each other only where nothing comes between the test of a lock and its setting; the code does not see to that, and a run with two writers shows it. The last section
  says what the unfinished parts mean for the callers.
\<close>

section \<open>Structures\<close>

text \<open>The wait queues are list heads inside the structures.\<close>

datatype rwlock_state = RWLOCK_UNLOCKED | RWLOCK_LOCKED_READ | RWLOCK_LOCKED_WRITE

record rwlock =
  rw_state :: rwlock_state
  num_readers :: u32
  num_read_waiting :: u32
  num_write_waiting :: u32

record rmutex =
  rm_owner :: u32
  rm_num_locked :: u32
  rm_num_waiting :: u32

definition read_wait_queue :: "u32 \<Rightarrow> u32" where "read_wait_queue rwl = rwl + 16"
definition write_wait_queue :: "u32 \<Rightarrow> u32" where "write_wait_queue rwl = rwl + 24"
definition rmutex_wait_queue :: "u32 \<Rightarrow> u32" where "rmutex_wait_queue mtx = mtx + 12"

record 'fs skernel = "'fs kernel" +
  rwls :: "u32 \<Rightarrow> rwlock"
  rmtxs :: "u32 \<Rightarrow> rmutex"

definition upd_rwlock :: "u32 \<Rightarrow> (rwlock \<Rightarrow> rwlock) \<Rightarrow> ('fs, 'z) skernel_scheme \<Rightarrow> ('fs, 'z) skernel_scheme" where
  "upd_rwlock l f s = s\<lparr>rwls := (rwls s)(l := f (rwls s l))\<rparr>"

definition upd_rmutex :: "u32 \<Rightarrow> (rmutex \<Rightarrow> rmutex) \<Rightarrow> ('fs, 'z) skernel_scheme \<Rightarrow> ('fs, 'z) skernel_scheme" where
  "upd_rmutex x f s = s\<lparr>rmtxs := (rmtxs s)(x := f (rmtxs s x))\<rparr>"

section \<open>Read/write locks\<close>

text \<open>The operations run to the end or to the switch to another thread; \<open>None\<close> is a panic. \<^verbatim>\<open>rwlock_init\<close> does not set the state and the counters yet.\<close>

definition rwlock_init :: "u32 \<Rightarrow> ('fs, 'z) skernel_scheme \<Rightarrow> ('fs, 'z) skernel_scheme option" where
  "rwlock_init rwl s = do {
     kassert (rwl \<noteq> NULL);
     m1 \<leftarrow> list_init (k_mem s) (read_wait_queue rwl);
     m2 \<leftarrow> list_init m1 (write_wait_queue rwl);
     Some (s\<lparr>k_mem := m2\<rparr>)
   }"

definition rwlock_destroy :: "u32 \<Rightarrow> ('fs, 'z) skernel_scheme \<Rightarrow> ('fs, 'z) skernel_scheme option" where
  "rwlock_destroy rwl s = do {
     kassert (rwl \<noteq> NULL);
     if rw_state (rwls s rwl) \<noteq> RWLOCK_UNLOCKED then None else Some s
   }"

definition rwlock_wakeup :: "u32 \<Rightarrow> u32 \<Rightarrow> ('fs, 'z) skernel_scheme \<Rightarrow> ('fs, 'z) skernel_scheme" where
  "rwlock_wakeup wait_queue num_waiting s = s"

text \<open>\<^verbatim>\<open>rwlock_write_lock\<close> has two steps, because interrupts stay enabled between them (a comment in the source marks that to be done): the test of its loop, after which the thread has
  found the lock free, or waits in the queue and is back at the test once it runs again; and setting the state. A call that nobody interrupts there is their composition.\<close>

datatype lock_step = Lock_Free | Lock_Acquired | Lock_Waits

definition rwlock_write_test :: "u32 \<Rightarrow> ('fs, 'z) skernel_scheme \<Rightarrow> (lock_step \<times> ('fs, 'z) skernel_scheme) option" where
  "rwlock_write_test rwl s = do {
     kassert (rwl \<noteq> NULL);
     if rw_state (rwls s rwl) \<noteq> RWLOCK_UNLOCKED then do {
       let (thread, s1) = thread_get_current s;
       m \<leftarrow> list_append (k_mem s1) (write_wait_queue rwl) (wait_queue_link thread);
       let s2 = upd_rwlock rwl (\<lambda>l. l\<lparr>num_write_waiting := num_write_waiting l + 1\<rparr>) (s1\<lparr>k_mem := m\<rparr>);
       (switched, s3) \<leftarrow> thread_suspend s2;
       Some (Lock_Waits, s3)
     }
     else Some (Lock_Free, s)
   }"

definition rwlock_write_set :: "u32 \<Rightarrow> ('fs, 'z) skernel_scheme \<Rightarrow> ('fs, 'z) skernel_scheme" where
  "rwlock_write_set rwl s = upd_rwlock rwl (\<lambda>l. l\<lparr>rw_state := RWLOCK_LOCKED_WRITE\<rparr>) s"

definition rwlock_write_lock :: "u32 \<Rightarrow> ('fs, 'z) skernel_scheme \<Rightarrow> (lock_step \<times> ('fs, 'z) skernel_scheme) option" where
  "rwlock_write_lock rwl s = do {
     (r, s1) \<leftarrow> rwlock_write_test rwl s;
     if r = Lock_Free then Some (Lock_Acquired, rwlock_write_set rwl s1) else Some (r, s1)
   }"

definition rwlock_write_unlock :: "u32 \<Rightarrow> ('fs, 'z) skernel_scheme \<Rightarrow> ('fs, 'z) skernel_scheme option" where
  "rwlock_write_unlock rwl s = do {
     kassert (rwl \<noteq> NULL);
     if rw_state (rwls s rwl) \<noteq> RWLOCK_LOCKED_WRITE then None
     else Some (upd_rwlock rwl (\<lambda>l. l\<lparr>rw_state := RWLOCK_UNLOCKED\<rparr>) s)
   }"

definition rwlock_read_lock :: "u32 \<Rightarrow> ('fs, 'z) skernel_scheme \<Rightarrow> ('fs, 'z) skernel_scheme" where
  "rwlock_read_lock rwl s = s"

definition rwlock_read_unlock :: "u32 \<Rightarrow> ('fs, 'z) skernel_scheme \<Rightarrow> ('fs, 'z) skernel_scheme option" where
  "rwlock_read_unlock rwl s = do {
     kassert (rwl \<noteq> NULL);
     if rw_state (rwls s rwl) \<noteq> RWLOCK_LOCKED_READ then None
     else do {
       kassert (num_readers (rwls s rwl) > 0);
       let s1 = upd_rwlock rwl (\<lambda>l. l\<lparr>num_readers := num_readers l - 1\<rparr>) s;
       if num_readers (rwls s1 rwl) = 0 then
         (let s2 = upd_rwlock rwl (\<lambda>l. l\<lparr>rw_state := RWLOCK_UNLOCKED\<rparr>) s1
          in Some (rwlock_wakeup (write_wait_queue rwl) (num_write_waiting (rwls s2 rwl)) s2))
       else Some s1
     }
   }"

section \<open>Recursive mutexes\<close>

definition rmutex_init :: "u32 \<Rightarrow> ('fs, 'z) skernel_scheme \<Rightarrow> ('fs, 'z) skernel_scheme option" where
  "rmutex_init mtx s = do {
     kassert (mtx \<noteq> NULL);
     let s1 = upd_rmutex mtx (\<lambda>x. x\<lparr>rm_owner := NULL, rm_num_locked := 0, rm_num_waiting := 0\<rparr>) s;
     m \<leftarrow> list_init (k_mem s1) (rmutex_wait_queue mtx);
     Some (s1\<lparr>k_mem := m\<rparr>)
   }"

definition rmutex_destroy :: "u32 \<Rightarrow> ('fs, 'z) skernel_scheme \<Rightarrow> ('fs, 'z) skernel_scheme option" where
  "rmutex_destroy mtx s = do {
     kassert (mtx \<noteq> NULL);
     if rm_owner (rmtxs s mtx) \<noteq> NULL then None else Some s
   }"

definition rmutex_lock :: "u32 \<Rightarrow> ('fs, 'z) skernel_scheme \<Rightarrow> ('fs, 'z) skernel_scheme option" where
  "rmutex_lock mtx s = do {
     kassert (mtx \<noteq> NULL);
     if rm_owner (rmtxs s mtx) \<noteq> NULL then
       (let (thread, s1) = thread_get_current s
        in if rm_owner (rmtxs s1 mtx) = thread then Some s1
           else Some (upd_rmutex mtx (\<lambda>x. x\<lparr>rm_num_waiting := rm_num_waiting x + 1\<rparr>) s1))
     else
       (let (thread, s1) = thread_get_current s
        in Some (upd_rmutex mtx (\<lambda>x. x\<lparr>rm_owner := thread, rm_num_locked := 1\<rparr>) s1))
   }"

definition rmutex_unlock :: "u32 \<Rightarrow> ('fs, 'z) skernel_scheme \<Rightarrow> ('fs, 'z) skernel_scheme option" where
  "rmutex_unlock mtx s = do {
     kassert (mtx \<noteq> NULL);
     if rm_owner (rmtxs s mtx) \<noteq> NULL then do {
       kassert (rm_num_locked (rmtxs s mtx) > 0);
       let s1 = upd_rmutex mtx (\<lambda>x. x\<lparr>rm_num_locked := rm_num_locked x - 1\<rparr>) s;
       if rm_num_locked (rmtxs s1 mtx) = 0 then do {
         (link, m) \<leftarrow> list_pop (k_mem s1) (rmutex_wait_queue mtx);
         let s2 = s1\<lparr>k_mem := m\<rparr>;
         if link \<noteq> NULL then do {
           kassert (rm_num_waiting (rmtxs s2 mtx) > 0);
           Some (upd_rmutex mtx (\<lambda>x. x\<lparr>rm_num_waiting := rm_num_waiting x - 1\<rparr>) s2)
         }
         else Some s2
       }
       else Some s1
     }
     else Some s
   }"

section \<open>Writers that are not interrupted\<close>

text \<open>The runs of threads that use a lock as writers and are not interrupted between the test and the setting of its state, with the set of the threads inside their critical sections. Everything else the kernel does leaves the lock
  alone.\<close>

inductive writer_step :: "u32 \<Rightarrow> ('fs, 'z) skernel_scheme \<times> u32 set \<Rightarrow> ('fs, 'z) skernel_scheme \<times> u32 set \<Rightarrow> bool" for l where
  acquire: "rwlock_write_lock l s = Some (Lock_Acquired, s') \<Longrightarrow> writer_step l (s, hs) (s', insert (cur s) hs)"
| wait: "rwlock_write_lock l s = Some (Lock_Waits, s') \<Longrightarrow> writer_step l (s, hs) (s', hs)"
| release: "cur s \<in> hs \<Longrightarrow> rwlock_write_unlock l s = Some s' \<Longrightarrow> writer_step l (s, hs) (s', hs - {cur s})"
| other: "rwls s' l = rwls s l \<Longrightarrow> writer_step l (s, hs) (s', hs)"

definition writers_inv :: "u32 \<Rightarrow> ('fs, 'z) skernel_scheme \<times> u32 set \<Rightarrow> bool" where
  "writers_inv l c \<longleftrightarrow> (case rw_state (rwls (fst c) l) of RWLOCK_UNLOCKED \<Rightarrow> snd c = {} | RWLOCK_LOCKED_WRITE \<Rightarrow> (\<exists>t. snd c = {t}) | _ \<Rightarrow> False)"

lemma more_rwls: "kernel.more s' = kernel.more s \<Longrightarrow> rwls s' = rwls s"
  by (cases s; cases s') (simp add: kernel.defs)

lemma write_lock_cases:
  assumes "rwlock_write_lock l s = Some (r, s')"
  shows "r = Lock_Acquired \<Longrightarrow> rw_state (rwls s l) = RWLOCK_UNLOCKED \<and> s' = upd_rwlock l (\<lambda>l. l\<lparr>rw_state := RWLOCK_LOCKED_WRITE\<rparr>) s"
    and "r = Lock_Waits \<Longrightarrow> rw_state (rwls s' l) = rw_state (rwls s l)"
  using assms
  by (auto simp: rwlock_write_lock_def rwlock_write_test_def rwlock_write_set_def thread_get_current_eq upd_rwlock_def kassert_def split: if_splits elim!: bind_eq_SomeE dest!: more_rwls [OF suspend_more])

lemma write_unlock_state:
  assumes "rwlock_write_unlock l s = Some s'"
  shows "rw_state (rwls s l) = RWLOCK_LOCKED_WRITE \<and> s' = upd_rwlock l (\<lambda>l. l\<lparr>rw_state := RWLOCK_UNLOCKED\<rparr>) s"
  using assms by (auto simp: rwlock_write_unlock_def kassert_def split: if_splits elim!: bind_eq_SomeE)

lemma writers_inv_step: "writer_step l c c' \<Longrightarrow> writers_inv l c \<Longrightarrow> writers_inv l c'"
proof (induction rule: writer_step.induct)
  case (acquire s s' hs)
  then show ?case using write_lock_cases(1) [OF acquire(1)] by (auto simp: writers_inv_def upd_rwlock_def)
next
  case (wait s s' hs)
  then show ?case using write_lock_cases(2) [OF wait(1)] by (auto simp: writers_inv_def split: rwlock_state.splits)
next
  case (release s hs s')
  from write_unlock_state [OF release(2)] release(1,3) have "hs = {cur s}" "rw_state (rwls s' l) = RWLOCK_UNLOCKED"
    by (auto simp: writers_inv_def upd_rwlock_def)
  then show ?case by (simp add: writers_inv_def)
qed (auto simp: writers_inv_def split: rwlock_state.splits)

interpretation rw: step_invariant "writer_step l" "writers_inv l" for l
  using writers_inv_step by unfold_locales

text \<open>If no thread is interrupted between the test and the setting, a read/write lock admits one writer at a time: in every run of threads that acquire and release an unlocked lock as
  writers, at most one thread is inside its critical section, and that thread can release the lock. On a kernel with interrupts this is a condition on the callers.\<close>

theorem one_writer:
  fixes s :: "('fs, 'z) skernel_scheme"
  assumes "(writer_step l)\<^sup>*\<^sup>* (s0, {}) (s, hs)" and "rw_state (rwls s0 l) = RWLOCK_UNLOCKED" and "l \<noteq> NULL" and "t \<in> hs"
  shows "hs = {t} \<and> (\<exists>s'. rwlock_write_unlock l s = Some s' \<and> rw_state (rwls s' l) = RWLOCK_UNLOCKED)"
proof -
  have "writers_inv l (s, hs)"
    using rw.reachable_inv [OF assms(1)] assms(2) by (simp add: writers_inv_def [of l "(s0, {})"])
  then show ?thesis using assms(3,4)
    by (auto simp: writers_inv_def rwlock_write_unlock_def upd_rwlock_def split: rwlock_state.splits)
qed

definition small_skernel :: "nat set skernel" where
  "small_skernel = kernel.extend small_kernel
     \<lparr>rwls = (\<lambda>_. \<lparr>rw_state = RWLOCK_UNLOCKED, num_readers = 0, num_read_waiting = 0, num_write_waiting = 0\<rparr>),
      rmtxs = (\<lambda>_. \<lparr>rm_owner = 0, rm_num_locked = 0, rm_num_waiting = 0\<rparr>)\<rparr>"

theorem one_writer_witness:
  "\<exists>s s'. (writer_step 0x80095000)\<^sup>*\<^sup>* (small_skernel, {}) (s, {0x80010000}) \<and> rwlock_write_unlock 0x80095000 s = Some s'"
proof -
  let ?s = "upd_rwlock 0x80095000 (\<lambda>l. l\<lparr>rw_state := RWLOCK_LOCKED_WRITE\<rparr>) small_skernel"
  have c: "cur small_skernel = 0x80010000" "rw_state (rwls small_skernel 0x80095000) = RWLOCK_UNLOCKED"
    by (simp_all add: small_skernel_def kernel.defs small_kernel_def)
  then have "rwlock_write_lock 0x80095000 small_skernel = Some (Lock_Acquired, ?s)" by (simp add: rwlock_write_lock_def rwlock_write_test_def rwlock_write_set_def)
  from writer_step.acquire [OF this, of "{}"] have r: "(writer_step 0x80095000)\<^sup>*\<^sup>* (small_skernel, {}) (?s, {0x80010000})" using c by auto
  from one_writer [OF r c(2), of "0x80010000"] r show ?thesis by auto
qed

section \<open>Writers that are interrupted\<close>

text \<open>The runs in which a thread may lose the processor between the test and the setting: also the threads that have found the lock free and have not set its state yet are kept.\<close>

inductive race_step :: "u32 \<Rightarrow> ('fs, 'z) skernel_scheme \<times> u32 set \<times> u32 set \<Rightarrow> ('fs, 'z) skernel_scheme \<times> u32 set \<times> u32 set \<Rightarrow> bool" for l where
  test_free: "rwlock_write_test l s = Some (Lock_Free, s') \<Longrightarrow> race_step l (s, P, hs) (s', insert (cur s) P, hs)"
| test_wait: "rwlock_write_test l s = Some (Lock_Waits, s') \<Longrightarrow> race_step l (s, P, hs) (s', P, hs)"
| set: "cur s \<in> P \<Longrightarrow> race_step l (s, P, hs) (rwlock_write_set l s, P - {cur s}, insert (cur s) hs)"
| release: "cur s \<in> hs \<Longrightarrow> rwlock_write_unlock l s = Some s' \<Longrightarrow> race_step l (s, P, hs) (s', P, hs - {cur s})"
| switch: "race_step l (s, P, hs) (thread_switch n s, P, hs)"

text \<open>Two writers get in: the first one finds the lock free and loses the processor, the second one finds it free and sets it, and so does the first one when it runs again.\<close>

lemma two_writers:
  fixes s :: "('fs, 'z) skernel_scheme"
  assumes l: "l \<noteq> NULL" "rw_state (rwls s l) = RWLOCK_UNLOCKED" and False: "t \<noteq> cur s"
  shows "\<exists>s'. (race_step l)\<^sup>*\<^sup>* (s, {}, {}) (s', {}, {cur s, t})"
proof -
  let ?s1 = "thread_switch t s" and ?s2 = "rwlock_write_set l (thread_switch t s)"
  have c: "cur ?s1 = t" "rwls ?s1 = rwls s" "cur ?s2 = t" "cur (thread_switch (cur s) ?s2) = cur s"
    by (simp_all add: rwlock_write_set_def upd_rwlock_def more_rwls [OF switch_more])
  let ?R = "(race_step l)\<^sup>*\<^sup>*"
  have "?R (s, {}, {}) (s, {cur s}, {})" using race_step.test_free [of l s s "{}" "{}"] l by (intro r_into_rtranclp) (simp add: rwlock_write_test_def)
  also have "?R (s, {cur s}, {}) (?s1, {cur s}, {})" by (rule r_into_rtranclp, rule race_step.switch)
  also have "?R (?s1, {cur s}, {}) (?s1, {t, cur s}, {})" using race_step.test_free [of l ?s1 ?s1 "{cur s}" "{}"] l c by (intro r_into_rtranclp) (simp add: rwlock_write_test_def)
  also have "?R (?s1, {t, cur s}, {}) (?s2, {cur s}, {t})" using race_step.set [of ?s1 "{t, cur s}" l "{}"] c False by (intro r_into_rtranclp) (simp add: insert_Diff_if)
  also have "?R (?s2, {cur s}, {t}) (thread_switch (cur s) ?s2, {cur s}, {t})" by (rule r_into_rtranclp, rule race_step.switch)
  also have "?R (thread_switch (cur s) ?s2, {cur s}, {t}) (rwlock_write_set l (thread_switch (cur s) ?s2), {}, {cur s, t})"
    using race_step.set [of "thread_switch (cur s) ?s2" "{cur s}" l "{t}"] c by (intro r_into_rtranclp) simp
  finally show ?thesis by blast
qed

section \<open>What is missing\<close>

text \<open>Releasing a lock does not wake anybody, so a writer that waits sleeps on.\<close>

theorem write_unlock_wakes_nobody:
  assumes "rwlock_write_unlock l s = Some s'"
  shows "thr s' = thr s \<and> k_mem s' = k_mem s"
  using write_unlock_state [OF assms] by (simp add: upd_rwlock_def)

text \<open>A reader that releases the lock it has locked panics.\<close>

theorem read_lock_unlock_panics:
  assumes "rw_state (rwls s l) = RWLOCK_UNLOCKED"
  shows "rwlock_read_unlock l (rwlock_read_lock l s) = None"
  using assms by (simp add: rwlock_read_unlock_def rwlock_read_lock_def)

text \<open>A recursive mutex lets a second thread in, and stays owned after its only owner has released it, so that it cannot be destroyed.\<close>

theorem rmutex_no_exclusion:
  assumes "x \<noteq> NULL" and "rm_owner (rmtxs s x) = t" and "t \<noteq> NULL" and "cur s \<noteq> t"
  shows "\<exists>s'. rmutex_lock x s = Some s' \<and> cur s' = cur s \<and> thr s' = thr s \<and> rm_owner (rmtxs s' x) = t"
  using assms by (simp add: rmutex_lock_def thread_get_current_eq upd_rmutex_def)

theorem rmutex_stays_owned:
  assumes "x \<noteq> NULL" and "cur s \<noteq> NULL" and "is_list (k_mem s) (rmutex_wait_queue x) []" and "rm_owner (rmtxs s x) = NULL"
  shows "\<exists>s1 s2. rmutex_lock x s = Some s1 \<and> rmutex_unlock x s1 = Some s2 \<and> rmutex_destroy x s2 = None"
  using assms list_pop_empty [of "k_mem s" "rmutex_wait_queue x"]
  by (simp add: rmutex_lock_def rmutex_unlock_def rmutex_destroy_def thread_get_current_eq upd_rmutex_def)

end
