(* ===== verification/Mutex.thy ===== *)
theory Mutex
  imports Sched
begin

text \<open>
  Mutexes (\<^verbatim>\<open>kernel/synch/mutex.c\<close>), condition variables (\<^verbatim>\<open>kernel/synch/condvar.c\<close>) and the disk driver (\<^verbatim>\<open>kernel/drivers/disk.c\<close>), as far as they are written. The last section says what
  threads get from the unfinished mutexes.
\<close>

section \<open>Mutexes\<close>

text \<open>The source works on the wait queue with the operations of \<^verbatim>\<open>adt/plist.h\<close>, which the repository does not have: they are arguments, and the queue is of a type \<open>'q\<close>.\<close>

record 'q mutex =
  mx_owner :: u32
  mx_num_waiting :: u32
  mx_wait_queue :: 'q

record ('q, 'fs) mkernel = "'fs kernel" +
  mtxs :: "u32 \<Rightarrow> 'q mutex"

definition upd_mutex :: "u32 \<Rightarrow> ('q mutex \<Rightarrow> 'q mutex) \<Rightarrow> ('q, 'fs, 'z) mkernel_scheme \<Rightarrow> ('q, 'fs, 'z) mkernel_scheme" where
  "upd_mutex x f s = s\<lparr>mtxs := (mtxs s)(x := f (mtxs s x))\<rparr>"

definition mutex_init :: "('q \<Rightarrow> 'q) \<Rightarrow> u32 \<Rightarrow> ('q, 'fs, 'z) mkernel_scheme \<Rightarrow> ('q, 'fs, 'z) mkernel_scheme option" where
  "mutex_init plist_init mtx s = do {
     kassert (mtx \<noteq> NULL);
     Some (upd_mutex mtx (\<lambda>x. x\<lparr>mx_owner := NULL, mx_num_waiting := 0, mx_wait_queue := plist_init (mx_wait_queue x)\<rparr>) s)
   }"

definition mutex_destroy :: "u32 \<Rightarrow> ('q, 'fs, 'z) mkernel_scheme \<Rightarrow> ('q, 'fs, 'z) mkernel_scheme option" where
  "mutex_destroy mtx s = do {
     kassert (mtx \<noteq> NULL);
     if mx_owner (mtxs s mtx) \<noteq> NULL then None else Some s
   }"

definition mutex_lock :: "u32 \<Rightarrow> ('q, 'fs, 'z) mkernel_scheme \<Rightarrow> ('q, 'fs, 'z) mkernel_scheme option" where
  "mutex_lock mtx s = do {
     kassert (mtx \<noteq> NULL);
     if mx_owner (mtxs s mtx) \<noteq> NULL then
       Some (upd_mutex mtx (\<lambda>x. x\<lparr>mx_num_waiting := mx_num_waiting x + 1\<rparr>) s)
     else
       (let (thread, s1) = thread_get_current s
        in Some (upd_mutex mtx (\<lambda>x. x\<lparr>mx_owner := thread\<rparr>) s1))
   }"

definition mutex_unlock :: "('q \<Rightarrow> bool) \<Rightarrow> ('q \<Rightarrow> u32 \<times> 'q) \<Rightarrow> u32 \<Rightarrow> ('q, 'fs, 'z) mkernel_scheme \<Rightarrow> ('q, 'fs, 'z) mkernel_scheme option" where
  "mutex_unlock plist_empty plist_pop mtx s = do {
     kassert (mtx \<noteq> NULL);
     if mx_owner (mtxs s mtx) \<noteq> NULL then
       (if \<not> plist_empty (mx_wait_queue (mtxs s mtx)) then do {
          kassert (mx_num_waiting (mtxs s mtx) > 0);
          let (item, q) = plist_pop (mx_wait_queue (mtxs s mtx));
          let s1 = upd_mutex mtx (\<lambda>x. x\<lparr>mx_wait_queue := q\<rparr>) s;
          Some (upd_mutex mtx (\<lambda>x. x\<lparr>mx_num_waiting := mx_num_waiting x - 1\<rparr>) s1)
        }
        else Some s)
     else Some s
   }"

section \<open>Condition variables and the disk\<close>

text \<open>None of these has a body yet. \<^verbatim>\<open>disk_init\<close> is with the boot sequence.\<close>

definition condvar_init :: "u32 \<Rightarrow> ('q, 'fs, 'z) mkernel_scheme \<Rightarrow> ('q, 'fs, 'z) mkernel_scheme" where
  "condvar_init cvar s = s"

definition condvar_destroy :: "u32 \<Rightarrow> ('q, 'fs, 'z) mkernel_scheme \<Rightarrow> ('q, 'fs, 'z) mkernel_scheme" where
  "condvar_destroy cvar s = s"

definition condvar_wakeup :: "u32 \<Rightarrow> ('q, 'fs, 'z) mkernel_scheme \<Rightarrow> ('q, 'fs, 'z) mkernel_scheme" where
  "condvar_wakeup cvar s = s"

definition condvar_signal :: "u32 \<Rightarrow> ('q, 'fs, 'z) mkernel_scheme \<Rightarrow> ('q, 'fs, 'z) mkernel_scheme" where
  "condvar_signal cvar s = s"

definition condvar_broadcast :: "u32 \<Rightarrow> ('q, 'fs, 'z) mkernel_scheme \<Rightarrow> ('q, 'fs, 'z) mkernel_scheme" where
  "condvar_broadcast cvar s = s"

definition condvar_wait :: "u32 \<Rightarrow> u32 \<Rightarrow> ('q, 'fs, 'z) mkernel_scheme \<Rightarrow> ('q, 'fs, 'z) mkernel_scheme" where
  "condvar_wait cvar mtx s = s"

definition disk_get_nblocks :: "u32 \<Rightarrow> ('fs, 'z) kernel_scheme \<Rightarrow> u32 \<times> ('fs, 'z) kernel_scheme" where
  "disk_get_nblocks nblocks s = (EOK, s)"

definition disk_read :: "u32 \<Rightarrow> u32 \<Rightarrow> ('fs, 'z) kernel_scheme \<Rightarrow> u32 \<times> ('fs, 'z) kernel_scheme" where
  "disk_read blk data s = (EOK, s)"

definition disk_write :: "u32 \<Rightarrow> u32 \<Rightarrow> ('fs, 'z) kernel_scheme \<Rightarrow> u32 \<times> ('fs, 'z) kernel_scheme" where
  "disk_write blk data s = (EOK, s)"

section \<open>What a mutex does\<close>

text \<open>The runs of threads that use a mutex and condition variables with it. Everything else the kernel does leaves the mutex alone. The number counts the calls of \<^verbatim>\<open>mutex_lock\<close>.\<close>

inductive mutex_step :: "('q \<Rightarrow> bool) \<Rightarrow> ('q \<Rightarrow> u32 \<times> 'q) \<Rightarrow> u32 \<Rightarrow> ('q, 'fs, 'z) mkernel_scheme \<times> nat \<Rightarrow> ('q, 'fs, 'z) mkernel_scheme \<times> nat \<Rightarrow> bool"
  for pe pp x where
  lock: "mutex_lock x s = Some s' \<Longrightarrow> mutex_step pe pp x (s, n) (s', Suc n)"
| unlock: "mutex_unlock pe pp x s = Some s' \<Longrightarrow> mutex_step pe pp x (s, n) (s', n)"
| wait: "mutex_step pe pp x (s, n) (condvar_wait cvar x s, n)"
| signal: "mutex_step pe pp x (s, n) (condvar_signal cvar s, n)"
| other: "mtxs s' x = mtxs s x \<Longrightarrow> mutex_step pe pp x (s, n) (s', n)"

definition owned_inv :: "('q \<Rightarrow> bool) \<Rightarrow> u32 \<Rightarrow> u32 \<Rightarrow> ('q, 'fs, 'z) mkernel_scheme \<times> nat \<Rightarrow> bool" where
  "owned_inv pe x t c \<longleftrightarrow> x \<noteq> NULL \<and> t \<noteq> NULL \<and> mx_owner (mtxs (fst c) x) = t \<and> pe (mx_wait_queue (mtxs (fst c) x)) \<and> mx_num_waiting (mtxs (fst c) x) + 1 = of_nat (snd c)"

lemma owned_lock:
  assumes "x \<noteq> NULL" and "mx_owner (mtxs s x) \<noteq> NULL"
  shows "mutex_lock x s = Some (upd_mutex x (\<lambda>x. x\<lparr>mx_num_waiting := mx_num_waiting x + 1\<rparr>) s)"
  using assms by (simp add: mutex_lock_def)

lemma owned_unlock:
  assumes "x \<noteq> NULL" and "pe (mx_wait_queue (mtxs s x))"
  shows "mutex_unlock pe pp x s = Some s"
  using assms by (simp add: mutex_unlock_def)

lemma owned_inv_step:
  assumes i: "owned_inv pe x t c" and st: "mutex_step pe pp x c c'"
  shows "owned_inv pe x t c'"
proof -
  have x: "x \<noteq> NULL" "t \<noteq> NULL" using i by (simp_all add: owned_inv_def)
  show ?thesis using st
  proof cases
    case (lock s s' n)
    have "mx_owner (mtxs s x) \<noteq> NULL" using i x lock by (simp add: owned_inv_def)
    from owned_lock [OF x(1) this] lock have "s' = upd_mutex x (\<lambda>x. x\<lparr>mx_num_waiting := mx_num_waiting x + 1\<rparr>) s" by simp
    then show ?thesis using i lock by (simp add: owned_inv_def upd_mutex_def)
  next
    case (unlock s s' n)
    then show ?thesis using i owned_unlock [OF x(1), of pe s pp] by (simp add: owned_inv_def)
  qed (use i in \<open>simp_all add: owned_inv_def condvar_wait_def condvar_signal_def\<close>)
qed

interpretation mxi: step_invariant "mutex_step pe pp x" "owned_inv pe x t" for pe :: "'q \<Rightarrow> bool" and pp x t
  using owned_inv_step by unfold_locales

text \<open>As far as it is written, a mutex records its first owner and never lets go of it: in every run after an initialized mutex was locked for the first time, it is owned by that
  thread, all other calls of \<^verbatim>\<open>mutex_lock\<close> returned at once and are counted as waiting, \<^verbatim>\<open>mutex_unlock\<close> returns and changes nothing, and \<^verbatim>\<open>mutex_destroy\<close> panics. The
  queue operations may be any for which a new queue is empty.\<close>

theorem mutex_keeps_first_owner:
  fixes s :: "('q, 'fs, 'z) mkernel_scheme"
  assumes x: "x \<noteq> NULL" and pi: "\<And>q. plist_empty (plist_init q)" and i: "mutex_init plist_init x s = Some s0" and l: "mutex_lock x s0 = Some s1" and t: "cur s0 \<noteq> NULL"
    and run: "(mutex_step plist_empty plist_pop x)\<^sup>*\<^sup>* (s1, 1) (s2, n)"
  shows "mx_owner (mtxs s2 x) = cur s0 \<and> mx_num_waiting (mtxs s2 x) = of_nat n - 1 \<and> (\<exists>s3. mutex_lock x s2 = Some s3 \<and> cur s3 = cur s2 \<and> thr s3 = thr s2) \<and>
     mutex_unlock plist_empty plist_pop x s2 = Some s2 \<and> mutex_destroy x s2 = None"
proof -
  have "owned_inv plist_empty x (cur s0) (s1, 1)"
    using x i l pi t by (auto simp: mutex_init_def mutex_lock_def thread_get_current_eq upd_mutex_def owned_inv_def)
  then have I: "owned_inv plist_empty x (cur s0) (s2, n)" by (rule mxi.reachable_inv [OF run])
  then have o: "mx_owner (mtxs s2 x) = cur s0" by (simp add: owned_inv_def)
  have "mx_num_waiting (mtxs s2 x) + 1 = of_nat n" using I by (simp add: owned_inv_def)
  then have "mx_num_waiting (mtxs s2 x) = of_nat n - 1" by (simp add: eq_diff_eq)
  then show ?thesis using o t x I owned_unlock [OF x, of plist_empty s2 plist_pop]
    by (simp add: owned_lock mutex_destroy_def owned_inv_def) (simp add: upd_mutex_def)
qed

end
