(* ===== verification/Cpu_Fields.thy ===== *)
theory Cpu_Fields
  imports Cpu
begin

text \<open>
  What the register descriptions of \<^verbatim>\<open>shared.h\<close> and the interrupt brackets of \<^verbatim>\<open>c.h\<close> guarantee.
\<close>

unbundle bit_operations_syntax

text \<open>The single bits of the interrupt mask and of the pending interrupts.\<close>

definition CP0_STATUS_IM_MASKS :: "u32 list" where
  "CP0_STATUS_IM_MASKS = [0x00000100, 0x00000200, 0x00000400, 0x00000800, 0x00001000, 0x00002000, 0x00004000, 0x00008000]"

definition CP0_CAUSE_IP_MASKS :: "u32 list" where
  "CP0_CAUSE_IP_MASKS = [0x00000100, 0x00000200, 0x00000400, 0x00000800, 0x00001000, 0x00002000, 0x00004000, 0x00008000]"

definition CP0_CAUSE_IP_SHIFTS :: "nat list" where
  "CP0_CAUSE_IP_SHIFTS = [8, 9, 10, 11, 12, 13, 14, 15]"

definition CP0_CAUSE_CE_CU :: "u32 list" where
  "CP0_CAUSE_CE_CU = [0x10000000, 0x20000000, 0x30000000]"

definition CP0_PAGEMASK_SIZES :: "u32 list" where
  "CP0_PAGEMASK_SIZES = map (push_bit 13) [0x000, 0x003, 0x00f, 0x03f, 0x0ff, 0x3ff, 0xfff]"

text \<open>The registers with all their fields (the field CU is the union of CU0 to CU3).\<close>

definition cp0_tables :: "(u32 \<times> nat) list list" where
  "cp0_tables = [
     map CP0_INDEX [INDEX_INDEX, INDEX_RES, INDEX_P],
     map CP0_RANDOM [RANDOM_RANDOM, RANDOM_RES],
     map CP0_STATUS [STATUS_IE, STATUS_EXL, STATUS_ERL, STATUS_KSU, STATUS_UX, STATUS_SX, STATUS_KX, STATUS_IM,
       STATUS_DE, STATUS_CE, STATUS_CH, STATUS_RES1, STATUS_SR, STATUS_TS, STATUS_BEV, STATUS_RES2, STATUS_RE,
       STATUS_FR, STATUS_RP, STATUS_CU0, STATUS_CU1, STATUS_CU2, STATUS_CU3],
     map CP0_ENTRYHI [ENTRYHI_ASID, ENTRYHI_RES1, ENTRYHI_VPN2],
     map CP0_ENTRYLO [ENTRYLO_G, ENTRYLO_V, ENTRYLO_D, ENTRYLO_C, ENTRYLO_PFN, ENTRYLO_RES1],
     map CP0_CONTEXT [CONTEXT_RES1, CONTEXT_BADVPN2, CONTEXT_PTEBASE],
     map CP0_PAGEMASK [PAGEMASK_RES1, PAGEMASK_MASK, PAGEMASK_RES2],
     map CP0_CAUSE [CAUSE_RES1, CAUSE_EXCCODE, CAUSE_RES2, CAUSE_IP, CAUSE_RES3, CAUSE_CE, CAUSE_RES4, CAUSE_BD]]"

text \<open>A register put together again from the values its accessors return.\<close>

definition fields_join :: "(u32 \<times> nat) list \<Rightarrow> u32 \<Rightarrow> u32" where
  "fields_join fs R = foldr (\<lambda>f acc. push_bit (snd f) (field_get f R) OR acc) fs 0"

lemma field_put_get:
  assumes "field_ok f"
  shows "push_bit (snd f) (field_get f R) = R AND fst f"
proof -
  have "snd f \<le> n" if "bit (fst f) n" for n
    using assms that unfolding field_ok_def by (metis bit_push_bit_iff)
  then show ?thesis
    unfolding field_get_def by (intro bit_eqI) (auto simp: bit_simps)
qed

lemma partition_join:
  assumes "masks_partition (map fst fs) acc" "\<forall>f \<in> set fs. field_ok f"
  shows "fields_join fs R OR (R AND acc) = R"
  using assms
proof (induction fs arbitrary: acc)
  case Nil
  then show ?case by (simp add: fields_join_def)
next
  case (Cons f fs)
  then have "fields_join fs R OR (R AND (acc OR fst f)) = R" by simp
  moreover have "R AND (acc OR fst f) = (R AND acc) OR (R AND fst f)" by (rule bit.conj_disj_distrib)
  ultimately show ?case
    using Cons.prems field_put_get [of f R] by (simp add: fields_join_def or.assoc or.commute or.left_commute)
qed

lemma tables_ok: "\<forall>fs \<in> set cp0_tables. (\<forall>f \<in> set fs. field_ok f) \<and> masks_partition (map fst fs) 0"
  by (simp add: cp0_tables_def CP0_STATUS_def field_ok_def)

text \<open>In every register description the masks of the fields are disjoint and cover the
  register, each mask is a run of ones that starts at its shift, and so a register read through all its
  accessors and put together again is the register: no bit is lost and none belongs to two fields.
  The bits of the interrupt mask and of the pending interrupts are exactly those of their fields.\<close>

theorem cp0_fields_rebuild:
  assumes "fs \<in> set cp0_tables"
  shows "fields_join fs R = R \<and>
     foldr (OR) CP0_STATUS_IM_MASKS 0 = CP0_STATUS_MASK STATUS_IM \<and>
     foldr (OR) CP0_CAUSE_IP_MASKS 0 = fst (CP0_CAUSE CAUSE_IP) \<and>
     map2 drop_bit CP0_CAUSE_IP_SHIFTS CP0_CAUSE_IP_MASKS = [1, 1, 1, 1, 1, 1, 1, 1]"
proof -
  have "fields_join fs R = R" using tables_ok assms partition_join [of fs 0 R] by simp
  then show ?thesis
    by (simp add: CP0_STATUS_IM_MASKS_def CP0_CAUSE_IP_MASKS_def CP0_CAUSE_IP_SHIFTS_def)
qed

theorem cp0_fields_rebuild_witness:
  "fields_join (map CP0_ENTRYHI [ENTRYHI_ASID, ENTRYHI_RES1, ENTRYHI_VPN2]) 0x7FFFE105 = 0x7FFFE105"
  using cp0_fields_rebuild [of "map CP0_ENTRYHI [ENTRYHI_ASID, ENTRYHI_RES1, ENTRYHI_VPN2]" "0x7FFFE105"]
  by (simp add: cp0_tables_def)

text \<open>The reserved field of the Wired register is described inconsistently: its mask starts at
  bit 5 and its shift is 6, so the accessor \<^verbatim>\<open>CP0_WIRED_RES1\<close> loses bit 5, and the Wired register read
  through its accessors and put together again is not the register.\<close>

theorem cp0_wired_inconsistent:
  "\<not> field_ok (CP0_WIRED WIRED_RES1) \<and>
   field_get (CP0_WIRED WIRED_RES1) 0x20 = 0 \<and> 0x20 AND fst (CP0_WIRED WIRED_RES1) = 0x20 \<and>
   fields_join (map CP0_WIRED [WIRED_W, WIRED_RES1]) 0x20 \<noteq> 0x20"
  by (simp add: field_ok_def field_get_def fields_join_def)

text \<open>Between \<^verbatim>\<open>query_and_disable_interrupts\<close> and the matching \<^verbatim>\<open>conditionally_enable_interrupts\<close>
  the interrupts are off, whatever they were before, also when brackets are nested; a bracket whose body
  leaves the Status register alone restores it exactly and changes nothing else.\<close>

theorem interrupt_brackets_nest:
  assumes "query_and_disable_interrupts c = (st, c1)" and "r_status c2 = r_status c1"
    and "query_and_disable_interrupts c2 = (st2, c3)" and "r_status c4 = r_status c3"
  shows "\<not> interrupts_on c1 \<and> \<not> interrupts_on c3 \<and> \<not> interrupts_on (conditionally_enable_interrupts st2 c4) \<and>
    conditionally_enable_interrupts st (conditionally_enable_interrupts st2 c4) = c4\<lparr>r_status := r_status c\<rparr>"
proof -
  have off: "(x AND NOT 1) AND 1 = 0" "(x AND NOT 1) AND NOT 1 = x AND NOT 1" for x :: u32
    by (rule bit_eqI; auto simp: bit_simps)+
  have eqs: "r_status c1 = r_status c AND NOT 1" "st = r_status c AND 1" "r_status c3 = r_status c AND NOT 1" "st2 = 0"
    using assms off by (auto simp: query_and_disable_interrupts_def CP0_STATUS_IE_MASK_def Let_def)
  then have "conditionally_enable_interrupts st2 c4 = c4" by (simp add: conditionally_enable_interrupts_def)
  moreover have "conditionally_enable_interrupts st c4 = c4\<lparr>r_status := r_status c\<rparr>"
    using restore_status_bits [of "r_status c" 1]
    by (cases rule: ie_bit_cases [of "r_status c"])
       (auto simp: conditionally_enable_interrupts_def CP0_STATUS_IE_MASK_def eqs assms(4) cp0_write_defs)
  ultimately show ?thesis
    using eqs assms(4) off by (simp add: interrupts_on_def CP0_STATUS_IE_MASK_def)
qed

theorem interrupt_brackets_nest_witness:
  "let c = \<lparr>r_index = 0, r_random = 47, r_entrylo0 = 0, r_entrylo1 = 0, r_pagemask = 0, r_wired = 0, r_badvaddr = 0,
       r_count = 0, r_entryhi = 0, r_compare = 0, r_status = 0xFF01, r_cause = 0, r_epc = 0, r_xcontext = 0, r_eepc = 0\<rparr>;
     (st, c1) = query_and_disable_interrupts c; (st2, c3) = query_and_disable_interrupts c1
   in \<not> interrupts_on c1 \<and> conditionally_enable_interrupts st (conditionally_enable_interrupts st2 c3) = c3\<lparr>r_status := 0xFF01\<rparr>"
  using interrupt_brackets_nest [OF _ refl _ refl] by (auto simp: Let_def split: prod.splits)

end
