(* ===== verification/Atomic.thy ===== *)
theory Atomic
  imports Prelude
begin

text \<open>
  The atomic variables of \<^verbatim>\<open>kernel/adt/atomic.h\<close>: their LL/SC loops as a step relation over the
  processors that run them on one variable, and the proof that the calls are linearizable.
\<close>

section \<open>The operations\<close>

definition atomic_get :: "u32 \<Rightarrow> u32" where "atomic_get var = var"
definition atomic_set :: "u32 \<Rightarrow> u32 \<Rightarrow> u32" where "atomic_set var val = val"

datatype aop = Test_and_set | Add u32 | Post_add u32 | Sub u32

text \<open>The value the \<^verbatim>\<open>sc\<close> instruction stores, given the value the \<^verbatim>\<open>ll\<close> instruction has loaded, and
  the value the function returns.\<close>

fun atomic_test_and_set_sc :: "u32 \<Rightarrow> u32" where "atomic_test_and_set_sc orig = 1"
fun atomic_add_sc :: "u32 \<Rightarrow> u32 \<Rightarrow> u32" where "atomic_add_sc num orig = orig + num"
fun atomic_post_add_sc :: "u32 \<Rightarrow> u32 \<Rightarrow> u32" where "atomic_post_add_sc num orig = orig + num"
fun atomic_sub_sc :: "u32 \<Rightarrow> u32 \<Rightarrow> u32" where "atomic_sub_sc num orig = orig - num"

fun sc_value :: "aop \<Rightarrow> u32 \<Rightarrow> u32" where
  "sc_value Test_and_set orig = atomic_test_and_set_sc orig"
| "sc_value (Add num) orig = atomic_add_sc num orig"
| "sc_value (Post_add num) orig = atomic_post_add_sc num orig"
| "sc_value (Sub num) orig = atomic_sub_sc num orig"

fun returned :: "aop \<Rightarrow> u32 \<Rightarrow> u32" where
  "returned Test_and_set orig = orig"
| "returned (Add num) orig = orig + num"
| "returned (Post_add num) orig = orig"
| "returned (Sub num) orig = orig - num"

text \<open>\<^verbatim>\<open>bnez %[orig], 2f\<close>: only \<^verbatim>\<open>atomic_test_and_set\<close> gives up, on a variable that is set.\<close>

definition gives_up :: "aop \<Rightarrow> u32 \<Rightarrow> bool" where
  "gives_up op orig \<longleftrightarrow> op = Test_and_set \<and> orig \<noteq> 0"

section \<open>Processors running them on one variable\<close>

text \<open>A processor is before its \<^verbatim>\<open>ll\<close>, between \<^verbatim>\<open>ll\<close> and \<^verbatim>\<open>sc\<close> with the loaded value, or done with
  the returned value. \<open>a_link i\<close>: processor \<open>i\<close> has loaded the variable and nobody has stored to it
  since; only then its \<^verbatim>\<open>sc\<close> succeeds.\<close>

datatype aloc = At_ll | At_sc u32 | Finished u32

record astate =
  a_value :: u32
  a_link :: "nat \<Rightarrow> bool"
  a_loc :: "nat \<Rightarrow> aloc"

definition atomic_init :: "u32 \<Rightarrow> astate" where
  "atomic_init v = \<lparr>a_value = v, a_link = (\<lambda>_. False), a_loc = (\<lambda>_. At_ll)\<rparr>"

inductive atomic_step :: "(nat \<Rightarrow> aop) \<Rightarrow> astate \<Rightarrow> astate \<Rightarrow> bool" for ops where
  ll: "a_loc s i = At_ll \<Longrightarrow> \<not> gives_up (ops i) (a_value s) \<Longrightarrow>
    atomic_step ops s (s\<lparr>a_link := (a_link s)(i := True), a_loc := (a_loc s)(i := At_sc (a_value s))\<rparr>)"
| ll_out: "a_loc s i = At_ll \<Longrightarrow> gives_up (ops i) (a_value s) \<Longrightarrow>
    atomic_step ops s (s\<lparr>a_link := (a_link s)(i := True), a_loc := (a_loc s)(i := Finished (a_value s))\<rparr>)"
| sc_ok: "a_loc s i = At_sc orig \<Longrightarrow> a_link s i \<Longrightarrow>
    atomic_step ops s (s\<lparr>a_value := sc_value (ops i) orig, a_link := (\<lambda>_. False),
      a_loc := (a_loc s)(i := Finished (returned (ops i) orig))\<rparr>)"
| sc_fail: "a_loc s i = At_sc orig \<Longrightarrow> \<not> a_link s i \<Longrightarrow>
    atomic_step ops s (s\<lparr>a_loc := (a_loc s)(i := At_ll)\<rparr>)"

section \<open>Linearization\<close>

text \<open>The operations executed indivisibly one after the other.\<close>

definition exec_aop :: "aop \<Rightarrow> u32 \<Rightarrow> u32" where
  "exec_aop op v = (if gives_up op v then v else sc_value op v)"

text \<open>\<open>in_order ops v ws r v'\<close>: executing the operations of the processors \<open>ws\<close> in this order takes the
  variable from \<open>v\<close> to \<open>v'\<close>, and each of them returns what \<open>r\<close> says.\<close>

fun in_order :: "(nat \<Rightarrow> aop) \<Rightarrow> u32 \<Rightarrow> nat list \<Rightarrow> (nat \<Rightarrow> aloc) \<Rightarrow> u32 \<Rightarrow> bool" where
  "in_order ops v [] r v' \<longleftrightarrow> v' = v"
| "in_order ops v (i # ws) r v' \<longleftrightarrow> r i = Finished (returned (ops i) v) \<and> in_order ops (exec_aop (ops i) v) ws r v'"

lemma in_order_snoc:
  "in_order ops v ws r v' \<Longrightarrow> r i = Finished (returned (ops i) v') \<Longrightarrow>
   in_order ops v (ws @ [i]) r (exec_aop (ops i) v')"
  by (induction ws arbitrary: v) auto

lemma in_order_cong: "in_order ops v ws r v' \<Longrightarrow> (\<forall>i \<in> set ws. r' i = r i) \<Longrightarrow> in_order ops v ws r' v'"
  by (induction ws arbitrary: v) auto

definition atomic_inv :: "(nat \<Rightarrow> aop) \<Rightarrow> u32 \<Rightarrow> astate \<Rightarrow> bool" where
  "atomic_inv ops v s \<longleftrightarrow> (\<exists>ws. distinct ws \<and> set ws = {i. \<exists>r. a_loc s i = Finished r} \<and>
      in_order ops v ws (a_loc s) (a_value s)) \<and>
     (\<forall>i orig. a_loc s i = At_sc orig \<longrightarrow> \<not> gives_up (ops i) orig \<and> (a_link s i \<longrightarrow> orig = a_value s))"

lemma atomic_inv_finish:
  assumes W: "distinct ws" "set ws = {i. \<exists>r. a_loc s i = Finished r}" "in_order ops v ws (a_loc s) (a_value s)"
    and i: "\<forall>r. a_loc s i \<noteq> Finished r"
    and s': "a_loc s' = (a_loc s)(i := Finished (returned (ops i) (a_value s)))" "a_value s' = exec_aop (ops i) (a_value s)"
  shows "\<exists>ws. distinct ws \<and> set ws = {i. \<exists>r. a_loc s' i = Finished r} \<and> in_order ops v ws (a_loc s') (a_value s')"
proof (intro exI conjI)
  have ni: "i \<notin> set ws" using W(2) i by auto
  then show "distinct (ws @ [i])" using W(1) by simp
  show "set (ws @ [i]) = {i. \<exists>r. a_loc s' i = Finished r}" using W(2) s'(1) by auto
  have "in_order ops v ws (a_loc s') (a_value s)" using in_order_cong [OF W(3)] ni s'(1) by auto
  then show "in_order ops v (ws @ [i]) (a_loc s') (a_value s')" 
    unfolding s'(2) by (rule in_order_snoc) (simp add: s'(1))
qed

lemma atomic_inv_step:
  assumes "atomic_inv ops v s" "atomic_step ops s s'"
  shows "atomic_inv ops v s'"
proof -
  obtain ws where W: "distinct ws" "set ws = {i. \<exists>r. a_loc s i = Finished r}" "in_order ops v ws (a_loc s) (a_value s)"
    and S: "\<And>i orig. a_loc s i = At_sc orig \<Longrightarrow> \<not> gives_up (ops i) orig"
      "\<And>i orig. a_loc s i = At_sc orig \<Longrightarrow> a_link s i \<Longrightarrow> orig = a_value s"
    using assms(1) by (auto simp: atomic_inv_def)
  have same: "\<exists>ws. distinct ws \<and> set ws = {i. \<exists>r. a_loc s' i = Finished r} \<and> in_order ops v ws (a_loc s') (a_value s')"
    if "a_value s' = a_value s" "\<forall>j. j \<noteq> i \<longrightarrow> a_loc s' j = a_loc s j" "\<forall>r. a_loc s i \<noteq> Finished r" "\<forall>r. a_loc s' i \<noteq> Finished r" for i
  proof (intro exI conjI)
    have "(\<exists>r. a_loc s' j = Finished r) \<longleftrightarrow> (\<exists>r. a_loc s j = Finished r)" for j using that by (cases "j = i") auto
    then show "set ws = {i. \<exists>r. a_loc s' i = Finished r}" unfolding W(2) by blast
    have "i \<notin> set ws" using W(2) that(3) by blast
    then have "\<forall>j \<in> set ws. a_loc s' j = a_loc s j" using that(2) by metis
    then show "in_order ops v ws (a_loc s') (a_value s')" unfolding that(1) by (rule in_order_cong [OF W(3)])
  qed (rule W(1))
  from assms(2) show ?thesis
  proof cases
    case (ll i)
    then show ?thesis using same [of i] S by (auto simp: atomic_inv_def)
  next
    case (ll_out i)
    then have "returned (ops i) (a_value s) = a_value s" "exec_aop (ops i) (a_value s) = a_value s"
      by (auto simp: gives_up_def exec_aop_def)
    then show ?thesis using ll_out atomic_inv_finish [OF W, of i s'] S by (auto simp: atomic_inv_def)
  next
    case (sc_ok i orig)
    then have "orig = a_value s" "\<not> gives_up (ops i) orig" using S by blast+
    then show ?thesis using sc_ok atomic_inv_finish [OF W, of i s'] S by (auto simp: atomic_inv_def exec_aop_def)
  next
    case (sc_fail i orig)
    then show ?thesis using same [of i] S by (auto simp: atomic_inv_def)
  qed
qed

interpretation at: step_invariant "atomic_step ops" "atomic_inv ops v" for ops v
  using atomic_inv_step by unfold_locales

lemma atomic_reach:
  assumes "(atomic_step ops)\<^sup>*\<^sup>* (atomic_init v) s"
  obtains ws where "distinct ws" "set ws = {i. \<exists>r. a_loc s i = Finished r}" "in_order ops v ws (a_loc s) (a_value s)"
proof -
  have "atomic_inv ops v (atomic_init v)" by (auto simp: atomic_inv_def atomic_init_def intro: exI [of _ "[]"])
  from at.reachable_inv [OF assms this] have "atomic_inv ops v s" .
  then show ?thesis using that by (auto simp: atomic_inv_def)
qed

lemma losers: "v \<noteq> 0 \<Longrightarrow> in_order (\<lambda>_. Test_and_set) v ws r v' \<Longrightarrow> (\<forall>i \<in> set ws. r i = Finished v) \<and> v' = v"
  by (induction ws) (auto simp: exec_aop_def gives_up_def)

text \<open>C34: The LL/SC loops of \<^verbatim>\<open>atomic_test_and_set\<close>, \<^verbatim>\<open>atomic_add\<close>, \<^verbatim>\<open>atomic_post_add\<close> and \<^verbatim>\<open>atomic_sub\<close> are
  atomic: whatever the interleaving of the instructions of any number of processors, the finished calls
  can be put into an order in which executing them one after the other, without interruption, gives every
  one of them the value it returned and the variable the value it has. No update is lost.\<close>

theorem atomic_linearizable:
  assumes "(atomic_step ops)\<^sup>*\<^sup>* (atomic_init v) s"
  shows "\<exists>ws. distinct ws \<and> set ws = {i. \<exists>r. a_loc s i = Finished r} \<and> in_order ops v ws (a_loc s) (a_value s)"
  using atomic_reach [OF assms] by metis

theorem atomic_linearizable_witness:
  "\<exists>s ws. (atomic_step (\<lambda>_. Add 1))\<^sup>*\<^sup>* (atomic_init 5) s \<and> a_loc s 0 = Finished 6 \<and> distinct ws \<and> set ws = {i. \<exists>r. a_loc s i = Finished r} \<and>
    in_order (\<lambda>_. Add 1) 5 ws (a_loc s) (a_value s)"
proof -
  let ?s1 = "(atomic_init 5)\<lparr>a_link := (\<lambda>_. False)(0 := True), a_loc := (\<lambda>_. At_ll)(0 := At_sc 5)\<rparr>"
  let ?s2 = "?s1\<lparr>a_value := 6, a_link := (\<lambda>_. False), a_loc := (\<lambda>_. At_ll)(0 := Finished 6)\<rparr>"
  have "atomic_step (\<lambda>_. Add 1) (atomic_init 5) ?s1"
    using atomic_step.ll [of "atomic_init 5" 0 "\<lambda>_. Add 1"] by (simp add: atomic_init_def gives_up_def)
  moreover have "atomic_step (\<lambda>_. Add 1) ?s1 ?s2"
    using atomic_step.sc_ok [of ?s1 0 5 "\<lambda>_. Add 1"] by (simp add: atomic_init_def)
  ultimately have r: "(atomic_step (\<lambda>_. Add 1))\<^sup>*\<^sup>* (atomic_init 5) ?s2" 
    by (rule converse_rtranclp_into_rtranclp [OF _ r_into_rtranclp])
  from atomic_linearizable [OF r] r show ?thesis by (intro exI [of _ ?s2]) auto
qed

text \<open>\<^verbatim>\<open>atomic_test_and_set\<close> on a variable that is clear lets at most one of the competing
  processors see that it was clear, and once one has, the variable is set.\<close>

theorem test_and_set_one_winner:
  assumes "(atomic_step (\<lambda>_. Test_and_set))\<^sup>*\<^sup>* (atomic_init 0) s" and "a_loc s i = Finished 0" and "a_loc s j = Finished 0"
  shows "i = j \<and> a_value s = 1"
proof -
  obtain ws where W: "distinct ws" "set ws = {i. \<exists>r. a_loc s i = Finished r}"
    "in_order (\<lambda>_. Test_and_set) 0 ws (a_loc s) (a_value s)"
    by (rule atomic_reach [OF assms(1)])
  have ij: "i \<in> set ws" "j \<in> set ws" using W(2) assms by auto
  then obtain k ks where ws: "ws = k # ks" by (cases ws) auto
  have "in_order (\<lambda>_. Test_and_set) 1 ks (a_loc s) (a_value s)"
    using W(3) by (simp add: ws exec_aop_def gives_up_def)
  with losers [of 1 ks] have "\<forall>i \<in> set ks. a_loc s i = Finished 1" "a_value s = 1" by auto
  with ij assms(2,3) ws show ?thesis by auto
qed

theorem test_and_set_one_winner_witness:
  "\<exists>s. (atomic_step (\<lambda>_. Test_and_set))\<^sup>*\<^sup>* (atomic_init 0) s \<and> a_loc s 7 = Finished 0 \<and> a_value s = 1"
proof -
  let ?s1 = "(atomic_init 0)\<lparr>a_link := (\<lambda>_. False)(7 := True), a_loc := (\<lambda>_. At_ll)(7 := At_sc 0)\<rparr>"
  let ?s2 = "?s1\<lparr>a_value := 1, a_link := (\<lambda>_. False), a_loc := (\<lambda>_. At_ll)(7 := Finished 0)\<rparr>"
  have "atomic_step (\<lambda>_. Test_and_set) (atomic_init 0) ?s1"
    using atomic_step.ll [of "atomic_init 0" 7 "\<lambda>_. Test_and_set"] by (simp add: atomic_init_def gives_up_def)
  moreover have "atomic_step (\<lambda>_. Test_and_set) ?s1 ?s2"
    using atomic_step.sc_ok [of ?s1 7 0 "\<lambda>_. Test_and_set"] by (simp add: atomic_init_def)
  ultimately have r: "(atomic_step (\<lambda>_. Test_and_set))\<^sup>*\<^sup>* (atomic_init 0) ?s2"
    by (rule converse_rtranclp_into_rtranclp [OF _ r_into_rtranclp])
  from test_and_set_one_winner [OF r, of 7 7] r show ?thesis by auto
qed

end
