(* ===== verification/Kbd.thy ===== *)
theory Kbd
  imports Prelude
begin

text \<open>
  The keyboard driver (\<^verbatim>\<open>kernel/drivers/kbd.c\<close>): the ring buffer that the interrupt handler fills and that \<^verbatim>\<open>getc\<close> and \<^verbatim>\<open>getc_try\<close> empty. With the driver as it is written every
  sequence of interrupts and reads is described by a counter, \<^verbatim>\<open>getc\<close> on an empty buffer included. With a handler that reads keys from a device the buffer would refine a first in, first
  out queue of at most 127 keys, as long as nobody calls \<^verbatim>\<open>getc\<close> when it is empty.
\<close>

section \<open>State\<close>

text \<open>The static variables of the driver. The wait queue is of the list type of \<^verbatim>\<open>adt/plist.h\<close>, which the repository does not have: \<open>'q\<close>, with its two operations as
  arguments of the handler.\<close>

definition KBD_BUF_SIZE :: u32 where "KBD_BUF_SIZE = 128"

record 'q kbd =
  kbd_head :: u32
  kbd_tail :: u32
  kbd_buffer :: "u8 list"
  kbd_wait_queue :: 'q

definition kbd_reset :: "'q \<Rightarrow> 'q kbd" where
  "kbd_reset q = \<lparr>kbd_head = 0, kbd_tail = 0, kbd_buffer = replicate (unat KBD_BUF_SIZE) 0, kbd_wait_queue = q\<rparr>"

section \<open>Operations\<close>

text \<open>\<^verbatim>\<open>kbd_handle\<close>; the source has the constant zero in place of the register of the device. A waiting thread is taken off the queue, and nothing else is done
  to it. An index outside the buffer is no defined behaviour (\<open>None\<close>).\<close>

definition kbd_handle :: "('q \<Rightarrow> bool) \<Rightarrow> ('q \<Rightarrow> u32 \<times> 'q) \<Rightarrow> 'q kbd \<Rightarrow> 'q kbd option" where
  "kbd_handle plist_empty plist_pop s =
     (let key = 0;
          head_next = (kbd_head s + 1) mod KBD_BUF_SIZE
      in if head_next = kbd_tail s then Some s
         else do {
           kassert (unat (kbd_head s) < length (kbd_buffer s));
           let s1 = s\<lparr>kbd_buffer := (kbd_buffer s)[unat (kbd_head s) := key]\<rparr>;
           let s2 = s1\<lparr>kbd_head := head_next\<rparr>;
           if \<not> plist_empty (kbd_wait_queue s2) then
             (let (item, q) = plist_pop (kbd_wait_queue s2) in Some (s2\<lparr>kbd_wait_queue := q\<rparr>))
           else Some s2
         })"

text \<open>The handler as it would be with another key in place of the zero.\<close>

definition kbd_handle_key :: "('q \<Rightarrow> bool) \<Rightarrow> ('q \<Rightarrow> u32 \<times> 'q) \<Rightarrow> u8 \<Rightarrow> 'q kbd \<Rightarrow> 'q kbd option" where
  "kbd_handle_key plist_empty plist_pop key s =
     (let head_next = (kbd_head s + 1) mod KBD_BUF_SIZE
      in if head_next = kbd_tail s then Some s
         else do {
           kassert (unat (kbd_head s) < length (kbd_buffer s));
           let s1 = s\<lparr>kbd_buffer := (kbd_buffer s)[unat (kbd_head s) := key]\<rparr>;
           let s2 = s1\<lparr>kbd_head := head_next\<rparr>;
           if \<not> plist_empty (kbd_wait_queue s2) then
             (let (item, q) = plist_pop (kbd_wait_queue s2) in Some (s2\<lparr>kbd_wait_queue := q\<rparr>))
           else Some s2
         })"

lemma kbd_handle_zero: "kbd_handle pe pp s = kbd_handle_key pe pp 0 s"
  by (simp add: kbd_handle_def kbd_handle_key_def)

text \<open>\<^verbatim>\<open>getc\<close> does not wait yet: what it does on an empty buffer is the same as on any other. \<^verbatim>\<open>getc_try\<close> widens the character to \<^verbatim>\<open>int\<close>; it is signed on this target.\<close>

definition getc :: "'q kbd \<Rightarrow> (u8 \<times> 'q kbd) option" where
  "getc s = do {
     kassert (unat (kbd_tail s) < length (kbd_buffer s));
     let chr = kbd_buffer s ! unat (kbd_tail s);
     Some (chr, s\<lparr>kbd_tail := (kbd_tail s + 1) mod KBD_BUF_SIZE\<rparr>)
   }"

definition getc_try :: "'q kbd \<Rightarrow> (u32 \<times> 'q kbd) option" where
  "getc_try s =
     (if kbd_head s \<noteq> kbd_tail s then do { (chr, s') \<leftarrow> getc s; Some (scast chr, s') }
      else Some (EAGAIN, s))"

section \<open>The buffer as a queue\<close>

definition kbd_ok :: "'q kbd \<Rightarrow> bool" where
  "kbd_ok s \<longleftrightarrow> kbd_head s < KBD_BUF_SIZE \<and> kbd_tail s < KBD_BUF_SIZE \<and> length (kbd_buffer s) = unat KBD_BUF_SIZE"

definition slots :: "'a list \<Rightarrow> nat \<Rightarrow> nat \<Rightarrow> 'a list" where
  "slots b t n = map (\<lambda>i. b ! ((t + i) mod 128)) [0..<n]"

definition pending :: "'q kbd \<Rightarrow> nat" where
  "pending s = (unat (kbd_head s) + 128 - unat (kbd_tail s)) mod 128"

definition keys :: "'q kbd \<Rightarrow> u8 list" where
  "keys s = slots (kbd_buffer s) (unat (kbd_tail s)) (pending s)"

lemma length_slots [simp]: "length (slots b t n) = n"
  by (simp add: slots_def)

lemma mod_128: "(x :: nat) < 256 \<Longrightarrow> x mod 128 = (if x < 128 then x else x - 128)"
  by (auto simp: le_mod_geq)

lemma mod_128_neq:
  assumes "(i :: nat) < n" and "n < 128"
  shows "(t + i) mod 128 \<noteq> (t + n) mod 128"
proof
  assume "(t + i) mod 128 = (t + n) mod 128"
  then have "128 dvd n - i" using mod_eq_dvd_iff_nat [of "t + i" "t + n" 128] assms(1) by simp
  then show False using assms by (auto dest: dvd_imp_le)
qed

lemma slots_put:
  assumes "n < 128" and "length b = 128"
  shows "slots (b[(t + n) mod 128 := x]) t (Suc n) = slots b t n @ [x]"
proof -
  have "b[(t + n) mod 128 := x] ! ((t + i) mod 128) = b ! ((t + i) mod 128)" if "i < n" for i
    using mod_128_neq [OF that assms(1), of t] by (metis nth_list_update_neq)
  then show ?thesis using assms by (simp add: slots_def)
qed

lemma slots_take: "slots b t (Suc n) = b ! (t mod 128) # slots b (Suc t mod 128) n"
proof -
  have "slots b t (Suc n) = b ! (t mod 128) # map (\<lambda>i. b ! ((t + Suc i) mod 128)) [0..<n]"
    by (simp only: slots_def upt_conv_Cons [of 0 "Suc n"] list.map) (simp add: map_Suc_upt [symmetric] del: upt_Suc map_Suc_upt)
  then show ?thesis by (simp add: slots_def mod_simps)
qed

lemma ring_head:
  assumes "h < (128 :: nat)" and "t < 128"
  shows "h = (t + (h + 128 - t) mod 128) mod 128"
  using assms by (cases "t \<le> h") (auto simp: mod_128)

lemma ring_next:
  assumes "h < (128 :: nat)" and "t < 128"
  shows "Suc h mod 128 = t \<longleftrightarrow> (h + 128 - t) mod 128 = 127"
    and "Suc h mod 128 \<noteq> t \<Longrightarrow> (Suc h mod 128 + 128 - t) mod 128 = Suc ((h + 128 - t) mod 128)"
    and "h \<noteq> t \<Longrightarrow> (h + 128 - t) mod 128 = Suc ((h + 128 - Suc t mod 128) mod 128)"
    and "h = t \<longleftrightarrow> (h + 128 - t) mod 128 = 0"
    and "h = t \<Longrightarrow> (h + 128 - Suc t mod 128) mod 128 = 127"
proof -
  have m: "Suc h mod 128 = (if h = 127 then 0 else Suc h)" "Suc t mod 128 = (if t = 127 then 0 else Suc t)"
    using assms by (auto simp: mod_128)
  have d: "(h + 128 - t) mod 128 = (if h < t then h + 128 - t else h - t)" using assms by (simp add: mod_128)
  show "Suc h mod 128 = t \<longleftrightarrow> (h + 128 - t) mod 128 = 127" using assms by (simp only: m d) auto
  show "Suc h mod 128 \<noteq> t \<Longrightarrow> (Suc h mod 128 + 128 - t) mod 128 = Suc ((h + 128 - t) mod 128)"
    using assms by (simp only: m d) (auto simp: mod_128)
  show "h \<noteq> t \<Longrightarrow> (h + 128 - t) mod 128 = Suc ((h + 128 - Suc t mod 128) mod 128)"
    using assms by (simp only: m d) (auto simp: mod_128)
  show "h = t \<longleftrightarrow> (h + 128 - t) mod 128 = 0" using assms by (simp only: d) auto
  show "h = t \<Longrightarrow> (h + 128 - Suc t mod 128) mod 128 = 127" using assms by (simp only: m) (auto simp: mod_128)
qed

lemma unat_next: "unat (((x :: u32) + 1) mod KBD_BUF_SIZE) = Suc (unat x) mod 128" if "x < KBD_BUF_SIZE"
proof -
  have "unat (x + 1) = Suc (unat x)" using that unat_add_bounded [of x 1] by (simp add: KBD_BUF_SIZE_def word_less_nat_alt)
  then show ?thesis by (simp add: unat_mod KBD_BUF_SIZE_def)
qed

lemma kbd_ok_unat:
  assumes "kbd_ok s"
  shows "unat (kbd_head s) < 128" and "unat (kbd_tail s) < 128" and "length (kbd_buffer s) = 128"
  using assms by (simp_all add: kbd_ok_def KBD_BUF_SIZE_def word_less_nat_alt)

lemma next_in_ring: "(x :: u32) mod KBD_BUF_SIZE < KBD_BUF_SIZE"
  by (simp add: KBD_BUF_SIZE_def word_less_nat_alt unat_mod)

lemma length_keys: "length (keys s) = pending s" and pending_less: "pending s < 128"
  by (simp_all add: keys_def pending_def)

lemma kbd_full_iff:
  assumes "kbd_ok s"
  shows "(kbd_head s + 1) mod KBD_BUF_SIZE = kbd_tail s \<longleftrightarrow> pending s = 127"
proof -
  have "(kbd_head s + 1) mod KBD_BUF_SIZE = kbd_tail s \<longleftrightarrow> Suc (unat (kbd_head s)) mod 128 = unat (kbd_tail s)"
    using unat_next [of "kbd_head s"] assms word_unat_eq_iff [of "(kbd_head s + 1) mod KBD_BUF_SIZE" "kbd_tail s"] by (simp add: kbd_ok_def)
  also have "\<dots> \<longleftrightarrow> pending s = 127" unfolding pending_def by (rule ring_next(1) [OF kbd_ok_unat(1,2) [OF assms]])
  finally show ?thesis .
qed

lemma kbd_empty_iff:
  assumes "kbd_ok s"
  shows "kbd_head s = kbd_tail s \<longleftrightarrow> keys s = []"
proof -
  have "keys s = [] \<longleftrightarrow> pending s = 0" using length_keys [of s] by (metis length_0_conv)
  also have "\<dots> \<longleftrightarrow> unat (kbd_head s) = unat (kbd_tail s)"
    unfolding pending_def using ring_next(4) [OF kbd_ok_unat(1,2) [OF assms]] by (rule sym)
  also have "\<dots> \<longleftrightarrow> kbd_head s = kbd_tail s" by (rule word_unat_eq_iff [symmetric])
  finally show ?thesis by (rule sym)
qed

lemma kbd_handle_refines:
  assumes R: "kbd_ok s"
  shows "\<exists>s'. kbd_handle_key pe pp key s = Some s' \<and> kbd_ok s' \<and> keys s' = (if length (keys s) < 127 then keys s @ [key] else keys s)"
proof (cases "pending s = 127")
  case True
  then show ?thesis using R kbd_full_iff [OF R] length_keys [of s] by (simp add: kbd_handle_key_def)
next
  case False
  let ?h = "unat (kbd_head s)" and ?t = "unat (kbd_tail s)"
  note U = kbd_ok_unat [OF R]
  have n: "(kbd_head s + 1) mod KBD_BUF_SIZE \<noteq> kbd_tail s" using False kbd_full_iff [OF R] by simp
  have N: "unat ((kbd_head s + 1) mod KBD_BUF_SIZE) = Suc ?h mod 128" using unat_next R by (simp add: kbd_ok_def)
  then have nx: "Suc ?h mod 128 \<noteq> ?t" using n by (metis word_unat_eq_iff)
  have h: "?h = (?t + pending s) mod 128" using ring_head [OF U(1,2)] by (simp add: pending_def)
  define s2 where "s2 = s\<lparr>kbd_buffer := (kbd_buffer s)[?h := key], kbd_head := (kbd_head s + 1) mod KBD_BUF_SIZE\<rparr>"
  have p: "pending s2 = Suc (pending s)" using ring_next(2) [OF U(1,2) nx] N by (simp add: pending_def s2_def)
  have k: "keys s2 = keys s @ [key]"
  proof -
    have "keys s2 = slots ((kbd_buffer s)[?h := key]) ?t (pending s2)" by (simp add: keys_def s2_def)
    also have "\<dots> = keys s @ [key]" using slots_put [OF pending_less [of s] U(3), of ?t key] h p by (simp add: keys_def)
    finally show ?thesis .
  qed
  have ok: "kbd_ok s2" using R next_in_ring by (simp add: kbd_ok_def s2_def)
  have q: "kbd_ok (s2\<lparr>kbd_wait_queue := q\<rparr>) = kbd_ok s2" "keys (s2\<lparr>kbd_wait_queue := q\<rparr>) = keys s2" for q
    by (simp_all add: kbd_ok_def keys_def pending_def)
  have "kbd_handle_key pe pp key s = (if \<not> pe (kbd_wait_queue s2) then Some (s2\<lparr>kbd_wait_queue := snd (pp (kbd_wait_queue s2))\<rparr>) else Some s2)"
    using n U by (simp add: kbd_handle_key_def Let_def s2_def split_beta)
  moreover have "length (keys s) < 127" using False pending_less [of s] by (simp add: length_keys)
  ultimately show ?thesis using ok k q by simp
qed

lemma getc_refines:
  assumes R: "kbd_ok s" and ne: "keys s \<noteq> []"
  shows "\<exists>s'. getc s = Some (List.hd (keys s), s') \<and> kbd_ok s' \<and> keys s' = tl (keys s) \<and> kbd_wait_queue s' = kbd_wait_queue s"
proof -
  let ?h = "unat (kbd_head s)" and ?t = "unat (kbd_tail s)"
  note U = kbd_ok_unat [OF R]
  define s' where "s' = s\<lparr>kbd_tail := (kbd_tail s + 1) mod KBD_BUF_SIZE\<rparr>"
  have t: "unat (kbd_tail s') = Suc ?t mod 128" using unat_next R by (simp add: s'_def kbd_ok_def)
  have "?h \<noteq> ?t" using ne kbd_empty_iff [OF R] by (metis word_unat_eq_iff)
  then have p: "pending s = Suc (pending s')" using ring_next(3) [OF U(1,2)] t by (simp add: pending_def) (simp add: s'_def)
  have k: "keys s = kbd_buffer s ! ?t # keys s'" using slots_take [of "kbd_buffer s" ?t "pending s'"] U t p by (simp add: keys_def) (simp add: s'_def)
  have "getc s = Some (kbd_buffer s ! ?t, s')" using U by (simp add: getc_def s'_def)
  moreover have "kbd_ok s'" using R next_in_ring by (simp add: kbd_ok_def s'_def)
  ultimately show ?thesis using k by (simp add: s'_def)
qed

lemma getc_try_refines:
  assumes R: "kbd_ok s"
  shows "\<exists>s'. getc_try s = Some (if keys s = [] then EAGAIN else scast (List.hd (keys s)), s') \<and> kbd_ok s' \<and> keys s' = tl (keys s)"
proof (cases "keys s = []")
  case True
  then show ?thesis using kbd_empty_iff [OF R] R by (simp add: getc_try_def)
next
  case False
  from getc_refines [OF R False] obtain s' where "getc s = Some (List.hd (keys s), s')" "kbd_ok s'" "keys s' = tl (keys s)" by blast
  then show ?thesis using False kbd_empty_iff [OF R] by (simp add: getc_try_def)
qed

text \<open>Reading with \<^verbatim>\<open>getc\<close> from an empty buffer returns a stale character and makes the buffer look full: the next 127 reads return characters that nobody typed.\<close>

lemma getc_empty:
  assumes R: "kbd_ok s" and e: "keys s = []"
  shows "\<exists>s'. getc s = Some (kbd_buffer s ! unat (kbd_tail s), s') \<and> length (keys s') = 127"
proof -
  note U = kbd_ok_unat [OF R]
  have "kbd_head s = kbd_tail s" using e kbd_empty_iff [OF R] by simp
  then have "(unat (kbd_head s) + 128 - Suc (unat (kbd_tail s)) mod 128) mod 128 = 127" using U ring_next(5) by simp
  then show ?thesis using U unat_next R by (simp add: getc_def length_keys pending_def kbd_ok_def)
qed

section \<open>Sequences of interrupts and reads\<close>

text \<open>The driver as it is written: keyboard interrupts and reads in any order, with what the reads have returned so far. All characters are the zero of the handler; the abstract
  buffer is their number.\<close>

datatype dcall = Interrupt | Read | Try_read

primrec dcall_exec :: "('q \<Rightarrow> bool) \<Rightarrow> ('q \<Rightarrow> u32 \<times> 'q) \<Rightarrow> dcall \<Rightarrow> u32 list \<times> 'q kbd \<Rightarrow> (u32 list \<times> 'q kbd) option" where
  "dcall_exec pe pp Interrupt s = do { s' \<leftarrow> kbd_handle pe pp (snd s); Some (fst s, s') }"
| "dcall_exec pe pp Read s = do { (chr, s') \<leftarrow> getc (snd s); Some (fst s @ [scast chr], s') }"
| "dcall_exec pe pp Try_read s = do { (chr, s') \<leftarrow> getc_try (snd s); Some (fst s @ [chr], s') }"

primrec dcall_spec :: "dcall \<Rightarrow> u32 list \<times> nat \<Rightarrow> u32 list \<times> nat" where
  "dcall_spec Interrupt a = (fst a, if snd a < 127 then snd a + 1 else 127)"
| "dcall_spec Read a = (fst a @ [0], if snd a = 0 then 127 else snd a - 1)"
| "dcall_spec Try_read a = (if snd a = 0 then (fst a @ [EAGAIN], 0) else (fst a @ [0], snd a - 1))"

definition zeros :: "'q kbd \<Rightarrow> bool" where
  "zeros s \<longleftrightarrow> (\<forall>c \<in> set (kbd_buffer s). c = 0)"

definition dcall_rel :: "u32 list \<times> 'q kbd \<Rightarrow> u32 list \<times> nat \<Rightarrow> bool" where
  "dcall_rel s a \<longleftrightarrow> kbd_ok (snd s) \<and> zeros (snd s) \<and> fst s = fst a \<and> pending (snd s) = snd a"

lemma getc_total:
  assumes R: "kbd_ok s" and Z: "zeros s"
  shows "\<exists>s'. getc s = Some (0, s') \<and> kbd_ok s' \<and> zeros s' \<and> pending s' = (if pending s = 0 then 127 else pending s - 1)"
proof -
  note U = kbd_ok_unat [OF R]
  have z: "kbd_buffer s ! unat (kbd_tail s) = 0" using U Z by (simp add: zeros_def)
  show ?thesis
  proof (cases "keys s = []")
    case True
    have "pending s = 0" using True length_keys [of s] by simp
    moreover from getc_empty [OF R True] obtain s' where s': "getc s = Some (0, s')" "length (keys s') = 127" using z by auto
    moreover have "kbd_ok s'" "zeros s'" using s'(1) R Z next_in_ring by (auto simp: getc_def kbd_ok_def zeros_def elim!: bind_eq_SomeE)
    ultimately show ?thesis by (simp add: length_keys)
  next
    case False
    from getc_refines [OF R False] obtain s' where s': "getc s = Some (List.hd (keys s), s')" "kbd_ok s'" "keys s' = tl (keys s)" by blast
    have "pending s \<noteq> 0" using False length_keys [of s] by (metis length_0_conv)
    moreover have "pending s' = pending s - 1" using s'(3) length_keys [of s] length_keys [of s'] by simp
    moreover have "List.hd (keys s) = 0" "zeros s'" using s'(1) Z z by (auto simp: getc_def zeros_def elim!: bind_eq_SomeE)
    ultimately show ?thesis using s' by simp
  qed
qed

lemma dcall_refines:
  assumes R: "dcall_rel s a"
  shows "\<exists>s'. dcall_exec pe pp c s = Some s' \<and> dcall_rel s' (dcall_spec c a)"
proof -
  have r: "kbd_ok (snd s)" "zeros (snd s)" "fst s = fst a" "pending (snd s) = snd a" using R by (auto simp: dcall_rel_def)
  show ?thesis
  proof (cases c)
    case Interrupt
    from kbd_handle_refines [OF r(1), of pe pp 0] obtain s' where s': "kbd_handle pe pp (snd s) = Some s'" "kbd_ok s'"
      "keys s' = (if length (keys (snd s)) < 127 then keys (snd s) @ [0] else keys (snd s))" by (auto simp: kbd_handle_zero)
    have "pending s' = (if pending (snd s) < 127 then pending (snd s) + 1 else 127)"
      using s'(3) length_keys [of s'] length_keys [of "snd s"] pending_less [of "snd s"] by (auto split: if_splits)
    moreover have upd: "x = 0" if "x \<in> set ((kbd_buffer (snd s))[i := 0])" for x :: u8 and i
      using r(2) subsetD [OF set_update_subset_insert that] by (auto simp: zeros_def)
    have "zeros s'" using s'(1) r(2) upd
      by (auto simp: kbd_handle_def zeros_def Let_def elim!: bind_eq_SomeE split: if_splits prod.splits)
    ultimately show ?thesis using s' r Interrupt by (simp add: dcall_rel_def)
  next
    case Read
    then show ?thesis using getc_total [OF r(1,2)] r by (auto simp: dcall_rel_def)
  next
    case Try_read
    have "kbd_head (snd s) = kbd_tail (snd s) \<longleftrightarrow> pending (snd s) = 0" using kbd_empty_iff [OF r(1)] length_keys [of "snd s"] by (metis length_0_conv)
    then show ?thesis using Try_read getc_total [OF r(1,2)] r by (auto simp: dcall_rel_def getc_try_def)
  qed
qed

interpretation kd: call_refinement dcall_rel "dcall_exec pe pp" dcall_spec "\<lambda>_ _. True" "\<lambda>_ _. True"
  for pe :: "'q \<Rightarrow> bool" and pp :: "'q \<Rightarrow> u32 \<times> 'q"
  by unfold_locales (use dcall_refines in auto)

lemma kbd_reset_zeros: "dcall_rel ([], kbd_reset q) ([], 0)"
  by (simp add: dcall_rel_def zeros_def kbd_ok_def kbd_reset_def pending_def KBD_BUF_SIZE_def)

lemma dcalls_ok: "calls_ok (\<lambda>_ _. True) dcall_spec cs a"
  by (induction cs arbitrary: a) simp_all


section \<open>The buffer with keys from a device\<close>

text \<open>The calls of the driver, with what the reads have returned so far; the abstract buffer holds at most 127 keys and drops what comes on top of them.\<close>

datatype kcall = Key u8 | Getc | Getc_try

primrec kcall_exec :: "('q \<Rightarrow> bool) \<Rightarrow> ('q \<Rightarrow> u32 \<times> 'q) \<Rightarrow> kcall \<Rightarrow> u32 list \<times> 'q kbd \<Rightarrow> (u32 list \<times> 'q kbd) option" where
  "kcall_exec pe pp (Key key) s = do { s' \<leftarrow> kbd_handle_key pe pp key (snd s); Some (fst s, s') }"
| "kcall_exec pe pp Getc s = do { (chr, s') \<leftarrow> getc (snd s); Some (fst s @ [scast chr], s') }"
| "kcall_exec pe pp Getc_try s = do { (chr, s') \<leftarrow> getc_try (snd s); Some (fst s @ [chr], s') }"

primrec kcall_spec :: "kcall \<Rightarrow> u32 list \<times> u8 list \<Rightarrow> u32 list \<times> u8 list" where
  "kcall_spec (Key key) a = (fst a, if length (snd a) < 127 then snd a @ [key] else snd a)"
| "kcall_spec Getc a = (fst a @ [scast (List.hd (snd a))], tl (snd a))"
| "kcall_spec Getc_try a = (fst a @ [if snd a = [] then EAGAIN else scast (List.hd (snd a))], tl (snd a))"

definition kcall_ok :: "kcall \<Rightarrow> u32 list \<times> u8 list \<Rightarrow> bool" where
  "kcall_ok c a \<longleftrightarrow> (c = Getc \<longrightarrow> snd a \<noteq> [])"

definition kbd_rel :: "u32 list \<times> 'q kbd \<Rightarrow> u32 list \<times> u8 list \<Rightarrow> bool" where
  "kbd_rel s a \<longleftrightarrow> kbd_ok (snd s) \<and> fst s = fst a \<and> keys (snd s) = snd a"

lemma kcall_refines:
  assumes "kbd_rel s a" and "kcall_ok c a"
  shows "\<exists>s'. kcall_exec pe pp c s = Some s' \<and> kbd_rel s' (kcall_spec c a)"
proof (cases c)
  case (Key key)
  then show ?thesis using assms kbd_handle_refines [of "snd s" pe pp key] by (auto simp: kbd_rel_def)
next
  case Getc
  then show ?thesis using assms getc_refines [of "snd s"] by (auto simp: kbd_rel_def kcall_ok_def)
next
  case Getc_try
  then show ?thesis using assms getc_try_refines [of "snd s"] by (auto simp: kbd_rel_def)
qed

interpretation kq: call_refinement kbd_rel "kcall_exec pe pp" kcall_spec kcall_ok "\<lambda>_ _. True"
  for pe :: "'q \<Rightarrow> bool" and pp :: "'q \<Rightarrow> u32 \<times> 'q"
  by unfold_locales (use kcall_refines in auto)

lemma kbd_reset_rel: "kbd_rel ([], kbd_reset q) ([], [])"
  by (simp add: kbd_rel_def kbd_ok_def kbd_reset_def keys_def pending_def slots_def KBD_BUF_SIZE_def)

text \<open>With keys in place of the zero the buffer is a queue: whatever keys come and whatever is read, the reads return the keys in the order they came, less those that found 127 keys
  in the buffer, and \<^verbatim>\<open>getc_try\<close> returns \<^verbatim>\<open>EAGAIN\<close> when no key is left, as long as no \<^verbatim>\<open>getc\<close> finds the buffer empty.\<close>

theorem kbd_fifo:
  assumes "calls_ok kcall_ok kcall_spec cs ([], [])"
  shows "\<exists>s'. run_calls (kcall_exec plist_empty plist_pop) cs ([], kbd_reset q) = Some s' \<and>
     fst s' = fst (fold kcall_spec cs ([], [])) \<and> keys (snd s') = snd (fold kcall_spec cs ([], [])) \<and> kbd_ok (snd s')"
  using kq.calls_refine [OF kbd_reset_rel assms, of plist_empty plist_pop q] by (auto simp: kbd_rel_def)

theorem kbd_fifo_witness:
  "\<exists>s'. run_calls (kcall_exec (\<lambda>q. q = []) (\<lambda>q. (List.hd q, tl q))) [Key 65, Getc_try, Getc_try, Key 66, Getc] ([], kbd_reset [0x80010000]) = Some s' \<and>
     fst s' = [65, EAGAIN, 66] \<and> keys (snd s') = []"
  using kbd_fifo [of "[Key 65, Getc_try, Getc_try, Key 66, Getc]" "\<lambda>q. q = []" "\<lambda>q. (List.hd q, tl q)" "[0x80010000]"]
  by (auto simp: kcall_ok_def)

text \<open>The signed widening lets one key pass for \<^verbatim>\<open>EAGAIN\<close>.\<close>

lemma getc_try_ambiguous: "(scast (0xF5 :: u8) :: u32) = EAGAIN"
  by (simp add: EAGAIN_def)

end
