(* ===== verification/Asm_Layout.thy ===== *)
theory Asm_Layout
  imports Entry
begin

text \<open>
  The instructions of the assembler code (\<^verbatim>\<open>kernel/include/asm.h\<close>, \<^verbatim>\<open>kernel/head.S\<close>), the layout of saved contexts (\<^verbatim>\<open>context_t\<close> of \<^verbatim>\<open>kernel/include/c.h\<close>) and the offsets that
  \<^verbatim>\<open>kernel/include/gen_offset.c\<close> computes for the assembler. The offsets agree with the structure.
\<close>

section \<open>Registers and the layout of contexts\<close>

text \<open>The general registers and the coprocessor registers under the names of \<^verbatim>\<open>asm.h\<close>, with their numbers.\<close>

datatype gpr =
    R_zero | R_at | R_v0 | R_v1 | R_a0 | R_a1 | R_a2 | R_a3 | R_t0 | R_t1 | R_t2 | R_t3
    | R_t4 | R_t5 | R_t6 | R_t7 | R_s0 | R_s1 | R_s2 | R_s3 | R_s4 | R_s5 | R_s6 | R_s7
    | R_t8 | R_t9 | R_k0 | R_k1 | R_gp | R_sp | R_fp | R_ra

primrec gpr_number :: "gpr \<Rightarrow> nat" where
  "gpr_number R_zero = 0" | "gpr_number R_at = 1" | "gpr_number R_v0 = 2" | "gpr_number R_v1 = 3" | "gpr_number R_a0 = 4" | "gpr_number R_a1 = 5"
| "gpr_number R_a2 = 6" | "gpr_number R_a3 = 7" | "gpr_number R_t0 = 8" | "gpr_number R_t1 = 9" | "gpr_number R_t2 = 10" | "gpr_number R_t3 = 11"
| "gpr_number R_t4 = 12" | "gpr_number R_t5 = 13" | "gpr_number R_t6 = 14" | "gpr_number R_t7 = 15" | "gpr_number R_s0 = 16" | "gpr_number R_s1 = 17"
| "gpr_number R_s2 = 18" | "gpr_number R_s3 = 19" | "gpr_number R_s4 = 20" | "gpr_number R_s5 = 21" | "gpr_number R_s6 = 22" | "gpr_number R_s7 = 23"
| "gpr_number R_t8 = 24" | "gpr_number R_t9 = 25" | "gpr_number R_k0 = 26" | "gpr_number R_k1 = 27" | "gpr_number R_gp = 28" | "gpr_number R_sp = 29"
| "gpr_number R_fp = 30" | "gpr_number R_ra = 31"

datatype c0r =
    C0_index | C0_random | C0_entrylo0 | C0_entrylo1 | C0_context | C0_pagemask | C0_wired | C0_badvaddr | C0_count
    | C0_entryhi | C0_compare | C0_status | C0_cause | C0_epc | C0_config | C0_lladdr | C0_xcontext | C0_eepc

primrec c0r_number :: "c0r \<Rightarrow> nat" where
  "c0r_number C0_index = 0" | "c0r_number C0_random = 1" | "c0r_number C0_entrylo0 = 2" | "c0r_number C0_entrylo1 = 3" | "c0r_number C0_context = 4" | "c0r_number C0_pagemask = 5"
| "c0r_number C0_wired = 6" | "c0r_number C0_badvaddr = 8" | "c0r_number C0_count = 9" | "c0r_number C0_entryhi = 10" | "c0r_number C0_compare = 11" | "c0r_number C0_status = 12"
| "c0r_number C0_cause = 13" | "c0r_number C0_epc = 14" | "c0r_number C0_config = 16" | "c0r_number C0_lladdr = 17" | "c0r_number C0_xcontext = 20" | "c0r_number C0_eepc = 30"

text \<open>The members of \<^verbatim>\<open>context_t\<close> in the order of the structure, the offset of a member (\<^verbatim>\<open>offset_of\<close> of \<^verbatim>\<open>gen_offset.c\<close>: every member is a word), and the symbols that
  \<^verbatim>\<open>gen_offset.c\<close> declares for the assembler code.\<close>

datatype member =
    M_zero | M_at | M_v0 | M_v1 | M_a0 | M_a1 | M_a2 | M_a3 | M_t0 | M_t1 | M_t2 | M_t3
    | M_t4 | M_t5 | M_t6 | M_t7 | M_t8 | M_t9 | M_s0 | M_s1 | M_s2 | M_s3 | M_s4 | M_s5
    | M_s6 | M_s7 | M_k0 | M_k1 | M_gp | M_fp | M_sp | M_ra | M_lo | M_hi | M_epc | M_cause
    | M_badva | M_entryhi | M_status

definition context_t :: "member list" where
  "context_t = [
    M_zero, M_at, M_v0, M_v1, M_a0, M_a1, M_a2, M_a3, M_t0, M_t1, M_t2, M_t3,
    M_t4, M_t5, M_t6, M_t7, M_t8, M_t9, M_s0, M_s1, M_s2, M_s3, M_s4, M_s5,
    M_s6, M_s7, M_k0, M_k1, M_gp, M_fp, M_sp, M_ra, M_lo, M_hi, M_epc, M_cause,
    M_badva, M_entryhi, M_status]"

definition offset_of :: "member \<Rightarrow> nat" where
  "offset_of x = 4 * length (takeWhile (\<lambda>y. y \<noteq> x) context_t)"

definition REGS_OFFSET :: "member \<Rightarrow> u32" where
  "REGS_OFFSET x = W (offset_of x)"

text \<open>\<^verbatim>\<open>main\<close> of \<^verbatim>\<open>gen_offset.c\<close>: the declarations of symbols it puts out.\<close>

definition OFFSET_DECLARE :: "string \<Rightarrow> member \<Rightarrow> string \<times> u32" where
  "OFFSET_DECLARE n x = (''REGS_OFFSET_'' @ n, W (offset_of x))"

definition offset_declarations :: "(string \<times> member) list" where
  "offset_declarations = [
    (''ZERO'', M_zero), (''AT'', M_at), (''V0'', M_v0), (''V1'', M_v1), (''A0'', M_a0), (''A1'', M_a1), (''A2'', M_a2), (''A3'', M_a3),
    (''T0'', M_t0), (''T1'', M_t1), (''T2'', M_t2), (''T3'', M_t3), (''T4'', M_t4), (''T5'', M_t5), (''T6'', M_t6), (''T7'', M_t7),
    (''T8'', M_t8), (''T9'', M_t9), (''S0'', M_s0), (''S1'', M_s1), (''S2'', M_s2), (''S3'', M_s3), (''S4'', M_s4), (''S5'', M_s5),
    (''S6'', M_s6), (''S7'', M_s7), (''K0'', M_k0), (''K1'', M_k1), (''GP'', M_gp), (''FP'', M_fp), (''SP'', M_sp), (''RA'', M_ra),
    (''HI'', M_hi), (''LO'', M_lo), (''EPC'', M_epc), (''CAUSE'', M_cause), (''BADVA'', M_badva), (''STATUS'', M_status), (''ENTRYHI'', M_entryhi)]"

definition gen_offset :: "(string \<times> u32) list" where
  "gen_offset = map (\<lambda>(n, x). OFFSET_DECLARE n x) offset_declarations @ [(''CONTEXT_SIZE'', W (4 * length context_t))]"

section \<open>Instructions\<close>

text \<open>The processor as the assembler code sees it: register \<^verbatim>\<open>$zero\<close> reads as zero and ignores writes.\<close>

record asm =
  a_gpr :: "nat \<Rightarrow> u32"
  a_lo :: u32
  a_hi :: u32
  a_cp0 :: cp0
  a_mem :: mem

definition reg :: "asm \<Rightarrow> gpr \<Rightarrow> u32" where
  "reg a r = (if gpr_number r = 0 then 0 else a_gpr a (gpr_number r))"

definition set_reg :: "gpr \<Rightarrow> u32 \<Rightarrow> asm \<Rightarrow> asm" where
  "set_reg r v a = (if gpr_number r = 0 then a else a\<lparr>a_gpr := (a_gpr a)(gpr_number r := v)\<rparr>)"

datatype instr =
    SW gpr u32 gpr | LW gpr u32 gpr
  | MFLO gpr | MFHI gpr | MTLO gpr | MTHI gpr | MFC0 gpr c0r | MTC0 gpr c0r
  | ADDIU gpr u32 | LA gpr u32 | ANDR gpr gpr gpr | ORR gpr gpr gpr | ADDU gpr gpr gpr | SLL gpr gpr nat

primrec instr_step :: "instr \<Rightarrow> asm \<Rightarrow> asm" where
  "instr_step (SW r off base) a = a\<lparr>a_mem := (a_mem a)(reg a base + off := reg a r)\<rparr>"
| "instr_step (LW r off base) a = set_reg r (a_mem a (reg a base + off)) a"
| "instr_step (MFLO r) a = set_reg r (a_lo a) a"
| "instr_step (MFHI r) a = set_reg r (a_hi a) a"
| "instr_step (MTLO r) a = a\<lparr>a_lo := reg a r\<rparr>"
| "instr_step (MTHI r) a = a\<lparr>a_hi := reg a r\<rparr>"
| "instr_step (MFC0 r c) a = set_reg r (read_cp0_register (a_cp0 a) (c0r_number c)) a"
| "instr_step (MTC0 r c) a = a\<lparr>a_cp0 := write_cp0_register (c0r_number c) (reg a r) (a_cp0 a)\<rparr>"
| "instr_step (ADDIU r i) a = set_reg r (reg a r + i) a"
| "instr_step (LA r i) a = set_reg r i a"
| "instr_step (ANDR r x y) a = set_reg r (reg a x AND reg a y) a"
| "instr_step (ORR r x y) a = set_reg r (reg a x OR reg a y) a"
| "instr_step (ADDU r x y) a = set_reg r (reg a x + reg a y) a"
| "instr_step (SLL r x n) a = set_reg r (push_bit n (reg a x)) a"

definition run_code :: "instr list \<Rightarrow> asm \<Rightarrow> asm" where
  "run_code is a = fold instr_step is a"

section \<open>The assembler code\<close>

text \<open>\<^verbatim>\<open>SAVE_REGISTERS\<close> and \<^verbatim>\<open>LOAD_REGISTERS\<close>, register by register in the order of the macros.\<close>

definition saved_registers :: "(gpr \<times> member) list" where
  "saved_registers = [
    (R_zero, M_zero), (R_at, M_at), (R_v0, M_v0), (R_v1, M_v1), (R_a0, M_a0), (R_a1, M_a1),
    (R_a2, M_a2), (R_a3, M_a3), (R_t0, M_t0), (R_t1, M_t1), (R_t2, M_t2), (R_t3, M_t3),
    (R_t4, M_t4), (R_t5, M_t5), (R_t6, M_t6), (R_t7, M_t7), (R_t8, M_t8), (R_t9, M_t9),
    (R_s0, M_s0), (R_s1, M_s1), (R_s2, M_s2), (R_s3, M_s3), (R_s4, M_s4), (R_s5, M_s5),
    (R_s6, M_s6), (R_s7, M_s7), (R_gp, M_gp), (R_fp, M_fp), (R_ra, M_ra)]"

definition loaded_registers :: "(gpr \<times> member) list" where
  "loaded_registers = [
    (R_ra, M_ra), (R_fp, M_fp), (R_gp, M_gp), (R_s7, M_s7), (R_s6, M_s6), (R_s5, M_s5),
    (R_s4, M_s4), (R_s3, M_s3), (R_s2, M_s2), (R_s1, M_s1), (R_s0, M_s0), (R_t9, M_t9),
    (R_t8, M_t8), (R_t7, M_t7), (R_t6, M_t6), (R_t5, M_t5), (R_t4, M_t4), (R_t3, M_t3),
    (R_t2, M_t2), (R_t1, M_t1), (R_t0, M_t0), (R_a3, M_a3), (R_a2, M_a2), (R_a1, M_a1),
    (R_a0, M_a0), (R_v1, M_v1), (R_v0, M_v0), (R_at, M_at), (R_zero, M_zero)]"

definition SAVE_REGISTERS_code :: "gpr \<Rightarrow> instr list" where
  "SAVE_REGISTERS_code base = map (\<lambda>(r, x). SW r (REGS_OFFSET x) base) saved_registers"

definition LOAD_REGISTERS_code :: "gpr \<Rightarrow> instr list" where
  "LOAD_REGISTERS_code base = map (\<lambda>(r, x). LW r (REGS_OFFSET x) base) loaded_registers"

text \<open>\<^verbatim>\<open>cpu_switch_context\<close>. The last instruction is the one in the delay slot of the jump to \<^verbatim>\<open>$ra\<close>.\<close>

definition cpu_switch_context_code :: "instr list" where
  "cpu_switch_context_code =
     [ADDIU R_sp (- CONTEXT_SIZE), SW R_sp 0 R_a0] @
     SAVE_REGISTERS_code R_sp @
     [MFLO R_t0, MFHI R_t1, SW R_t0 (REGS_OFFSET M_lo) R_sp, SW R_t1 (REGS_OFFSET M_hi) R_sp,
      MFC0 R_t0 C0_status, SW R_t0 (REGS_OFFSET M_status) R_sp, LA R_t1 (NOT CP0_STATUS_IE_MASK), ANDR R_t0 R_t0 R_t1, MTC0 R_t0 C0_status,
      MFC0 R_t0 C0_entryhi, LA R_t1 (NOT (fst (CP0_ENTRYHI ENTRYHI_ASID))), ANDR R_t0 R_t0 R_t1, ORR R_t0 R_t0 R_a2, MTC0 R_t0 C0_entryhi,
      LW R_sp 0 R_a1,
      LW R_t0 (REGS_OFFSET M_lo) R_sp, LW R_t1 (REGS_OFFSET M_hi) R_sp, MTLO R_t0, MTHI R_t1] @
     LOAD_REGISTERS_code R_sp @
     [LW R_k0 (REGS_OFFSET M_status) R_sp, ADDIU R_sp CONTEXT_SIZE, MTC0 R_k0 C0_status]"

definition cpu_switch_context_asm :: "asm \<Rightarrow> u32 \<times> asm" where
  "cpu_switch_context_asm a = (let a' = run_code cpu_switch_context_code a in (reg a' R_ra, a'))"

section \<open>Contexts in memory and in registers\<close>

text \<open>A context given by its members, the context in memory at an address, and the one in the registers; \<open>x\<close> are the members that no register holds.\<close>

definition ctx_of :: "(member \<Rightarrow> u32) \<Rightarrow> ctx" where
  "ctx_of f = \<lparr>c_zero = f M_zero, c_at = f M_at, c_v0 = f M_v0, c_v1 = f M_v1, c_a0 = f M_a0, c_a1 = f M_a1, c_a2 = f M_a2, c_a3 = f M_a3,
    c_t0 = f M_t0, c_t1 = f M_t1, c_t2 = f M_t2, c_t3 = f M_t3, c_t4 = f M_t4, c_t5 = f M_t5, c_t6 = f M_t6, c_t7 = f M_t7,
    c_t8 = f M_t8, c_t9 = f M_t9, c_s0 = f M_s0, c_s1 = f M_s1, c_s2 = f M_s2, c_s3 = f M_s3, c_s4 = f M_s4, c_s5 = f M_s5,
    c_s6 = f M_s6, c_s7 = f M_s7, c_k0 = f M_k0, c_k1 = f M_k1, c_gp = f M_gp, c_fp = f M_fp, c_sp = f M_sp, c_ra = f M_ra,
    c_lo = f M_lo, c_hi = f M_hi, c_epc = f M_epc, c_cause = f M_cause, c_badva = f M_badva, c_entryhi = f M_entryhi, c_status = f M_status\<rparr>"

definition ctx_at :: "mem \<Rightarrow> u32 \<Rightarrow> ctx" where
  "ctx_at m p = ctx_of (\<lambda>x. m (p + REGS_OFFSET x))"

primrec gpr_of :: "member \<Rightarrow> gpr option" where
  "gpr_of M_zero = Some R_zero" | "gpr_of M_at = Some R_at" | "gpr_of M_v0 = Some R_v0" | "gpr_of M_v1 = Some R_v1"
| "gpr_of M_a0 = Some R_a0" | "gpr_of M_a1 = Some R_a1" | "gpr_of M_a2 = Some R_a2" | "gpr_of M_a3 = Some R_a3"
| "gpr_of M_t0 = Some R_t0" | "gpr_of M_t1 = Some R_t1" | "gpr_of M_t2 = Some R_t2" | "gpr_of M_t3 = Some R_t3"
| "gpr_of M_t4 = Some R_t4" | "gpr_of M_t5 = Some R_t5" | "gpr_of M_t6 = Some R_t6" | "gpr_of M_t7 = Some R_t7"
| "gpr_of M_t8 = Some R_t8" | "gpr_of M_t9 = Some R_t9" | "gpr_of M_s0 = Some R_s0" | "gpr_of M_s1 = Some R_s1"
| "gpr_of M_s2 = Some R_s2" | "gpr_of M_s3 = Some R_s3" | "gpr_of M_s4 = Some R_s4" | "gpr_of M_s5 = Some R_s5"
| "gpr_of M_s6 = Some R_s6" | "gpr_of M_s7 = Some R_s7" | "gpr_of M_k0 = Some R_k0" | "gpr_of M_k1 = Some R_k1"
| "gpr_of M_gp = Some R_gp" | "gpr_of M_fp = Some R_fp" | "gpr_of M_sp = Some R_sp" | "gpr_of M_ra = Some R_ra"
| "gpr_of M_lo = None" | "gpr_of M_hi = None" | "gpr_of M_epc = None" | "gpr_of M_cause = None"
| "gpr_of M_badva = None" | "gpr_of M_entryhi = None" | "gpr_of M_status = None"

definition reg_member :: "asm \<Rightarrow> (member \<Rightarrow> u32) \<Rightarrow> member \<Rightarrow> u32" where
  "reg_member a x = (\<lambda>m. case gpr_of m of Some r \<Rightarrow> reg a r | None \<Rightarrow> if m = M_lo then a_lo a else if m = M_hi then a_hi a else x m)"

section \<open>Layout\<close>

lemma in_context_t [simp]: "x \<in> set context_t"
  by (cases x) (simp_all add: context_t_def)

lemma distinct_context_t: "distinct context_t"
  by (simp add: context_t_def)

lemma length_context_t: "length context_t = 39"
  by (simp add: context_t_def)

lemma position_less: "length (takeWhile (\<lambda>y. y \<noteq> x) context_t) < 39"
  by (cases x) (simp_all add: context_t_def)

lemma position_nth: "context_t ! length (takeWhile (\<lambda>y. y \<noteq> x) context_t) = x"
  using nth_length_takeWhile [of "\<lambda>y. y \<noteq> x" context_t] position_less by (simp add: length_context_t)

lemma offset_of_less: "offset_of x + 4 \<le> 156" and offset_of_aligned: "4 dvd offset_of x"
  using position_less [of x] by (simp_all add: offset_of_def)

lemma offset_of_inj: "offset_of x = offset_of y \<longleftrightarrow> x = y"
  by (auto simp: offset_of_def) (metis position_nth)

lemma REGS_OFFSET_inj [simp]: "REGS_OFFSET x = REGS_OFFSET y \<longleftrightarrow> x = y"
  using offset_of_less [of x] offset_of_less [of y] by (simp add: REGS_OFFSET_def W_eq_iff offset_of_inj)

text \<open>\<^verbatim>\<open>gen_offset.c\<close> declares each symbol once and the offset of every member of \<^verbatim>\<open>context_t\<close> under some symbol (which one, the table above says), and the words at these offsets are aligned, do not overlap and fill the \<^verbatim>\<open>CONTEXT_SIZE\<close> bytes of a frame.\<close>

theorem context_layout:
  "distinct (map fst gen_offset) \<and> (\<forall>x. \<exists>n. (''REGS_OFFSET_'' @ n, REGS_OFFSET x) \<in> set gen_offset) \<and>
   (''CONTEXT_SIZE'', CONTEXT_SIZE) \<in> set gen_offset \<and>
   offset_of ` UNIV = (\<lambda>i. 4 * i) ` {..<39} \<and> inj offset_of \<and> unat CONTEXT_SIZE = 4 * 39"
proof (intro conjI allI)
  show "distinct (map fst gen_offset)" by code_simp
  show "\<exists>n. (''REGS_OFFSET_'' @ n, REGS_OFFSET x) \<in> set gen_offset" for x
  proof -
    have "x \<in> snd ` set offset_declarations" by (cases x) (simp_all add: offset_declarations_def)
    then have "\<exists>n. OFFSET_DECLARE n x \<in> set gen_offset" by (force simp: gen_offset_def)
    then show ?thesis by (simp add: OFFSET_DECLARE_def REGS_OFFSET_def)
  qed
  show "(''CONTEXT_SIZE'', CONTEXT_SIZE) \<in> set gen_offset" by (simp add: gen_offset_def length_context_t CONTEXT_SIZE_def)
  show "inj offset_of" by (simp add: inj_def offset_of_inj)
  show "unat CONTEXT_SIZE = 4 * 39" by (simp add: CONTEXT_SIZE_def)
  have "i \<in> range (\<lambda>x. length (takeWhile (\<lambda>y. y \<noteq> x) context_t))" if "i < 39" for i
    using that position_nth [of "context_t ! i"] distinct_context_t length_context_t position_less [of "context_t ! i"]
    by (metis nth_eq_iff_index_eq rangeI)
  then show "offset_of ` UNIV = (\<lambda>i. 4 * i) ` {..<39}"
    using position_less by (auto simp: offset_of_def image_iff)
qed

section \<open>Register transfers\<close>

lemma all_gprs: "distinct (map gpr_number [R_zero, R_at, R_v0, R_v1, R_a0, R_a1, R_a2, R_a3, R_t0, R_t1, R_t2, R_t3, R_t4, R_t5, R_t6, R_t7, R_s0, R_s1, R_s2, R_s3, R_s4, R_s5, R_s6, R_s7, R_t8, R_t9, R_k0, R_k1, R_gp, R_sp, R_fp, R_ra])" "r \<in> set [R_zero, R_at, R_v0, R_v1, R_a0, R_a1, R_a2, R_a3, R_t0, R_t1, R_t2, R_t3, R_t4, R_t5, R_t6, R_t7, R_s0, R_s1, R_s2, R_s3, R_s4, R_s5, R_s6, R_s7, R_t8, R_t9, R_k0, R_k1, R_gp, R_sp, R_fp, R_ra]"
  by (simp, cases r, simp_all)

lemma gpr_number_inj [simp]: "gpr_number r = gpr_number r' \<longleftrightarrow> r = r'"
  using all_gprs(1) all_gprs(2) [of r] all_gprs(2) [of r'] unfolding distinct_map by (meson inj_onD)

lemma gpr_number_0 [simp]: "gpr_number r = 0 \<longleftrightarrow> r = R_zero"
  using gpr_number_inj [of r R_zero] by simp

lemma reg_set_reg [simp]: "reg (set_reg r v a) r' = (if r' \<noteq> R_zero \<and> r' = r then v else reg a r')"
  by (auto simp: reg_def set_reg_def)

lemma reg_zero [simp]: "reg a R_zero = 0"
  by (simp add: reg_def)

lemma set_reg_frame [simp]:
  "a_lo (set_reg r v a) = a_lo a" "a_hi (set_reg r v a) = a_hi a" "a_cp0 (set_reg r v a) = a_cp0 a" "a_mem (set_reg r v a) = a_mem a"
  by (simp_all add: set_reg_def)

lemma reg_frame [simp]:
  "reg (a\<lparr>a_mem := m\<rparr>) = reg a" "reg (a\<lparr>a_lo := v\<rparr>) = reg a" "reg (a\<lparr>a_hi := v\<rparr>) = reg a" "reg (a\<lparr>a_cp0 := c\<rparr>) = reg a"
  by (simp_all add: reg_def fun_eq_iff)

lemma run_simps [simp]: "run_code [] a = a" "run_code (i # is) a = run_code is (instr_step i a)" "run_code (is @ js) a = run_code js (run_code is a)"
  by (simp_all add: run_code_def)

definition stored :: "(gpr \<times> member) list \<Rightarrow> (gpr \<Rightarrow> u32) \<Rightarrow> u32 \<Rightarrow> mem \<Rightarrow> mem" where
  "stored rs v b m = fold (\<lambda>(r, x) m. m(b + REGS_OFFSET x := v r)) rs m"

lemma run_stores:
  "run_code (map (\<lambda>(r, x). SW r (REGS_OFFSET x) base) rs) a = a\<lparr>a_mem := stored rs (reg a) (reg a base) (a_mem a)\<rparr>"
  by (induction rs arbitrary: a) (auto simp: stored_def)

lemma stored_member:
  "distinct (map snd rs) \<Longrightarrow> stored rs v b m (b + REGS_OFFSET y) =
     (case map_of (map (\<lambda>(r, x). (x, r)) rs) y of Some r \<Rightarrow> v r | None \<Rightarrow> m (b + REGS_OFFSET y))"
proof (induction rs arbitrary: m)
  case (Cons p rs)
  have "map_of (map (\<lambda>(r, x). (x, r)) rs) (snd p) = None" using Cons.prems by (auto simp: map_of_eq_None_iff image_iff)
  then show ?case using Cons by (cases p) (auto simp: stored_def split: option.split)
qed (simp add: stored_def)

definition frame_cells :: "u32 \<Rightarrow> u32 set" where
  "frame_cells p = range (\<lambda>x. p + REGS_OFFSET x)"

lemma in_cells [simp]: "p + REGS_OFFSET x \<in> frame_cells p"
  by (simp add: frame_cells_def)

lemma stored_other: "q \<notin> frame_cells b \<Longrightarrow> stored rs v b m q = m q"
  by (induction rs arbitrary: m) (auto simp: stored_def frame_cells_def)

lemma run_loads_frame:
  "a_lo (run_code (map (\<lambda>(r, x). LW r (REGS_OFFSET x) base) rs) a) = a_lo a"
  "a_hi (run_code (map (\<lambda>(r, x). LW r (REGS_OFFSET x) base) rs) a) = a_hi a"
  "a_cp0 (run_code (map (\<lambda>(r, x). LW r (REGS_OFFSET x) base) rs) a) = a_cp0 a"
  "a_mem (run_code (map (\<lambda>(r, x). LW r (REGS_OFFSET x) base) rs) a) = a_mem a"
  by (induction rs arbitrary: a) auto

lemma reg_loads:
  "base \<notin> fst ` set rs \<Longrightarrow> distinct (map fst rs) \<Longrightarrow> reg (run_code (map (\<lambda>(r, x). LW r (REGS_OFFSET x) base) rs) a) r =
     (case map_of rs r of Some x \<Rightarrow> if r = R_zero then 0 else a_mem a (reg a base + REGS_OFFSET x) | None \<Rightarrow> reg a r)"
proof (induction rs arbitrary: a)
  case (Cons p rs)
  have "map_of rs (fst p) = None" using Cons.prems(2) by (simp add: map_of_eq_None_iff)
  then show ?case using Cons by (cases p) (auto split: option.split)
qed simp

lemma saved_distinct: "distinct (map snd saved_registers)"
  by (simp add: saved_registers_def)

lemma loaded_distinct: "distinct (map fst loaded_registers)" "R_sp \<notin> fst ` set loaded_registers"
  by (simp_all add: loaded_registers_def)

lemma save_code: "run_code (SAVE_REGISTERS_code base) a = a\<lparr>a_mem := stored saved_registers (reg a) (reg a base) (a_mem a)\<rparr>"
  unfolding SAVE_REGISTERS_code_def by (rule run_stores)

lemma load_code:
  "a_lo (run_code (LOAD_REGISTERS_code base) a) = a_lo a" "a_hi (run_code (LOAD_REGISTERS_code base) a) = a_hi a"
  "a_cp0 (run_code (LOAD_REGISTERS_code base) a) = a_cp0 a" "a_mem (run_code (LOAD_REGISTERS_code base) a) = a_mem a"
  "reg (run_code (LOAD_REGISTERS_code R_sp) a) r =
     (case map_of loaded_registers r of Some x \<Rightarrow> if r = R_zero then 0 else a_mem a (reg a R_sp + REGS_OFFSET x) | None \<Rightarrow> reg a r)"
  unfolding LOAD_REGISTERS_code_def using run_loads_frame reg_loads [OF loaded_distinct(2,1)] by auto

end
