(* ===== verification/Asm_Code.thy ===== *)
theory Asm_Code
  imports Asm_Layout
begin

text \<open>
  The assembler code of the context switch and of the general exception handler (\<^verbatim>\<open>kernel/head.S\<close>), instruction by instruction on registers and memory. It refines the definitions of
  \<open>Kernel\<close> and \<open>Entry\<close>, which work on contexts as a whole.
\<close>

section \<open>The context switch\<close>

definition saved_members :: "member set" where "saved_members = snd ` set saved_registers"

lemma saved_lookup: "map_of (map (\<lambda>(r, x). (x, r)) saved_registers) y = (if y \<in> saved_members then gpr_of y else None)"
  by (cases y) (simp_all add: saved_registers_def saved_members_def)

lemma saved_gpr: "y \<in> saved_members \<Longrightarrow> \<exists>r. gpr_of y = Some r \<and> r \<notin> {R_sp, R_k0, R_k1}"
  by (cases y) (simp_all add: saved_registers_def saved_members_def)

lemma saved_others [simp]: "M_lo \<notin> saved_members" "M_hi \<notin> saved_members" "M_status \<notin> saved_members" "M_sp \<notin> saved_members"
  "M_epc \<notin> saved_members" "M_cause \<notin> saved_members" "M_badva \<notin> saved_members" "M_entryhi \<notin> saved_members"
  by (simp_all add: saved_registers_def saved_members_def)

lemma loaded_lookup: "gpr_of x = Some r \<Longrightarrow> map_of loaded_registers r = (if r \<in> {R_sp, R_k0, R_k1} then None else Some x)"
  by (cases x) (auto simp: loaded_registers_def)

lemma stored_saved:
  "stored saved_registers v b m (b + REGS_OFFSET y) = (if y \<in> saved_members then v (the (gpr_of y)) else m (b + REGS_OFFSET y))"
  using saved_gpr [of y] by (auto simp: stored_member [OF saved_distinct] saved_lookup)

lemma step_set_sp: "reg (set_reg R_sp v a) = (reg a)(R_sp := v)"
  by (auto simp: fun_eq_iff)

lemma switch_run:
  fixes a :: asm
  defines "sp \<equiv> reg a R_sp - CONTEXT_SIZE"
  defines "m \<equiv> (stored saved_registers ((reg a)(R_sp := sp)) sp ((a_mem a)(reg a R_a0 := sp)))
    (sp + REGS_OFFSET M_lo := a_lo a, sp + REGS_OFFSET M_hi := a_hi a, sp + REGS_OFFSET M_status := r_status (a_cp0 a))"
  defines "sp' \<equiv> m (reg a R_a1)"
  defines "a' \<equiv> run_code cpu_switch_context_code a"
  shows "a_mem a' = m" and "a_lo a' = m (sp' + REGS_OFFSET M_lo)" and "a_hi a' = m (sp' + REGS_OFFSET M_hi)"
    and "a_cp0 a' = (a_cp0 a)\<lparr>r_entryhi := (r_entryhi (a_cp0 a) AND NOT (fst (CP0_ENTRYHI ENTRYHI_ASID))) OR reg a R_a2,
      r_status := m (sp' + REGS_OFFSET M_status)\<rparr>"
    and "reg a' r = (if r = R_sp then sp' + CONTEXT_SIZE else if r = R_k0 then m (sp' + REGS_OFFSET M_status)
      else case map_of loaded_registers r of Some x \<Rightarrow> if r = R_zero then 0 else m (sp' + REGS_OFFSET x) | None \<Rightarrow> reg a r)"
proof -
  define a1 where "a1 = run_code ([ADDIU R_sp (- CONTEXT_SIZE), SW R_sp 0 R_a0] @ SAVE_REGISTERS_code R_sp) a"
  have a1: "reg a1 = (reg a)(R_sp := sp)" "a_lo a1 = a_lo a" "a_hi a1 = a_hi a" "a_cp0 a1 = a_cp0 a"
    "a_mem a1 = stored saved_registers ((reg a)(R_sp := sp)) sp ((a_mem a)(reg a R_a0 := sp))"
    by (simp_all add: a1_def save_code step_set_sp sp_def)
  have a': "a' = run_code (LOAD_REGISTERS_code R_sp @ [LW R_k0 (REGS_OFFSET M_status) R_sp, ADDIU R_sp CONTEXT_SIZE, MTC0 R_k0 C0_status])
     (run_code [MFLO R_t0, MFHI R_t1, SW R_t0 (REGS_OFFSET M_lo) R_sp, SW R_t1 (REGS_OFFSET M_hi) R_sp,
      MFC0 R_t0 C0_status, SW R_t0 (REGS_OFFSET M_status) R_sp, LA R_t1 (NOT CP0_STATUS_IE_MASK), ANDR R_t0 R_t0 R_t1, MTC0 R_t0 C0_status,
      MFC0 R_t0 C0_entryhi, LA R_t1 (NOT (fst (CP0_ENTRYHI ENTRYHI_ASID))), ANDR R_t0 R_t0 R_t1, ORR R_t0 R_t0 R_a2, MTC0 R_t0 C0_entryhi,
      LW R_sp 0 R_a1,
      LW R_t0 (REGS_OFFSET M_lo) R_sp, LW R_t1 (REGS_OFFSET M_hi) R_sp, MTLO R_t0, MTHI R_t1] a1)" (is "_ = run_code _ ?a2")
    unfolding a'_def a1_def cpu_switch_context_code_def by (simp only: run_simps)
  define a2 where "a2 = ?a2"
  note a'2 = a' [folded a2_def]
  have a2: "a_mem a2 = m" "a_lo a2 = m (sp' + REGS_OFFSET M_lo)" "a_hi a2 = m (sp' + REGS_OFFSET M_hi)"
    "reg a2 R_sp = sp'" "r \<notin> {R_sp, R_t0, R_t1} \<Longrightarrow> reg a2 r = reg a r"
    "a_cp0 a2 = (a_cp0 a)\<lparr>r_entryhi := (r_entryhi (a_cp0 a) AND NOT (fst (CP0_ENTRYHI ENTRYHI_ASID))) OR reg a R_a2,
      r_status := r_status (a_cp0 a) AND NOT CP0_STATUS_IE_MASK\<rparr>" for r
    by (simp_all add: a2_def a1 read_cp0_register_def write_cp0_register_def m_def sp'_def fun_upd_same fun_upd_other del: fun_upd_apply)
  show "a_mem a' = m" "a_lo a' = m (sp' + REGS_OFFSET M_lo)" "a_hi a' = m (sp' + REGS_OFFSET M_hi)"
    by (simp_all add: a'2 a2 load_code)
  have sp: "map_of loaded_registers R_sp = None" using loaded_lookup [of M_sp] by simp
  show "a_cp0 a' = (a_cp0 a)\<lparr>r_entryhi := (r_entryhi (a_cp0 a) AND NOT (fst (CP0_ENTRYHI ENTRYHI_ASID))) OR reg a R_a2,
      r_status := m (sp' + REGS_OFFSET M_status)\<rparr>"
    by (simp add: a'2 a2 load_code sp write_cp0_register_def)
  have "map_of loaded_registers R_t0 = Some M_t0" "map_of loaded_registers R_t1 = Some M_t1"
    using loaded_lookup [of M_t0] loaded_lookup [of M_t1] by simp_all
  then show "reg a' r = (if r = R_sp then sp' + CONTEXT_SIZE else if r = R_k0 then m (sp' + REGS_OFFSET M_status)
      else case map_of loaded_registers r of Some x \<Rightarrow> if r = R_zero then 0 else m (sp' + REGS_OFFSET x) | None \<Rightarrow> reg a r)"
    using a2(5) [of r] by (cases "r \<in> {R_t0, R_t1}") (auto simp: a'2 a2(1-4) load_code sp split: option.split)
qed

text \<open>The state of the kernel and the machine: registers and coprocessor registers agree, a set of frames is in memory as the contexts say, and the member \<^verbatim>\<open>stack_top\<close> of the
  threads is.\<close>

definition stack_top_addr :: "u32 \<Rightarrow> u32" where "stack_top_addr t = t + 28"

definition regs_rel :: "asm \<Rightarrow> ctx \<Rightarrow> bool" where
  "regs_rel a c \<longleftrightarrow> (\<exists>x. c = ctx_of (reg_member a x))"

definition asm_rel :: "u32 set \<Rightarrow> u32 set \<Rightarrow> asm \<Rightarrow> ('fs, 'z) kernel_scheme \<Rightarrow> bool" where
  "asm_rel P T a s \<longleftrightarrow> regs_rel a (k_regs s) \<and> a_cp0 a = k_cpu s \<and> (\<forall>p \<in> P. ctx_at (a_mem a) p = k_ctx s p) \<and>
     (\<forall>t \<in> T. a_mem a (stack_top_addr t) = stack_top (thr s t))"

definition frames_apart :: "u32 set \<Rightarrow> u32 set \<Rightarrow> bool" where
  "frames_apart P C \<longleftrightarrow> (\<forall>p \<in> P. C \<inter> frame_cells p = {} \<and> (\<forall>q \<in> P. p \<noteq> q \<longrightarrow> frame_cells p \<inter> frame_cells q = {}))"

lemma SAVE_REGISTERS_ctx: "SAVE_REGISTERS (ctx_of f) (ctx_of g) = ctx_of (\<lambda>x. if x \<in> saved_members then f x else g x)"
  by (simp add: SAVE_REGISTERS_def ctx_of_def saved_members_def saved_registers_def)

definition loaded_members :: "member set" where
  "loaded_members = {x. \<exists>r. gpr_of x = Some r \<and> r \<notin> {R_zero, R_sp, R_k0, R_k1}}"

lemma LOAD_REGISTERS_ctx: "LOAD_REGISTERS (ctx_of f) (ctx_of g) = ctx_of (\<lambda>x. if x \<in> loaded_members then f x else g x)"
  by (simp add: LOAD_REGISTERS_def ctx_of_def loaded_members_def)

lemma ctx_of_inject: "ctx_of f = ctx_of g \<Longrightarrow> f x = g x"
  by (cases x) (simp_all add: ctx_of_def)

lemma ctx_of_eqI: "(\<And>x. f x = g x) \<Longrightarrow> ctx_of f = ctx_of g"
  by (simp add: ctx_of_def)

lemma ctx_of_updates:
  "(ctx_of f)\<lparr>c_lo := v\<rparr> = ctx_of (f(M_lo := v))" "(ctx_of f)\<lparr>c_hi := v\<rparr> = ctx_of (f(M_hi := v))" "(ctx_of f)\<lparr>c_status := v\<rparr> = ctx_of (f(M_status := v))"
  "(ctx_of f)\<lparr>c_k0 := v\<rparr> = ctx_of (f(M_k0 := v))" "(ctx_of f)\<lparr>c_sp := v\<rparr> = ctx_of (f(M_sp := v))" "(ctx_of f)\<lparr>c_k1 := v\<rparr> = ctx_of (f(M_k1 := v))"
  "(ctx_of f)\<lparr>c_epc := v\<rparr> = ctx_of (f(M_epc := v))" "(ctx_of f)\<lparr>c_cause := v\<rparr> = ctx_of (f(M_cause := v))"
  "(ctx_of f)\<lparr>c_badva := v\<rparr> = ctx_of (f(M_badva := v))" "(ctx_of f)\<lparr>c_entryhi := v\<rparr> = ctx_of (f(M_entryhi := v))"
  "(ctx_of f)\<lparr>c_a0 := v\<rparr> = ctx_of (f(M_a0 := v))"
  by (simp_all add: ctx_of_def)

lemma ctx_of_members [simp]:
  "c_lo (ctx_of f) = f M_lo" "c_hi (ctx_of f) = f M_hi" "c_status (ctx_of f) = f M_status" "c_sp (ctx_of f) = f M_sp" "c_epc (ctx_of f) = f M_epc" "c_ra (ctx_of f) = f M_ra"
  by (simp_all add: ctx_of_def)

lemma reg_member_simps [simp]:
  "reg_member a x M_sp = reg a R_sp" "reg_member a x M_lo = a_lo a" "reg_member a x M_hi = a_hi a" "reg_member a x M_ra = reg a R_ra"
  by (simp_all add: reg_member_def)

lemma ctx_at_updates:
  "ctx_at (m(p + REGS_OFFSET M_lo := v)) p = (ctx_at m p)\<lparr>c_lo := v\<rparr>" "ctx_at (m(p + REGS_OFFSET M_hi := v)) p = (ctx_at m p)\<lparr>c_hi := v\<rparr>"
  "ctx_at (m(p + REGS_OFFSET M_epc := v)) p = (ctx_at m p)\<lparr>c_epc := v\<rparr>" "ctx_at (m(p + REGS_OFFSET M_cause := v)) p = (ctx_at m p)\<lparr>c_cause := v\<rparr>"
  "ctx_at (m(p + REGS_OFFSET M_badva := v)) p = (ctx_at m p)\<lparr>c_badva := v\<rparr>" "ctx_at (m(p + REGS_OFFSET M_entryhi := v)) p = (ctx_at m p)\<lparr>c_entryhi := v\<rparr>"
  "ctx_at (m(p + REGS_OFFSET M_status := v)) p = (ctx_at m p)\<lparr>c_status := v\<rparr>"
  by (auto simp: ctx_at_def ctx_of_updates intro!: ctx_of_eqI)

lemma ctx_at_stored:
  assumes "\<And>y r. gpr_of y = Some r \<Longrightarrow> r \<notin> {R_sp, R_k0, R_k1} \<Longrightarrow> v r = f y"
  shows "ctx_at (stored saved_registers v p m) p = SAVE_REGISTERS (ctx_of f) (ctx_at m p)"
  using assms saved_gpr by (fastforce simp: ctx_at_def SAVE_REGISTERS_ctx stored_saved intro!: ctx_of_eqI)

lemma ctx_at_away: "(\<And>q. q \<in> frame_cells p \<Longrightarrow> m q = m' q) \<Longrightarrow> ctx_at m p = ctx_at m' p"
  by (simp add: ctx_at_def)

lemma switch_result:
  fixes s :: "('fs, 'z) kernel_scheme" and old new :: u32 and as :: u8
  assumes sp: "sp = c_sp (k_regs s) - CONTEXT_SIZE" and st: "st = (\<lambda>t. if t = old \<and> old \<noteq> NULL then sp else stack_top (thr s t))"
  defines "k \<equiv> cpu_switch_context old new as s"
  shows "stack_top (thr k t) = st t"
    and "k_ctx k = (k_ctx s)(sp := (SAVE_REGISTERS (k_regs s) (k_ctx s sp))\<lparr>c_lo := c_lo (k_regs s), c_hi := c_hi (k_regs s), c_status := r_status (k_cpu s)\<rparr>)"
    and "k_regs k = (LOAD_REGISTERS (k_ctx k (st new)) (k_regs s))
      \<lparr>c_lo := c_lo (k_ctx k (st new)), c_hi := c_hi (k_ctx k (st new)), c_k0 := c_status (k_ctx k (st new)), c_sp := st new + CONTEXT_SIZE\<rparr>"
    and "k_cpu k = (k_cpu s)\<lparr>r_entryhi := (r_entryhi (k_cpu s) AND NOT (fst (CP0_ENTRYHI ENTRYHI_ASID))) OR ucast as, r_status := c_status (k_ctx k (st new))\<rparr>"
  by (simp_all add: k_def st sp cpu_switch_context_def Let_def upd_thread_def cp0_read_defs cp0_write_defs)

lemma ctx_at_loaded:
  assumes "\<And>x r. gpr_of x = Some r \<Longrightarrow> reg a' r = (if r = R_sp then sp else if r = R_k0 then k0 else if r = R_k1 then reg a R_k1 else if r = R_zero then 0 else f x)"
    and "a_lo a' = f M_lo" and "a_hi a' = f M_hi"
  shows "(LOAD_REGISTERS (ctx_of f) (ctx_of (reg_member a y)))\<lparr>c_lo := f M_lo, c_hi := f M_hi, c_k0 := k0, c_sp := sp\<rparr> = ctx_of (reg_member a' y)"
proof -
  have "((\<lambda>x. if x \<in> loaded_members then f x else reg_member a y x)(M_lo := f M_lo, M_hi := f M_hi, M_k0 := k0, M_sp := sp)) x = reg_member a' y x" for x
    using assms(1) [of x] assms(2,3) by (cases x) (simp_all add: reg_member_def loaded_members_def)
  then show ?thesis unfolding LOAD_REGISTERS_ctx ctx_of_updates by (rule ctx_of_eqI)
qed

text \<open>C3: The assembler code of \<^verbatim>\<open>cpu_switch_context\<close> does what the model of the context switch says: run_code on the registers and the memory of the machine, with the addresses of the two
  \<^verbatim>\<open>stack_top\<close> members and the ASID as its arguments, it ends with the registers, the coprocessor registers, the stack tops and the frames of the new state, and returns to the address
  in the frame of the new thread. The frame it makes must not overlap another frame or a \<^verbatim>\<open>stack_top\<close>.\<close>

theorem switch_code_refines:
  fixes s :: "('fs, 'z) kernel_scheme"
  assumes R: "asm_rel P T a s" and A: "frames_apart P (stack_top_addr ` T)"
    and P: "c_sp (k_regs s) - CONTEXT_SIZE \<in> P" "stack_top (thr s new) \<in> P" and T: "new \<in> T"
    and old: "if old = NULL then reg a R_a0 \<notin> stack_top_addr ` T \<and> (\<forall>p \<in> P. reg a R_a0 \<notin> frame_cells p) \<and> NULL \<notin> T else old \<in> T \<and> reg a R_a0 = stack_top_addr old"
    and args: "reg a R_a1 = stack_top_addr new" "reg a R_a2 = ucast as"
  shows "\<exists>a'. cpu_switch_context_asm a = (c_ra (k_regs (cpu_switch_context old new as s)), a') \<and> asm_rel P T a' (cpu_switch_context old new as s)"
proof -
  let ?k = "cpu_switch_context old new as s"
  obtain x where x: "k_regs s = ctx_of (reg_member a x)" using R by (auto simp: asm_rel_def regs_rel_def)
  define sp where "sp = reg a R_sp - CONTEXT_SIZE"
  define m where "m = (stored saved_registers ((reg a)(R_sp := sp)) sp ((a_mem a)(reg a R_a0 := sp)))
    (sp + REGS_OFFSET M_lo := a_lo a, sp + REGS_OFFSET M_hi := a_hi a, sp + REGS_OFFSET M_status := r_status (a_cp0 a))"
  define a' where "a' = run_code cpu_switch_context_code a"
  note run = switch_run [of a, folded sp_def, folded m_def, folded a'_def]
  have sp: "c_sp (k_regs s) - CONTEXT_SIZE = sp" "sp \<in> P" using P(1) by (simp_all add: x sp_def)
  define st where "st = (\<lambda>t. if t = old \<and> old \<noteq> NULL then sp else stack_top (thr s t))"
  note K = switch_result [OF sp(1) [symmetric] st_def, of new as]
  have a0: "reg a R_a0 \<notin> frame_cells p" if "p \<in> P" for p
    using old A that by (auto simp: frames_apart_def split: if_splits)
  have away: "m q = (if q = reg a R_a0 then sp else a_mem a q)" if "q \<notin> frame_cells sp" for q
    using that by (auto simp: m_def stored_other)
  have tops: "m (stack_top_addr t) = st t" if "t \<in> T" for t
  proof -
    have "stack_top_addr t \<notin> frame_cells sp" using A sp(2) that by (auto simp: frames_apart_def)
    moreover have "a_mem a (stack_top_addr t) = stack_top (thr s t)" using R that by (simp add: asm_rel_def)
    moreover have "stack_top_addr t = stack_top_addr t' \<longleftrightarrow> t = t'" for t' by (simp add: stack_top_addr_def)
    ultimately show ?thesis using old that by (auto simp: away st_def split: if_splits)
  qed
  have new: "m (reg a R_a1) = st new" using tops [OF T] args(1) by simp
  have stP: "st new \<in> P" using P(2) sp(2) by (simp add: st_def)
  have frames: "ctx_at m p = k_ctx ?k p" if p: "p \<in> P" for p
  proof (cases "p = sp")
    case True
    have "ctx_at ((a_mem a)(reg a R_a0 := sp)) sp = ctx_at (a_mem a) sp" by (rule ctx_at_away) (use a0 [OF sp(2)] in auto)
    then have "ctx_at ((a_mem a)(reg a R_a0 := sp)) sp = k_ctx s sp" using R sp(2) by (simp add: asm_rel_def)
    then show ?thesis using R ctx_at_stored [of "(reg a)(R_sp := sp)" "reg_member a x" sp] by (simp add: True m_def ctx_at_updates K(2) x asm_rel_def reg_member_def)
  next
    case False
    then have "frame_cells p \<inter> frame_cells sp = {}" using A p sp(2) by (simp add: frames_apart_def)
    then have "ctx_at m p = ctx_at (a_mem a) p" using away a0 [OF p] by (intro ctx_at_away) (metis disjoint_iff)
    then show ?thesis using False R p by (simp add: K(2) asm_rel_def)
  qed
  have f: "k_ctx ?k (st new) = ctx_of (\<lambda>y. m (st new + REGS_OFFSET y))" using frames [OF stP] by (simp add: ctx_at_def)
  have "k_regs ?k = ctx_of (reg_member a' x)"
    unfolding K(3) f x by (simp, rule ctx_at_loaded) (use run(2,3,5) new loaded_lookup in auto)
  moreover have "a_cp0 a' = k_cpu ?k" using K(4) f run(4) new R args(2) by (simp add: asm_rel_def)
  ultimately have "asm_rel P T a' ?k" "cpu_switch_context_asm a = (c_ra (k_regs ?k), a')"
    using frames tops run(1) K(1) by (auto simp: asm_rel_def regs_rel_def cpu_switch_context_asm_def a'_def [symmetric])
  then show ?thesis by blast
qed

section \<open>The general exception handler\<close>

definition DEVICE_DORDER_ADDR :: u32 where "DEVICE_DORDER_ADDR = 0x10000010"

definition SETUP_STATIC_AREA_code :: "gpr \<Rightarrow> gpr \<Rightarrow> gpr \<Rightarrow> u32 \<Rightarrow> instr list" where
  "SETUP_STATIC_AREA_code temp0 temp1 ptr displacement =
     [LA temp0 (ADDR_IN_KSEG1 DEVICE_DORDER_ADDR), LW temp1 0 temp0, SLL temp0 temp1 KERNEL_STATIC_SHIFT,
      LA ptr (ADDR_IN_KSEG0 KERNEL_STATIC_ADDR - displacement), ADDU ptr ptr temp0, LA temp0 KERNEL_STATIC_SIZE, ADDU ptr ptr temp0]"

text \<open>\<^verbatim>\<open>handle_general\<close> up to the call of \<^verbatim>\<open>wrapped_general\<close>, with the delay slot of the call, and from its return on, without the final \<^verbatim>\<open>eret\<close>.\<close>

definition general_static_code :: "instr list" where
  "general_static_code =
     SETUP_STATIC_AREA_code R_k0 R_k1 R_k1 KERNEL_STATIC_SIZE @
     [MFC0 R_k0 C0_epc, SW R_k0 STATIC_OFFSET_EPC R_k1, MFC0 R_k0 C0_cause, SW R_k0 STATIC_OFFSET_CAUSE R_k1,
      MFC0 R_k0 C0_badvaddr, SW R_k0 STATIC_OFFSET_BADVA R_k1, MFC0 R_k0 C0_entryhi, SW R_k0 STATIC_OFFSET_ENTRYHI R_k1,
      MFC0 R_k0 C0_status, SW R_k0 STATIC_OFFSET_STATUS R_k1,
      LA R_k1 (NOT (CP0_STATUS_MASK STATUS_KSU OR CP0_STATUS_MASK STATUS_EXL OR CP0_STATUS_IE_MASK)), ANDR R_k0 R_k0 R_k1, MTC0 R_k0 C0_status]"

definition general_frame_code :: "instr list" where
  "general_frame_code =
     [ADDIU R_sp (- CONTEXT_SIZE)] @
     SAVE_REGISTERS_code R_sp @
     [MFLO R_t0, MFHI R_t1, SW R_t0 (REGS_OFFSET M_lo) R_sp, SW R_t1 (REGS_OFFSET M_hi) R_sp] @
     SETUP_STATIC_AREA_code R_k0 R_k1 R_t1 KERNEL_STATIC_SIZE @
     [LW R_t0 STATIC_OFFSET_EPC R_t1, SW R_t0 (REGS_OFFSET M_epc) R_sp, LW R_t0 STATIC_OFFSET_CAUSE R_t1, SW R_t0 (REGS_OFFSET M_cause) R_sp,
      LW R_t0 STATIC_OFFSET_BADVA R_t1, SW R_t0 (REGS_OFFSET M_badva) R_sp, LW R_t0 STATIC_OFFSET_ENTRYHI R_t1, SW R_t0 (REGS_OFFSET M_entryhi) R_sp,
      LW R_t0 STATIC_OFFSET_STATUS R_t1, SW R_t0 (REGS_OFFSET M_status) R_sp]"

definition handle_general_save_code :: "instr list" where
  "handle_general_save_code = general_static_code @ general_frame_code @ [ORR R_a0 R_zero R_sp, ADDIU R_sp (- ABI_STACK_FRAME)]"

definition general_unframe_code :: "instr list" where
  "general_unframe_code =
     SETUP_STATIC_AREA_code R_k0 R_k1 R_t1 KERNEL_STATIC_SIZE @
     [LW R_t0 (REGS_OFFSET M_status) R_sp, SW R_t0 STATIC_OFFSET_STATUS R_t1, LW R_t0 (REGS_OFFSET M_epc) R_sp, SW R_t0 STATIC_OFFSET_EPC R_t1,
      LW R_t0 (REGS_OFFSET M_lo) R_sp, LW R_t1 (REGS_OFFSET M_hi) R_sp, MTLO R_t0, MTHI R_t1] @
     LOAD_REGISTERS_code R_sp @
     [ADDIU R_sp CONTEXT_SIZE]"

definition handle_general_load_code :: "instr list" where
  "handle_general_load_code =
     [ADDIU R_sp ABI_STACK_FRAME] @ general_unframe_code @
     SETUP_STATIC_AREA_code R_k0 R_k1 R_k1 KERNEL_STATIC_SIZE @
     [LW R_k0 STATIC_OFFSET_EPC R_k1, MTC0 R_k0 C0_epc, LW R_k0 STATIC_OFFSET_STATUS R_k1, MTC0 R_k0 C0_status]"

definition eret_asm :: "asm \<Rightarrow> u32 \<times> asm" where
  "eret_asm a = (r_epc (a_cp0 a), a\<lparr>a_cp0 := (a_cp0 a)\<lparr>r_status := r_status (a_cp0 a) AND NOT (CP0_STATUS_MASK STATUS_EXL)\<rparr>\<rparr>)"

abbreviation dorder_cell :: u32 where "dorder_cell \<equiv> ADDR_IN_KSEG1 DEVICE_DORDER_ADDR"

lemma setup_code:
  assumes "temp0 \<noteq> temp1" and "temp0 \<noteq> ptr" and "R_zero \<notin> {temp0, temp1, ptr}"
  shows "run_code (SETUP_STATIC_AREA_code temp0 temp1 ptr d) a = set_reg ptr (SETUP_STATIC_AREA (a_mem a dorder_cell) d)
    (set_reg temp0 KERNEL_STATIC_SIZE (set_reg temp1 (a_mem a dorder_cell) a))"
  using assms
  by (auto simp: SETUP_STATIC_AREA_code_def SETUP_STATIC_AREA_def Let_def set_reg_def fun_upd_twist reg_def algebra_simps
    intro!: asm.equality ext)

definition static_cells :: "u32 \<Rightarrow> u32 set" where
  "static_cells p = {p + STATIC_OFFSET_EPC, p + STATIC_OFFSET_CAUSE, p + STATIC_OFFSET_BADVA, p + STATIC_OFFSET_ENTRYHI, p + STATIC_OFFSET_STATUS}"

lemma in_static_cells [simp]: "p + STATIC_OFFSET_EPC \<in> static_cells p" "p + STATIC_OFFSET_CAUSE \<in> static_cells p" "p + STATIC_OFFSET_BADVA \<in> static_cells p"
  "p + STATIC_OFFSET_ENTRYHI \<in> static_cells p" "p + STATIC_OFFSET_STATUS \<in> static_cells p"
  by (simp_all add: static_cells_def)

lemma set_mem_frame [simp]:
  "set_reg r v (a\<lparr>a_mem := m\<rparr>) = (set_reg r v a)\<lparr>a_mem := m\<rparr>" "set_reg r v (a\<lparr>a_cp0 := c\<rparr>) = (set_reg r v a)\<lparr>a_cp0 := c\<rparr>"
  "set_reg r v (a\<lparr>a_lo := l\<rparr>) = (set_reg r v a)\<lparr>a_lo := l\<rparr>" "set_reg r v (a\<lparr>a_hi := l\<rparr>) = (set_reg r v a)\<lparr>a_hi := l\<rparr>"
  by (simp_all add: set_reg_def)

text \<open>The words of the static area after the registers have been put there.\<close>

definition static_saved :: "u32 \<Rightarrow> cp0 \<Rightarrow> mem \<Rightarrow> mem" where
  "static_saved p c m = m(p + STATIC_OFFSET_EPC := r_epc c, p + STATIC_OFFSET_CAUSE := r_cause c, p + STATIC_OFFSET_BADVA := r_badvaddr c,
     p + STATIC_OFFSET_ENTRYHI := r_entryhi c, p + STATIC_OFFSET_STATUS := r_status c)"

lemma static_saved_other: "q \<notin> static_cells p \<Longrightarrow> static_saved p c m q = m q"
  by (simp add: static_saved_def static_cells_def)

lemma static_saved_cells:
  "static_saved p c m (p + STATIC_OFFSET_EPC) = r_epc c" "static_saved p c m (p + STATIC_OFFSET_CAUSE) = r_cause c"
  "static_saved p c m (p + STATIC_OFFSET_BADVA) = r_badvaddr c" "static_saved p c m (p + STATIC_OFFSET_ENTRYHI) = r_entryhi c"
  "static_saved p c m (p + STATIC_OFFSET_STATUS) = r_status c"
  by (simp_all add: static_saved_def static_offset_defs)

abbreviation static_area :: "asm \<Rightarrow> u32" where
  "static_area a \<equiv> SETUP_STATIC_AREA (a_mem a dorder_cell) KERNEL_STATIC_SIZE"

definition kernel_status :: "u32 \<Rightarrow> u32" where
  "kernel_status v = v AND NOT (CP0_STATUS_MASK STATUS_KSU OR CP0_STATUS_MASK STATUS_EXL OR CP0_STATUS_IE_MASK)"

lemma static_run:
  fixes a :: asm
  defines "a' \<equiv> run_code general_static_code a"
  shows "a_mem a' = static_saved (static_area a) (a_cp0 a) (a_mem a)" and "a_lo a' = a_lo a" and "a_hi a' = a_hi a"
    and "a_cp0 a' = (a_cp0 a)\<lparr>r_status := kernel_status (r_status (a_cp0 a))\<rparr>"
    and "r \<notin> {R_k0, R_k1} \<Longrightarrow> reg a' r = reg a r"
  by (simp_all add: a'_def general_static_code_def setup_code static_saved_def kernel_status_def read_cp0_register_def write_cp0_register_def
    del: fun_upd_apply)

lemma frame_run:
  fixes a :: asm
  assumes sp: "sp = reg a R_sp - CONTEXT_SIZE" and p: "p = static_area a"
    and apart: "dorder_cell \<notin> frame_cells sp" "static_cells p \<inter> frame_cells sp = {}"
  defines "a' \<equiv> run_code general_frame_code a"
  shows "a_mem a' = (stored saved_registers ((reg a)(R_sp := sp)) sp (a_mem a))(sp + REGS_OFFSET M_lo := a_lo a, sp + REGS_OFFSET M_hi := a_hi a,
      sp + REGS_OFFSET M_epc := a_mem a (p + STATIC_OFFSET_EPC), sp + REGS_OFFSET M_cause := a_mem a (p + STATIC_OFFSET_CAUSE),
      sp + REGS_OFFSET M_badva := a_mem a (p + STATIC_OFFSET_BADVA), sp + REGS_OFFSET M_entryhi := a_mem a (p + STATIC_OFFSET_ENTRYHI),
      sp + REGS_OFFSET M_status := a_mem a (p + STATIC_OFFSET_STATUS))"
    and "a_lo a' = a_lo a" and "a_hi a' = a_hi a" and "a_cp0 a' = a_cp0 a"
    and "r \<notin> {R_k0, R_k1, R_t0, R_t1} \<Longrightarrow> reg a' r = (if r = R_sp then sp else reg a r)"
proof -
  have ne: "dorder_cell \<noteq> sp + REGS_OFFSET x" "p + STATIC_OFFSET_EPC \<noteq> sp + REGS_OFFSET x" "p + STATIC_OFFSET_CAUSE \<noteq> sp + REGS_OFFSET x"
    "p + STATIC_OFFSET_BADVA \<noteq> sp + REGS_OFFSET x" "p + STATIC_OFFSET_ENTRYHI \<noteq> sp + REGS_OFFSET x" "p + STATIC_OFFSET_STATUS \<noteq> sp + REGS_OFFSET x" for x
    using apart by (metis in_cells, (metis in_cells in_static_cells disjoint_iff)+)
  have st: "stored saved_registers v sp m dorder_cell = m dorder_cell" "stored saved_registers v sp m (p + STATIC_OFFSET_EPC) = m (p + STATIC_OFFSET_EPC)"
    "stored saved_registers v sp m (p + STATIC_OFFSET_CAUSE) = m (p + STATIC_OFFSET_CAUSE)" "stored saved_registers v sp m (p + STATIC_OFFSET_BADVA) = m (p + STATIC_OFFSET_BADVA)"
    "stored saved_registers v sp m (p + STATIC_OFFSET_ENTRYHI) = m (p + STATIC_OFFSET_ENTRYHI)"
    "stored saved_registers v sp m (p + STATIC_OFFSET_STATUS) = m (p + STATIC_OFFSET_STATUS)" for v m
    using apart by (auto intro!: stored_other dest: disjoint_iff [THEN iffD1])
  define a1 where "a1 = run_code ([ADDIU R_sp (- CONTEXT_SIZE)] @ SAVE_REGISTERS_code R_sp @
     [MFLO R_t0, MFHI R_t1, SW R_t0 (REGS_OFFSET M_lo) R_sp, SW R_t1 (REGS_OFFSET M_hi) R_sp]) a"
  have a1: "a_mem a1 = (stored saved_registers ((reg a)(R_sp := sp)) sp (a_mem a))(sp + REGS_OFFSET M_lo := a_lo a, sp + REGS_OFFSET M_hi := a_hi a)"
    "a_lo a1 = a_lo a" "a_hi a1 = a_hi a" "a_cp0 a1 = a_cp0 a" "r \<notin> {R_t0, R_t1} \<Longrightarrow> reg a1 r = (if r = R_sp then sp else reg a r)" for r
    by (simp_all add: a1_def save_code step_set_sp sp del: fun_upd_apply) (simp_all add: sp)
  have a': "a' = run_code ([LW R_t0 STATIC_OFFSET_EPC R_t1, SW R_t0 (REGS_OFFSET M_epc) R_sp, LW R_t0 STATIC_OFFSET_CAUSE R_t1, SW R_t0 (REGS_OFFSET M_cause) R_sp,
      LW R_t0 STATIC_OFFSET_BADVA R_t1, SW R_t0 (REGS_OFFSET M_badva) R_sp, LW R_t0 STATIC_OFFSET_ENTRYHI R_t1, SW R_t0 (REGS_OFFSET M_entryhi) R_sp,
      LW R_t0 STATIC_OFFSET_STATUS R_t1, SW R_t0 (REGS_OFFSET M_status) R_sp]) (run_code (SETUP_STATIC_AREA_code R_k0 R_k1 R_t1 KERNEL_STATIC_SIZE) a1)"
    unfolding a'_def a1_def general_frame_code_def by (simp only: run_simps append_assoc)
  show "a_lo a' = a_lo a" "a_hi a' = a_hi a" "a_cp0 a' = a_cp0 a" by (simp_all add: a' setup_code a1)
  show "r \<notin> {R_k0, R_k1, R_t0, R_t1} \<Longrightarrow> reg a' r = (if r = R_sp then sp else reg a r)" by (simp add: a' setup_code a1)
  show "a_mem a' = (stored saved_registers ((reg a)(R_sp := sp)) sp (a_mem a))(sp + REGS_OFFSET M_lo := a_lo a, sp + REGS_OFFSET M_hi := a_hi a,
      sp + REGS_OFFSET M_epc := a_mem a (p + STATIC_OFFSET_EPC), sp + REGS_OFFSET M_cause := a_mem a (p + STATIC_OFFSET_CAUSE),
      sp + REGS_OFFSET M_badva := a_mem a (p + STATIC_OFFSET_BADVA), sp + REGS_OFFSET M_entryhi := a_mem a (p + STATIC_OFFSET_ENTRYHI),
      sp + REGS_OFFSET M_status := a_mem a (p + STATIC_OFFSET_STATUS))"
    by (simp add: a' setup_code a1(1,5) p [symmetric] fun_upd_other ne st del: fun_upd_apply)
qed

text \<open>The relation for the exception handlers: the number of the processor is what the dorder device shows, and the words of its static area are those of the kernel state.
  The registers in \<open>X\<close> need not agree.\<close>

definition regs_rel_except :: "gpr set \<Rightarrow> asm \<Rightarrow> ctx \<Rightarrow> bool" where
  "regs_rel_except X a c \<longleftrightarrow> (\<exists>f. c = ctx_of f \<and> (\<forall>x r. gpr_of x = Some r \<longrightarrow> r \<notin> X \<longrightarrow> f x = reg a r) \<and> f M_lo = a_lo a \<and> f M_hi = a_hi a)"

definition frames_rel :: "u32 set \<Rightarrow> asm \<Rightarrow> ('fs, 'z) ekernel_scheme \<Rightarrow> bool" where
  "frames_rel P a s \<longleftrightarrow> a_cp0 a = k_cpu s \<and> (\<forall>p \<in> P. ctx_at (a_mem a) p = k_ctx s p) \<and>
     a_mem a dorder_cell = k_cpuid s \<and> (\<forall>q \<in> static_cells (static_area a). a_mem a q = k_static s q)"

definition general_rel :: "gpr set \<Rightarrow> u32 set \<Rightarrow> asm \<Rightarrow> ('fs, 'z) ekernel_scheme \<Rightarrow> bool" where
  "general_rel X P a s \<longleftrightarrow> regs_rel_except X a (k_regs s) \<and> frames_rel P a s"

definition areas_apart :: "u32 set \<Rightarrow> u32 \<Rightarrow> bool" where
  "areas_apart P p \<longleftrightarrow> frames_apart P ({dorder_cell} \<union> static_cells p) \<and> dorder_cell \<notin> static_cells p"

lemma handle_general_save_result:
  assumes "handle_general_save s = (sp, k)" and "p = SETUP_STATIC_AREA (k_cpuid s) KERNEL_STATIC_SIZE"
  shows "sp = c_sp (k_regs s) - CONTEXT_SIZE" and "k_cpuid k = k_cpuid s" and "k_static k = static_saved p (k_cpu s) (k_static s)"
    and "k_cpu k = (k_cpu s)\<lparr>r_status := kernel_status (r_status (k_cpu s))\<rparr>"
    and "k_regs k = (k_regs s)\<lparr>c_a0 := sp, c_sp := sp - ABI_STACK_FRAME\<rparr>"
    and "k_ctx k = (k_ctx s)(sp := (SAVE_REGISTERS (k_regs s) (k_ctx s sp))\<lparr>c_lo := c_lo (k_regs s), c_hi := c_hi (k_regs s), c_epc := r_epc (k_cpu s),
      c_cause := r_cause (k_cpu s), c_badva := r_badvaddr (k_cpu s), c_entryhi := r_entryhi (k_cpu s), c_status := r_status (k_cpu s)\<rparr>)"
  using assms
  by (auto simp: handle_general_save_def Let_def static_saved_def kernel_status_def static_offset_defs cp0_read_defs cp0_write_defs)

lemma gpr_of_sp_a0: "gpr_of x = Some R_sp \<longleftrightarrow> x = M_sp" "gpr_of x = Some R_a0 \<longleftrightarrow> x = M_a0"
  by (cases x; simp)+

text \<open>C5: The assembler code of \<^verbatim>\<open>handle_general\<close> makes the frame that the model of the exception entry has: when it calls \<^verbatim>\<open>wrapped_general\<close>, the frame is in memory at the
  address in \<^verbatim>\<open>$a0\<close>, the Status register is the one of kernel code, the static area holds the state of the exception, other frames are intact, and all registers but the four
  scratch registers are as the model says.\<close>

theorem general_entry_refines:
  fixes s :: "('fs, 'z) ekernel_scheme"
  assumes R: "general_rel {} P a s" and A: "areas_apart P (static_area a)"
    and sp: "handle_general_save s = (sp, k)" "sp \<in> P"
  shows "general_rel {R_t0, R_t1, R_k0, R_k1} P (run_code handle_general_save_code a) k \<and> reg (run_code handle_general_save_code a) R_a0 = sp"
proof -
  let ?p = "static_area a"
  obtain f where f: "k_regs s = ctx_of f" "\<And>x r. gpr_of x = Some r \<Longrightarrow> f x = reg a r" "f M_lo = a_lo a" "f M_hi = a_hi a"
    using R by (auto simp: general_rel_def frames_rel_def regs_rel_except_def)
  have cpu: "a_mem a dorder_cell = k_cpuid s" using R by (simp add: general_rel_def frames_rel_def)
  note K = handle_general_save_result [OF sp(1) refl, folded cpu]
  define a1 where "a1 = run_code general_static_code a"
  define a2 where "a2 = run_code general_frame_code a1"
  define a' where "a' = run_code handle_general_save_code a"
  have a': "a' = run_code [ORR R_a0 R_zero R_sp, ADDIU R_sp (- ABI_STACK_FRAME)] a2" by (simp add: a'_def a2_def a1_def handle_general_save_code_def)
  note S = static_run [where a = a, folded a1_def]
  have apart: "dorder_cell \<notin> frame_cells sp" "static_cells ?p \<inter> frame_cells sp = {}" "dorder_cell \<notin> static_cells ?p"
    using A sp(2) by (auto simp: areas_apart_def frames_apart_def)
  have area: "static_area a1 = ?p" using apart(3) by (simp add: S static_saved_other)
  have "sp = reg a1 R_sp - CONTEXT_SIZE" using K(1) f(1) f(2) [of M_sp] S(5) [of R_sp] by simp
  note F = frame_run [OF this area [symmetric] apart(1,2), folded a2_def, unfolded S(1) static_saved_cells]
  have mem: "a_mem a' = a_mem a2" by (simp add: a')
  have away: "a_mem a2 q = static_saved ?p (a_cp0 a) (a_mem a) q" if "q \<notin> frame_cells sp" for q
    using that by (auto simp: F(1) stored_other)
  have cells: "q \<notin> frame_cells sp" if "q \<in> static_cells ?p \<union> {dorder_cell}" for q using that apart(1,2) by auto
  have frames: "ctx_at (a_mem a2) p = k_ctx k p" if p: "p \<in> P" for p
  proof (cases "p = sp")
    case True
    have "ctx_at (static_saved ?p (a_cp0 a) (a_mem a)) sp = ctx_at (a_mem a) sp"
      by (rule ctx_at_away, rule static_saved_other) (use apart(2) in auto)
    then have "ctx_at (static_saved ?p (a_cp0 a) (a_mem a)) sp = k_ctx s sp" using R sp(2) by (simp add: general_rel_def frames_rel_def)
    moreover have "((reg a1)(R_sp := sp)) r = f y" if "gpr_of y = Some r" "r \<notin> {R_sp, R_k0, R_k1}" for y r using that f(2) S(5) by auto
    ultimately show ?thesis using R ctx_at_stored [of "(reg a1)(R_sp := sp)" f sp]
      by (simp add: True F(1) S(2,3) ctx_at_updates K(6) f general_rel_def frames_rel_def)
  next
    case False
    then have "frame_cells p \<inter> frame_cells sp = {}" "frame_cells p \<inter> static_cells ?p = {}" using A p sp(2) by (auto simp: areas_apart_def frames_apart_def)
    then have "ctx_at (a_mem a2) p = ctx_at (a_mem a) p" using away by (intro ctx_at_away) (metis disjoint_iff static_saved_other)
    then show ?thesis using False R p by (simp add: K(6) general_rel_def frames_rel_def)
  qed
  have "static_area a' = ?p" "a_mem a' dorder_cell = k_cpuid k" using away [of dorder_cell] cells cpu K(2) apart(3) by (simp_all add: mem static_saved_other)
  moreover have "a_mem a' q = k_static k q" if "q \<in> static_cells ?p" for q
    using away [of q] cells [of q] that R by (simp add: mem K(3) general_rel_def frames_rel_def static_saved_def)
  moreover have "regs_rel_except {R_t0, R_t1, R_k0, R_k1} a' (k_regs k)"
    unfolding regs_rel_except_def K(5) f(1) ctx_of_updates
    by (rule exI [of _ "f(M_a0 := sp, M_sp := sp - ABI_STACK_FRAME)"])
      (use F(2,3,5) S(2,3,5) f(2-4) gpr_of_sp_a0 in \<open>auto simp: a'\<close>)
  moreover have "a_cp0 a' = k_cpu k" using R by (simp add: a' F S(4) K(4) general_rel_def frames_rel_def)
  moreover have "reg a' R_a0 = sp" using F(5) [of R_sp] by (simp add: a')
  ultimately show ?thesis using frames mem by (simp add: general_rel_def frames_rel_def a'_def)
qed

lemma unframe_run:
  fixes a :: asm
  assumes sp: "sp = reg a R_sp" and p: "p = static_area a"
    and apart: "dorder_cell \<notin> static_cells p" "static_cells p \<inter> frame_cells sp = {}"
  defines "a' \<equiv> run_code general_unframe_code a"
  shows "a_mem a' = (a_mem a)(p + STATIC_OFFSET_STATUS := a_mem a (sp + REGS_OFFSET M_status), p + STATIC_OFFSET_EPC := a_mem a (sp + REGS_OFFSET M_epc))"
    and "a_lo a' = a_mem a (sp + REGS_OFFSET M_lo)" and "a_hi a' = a_mem a (sp + REGS_OFFSET M_hi)" and "a_cp0 a' = a_cp0 a"
    and "gpr_of x = Some r \<Longrightarrow> r \<notin> {R_k0, R_k1} \<Longrightarrow>
      reg a' r = (if r = R_zero then 0 else if r = R_sp then sp + CONTEXT_SIZE else a_mem a (sp + REGS_OFFSET x))"
proof -
  have ne: "sp + REGS_OFFSET x \<noteq> p + STATIC_OFFSET_STATUS" "sp + REGS_OFFSET x \<noteq> p + STATIC_OFFSET_EPC" for x
    using apart(2) by (metis in_cells in_static_cells disjoint_iff)+
  define a1 where "a1 = run_code (SETUP_STATIC_AREA_code R_k0 R_k1 R_t1 KERNEL_STATIC_SIZE @
     [LW R_t0 (REGS_OFFSET M_status) R_sp, SW R_t0 STATIC_OFFSET_STATUS R_t1, LW R_t0 (REGS_OFFSET M_epc) R_sp, SW R_t0 STATIC_OFFSET_EPC R_t1,
      LW R_t0 (REGS_OFFSET M_lo) R_sp, LW R_t1 (REGS_OFFSET M_hi) R_sp, MTLO R_t0, MTHI R_t1]) a"
  have a1: "a_mem a1 = (a_mem a)(p + STATIC_OFFSET_STATUS := a_mem a (sp + REGS_OFFSET M_status), p + STATIC_OFFSET_EPC := a_mem a (sp + REGS_OFFSET M_epc))"
    "a_lo a1 = a_mem a (sp + REGS_OFFSET M_lo)" "a_hi a1 = a_mem a (sp + REGS_OFFSET M_hi)" "a_cp0 a1 = a_cp0 a" "reg a1 R_sp = sp"
    by (simp_all add: a1_def setup_code sp [symmetric] p [symmetric] fun_upd_other ne del: fun_upd_apply)
  have a': "a' = run_code (LOAD_REGISTERS_code R_sp @ [ADDIU R_sp CONTEXT_SIZE]) a1"
    unfolding a'_def a1_def general_unframe_code_def by (simp only: run_simps append_assoc)
  show "a_mem a' = (a_mem a)(p + STATIC_OFFSET_STATUS := a_mem a (sp + REGS_OFFSET M_status), p + STATIC_OFFSET_EPC := a_mem a (sp + REGS_OFFSET M_epc))"
    "a_lo a' = a_mem a (sp + REGS_OFFSET M_lo)" "a_hi a' = a_mem a (sp + REGS_OFFSET M_hi)" "a_cp0 a' = a_cp0 a"
    by (simp_all add: a' load_code a1)
  show "gpr_of x = Some r \<Longrightarrow> r \<notin> {R_k0, R_k1} \<Longrightarrow>
      reg a' r = (if r = R_zero then 0 else if r = R_sp then sp + CONTEXT_SIZE else a_mem a (sp + REGS_OFFSET x))"
    using loaded_lookup [of x r] ne loaded_lookup [of M_sp] by (auto simp: a' load_code a1)
qed

lemma handle_general_load_result:
  fixes s :: "('fs, 'z) ekernel_scheme" and junk :: ctx
  assumes "p = SETUP_STATIC_AREA (k_cpuid s) KERNEL_STATIC_SIZE" and "f = k_ctx s sp"
  defines "k \<equiv> snd (handle_general_load junk sp s)"
  shows "fst (handle_general_load junk sp s) = c_epc f" and "k_cpuid k = k_cpuid s" and "k_ctx k = k_ctx s"
    and "k_static k = (k_static s)(p + STATIC_OFFSET_STATUS := c_status f, p + STATIC_OFFSET_EPC := c_epc f)"
    and "k_cpu k = (k_cpu s)\<lparr>r_epc := c_epc f, r_status := c_status f AND NOT (CP0_STATUS_MASK STATUS_EXL)\<rparr>"
    and "k_regs k = (LOAD_REGISTERS f junk)\<lparr>c_lo := c_lo f, c_hi := c_hi f, c_k0 := c_status f, c_k1 := p, c_sp := sp + CONTEXT_SIZE\<rparr>"
  using assms
  by (simp_all add: handle_general_load_def eret_def Let_def static_offset_defs cp0_read_defs cp0_write_defs LOAD_REGISTERS_def)

text \<open>C6: The assembler code of \<^verbatim>\<open>handle_general\<close> after the C code is what the model of the return says: whatever the registers hold, with the stack pointer as the call left it, the
  code resumes at the address of the frame, with all the registers, the Status register and the static area of the model.\<close>

theorem general_exit_refines:
  fixes s :: "('fs, 'z) ekernel_scheme"
  assumes R: "frames_rel P a s" "regs_rel_except {} a junk" and A: "areas_apart P (static_area a)"
    and sp: "reg a R_sp = sp - ABI_STACK_FRAME" "sp \<in> P"
  shows "\<exists>a'. eret_asm (run_code handle_general_load_code a) = (fst (handle_general_load junk sp s), a') \<and> general_rel {} P a' (snd (handle_general_load junk sp s))"
proof -
  let ?p = "static_area a" and ?k = "snd (handle_general_load junk sp s)"
  have cpu: "a_mem a dorder_cell = k_cpuid s" using R by (simp add: frames_rel_def)
  note K = handle_general_load_result [where s = s and sp = sp and junk = junk, OF refl refl, folded cpu]
  define a0 where "a0 = run_code [ADDIU R_sp ABI_STACK_FRAME] a"
  define a1 where "a1 = run_code general_unframe_code a0"
  define a2 where "a2 = run_code (SETUP_STATIC_AREA_code R_k0 R_k1 R_k1 KERNEL_STATIC_SIZE @
     [LW R_k0 STATIC_OFFSET_EPC R_k1, MTC0 R_k0 C0_epc, LW R_k0 STATIC_OFFSET_STATUS R_k1, MTC0 R_k0 C0_status]) a1"
  have run: "run_code handle_general_load_code a = a2" unfolding a2_def a1_def a0_def handle_general_load_code_def by (simp only: run_simps append_assoc)
  have a0: "sp = reg a0 R_sp" "a_mem a0 = a_mem a" "a_cp0 a0 = a_cp0 a" by (simp_all add: a0_def sp)
  have apart: "static_cells ?p \<inter> frame_cells sp = {}" "dorder_cell \<notin> static_cells ?p"
    using A sp(2) by (auto simp: areas_apart_def frames_apart_def)
  note U = unframe_run [OF a0(1) refl, folded a1_def, unfolded a0(2,3), OF apart(2,1)]
  have area: "a_mem a1 dorder_cell = a_mem a dorder_cell" using apart(2) by (auto simp: U(1) static_cells_def)
  let ?f = "\<lambda>x. a_mem a (sp + REGS_OFFSET x)"
  have f: "k_ctx s sp = ctx_of ?f" using R(1) sp(2) by (simp add: frames_rel_def ctx_at_def)
  have st: "a_mem a1 (?p + STATIC_OFFSET_EPC) = ?f M_epc" "a_mem a1 (?p + STATIC_OFFSET_STATUS) = ?f M_status" by (simp_all add: U(1) static_offset_defs)
  have a2: "a_mem a2 = a_mem a1" "a_lo a2 = ?f M_lo" "a_hi a2 = ?f M_hi" 
    "a_cp0 a2 = (a_cp0 a)\<lparr>r_epc := ?f M_epc, r_status := ?f M_status\<rparr>" 
    "reg a2 r = (if r = R_k0 then ?f M_status else if r = R_k1 then ?p else reg a1 r)" for r
    by (simp_all add: a2_def setup_code U(2-4) area st write_cp0_register_def)
  obtain g where g: "junk = ctx_of g" "\<And>x r. gpr_of x = Some r \<Longrightarrow> g x = reg a r" using R(2) by (auto simp: regs_rel_except_def)
  define h where "h = (\<lambda>x. if x \<in> loaded_members then ?f x else g x)(M_lo := ?f M_lo, M_hi := ?f M_hi, M_k0 := ?f M_status, M_k1 := ?p, M_sp := sp + CONTEXT_SIZE)"
  have "h x = reg a2 r" if "gpr_of x = Some r" for x r
    using that U(5) [OF that] g(2) [OF that] by (cases x) (auto simp: a2 h_def loaded_members_def)
  moreover have "k_regs ?k = ctx_of h" unfolding K(6) by (simp only: f g(1) LOAD_REGISTERS_ctx ctx_of_updates ctx_of_members h_def)
  moreover have "h M_lo = a_lo a2" "h M_hi = a_hi a2" by (simp_all add: h_def a2)
  ultimately have "regs_rel_except {} a2 (k_regs ?k)" by (auto simp: regs_rel_except_def)
  moreover have "ctx_at (a_mem a2) p = k_ctx ?k p" if p: "p \<in> P" for p
  proof -
    have "frame_cells p \<inter> static_cells ?p = {}" using A p by (auto simp: areas_apart_def frames_apart_def)
    then have "ctx_at (a_mem a2) p = ctx_at (a_mem a) p"
      unfolding a2 U(1) by (intro ctx_at_away) (metis disjoint_iff fun_upd_other in_static_cells(1,5))
    then show ?thesis using R(1) p by (simp add: K(3) frames_rel_def)
  qed
  moreover have "a_mem a2 q = k_static ?k q" if "q \<in> static_cells ?p" for q using R(1) that by (simp add: a2 U(1) K(4) f frames_rel_def)
  moreover have "static_area a2 = ?p" "a_mem a2 dorder_cell = k_cpuid ?k" using area K(2) cpu by (simp_all add: a2)
  ultimately show ?thesis using R(1) by (simp add: run eret_asm_def K(1,5) f general_rel_def frames_rel_def a2(4) regs_rel_except_def)
qed

section \<open>Example machines\<close>

lemma cells_bounds:
  assumes "q \<in> frame_cells p" and "unat p + 156 \<le> 2 ^ 32"
  shows "unat p \<le> unat q \<and> unat q + 4 \<le> unat p + 156"
proof -
  obtain x where "q = p + W (offset_of x)" using assms(1) by (auto simp: frame_cells_def REGS_OFFSET_def)
  moreover have "unat (W (offset_of x)) = offset_of x" using offset_of_less [of x] by (simp add: unat_W)
  ultimately have "unat q = unat p + offset_of x" using unat_add_bounded [of p "W (offset_of x)"] assms(2) offset_of_less [of x] by simp
  then show ?thesis using offset_of_less [of x] by simp
qed

lemma cells_disjoint: "unat p + 156 \<le> unat q \<Longrightarrow> unat q + 156 \<le> 2 ^ 32 \<Longrightarrow> frame_cells p \<inter> frame_cells q = {}"
  using cells_bounds [of _ p] cells_bounds [of _ q] by fastforce

definition small_asm :: asm where
  "small_asm = \<lparr>a_gpr = (\<lambda>n. if n = 29 then 0x80052000 else if n = 4 then 0x8001001C else if n = 5 then 0x8002001C else if n = 6 then 5 else W n),
     a_lo = 3, a_hi = 4, a_cp0 = reset_cp0, a_mem = (\<lambda>q. if q = 0x8001001C then 0x80060000 else if q = 0x8002001C then 0x80070000 else if q = dorder_cell then 0 else q)\<rparr>"

definition kernel_of :: "asm \<Rightarrow> (nat set, 'z) kernel_scheme \<Rightarrow> (nat set, 'z) kernel_scheme" where
  "kernel_of a s = s\<lparr>k_regs := ctx_of (reg_member a (\<lambda>_. 0)), k_cpu := a_cp0 a, k_ctx := ctx_at (a_mem a), k_cpuid := a_mem a dorder_cell,
     thr := (\<lambda>t. (thr s t)\<lparr>stack_top := a_mem a (stack_top_addr t)\<rparr>)\<rparr>"

definition ekernel_of :: "asm \<Rightarrow> nat set ekernel" where
  "ekernel_of a = (kernel_of a (small_ekernel small_kernel))\<lparr>k_static := a_mem a\<rparr>"

lemma kernel_of_rel: "asm_rel P T a (kernel_of a s)"
  by (auto simp: asm_rel_def regs_rel_def kernel_of_def)

lemma ekernel_of_rel: "general_rel {} P a (ekernel_of a)"
  by (auto simp: general_rel_def frames_rel_def regs_rel_except_def ekernel_of_def kernel_of_def reg_member_def intro!: exI [of _ "reg_member a (\<lambda>_. 0)"])

lemma small_asm_sp: "reg small_asm R_sp = 0x80052000" "CONTEXT_SIZE = 156" "c_sp (k_regs (kernel_of small_asm s)) = 0x80052000"
  by (simp_all add: reg_def small_asm_def CONTEXT_SIZE_def kernel_of_def)

theorem switch_code_refines_witness:
  "\<exists>a'. cpu_switch_context_asm small_asm = (0x8007007C, a') \<and>
     asm_rel {0x80051F64, 0x80070000} {0x80010000, 0x80020000} a' (cpu_switch_context 0x80010000 0x80020000 5 (kernel_of small_asm small_kernel))"
proof -
  let ?s = "kernel_of small_asm small_kernel"
  have "frame_cells 0x80051F64 \<inter> frame_cells 0x80070000 = {}" by (rule cells_disjoint) simp_all
  moreover have "0x8001001C \<notin> frame_cells p" "0x8002001C \<notin> frame_cells p" if "p \<in> {0x80051F64, 0x80070000}" for p
    using that cells_bounds [of "0x8001001C" p] cells_bounds [of "0x8002001C" p] by auto
  ultimately have A: "frames_apart {0x80051F64, 0x80070000} (stack_top_addr ` {0x80010000, 0x80020000})"
    by (auto simp: frames_apart_def stack_top_addr_def)
  have "c_ra (k_regs (cpu_switch_context 0x80010000 0x80020000 5 ?s)) = 0x8007007C"
    by (simp add: switch_result(3) [OF refl refl] switch_result(2) [OF refl refl] small_asm_sp LOAD_REGISTERS_def)
      (simp add: kernel_of_def stack_top_addr_def small_asm_def ctx_at_def REGS_OFFSET_def offset_of_def context_t_def
        segment_defs DEVICE_DORDER_ADDR_def)
  then show ?thesis
    using switch_code_refines [where a = small_asm and s = ?s, OF kernel_of_rel A, where old = "0x80010000" and new = "0x80020000" and as = 5]
    by (simp add: small_asm_sp) (simp add: reg_def small_asm_def kernel_of_def stack_top_addr_def small_kernel_def)
qed

lemma small_areas: "static_area small_asm = 0x80000400"
  "p = 0x80051F64 \<or> p = 0x80052020 \<Longrightarrow> areas_apart {p} (static_area small_asm)"
proof -
  show s: "static_area small_asm = 0x80000400"
    by (simp add: small_asm_def SETUP_STATIC_AREA_def static_defs segment_defs DEVICE_DORDER_ADDR_def)
  have d: "dorder_cell = 0xB0000010" by (simp add: segment_defs DEVICE_DORDER_ADDR_def)
  assume "p = 0x80051F64 \<or> p = 0x80052020"
  then have "q \<notin> frame_cells p" if "unat q < 0x80051F64 \<or> unat q > 0x80053000" for q using that cells_bounds [of q p] by auto
  then show "areas_apart {p} (static_area small_asm)"
    unfolding s by (simp add: areas_apart_def frames_apart_def d static_cells_def static_offset_defs)
qed

theorem general_entry_refines_witness:
  "general_rel {R_t0, R_t1, R_k0, R_k1} {0x80051F64} (run_code handle_general_save_code small_asm) (snd (handle_general_save (ekernel_of small_asm))) \<and>
   reg (run_code handle_general_save_code small_asm) R_a0 = 0x80051F64"
proof -
  have "fst (handle_general_save (ekernel_of small_asm)) = 0x80051F64"
    by (simp add: handle_general_save_def Let_def ekernel_of_def small_asm_sp)
  then have "handle_general_save (ekernel_of small_asm) = (0x80051F64, snd (handle_general_save (ekernel_of small_asm)))"
    by (metis prod.collapse)
  from general_entry_refines [OF ekernel_of_rel small_areas(2) this] show ?thesis by simp
qed

theorem general_exit_refines_witness:
  "\<exists>a'. eret_asm (run_code handle_general_load_code small_asm) = (0x800520A8, a') \<and>
    general_rel {} {0x80052020} a' (snd (handle_general_load (ctx_of (reg_member small_asm (\<lambda>_. 0))) 0x80052020 (ekernel_of small_asm)))"
proof -
  have R: "frames_rel {0x80052020} small_asm (ekernel_of small_asm)" "regs_rel_except {} small_asm (ctx_of (reg_member small_asm (\<lambda>_. 0)))"
    using ekernel_of_rel [of "{0x80052020}" small_asm] by (simp_all add: general_rel_def ekernel_of_def kernel_of_def)
  have "fst (handle_general_load junk 0x80052020 (ekernel_of small_asm)) = 0x800520A8" for junk
    by (simp add: handle_general_load_result(1) [OF refl refl] ekernel_of_def kernel_of_def ctx_at_def)
      (simp add: small_asm_def REGS_OFFSET_def offset_of_def context_t_def segment_defs DEVICE_DORDER_ADDR_def)
  then show ?thesis
    using general_exit_refines [OF R small_areas(2), of "0x80052020"] by (simp add: small_asm_sp ABI_STACK_FRAME_def)
qed

end
