(* ===== verification/Sys_Thread.thy ===== *)
theory Sys_Thread
  imports Entry
begin

text \<open>
  User threads (\<^verbatim>\<open>kernel/proc/sys_thread.c\<close>): the stub that takes a user thread to user mode, and the system calls. Creating a user thread works on the heap, the list of the process, the
  scheduler and the address space together.
\<close>

unbundle bit_operations_syntax

section \<open>Operations\<close>

text \<open>The source uses two members of a process that its header does not declare: \<^verbatim>\<open>thread_list\<close>, whose address is an argument below, and \<^verbatim>\<open>stack_top\<close>, which is a field
  here. Nothing in the sources sets \<^verbatim>\<open>stack_top\<close> or relates it to the stack of the main thread, so whether user stacks are apart cannot be said. \<^verbatim>\<open>plist_append\<close> is an argument, too: the repository has no \<^verbatim>\<open>adt/plist.h\<close>.\<close>

record 'fs ukernel = "'fs ekernel" +
  p_stack_top :: "u32 \<Rightarrow> u32"

type_synonym list_append_fn = "mem \<Rightarrow> u32 \<Rightarrow> u32 \<Rightarrow> mem option"

definition uthread_stub :: "'fs falloc \<Rightarrow> u32 \<Rightarrow> ('fs, 'z) ukernel_scheme \<Rightarrow> (stub_result \<times> ('fs, 'z) ukernel_scheme) option" where
  "uthread_stub F uthread s = do {
     let (state, s1) = irq_off s;
     let process = u_process (uth s1 uthread);
     let s2 = s1\<lparr>p_stack_top := (p_stack_top s1)(process := p_stack_top s1 process - ALIGN_UP USER_STACK_SIZE (push_bit 1 PAGE_SIZE))\<rparr>;
     let base = p_stack_top s2 process;
     let s3 = irq_restore state s2;
     let sz = ALIGN_UP USER_STACK_SIZE PAGE_SIZE;
     (rc, base, s4) \<leftarrow> vma_map F base sz (VF_AT_KUSEG OR VF_VA_USER) s3;
     if rc \<noteq> EOK then Some (Stub_Returns NULL, s4)
     else do {
       let s5 = thread_set_process (u_process (uth s4 uthread)) uthread s4;
       let status = user_status (read_cp0_status (k_cpu s5));
       let s6 = s5\<lparr>k_cpu := write_cp0_status status (k_cpu s5)\<rparr>;
       let s7 = s6\<lparr>k_cpu := write_cp0_epc (u_entry (uth s6 uthread)) (k_cpu s6)\<rparr>;
       let (pc, s8) = cpu_uspace_jump (base + USER_STACK_SIZE) (u_data (uth s7 uthread)) (u_user_data (uth s7 uthread)) s7;
       Some (Enters_User pc, s8)
     }
   }"

text \<open>\<^verbatim>\<open>sys_thread_create\<close> with the addresses of the two stubs: the code, the new value of \<^verbatim>\<open>*tid\<close> and the state. When \<^verbatim>\<open>thread_create\<close> fails, the source appends the user
  thread to the list a second time.\<close>

definition sys_thread_create ::
  "'fs falloc \<Rightarrow> list_append_fn \<Rightarrow> (u32 \<Rightarrow> u32) \<Rightarrow> u32 \<Rightarrow> u32 \<Rightarrow> u32 \<Rightarrow> u32 \<Rightarrow> u32 \<Rightarrow> u32 \<Rightarrow> ('fs, 'z) ukernel_scheme \<Rightarrow>
    (u32 \<times> u32 \<times> ('fs, 'z) ukernel_scheme) option" where
  "sys_thread_create F plist_append thread_list stub ustub tid entry data user_data s = do {
     (uthread, s1) \<leftarrow> malloc F sizeof_uthread s;
     if uthread = NULL then Some (ENOMEM, tid, s1)
     else do {
       let (process, s2) = thread_get_process s1;
       let s3 = upd_uthread uthread (\<lambda>u. u\<lparr>u_process := process, u_entry := entry, u_data := data, u_user_data := user_data\<rparr>) s2;
       let (state, s4) = irq_off s3;
       m \<leftarrow> plist_append (k_mem s4) (thread_list (u_process (uth s4 uthread))) uthread;
       let s5 = irq_restore state (s4\<lparr>k_mem := m\<rparr>);
       (rc, t, s6) \<leftarrow> thread_create F stub (u_thread (uth s5 uthread)) ustub uthread 0 s5;
       let s7 = upd_uthread uthread (\<lambda>u. u\<lparr>u_thread := t\<rparr>) s6;
       if rc \<noteq> EOK then do {
         let (state, s8) = irq_off s7;
         m' \<leftarrow> plist_append (k_mem s8) (thread_list (u_process (uth s8 uthread))) uthread;
         let s9 = irq_restore state (s8\<lparr>k_mem := m'\<rparr>);
         s10 \<leftarrow> kfree F uthread s9;
         Some (rc, tid, s10)
       }
       else Some (EOK, uthread, s7)
     }
   }"

definition sys_thread_self :: "('fs, 'z) kernel_scheme \<Rightarrow> u32 \<times> ('fs, 'z) kernel_scheme" where
  "sys_thread_self s = thread_get_uthread s"

text \<open>The rest has no bodies yet.\<close>

definition sys_thread_usleep :: "u32 \<Rightarrow> ('fs, 'z) kernel_scheme \<Rightarrow> u32 \<times> ('fs, 'z) kernel_scheme" where
  "sys_thread_usleep usec s = (EOK, s)"

definition sys_thread_join :: "u32 \<Rightarrow> u32 \<Rightarrow> ('fs, 'z) kernel_scheme \<Rightarrow> u32 \<times> ('fs, 'z) kernel_scheme" where
  "sys_thread_join tid thread_retval s =
     (let (process, s1) = thread_get_process s;
          uthread = NULL;
          (state, s2) = irq_off s1;
          s3 = irq_restore state s2
      in if uthread = NULL then (EINVAL, s3) else (EOK, s3))"

definition sys_thread_finish :: "u32 \<Rightarrow> ('fs, 'z) kernel_scheme \<Rightarrow> u32 \<times> ('fs, 'z) kernel_scheme" where
  "sys_thread_finish thread_retval s = (EOK, s)"

section \<open>The list of user threads\<close>

text \<open>What the code expects of \<^verbatim>\<open>plist_append\<close>: it appends a new item and touches only the links of the list. The lists of \<^verbatim>\<open>adt/list.h\<close> keep this promise.\<close>

locale plist =
  fixes plist_append :: list_append_fn
  assumes append: "is_list m h xs \<Longrightarrow> k \<notin> set (h # xs) \<Longrightarrow> k \<noteq> NULL \<Longrightarrow> links_sep (insert k (set (h # xs))) \<Longrightarrow>
     \<exists>m'. plist_append m h k = Some m' \<and> is_list m' h (xs @ [k]) \<and> (\<forall>c. c \<notin> link_cells (insert k (set (h # xs))) \<longrightarrow> m' c = m c)"

interpretation pl: plist list_append
  by unfold_locales (rule list_append_correct)

text \<open>The list of the process: its cells are held, and they are not the links of the scheduler.\<close>

definition user_list :: "('fs \<Rightarrow> nat set) \<Rightarrow> hp list \<Rightarrow> sched_abs \<Rightarrow> u32 \<Rightarrow> u32 list \<Rightarrow> ('fs, 'z) kernel_scheme \<Rightarrow> bool" where
  "user_list owned hs a h us s \<longleftrightarrow> is_list (k_mem s) h us \<and> links_sep (set (h # us)) \<and>
     (\<forall>c \<in> link_cells (set (h # us)). held owned s hs (unat c) \<and> c \<notin> link_cells (sched_links s a))"

lemma user_list_kept:
  assumes "keeps owned a s hs s' hs'" and "user_list owned hs a h us s"
  shows "user_list owned hs' a h us s'"
proof -
  have "rq s' = rq s" using keeps_same [OF assms(1)] by (simp add: same_vars_def)
  then show ?thesis using assms list_kept [OF assms(1), of h us] by (auto simp: user_list_def keeps_def)
qed

lemma user_list_cong [simp]:
  "user_list owned hs a h us (s\<lparr>uth := U\<rparr>) = user_list owned hs a h us s" "user_list owned hs a h us (s\<lparr>k_cpu := c\<rparr>) = user_list owned hs a h us s"
  by (simp_all add: user_list_def)

lemma uthread_cells: "c \<in> link_cells {u} \<Longrightarrow> unat u + 28 < 2 ^ 32 \<Longrightarrow> unat c \<in> area (unat u, 28)"
  by (auto simp: link_cells_def area_def unat_word_ariths)

text \<open>Appending a new block of the heap.\<close>

context plist
begin

lemma append_block:
  assumes K: "kernel_ok F owned hs a s" and L: "user_list owned hs0 a h us s0" and k: "keeps owned a s0 hs0 s hs"
    and u: "u \<noteq> NULL" "unat u + 28 < 2 ^ 32" "\<And>x. x \<in> area (unat u, 28) \<Longrightarrow> held owned s hs x \<and> \<not> held owned s0 hs0 x" and K0: "kernel_ok F owned hs0 a s0"
  shows "\<exists>m. plist_append (k_mem s) h u = Some m \<and> user_list owned hs a h (us @ [u]) (s\<lparr>k_mem := m\<rparr>) \<and> kernel_ok F owned hs a (s\<lparr>k_mem := m\<rparr>) \<and>
     (\<forall>c. c \<notin> link_cells (set (h # us @ [u])) \<longrightarrow> m c = k_mem s c)"
proof -
  have L1: "user_list owned hs a h us s" by (rule user_list_kept [OF k L])
  have ar: "unat c \<in> area (unat u, 28)" if "c \<in> link_cells {u}" for c by (rule uthread_cells [OF that u(2)])
  have links: "link_cells (sched_links s a) = link_cells (sched_links s0 a)" using keeps_same [OF k] by (simp add: same_vars_def)
  have new: "c \<notin> link_cells (set (h # us))" "c \<notin> link_cells (sched_links s a)" "held owned s hs (unat c)" if "c \<in> link_cells {u}" for c
    using u(3) [OF ar [OF that]] L K0 links by (auto simp: user_list_def kernel_ok_def)
  have sep: "u \<notin> set (h # us)" "links_sep (insert u (set (h # us)))"
    using new(1) L1 by (auto simp: user_list_def link_cells_def links_sep_def)
  obtain m where m: "plist_append (k_mem s) h u = Some m" "is_list m h (us @ [u])" "\<forall>c. c \<notin> link_cells (insert u (set (h # us))) \<longrightarrow> m c = k_mem s c"
    using append [of "k_mem s" h us u] L1 sep u(1) by (auto simp: user_list_def)
  have cells: "link_cells (insert u (set (h # us))) = link_cells {u} \<union> link_cells (set (h # us))" "set (h # us @ [u]) = insert u (set (h # us))"
    by (auto simp: link_cells_def)
  have held: "held owned s hs (unat c) \<and> c \<notin> link_cells (sched_links s a)" if "c \<in> link_cells (insert u (set (h # us)))" for c
    using that new L1 unfolding cells by (auto simp: user_list_def)
  have "kernel_ok F owned hs a (s\<lparr>k_mem := m\<rparr>)" by (rule kernel_write [OF K]) (use held m(3) in blast)
  moreover have "user_list owned hs a h (us @ [u]) (s\<lparr>k_mem := m\<rparr>)"
    unfolding user_list_def cells(2) using m(2) sep(2) held by simp
  ultimately show ?thesis using m(1,3) unfolding cells(2) by blast
qed

end

section \<open>Creating a user thread\<close>

text \<open>What a created user thread is. \<open>u\<close> is a new block, the last item of the list of the process; \<open>t\<close> is its kernel thread.\<close>

definition uthread_created ::
  "'fs falloc \<Rightarrow> ('fs \<Rightarrow> nat set) \<Rightarrow> hp list \<Rightarrow> sched_abs \<Rightarrow> ('fs, 'z) ukernel_scheme \<Rightarrow> u32 \<Rightarrow> u32 list \<Rightarrow> u32 \<Rightarrow> u32 \<Rightarrow> u32 \<Rightarrow> u32 \<Rightarrow> u32 \<Rightarrow> hp list \<Rightarrow>
    ('fs, 'z) ukernel_scheme \<Rightarrow> bool" where
  "uthread_created F owned hs a s h us ustub entry data user_data u hs' s' \<longleftrightarrow>
     (let t = u_thread (uth s' u) in
       kernel_ok F owned hs' (spec_create t a) s' \<and> t \<notin> known a \<and> k_cpu s' = k_cpu s \<and> user_list owned hs' a h (us @ [u]) s' \<and>
       allocated hs \<subseteq> allocated hs' \<and> (\<exists>k \<ge> unat sizeof_uthread. (unat u, k) \<in> allocated hs' - allocated hs) \<and>
       uth s' u = \<lparr>u_thread = t, u_process = t_process (thr s (cur s)), u_entry = entry, u_data = data, u_user_data = user_data\<rparr> \<and>
       (\<forall>v. v \<noteq> u \<longrightarrow> uth s' v = uth s v) \<and> prc s' = prc s \<and>
       entry_func (thr s' t) = ustub \<and> entry_data (thr s' t) = u \<and> t_state (thr s' t) = THREAD_READY \<and>
       t_vmm (thr s' t) = t_vmm (thr s (cur s)) \<and> vmms s' = vmms s \<and>
       (\<forall>c. held owned s hs (unat c) \<and> c \<notin> link_cells (sched_links s a) \<and> c \<notin> link_cells (set (h # us)) \<longrightarrow> k_mem s' c = k_mem s c))"

lemma more_uth:
  fixes s s' :: "('fs, 'z) ukernel_scheme"
  assumes "kernel.more s = kernel.more s'"
  shows "prc s = prc s'" "uth s = uth s'" "p_stack_top s = p_stack_top s'"
  using assms by (cases s; cases s'; simp)+

lemma get_process_eq: "thread_get_process s = (t_process (thr s (cur s)), s)"
  by (rule thread_get_process_eq)

text \<open>The steps of \<^verbatim>\<open>sys_thread_create\<close> up to the call of \<^verbatim>\<open>thread_create\<close>, and from there on.\<close>

lemma create_steps:
  fixes s :: "('fs, 'z) ukernel_scheme"
  assumes "malloc F sizeof_uthread s = Some (u, s1)" and "u \<noteq> NULL" and h: "h = thread_list (t_process (thr s1 (cur s1)))"
    and m: "plist_append (k_mem s1) h u = Some m"
    and s5: "s5 = s1\<lparr>k_mem := m, uth := (uth s1)(u := (uth s1 u)\<lparr>u_process := t_process (thr s1 (cur s1)), u_entry := entry, u_data := data, u_user_data := user_data\<rparr>)\<rparr>"
    and c: "thread_create F stub (u_thread (uth s5 u)) ustub u 0 s5 = Some (rc, t, s6)"
  defines "s7 \<equiv> upd_uthread u (\<lambda>x. x\<lparr>u_thread := t\<rparr>) s6"
  shows "sys_thread_create F plist_append thread_list stub ustub tid entry data user_data s =
     (if rc = EOK then Some (EOK, u, s7)
      else do {
        m' \<leftarrow> plist_append (k_mem s7) (thread_list (u_process (uth s7 u))) u;
        s10 \<leftarrow> kfree F u (s7\<lparr>k_mem := m'\<rparr>);
        Some (rc, tid, s10) })"
proof -
  let ?s3 = "upd_uthread u (\<lambda>x. x\<lparr>u_process := t_process (thr s1 (cur s1)), u_entry := entry, u_data := data, u_user_data := user_data\<rparr>) s1"
  obtain st ci where i: "irq_off ?s3 = (st, ?s3\<lparr>k_cpu := ci\<rparr>)" "conditionally_enable_interrupts st ci = k_cpu ?s3" by (rule irq_offE)
  obtain st' ci' where i': "irq_off s7 = (st', s7\<lparr>k_cpu := ci'\<rparr>)" "conditionally_enable_interrupts st' ci' = k_cpu s7" by (rule irq_offE)
  have "irq_restore st (?s3\<lparr>k_cpu := ci, k_mem := m\<rparr>) = s5" using i(2) by (simp add: irq_restore_def s5 upd_uthread_def upd_order)
  moreover have "irq_restore st' (s7\<lparr>k_cpu := ci', k_mem := m'\<rparr>) = s7\<lparr>k_mem := m'\<rparr>" for m' using i'(2) by (simp add: irq_restore_def upd_order)
  ultimately show ?thesis using assms(1,2) m c i(1) i'(1)
    by (simp add: sys_thread_create_def get_process_eq h) (simp add: upd_uthread_def s7_def Let_def)
qed

text \<open>The state in which \<^verbatim>\<open>thread_create\<close> has failed: the user thread is on the list.\<close>

definition create_failed :: "('fs \<Rightarrow> nat set) \<Rightarrow> hp list \<Rightarrow> sched_abs \<Rightarrow> u32 \<Rightarrow> u32 list \<Rightarrow> u32 \<Rightarrow> hp list \<Rightarrow> ('fs, 'z) ukernel_scheme \<Rightarrow> bool" where
  "create_failed owned hs a h us u hs' s' \<longleftrightarrow> user_list owned hs' a h (us @ [u]) s' \<and> (\<exists>k. (unat u, k) \<in> allocated hs' - allocated hs)"

context plist
begin

lemma create_uthread_outcome:
  fixes s :: "('fs, 'z) ukernel_scheme"
  assumes K: "kernel_ok F owned hs a s" and L: "user_list owned hs a h us s" and h: "h = thread_list (t_process (thr s (cur s)))" and c: "cur s \<noteq> NULL"
  obtains (oom) s' where "sys_thread_create F plist_append thread_list stub ustub tid entry data user_data s = Some (ENOMEM, tid, s')"
      "kernel_ok F owned hs a s'" "keeps owned a s hs s' hs" "user_list owned hs a h us s'"
  | (ok) u hs' s' where "sys_thread_create F plist_append thread_list stub ustub tid entry data user_data s = Some (EOK, u, s')"
      "uthread_created F owned hs a s h us ustub entry data user_data u hs' s'"
  | (failed) u hs' s' where "create_failed owned hs a h us u hs' s'"
      "sys_thread_create F plist_append thread_list stub ustub tid entry data user_data s = do {
         m \<leftarrow> plist_append (k_mem s') h u; s2 \<leftarrow> kfree F u (s'\<lparr>k_mem := m\<rparr>); Some (ENOMEM, tid, s2) }"
proof -
  have n: "sizeof_uthread \<le> HEAP_BLOCK_SIZE_MAX" by (simp add: sizeof_uthread_def HEAP_BLOCK_SIZE_MAX_def)
  show thesis
  proof (cases rule: kernel_malloc [OF K n, case_names no yes])
    case (no fs')
    show thesis by (rule oom [of "s\<lparr>k_fs := fs'\<rparr>"]) (use no user_list_kept [OF no(3) L] in \<open>simp_all add: sys_thread_create_def\<close>)
  next
    case (yes u k hs1 m1 fs1)
    let ?s1 = "s\<lparr>k_mem := m1, k_fs := fs1\<rparr>" and ?pr = "t_process (thr s (cur s))"
    have k28: "28 \<le> k" using yes(3) by (simp add: sizeof_uthread_def)
    have new: "held owned ?s1 hs1 x \<and> \<not> held owned s hs x" if "x \<in> area (unat u, 28)" for x
      using yes(9) [of x] that k28 by (auto simp: area_def)
    from append_block [OF yes(7) L yes(8,2) _ new K] obtain m where m: "plist_append m1 h u = Some m"
      "user_list owned hs1 a h (us @ [u]) (?s1\<lparr>k_mem := m\<rparr>)" "kernel_ok F owned hs1 a (?s1\<lparr>k_mem := m\<rparr>)"
      "\<forall>c. c \<notin> link_cells (set (h # us @ [u])) \<longrightarrow> m c = m1 c" using yes(4) k28 by auto
    define U where "U = (uth s)(u := (uth s u)\<lparr>u_process := ?pr, u_entry := entry, u_data := data, u_user_data := user_data\<rparr>)"
    define s5 where "s5 = ?s1\<lparr>k_mem := m, uth := U\<rparr>"
    have K5: "kernel_ok F owned hs1 a s5" and L5: "user_list owned hs1 a h (us @ [u]) s5" using m(2,3) by (simp_all add: s5_def)
    obtain rc t s6 hs6 where tc: "thread_create F stub (u_thread (uth s5 u)) ustub u 0 s5 = Some (rc, t, s6)"
      and q: "if rc = EOK then created F owned hs1 a s5 stub ustub u 0 t hs6 s6 else rc = ENOMEM \<and> not_created F owned hs1 a s5 hs6 s6"
      using create_outcome [OF K5, of stub "u_thread (uth s5 u)" ustub u 0] by (auto split: if_splits)
    have k6: "keeps owned a s5 hs1 s6 hs6" using q by (auto simp: created_def not_created_def split: if_splits)
    have L6: "user_list owned hs6 a h (us @ [u]) s6" by (rule user_list_kept [OF k6 L5])
    have same: "uth s6 = U" "prc s6 = prc s" using q more_uth [of s6 s5] by (auto simp: created_def not_created_def s5_def split: if_splits)
    define s7 where "s7 = upd_uthread u (\<lambda>x. x\<lparr>u_thread := t\<rparr>) s6"
    have run: "sys_thread_create F plist_append thread_list stub ustub tid entry data user_data s =
       (if rc = EOK then Some (EOK, u, s7) else do {
          m' \<leftarrow> plist_append (k_mem s7) h u; s10 \<leftarrow> kfree F u (s7\<lparr>k_mem := m'\<rparr>); Some (rc, tid, s10) })"
    proof -
      have e: "thread_list (u_process (uth s7 u)) = h" "h = thread_list (t_process (thr ?s1 (cur ?s1)))" "plist_append (k_mem ?s1) h u = Some m"
        "s5 = ?s1\<lparr>k_mem := m, uth := (uth ?s1)(u := (uth ?s1 u)\<lparr>u_process := t_process (thr ?s1 (cur ?s1)), u_entry := entry, u_data := data, u_user_data := user_data\<rparr>)\<rparr>"
        using h same m(1) by (simp_all add: s5_def U_def s7_def upd_uthread_def)
      show ?thesis by (rule create_steps [where thread_list = thread_list and plist_append = plist_append and tid = tid, OF yes(1,2) e(2-4) tc, folded s7_def, unfolded e(1)])
    qed
    show thesis
    proof (cases "rc = EOK")
      case False
      then have "allocated hs6 = allocated hs1" "rc = ENOMEM" using q by (auto simp: not_created_def)
      moreover have "create_failed owned hs a h us u hs6 s7" using L6 yes(5,6) calculation(1) by (auto simp: create_failed_def s7_def upd_uthread_def)
      ultimately show thesis using run False by (intro failed) simp_all
    next
      case True
      then have C: "created F owned hs1 a s5 stub ustub u 0 t hs6 s6" using q by simp
      note C' = C [unfolded created_def]
      have nm: "\<not> new_map 0 s5" using c by (simp add: new_map_def s5_def TF_NEW_VMM_def)
      have U7: "uth s7 u = \<lparr>u_thread = t, u_process = ?pr, u_entry = entry, u_data = data, u_user_data = user_data\<rparr>" "\<forall>v. v \<noteq> u \<longrightarrow> uth s7 v = uth s v"
        using same by (simp_all add: s7_def upd_uthread_def U_def)
      have frame: "k_mem s6 c = k_mem s c" if hc: "held owned s hs (unat c)" and nc: "c \<notin> link_cells (sched_links s a)" "c \<notin> link_cells (set (h # us))" for c
      proof -
        have "c \<notin> link_cells {u}" using new hc uthread_cells [of c u] yes(4) k28 by fastforce
        then have "c \<notin> link_cells (set (h # us @ [u]))" using nc(2) by (auto simp: link_cells_def)
        then have "m c = m1 c" using m(4) by blast
        moreover have "m1 c = k_mem s c" using yes(8) hc nc by (auto simp: keeps_def)
        moreover have "held owned ?s1 hs1 (unat c)" using yes(8) hc unfolding keeps_def by blast
        then have "held owned s5 hs1 (unat c)" by (simp add: s5_def held_def kept_def)
        moreover have "k_mem s6 c = m c" using k6 calculation(3) nc(1) by (simp add: keeps_def s5_def)
        ultimately show ?thesis by simp
      qed
      have "uthread_created F owned hs a s h us ustub entry data user_data u hs6 s7"
        unfolding uthread_created_def Let_def U7 using C' nm L6 yes(3,5,6) U7 frame same(2)
        by (auto simp: s7_def upd_uthread_def s5_def)
      then show thesis using run True by (intro ok) simp_all
    qed
  qed
qed

end

text \<open>\<^verbatim>\<open>sys_thread_create\<close> in a kernel whose heaps, scheduler and list of user threads are well formed, with a \<^verbatim>\<open>plist_append\<close> that appends: it returns \<^verbatim>\<open>ENOMEM\<close> and leaves
  everything as it was, or it returns \<^verbatim>\<open>EOK\<close> and the user thread is a new block, the last of the list of the process and with the arguments of the call in it, and its kernel
  thread is the last of the run queue, starts in the stub with the user thread as its argument and shares the address space of the caller. The one other case is that
  \<^verbatim>\<open>thread_create\<close> fails: then the user thread, which is on the list already, is appended once more and freed.\<close>

theorem sys_thread_create_correct:
  fixes s :: "('fs, 'z) ukernel_scheme"
  assumes "plist plist_append" and "kernel_ok F owned hs a s" and "user_list owned hs a h us s" and "h = thread_list (t_process (thr s (cur s)))" and "cur s \<noteq> NULL"
  shows "(\<exists>s'. sys_thread_create F plist_append thread_list stub ustub tid entry data user_data s = Some (ENOMEM, tid, s') \<and>
       kernel_ok F owned hs a s' \<and> keeps owned a s hs s' hs \<and> user_list owned hs a h us s') \<or>
     (\<exists>u hs' s'. sys_thread_create F plist_append thread_list stub ustub tid entry data user_data s = Some (EOK, u, s') \<and>
       uthread_created F owned hs a s h us ustub entry data user_data u hs' s') \<or>
     (\<exists>u hs' s'. create_failed owned hs a h us u hs' s' \<and>
       sys_thread_create F plist_append thread_list stub ustub tid entry data user_data s = do {
         m \<leftarrow> plist_append (k_mem s') h u; s2 \<leftarrow> kfree F u (s'\<lparr>k_mem := m\<rparr>); Some (ENOMEM, tid, s2) })"
  by (rule plist.create_uthread_outcome [OF assms(1-3), of thread_list stub ustub tid entry data user_data]) (use assms(4,5) in blast)+

text \<open>The small system with a process whose list of user threads is empty.\<close>

definition uthread_kernel :: "nat set ukernel" where
  "uthread_kernel = kernel.extend (boot_kernel\<lparr>k_mem := (k_mem boot_kernel)(0x80004000 := 0x80004000, 0x80004004 := 0x80004000)\<rparr>)
     \<lparr>prc = (\<lambda>_. \<lparr>p_ustack_top = 0, p_main_uthread = 0, p_image = 0, p_size = 0, p_retval = 0\<rparr>),
      uth = (\<lambda>_. \<lparr>u_thread = 0, u_process = 0, u_entry = 0, u_data = 0, u_user_data = 0\<rparr>), k_bytes = (\<lambda>_. 0), k_static = (\<lambda>_. 0), p_stack_top = (\<lambda>_. 0x7FFFE000)\<rparr>"

lemma uthread_kernel_ok: "kernel_ok one_region (\<lambda>fs. fs) [] small_sched uthread_kernel" "user_list (\<lambda>fs. fs) [] small_sched 0x80004000 [] uthread_kernel"
proof -
  let ?m = "(k_mem boot_kernel)(0x80004000 := 0x80004000, 0x80004004 := 0x80004000)"
  have c: "held (\<lambda>fs. fs) boot_kernel [] (unat c) \<and> c \<notin> link_cells (sched_links boot_kernel small_sched)" if "c = 0x80004000 \<or> c = 0x80004004" for c
    using that by (auto simp: boot_kernel_def small_kernel_def small_sched_def known_def link_cells_def held_def kept_def heap_bytes_def)
  have "kernel_ok one_region (\<lambda>fs. fs) [] small_sched (boot_kernel\<lparr>k_mem := ?m\<rparr>)"
    by (rule kernel_write [OF boot_kernel_ok], rule c) (auto split: if_splits)
  then show "kernel_ok one_region (\<lambda>fs. fs) [] small_sched uthread_kernel"
    by (rule kernel_ok_cong) (simp_all add: uthread_kernel_def kernel.defs)
  have "is_list ?m 0x80004000 []" by (simp add: is_list_empty_iff link_next_def link_prev_def)
  then show "user_list (\<lambda>fs. fs) [] small_sched 0x80004000 [] uthread_kernel"
    using c [of "0x80004000"] c [of "0x80004004"]
    by (simp add: user_list_def uthread_kernel_def kernel.defs links_sep_def link_cells_def held_def kept_def)
qed

theorem sys_thread_create_correct_witness:
  "(\<exists>s'. sys_thread_create one_region list_append (\<lambda>_. 0x80004000) 0x80000400 0x80000600 0 0x1000 1 2 uthread_kernel = Some (ENOMEM, 0, s') \<and>
       user_list (\<lambda>fs. fs) [] small_sched 0x80004000 [] s') \<or>
   (\<exists>u hs' s'. sys_thread_create one_region list_append (\<lambda>_. 0x80004000) 0x80000400 0x80000600 0 0x1000 1 2 uthread_kernel = Some (EOK, u, s') \<and>
       uthread_created one_region (\<lambda>fs. fs) [] small_sched uthread_kernel 0x80004000 [] 0x80000600 0x1000 1 2 u hs' s') \<or>
   (\<exists>u hs' s'. create_failed (\<lambda>fs. fs) [] small_sched 0x80004000 [] u hs' s' \<and>
       sys_thread_create one_region list_append (\<lambda>_. 0x80004000) 0x80000400 0x80000600 0 0x1000 1 2 uthread_kernel = do {
         m \<leftarrow> list_append (k_mem s') 0x80004000 u; s2 \<leftarrow> kfree one_region u (s'\<lparr>k_mem := m\<rparr>); Some (ENOMEM, 0, s2) })"
  using sys_thread_create_correct [OF pl.plist_axioms uthread_kernel_ok, of "\<lambda>_. 0x80004000" "0x80000400" "0x80000600" 0 "0x1000" 1 2]
  by (auto simp: uthread_kernel_def kernel.defs boot_kernel_def small_kernel_def)

text \<open>Appending the last item of a list again, as the failure path does, ties it to itself: a walk over the list does not end any more.\<close>

lemma append_twice:
  assumes "is_list m h (xs @ [k])"
  shows "\<exists>m'. list_append m h k = Some m' \<and> link_next m' k = k"
proof -
  have "m h = k" using assms lseg_last [of m h "xs @ [k]" h] by (simp add: is_list_def link_prev_def)
  moreover have "h \<noteq> NULL" "k \<noteq> NULL" "h \<noteq> k" "h \<noteq> k + 4" "k \<noteq> h + 4" "k \<noteq> k + 4" using assms by (auto simp: is_list_def links_sep_def)
  ultimately show ?thesis by (auto simp: list_append_def link_prev_def link_next_def set_link_prev_def set_link_next_def Let_def)
qed

section \<open>Starting a user thread\<close>

lemma scan_finds: "x \<in> set vs \<Longrightarrow> P x \<Longrightarrow> vma_scan P i vs \<noteq> None"
  by (auto simp: vma_scan_None)

text \<open>What holds of the processor and of the map when a user thread starts on the stack at \<open>base\<close>.\<close>

definition uthread_started :: "u32 \<Rightarrow> u32 \<Rightarrow> ('fs, 'z) ukernel_scheme \<Rightarrow> u32 \<Rightarrow> ('fs, 'z) ukernel_scheme \<Rightarrow> bool" where
  "uthread_started u base s pc s' \<longleftrightarrow> pc = u_entry (uth s u) \<and> c_sp (k_regs s') = base + USER_STACK_SIZE \<and>
     c_a0 (k_regs s') = u_data (uth s u) \<and> c_a1 (k_regs s') = u_user_data (uth s u) \<and>
     field_get (CP0_STATUS STATUS_KSU) (r_status (k_cpu s')) = 2 \<and>
     r_status (k_cpu s') AND CP0_STATUS_MASK STATUS_EXL = 0 \<and> interrupts_on (k_cpu s') \<and>
     (\<forall>i < unat USER_STACK_SIZE. \<forall>ph. fst (vmm_mapping_find (base + W i) ph s') = EOK) \<and>
     t_process (thr s' (cur s')) = u_process (uth s u) \<and> t_uthread (thr s' (cur s')) = u"

lemma uthread_constants:
  "ALIGN_UP USER_STACK_SIZE (push_bit 1 PAGE_SIZE) = 0x2000" "USER_STACK_SIZE = 0x1000"
  by (simp_all add: ALIGN_UP_def USER_STACK_SIZE_def THREAD_STACK_SIZE_def PAGE_SIZE_def FRAME_SIZE_def FRAME_WIDTH_def)

text \<open>The stub of a user thread always ends. The member \<^verbatim>\<open>stack_top\<close> of the process moves down by two pages to the base of the new stack, which is one page long; the stub returns \<^verbatim>\<open>NULL\<close> when
  the frame allocator has no page for the stack, and otherwise leaves the kernel for user mode with interrupts enabled, at the entry function with its two arguments, on a
  stack all of whose addresses are mapped, and the thread belongs to the process.\<close>

theorem uthread_stub_enters_user:
  fixes s :: "('fs, 'z) ukernel_scheme"
  assumes j: "vma_scan (\<lambda>v. \<not> vma_valid v) 0 (vmas (vmms s (cur_vmm s))) = Some j"
    and b: "base = p_stack_top s (u_process (uth s u)) - 0x2000" "0x1000 dvd unat base" "unat base + 0x2000 \<le> 0x80000000"
  shows "\<exists>r s'. uthread_stub F u s = Some (r, s') \<and> p_stack_top s' = (p_stack_top s)(u_process (uth s u) := base) \<and>
     (case r of Stub_Returns rv \<Rightarrow> rv = NULL \<and> (\<exists>fs cnt. fst (frame_alloc F fs cnt (VF_VA_AUTO OR VF_AT_KSEG0)) \<noteq> EOK)
      | Enters_User pc \<Rightarrow> uthread_started u base s pc s')"
proof -
  let ?pr = "u_process (uth s u)" and ?v = "cur_vmm s"
  define s3 where "s3 = s\<lparr>p_stack_top := (p_stack_top s)(?pr := base)\<rparr>"
  obtain st c where i: "irq_off s = (st, s\<lparr>k_cpu := c\<rparr>)" "conditionally_enable_interrupts st c = k_cpu s" by (rule irq_offE)
  define r where "r = frame_alloc F (k_fs s3) (drop_bit 12 0x1000) (VF_VA_AUTO OR VF_AT_KSEG0)"
  have al: "ALIGN_DOWN base PAGE_SIZE = base" using b(2) ALIGN_DOWN_eq_iff [of base 12] by (simp add: PAGE_SIZE_def FRAME_SIZE_def FRAME_WIDTH_def)
  have jl: "j < length (vmas (vmms s ?v))" using vma_scan_SomeD [OF j] by simp
  define B where "B = new_area base 0x1000 (fst (snd r))"
  let ?s4 = "upd_vmm ?v (\<lambda>m. m\<lparr>vmas := (vmas m)[j := B]\<rparr>) (s3\<lparr>k_fs := snd (snd r)\<rparr>)"
  have m: "vma_map F base 0x1000 (VF_AT_KUSEG OR VF_VA_USER) s3 = (if fst r \<noteq> EOK then Some (fst r, base, s3\<lparr>k_fs := snd (snd r)\<rparr>) else Some (EOK, base, ?s4))"
    using user_map [OF al user_constants(4) r_def, of j] j by (simp add: B_def s3_def)
  have run: "uthread_stub F u s = do {
       (rc, base, s4) \<leftarrow> vma_map F base 0x1000 (VF_AT_KUSEG OR VF_VA_USER) s3;
       if rc \<noteq> EOK then Some (Stub_Returns NULL, s4)
       else do {
         let s5 = thread_set_process (u_process (uth s4 u)) u s4;
         let status = user_status (read_cp0_status (k_cpu s5));
         let s6 = s5\<lparr>k_cpu := write_cp0_status status (k_cpu s5)\<rparr>;
         let s7 = s6\<lparr>k_cpu := write_cp0_epc (u_entry (uth s6 u)) (k_cpu s6)\<rparr>;
         let (pc, s8) = cpu_uspace_jump (base + USER_STACK_SIZE) (u_data (uth s7 u)) (u_user_data (uth s7 u)) s7;
         Some (Enters_User pc, s8)
       }
     }"
  proof -
    have "irq_restore st (s\<lparr>k_cpu := c, p_stack_top := (p_stack_top s)(?pr := base)\<rparr>) = s3" using i(2) by (simp add: irq_restore_def s3_def upd_order)
    then show ?thesis using i(1) b(1) unfolding uthread_stub_def uthread_constants(1) user_constants(3) by (simp add: Let_def)
  qed
  show ?thesis
  proof (cases "fst r = EOK")
    case False
    then show ?thesis using m r_def unfolding run by (auto simp: s3_def)
  next
    case True
    define e where "e = snd (cpu_uspace_jump (base + USER_STACK_SIZE) (u_data (uth s u)) (u_user_data (uth s u))
      ((upd_thread (cur s) (\<lambda>t. t\<lparr>t_process := ?pr, t_uthread := u\<rparr>) ?s4)
        \<lparr>k_cpu := write_cp0_epc (u_entry (uth s u)) (write_cp0_status (user_status (read_cp0_status (k_cpu s))) (k_cpu s))\<rparr>))"
    have fin: "uthread_stub F u s = Some (Enters_User (u_entry (uth s u)), e)"
      using m True unfolding run
      by (simp add: thread_set_process_eq cpu_uspace_jump_def e_def upd_thread_def upd_vmm_def s3_def cp0_read_defs cp0_write_defs)
    have f: "cur e = cur s" "thr e (cur s) = (thr s (cur s))\<lparr>t_process := ?pr, t_uthread := u\<rparr>" "p_stack_top e = (p_stack_top s)(?pr := base)"
      "vmas (vmms e ?v) = (vmas (vmms s ?v))[j := B]" "c_sp (k_regs e) = base + USER_STACK_SIZE" "c_a0 (k_regs e) = u_data (uth s u)"
      "c_a1 (k_regs e) = u_user_data (uth s u)"
      "r_status (k_cpu e) = user_status (read_cp0_status (k_cpu s)) AND NOT (CP0_STATUS_MASK STATUS_EXL)"
      by (simp_all add: e_def cpu_uspace_jump_def upd_thread_def upd_vmm_def s3_def cp0_read_defs cp0_write_defs)
    have stack: "fst (vmm_mapping_find (base + W k) ph e) = EOK" if "k < unat USER_STACK_SIZE" for k ph
    proof -
      have "vma_maps (drop_bit 12 (base + W k)) B"
        using area_covers [of base 4096 "0x1000" k] b(2,3) that by (simp add: B_def uthread_constants)
      moreover have "B \<in> set (vmas (vmms e ?v))" unfolding f(4) by (rule set_update_memI [OF jl])
      ultimately have "mapped_frame (vmms e ?v) (drop_bit 12 (base + W k)) \<noteq> None"
        using scan_finds [of B "vmas (vmms e ?v)" "vma_maps (drop_bit 12 (base + W k))" 0] by (auto simp: mapped_frame_def split: option.split)
      then show ?thesis by (auto simp: vmm_mapping_find_eq f(1,2) split: option.split)
    qed
    have "uthread_started u base s (u_entry (uth s u)) e"
      unfolding uthread_started_def using f stack user_status_bits [of "read_cp0_status (k_cpu s)"] by (simp add: interrupts_on_def)
    then show ?thesis using fin f(3) by simp
  qed
qed

theorem uthread_stub_enters_user_witness:
  "\<exists>s'. uthread_stub roomy 0x80095000 (uthread_kernel\<lparr>vmms := (\<lambda>_. zero_vmm\<lparr>asid := 7\<rparr>)\<rparr>) = Some (Enters_User 0, s') \<and> c_sp (k_regs s') = 0x7FFFD000"
proof -
  let ?s = "uthread_kernel\<lparr>vmms := (\<lambda>_. zero_vmm\<lparr>asid := 7\<rparr>)\<rparr>"
  have "vma_scan (\<lambda>v. \<not> vma_valid v) 0 (vmas (vmms ?s (cur_vmm ?s))) = Some 0" using process_areas(1) [OF refl refl] by simp
  moreover have "(0x7FFFC000 :: u32) = p_stack_top ?s (u_process (uth ?s 0x80095000)) - 0x2000" "u_entry (uth ?s 0x80095000) = 0"
    by (simp_all add: uthread_kernel_def kernel.defs)
  ultimately obtain r s' where r: "uthread_stub roomy 0x80095000 ?s = Some (r, s')"
    "case r of Stub_Returns rv \<Rightarrow> rv = NULL \<and> (\<exists>fs cnt. fst (frame_alloc roomy fs cnt (VF_VA_AUTO OR VF_AT_KSEG0)) \<noteq> EOK)
      | Enters_User pc \<Rightarrow> uthread_started 0x80095000 0x7FFFC000 ?s pc s'" "u_entry (uth ?s 0x80095000) = 0"
    using uthread_stub_enters_user [of ?s 0 "0x7FFFC000" "0x80095000" roomy] by auto
  then obtain pc where "r = Enters_User pc" "uthread_started 0x80095000 0x7FFFC000 ?s pc s'" by (cases r) (auto simp: roomy_def)
  then show ?thesis using r(1,3) by (auto simp: uthread_started_def uthread_constants)
qed

end
