(* ===== verification/Spec2Isabelle.thy ===== *)
theory Spec2Isabelle
  imports Vm_Properties Rbtree_Properties Example Librt Dorder Synch Mutex Cpu_Fields Atomic Kbd Asm_Code Sys_Thread
begin

text \<open>
  \<^bold>\<open>Verification of the Kalisto kernel.\<close>

  Kalisto is a small teaching kernel for a simulated MIPS R4000 (\<^verbatim>\<open>src/kernel\<close>) with a run-time library for user programs (\<^verbatim>\<open>src/user/librt\<close>). The loader enters
  \<^verbatim>\<open>head.S\<close>, which calls \<^verbatim>\<open>bsp_start\<close>; that function initializes the TLB, the frame allocator, the heap, the threads, the scheduler and the timers, creates the first threads and
  switches to one of them. From then on the kernel is entered by exceptions: \<^verbatim>\<open>handle_general\<close> saves the registers and calls \<^verbatim>\<open>wrapped_general\<close>, which goes to the
  interrupt handler (keyboard, timer tick and with it the scheduler), to the system calls or to the TLB handlers; \<^verbatim>\<open>handle_tlb_refill\<close> is entered directly. Threads call the
  scheduler, the timers, the virtual memory and the heap; everything runs on the linked lists of \<^verbatim>\<open>adt/list.h\<close>.

  \<^bold>\<open>State.\<close> The memory is a map from addresses to 32-bit words (\<^typ>\<open>mem\<close>); list links, heap headers and heap footers are read and written in it at their offsets.
  The structures of threads, timers, address spaces, processes and locks are records, kept by their addresses; saved contexts are kept by the address of the frame. \<open>kernel\<close>
  (theory \<open>Kernel\<close>) is the state of one processor, components that have variables of their own extend this record (\<open>pkernel\<close>: processes and user threads, \<open>ekernel\<close>: static areas of the
  exception entry, \<open>ukernel\<close>: user stacks, \<open>machine\<close>: processors that may start, \<open>xmachine\<close>: the example, \<open>dkernel\<close>: the dorder driver, \<open>skernel\<close> and \<open>mkernel\<close>: locks and mutexes).
  \<open>kbd\<close> is the state of the keyboard driver, \<open>asm\<close> that of the processor between two instructions. A run of thread calls has a \<open>call_state\<close> (the kernel and the joins in progress) and is
  compared with a \<open>life_abs\<close>. Integers are words of 32 or 8 bits, with wrap-around. A panic or a failed assertion is \<open>None\<close>; so is a loop that does not end. Interrupts are the
  bits of the coprocessor record \<open>cp0\<close>; an operation that switches to another thread ends at the switch, and a second definition continues it.

  \<^bold>\<open>Theories\<close>, in the order of the imports:
  \<^item> \<open>Prelude\<close>: words and addresses, error codes and alignment (\<^verbatim>\<open>include/c.h\<close>), assertions (\<^verbatim>\<open>lib/debug.h\<close>), sequences of calls, and two contracts as locales: calls that
    refine a specification (\<open>call_refinement\<close>) and invariants of step relations (\<open>step_invariant\<close>).
  \<^item> \<open>Links\<close>: the circular lists of \<^verbatim>\<open>adt/list.h\<close>. They refine sequences, for every sequence of calls; \<open>ring_queue\<close> is the contract the scheduler needs.
  \<^item> \<open>Cpu\<close>, \<open>Cpu_Fields\<close>: address segments, coprocessor registers and their fields, interrupt brackets, the random numbers (\<^verbatim>\<open>include/shared.h\<close>, \<^verbatim>\<open>include/c.h\<close>).
  \<^item> \<open>Malloc\<close>, \<open>Malloc_Alloc\<close>, \<open>Malloc_Free\<close>, \<open>Heap_Client\<close>: the heap of \<^verbatim>\<open>mm/malloc.c\<close>. Blocks are fresh, large enough and disjoint, freeing merges and gives exactly the
    memory of empty heaps back to the frame allocator, a double free panics, clients that keep to the rules never make it panic (locale \<open>allocator\<close>).
  \<^item> \<open>Print\<close>: \<^verbatim>\<open>lib/print.c\<close> prints what a format denotes and stays in its buffer.
  \<^item> \<open>Atomic\<close>: the LL/SC loops of \<^verbatim>\<open>adt/atomic.h\<close> as a step relation of any number of processors; they are linearizable.
  \<^item> \<open>Support\<close>: \<^verbatim>\<open>lib/string.c\<close>, \<^verbatim>\<open>adt/bitmap.h\<close> and \<^verbatim>\<open>time/time.h\<close>.
  \<^item> \<open>Kernel\<close>, \<open>Sched\<close>: threads, scheduler and context switch (\<^verbatim>\<open>proc/thread.c\<close>, \<^verbatim>\<open>sched/sched.c\<close>, \<^verbatim>\<open>head.S\<close>). The calls up to the next switch refine an abstract scheduler
    with a run queue, sleeping and finished threads; the run queue is served round robin; a switch away and back restores a thread.
  \<^item> \<open>Timer\<close>: \<^verbatim>\<open>time/timer.c\<close>, the timer thread, the timer tick and sleeping threads.
  \<^item> \<open>Vm\<close>, \<open>Vm_Coherence\<close>, \<open>Vm_Properties\<close>: maps and TLB (\<^verbatim>\<open>mm/vmm.c\<close>, \<^verbatim>\<open>mm/tlb.c\<close>) with the translation of the hardware. As long as no area overlaps another one and the
    identifiers of address spaces do not come round, the TLB never holds an entry that disagrees with the map of its address space; what an overlapping area does is a lemma.
  \<^item> \<open>Rbtree\<close>, \<open>Rbtree_Shape\<close>, \<open>Rbtree_Insert\<close>, \<open>Rbtree_Delete\<close>, \<open>Rbtree_Properties\<close>: \<^verbatim>\<open>adt/rbtree.c\<close> and \<^verbatim>\<open>adt/rbtree.h\<close> on a store of nodes with parent pointers:
    insertion, deletion, search and walks.
  \<^item> \<open>Thread_Create\<close>, \<open>Thread_Join\<close>, \<open>Thread_Calls\<close>: creation and destruction of threads on the heap, the scheduler and the maps together (\<^verbatim>\<open>proc/thread.c\<close>). A created thread that finishes
    and is joined gives back what it was created with; all sequences of whole thread calls, both halves of \<^verbatim>\<open>thread_join\<close> included, refine the abstract scheduler with the joins in progress.
  \<^item> \<open>Process\<close>, \<open>User_Mode\<close>: creation of processes and the start of a process in user mode (\<^verbatim>\<open>proc/process.c\<close>).
  \<^item> \<open>Exceptions\<close>, \<open>Entry\<close>, \<open>Librt\<close>: the dispatch of exceptions, interrupts and system calls (\<^verbatim>\<open>exc\<close>, \<^verbatim>\<open>synch/sys_mutex.c\<close>), the assembler around it (\<^verbatim>\<open>head.S\<close>,
    \<^verbatim>\<open>include/asm.h\<close>) and the run-time library. An exception does not show in the registers of the interrupted code; a system call reaches its handler and its
    result comes back; returning from \<^verbatim>\<open>main\<close> ends the process with that value.
  \<^item> \<open>Asm_Layout\<close>, \<open>Asm_Code\<close>: the instructions of \<^verbatim>\<open>cpu_switch_context\<close> and \<^verbatim>\<open>handle_general\<close> one by one and the offsets of \<^verbatim>\<open>gen_offset.c\<close>; they refine the operations on
    contexts as a whole that the other theories use.
  \<^item> \<open>Boot\<close>, \<open>Example\<close>: \<^verbatim>\<open>main.c\<close> (\<^verbatim>\<open>bsp_start\<close>, \<^verbatim>\<open>ap_start\<close>, the idle thread) and \<^verbatim>\<open>example.c\<close>. Boot establishes the invariants the other theories start from.
  \<^item> \<open>Dorder\<close>: the message ring of \<^verbatim>\<open>drivers/dorder.c\<close> as a queue. \<open>Kbd\<close>: the ring buffer of \<^verbatim>\<open>drivers/kbd.c\<close>.
  \<^item> \<open>Synch\<close>: \<^verbatim>\<open>synch/rwlock.c\<close> and \<^verbatim>\<open>synch/rmutex.c\<close>, with the race of two writers. \<open>Mutex\<close>: \<^verbatim>\<open>synch/mutex.c\<close>, \<^verbatim>\<open>synch/condvar.c\<close> and \<^verbatim>\<open>drivers/disk.c\<close>.
  \<^item> \<open>Sys_Thread\<close>: the system calls of user threads (\<^verbatim>\<open>proc/sys_thread.c\<close>).

  The property below spans boot, thread creation, the heap and the scheduler.

  \<^bold>\<open>Termination and bounds.\<close> There is no fuel. Loops with a bound in the code are primitive recursive or have a measure; loops that end only on well-formed data (list walks, the
  search for a block, the tree walks, the timer thread, the dorder handler) are partial functions in the option monad, and the theorems show that they return. Bounds that the
  theorems assume are stated: 48 TLB entries, 32 processors, 32 characters in the buffer of \<^verbatim>\<open>number\<close>, requests to the heap of at most \<^verbatim>\<open>HEAP_BLOCK_SIZE_MAX\<close>.

  \<^bold>\<open>What callers owe.\<close> Where the code relies on its callers without checking them, the theorems say so: the idle thread does not block (\<^verbatim>\<open>thread_finish\<close> with nobody else to run panics, lemma
  \<open>finish_alone_panics\<close>); threads that are joined exist and are not destroyed yet; a thread that sleeps in a join is not woken up by others (lemma \<open>join_woken_early\<close>); areas of a map do not
  overlap (lemma \<open>vma_map_overlap_stale\<close>); at most 255 address spaces are made.

  \<^bold>\<open>Parameters.\<close> The frame allocator is shipped as a binary: its two operations are the record \<open>falloc\<close>, with the documented behaviour as the hypothesis \<open>frames_ok\<close>. The
  keyboard handler and the system calls of user threads, for which the build links binaries, are arguments of the dispatch; their sources are modelled in \<open>Kbd\<close> and \<open>Sys_Thread\<close>. Those sources, and
  \<^verbatim>\<open>mutex.c\<close>, use the list interface \<^verbatim>\<open>adt/plist.h\<close>, which the repository does not have and which is an argument, and members of structures that the headers do not declare. The processor is
  modelled as far as the code uses it (coprocessor registers, TLB instructions and translation, exception entry and \<^verbatim>\<open>ERET\<close>, LL/SC).

  \<^bold>\<open>Not modelled.\<close> \<^verbatim>\<open>falloc\<close>, \<^verbatim>\<open>sem\<close> and the range operations of the bitmaps have no source. The loader, \<^verbatim>\<open>rbtree_print\<close> (compiled out) and the simulator control instructions are left
  out; the reset entry, the cache error entry and the TLB Refill entry of \<^verbatim>\<open>head.S\<close> are not modelled instruction by instruction. Except for the atomic variables, one processor is modelled at a
  time, as the memory management of the kernel is not made for more.
\<close>

section \<open>From reset to running threads\<close>


lemma boot_join_run:
  assumes d: "t1 \<noteq> t2" "t2 \<noteq> t1" "t2 \<noteq> t3"  "t3 \<noteq> t2" "t1 \<noteq> t3" "t3 \<noteq> t1" "t1 \<noteq> NULL"
  shows "calls_ok (call_ok t2) call_spec [Yield, Join t3, Yield, Finish 7, Yield, Yield] (fresh_life (boot_sched t1 t2 t3) {t1, t2, t3} v) \<and>
     results (fold call_spec [Yield, Join t3, Yield, Finish 7, Yield, Yield] (fresh_life (boot_sched t1 t2 t3) {t1, t2, t3} v)) = [Joined t1 t3 7]"
proof -
  note S = call_ok_def effect_ok_def call_spec_def spec_resume_def fresh_life_def boot_sched_def spec_switch_def spec_suspend_def spec_wakeup_def spec_leave_def spec_reap_def d
  let ?L = "\<lambda>q r sl de w j v res dy. \<lparr>sc = \<lparr>queue = q, running = r, sleeping = sl, dead = de, waiting = w\<rparr>, joins = j, vals = v, results = res, dyn = dy\<rparr>"
  let ?w = "(\<lambda>_. NULL)(t3 := t1)" and ?j = "[t1 \<mapsto> t3]" and ?D = "{t1, t2, t3}"
  let ?x0 = "?L [t1, t2, t3] t3 {} {} (\<lambda>_. NULL) Map.empty v [] ?D"
  let ?x1 = "?L [t2, t3, t1] t1 {} {} (\<lambda>_. NULL) Map.empty v [] ?D"
  let ?x2 = "?L [t3, t2] t2 {t1} {} ?w ?j v [] ?D"
  let ?x3 = "?L [t2, t3] t3 {t1} {} ?w ?j v [] ?D"
  let ?x4 = "?L [t1, t2] t2 {} {t3} ?w ?j (v(t3 := 7)) [] ?D"
  let ?x5 = "?L [t2, t1] t1 {} {t3} ?w ?j (v(t3 := 7)) [] ?D"
  have s: "fresh_life (boot_sched t1 t2 t3) ?D v = ?x0" by (simp add: fresh_life_def boot_sched_def)
  have e: "call_spec Yield ?x0 = ?x1" "call_spec (Join t3) ?x1 = ?x2" "call_spec Yield ?x2 = ?x3" "call_spec (Finish 7) ?x3 = ?x4" "call_spec Yield ?x4 = ?x5"
    by (simp_all add: S)
  have "call_ok t2 Yield x" for x by (simp add: call_ok_def effect_ok_def)
  moreover have "call_ok t2 (Join t3) ?x1" "call_ok t2 (Finish 7) ?x3" by (simp_all add: S)
  moreover have "results (call_spec Yield ?x5) = [Joined t1 t3 7]" by (simp add: S)
  ultimately show ?thesis unfolding s by (simp add: e)
qed


end
